(* ===== verification/Ghw_Prelude.thy ===== *)
theory Ghw_Prelude
  imports Main "HOL-Library.Word"
begin

unbundle bit_operations_syntax

text \<open>
  Shared vocabulary of the development: the outcome of a piece of C code (a value, or one of the
  ways a C program has no further defined behaviour), its sequencing, C's checked \<open>int\<close>
  arithmetic, and the generic facts on these, on lists and on words that the component theories use.
\<close>

section \<open>Outcomes of C code\<close>

type_synonym byte = "8 word"
type_synonym u32 = "32 word"
type_synonym u64 = "64 word"

text \<open>
  The C functions of the program return a value, or never return one: they call \<open>abort\<close>,
  or they run into behaviour that C leaves undefined. \<open>No_return\<close> is the outcome of a loop that
  was cut off because its fuel ran out.
\<close>

datatype crash =
    Aborted         \<comment> \<open>a call of \<open>abort ()\<close>\<close>
  | Null_pointer    \<comment> \<open>a NULL pointer is dereferenced\<close>
  | Out_of_bounds   \<comment> \<open>an access outside of an array\<close>
  | Uninitialised   \<comment> \<open>a read of memory that was allocated and never written\<close>
  | Wrong_member    \<comment> \<open>a union is read through a member it does not hold\<close>
  | Int_overflow    \<comment> \<open>a signed addition, subtraction or multiplication overflows\<close>
  | Bad_shift       \<comment> \<open>a shift by the width of the operand or more\<close>
  | Bad_jump        \<comment> \<open>a \<open>longjmp\<close> into a function that has returned\<close>
  | Bad_free        \<comment> \<open>a block of memory is given back that is not allocated\<close>
  | No_return       \<comment> \<open>the fuel of a loop is used up\<close>

datatype 'a run = Done 'a | Crash crash

definition rbind :: "'a run \<Rightarrow> ('a \<Rightarrow> 'b run) \<Rightarrow> 'b run" where
  "rbind m f = (case m of Done x \<Rightarrow> f x | Crash c \<Rightarrow> Crash c)"

named_theorems run_simps

lemma rbind_Done [simp]: "rbind (Done x) f = f x"
  by (simp add: rbind_def)

lemma rbind_Crash [simp]: "rbind (Crash c) f = Crash c"
  by (simp add: rbind_def)

lemma rbind_assoc: "rbind (rbind m f) g = rbind m (\<lambda>x. rbind (f x) g)"
  by (cases m) simp_all

lemma rbind_cong [fundef_cong]:
  assumes "m = m'" and "\<And>x. m' = Done x \<Longrightarrow> f x = f' x"
  shows "rbind m f = rbind m' f'"
  using assms by (cases m') simp_all

lemma rbind_eq_Done: "rbind m f = Done y \<longleftrightarrow> (\<exists>x. m = Done x \<and> f x = Done y)"
  by (cases m) simp_all

lemma rbind_eq_Crash:
  "rbind m f = Crash c \<longleftrightarrow> m = Crash c \<or> (\<exists>x. m = Done x \<and> f x = Crash c)"
  by (cases m) simp_all

lemma rbind_DoneE [elim!]:
  assumes "rbind m f = Done y"
  obtains x where "m = Done x" and "f x = Done y"
  using assms by (auto simp: rbind_eq_Done)

text \<open>
  \<open>runs_to m Q\<close>: the code returns, and what it returns satisfies \<open>Q\<close>.
  \<open>may_run m Q\<close>: if the code returns, what it returns satisfies \<open>Q\<close>.
\<close>

definition runs_to :: "'a run \<Rightarrow> ('a \<Rightarrow> bool) \<Rightarrow> bool" where
  "runs_to m Q \<longleftrightarrow> (case m of Done x \<Rightarrow> Q x | Crash c \<Rightarrow> False)"

definition may_run :: "'a run \<Rightarrow> ('a \<Rightarrow> bool) \<Rightarrow> bool" where
  "may_run m Q \<longleftrightarrow> (case m of Done x \<Rightarrow> Q x | Crash c \<Rightarrow> True)"

lemma runs_to_simps [simp]:
  "runs_to (Done x) Q \<longleftrightarrow> Q x" "runs_to (Crash c) Q \<longleftrightarrow> False"
  by (simp_all add: runs_to_def)

lemma may_run_simps [simp]:
  "may_run (Done x) Q \<longleftrightarrow> Q x" "may_run (Crash c) Q"
  by (simp_all add: may_run_def)

lemma runs_to_rbind: "runs_to (rbind m f) Q \<longleftrightarrow> runs_to m (\<lambda>x. runs_to (f x) Q)"
  by (cases m) simp_all

lemma may_run_rbind: "may_run (rbind m f) Q \<longleftrightarrow> may_run m (\<lambda>x. may_run (f x) Q)"
  by (cases m) simp_all

lemma runs_to_mono: "runs_to m Q \<Longrightarrow> (\<And>x. Q x \<Longrightarrow> Q' x) \<Longrightarrow> runs_to m Q'"
  by (cases m) simp_all

lemma may_run_mono: "may_run m Q \<Longrightarrow> (\<And>x. Q x \<Longrightarrow> Q' x) \<Longrightarrow> may_run m Q'"
  by (cases m) simp_all

lemma may_runI: "(\<And>x. m = Done x \<Longrightarrow> Q x) \<Longrightarrow> may_run m Q"
  by (cases m) simp_all

lemma may_runD: "may_run m Q \<Longrightarrow> m = Done x \<Longrightarrow> Q x"
  by simp

lemma runs_toE:
  assumes "runs_to m Q"
  obtains x where "m = Done x" and "Q x"
  using assms by (cases m) simp_all

lemma runs_to_iff: "runs_to m Q \<longleftrightarrow> (\<exists>x. m = Done x \<and> Q x)"
  by (cases m) simp_all

text \<open>
  \<open>stops m\<close>: the code does not run into a loop without end. It may crash, but not because the
  fuel of a loop was too small.
\<close>

definition stops :: "'a run \<Rightarrow> bool" where
  "stops m \<longleftrightarrow> m \<noteq> Crash No_return"

lemma stops_Done [simp]: "stops (Done x)"
  by (simp add: stops_def)

lemma stops_Crash [simp]: "stops (Crash c) \<longleftrightarrow> c \<noteq> No_return"
  by (simp add: stops_def)

lemma stops_rbind: "stops m \<Longrightarrow> (\<And>x. m = Done x \<Longrightarrow> stops (f x)) \<Longrightarrow> stops (rbind m f)"
  by (cases m) (auto simp: stops_def)

lemma stops_If: "(b \<Longrightarrow> stops m) \<Longrightarrow> (\<not> b \<Longrightarrow> stops n) \<Longrightarrow> stops (if b then m else n)"
  by simp

lemma stops_option:
  "(p = None \<Longrightarrow> stops m) \<Longrightarrow> (\<And>x. p = Some x \<Longrightarrow> stops (f x)) \<Longrightarrow>
   stops (case p of None \<Rightarrow> m | Some x \<Rightarrow> f x)"
  by (cases p) simp_all

lemma stops_prod: "(\<And>a b. p = (a, b) \<Longrightarrow> stops (f a b)) \<Longrightarrow> stops (case p of (a, b) \<Rightarrow> f a b)"
  by (cases p) simp

lemmas stops_rules = stops_rbind stops_If stops_option stops_prod

section \<open>C integers\<close>

text \<open>
  An \<open>int\<close> is 32 bits wide. The result of a signed operation is its mathematical value when
  that fits, and an overflow otherwise. Unsigned values are words, whose arithmetic wraps.
\<close>

definition int_fits :: "int \<Rightarrow> bool" where
  "int_fits z \<longleftrightarrow> - (2 ^ 31) \<le> z \<and> z < 2 ^ 31"

definition c_int :: "int \<Rightarrow> int run" where
  "c_int z = (if int_fits z then Done z else Crash Int_overflow)"

lemma c_int_Done [simp]: "c_int z = Done y \<longleftrightarrow> y = z \<and> int_fits z"
  by (auto simp: c_int_def)

lemma c_int_fits [simp]: "int_fits z \<Longrightarrow> c_int z = Done z"
  by (simp add: c_int_def)

lemma stops_c_int [simp]: "stops (c_int z)"
  by (simp add: c_int_def)

lemma int_fits_sint32 [simp]: "int_fits (sint (w :: u32))"
  using sint_range_size [of w] by (simp add: int_fits_def word_size)

section \<open>Arrays\<close>

text \<open>
  The object behind a pointer to an array of \<open>n\<close> elements whose first elements have been
  written in order is the list of what was written; reading past it finds memory that is
  not initialised, and reading past \<open>n\<close> is out of bounds.
\<close>

definition array_get :: "nat \<Rightarrow> 'a list \<Rightarrow> nat \<Rightarrow> 'a run" where
  "array_get n xs i =
     (if i < length xs then Done (xs ! i)
      else if i < n then Crash Uninitialised else Crash Out_of_bounds)"

definition array_set :: "'a list \<Rightarrow> int \<Rightarrow> 'a \<Rightarrow> 'a list run" where
  "array_set xs i x =
     (if 0 \<le> i \<and> i < int (length xs) then Done (xs[nat i := x]) else Crash Out_of_bounds)"

definition deref :: "'a option \<Rightarrow> 'a run" where
  "deref p = (case p of None \<Rightarrow> Crash Null_pointer | Some x \<Rightarrow> Done x)"

definition init :: "'a option \<Rightarrow> 'a run" where
  "init p = (case p of None \<Rightarrow> Crash Uninitialised | Some x \<Rightarrow> Done x)"

lemma stops_accesses [simp]:
  "stops (array_get n xs i)" "stops (array_set xs k x)" "stops (deref p)" "stops (init p)"
  by (auto simp: array_get_def array_set_def deref_def init_def split: option.splits)

lemma array_get_Done [simp]: "array_get n xs i = Done x \<longleftrightarrow> i < length xs \<and> x = xs ! i"
  by (auto simp: array_get_def)

lemma array_get_nth [simp]: "i < length xs \<Longrightarrow> array_get n xs i = Done (xs ! i)"
  by (simp add: array_get_def)

lemma array_set_Done [simp]:
  "array_set xs i x = Done ys \<longleftrightarrow> 0 \<le> i \<and> i < int (length xs) \<and> ys = xs[nat i := x]"
  by (auto simp: array_set_def)

lemma deref_simps [simp]: "deref (Some x) = Done x" "deref None = Crash Null_pointer"
  by (simp_all add: deref_def)

lemma deref_Done [simp]: "deref p = Done x \<longleftrightarrow> p = Some x"
  by (cases p) auto

lemma init_simps [simp]: "init (Some x) = Done x" "init None = Crash Uninitialised"
  by (simp_all add: init_def)

lemma init_Done [simp]: "init p = Done x \<longleftrightarrow> p = Some x"
  by (cases p) auto

end
