(* ===== verification/C_Stdio.thy ===== *)
theory C_Stdio
  imports Ghw_Prelude
begin

text \<open>
  The part of the C library's \<open>stdio.h\<close> and \<open>string.h\<close> that the program reads its input
  with: a stream opened for reading, \<open>fgetc\<close>, \<open>fread\<close> of one object, \<open>feof\<close>, \<open>memcmp\<close>,
  and the decimal conversions of \<open>printf\<close>.
\<close>

section \<open>Input streams\<close>

text \<open>
  \<open>st_rest\<close> is what is left to read. Behind its last byte comes the end of the file, or, when
  \<open>st_broken\<close> holds, an input error; only the former sets the end-of-file indicator \<open>st_eof\<close>.
\<close>

record c_file =
  st_rest :: "byte list"
  st_broken :: bool
  st_eof :: bool

definition file_of :: "byte list \<Rightarrow> c_file" where
  "file_of bs = \<lparr>st_rest = bs, st_broken = False, st_eof = False\<rparr>"

definition at_end :: "c_file \<Rightarrow> c_file" where
  "at_end f = f\<lparr>st_rest := [], st_eof := (st_eof f \<or> \<not> st_broken f)\<rparr>"

definition fgetc :: "c_file \<Rightarrow> byte option \<times> c_file" where
  "fgetc f = (case st_rest f of [] \<Rightarrow> (None, at_end f) | b # bs \<Rightarrow> (Some b, f\<lparr>st_rest := bs\<rparr>))"

definition fread :: "nat \<Rightarrow> c_file \<Rightarrow> byte list option \<times> c_file" where
  "fread n f =
     (if n \<le> length (st_rest f)
      then (Some (take n (st_rest f)), f\<lparr>st_rest := drop n (st_rest f)\<rparr>)
      else (None, at_end f))"

definition feof :: "c_file \<Rightarrow> bool" where
  "feof f = st_eof f"

lemma at_end_simps [simp]:
  "st_rest (at_end f) = []" "st_broken (at_end f) = st_broken f"
  "st_eof (at_end f) \<longleftrightarrow> st_eof f \<or> \<not> st_broken f"
  by (simp_all add: at_end_def)

lemma file_of_simps [simp]:
  "st_rest (file_of bs) = bs" "file_of bs\<lparr>st_rest := cs\<rparr> = file_of cs"
  by (simp_all add: file_of_def)

lemma fgetc_simps:
  "st_rest f = [] \<Longrightarrow> fgetc f = (None, at_end f)"
  "st_rest f = b # bs \<Longrightarrow> fgetc f = (Some b, f\<lparr>st_rest := bs\<rparr>)"
  by (simp_all add: fgetc_def)

lemma fread_append:
  "st_rest f = xs @ bs \<Longrightarrow> length xs = n \<Longrightarrow> fread n f = (Some xs, f\<lparr>st_rest := bs\<rparr>)"
  by (simp add: fread_def)

section \<open>Text\<close>

definition bytes_of :: "string \<Rightarrow> byte list" where
  "bytes_of s = map (\<lambda>c. of_char c) s"

definition string_of :: "byte list \<Rightarrow> string" where
  "string_of bs = map (\<lambda>b. char_of (unat b)) bs"

text \<open>The bytes of a C string literal of which the terminating NUL is looked at as well.\<close>

definition bytes0_of :: "string \<Rightarrow> byte list" where
  "bytes0_of s = bytes_of s @ [0]"

lemma length_bytes_of [simp]: "length (bytes_of s) = length s"
  by (simp add: bytes_of_def)

lemma length_bytes0_of [simp]: "length (bytes0_of s) = Suc (length s)"
  by (simp add: bytes0_of_def)

lemma unat_of_char [simp]: "unat (of_char c :: byte) = of_char c"
  by (simp add: of_char_def)

lemma string_of_bytes_of [simp]: "string_of (bytes_of s) = s"
  by (simp add: string_of_def bytes_of_def comp_def)

section \<open>Decimal conversions\<close>

definition digit_char :: "nat \<Rightarrow> char" where
  "digit_char d = char_of (48 + d)"

fun dec_nat :: "nat \<Rightarrow> string" where
  "dec_nat n = (if n < 10 then [digit_char n] else dec_nat (n div 10) @ [digit_char (n mod 10)])"

declare dec_nat.simps [simp del]

definition dec_int :: "int \<Rightarrow> string" where
  "dec_int z = (if z < 0 then CHR ''-'' # dec_nat (nat (- z)) else dec_nat (nat z))"

lemma dec_nat_small: "n < 10 \<Longrightarrow> dec_nat n = [digit_char n]"
  by (subst dec_nat.simps) simp

end
