(* ===== verification/Ghw_Data.thy ===== *)
theory Ghw_Data
  imports C_Stdio
begin

text \<open>
  The data of \<open>ghwlib.h\<close>: the enumerations, the ranges, types, values and signals, the nodes
  of the design hierarchy, and the handler on which every function of \<open>ghwlib.c\<close> works.
\<close>

section \<open>Enumerations\<close>

datatype ghdl_rtik =
    ghdl_rtik_top | ghdl_rtik_library | ghdl_rtik_package | ghdl_rtik_package_body
  | ghdl_rtik_entity | ghdl_rtik_architecture | ghdl_rtik_process | ghdl_rtik_block
  | ghdl_rtik_if_generate | ghdl_rtik_for_generate | ghdl_rtik_instance | ghdl_rtik_constant
  | ghdl_rtik_iterator | ghdl_rtik_variable | ghdl_rtik_signal | ghdl_rtik_file
  | ghdl_rtik_port | ghdl_rtik_generic | ghdl_rtik_alias | ghdl_rtik_guard
  | ghdl_rtik_component | ghdl_rtik_attribute | ghdl_rtik_type_b2 | ghdl_rtik_type_e8
  | ghdl_rtik_type_e32 | ghdl_rtik_type_i32 | ghdl_rtik_type_i64 | ghdl_rtik_type_f64
  | ghdl_rtik_type_p32 | ghdl_rtik_type_p64 | ghdl_rtik_type_access | ghdl_rtik_type_array
  | ghdl_rtik_type_record | ghdl_rtik_type_file | ghdl_rtik_subtype_scalar
  | ghdl_rtik_subtype_array | ghdl_rtik_subtype_array_ptr
  | ghdl_rtik_subtype_unconstrained_array | ghdl_rtik_subtype_record
  | ghdl_rtik_subtype_access | ghdl_rtik_type_protected | ghdl_rtik_element | ghdl_rtik_unit
  | ghdl_rtik_attribute_transaction | ghdl_rtik_attribute_quiet
  | ghdl_rtik_attribute_stable | ghdl_rtik_error

text \<open>The enumerators in their order: the value of an enumerator is its position.\<close>

definition rtik_enum :: "ghdl_rtik list" where
  "rtik_enum =
    [ghdl_rtik_top, ghdl_rtik_library, ghdl_rtik_package, ghdl_rtik_package_body,
     ghdl_rtik_entity, ghdl_rtik_architecture, ghdl_rtik_process, ghdl_rtik_block,
     ghdl_rtik_if_generate, ghdl_rtik_for_generate, ghdl_rtik_instance, ghdl_rtik_constant,
     ghdl_rtik_iterator, ghdl_rtik_variable, ghdl_rtik_signal, ghdl_rtik_file,
     ghdl_rtik_port, ghdl_rtik_generic, ghdl_rtik_alias, ghdl_rtik_guard,
     ghdl_rtik_component, ghdl_rtik_attribute, ghdl_rtik_type_b2, ghdl_rtik_type_e8,
     ghdl_rtik_type_e32, ghdl_rtik_type_i32, ghdl_rtik_type_i64, ghdl_rtik_type_f64,
     ghdl_rtik_type_p32, ghdl_rtik_type_p64, ghdl_rtik_type_access, ghdl_rtik_type_array,
     ghdl_rtik_type_record, ghdl_rtik_type_file, ghdl_rtik_subtype_scalar,
     ghdl_rtik_subtype_array, ghdl_rtik_subtype_array_ptr,
     ghdl_rtik_subtype_unconstrained_array, ghdl_rtik_subtype_record,
     ghdl_rtik_subtype_access, ghdl_rtik_type_protected, ghdl_rtik_element, ghdl_rtik_unit,
     ghdl_rtik_attribute_transaction, ghdl_rtik_attribute_quiet,
     ghdl_rtik_attribute_stable, ghdl_rtik_error]"

definition rtik_of :: "byte \<Rightarrow> ghdl_rtik option" where
  "rtik_of t = (if unat t < length rtik_enum then Some (rtik_enum ! unat t) else None)"

definition rtik_num :: "ghdl_rtik \<Rightarrow> nat" where
  "rtik_num k = length (takeWhile (\<lambda>x. x \<noteq> k) rtik_enum)"

datatype ghw_hie_kind =
    ghw_hie_eoh | ghw_hie_design | ghw_hie_block | ghw_hie_generate_if | ghw_hie_generate_for
  | ghw_hie_instance | ghw_hie_package | ghw_hie_process | ghw_hie_generic | ghw_hie_eos
  | ghw_hie_signal | ghw_hie_port_in | ghw_hie_port_out | ghw_hie_port_inout
  | ghw_hie_port_buffer | ghw_hie_port_linkage
  | ghw_hie_other byte   \<comment> \<open>a value of the enumeration's type that is not an enumerator\<close>

definition hie_enum :: "(byte \<times> ghw_hie_kind) list" where
  "hie_enum =
    [(0, ghw_hie_eoh), (1, ghw_hie_design), (3, ghw_hie_block), (4, ghw_hie_generate_if),
     (5, ghw_hie_generate_for), (6, ghw_hie_instance), (7, ghw_hie_package),
     (13, ghw_hie_process), (14, ghw_hie_generic), (15, ghw_hie_eos), (16, ghw_hie_signal),
     (17, ghw_hie_port_in), (18, ghw_hie_port_out), (19, ghw_hie_port_inout),
     (20, ghw_hie_port_buffer), (21, ghw_hie_port_linkage)]"

definition hie_of :: "byte \<Rightarrow> ghw_hie_kind" where
  "hie_of t = (case map_of hie_enum t of Some k \<Rightarrow> k | None \<Rightarrow> ghw_hie_other t)"

datatype ghw_sm_type = ghw_sm_init | ghw_sm_sect | ghw_sm_cycle

datatype ghw_res =
  ghw_res_error | ghw_res_eof | ghw_res_ok | ghw_res_snapshot | ghw_res_cycle | ghw_res_other

section \<open>Strings\<close>

text \<open>
  An entry of \<open>str_table\<close> points to the literal \<open>"<anon>"\<close> (entry 0) or into the buffer
  \<open>str_content\<close>, at an offset. A \<open>const char *\<close> that was read from the table is NULL, the
  literal, or the bytes up to the NUL of a string of the buffer. Nothing writes to the buffer
  after the string section has been read, so the bytes stand for the pointer; the literal is kept
  apart because \<open>ghw_is_anonymous_type\<close> compares with its address.
\<close>

datatype str_ptr = Anon_lit | Content nat

datatype c_str = Null_str | Anon_str | C_str "byte list"

definition anon_text :: string where
  "anon_text = ''<anon>''"

section \<open>Ranges, types and values\<close>

text \<open>
  \<open>dir\<close> holds for \<open>downto\<close>. A \<open>double\<close> is kept as its 64 bits.
\<close>

datatype ghw_range =
    Range_b2 (rng_dir: bool) byte byte
  | Range_e8 (rng_dir: bool) byte byte
  | Range_i32 ghdl_rtik (rng_dir: bool) u32 u32
  | Range_i64 ghdl_rtik (rng_dir: bool) u64 u64
  | Range_f64 (rng_dir: bool) u64 u64

fun ghw_range_kind :: "ghw_range \<Rightarrow> ghdl_rtik" where
  "ghw_range_kind (Range_b2 _ _ _) = ghdl_rtik_type_b2"
| "ghw_range_kind (Range_e8 _ _ _) = ghdl_rtik_type_e8"
| "ghw_range_kind (Range_i32 k _ _ _) = k"
| "ghw_range_kind (Range_i64 k _ _ _) = k"
| "ghw_range_kind (Range_f64 _ _ _) = ghdl_rtik_type_f64"

type_synonym ghw_unit = "c_str \<times> u64"

text \<open>
  A \<open>union ghw_type *\<close> is the object it points to, \<open>None\<close> for NULL: types refer to types that
  were complete before, and no field but \<open>wkt\<close> is written once a type is in the table. The
  first argument of a constructor is the address of the object, by which pointers compare and by
  which the handler keeps the \<open>wkt\<close> of the enumerations. The lengths of the lists are the fields
  \<open>nbr\<close>, \<open>nbr_units\<close>, \<open>nbr_dim\<close> and \<open>nbr_fields\<close>.
\<close>

datatype ghw_type =
    Type_enum nat ghdl_rtik c_str "c_str list"
  | Type_scalar nat ghdl_rtik c_str
  | Type_physical nat ghdl_rtik c_str "ghw_unit list"
  | Subtype_scalar nat c_str "ghw_type option" "ghw_range option"
  | Type_array nat c_str "ghw_type option" "ghw_type option list"
  | Subtype_array nat c_str ghw_type int "ghw_range list"
  | Type_record nat c_str int "(c_str \<times> ghw_type option) list"
  | Subtype_record nat c_str ghw_type int "(c_str \<times> ghw_type option) list"

fun ty_addr :: "ghw_type \<Rightarrow> nat" where
  "ty_addr (Type_enum a _ _ _) = a"
| "ty_addr (Type_scalar a _ _) = a"
| "ty_addr (Type_physical a _ _ _) = a"
| "ty_addr (Subtype_scalar a _ _ _) = a"
| "ty_addr (Type_array a _ _ _) = a"
| "ty_addr (Subtype_array a _ _ _ _) = a"
| "ty_addr (Type_record a _ _ _) = a"
| "ty_addr (Subtype_record a _ _ _ _) = a"

text \<open>\<open>struct ghw_type_common\<close>: every type has a kind and a name.\<close>

fun ty_kind :: "ghw_type \<Rightarrow> ghdl_rtik" where
  "ty_kind (Type_enum _ k _ _) = k"
| "ty_kind (Type_scalar _ k _) = k"
| "ty_kind (Type_physical _ k _ _) = k"
| "ty_kind (Subtype_scalar _ _ _ _) = ghdl_rtik_subtype_scalar"
| "ty_kind (Type_array _ _ _ _) = ghdl_rtik_type_array"
| "ty_kind (Subtype_array _ _ _ _ _) = ghdl_rtik_subtype_array"
| "ty_kind (Type_record _ _ _ _) = ghdl_rtik_type_record"
| "ty_kind (Subtype_record _ _ _ _ _) = ghdl_rtik_subtype_record"

fun ty_name :: "ghw_type \<Rightarrow> c_str" where
  "ty_name (Type_enum _ _ n _) = n"
| "ty_name (Type_scalar _ _ n) = n"
| "ty_name (Type_physical _ _ n _) = n"
| "ty_name (Subtype_scalar _ n _ _) = n"
| "ty_name (Type_array _ n _ _) = n"
| "ty_name (Subtype_array _ n _ _ _) = n"
| "ty_name (Type_record _ n _ _) = n"
| "ty_name (Subtype_record _ n _ _ _) = n"

text \<open>\<open>union ghw_val\<close>, by the member that was written last.\<close>

datatype ghw_val =
  Val_none | Val_b2 byte | Val_e8 byte | Val_i32 u32 | Val_i64 u64 | Val_f64 u64

record ghw_sig =
  sig_type :: "ghw_type option"
  sig_val :: "ghw_val option"

section \<open>The design hierarchy\<close>

text \<open>
  A node of the hierarchy is allocated once and linked by pointers; a \<open>struct ghw_hie *\<close> is the
  index of the node in the order of allocation. The union \<open>u\<close> of a node holds nothing, a block
  (its first child, and for a \<open>for ... generate\<close> its iterator), or a signal (its type, and the
  numbers of its elements; an element that was not written is \<open>None\<close>).
\<close>

datatype hie_u =
    U_none
  | U_blk "nat option" "(ghw_type option \<times> ghw_val) option"
  | U_sig "ghw_type option" "u32 option list"

record ghw_hie =
  hie_kind :: ghw_hie_kind
  hie_parent :: "nat option"
  hie_name :: c_str
  hie_brother :: "nat option"
  hie_u :: hie_u

section \<open>The handler\<close>

text \<open>
  \<open>struct ghw_handler\<close>. The tables \<open>str_table\<close>, \<open>types\<close> and \<open>sigs\<close> and the filter
  \<open>skip_sigs\<close> are \<open>None\<close> while the pointer has not been set. The last three fields are the
  memory the handler's pointers lead to: the next free address of a type, the \<open>wkt\<close> field of the
  enumeration at an address, and the nodes of the hierarchy.
\<close>

record ghw_handler =
  stream :: "c_file option"
  stream_ispipe :: bool
  word_be :: bool
  word_len :: byte
  off_len :: byte
  version :: int
  flag_verbose :: int
  nbr_str :: u32
  str_size :: u32
  str_table :: "str_ptr list option"
  str_content :: "byte list"
  nbr_types :: u32
  types :: "ghw_type list option"
  nbr_sigs :: u32
  skip_sigs :: "bool list option option"
  flag_full_names :: bool
  sigs :: "ghw_sig list option"
  hie :: "nat option"
  snap_time :: u64
  next_addr :: nat
  wkt_at :: "nat \<Rightarrow> byte"
  hie_nodes :: "ghw_hie list"

text \<open>A handler all of whose fields are zero, as a starting point of examples\<close>

definition zero_handler :: ghw_handler where
  "zero_handler = \<lparr>stream = None, stream_ispipe = False, word_be = False, word_len = 0, off_len = 0,
     version = 0, flag_verbose = 0, nbr_str = 0, str_size = 0, str_table = None, str_content = [],
     nbr_types = 0, types = None, nbr_sigs = 0, skip_sigs = None, flag_full_names = False, sigs = None,
     hie = None, snap_time = 0, next_addr = 0, wkt_at = (\<lambda>_. 0), hie_nodes = []\<rparr>"

section \<open>Reading from the handler's stream\<close>

definition h_fgetc :: "ghw_handler \<Rightarrow> (byte option \<times> ghw_handler) run" where
  "h_fgetc h = rbind (deref (stream h)) (\<lambda>f.
     let (c, f') = fgetc f in Done (c, h\<lparr>stream := Some f'\<rparr>))"

definition h_fread :: "nat \<Rightarrow> ghw_handler \<Rightarrow> (byte list option \<times> ghw_handler) run" where
  "h_fread n h = rbind (deref (stream h)) (\<lambda>f.
     let (bs, f') = fread n f in Done (bs, h\<lparr>stream := Some f'\<rparr>))"

definition h_feof :: "ghw_handler \<Rightarrow> bool run" where
  "h_feof h = rbind (deref (stream h)) (\<lambda>f. Done (feof f))"

text \<open>
  \<open>rest_of h\<close> is what is left of the input of an open handler, and \<open>set_rest bs h\<close> the handler
  with \<open>bs\<close> left.
\<close>

definition rest_of :: "ghw_handler \<Rightarrow> byte list option" where
  "rest_of h = map_option st_rest (stream h)"

definition set_rest :: "byte list \<Rightarrow> ghw_handler \<Rightarrow> ghw_handler" where
  "set_rest bs h = h\<lparr>stream := map_option (\<lambda>f. f\<lparr>st_rest := bs\<rparr>) (stream h)\<rparr>"

definition rest_len :: "ghw_handler \<Rightarrow> nat" where
  "rest_len h = (case rest_of h of None \<Rightarrow> 0 | Some bs \<Rightarrow> length bs)"

definition input_end :: "ghw_handler \<Rightarrow> ghw_handler" where
  "input_end h = h\<lparr>stream := map_option at_end (stream h)\<rparr>"

end
