(* ===== verification/Ghw_Stream.thy ===== *)
theory Ghw_Stream
  imports Ghw_Data
begin

text \<open>
  The contract of the functions that read from the handler's stream. Such a function moves the
  stream forward and leaves every other field of the handler alone (\<open>advances\<close>). The locale
  \<open>reader\<close> states this for a function that returns a value or fails, the locale \<open>wire_codec\<close>
  adds the inverse of an encoder of the waveform writer, and the lemmas of both hold for every
  interpretation, on the readers of \<open>ghwlib.c\<close>.
\<close>

section \<open>Moving the stream forward\<close>

definition advances :: "ghw_handler \<Rightarrow> ghw_handler \<Rightarrow> bool" where
  "advances h h' \<longleftrightarrow> (\<exists>f f' bs. stream h = Some f \<and> h' = h\<lparr>stream := Some f'\<rparr> \<and>
     st_rest f = bs @ st_rest f' \<and> st_broken f' = st_broken f)"

lemma advancesI:
  "stream h = Some f \<Longrightarrow> st_rest f = bs @ st_rest f' \<Longrightarrow> st_broken f' = st_broken f \<Longrightarrow>
   h' = h\<lparr>stream := Some f'\<rparr> \<Longrightarrow> advances h h'"
  unfolding advances_def by blast

lemma advances_trans [trans]: "advances h h' \<Longrightarrow> advances h' h'' \<Longrightarrow> advances h h''"
  unfolding advances_def by (elim exE conjE) fastforce

lemma advances_refl: "stream h = Some f \<Longrightarrow> advances h h"
  unfolding advances_def by (metis ghw_handler.surjective ghw_handler.update_convs(1) append_Nil)

lemma advances_stream: "advances h h' \<Longrightarrow> \<exists>f. stream h' = Some f"
  by (auto simp: advances_def)

lemma advances_frame:
  assumes "advances h h'"
  shows
  "word_be h' = word_be h" "word_len h' = word_len h" "off_len h' = off_len h"
  "version h' = version h" "flag_verbose h' = flag_verbose h" "nbr_str h' = nbr_str h"
  "str_size h' = str_size h" "str_table h' = str_table h" "str_content h' = str_content h"
  "nbr_types h' = nbr_types h" "types h' = types h" "nbr_sigs h' = nbr_sigs h"
  "skip_sigs h' = skip_sigs h" "flag_full_names h' = flag_full_names h" "sigs h' = sigs h"
  "hie h' = hie h" "snap_time h' = snap_time h" "next_addr h' = next_addr h"
  "wkt_at h' = wkt_at h" "hie_nodes h' = hie_nodes h" "stream_ispipe h' = stream_ispipe h"
  using assms by (auto simp: advances_def)

lemma advances_rest_len: "advances h h' \<Longrightarrow> rest_len h' \<le> rest_len h"
  by (auto simp: advances_def rest_len_def rest_of_def)

section \<open>What is left of the input\<close>

lemma rest_of_set_rest [simp]: "rest_of (set_rest bs h) = map_option (\<lambda>_. bs) (rest_of h)"
  by (cases "stream h") (simp_all add: rest_of_def set_rest_def)

lemma set_rest_set_rest [simp]: "set_rest bs (set_rest cs h) = set_rest bs h"
  by (cases "stream h") (simp_all add: set_rest_def)

lemma set_rest_same: "rest_of h = Some bs \<Longrightarrow> set_rest bs h = h"
  by (auto simp: rest_of_def set_rest_def)

lemma set_rest_frame [simp]:
  "word_be (set_rest bs h) = word_be h" "word_len (set_rest bs h) = word_len h"
  "off_len (set_rest bs h) = off_len h" "version (set_rest bs h) = version h"
  "flag_verbose (set_rest bs h) = flag_verbose h" "nbr_str (set_rest bs h) = nbr_str h"
  "str_size (set_rest bs h) = str_size h" "str_table (set_rest bs h) = str_table h"
  "str_content (set_rest bs h) = str_content h" "nbr_types (set_rest bs h) = nbr_types h"
  "types (set_rest bs h) = types h" "nbr_sigs (set_rest bs h) = nbr_sigs h"
  "skip_sigs (set_rest bs h) = skip_sigs h" "flag_full_names (set_rest bs h) = flag_full_names h"
  "sigs (set_rest bs h) = sigs h" "hie (set_rest bs h) = hie h"
  "snap_time (set_rest bs h) = snap_time h" "next_addr (set_rest bs h) = next_addr h"
  "wkt_at (set_rest bs h) = wkt_at h" "hie_nodes (set_rest bs h) = hie_nodes h"
  "stream_ispipe (set_rest bs h) = stream_ispipe h"
  by (simp_all add: set_rest_def)

text \<open>Updates of the fields that do not hold the stream.\<close>

lemma rest_of_update [simp]:
  "rest_of (h\<lparr>word_be := x1\<rparr>) = rest_of h"
  "rest_of (h\<lparr>word_len := x2\<rparr>) = rest_of h"
  "rest_of (h\<lparr>off_len := x3\<rparr>) = rest_of h"
  "rest_of (h\<lparr>version := x4\<rparr>) = rest_of h"
  "rest_of (h\<lparr>flag_verbose := x5\<rparr>) = rest_of h"
  "rest_of (h\<lparr>nbr_str := x6\<rparr>) = rest_of h"
  "rest_of (h\<lparr>str_size := x7\<rparr>) = rest_of h"
  "rest_of (h\<lparr>str_table := x8\<rparr>) = rest_of h"
  "rest_of (h\<lparr>str_content := x9\<rparr>) = rest_of h"
  "rest_of (h\<lparr>nbr_types := x10\<rparr>) = rest_of h"
  "rest_of (h\<lparr>types := x11\<rparr>) = rest_of h"
  "rest_of (h\<lparr>nbr_sigs := x12\<rparr>) = rest_of h"
  "rest_of (h\<lparr>skip_sigs := x13\<rparr>) = rest_of h"
  "rest_of (h\<lparr>flag_full_names := x14\<rparr>) = rest_of h"
  "rest_of (h\<lparr>sigs := x15\<rparr>) = rest_of h"
  "rest_of (h\<lparr>hie := x16\<rparr>) = rest_of h"
  "rest_of (h\<lparr>snap_time := x17\<rparr>) = rest_of h"
  "rest_of (h\<lparr>next_addr := x18\<rparr>) = rest_of h"
  "rest_of (h\<lparr>wkt_at := x19\<rparr>) = rest_of h"
  "rest_of (h\<lparr>hie_nodes := x20\<rparr>) = rest_of h"
  "rest_of (h\<lparr>stream_ispipe := x21\<rparr>) = rest_of h"
  by (simp_all add: rest_of_def)

lemma rest_len_update [simp]:
  "rest_len (h\<lparr>word_be := x1\<rparr>) = rest_len h"
  "rest_len (h\<lparr>word_len := x2\<rparr>) = rest_len h"
  "rest_len (h\<lparr>off_len := x3\<rparr>) = rest_len h"
  "rest_len (h\<lparr>version := x4\<rparr>) = rest_len h"
  "rest_len (h\<lparr>flag_verbose := x5\<rparr>) = rest_len h"
  "rest_len (h\<lparr>nbr_str := x6\<rparr>) = rest_len h"
  "rest_len (h\<lparr>str_size := x7\<rparr>) = rest_len h"
  "rest_len (h\<lparr>str_table := x8\<rparr>) = rest_len h"
  "rest_len (h\<lparr>str_content := x9\<rparr>) = rest_len h"
  "rest_len (h\<lparr>nbr_types := x10\<rparr>) = rest_len h"
  "rest_len (h\<lparr>types := x11\<rparr>) = rest_len h"
  "rest_len (h\<lparr>nbr_sigs := x12\<rparr>) = rest_len h"
  "rest_len (h\<lparr>skip_sigs := x13\<rparr>) = rest_len h"
  "rest_len (h\<lparr>flag_full_names := x14\<rparr>) = rest_len h"
  "rest_len (h\<lparr>sigs := x15\<rparr>) = rest_len h"
  "rest_len (h\<lparr>hie := x16\<rparr>) = rest_len h"
  "rest_len (h\<lparr>snap_time := x17\<rparr>) = rest_len h"
  "rest_len (h\<lparr>next_addr := x18\<rparr>) = rest_len h"
  "rest_len (h\<lparr>wkt_at := x19\<rparr>) = rest_len h"
  "rest_len (h\<lparr>hie_nodes := x20\<rparr>) = rest_len h"
  "rest_len (h\<lparr>stream_ispipe := x21\<rparr>) = rest_len h"
  by (simp_all add: rest_len_def)

lemma set_rest_update [simp]:
  "set_rest bs h\<lparr>word_be := x22\<rparr> = set_rest bs (h\<lparr>word_be := x22\<rparr>)"
  "set_rest bs h\<lparr>word_len := x23\<rparr> = set_rest bs (h\<lparr>word_len := x23\<rparr>)"
  "set_rest bs h\<lparr>off_len := x24\<rparr> = set_rest bs (h\<lparr>off_len := x24\<rparr>)"
  "set_rest bs h\<lparr>version := x25\<rparr> = set_rest bs (h\<lparr>version := x25\<rparr>)"
  "set_rest bs h\<lparr>flag_verbose := x26\<rparr> = set_rest bs (h\<lparr>flag_verbose := x26\<rparr>)"
  "set_rest bs h\<lparr>nbr_str := x27\<rparr> = set_rest bs (h\<lparr>nbr_str := x27\<rparr>)"
  "set_rest bs h\<lparr>str_size := x28\<rparr> = set_rest bs (h\<lparr>str_size := x28\<rparr>)"
  "set_rest bs h\<lparr>str_table := x29\<rparr> = set_rest bs (h\<lparr>str_table := x29\<rparr>)"
  "set_rest bs h\<lparr>str_content := x30\<rparr> = set_rest bs (h\<lparr>str_content := x30\<rparr>)"
  "set_rest bs h\<lparr>nbr_types := x31\<rparr> = set_rest bs (h\<lparr>nbr_types := x31\<rparr>)"
  "set_rest bs h\<lparr>types := x32\<rparr> = set_rest bs (h\<lparr>types := x32\<rparr>)"
  "set_rest bs h\<lparr>nbr_sigs := x33\<rparr> = set_rest bs (h\<lparr>nbr_sigs := x33\<rparr>)"
  "set_rest bs h\<lparr>skip_sigs := x34\<rparr> = set_rest bs (h\<lparr>skip_sigs := x34\<rparr>)"
  "set_rest bs h\<lparr>flag_full_names := x35\<rparr> = set_rest bs (h\<lparr>flag_full_names := x35\<rparr>)"
  "set_rest bs h\<lparr>sigs := x36\<rparr> = set_rest bs (h\<lparr>sigs := x36\<rparr>)"
  "set_rest bs h\<lparr>hie := x37\<rparr> = set_rest bs (h\<lparr>hie := x37\<rparr>)"
  "set_rest bs h\<lparr>snap_time := x38\<rparr> = set_rest bs (h\<lparr>snap_time := x38\<rparr>)"
  "set_rest bs h\<lparr>next_addr := x39\<rparr> = set_rest bs (h\<lparr>next_addr := x39\<rparr>)"
  "set_rest bs h\<lparr>wkt_at := x40\<rparr> = set_rest bs (h\<lparr>wkt_at := x40\<rparr>)"
  "set_rest bs h\<lparr>hie_nodes := x41\<rparr> = set_rest bs (h\<lparr>hie_nodes := x41\<rparr>)"
  "set_rest bs h\<lparr>stream_ispipe := x42\<rparr> = set_rest bs (h\<lparr>stream_ispipe := x42\<rparr>)"
  by (simp_all add: set_rest_def)

lemma stream_simps [simp]:
  "rest_of (h\<lparr>stream := Some f\<rparr>) = Some (st_rest f)"
  "set_rest bs (h\<lparr>stream := Some f\<rparr>) = h\<lparr>stream := Some (f\<lparr>st_rest := bs\<rparr>)\<rparr>"
  "input_end (h\<lparr>stream := Some f\<rparr>) = h\<lparr>stream := Some (at_end f)\<rparr>"
  by (simp_all add: rest_of_def set_rest_def input_end_def)

lemma advances_set_rest: "rest_of h = Some (xs @ bs) \<Longrightarrow> advances h (set_rest bs h)"
proof -
  assume "rest_of h = Some (xs @ bs)"
  then obtain f where "stream h = Some f" "st_rest f = xs @ bs" by (auto simp: rest_of_def)
  then show ?thesis
    by (intro advancesI [where f' = "f\<lparr>st_rest := bs\<rparr>"]) (simp_all add: set_rest_def)
qed

lemma advances_input_end: "rest_of h = Some bs \<Longrightarrow> advances h (input_end h)"
proof -
  assume "rest_of h = Some bs"
  then obtain f where "stream h = Some f" "st_rest f = bs" by (auto simp: rest_of_def)
  then show ?thesis
    by (intro advancesI [where f' = "at_end f"]) (simp_all add: input_end_def)
qed

section \<open>The primitive reads\<close>

lemma h_fgetc_Cons [run_simps]:
  "rest_of h = Some (b # bs) \<Longrightarrow> h_fgetc h = Done (Some b, set_rest bs h)"
  by (auto simp: rest_of_def h_fgetc_def fgetc_def set_rest_def)

lemma h_fgetc_Nil [run_simps]: "rest_of h = Some [] \<Longrightarrow> h_fgetc h = Done (None, input_end h)"
  by (auto simp: rest_of_def h_fgetc_def fgetc_def input_end_def)

lemma h_fgetc_None [run_simps]: "rest_of h = None \<Longrightarrow> h_fgetc h = Crash Null_pointer"
  by (simp add: rest_of_def h_fgetc_def)

lemma h_fread_append [run_simps]:
  "rest_of h = Some (xs @ bs) \<Longrightarrow> length xs = n \<Longrightarrow> h_fread n h = Done (Some xs, set_rest bs h)"
  by (auto simp: rest_of_def h_fread_def fread_def set_rest_def)

lemma h_fread_short [run_simps]:
  "rest_of h = Some bs \<Longrightarrow> length bs < n \<Longrightarrow> h_fread n h = Done (None, input_end h)"
  by (auto simp: rest_of_def h_fread_def fread_def input_end_def)

lemma h_fread_None [run_simps]: "rest_of h = None \<Longrightarrow> h_fread n h = Crash Null_pointer"
  by (simp add: rest_of_def h_fread_def)

lemma h_fgetc_cases:
  assumes "h_fgetc h = Done (c, h')"
  obtains (byte) b bs where "c = Some b" "rest_of h = Some (b # bs)" "h' = set_rest bs h"
  | (eof) "c = None" "rest_of h = Some []" "h' = input_end h"
proof (cases "rest_of h")
  case None
  with assms show ?thesis by (simp add: run_simps)
next
  case (Some bs)
  with assms byte eof show ?thesis by (cases bs) (auto simp: run_simps)
qed

lemma h_fread_cases:
  assumes "h_fread n h = Done (c, h')"
  obtains (bytes) xs bs where "c = Some xs" "length xs = n" "rest_of h = Some (xs @ bs)"
      "h' = set_rest bs h"
  | (eof) bs where "c = None" "rest_of h = Some bs" "length bs < n" "h' = input_end h"
proof (cases "rest_of h")
  case None
  with assms show ?thesis by (simp add: run_simps)
next
  case (Some bs)
  show ?thesis
  proof (cases "n \<le> length bs")
    case True
    then have "rest_of h = Some (take n bs @ drop n bs)" "length (take n bs) = n"
      using Some by simp_all
    from bytes [OF _ this(2,1)] h_fread_append [OF this] assms show ?thesis by simp
  next
    case False
    with Some assms eof show ?thesis by (simp add: run_simps)
  qed
qed

lemma h_fgetc_advances: "h_fgetc h = Done (c, h') \<Longrightarrow> advances h h'"
  by (erule h_fgetc_cases) (auto intro: advances_set_rest [of _ "[x]" for x] advances_input_end)

lemma h_fread_advances: "h_fread n h = Done (c, h') \<Longrightarrow> advances h h'"
  by (erule h_fread_cases) (auto intro: advances_set_rest advances_input_end)

lemma h_fgetc_progress: "h_fgetc h = Done (Some b, h') \<Longrightarrow> rest_len h' < rest_len h"
  by (erule h_fgetc_cases) (auto simp: rest_len_def)

lemma stops_reads [simp]: "stops (h_fgetc h)" "stops (h_fread n h)" "stops (h_feof h)"
  by (auto simp: h_fgetc_def h_fread_def h_feof_def Let_def intro!: stops_rules)

section \<open>Readers and codecs\<close>

locale reader =
  fixes rd :: "ghw_handler \<Rightarrow> ('a option \<times> ghw_handler) run"
  assumes rd_advances: "rd h = Done (r, h') \<Longrightarrow> advances h h'"
    and rd_progress: "rd h = Done (Some x, h') \<Longrightarrow> rest_len h' < rest_len h"
begin

lemma rd_frame:
  assumes "rd h = Done (r, h')"
  shows "sigs h' = sigs h" "types h' = types h" "str_table h' = str_table h"
    "str_content h' = str_content h" "nbr_sigs h' = nbr_sigs h" "hie_nodes h' = hie_nodes h"
    "version h' = version h" "snap_time h' = snap_time h" "wkt_at h' = wkt_at h"
  using advances_frame [OF rd_advances [OF assms]] by simp_all

lemma rd_rest_len: "rd h = Done (r, h') \<Longrightarrow> rest_len h' \<le> rest_len h"
  by (rule advances_rest_len [OF rd_advances])

end

locale wire_codec = reader rd for rd :: "ghw_handler \<Rightarrow> ('a option \<times> ghw_handler) run" +
  fixes put :: "'a \<Rightarrow> byte list"
  assumes rd_put: "rest_of h = Some (put x @ bs) \<Longrightarrow> rd h = Done (Some x, set_rest bs h)"
    and rd_cut: "rest_of h = Some ps \<Longrightarrow> put x = ps @ qs \<Longrightarrow> qs \<noteq> [] \<Longrightarrow>
      rd h = Done (None, input_end h)"
begin

text \<open>What the reader makes of an input determines how the input is cut into a value and a rest.\<close>

lemma put_unique:
  assumes "put x @ bs = put y @ cs"
  shows "x = y \<and> bs = cs"
proof -
  define h :: ghw_handler where
    "h = undefined\<lparr>stream := Some \<lparr>st_rest = put x @ bs, st_broken = False, st_eof = False\<rparr>\<rparr>"
  have x: "rest_of h = Some (put x @ bs)" by (simp add: h_def rest_of_def)
  with assms have y: "rest_of h = Some (put y @ cs)" by simp
  from rd_put [OF x] rd_put [OF y] have "x = y" and "set_rest bs h = set_rest cs h"
    by simp_all
  moreover from this(2) have "rest_of (set_rest bs h) = rest_of (set_rest cs h)"
    by (rule arg_cong)
  then have "bs = cs" using x by simp
  ultimately show ?thesis by simp
qed

lemma put_nonempty: "put x \<noteq> []"
proof
  assume "put x = []"
  define h :: ghw_handler where
    "h = undefined\<lparr>stream := Some \<lparr>st_rest = [], st_broken = False, st_eof = False\<rparr>\<rparr>"
  have h: "rest_of h = Some []" by (simp add: h_def rest_of_def)
  with \<open>put x = []\<close> have "rd h = Done (Some x, set_rest [] h)" by (intro rd_put) simp
  from rd_progress [OF this] h show False by (simp add: rest_len_def)
qed

end

section \<open>Readers of sections\<close>

text \<open>
  A function that reads a section changes the handler, but never moves the stream back: this is
  what makes the loops over the sections end.
\<close>

locale section_reader =
  fixes rd_sec :: "ghw_handler \<Rightarrow> ('r \<times> ghw_handler) run"
  assumes no_rewind: "rd_sec h = Done (r, h') \<Longrightarrow> rest_len h' \<le> rest_len h"
begin

lemma section_progress:
  assumes "h_fread n h = Done (Some hdr, h1)" "0 < n" "rd_sec h1 = Done (r, h')"
  shows "rest_len h' < rest_len h"
proof -
  have "rest_len h1 < rest_len h"
    using assms(1,2) by (elim h_fread_cases) (auto simp: rest_len_def)
  with no_rewind [OF assms(3)] show ?thesis by simp
qed

end

lemma rest_len_stream: "stream h' = stream h \<Longrightarrow> rest_len h' = rest_len h"
  by (simp add: rest_len_def rest_of_def)

lemma h_fgetc_rest_len: "h_fgetc h = Done (c, h') \<Longrightarrow> rest_len h' \<le> rest_len h"
  by (rule advances_rest_len [OF h_fgetc_advances])

lemma h_fread_rest_len: "h_fread n h = Done (c, h') \<Longrightarrow> rest_len h' \<le> rest_len h"
  by (rule advances_rest_len [OF h_fread_advances])

end
