(* ===== verification/Ghw_Writer.thy ===== *)
theory Ghw_Writer
  imports Ghw_Data
begin

text \<open>
  The encoders of the waveform writer, \<open>grt-waves.adb\<close>: what the simulator puts into the file
  that \<open>ghwlib.c\<close> reads. A \<open>Wave_Put_\<dots>\<close> procedure is the list of the bytes it writes.
\<close>

section \<open>LEB128\<close>

text \<open>
  The loop of \<open>Wave_Put_ULEB128\<close>, on the value of \<open>V\<close>, and the loop of \<open>Wave_Put_SLEB128\<close>
  and \<open>Wave_Put_LSLEB128\<close>, on the value that the bits of \<open>V\<close> have in two's complement: there
  \<open>Shift_Right_Arithmetic (V, 7)\<close> is the division by 128 that rounds down.
\<close>

fun uleb_bytes :: "nat \<Rightarrow> byte list" where
  "uleb_bytes v =
     (let r = v mod 128; v' = v div 128
      in if v' = 0 then [word_of_nat r] else word_of_nat (128 + r) # uleb_bytes v')"

declare uleb_bytes.simps [simp del]

function sleb_bytes :: "int \<Rightarrow> byte list" where
  "sleb_bytes v =
     (let r = word_of_int (v mod 128); v' = v div 128
      in if v' = 0 \<and> r AND 0x40 = 0 \<or> v' = -1 \<and> r AND 0x40 \<noteq> 0 then [r]
         else (r OR 0x80) # sleb_bytes v')"
  by pat_completeness auto
termination
proof (relation "measure (\<lambda>v. nat (if v < 0 then - v - 1 else v))", goal_cases)
  case (2 v r v')
  have "v \<noteq> 0" using 2 by auto
  moreover have "v \<noteq> -1" using 2 by auto
  ultimately show ?case using 2(2) by (auto simp: nat_less_iff)
qed simp

declare sleb_bytes.simps [simp del]

definition wave_put_uleb128 :: "u32 \<Rightarrow> byte list" where
  "wave_put_uleb128 v = uleb_bytes (unat v)"

definition wave_put_sleb128 :: "u32 \<Rightarrow> byte list" where
  "wave_put_sleb128 v = sleb_bytes (sint v)"

definition wave_put_lsleb128 :: "u64 \<Rightarrow> byte list" where
  "wave_put_lsleb128 v = sleb_bytes (sint v)"

section \<open>Objects in memory order\<close>

text \<open>
  \<open>fwrite\<close> puts the bytes of an object in the order of the machine that writes the file; \<open>be\<close>
  holds for a big-endian machine, as \<open>Wave_Write_Size_Order\<close> records in the header.
\<close>

definition word_bytes :: "bool \<Rightarrow> nat \<Rightarrow> 'a::len word \<Rightarrow> byte list" where
  "word_bytes be n w =
     (let le = map (\<lambda>i. ucast (drop_bit (8 * i) w)) [0..<n] in if be then rev le else le)"

definition wave_put_i32 :: "bool \<Rightarrow> u32 \<Rightarrow> byte list" where
  "wave_put_i32 be v = word_bytes be 4 v"

definition wave_put_i64 :: "bool \<Rightarrow> u64 \<Rightarrow> byte list" where
  "wave_put_i64 be v = word_bytes be 8 v"

definition wave_put_f64 :: "bool \<Rightarrow> u64 \<Rightarrow> byte list" where
  "wave_put_f64 be v = word_bytes be 8 v"

definition wave_write_size_order :: "bool \<Rightarrow> byte list" where
  "wave_write_size_order be = [if be then 2 else 1, 4, 1, 0]"

lemma length_word_bytes [simp]: "length (word_bytes be n w) = n"
  by (simp add: word_bytes_def Let_def)

lemma length_wave_put [simp]:
  "length (wave_put_i32 be v) = 4" "length (wave_put_i64 be w) = 8" "length (wave_put_f64 be w) = 8"
  by (simp_all add: wave_put_i32_def wave_put_i64_def wave_put_f64_def)

end
