(* ===== verification/Ghw_Numbers.thy ===== *)
theory Ghw_Numbers
  imports Ghw_Stream Ghw_Writer
begin

text \<open>
  The readers of numbers of \<open>ghwlib.c\<close>: 32 and 64 bit integers in the byte order of the file,
  bytes, LEB128 numbers and floating point numbers. Each reader is shown to be the inverse of the
  writer's encoder, and is an interpretation of \<open>wire_codec\<close>.
\<close>

section \<open>Fixed width integers\<close>

definition ghw_get_i32 :: "ghw_handler \<Rightarrow> byte list \<Rightarrow> u32" where
  "ghw_get_i32 h b =
     (if word_be h
      then push_bit 24 (ucast (b ! 0)) OR push_bit 16 (ucast (b ! 1)) OR
           push_bit 8 (ucast (b ! 2)) OR push_bit 0 (ucast (b ! 3))
      else push_bit 24 (ucast (b ! 3)) OR push_bit 16 (ucast (b ! 2)) OR
           push_bit 8 (ucast (b ! 1)) OR push_bit 0 (ucast (b ! 0)))"

text \<open>
  The locals \<open>l\<close> and \<open>h\<close> of \<open>ghw_get_i64\<close> are of type \<open>int\<close>: both are sign-extended to 64 bits
  before they are shifted and combined.
\<close>

definition ghw_get_i64 :: "ghw_handler \<Rightarrow> byte list \<Rightarrow> u64" where
  "ghw_get_i64 ghw_h b =
     (let (h :: u32, l :: u32) =
        (if word_be ghw_h
         then (push_bit 24 (ucast (b ! 0)) OR push_bit 16 (ucast (b ! 1)) OR
               push_bit 8 (ucast (b ! 2)) OR push_bit 0 (ucast (b ! 3)),
               push_bit 24 (ucast (b ! 4)) OR push_bit 16 (ucast (b ! 5)) OR
               push_bit 8 (ucast (b ! 6)) OR push_bit 0 (ucast (b ! 7)))
         else (push_bit 24 (ucast (b ! 7)) OR push_bit 16 (ucast (b ! 6)) OR
               push_bit 8 (ucast (b ! 5)) OR push_bit 0 (ucast (b ! 4)),
               push_bit 24 (ucast (b ! 3)) OR push_bit 16 (ucast (b ! 2)) OR
               push_bit 8 (ucast (b ! 1)) OR push_bit 0 (ucast (b ! 0))))
      in push_bit 32 (scast h) OR scast l)"

text \<open>Four bytes of a word, put side by side, are 32 bits of that word.\<close>

lemma four_bytes:
  fixes w :: "'a::len word"
  shows "push_bit 24 (ucast (ucast (drop_bit (k + 24) w) :: byte)) OR
     (push_bit 16 (ucast (ucast (drop_bit (k + 16) w) :: byte)) OR
      (push_bit 8 (ucast (ucast (drop_bit (k + 8) w) :: byte)) OR
       ucast (ucast (drop_bit k w) :: byte))) = (ucast (drop_bit k w) :: u32)"
proof (rule bit_word_eqI)
  fix n :: nat
  assume "n < LENGTH(32)"
  then consider "n < 8" | "8 \<le> n" "n < 16" | "16 \<le> n" "n < 24" | "24 \<le> n" "n < 32" by fastforce
  then show "bit (push_bit 24 (ucast (ucast (drop_bit (k + 24) w) :: byte)) OR
     (push_bit 16 (ucast (ucast (drop_bit (k + 16) w) :: byte)) OR
      (push_bit 8 (ucast (ucast (drop_bit (k + 8) w) :: byte)) OR
       ucast (ucast (drop_bit k w) :: byte))) :: u32) n = bit (ucast (drop_bit k w) :: u32) n"
    by cases (simp_all add: bit_simps add.assoc less_diff_conv2)
qed

lemma ghw_get_i32_put [simp]: "ghw_get_i32 h (wave_put_i32 (word_be h) v) = v"
  using four_bytes [of 0 v]
  by (simp add: ghw_get_i32_def wave_put_i32_def word_bytes_def upt_rec or.assoc)

lemma ghw_get_i64_put:
  "ghw_get_i64 h (wave_put_i64 (word_be h) v) =
     push_bit 32 (ucast (drop_bit 32 v)) OR scast (ucast v :: u32)"
proof -
  have "push_bit 32 (scast (ucast (drop_bit 32 v) :: u32)) =
      (push_bit 32 (ucast (drop_bit 32 v)) :: u64)"
    by (rule bit_word_eqI) (auto simp: bit_simps)
  then show ?thesis
    using four_bytes [of 0 v] four_bytes [of 32 v]
    by (simp add: ghw_get_i64_def wave_put_i64_def word_bytes_def upt_rec or.assoc)
qed

text \<open>
  The value of the low word is sign-extended over the high word: what the function returns is what
  was written only when bit 31 is clear or all the bits above it are set.
\<close>

lemma or_sign_extended:
  fixes v :: u64
  shows "push_bit 32 (ucast (drop_bit 32 v)) OR scast (ucast v :: u32) =
    (if bit v 31 then v OR push_bit 32 (mask 32) else v :: u64)"
proof (rule bit_word_eqI)
  fix n :: nat
  assume "n < LENGTH(64)"
  moreover have "n < 32 \<Longrightarrow> min 31 n = n" by simp
  ultimately show "bit (push_bit 32 (ucast (drop_bit 32 v)) OR scast (ucast v :: u32) :: u64) n =
    bit (if bit v 31 then v OR push_bit 32 (mask 32) else v :: u64) n"
    by (cases "n < 32") (auto simp: bit_simps)
qed

section \<open>Bytes and LEB128 numbers\<close>

text \<open>
  A function that returns 0 and sets \<open>*res\<close> gives \<open>Some\<close> of the result; \<open>None\<close> is the return
  value -1, which leaves \<open>*res\<close> alone.
\<close>

definition ghw_read_byte :: "ghw_handler \<Rightarrow> (byte option \<times> ghw_handler) run" where
  "ghw_read_byte h = rbind (h_fgetc h) (\<lambda>(v, h). case v of
     None \<Rightarrow> Done (None, h)
   | Some v \<Rightarrow> Done (Some v, h))"

text \<open>The \<open>while (1)\<close> of \<open>ghw_read_uleb128\<close>, from the values of \<open>r\<close> and \<open>off\<close>.\<close>

function read_uleb128_loop ::
  "u32 \<Rightarrow> nat \<Rightarrow> ghw_handler \<Rightarrow> (u32 option \<times> ghw_handler) run" where
  "read_uleb128_loop r off h = rbind (h_fgetc h) (\<lambda>(v, h). case v of
     None \<Rightarrow> Done (None, h)
   | Some v \<Rightarrow>
       if 32 \<le> off then Crash Bad_shift
       else let r = r OR push_bit off (ucast (v AND 0x7f)) in
         if v AND 0x80 = 0 then Done (Some r, h)
         else read_uleb128_loop r (off + 7) h)"
  by pat_completeness auto
termination
  by (relation "measure (\<lambda>(r, off, h). rest_len h)") (auto dest: h_fgetc_progress)

definition ghw_read_uleb128 :: "ghw_handler \<Rightarrow> (u32 option \<times> ghw_handler) run" where
  "ghw_read_uleb128 h = read_uleb128_loop 0 0 h"

text \<open>
  The loop that \<open>ghw_read_sleb128\<close> and \<open>ghw_read_lsleb128\<close> have in common, for a result of
  \<open>LENGTH('w)\<close> bits.
\<close>

function read_sleb128_loop ::
  "'w::len word \<Rightarrow> nat \<Rightarrow> ghw_handler \<Rightarrow> ('w word option \<times> ghw_handler) run" where
  "read_sleb128_loop r off h = rbind (h_fgetc h) (\<lambda>(v, h). case v of
     None \<Rightarrow> Done (None, h)
   | Some v \<Rightarrow>
       if LENGTH('w) \<le> off then Crash Bad_shift
       else let r = r OR push_bit off (ucast (v AND 0x7f)); off = off + 7 in
         if v AND 0x80 = 0
         then Done (Some (if v AND 0x40 \<noteq> 0 \<and> off < LENGTH('w)
                          then r OR push_bit off (-1) else r), h)
         else read_sleb128_loop r off h)"
  by pat_completeness auto
termination
  by (relation "measure (\<lambda>(r, off, h). rest_len h)") (auto dest: h_fgetc_progress)

definition ghw_read_sleb128 :: "ghw_handler \<Rightarrow> (u32 option \<times> ghw_handler) run" where
  "ghw_read_sleb128 h = read_sleb128_loop 0 0 h"

definition ghw_read_lsleb128 :: "ghw_handler \<Rightarrow> (u64 option \<times> ghw_handler) run" where
  "ghw_read_lsleb128 h = read_sleb128_loop 0 0 h"

text \<open>\<open>fread\<close> puts the bytes into a \<open>double\<close> of a little-endian machine.\<close>

definition f64_of_bytes :: "byte list \<Rightarrow> u64" where
  "f64_of_bytes b = word_rcat (rev b)"

definition ghw_read_f64 :: "ghw_handler \<Rightarrow> (u64 option \<times> ghw_handler) run" where
  "ghw_read_f64 h = rbind (h_fread 8 h) (\<lambda>(b, h). case b of
     None \<Rightarrow> Done (None, h)
   | Some b \<Rightarrow> Done (Some (f64_of_bytes b), h))"

declare read_uleb128_loop.simps [simp del] read_sleb128_loop.simps [simp del]

section \<open>Frame and progress\<close>

lemma read_uleb128_loop_advances: "read_uleb128_loop r off h = Done (x, h') \<Longrightarrow> advances h h'"
proof (induction r off h rule: read_uleb128_loop.induct)
  case (1 r off h)
  from "1.prems" obtain v h1 where h1: "h_fgetc h = Done (v, h1)"
    by (subst (asm) read_uleb128_loop.simps) auto
  then have adv: "advances h h1" by (rule h_fgetc_advances)
  show ?case
  proof (cases "h1 = h'")
    case False
    with "1.prems" h1 obtain b where "v = Some b" "\<not> 32 \<le> off" "b AND 0x80 \<noteq> 0"
      "read_uleb128_loop (r OR push_bit off (ucast (b AND 0x7f))) (off + 7) h1 = Done (x, h')"
      by (subst (asm) read_uleb128_loop.simps) (auto simp: Let_def split: option.splits if_splits)
    then have "advances h1 h'" using h1 "1.IH" by auto
    with adv show ?thesis by (rule advances_trans)
  qed (use adv in simp)
qed

lemma read_sleb128_loop_advances: "read_sleb128_loop r off h = Done (x, h') \<Longrightarrow> advances h h'"
proof (induction r off h rule: read_sleb128_loop.induct)
  case (1 r off h)
  from "1.prems" obtain v h1 where h1: "h_fgetc h = Done (v, h1)"
    by (subst (asm) read_sleb128_loop.simps) auto
  then have adv: "advances h h1" by (rule h_fgetc_advances)
  show ?case
  proof (cases "h1 = h'")
    case False
    with "1.prems" h1 obtain b where "v = Some b" "\<not> LENGTH('a) \<le> off" "b AND 0x80 \<noteq> 0"
      "read_sleb128_loop (r OR push_bit off (ucast (b AND 0x7f))) (off + 7) h1 = Done (x, h')"
      by (subst (asm) read_sleb128_loop.simps) (auto simp: Let_def split: option.splits if_splits)
    then have "advances h1 h'" using h1 "1.IH" by auto
    with adv show ?thesis by (rule advances_trans)
  qed (use adv in simp)
qed

lemma read_uleb128_loop_stops: "stops (read_uleb128_loop r off h)"
proof (induction r off h rule: read_uleb128_loop.induct)
  case (1 r off h)
  show ?case
    by (subst read_uleb128_loop.simps) (auto simp: Let_def intro!: stops_rules "1.IH")
qed

lemma read_sleb128_loop_stops: "stops (read_sleb128_loop r off h)"
proof (induction r off h rule: read_sleb128_loop.induct)
  case (1 r off h)
  show ?case
    by (subst read_sleb128_loop.simps) (auto simp: Let_def intro!: stops_rules "1.IH")
qed

lemma number_stops [simp]:
  "stops (ghw_read_byte h)" "stops (ghw_read_uleb128 h)" "stops (ghw_read_sleb128 h)"
  "stops (ghw_read_lsleb128 h)" "stops (ghw_read_f64 h)"
  by (auto simp: ghw_read_byte_def ghw_read_uleb128_def ghw_read_sleb128_def ghw_read_lsleb128_def
    ghw_read_f64_def read_uleb128_loop_stops read_sleb128_loop_stops intro!: stops_rules)

section \<open>Round trips\<close>

lemma and_0x80: "(b :: byte) AND 0x80 = 0 \<longleftrightarrow> \<not> bit b 7"
  using and_exp_eq_0_iff_not_bit [of b 7] by simp

lemma and_0x40: "(b :: byte) AND 0x40 = 0 \<longleftrightarrow> \<not> bit b 6"
  using and_exp_eq_0_iff_not_bit [of b 6] by simp

lemma and_0x7f: "(b :: byte) AND 0x7f = take_bit 7 b"
  by (simp add: take_bit_eq_mask mask_eq_exp_minus_1)

lemma bit_or_0x80: "bit (b OR (0x80 :: byte)) n \<longleftrightarrow> n = 7 \<or> bit b n"
  using bit_exp_iff [of 7 n, where ?'a = byte] by (auto simp: bit_or_iff)

lemma bit_mod_128: "bit (v mod 128 :: int) n \<longleftrightarrow> n < 7 \<and> bit v n"
  using bit_take_bit_iff [of 7 v n] by (simp add: take_bit_eq_mod)

lemma bit_div_128: "bit (v div 128 :: int) n \<longleftrightarrow> bit v (n + 7)"
  using bit_drop_bit_eq [of 7 v] by (simp add: drop_bit_eq_div add.commute)

lemma bit_leb_byte:
  assumes "b = word_of_int (v mod 128) \<or> b = word_of_int (v mod 128) OR (0x80 :: byte)"
  shows "bit (b AND 0x7f) k \<longleftrightarrow> k < 7 \<and> bit (v :: int) k"
  using assms
  by (auto simp: and_0x7f bit_take_bit_iff bit_or_0x80 bit_word_of_int_iff bit_mod_128)

text \<open>The bits of a group of seven are put into place, and the bits above follow.\<close>

lemma leb_step:
  fixes v :: int
  assumes "b = word_of_int (v mod 128) \<or> b = word_of_int (v mod 128) OR (0x80 :: byte)"
  shows "push_bit off (ucast (b AND 0x7f)) OR push_bit (off + 7) (word_of_int (v div 128)) =
    (push_bit off (word_of_int v) :: 'w::len word)"
proof (rule bit_word_eqI)
  fix n
  assume n: "n < LENGTH('w)"
  consider "n < off" | "off \<le> n" "n < off + 7" | "off + 7 \<le> n" by linarith
  then show "bit (push_bit off (ucast (b AND 0x7f)) OR
    push_bit (off + 7) (word_of_int (v div 128)) :: 'w word) n =
    bit (push_bit off (word_of_int v) :: 'w word) n"
    using n by cases (auto simp: bit_push_bit_iff bit_or_iff bit_ucast_iff bit_leb_byte [OF assms] bit_word_of_int_iff
      bit_div_128 less_diff_conv2)
qed

lemma read_uleb128_loop_Cons [run_simps]:
  "rest_of h = Some (b # bs) \<Longrightarrow> read_uleb128_loop r off h =
    (if 32 \<le> off then Crash Bad_shift
     else let r = r OR push_bit off (ucast (b AND 0x7f)) in
       if b AND 0x80 = 0 then Done (Some r, set_rest bs h)
       else read_uleb128_loop r (off + 7) (set_rest bs h))"
  by (subst read_uleb128_loop.simps) (simp add: run_simps)

lemma read_uleb128_loop_Nil [run_simps]:
  "rest_of h = Some [] \<Longrightarrow> read_uleb128_loop r off h = Done (None, input_end h)"
  by (subst read_uleb128_loop.simps) (simp add: run_simps)

lemma read_sleb128_loop_Cons [run_simps]:
  "rest_of h = Some (b # bs) \<Longrightarrow> read_sleb128_loop (r :: 'w::len word) off h =
    (if LENGTH('w) \<le> off then Crash Bad_shift
     else let r = r OR push_bit off (ucast (b AND 0x7f)); off = off + 7 in
       if b AND 0x80 = 0
       then Done (Some (if b AND 0x40 \<noteq> 0 \<and> off < LENGTH('w)
                        then r OR push_bit off (-1) else r), set_rest bs h)
       else read_sleb128_loop r off (set_rest bs h))"
  by (subst read_sleb128_loop.simps) (simp add: run_simps)

lemma read_sleb128_loop_Nil [run_simps]:
  "rest_of h = Some [] \<Longrightarrow> read_sleb128_loop r off h = Done (None, input_end h)"
  by (subst read_sleb128_loop.simps) (simp add: run_simps)

lemma uleb_last: "(word_of_nat (v mod 128) :: byte) = word_of_int (int v mod 128)"
  by (metis of_int_of_nat_eq of_nat_mod of_nat_numeral)

lemma uleb_div: "(word_of_nat (v div 128) :: 'w::len word) = word_of_int (int v div 128)"
  by (metis of_int_of_nat_eq of_nat_div of_nat_numeral)

lemma uleb_cont: "(128 + word_of_nat (v mod 128) :: byte) = word_of_int (int v mod 128) OR 0x80"
proof -
  have "(word_of_int (int v mod 128) :: byte) AND 0x80 = 0"
    by (simp add: and_0x80 bit_word_of_int_iff bit_mod_128)
  then have "word_of_int (int v mod 128) OR 0x80 = word_of_int (int v mod 128) + (0x80 :: byte)"
    by (simp add: disjunctive_add_eq_or)
  then show ?thesis by (simp add: uleb_last)
qed

lemma read_uleb128_loop_put:
  assumes "rest_of h = Some (uleb_bytes v @ bs)" "off < 32" "v < 2 ^ (32 - off)"
  shows "read_uleb128_loop r off h =
    Done (Some (r OR push_bit off (word_of_nat v)), set_rest bs h)"
  using assms
proof (induction v arbitrary: r off h rule: uleb_bytes.induct)
  case (1 v)
  define b :: byte where "b = word_of_int (int v mod 128)"
  have step: "push_bit off (ucast ((b OR 0x80) AND 0x7f)) OR
      push_bit (off + 7) (word_of_nat (v div 128)) = (push_bit off (word_of_nat v) :: u32)"
    "push_bit off (ucast (b AND 0x7f)) OR
      push_bit (off + 7) (word_of_nat (v div 128)) = (push_bit off (word_of_nat v) :: u32)"
    using leb_step [of _ "int v" off, where ?'w = 32] by (simp_all add: b_def uleb_div)
  show ?case
  proof (cases "v div 128 = 0")
    case True
    with "1.prems"(1) have "rest_of h = Some (b # bs)"
      by (subst (asm) uleb_bytes.simps) (simp add: b_def uleb_last)
    moreover have "b AND 0x80 = 0" by (simp add: b_def and_0x80 bit_word_of_int_iff bit_mod_128)
    ultimately show ?thesis using step(2) True "1.prems"(2) by (simp add: run_simps)
  next
    case False
    with "1.prems"(1) have rest: "rest_of h = Some ((b OR 0x80) # uleb_bytes (v div 128) @ bs)"
      by (subst (asm) uleb_bytes.simps) (simp add: b_def uleb_cont Let_def)
    have "128 \<le> v" using False by (simp add: div_eq_0_iff)
    with "1.prems"(3) have "(2::nat) ^ 7 < 2 ^ (32 - off)" by simp
    then have "7 < 32 - off" by (simp only: power_strict_increasing_iff)
    then have off: "off + 7 < 32" and "32 - off = 32 - (off + 7) + 7" by simp_all
    from this(2) have "(2::nat) ^ (32 - off) = 2 ^ (32 - (off + 7)) * 2 ^ 7"
      by (simp only: power_add)
    with "1.prems"(3) have "v div 128 < 2 ^ (32 - (off + 7))"
      by (simp add: less_mult_imp_div_less)
    from "1.IH" [OF refl refl _ _ off this] False rest
    have "read_uleb128_loop (r OR push_bit off (ucast ((b OR 0x80) AND 0x7f))) (off + 7)
        (set_rest (uleb_bytes (v div 128) @ bs) h) =
      Done (Some (r OR push_bit off (word_of_nat v)), set_rest bs h)"
      by (simp add: step(1) or.assoc)
    with rest "1.prems"(2) show ?thesis by (simp add: run_simps and_0x80 bit_or_0x80)
  qed
qed


text \<open>Every byte of an encoding but the last has its continuation bit set.\<close>

lemma uleb_bytes_cont: "b \<in> set (butlast (uleb_bytes v)) \<Longrightarrow> bit b 7"
proof (induction v rule: uleb_bytes.induct)
  case (1 v)
  show ?case
  proof (cases "v div 128 = 0")
    case False
    with "1.prems" have "b = word_of_int (int v mod 128) OR 0x80 \<or>
        b \<in> set (butlast (uleb_bytes (v div 128)))"
      by (subst (asm) uleb_bytes.simps) (auto simp: Let_def uleb_cont split: if_splits)
    with "1.IH" False show ?thesis by (auto simp: bit_or_0x80)
  qed (use "1.prems" in \<open>subst (asm) uleb_bytes.simps, simp\<close>)
qed

lemma sleb_bytes_cont: "b \<in> set (butlast (sleb_bytes v)) \<Longrightarrow> bit b 7"
proof (induction v rule: sleb_bytes.induct)
  case (1 v)
  then show ?case
    by (subst (asm) sleb_bytes.simps) (auto simp: Let_def bit_or_0x80 split: if_splits)
qed

lemma uleb_bytes_length: "v < 2 ^ (7 * n) \<Longrightarrow> 0 < n \<Longrightarrow> length (uleb_bytes v) \<le> n"
proof (induction n arbitrary: v)
  case (Suc n)
  show ?case
  proof (cases "v div 128 = 0")
    case True
    then show ?thesis by (subst uleb_bytes.simps) simp
  next
    case False
    then have "128 \<le> v" by (simp add: div_eq_0_iff)
    moreover have "v div 128 < 2 ^ (7 * n)"
      using Suc.prems(1) by (simp add: less_mult_imp_div_less power_add mult.commute)
    ultimately show ?thesis
      using Suc.IH [of "v div 128"] Suc.prems(1) False
      by (subst uleb_bytes.simps) (cases n, auto simp: Let_def)
  qed
qed simp

lemma seven_bits:
  assumes "-64 \<le> v" "v < (64 :: int)"
  shows "v div 128 = 0 \<and> \<not> bit v 6 \<or> v div 128 = -1 \<and> bit v 6"
proof -
  have "bit v 6 \<longleftrightarrow> odd (v div 64)" by (simp add: bit_iff_odd)
  moreover have "v div 64 = (if v < 0 then -1 else 0)" "v div 128 = (if v < 0 then -1 else 0)"
    using assms int_div_pos_eq [of v 64 "-1" "v + 64"] int_div_pos_eq [of v 128 "-1" "v + 128"]
    by simp_all
  ultimately show ?thesis by simp
qed

lemma sleb_bytes_length:
  "- (2 ^ (7 * n + 6)) \<le> v \<Longrightarrow> v < 2 ^ (7 * n + 6) \<Longrightarrow> length (sleb_bytes v) \<le> Suc n"
proof (induction n arbitrary: v)
  case 0
  then show ?case using seven_bits [of v]
    by (subst sleb_bytes.simps)
      (auto simp: Let_def and_0x40 bit_word_of_int_iff bit_mod_128)
next
  case (Suc n)
  have "- (2 ^ (7 * n + 6)) \<le> v div 128" "v div 128 < 2 ^ (7 * n + 6)"
    using Suc.prems by (simp_all add: power_add)
  with Suc.IH [of "v div 128"] show ?case
    by (subst sleb_bytes.simps) (simp add: Let_def)
qed

lemma input_end_set_rest [simp]: "input_end (set_rest bs h) = input_end h"
  by (cases "stream h") (simp_all add: input_end_def set_rest_def at_end_def)

lemma read_uleb128_loop_cont:
  assumes "rest_of h = Some bs" "\<forall>b\<in>set bs. bit b 7" "off + 7 * length bs < 39"
  shows "read_uleb128_loop r off h = Done (None, input_end h)"
  using assms
proof (induction bs arbitrary: r off h)
  case (Cons b bs)
  then show ?case using Cons.IH [of "set_rest bs h"]
    by (simp add: run_simps and_0x80)
qed (simp add: run_simps)

lemma read_sleb128_loop_cont:
  assumes "rest_of h = Some bs" "\<forall>b\<in>set bs. bit b 7" "off + 7 * length bs < LENGTH('w) + 7"
  shows "read_sleb128_loop (r :: 'w::len word) off h = Done (None, input_end h)"
  using assms
proof (induction bs arbitrary: r off h)
  case (Cons b bs)
  then show ?case using Cons.IH [of "set_rest bs h"]
    by (simp add: run_simps and_0x80)
qed (simp add: run_simps)

lemma prefix_butlast:
  "xs = ps @ qs \<Longrightarrow> qs \<noteq> [] \<Longrightarrow> set ps \<subseteq> set (butlast xs) \<and> length ps < length xs"
  by (auto simp: butlast_append)

lemma sleb_stop:
  assumes "v div 128 = 0 \<and> \<not> bit v 6 \<or> v div 128 = -1 \<and> bit v 6"
  shows "(if bit v 6 \<and> off + 7 < LENGTH('w)
    then push_bit off (ucast (word_of_int (v mod 128) AND 0x7f :: byte)) OR push_bit (off + 7) (-1)
    else push_bit off (ucast (word_of_int (v mod 128) AND 0x7f :: byte))) =
      (push_bit off (word_of_int v) :: 'w::len word)"
proof -
  have *: "push_bit off (ucast (word_of_int (v mod 128) AND 0x7f :: byte)) OR
     push_bit (off + 7) (word_of_int (v div 128)) = (push_bit off (word_of_int v) :: 'w word)"
    by (rule leb_step) simp
  have zero: "(push_bit k w :: 'w word) = 0" if "\<not> k < LENGTH('w)" for k w
    using that by (intro bit_word_eqI) (simp add: bit_simps)
  show ?thesis
  proof (cases "bit v 6")
    case True
    with assms have "word_of_int (v div 128) = (-1 :: 'w word)" by simp
    with * zero [of "off + 7" "-1"] True show ?thesis by (metis or.right_neutral)
  qed (use * assms in auto)
qed

lemma read_sleb128_loop_put:
  assumes "rest_of h = Some (sleb_bytes v @ bs)" "off < LENGTH('w)"
    "- (2 ^ (LENGTH('w) - off - 1)) \<le> v" "v < 2 ^ (LENGTH('w) - off - 1)"
  shows "read_sleb128_loop (r :: 'w::len word) off h =
    Done (Some (r OR push_bit off (word_of_int v)), set_rest bs h)"
  using assms
proof (induction v arbitrary: r off h rule: sleb_bytes.induct)
  case (1 v)
  define b :: byte where "b = word_of_int (v mod 128)"
  have b6: "b AND 0x40 = 0 \<longleftrightarrow> \<not> bit v 6"
    by (simp add: b_def and_0x40 bit_word_of_int_iff bit_mod_128)
  show ?case
  proof (cases "v div 128 = 0 \<and> \<not> bit v 6 \<or> v div 128 = -1 \<and> bit v 6")
    case True
    with "1.prems"(1) b6 have "rest_of h = Some (b # bs)"
      by (subst (asm) sleb_bytes.simps) (auto simp flip: b_def)
    moreover have "b AND 0x80 = 0" by (simp add: b_def and_0x80 bit_word_of_int_iff bit_mod_128)
    ultimately show ?thesis
      using sleb_stop [OF True, of off, where 'w = 'w] "1.prems"(2) b6
      by (auto simp: run_simps or.assoc simp flip: b_def split: if_splits)
  next
    case False
    with "1.prems"(1) b6 have rest: "rest_of h = Some ((b OR 0x80) # sleb_bytes (v div 128) @ bs)"
      by (subst (asm) sleb_bytes.simps) (auto simp: Let_def simp flip: b_def)
    have "\<not> LENGTH('w) - off - 1 \<le> 6"
    proof
      assume "LENGTH('w) - off - 1 \<le> 6"
      then have "(2 :: int) ^ (LENGTH('w) - off - 1) \<le> 2 ^ 6" by (rule power_increasing) simp
      with "1.prems"(3,4) seven_bits [of v] False show False by simp
    qed
    then have off: "off + 7 < LENGTH('w)"
      and "LENGTH('w) - off - 1 = LENGTH('w) - (off + 7) - 1 + 7" by simp_all
    from this(2) have "(2 :: int) ^ (LENGTH('w) - off - 1) = 2 ^ (LENGTH('w) - (off + 7) - 1) * 2 ^ 7"
      by (simp only: power_add)
    with "1.prems"(3,4) have range: "- (2 ^ (LENGTH('w) - (off + 7) - 1)) \<le> v div 128"
      "v div 128 < 2 ^ (LENGTH('w) - (off + 7) - 1)" by simp_all
    have "\<not> (v div 128 = 0 \<and> word_of_int (v mod 128) AND 0x40 = (0 :: byte) \<or>
        v div 128 = -1 \<and> word_of_int (v mod 128) AND 0x40 \<noteq> (0 :: byte))"
      using False b6 unfolding b_def by blast
    note IH = "1.IH" [OF refl refl this _ off range]
    from IH [of "set_rest (sleb_bytes (v div 128) @ bs) h"] rest
    have "read_sleb128_loop (r OR push_bit off (ucast ((b OR 0x80) AND 0x7f))) (off + 7)
        (set_rest (sleb_bytes (v div 128) @ bs) h) =
      Done (Some (r OR push_bit off (word_of_int v)), set_rest bs h)"
      using leb_step [of "b OR 0x80" v off, where 'w = 'w]
      by (simp add: b_def or.assoc)
    with rest "1.prems"(2) show ?thesis by (simp add: run_simps and_0x80 bit_or_0x80)
  qed
qed
section \<open>The readers are codecs\<close>

lemma uleb_prefix:
  "uleb_bytes v = ps @ qs \<Longrightarrow> qs \<noteq> [] \<Longrightarrow>
   (\<forall>b\<in>set ps. bit b 7) \<and> length ps < length (uleb_bytes v)"
  by (metis prefix_butlast uleb_bytes_cont subsetD)

lemma sleb_prefix:
  "sleb_bytes v = ps @ qs \<Longrightarrow> qs \<noteq> [] \<Longrightarrow>
   (\<forall>b\<in>set ps. bit b 7) \<and> length ps < length (sleb_bytes v)"
  by (metis prefix_butlast sleb_bytes_cont subsetD)

lemma read_uleb128_loop_progress:
  "read_uleb128_loop r off h = Done (Some x, h') \<Longrightarrow> rest_len h' < rest_len h"
proof (cases "rest_of h")
  case (Some bs)
  assume *: "read_uleb128_loop r off h = Done (Some x, h')"
  then obtain b cs where "bs = b # cs" using Some by (cases bs) (auto simp: run_simps)
  with * Some show ?thesis
    by (auto simp: run_simps Let_def rest_len_def split: if_splits
      dest!: read_uleb128_loop_advances advances_rest_len)
qed (subst (asm) read_uleb128_loop.simps, simp add: run_simps)

lemma read_sleb128_loop_progress:
  "read_sleb128_loop r off h = Done (Some x, h') \<Longrightarrow> rest_len h' < rest_len h"
proof (cases "rest_of h")
  case (Some bs)
  assume *: "read_sleb128_loop r off h = Done (Some x, h')"
  then obtain b cs where "bs = b # cs" using Some by (cases bs) (auto simp: run_simps)
  with * Some show ?thesis
    by (auto simp: run_simps Let_def rest_len_def split: if_splits
      dest!: read_sleb128_loop_advances advances_rest_len)
qed (subst (asm) read_sleb128_loop.simps, simp add: run_simps)

lemma word_rcat_word_bytes: "word_rcat (rev (word_bytes False 8 w)) = (w :: u64)"
proof (rule bit_word_eqI)
  fix n :: nat
  assume "n < LENGTH(64)"
  then have "n div 8 < 8" "8 * (n div 8) + n mod 8 = n" by simp_all
  then show "bit (word_rcat (rev (word_bytes False 8 w)) :: u64) n = bit w n"
    using \<open>n < LENGTH(64)\<close>
    by (simp add: word_rcat_def bit_word_of_int_iff bit_horner_sum_uint_exp_iff
        bit_horner_sum_uint_exp_iff [where ?'a = 8, simplified] word_bytes_def bit_ucast_iff bit_drop_bit_eq)
qed

interpretation byte_rd: wire_codec ghw_read_byte "\<lambda>b. [b]"
proof unfold_locales
  fix h h' r
  show "ghw_read_byte h = Done (r, h') \<Longrightarrow> advances h h'"
    by (auto simp: ghw_read_byte_def split: option.splits dest: h_fgetc_advances)
next
  fix h h' x
  show "ghw_read_byte h = Done (Some x, h') \<Longrightarrow> rest_len h' < rest_len h"
    by (auto simp: ghw_read_byte_def split: option.splits dest: h_fgetc_progress)
qed (auto simp: ghw_read_byte_def run_simps Cons_eq_append_conv)

interpretation uleb: wire_codec ghw_read_uleb128 wave_put_uleb128
proof unfold_locales
  fix h :: ghw_handler and x ps qs
  assume *: "rest_of h = Some ps" "wave_put_uleb128 x = ps @ qs" "qs \<noteq> []"
  have "length (uleb_bytes (unat x)) \<le> 5"
    using unsigned_less [of x, where ?'a = nat] by (intro uleb_bytes_length) auto
  then show "ghw_read_uleb128 h = Done (None, input_end h)"
    using * uleb_prefix
    by (auto simp: ghw_read_uleb128_def wave_put_uleb128_def
      intro!: read_uleb128_loop_cont [where bs = ps])
next
  fix h :: ghw_handler and x bs
  assume "rest_of h = Some (wave_put_uleb128 x @ bs)"
  then show "ghw_read_uleb128 h = Done (Some x, set_rest bs h)"
    using read_uleb128_loop_put [of h "unat x" bs 0 0] unsigned_less [of x, where ?'a = nat]
    by (simp add: ghw_read_uleb128_def wave_put_uleb128_def)
qed (auto simp: ghw_read_uleb128_def dest: read_uleb128_loop_advances read_uleb128_loop_progress)

interpretation sleb: wire_codec ghw_read_sleb128 wave_put_sleb128
proof unfold_locales
  fix h :: ghw_handler and x ps qs
  assume *: "rest_of h = Some ps" "wave_put_sleb128 x = ps @ qs" "qs \<noteq> []"
  have "length (sleb_bytes (sint x)) \<le> Suc 4"
    using sint_ge [of x] sint_less [of x] by (intro sleb_bytes_length) auto
  then show "ghw_read_sleb128 h = Done (None, input_end h)"
    using * sleb_prefix
    by (auto simp: ghw_read_sleb128_def wave_put_sleb128_def
      intro!: read_sleb128_loop_cont [where bs = ps])
next
  fix h :: ghw_handler and x bs
  assume "rest_of h = Some (wave_put_sleb128 x @ bs)"
  then show "ghw_read_sleb128 h = Done (Some x, set_rest bs h)"
    using read_sleb128_loop_put [of h "sint x" bs 0 "0 :: u32"] sint_ge [of x] sint_less [of x]
    by (simp add: ghw_read_sleb128_def wave_put_sleb128_def)
qed (auto simp: ghw_read_sleb128_def dest: read_sleb128_loop_advances read_sleb128_loop_progress)

interpretation lsleb: wire_codec ghw_read_lsleb128 wave_put_lsleb128
proof unfold_locales
  fix h :: ghw_handler and x ps qs
  assume *: "rest_of h = Some ps" "wave_put_lsleb128 x = ps @ qs" "qs \<noteq> []"
  have "length (sleb_bytes (sint x)) \<le> Suc 9"
    using sint_ge [of x] sint_less [of x] by (intro sleb_bytes_length) auto
  then show "ghw_read_lsleb128 h = Done (None, input_end h)"
    using * sleb_prefix
    by (auto simp: ghw_read_lsleb128_def wave_put_lsleb128_def
      intro!: read_sleb128_loop_cont [where bs = ps])
next
  fix h :: ghw_handler and x bs
  assume "rest_of h = Some (wave_put_lsleb128 x @ bs)"
  then show "ghw_read_lsleb128 h = Done (Some x, set_rest bs h)"
    using read_sleb128_loop_put [of h "sint x" bs 0 "0 :: u64"] sint_ge [of x] sint_less [of x]
    by (simp add: ghw_read_lsleb128_def wave_put_lsleb128_def)
qed (auto simp: ghw_read_lsleb128_def dest: read_sleb128_loop_advances read_sleb128_loop_progress)

interpretation f64_rd: wire_codec ghw_read_f64 "wave_put_f64 False"
proof unfold_locales
  fix h h' r
  show "ghw_read_f64 h = Done (r, h') \<Longrightarrow> advances h h'"
    by (auto simp: ghw_read_f64_def split: option.splits dest: h_fread_advances)
next
  fix h h' x
  show "ghw_read_f64 h = Done (Some x, h') \<Longrightarrow> rest_len h' < rest_len h"
    by (auto simp: ghw_read_f64_def rest_len_def split: option.splits elim!: h_fread_cases)
next
  fix h x bs
  show "rest_of h = Some (wave_put_f64 False x @ bs) \<Longrightarrow>
    ghw_read_f64 h = Done (Some x, set_rest bs h)"
    by (simp add: ghw_read_f64_def run_simps f64_of_bytes_def wave_put_f64_def
      word_rcat_word_bytes)
next
  fix h :: ghw_handler and ps x qs
  assume "rest_of h = Some ps" "wave_put_f64 False x = ps @ qs" "qs \<noteq> []"
  moreover from this(2,3) have "length ps < 8"
    by (metis length_wave_put(3) length_append length_greater_0_conv less_add_same_cancel1)
  ultimately show "ghw_read_f64 h = Done (None, input_end h)"
    by (simp add: ghw_read_f64_def run_simps)
qed

section \<open>Properties\<close>

text \<open>
  C19: The three LEB128 readers are the inverses of the writer's encoders, on every value and
  whatever follows: each returns the value, and leaves the stream right behind its last byte and
  the handler otherwise as it was.
\<close>

theorem leb128_roundtrip:
  "ghw_read_uleb128 (h\<lparr>stream := Some (f\<lparr>st_rest := wave_put_uleb128 x @ bs\<rparr>)\<rparr>) =
     Done (Some x, h\<lparr>stream := Some (f\<lparr>st_rest := bs\<rparr>)\<rparr>) \<and>
   ghw_read_sleb128 (h\<lparr>stream := Some (f\<lparr>st_rest := wave_put_sleb128 y @ bs\<rparr>)\<rparr>) =
     Done (Some y, h\<lparr>stream := Some (f\<lparr>st_rest := bs\<rparr>)\<rparr>) \<and>
   ghw_read_lsleb128 (h\<lparr>stream := Some (f\<lparr>st_rest := wave_put_lsleb128 z @ bs\<rparr>)\<rparr>) =
     Done (Some z, h\<lparr>stream := Some (f\<lparr>st_rest := bs\<rparr>)\<rparr>)"
  by (intro conjI; subst uleb.rd_put sleb.rd_put lsleb.rd_put) simp_all

text \<open>
  C27: A number that is cut off by the end of the input is an error: on every proper prefix of
  an encoding the readers return -1, and have read the input to its end.
\<close>

theorem leb128_truncated:
  "(wave_put_uleb128 x = ps @ q # qs \<longrightarrow>
     ghw_read_uleb128 (h\<lparr>stream := Some (f\<lparr>st_rest := ps\<rparr>)\<rparr>) =
       Done (None, h\<lparr>stream := Some (at_end f)\<rparr>)) \<and>
   (wave_put_sleb128 y = ps @ q # qs \<longrightarrow>
     ghw_read_sleb128 (h\<lparr>stream := Some (f\<lparr>st_rest := ps\<rparr>)\<rparr>) =
       Done (None, h\<lparr>stream := Some (at_end f)\<rparr>)) \<and>
   (wave_put_lsleb128 z = ps @ q # qs \<longrightarrow>
     ghw_read_lsleb128 (h\<lparr>stream := Some (f\<lparr>st_rest := ps\<rparr>)\<rparr>) =
       Done (None, h\<lparr>stream := Some (at_end f)\<rparr>))"
  by (intro conjI impI; subst uleb.rd_cut sleb.rd_cut lsleb.rd_cut, assumption?)
    (auto simp: at_end_def)

theorem leb128_truncated_witness:
  "\<forall>h. ghw_read_sleb128 (h\<lparr>stream := Some ((file_of [])\<lparr>st_rest := [0xff]\<rparr>)\<rparr>) =
    Done (None, h\<lparr>stream := Some (at_end (file_of []))\<rparr>)"
proof
  fix h :: ghw_handler
  have "wave_put_sleb128 (-129) = [0xff] @ 0x7e # []" by code_simp
  then show "ghw_read_sleb128 (h\<lparr>stream := Some ((file_of [])\<lparr>st_rest := [0xff]\<rparr>)\<rparr>) =
    Done (None, h\<lparr>stream := Some (at_end (file_of []))\<rparr>)"
    by (rule leb128_truncated [THEN conjunct2, THEN conjunct1, rule_format])
qed

text \<open>
  C26: \<open>ghw_get_i64\<close> gives back the 64 bit value that was written, in either byte order, unless
  bit 31 of the value is set: then the low word is sign-extended over the high word, and the
  high 32 bits of the result are all ones.
\<close>

theorem ghw_get_i64_written:
  "ghw_get_i64 h (wave_put_i64 (word_be h) v) =
     (if bit v 31 then v OR push_bit 32 (mask 32) else v)"
  by (simp only: ghw_get_i64_put or_sign_extended)

lemma read_uleb128_loop_long:
  assumes "rest_of h = Some (cs @ b # bs)" "\<forall>c\<in>set cs. bit c 7" "32 \<le> off + 7 * length cs"
  shows "read_uleb128_loop r off h = Crash Bad_shift"
  using assms
proof (induction cs arbitrary: r off h)
  case (Cons c cs)
  then show ?case using Cons.IH [of "set_rest (cs @ b # bs) h"]
    by (simp add: run_simps and_0x80)
qed (simp add: run_simps)

lemma read_sleb128_loop_long:
  assumes "rest_of h = Some (cs @ b # bs)" "\<forall>c\<in>set cs. bit c 7" "LENGTH('w) \<le> off + 7 * length cs"
  shows "read_sleb128_loop (r :: 'w::len word) off h = Crash Bad_shift"
  using assms
proof (induction cs arbitrary: r off h)
  case (Cons c cs)
  then show ?case using Cons.IH [of "set_rest (cs @ b # bs) h"]
    by (simp add: run_simps and_0x80)
qed (simp add: run_simps)

text \<open>
  Nothing bounds the length of a number. Behind five bytes with the continuation bit (for the
  64 bit numbers: ten) the next byte is shifted by the width of the number or more, whatever
  the byte is.
\<close>

lemma leb128_overlong:
  assumes "\<forall>c\<in>set cs. bit c 7" "5 \<le> length cs"
  shows "ghw_read_uleb128 (h\<lparr>stream := Some (f\<lparr>st_rest := cs @ b # bs\<rparr>)\<rparr>) = Crash Bad_shift \<and>
    ghw_read_sleb128 (h\<lparr>stream := Some (f\<lparr>st_rest := cs @ b # bs\<rparr>)\<rparr>) = Crash Bad_shift \<and>
    (10 \<le> length cs \<longrightarrow>
      ghw_read_lsleb128 (h\<lparr>stream := Some (f\<lparr>st_rest := cs @ b # bs\<rparr>)\<rparr>) = Crash Bad_shift)"
  using assms
    read_uleb128_loop_long [of "h\<lparr>stream := Some (f\<lparr>st_rest := cs @ b # bs\<rparr>)\<rparr>" cs b bs 0 0]
    read_sleb128_loop_long [of "h\<lparr>stream := Some (f\<lparr>st_rest := cs @ b # bs\<rparr>)\<rparr>" cs b bs 0 "0 :: u32"]
    read_sleb128_loop_long [of "h\<lparr>stream := Some (f\<lparr>st_rest := cs @ b # bs\<rparr>)\<rparr>" cs b bs 0 "0 :: u64"]
  by (simp add: ghw_read_uleb128_def ghw_read_sleb128_def ghw_read_lsleb128_def)

lemma leb128_overlong_witness:
  "\<forall>h. ghw_read_lsleb128 (h\<lparr>stream := Some ((file_of [])\<lparr>st_rest := replicate 10 0x80 @ 1 # []\<rparr>)\<rparr>) =
    Crash Bad_shift"
proof
  fix h :: ghw_handler
  have "\<forall>c\<in>set (replicate 10 (0x80 :: byte)). bit c 7" "10 \<le> length (replicate 10 (0x80 :: byte))"
    by code_simp simp
  then show "ghw_read_lsleb128 (h\<lparr>stream := Some ((file_of [])\<lparr>st_rest := replicate 10 0x80 @ 1 # []\<rparr>)\<rparr>) =
      Crash Bad_shift"
    using leb128_overlong [where cs = "replicate 10 0x80" and h = h and f = "file_of []" and b = 1 and bs = "[]"]
    by linarith
qed

end
