(* ===== verification/Ghw_Strings.thy ===== *)
theory Ghw_Strings
  imports Ghw_Numbers
begin

text \<open>
  The string table: \<open>ghw_read_str\<close> and \<open>ghw_read_strid\<close>, and the string section of the
  waveform writer, whose strings are sorted and stored without the prefix they share with the
  string before.
\<close>

section \<open>Reading the string section\<close>

text \<open>
  The size of the buffer \<open>str_content\<close> and the number of entries of \<open>str_table\<close>, in unsigned
  arithmetic. \<open>p\<close> always points behind the last byte that was written to the buffer.
\<close>

definition content_size :: "ghw_handler \<Rightarrow> nat" where
  "content_size h = unat (str_size h + nbr_str h + 1)"

definition table_size :: "ghw_handler \<Rightarrow> nat" where
  "table_size h = unat (nbr_str h + 1)"

text \<open>\<open>*p++ = c\<close>\<close>

definition put_content :: "byte \<Rightarrow> ghw_handler \<Rightarrow> ghw_handler run" where
  "put_content c h =
     (if length (str_content h) < content_size h
      then Done (h\<lparr>str_content := str_content h @ [c]\<rparr>) else Crash Out_of_bounds)"

text \<open>\<open>prev[j]\<close>\<close>

definition str_byte :: "ghw_handler \<Rightarrow> str_ptr \<Rightarrow> nat \<Rightarrow> byte run" where
  "str_byte h s j = (case s of
     Anon_lit \<Rightarrow> array_get 0 (bytes0_of anon_text) j
   | Content off \<Rightarrow> array_get (content_size h) (str_content h) (off + j))"

text \<open>\<open>for (j = 0; j < prev_len; j++) *p++ = prev[j]\<close>, with \<open>n\<close> rounds to go\<close>

fun read_str_copy :: "nat \<Rightarrow> nat \<Rightarrow> str_ptr \<Rightarrow> ghw_handler \<Rightarrow> ghw_handler run" where
  "read_str_copy 0 j prev h = Done h"
| "read_str_copy (Suc n) j prev h =
     rbind (str_byte h prev j) (\<lambda>c.
     rbind (put_content c h) (\<lambda>h. read_str_copy n (Suc j) prev h))"

lemma put_content_stream: "put_content c h = Done h' \<Longrightarrow> stream h' = stream h"
  by (auto simp: put_content_def split: if_splits)

text \<open>The characters up to the byte that ends the string, which is returned.\<close>

function read_str_chars :: "ghw_handler \<Rightarrow> (byte option \<times> ghw_handler) run" where
  "read_str_chars h = rbind (h_fgetc h) (\<lambda>(c, h). case c of
     None \<Rightarrow> Done (None, h)
   | Some c \<Rightarrow>
       if c \<le> 31 \<or> 128 \<le> c \<and> c \<le> 159 then Done (Some c, h)
       else rbind (put_content c h) (\<lambda>h. read_str_chars h))"
  by pat_completeness auto
termination
  by (relation "measure rest_len")
    (auto dest!: h_fgetc_progress put_content_stream simp: rest_len_def rest_of_def)

text \<open>
  \<open>while (c >= 128)\<close>, from the values of \<open>c\<close>, \<open>prev_len\<close> and \<open>sh\<close>. \<open>prev_len\<close> is an \<open>int\<close>,
  kept as its 32 bits.
\<close>

function read_str_len ::
  "byte \<Rightarrow> u32 \<Rightarrow> nat \<Rightarrow> ghw_handler \<Rightarrow> (u32 option \<times> ghw_handler) run" where
  "read_str_len c prev_len sh h =
     (if c < 128 then Done (Some prev_len, h)
      else rbind (h_fgetc h) (\<lambda>(c, h). case c of
        None \<Rightarrow> Done (None, h)
      | Some c \<Rightarrow>
          if 32 \<le> sh then Crash Bad_shift
          else read_str_len c (prev_len OR push_bit sh (ucast (c AND 0x1f))) (sh + 5) h))"
  by pat_completeness auto
termination
  by (relation "measure (\<lambda>(c, prev_len, sh, h). rest_len h)") (auto dest: h_fgetc_progress)

declare read_str_chars.simps [simp del] read_str_len.simps [simp del]

text \<open>
  The rest of the string behind its prefix, its NUL, and the length of the prefix of the next
  string; \<open>None\<close> when the stream ends.
\<close>

definition read_str_end :: "ghw_handler \<Rightarrow> (u32 option \<times> ghw_handler) run" where
  "read_str_end h = rbind (read_str_chars h) (\<lambda>(c, h). case c of
     None \<Rightarrow> Done (None, h)
   | Some c \<Rightarrow>
       rbind (put_content 0 h) (\<lambda>h. read_str_len c (ucast (c AND 0x1f)) 5 h))"

text \<open>One round of the loop over the strings. \<open>prev\<close> is the last entry of the table so far.\<close>

definition read_str_one :: "u32 \<Rightarrow> ghw_handler \<Rightarrow> (u32 option \<times> ghw_handler) run" where
  "read_str_one prev_len h = rbind (init (str_table h)) (\<lambda>table.
     let prev = last table;
         h = h\<lparr>str_table := Some (table @ [Content (length (str_content h))])\<rparr> in
     rbind (read_str_copy (nat (sint prev_len)) 0 prev h) (\<lambda>h. read_str_end h))"

text \<open>The loop, with \<open>n\<close> strings to go.\<close>

fun read_str_loop :: "nat \<Rightarrow> u32 \<Rightarrow> ghw_handler \<Rightarrow> (int \<times> ghw_handler) run" where
  "read_str_loop 0 prev_len h = Done (0, h)"
| "read_str_loop (Suc n) prev_len h = rbind (read_str_one prev_len h) (\<lambda>(prev_len, h).
     case prev_len of
       None \<Rightarrow> Done (-1, h)
     | Some prev_len \<Rightarrow> read_str_loop n prev_len h)"

text \<open>What follows once the sizes are known and the table and the buffer are allocated.\<close>

definition read_str_table :: "ghw_handler \<Rightarrow> (int \<times> ghw_handler) run" where
  "read_str_table h =
     (if table_size h = 0 then Crash Out_of_bounds
      else let h = h\<lparr>str_table := Some [Anon_lit]\<rparr> in
        rbind (read_str_loop (unat (nbr_str h) - 1) 0 h) (\<lambda>(res, h).
        if res \<noteq> 0 then Done (res, h)
        else rbind (h_fread 4 h) (\<lambda>(hdr, h). case hdr of
          None \<Rightarrow> Done (-1, h)
        | Some hdr \<Rightarrow> Done (if hdr \<noteq> bytes0_of ''EOS'' then -1 else 0, h))))"

definition ghw_read_str :: "ghw_handler \<Rightarrow> (int \<times> ghw_handler) run" where
  "ghw_read_str h = rbind (h_fread 12 h) (\<lambda>(hdr, h). case hdr of
     None \<Rightarrow> Done (-1, h)
   | Some hdr \<Rightarrow>
       if take 4 hdr \<noteq> [0, 0, 0, 0] then Done (-1, h)
       else read_str_table (h\<lparr>nbr_str := ghw_get_i32 h (drop 4 hdr) + 1,
              str_size := ghw_get_i32 h (drop 8 hdr), str_table := Some [], str_content := []\<rparr>))"

text \<open>The C string that a pointer leads to.\<close>

definition str_at :: "ghw_handler \<Rightarrow> str_ptr \<Rightarrow> c_str" where
  "str_at h s = (case s of
     Anon_lit \<Rightarrow> Anon_str
   | Content off \<Rightarrow> C_str (takeWhile (\<lambda>b. b \<noteq> 0) (drop off (str_content h))))"

definition str_entry :: "ghw_handler \<Rightarrow> u32 \<Rightarrow> c_str run" where
  "str_entry h i = rbind (init (str_table h)) (\<lambda>table.
     rbind (array_get (table_size h) table (unat i)) (\<lambda>s. Done (str_at h s)))"

definition ghw_read_strid :: "ghw_handler \<Rightarrow> (c_str \<times> ghw_handler) run" where
  "ghw_read_strid h = rbind (ghw_read_uleb128 h) (\<lambda>(i, h). case i of
     None \<Rightarrow> Done (Null_str, h)
   | Some i \<Rightarrow> rbind (str_entry h i) (\<lambda>s. Done (s, h)))"

section \<open>The stream is not moved back\<close>

lemma read_str_copy_stream: "read_str_copy n j prev h = Done h' \<Longrightarrow> stream h' = stream h"
  by (induction n arbitrary: j h) (auto dest!: put_content_stream)

lemma put_content_rest_len: "put_content c h = Done h' \<Longrightarrow> rest_len h' = rest_len h"
  by (intro rest_len_stream put_content_stream)

lemma read_str_chars_rest_len: "read_str_chars h = Done (c, h') \<Longrightarrow> rest_len h' \<le> rest_len h"
proof (induction h rule: read_str_chars.induct)
  case (1 h)
  from "1.prems" obtain v h1 where h1: "h_fgetc h = Done (v, h1)"
    by (subst (asm) read_str_chars.simps) auto
  show ?case
  proof (cases "h1 = h'")
    case False
    with "1.prems" h1 obtain b h2 where "v = Some b" "\<not> (b \<le> 31 \<or> 128 \<le> b \<and> b \<le> 159)"
      "put_content b h1 = Done h2" "read_str_chars h2 = Done (c, h')"
      by (subst (asm) read_str_chars.simps) (auto split: option.splits if_splits)
    with "1.IH" [OF h1 refl, of b h2] put_content_rest_len [of b h1 h2] h_fgetc_rest_len [OF h1]
    show ?thesis by simp
  qed (use h_fgetc_rest_len [OF h1] in simp)
qed

lemma read_str_len_rest_len: "read_str_len c pl sh h = Done (r, h') \<Longrightarrow> rest_len h' \<le> rest_len h"
proof (induction c pl sh h rule: read_str_len.induct)
  case (1 c pl sh h)
  show ?case
  proof (cases "c < 128")
    case False
    with "1.prems" obtain v h1 where h1: "h_fgetc h = Done (v, h1)"
      by (subst (asm) read_str_len.simps) auto
    show ?thesis
    proof (cases "h1 = h'")
      case ne: False
      with "1.prems" h1 False obtain b where "v = Some b" "\<not> 32 \<le> sh"
        "read_str_len b (pl OR push_bit sh (ucast (b AND 0x1f))) (sh + 5) h1 = Done (r, h')"
        by (subst (asm) read_str_len.simps) (auto split: option.splits if_splits)
      with "1.IH" [OF False h1 refl] h_fgetc_rest_len [OF h1] show ?thesis by simp
    qed (use h_fgetc_rest_len [OF h1] in simp)
  qed (use "1.prems" in \<open>simp add: read_str_len.simps\<close>)
qed

lemma read_str_one_rest_len: "read_str_one pl h = Done (r, h') \<Longrightarrow> rest_len h' \<le> rest_len h"
proof -
  have *: "read_str_end h = Done (r, h') \<Longrightarrow> rest_len h' \<le> rest_len h" for h r h'
    by (auto simp: read_str_end_def split: option.splits
      dest!: read_str_chars_rest_len put_content_rest_len read_str_len_rest_len)
  show "read_str_one pl h = Done (r, h') \<Longrightarrow> rest_len h' \<le> rest_len h"
    by (auto simp: read_str_one_def Let_def dest!: read_str_copy_stream [THEN rest_len_stream] *)
qed

lemma read_str_loop_rest_len: "read_str_loop n pl h = Done (r, h') \<Longrightarrow> rest_len h' \<le> rest_len h"
  by (induction n arbitrary: pl h)
    (auto split: option.splits dest!: read_str_one_rest_len dest: order_trans, blast intro: order_trans)

interpretation str_sec: section_reader ghw_read_str
proof
  have *: "read_str_table h = Done (r, h') \<Longrightarrow> rest_len h' \<le> rest_len h" for h r h'
    by (auto simp: read_str_table_def Let_def
      split: if_splits option.splits dest!: read_str_loop_rest_len h_fread_rest_len)
  show "ghw_read_str h = Done (r, h') \<Longrightarrow> rest_len h' \<le> rest_len h" for h r h'
    by (auto simp: ghw_read_str_def split: if_splits option.splits dest!: h_fread_rest_len *)
qed

lemma put_content_stops [simp]: "stops (put_content c h)"
  by (simp add: put_content_def)

lemma str_byte_stops [simp]: "stops (str_byte h s j)"
  by (cases s) (simp_all add: str_byte_def)

lemma read_str_copy_stops [simp]: "stops (read_str_copy n j prev h)"
  by (induction n arbitrary: j h) (auto intro!: stops_rules)

lemma read_str_chars_stops [simp]: "stops (read_str_chars h)"
proof (induction h rule: read_str_chars.induct)
  case (1 h)
  show ?case by (subst read_str_chars.simps) (auto intro!: stops_rules "1.IH")
qed

lemma read_str_len_stops [simp]: "stops (read_str_len c pl sh h)"
proof (induction c pl sh h rule: read_str_len.induct)
  case (1 c pl sh h)
  show ?case by (subst read_str_len.simps) (auto intro!: stops_rules "1.IH")
qed

lemma read_str_loop_stops [simp]: "stops (read_str_loop n pl h)"
  by (induction n arbitrary: pl h)
    (auto simp: read_str_one_def read_str_end_def Let_def intro!: stops_rules)

lemma ghw_read_str_stops [simp]: "stops (ghw_read_str h)"
  by (auto simp: ghw_read_str_def read_str_table_def Let_def intro!: stops_rules)

lemma str_entry_stops [simp]: "stops (str_entry h i)"
  by (auto simp: str_entry_def intro!: stops_rules)

lemma ghw_read_strid_stops [simp]: "stops (ghw_read_strid h)"
  by (auto simp: ghw_read_strid_def intro!: stops_rules)

section \<open>The string section of the writer\<close>

text \<open>
  \<open>Write_Strings_Compress\<close>: the length of the prefix that a string shares with the one before, in
  groups of five bits, and then the rest of the string. Strings are lists of bytes without their NUL.
\<close>

fun shared_len :: "byte list \<Rightarrow> byte list \<Rightarrow> nat" where
  "shared_len (a # as) (b # bs) = (if a = b then Suc (shared_len as bs) else 0)"
| "shared_len _ _ = 0"

fun len_bytes :: "nat \<Rightarrow> byte list" where
  "len_bytes l =
     (if 32 \<le> l then word_of_nat (l mod 32 + 0x80) # len_bytes (l div 32) else [word_of_nat (l mod 32)])"

declare len_bytes.simps [simp del]

fun compress_tail :: "byte list \<Rightarrow> byte list list \<Rightarrow> byte list" where
  "compress_tail prev [] = [0]"
| "compress_tail prev (v # vs) =
     (let l = shared_len v prev in len_bytes l @ drop l v @ compress_tail v vs)"

definition write_strings_body :: "bool \<Rightarrow> byte list list \<Rightarrow> byte list" where
  "write_strings_body be strs =
     [0, 0, 0, 0] @ wave_put_i32 be (word_of_nat (length strs)) @
     wave_put_i32 be (word_of_nat (sum_list (map length strs))) @
     (case strs of [] \<Rightarrow> [0] | v # vs \<Rightarrow> v @ compress_tail v vs) @ bytes0_of ''EOS''"

definition write_strings_compress :: "bool \<Rightarrow> byte list list \<Rightarrow> byte list" where
  "write_strings_compress be strs = bytes0_of ''STR'' @ write_strings_body be strs"

section \<open>Reading back what was written\<close>

text \<open>
  A byte that ends a string in the file, the strings that can be written (of characters that are
  not control characters of Latin-1), and the buffer that holds a list of strings.
\<close>

definition ends_str :: "byte \<Rightarrow> bool" where
  "ends_str c \<longleftrightarrow> c \<le> 31 \<or> 128 \<le> c \<and> c \<le> 159"

definition legal_str :: "byte list \<Rightarrow> bool" where
  "legal_str s \<longleftrightarrow> (\<forall>c\<in>set s. \<not> ends_str c)"

definition str_block :: "byte list list \<Rightarrow> byte list" where
  "str_block strs = concat (map (\<lambda>s. s @ [0]) strs)"

definition str_ptrs :: "byte list list \<Rightarrow> str_ptr list" where
  "str_ptrs strs = map (\<lambda>i. Content (length (str_block (take i strs)))) [0..<length strs]"

lemma str_block_simps [simp]:
  "str_block [] = []" "str_block (s # ss) = s @ 0 # str_block ss"
  "str_block (ss @ ts) = str_block ss @ str_block ts"
  by (simp_all add: str_block_def)

lemma str_ptrs_snoc [simp]: "str_ptrs (ss @ [s]) = str_ptrs ss @ [Content (length (str_block ss))]"
  by (simp add: str_ptrs_def)

lemma length_str_block: "length (str_block ss) = sum_list (map length ss) + length ss"
  by (induction ss) simp_all

lemma sizes_update [simp]:
  "content_size (h\<lparr>str_content := x\<rparr>) = content_size h"
  "content_size (h\<lparr>str_table := t\<rparr>) = content_size h"
  "content_size (set_rest bs h) = content_size h"
  "table_size (set_rest bs h) = table_size h"
  by (simp_all add: content_size_def table_size_def rest_of_def set_rest_def)

lemma read_str_copy_prev:
  assumes "str_content h = pre @ s @ post" "j + n \<le> length s"
    "length (str_content h) + n \<le> content_size h"
  shows "read_str_copy n j (Content (length pre)) h =
    Done (h\<lparr>str_content := str_content h @ take n (drop j s)\<rparr>)"
  using assms
proof (induction n arbitrary: j h post)
  case (Suc n)
  then have "str_byte h (Content (length pre)) j = Done (s ! j)"
    by (simp add: str_byte_def nth_append)
  moreover have "take (Suc n) (drop j s) = s ! j # take n (drop (Suc j) s)"
    using Suc.prems(2) by (simp add: Cons_nth_drop_Suc [symmetric])
  ultimately show ?case
    using Suc.prems Suc.IH [of "h\<lparr>str_content := str_content h @ [s ! j]\<rparr>" "post @ [s ! j]" "Suc j"]
    by (simp add: put_content_def)
qed simp

lemma read_str_chars_Cons:
  "rest_of h = Some (c # bs) \<Longrightarrow> read_str_chars h =
    (if ends_str c then Done (Some c, set_rest bs h)
     else rbind (put_content c (set_rest bs h)) read_str_chars)"
  by (subst read_str_chars.simps) (simp add: run_simps ends_str_def)

lemma read_str_chars_put:
  assumes "rest_of h = Some (s @ c # bs)" "legal_str s" "ends_str c"
    "length (str_content h) + length s \<le> content_size h"
  shows "read_str_chars h = Done (Some c, set_rest bs (h\<lparr>str_content := str_content h @ s\<rparr>))"
  using assms
proof (induction s arbitrary: h)
  case (Cons a s)
  then have "read_str_chars h =
      read_str_chars (set_rest (s @ c # bs) (h\<lparr>str_content := str_content h @ [a]\<rparr>))"
    by (simp add: read_str_chars_Cons legal_str_def put_content_def)
  then show ?case
    using Cons.prems
      Cons.IH [of "set_rest (s @ c # bs) (h\<lparr>str_content := str_content h @ [a]\<rparr>)"]
    by (simp add: legal_str_def)
qed (simp add: read_str_chars_Cons)


section \<open>The lengths of the shared prefixes\<close>

lemma and_0x1f: "(b :: byte) AND 0x1f = take_bit 5 b"
  by (simp add: take_bit_eq_mask mask_eq_exp_minus_1)

lemma len_byte_low:
  "ucast ((word_of_nat (l mod 32) :: byte) AND 0x1f) = (word_of_nat (l mod 32) :: u32)"
  "ucast ((word_of_nat (l mod 32 + 128) :: byte) AND 0x1f) = (word_of_nat (l mod 32) :: u32)"
proof -
  have low: "ucast (take_bit 5 (word_of_nat m :: byte)) = (word_of_nat (take_bit 5 m) :: u32)" for m
    by (rule bit_word_eqI) (auto simp: bit_simps)
  have "take_bit 5 (l mod 32 + 128) = l mod 32" "take_bit 5 (l mod 32) = l mod 32"
    using mod_mult_self2 [of l 32 4] by (simp_all add: take_bit_eq_mod mod_simps)
  then show "ucast ((word_of_nat (l mod 32) :: byte) AND 0x1f) = (word_of_nat (l mod 32) :: u32)"
    "ucast ((word_of_nat (l mod 32 + 128) :: byte) AND 0x1f) = (word_of_nat (l mod 32) :: u32)"
    by (simp_all only: and_0x1f low)
qed

text \<open>A group of \<open>k\<close> bits is put into place, and the bits above follow.\<close>

lemma group_step:
  fixes v :: int
  shows "push_bit off (word_of_int (take_bit k v)) OR push_bit (off + k) (word_of_int (drop_bit k v)) =
     (push_bit off (word_of_int v) :: 'w::len word)"
proof (rule bit_word_eqI)
  fix n assume n: "n < LENGTH('w)"
  have "off + k \<le> n \<Longrightarrow> k + (n - (off + k)) = n - off" by linarith
  then show "bit (push_bit off (word_of_int (take_bit k v)) OR push_bit (off + k) (word_of_int (drop_bit k v))
     :: 'w word) n = bit (push_bit off (word_of_int v) :: 'w word) n"
    using n by (cases "off + k \<le> n"; cases "off \<le> n")
     (auto simp: bit_push_bit_iff bit_or_iff bit_word_of_int_iff bit_take_bit_iff bit_drop_bit_eq)
qed

lemma len_step:
  "push_bit sh (word_of_nat (l mod 32)) OR push_bit (sh + 5) (word_of_nat (l div 32)) =
     (push_bit sh (word_of_nat l) :: u32)"
proof -
  have l: "l mod 32 = take_bit 5 l" "l div 32 = drop_bit 5 l"
    by (simp_all add: take_bit_eq_mod drop_bit_eq_div)
  have "word_of_int (take_bit 5 (int l)) = (word_of_nat (take_bit 5 l) :: u32)"
    by (metis of_int_of_nat_eq take_bit_of_nat)
  moreover have "word_of_int (drop_bit 5 (int l)) = (word_of_nat (drop_bit 5 l) :: u32)"
    by (metis of_int_of_nat_eq drop_bit_of_nat)
  ultimately show ?thesis
    using group_step [of sh 5 "int l", where 'w = 32] by (simp only: l of_int_of_nat_eq)
qed

lemma len_bytes_small: "l < 32 \<Longrightarrow> len_bytes l = [word_of_nat l]"
  by (subst len_bytes.simps) simp

lemma len_bytes_big: "32 \<le> l \<Longrightarrow>
   len_bytes l = word_of_nat (l mod 32 + 128) # len_bytes (l div 32)"
  by (subst len_bytes.simps) simp

lemma len_bytes_Cons: "\<exists>c cs. len_bytes l = c # cs \<and> ends_str c"
proof (cases "l < 32")
  case True
  then have "word_of_nat l \<le> (31 :: byte)"
    by (simp add: word_le_nat_alt unat_of_nat)
  then show ?thesis using True by (simp add: len_bytes_small ends_str_def)
next
  case False
  have "l mod 32 < 32" by simp
  then have "128 \<le> (word_of_nat (l mod 32 + 128) :: byte) \<and> word_of_nat (l mod 32 + 128) \<le> (159 :: byte)"
    unfolding word_le_nat_alt unat_of_nat by simp
  then show ?thesis using False by (simp add: len_bytes_big ends_str_def)
qed

lemma read_str_len_Cons:
  "\<not> c < 128 \<Longrightarrow> rest_of h = Some (c' # bs) \<Longrightarrow> sh < 32 \<Longrightarrow> read_str_len c pl sh h =
     read_str_len c' (pl OR push_bit sh (ucast (c' AND 0x1f))) (sh + 5) (set_rest bs h)"
  by (subst read_str_len.simps) (simp add: run_simps)

lemma read_str_len_put:
  assumes "len_bytes l = c # cs" "rest_of h = Some (cs @ bs)" "sh < 32" "l < 2 ^ (32 - sh)"
  shows "read_str_len c (pl OR push_bit sh (ucast (c AND 0x1f))) (sh + 5) h =
    Done (Some (pl OR push_bit sh (word_of_nat l)), set_rest bs h)"
  using assms
proof (induction l arbitrary: c cs pl sh h rule: len_bytes.induct)
  case (1 l)
  show ?case
  proof (cases "l < 32")
    case True
    then have "l mod 32 = l" and "(word_of_nat l :: byte) < 128"
      by (simp_all add: word_less_nat_alt unat_of_nat)
    then show ?thesis
      using "1.prems" len_byte_low(1) [of l] True
      by (subst read_str_len.simps) (auto simp: len_bytes_small set_rest_same)
  next
    case False
    obtain c' cs' where cs': "len_bytes (l div 32) = c' # cs'" using len_bytes_Cons by blast
    with False "1.prems" have c: "c = word_of_nat (l mod 32 + 128)" "cs = c' # cs'"
      by (simp_all add: len_bytes_big)
    have "l mod 32 < 32" by simp
    then have "\<not> c < 128" unfolding c word_less_nat_alt unat_of_nat by simp
    have "(2::nat) ^ 5 < 2 ^ (32 - sh)" using False "1.prems"(4) by simp
    then have "5 < 32 - sh" by (simp only: power_strict_increasing_iff)
    then have sh: "sh + 5 < 32" and "32 - sh = 32 - (sh + 5) + 5" by simp_all
    from this(2) have "(2::nat) ^ (32 - sh) = 2 ^ (32 - (sh + 5)) * 2 ^ 5"
      by (simp only: power_add)
    with "1.prems"(4) have "l div 32 < 2 ^ (32 - (sh + 5))"
      by (simp add: less_mult_imp_div_less)
    with "1.IH" [OF _ cs' _ sh, of "set_rest (cs' @ bs) h"] False "1.prems"(2) c(2)
    show ?thesis
      using read_str_len_Cons [OF \<open>\<not> c < 128\<close>, of h c' "cs' @ bs" "sh + 5"] sh
        len_byte_low(2) [of l] len_step [of sh l] c(1)
      by (simp add: or.assoc)
  qed
qed

section \<open>The whole table\<close>

text \<open>
  What comes behind a string \<open>s\<close> in the file, when \<open>vs\<close> are to follow: the length of the prefix
  that the next one shares with it, and the rest of the next one.
\<close>

definition next_len :: "byte list \<Rightarrow> byte list list \<Rightarrow> nat" where
  "next_len s vs = (case vs of [] \<Rightarrow> 0 | v # _ \<Rightarrow> shared_len v s)"

definition next_str :: "byte list \<Rightarrow> byte list list \<Rightarrow> byte list" where
  "next_str s vs = (case vs of [] \<Rightarrow> [] | v # vs' \<Rightarrow> drop (shared_len v s) v @ compress_tail v vs')"

lemma compress_tail_eq: "compress_tail s vs = len_bytes (next_len s vs) @ next_str s vs"
  by (cases vs) (simp_all add: next_len_def next_str_def Let_def len_bytes_small)

lemma shared_len_le: "shared_len v w \<le> length v" "shared_len v w \<le> length w"
  by (induction v w rule: shared_len.induct) auto

lemma take_shared_len: "take (shared_len v w) w = take (shared_len v w) v"
  by (induction v w rule: shared_len.induct) auto

lemma read_str_end_put:
  assumes "rest_of h = Some (s @ compress_tail v vs @ bs)" "legal_str s"
    "length (str_content h) + length s < content_size h" "length v < 2 ^ 31"
  shows "read_str_end h = Done (Some (word_of_nat (next_len v vs)),
    set_rest (next_str v vs @ bs) (h\<lparr>str_content := str_content h @ s @ [0]\<rparr>))"
proof -
  obtain c cs where c: "len_bytes (next_len v vs) = c # cs" "ends_str c"
    using len_bytes_Cons by blast
  let ?h = "set_rest (cs @ next_str v vs @ bs) (h\<lparr>str_content := str_content h @ s\<rparr>)"
  have "read_str_chars h = Done (Some c, ?h)"
    using assms c by (intro read_str_chars_put) (simp_all add: compress_tail_eq)
  moreover have "next_len v vs < 2 ^ (32 - 0)"
    using assms(4) shared_len_le(2) [of "hd vs" v]
    by (cases vs) (auto simp: next_len_def)
  note read_str_len_put [OF c(1) _ _ this, of "?h\<lparr>str_content := str_content h @ s @ [0]\<rparr>" "next_str v vs @ bs" 0]
  ultimately show ?thesis
    using assms(1,3) by (simp add: read_str_end_def put_content_def)
qed

lemma word_of_nat_sint32: "l < 2 ^ 31 \<Longrightarrow> nat (sint (word_of_nat l :: u32)) = l"
  by (simp add: signed_of_nat signed_take_bit_int_eq_self)

lemma str_block_last:
  "done \<noteq> [] \<Longrightarrow> str_block done = str_block (butlast done) @ last done @ [0]"
  by (metis append_butlast_last_id str_block_simps(1,2,3))

lemma str_ptrs_last: "done \<noteq> [] \<Longrightarrow>
   last (Anon_lit # str_ptrs done) = Content (length (str_block (butlast done)))"
  by (metis append_butlast_last_id last_ConsR last_snoc snoc_eq_iff_butlast str_ptrs_snoc)

lemma read_str_prefix:
  assumes "str_content h = str_block done" "l = (if done = [] then 0 else shared_len v (last done))"
    "length (str_content h) + length v < content_size h"
  shows "read_str_copy l 0 (last (Anon_lit # str_ptrs done)) h =
    Done (h\<lparr>str_content := str_content h @ take l v\<rparr>)"
proof (cases "done = []")
  case True
  then show ?thesis using assms by simp
next
  case False
  then have "str_content h = str_block (butlast done) @ (last done @ [0]) @ []"
    using assms(1) str_block_last by simp
  moreover have "0 + l \<le> length (last done @ [0])" "length (str_content h) + l \<le> content_size h"
    using False assms(2,3) shared_len_le [of v "last done"] by simp_all
  ultimately show ?thesis
    using read_str_copy_prev [of h "str_block (butlast done)" "last done @ [0]" "[]" 0 l]
      take_shared_len [of v "last done"] shared_len_le [of v "last done"] False assms(2)
    by (simp add: str_ptrs_last del: last.simps)
qed

lemma read_str_one_put:
  assumes "str_table h = Some (Anon_lit # str_ptrs done)" "str_content h = str_block done"
    "l = (if done = [] then 0 else shared_len v (last done))"
    "rest_of h = Some (drop l v @ compress_tail v vs @ bs)" "legal_str v"
    "length (str_block done) + length v < content_size h" "length v < 2 ^ 31"
  shows "read_str_one (word_of_nat l) h = Done (Some (word_of_nat (next_len v vs)),
    set_rest (next_str v vs @ bs) (h\<lparr>str_table := Some (Anon_lit # str_ptrs (done @ [v])),
      str_content := str_block (done @ [v])\<rparr>))"
proof -
  let ?h = "h\<lparr>str_table := Some (Anon_lit # str_ptrs (done @ [v]))\<rparr>"
  let ?h1 = "?h\<lparr>str_content := str_block done @ take l v\<rparr>"
  have "l \<le> length v" using assms(3) shared_len_le by auto
  then have "nat (sint (word_of_nat l :: u32)) = l"
    using assms(7) by (intro word_of_nat_sint32) simp
  moreover have "read_str_copy l 0 (last (Anon_lit # str_ptrs done)) ?h = Done ?h1"
    using read_str_prefix [of ?h "done" l v] assms(2,3,6) by simp
  moreover have "legal_str (drop l v)"
    using assms(5) by (auto simp: legal_str_def dest: in_set_dropD)
  then have "read_str_end ?h1 = Done (Some (word_of_nat (next_len v vs)),
    set_rest (next_str v vs @ bs) (?h1\<lparr>str_content := str_content ?h1 @ drop l v @ [0]\<rparr>))"
    using assms(4,6,7) \<open>l \<le> length v\<close> by (intro read_str_end_put) simp_all
  moreover have "take l v @ drop l v @ [0] = v @ [0]" by simp
  ultimately show ?thesis
    using assms(1,2) by (simp add: read_str_one_def Let_def)
qed

lemma read_str_loop_put:
  assumes "str_table h = Some (Anon_lit # str_ptrs done)" "str_content h = str_block done"
    "l = (if done = [] then 0 else shared_len v (last done))"
    "rest_of h = Some (drop l v @ compress_tail v vs @ bs)" "\<forall>s\<in>set (v # vs). legal_str s"
    "length (str_block (done @ v # vs)) \<le> content_size h" "\<forall>s\<in>set (v # vs). length s < 2 ^ 31"
  shows "read_str_loop (Suc (length vs)) (word_of_nat l) h =
    Done (0, set_rest bs (h\<lparr>str_table := Some (Anon_lit # str_ptrs (done @ v # vs)),
      str_content := str_block (done @ v # vs)\<rparr>))"
  using assms
proof (induction vs arbitrary: v "done" l h)
  case Nil
  then show ?case
    using read_str_one_put [OF Nil(1-4)]
    by (simp add: next_str_def)
next
  case (Cons v' vs)
  let ?h = "set_rest (next_str v (v' # vs) @ bs) (h\<lparr>str_table := Some (Anon_lit # str_ptrs (done @ [v])),
      str_content := str_block (done @ [v])\<rparr>)"
  have "read_str_one (word_of_nat l) h = Done (Some (word_of_nat (next_len v (v' # vs))), ?h)"
    using Cons.prems by (intro read_str_one_put [OF Cons.prems(1-4)]) simp_all
  moreover have "read_str_loop (Suc (length vs)) (word_of_nat (shared_len v' v)) ?h =
    Done (0, set_rest bs (?h\<lparr>str_table := Some (Anon_lit # str_ptrs ((done @ [v]) @ v' # vs)),
      str_content := str_block ((done @ [v]) @ v' # vs)\<rparr>))"
    using Cons.prems by (intro Cons.IH) (auto simp: next_str_def)
  ultimately show ?case
    by (simp add: next_len_def)
qed

text \<open>
  The handler after the string section of the writer has been read: the buffer holds the strings
  one after the other, and the table points at them in their order.
\<close>

definition with_strings :: "byte list list \<Rightarrow> ghw_handler \<Rightarrow> ghw_handler" where
  "with_strings strs h = h\<lparr>nbr_str := word_of_nat (length strs) + 1,
     str_size := word_of_nat (sum_list (map length strs)),
     str_table := Some (Anon_lit # str_ptrs strs), str_content := str_block strs\<rparr>"

definition strings_fit :: "byte list list \<Rightarrow> bool" where
  "strings_fit strs \<longleftrightarrow> sum_list (map length strs) + length strs + 2 < 2 ^ 31"

lemma strings_fit_sizes:
  assumes "strings_fit strs"
  shows "content_size (with_strings strs h) = sum_list (map length strs) + length strs + 2"
    and "table_size (with_strings strs h) = length strs + 2"
    and "unat (nbr_str (with_strings strs h)) = Suc (length strs)"
proof -
  have small: "n < 2 ^ 31 \<Longrightarrow> unat (word_of_nat n :: u32) = n" for n
    by (simp add: unat_of_nat)
  have eqs: "content_size (with_strings strs h) =
      unat (word_of_nat (sum_list (map length strs) + length strs + 2) :: u32)"
    "table_size (with_strings strs h) = unat (word_of_nat (length strs + 2) :: u32)"
    "unat (nbr_str (with_strings strs h)) = unat (word_of_nat (Suc (length strs)) :: u32)"
    by (simp_all add: content_size_def table_size_def with_strings_def ac_simps)
  show "content_size (with_strings strs h) = sum_list (map length strs) + length strs + 2"
    using assms unfolding eqs strings_fit_def by (intro small) linarith
  show "table_size (with_strings strs h) = length strs + 2"
    using assms unfolding eqs strings_fit_def by (intro small) linarith
  show "unat (nbr_str (with_strings strs h)) = Suc (length strs)"
    using assms unfolding eqs strings_fit_def by (intro small) linarith
qed

lemma rest_of_with_strings [simp]: "rest_of (with_strings strs h) = rest_of h"
  by (simp add: with_strings_def rest_of_def)

lemma ghw_get_i32_set_rest [simp]: "ghw_get_i32 (set_rest bs h) b = ghw_get_i32 h b"
  by (simp add: ghw_get_i32_def)

lemma ghw_get_i32_append [simp]: "length xs = 4 \<Longrightarrow> ghw_get_i32 h (xs @ ys) = ghw_get_i32 h xs"
  by (simp add: ghw_get_i32_def nth_append)

lemma length_le_sum: "s \<in> set strs \<Longrightarrow> length s \<le> sum_list (map length strs)"
  by (induction strs) auto

lemma read_str_table_put:
  assumes "rest_of h = Some (v @ compress_tail v vs @ bytes0_of ''EOS'' @ bs)"
    "str_content h = []" "table_size h \<noteq> 0" "unat (nbr_str h) = Suc (Suc (length vs))"
    "\<forall>s\<in>set (v # vs). legal_str s \<and> length s < 2 ^ 31"
    "length (str_block (v # vs)) \<le> content_size h"
  shows "read_str_table h = Done (0, set_rest bs (h\<lparr>str_table := Some (Anon_lit # str_ptrs (v # vs)),
    str_content := str_block (v # vs)\<rparr>))"
proof -
  let ?h = "h\<lparr>str_table := Some [Anon_lit]\<rparr>"
  let ?h' = "h\<lparr>str_table := Some (Anon_lit # str_ptrs (v # vs)), str_content := str_block (v # vs)\<rparr>"
  have "read_str_loop (Suc (length vs)) (word_of_nat 0) ?h =
    Done (0, set_rest (bytes0_of ''EOS'' @ bs) (?h\<lparr>str_table := Some (Anon_lit # str_ptrs ([] @ v # vs)),
      str_content := str_block ([] @ v # vs)\<rparr>))"
    using assms by (intro read_str_loop_put) (auto simp: str_ptrs_def)
  moreover have "h_fread 4 (set_rest (bytes0_of ''EOS'' @ bs) ?h') =
      Done (Some (bytes0_of ''EOS''), set_rest bs ?h')"
    using assms(1) by (subst h_fread_append) auto
  ultimately show ?thesis
    using assms(3,4) by (simp add: read_str_table_def del: read_str_loop.simps)
qed

lemma read_str_written:
  assumes "rest_of h = Some (write_strings_body (word_be h) strs @ bs)" "strs \<noteq> []"
    "\<forall>s\<in>set strs. legal_str s" "strings_fit strs"
  shows "ghw_read_str h = Done (0, set_rest bs (with_strings strs h))"
proof -
  obtain v vs where strs: "strs = v # vs" using assms(2) by (cases strs) auto
  let ?n = "wave_put_i32 (word_be h) (word_of_nat (length strs))"
  let ?m = "wave_put_i32 (word_be h) (word_of_nat (sum_list (map length strs)))"
  let ?hdr = "[0, 0, 0, 0] @ ?n @ ?m"
  let ?body = "v @ compress_tail v vs @ bytes0_of ''EOS'' @ bs"
  let ?h = "(with_strings strs h)\<lparr>str_table := Some [], str_content := []\<rparr>"
  have "h_fread 12 h = Done (Some ?hdr, set_rest ?body h)"
    using assms(1) by (intro h_fread_append) (simp_all add: write_strings_body_def strs)
  moreover have "drop 4 ?hdr = ?n @ ?m" "drop 8 ?hdr = ?m" "take 4 ?hdr = [0, 0, 0, 0]"
    by simp_all
  moreover have "h\<lparr>nbr_str := ghw_get_i32 h ?n + 1, str_size := ghw_get_i32 h ?m,
      str_table := Some [], str_content := []\<rparr> = ?h"
    by (simp add: with_strings_def)
  ultimately have "ghw_read_str h = read_str_table (set_rest ?body ?h)"
    by (simp add: ghw_read_str_def)
  also have "\<dots> = Done (0, set_rest bs ((set_rest ?body ?h)\<lparr>str_table := Some (Anon_lit # str_ptrs (v # vs)),
    str_content := str_block (v # vs)\<rparr>))"
  proof (rule read_str_table_put)
    show "\<forall>s\<in>set (v # vs). legal_str s \<and> length s < 2 ^ 31"
      using assms(3,4) length_le_sum [of _ strs] by (fastforce simp: strs strings_fit_def)
    show "unat (nbr_str (set_rest ?body ?h)) = Suc (Suc (length vs))"
      using strings_fit_sizes(3) [OF assms(4), of h] by (simp add: strs)
    show "length (str_block (v # vs)) \<le> content_size (set_rest ?body ?h)"
      using strings_fit_sizes(1) [OF assms(4), of h] by (simp add: length_str_block strs)
    show "table_size (set_rest ?body ?h) \<noteq> 0"
      using strings_fit_sizes(2) [OF assms(4), of h] by (simp add: table_size_def)
  qed (use assms(1) in auto)
  also have "(set_rest ?body ?h)\<lparr>str_table := Some (Anon_lit # str_ptrs (v # vs)),
    str_content := str_block (v # vs)\<rparr> = set_rest ?body (with_strings strs h)"
    by (simp add: with_strings_def strs)
  finally show ?thesis by simp
qed

text \<open>The entries of the table: the string 0 is anonymous, the string \<open>i + 1\<close> is the one written.\<close>

lemma str_ptrs_nth: "i < length strs \<Longrightarrow>
   str_ptrs strs ! i = Content (length (str_block (take i strs)))"
  by (simp add: str_ptrs_def)

lemma str_at_block:
  assumes "i < length strs" "\<forall>s\<in>set strs. legal_str s"
  shows "takeWhile (\<lambda>b. b \<noteq> 0) (drop (length (str_block (take i strs))) (str_block strs)) = strs ! i"
proof -
  have "str_block strs = str_block (take i strs) @ strs ! i @ 0 # str_block (drop (Suc i) strs)"
    using assms(1) by (metis id_take_nth_drop str_block_simps(2,3))
  moreover have "legal_str (strs ! i)" using assms by simp
  then have "\<forall>b\<in>set (strs ! i). b \<noteq> 0"
    by (force simp: legal_str_def ends_str_def)
  ultimately show ?thesis by (simp add: takeWhile_append2)
qed

lemma str_entry_written:
  assumes "strings_fit strs" "\<forall>s\<in>set strs. legal_str s"
  shows "str_entry (with_strings strs h) 0 = Done Anon_str"
    and "i < length strs \<Longrightarrow> str_entry (with_strings strs h) (word_of_nat (Suc i)) = Done (C_str (strs ! i))"
proof -
  show "str_entry (with_strings strs h) 0 = Done Anon_str"
    by (simp add: str_entry_def with_strings_def str_at_def)
  assume i: "i < length strs"
  then have "unat (word_of_nat (Suc i) :: u32) = Suc i"
    using assms(1) by (subst unat_of_nat) (simp add: strings_fit_def)
  then show "str_entry (with_strings strs h) (word_of_nat (Suc i)) = Done (C_str (strs ! i))"
    using i str_at_block [OF i assms(2)]
    by (simp add: str_entry_def with_strings_def str_at_def str_ptrs_nth str_ptrs_def
        del: of_nat_Suc)
qed

section \<open>Strings that do not fit\<close>

lemma read_str_chars_overflow:
  assumes "rest_of h = Some (s @ bs)" "legal_str s"
    "content_size h < length (str_content h) + length s" "length (str_content h) \<le> content_size h"
  shows "read_str_chars h = Crash Out_of_bounds"
  using assms
proof (induction s arbitrary: h)
  case (Cons a s)
  show ?case
  proof (cases "length (str_content h) < content_size h")
    case True
    then show ?thesis
      using Cons.prems Cons.IH [of "set_rest (s @ bs) (h\<lparr>str_content := str_content h @ [a]\<rparr>)"]
      by (simp add: read_str_chars_Cons legal_str_def put_content_def)
  qed (use Cons.prems in \<open>simp add: read_str_chars_Cons legal_str_def put_content_def\<close>)
qed simp

lemma unat_word32: "n < 2 ^ 32 \<Longrightarrow> unat (word_of_nat n :: u32) = n"
  by (simp add: unat_of_nat)

lemma read_str_overflow:
  assumes "rest_of h = Some ([0, 0, 0, 0] @ wave_put_i32 (word_be h) (word_of_nat (Suc n)) @
      wave_put_i32 (word_be h) sz @ v @ bs)"
    "legal_str v" "unat (sz + word_of_nat (n + 3)) < length v" "n + 3 < 2 ^ 32"
  shows "ghw_read_str h = Crash Out_of_bounds"
proof -
  let ?n = "wave_put_i32 (word_be h) (word_of_nat (Suc n))"
  let ?m = "wave_put_i32 (word_be h) sz"
  let ?hdr = "[0, 0, 0, 0] @ ?n @ ?m"
  let ?h = "h\<lparr>nbr_str := word_of_nat (n + 2), str_size := sz, str_table := Some [], str_content := []\<rparr>"
  have "unat (word_of_nat (n + 3) :: u32) = n + 3" "unat (word_of_nat (n + 2) :: u32) = n + 2"
    using assms(4) unat_word32 [of "n + 3"] unat_word32 [of "n + 2"] by simp_all
  then have sizes: "table_size ?h = n + 3" "content_size ?h = unat (sz + word_of_nat (n + 3))"
    "unat (nbr_str ?h) - 1 = Suc n"
    by (simp_all add: table_size_def content_size_def ac_simps)
  have "h_fread 12 h = Done (Some ?hdr, set_rest (v @ bs) h)"
    using assms(1) by (intro h_fread_append) simp_all
  moreover have "drop 4 ?hdr = ?n @ ?m" "drop 8 ?hdr = ?m" "take 4 ?hdr = [0, 0, 0, 0]"
    by simp_all
  moreover have "h\<lparr>nbr_str := ghw_get_i32 h ?n + 1, str_size := ghw_get_i32 h ?m,
      str_table := Some [], str_content := []\<rparr> = ?h"
    by (simp add: ac_simps)
  ultimately have "ghw_read_str h = read_str_table (set_rest (v @ bs) ?h)"
    by (simp add: ghw_read_str_def)
  also have "\<dots> = Crash Out_of_bounds"
  proof -
    let ?k = "set_rest (v @ bs) (?h\<lparr>str_table := Some [Anon_lit, Content 0]\<rparr>)"
    have "read_str_chars ?k = Crash Out_of_bounds"
      using assms(1-3) sizes(2) by (intro read_str_chars_overflow) auto
    then have "read_str_one 0 (set_rest (v @ bs) (?h\<lparr>str_table := Some [Anon_lit]\<rparr>)) = Crash Out_of_bounds"
      by (simp add: read_str_one_def read_str_end_def Let_def)
    then have "read_str_loop (Suc n) 0 (set_rest (v @ bs) (?h\<lparr>str_table := Some [Anon_lit]\<rparr>)) = Crash Out_of_bounds"
      by simp
    then show ?thesis
      using sizes by (simp add: read_str_table_def Let_def del: read_str_loop.simps)
  qed
  finally show ?thesis .
qed

section \<open>Properties\<close>

text \<open>
  C24: Reading the string section that the writer made of a non-empty sorted table succeeds, and
  gives back the table: the string 0 is anonymous, the string \<open>i + 1\<close> is the \<open>i\<close>-th string
  that was written, with the prefix that the file does not repeat, and the stream is left right
  behind the section. The strings must be free of the control characters that end a string.
\<close>

theorem string_table_roundtrip:
  assumes "strs \<noteq> []" "\<forall>s\<in>set strs. legal_str s" "strings_fit strs"
  shows "\<exists>h'. ghw_read_str (h\<lparr>stream := Some (f\<lparr>st_rest := write_strings_body (word_be h) strs @ bs\<rparr>)\<rparr>) = Done (0, h')
    \<and> stream h' = Some (f\<lparr>st_rest := bs\<rparr>) \<and> unat (nbr_str h') = Suc (length strs)
    \<and> str_entry h' 0 = Done Anon_str
    \<and> (\<forall>i<length strs. str_entry h' (word_of_nat (Suc i)) = Done (C_str (strs ! i)))"
proof -
  let ?h = "h\<lparr>stream := Some (f\<lparr>st_rest := bs\<rparr>)\<rparr>"
  have "ghw_read_str (h\<lparr>stream := Some (f\<lparr>st_rest := write_strings_body (word_be h) strs @ bs\<rparr>)\<rparr>) =
      Done (0, with_strings strs ?h)"
    using assms by (subst read_str_written) (auto simp: with_strings_def set_rest_def)
  moreover have "stream (with_strings strs ?h) = Some (f\<lparr>st_rest := bs\<rparr>)"
    by (simp add: with_strings_def)
  ultimately show ?thesis
    using str_entry_written(1) [OF assms(3,2), of ?h] str_entry_written(2) [OF assms(3,2), where h = ?h] strings_fit_sizes(3) [OF assms(3), of ?h]
    by blast
qed

theorem string_table_roundtrip_witness:
  "\<forall>h. \<exists>h'. ghw_read_str (h\<lparr>stream := Some ((file_of [])\<lparr>st_rest :=
      write_strings_body (word_be h) [bytes_of ''clk'', bytes_of ''clk_en''] @ [1, 2]\<rparr>)\<rparr>) = Done (0, h')
    \<and> stream h' = Some ((file_of [])\<lparr>st_rest := [1, 2]\<rparr>)
    \<and> str_entry h' 2 = Done (C_str (bytes_of ''clk_en''))"
proof
  fix h :: ghw_handler
  let ?strs = "[bytes_of ''clk'', bytes_of ''clk_en'']"
  have "?strs \<noteq> []" "\<forall>s\<in>set ?strs. legal_str s" "strings_fit ?strs"
    by (simp_all add: strings_fit_def legal_str_def ends_str_def bytes_of_def of_char_def)
  from string_table_roundtrip [OF this, where h = h and f = "file_of []" and bs = "[1, 2]"] obtain h' where
    h': "ghw_read_str (h\<lparr>stream := Some ((file_of [])\<lparr>st_rest :=
        write_strings_body (word_be h) ?strs @ [1, 2]\<rparr>)\<rparr>) = Done (0, h')"
      "stream h' = Some ((file_of [])\<lparr>st_rest := [1, 2]\<rparr>)"
      "\<forall>i<length ?strs. str_entry h' (word_of_nat (Suc i)) = Done (C_str (?strs ! i))"
    by blast
  from h'(3) [rule_format, of 1] have "str_entry h' 2 = Done (C_str (bytes_of ''clk_en''))" by simp
  with h'(1,2) show "\<exists>h'. ghw_read_str (h\<lparr>stream := Some ((file_of [])\<lparr>st_rest :=
        write_strings_body (word_be h) ?strs @ [1, 2]\<rparr>)\<rparr>) = Done (0, h')
      \<and> stream h' = Some ((file_of [])\<lparr>st_rest := [1, 2]\<rparr>)
      \<and> str_entry h' 2 = Done (C_str (bytes_of ''clk_en''))" by blast
qed

text \<open>
  Nothing checks the strings against the size that the section announces: when the first
  string is longer than the buffer that was allocated for all of them, \<open>ghw_read_str\<close> writes
  behind the buffer.
\<close>

lemma string_buffer_overflow:
  assumes "legal_str v" "unat (sz + word_of_nat (n + 3)) < length v" "n + 3 < 2 ^ 32"
  shows "ghw_read_str (h\<lparr>stream := Some (f\<lparr>st_rest := [0, 0, 0, 0] @
    wave_put_i32 (word_be h) (word_of_nat (Suc n)) @ wave_put_i32 (word_be h) sz @ v @ bs\<rparr>)\<rparr>) =
    Crash Out_of_bounds"
  using assms by (intro read_str_overflow [where sz = sz and n = n and v = v and bs = bs]) auto

lemma string_buffer_overflow_witness:
  "\<forall>h. ghw_read_str (h\<lparr>stream := Some ((file_of [])\<lparr>st_rest := [0, 0, 0, 0] @
     wave_put_i32 (word_be h) (word_of_nat (Suc 0)) @ wave_put_i32 (word_be h) 0 @
     bytes_of ''a_long_name'' @ [0]\<rparr>)\<rparr>) = Crash Out_of_bounds"
  by (intro allI string_buffer_overflow)
    (simp_all add: legal_str_def ends_str_def bytes_of_def of_char_def)

text \<open>
  The section that the writer makes of a table without strings is not accepted: the writer
  puts the length of the prefix of a next string there, which the reader takes for the first
  byte of the end marker.
\<close>

lemma empty_table_rejected:
  "\<exists>h'. ghw_read_str (h\<lparr>stream := Some (f\<lparr>st_rest := write_strings_body (word_be h) [] @ bs\<rparr>)\<rparr>) =
    Done (-1, h')"
proof -
  let ?h = "h\<lparr>stream := Some (f\<lparr>st_rest := write_strings_body (word_be h) [] @ bs\<rparr>)\<rparr>"
  let ?n = "wave_put_i32 (word_be h) 0"
  have "write_strings_body (word_be h) [] @ bs =
      ([0, 0, 0, 0] @ ?n @ ?n) @ [0] @ bytes0_of ''EOS'' @ bs"
    by (simp add: write_strings_body_def)
  then have "h_fread 12 ?h = Done (Some ([0, 0, 0, 0] @ ?n @ ?n),
      set_rest ([0] @ bytes0_of ''EOS'' @ bs) ?h)"
    by (intro h_fread_append) simp_all
  moreover have "drop 4 ([0, 0, 0, 0] @ ?n @ ?n) = ?n @ ?n" "drop 8 ([0, 0, 0, 0] @ ?n @ ?n) = ?n"
    by simp_all
  ultimately have *: "ghw_read_str ?h = read_str_table (h\<lparr>
      stream := Some (f\<lparr>st_rest := [0] @ bytes0_of ''EOS'' @ bs\<rparr>),
      nbr_str := 1, str_size := 0, str_table := Some [], str_content := []\<rparr>)"
    by (simp add: ghw_read_str_def ghw_get_i32_def [of "h\<lparr>stream := x\<rparr>" for x]
        flip: ghw_get_i32_def [of h])
  show ?thesis
    unfolding * by (simp add: read_str_table_def table_size_def Let_def
      h_fread_append [where xs = "[0, 69, 79, 83]" and bs = "0 # bs"] bytes0_of_def bytes_of_def of_char_def)
qed

end
