(* ===== verification/Ghw_Types.thy ===== *)
theory Ghw_Types
  imports Ghw_Strings
begin

text \<open>
  The type section: \<open>ghw_read_typeid\<close>, ranges, base types and numbers of elements, the subtypes of
  arrays and records, \<open>ghw_read_type\<close> and the well-known types of \<open>ghw_read_wk_types\<close>.
\<close>

section \<open>References to types\<close>

definition type_entry :: "ghw_handler \<Rightarrow> u32 \<Rightarrow> ghw_type run" where
  "type_entry h i = rbind (init (types h)) (\<lambda>tab. array_get (unat (nbr_types h)) tab (unat i))"

definition ghw_read_typeid :: "ghw_handler \<Rightarrow> (ghw_type option \<times> ghw_handler) run" where
  "ghw_read_typeid h = rbind (ghw_read_uleb128 h) (\<lambda>(i, h). case i of
     None \<Rightarrow> Done (None, h)
   | Some i \<Rightarrow> rbind (type_entry h (i - 1)) (\<lambda>t. Done (Some t, h)))"

section \<open>Ranges\<close>

text \<open>The two bounds of a range, read by the same function; \<open>None\<close> when either is missing.\<close>

definition read_bounds ::
  "(ghw_handler \<Rightarrow> ('a option \<times> ghw_handler) run) \<Rightarrow> ('a \<Rightarrow> 'a \<Rightarrow> ghw_range) \<Rightarrow> ghw_handler
    \<Rightarrow> (ghw_range option \<times> ghw_handler) run" where
  "read_bounds rd mk h = rbind (rd h) (\<lambda>(left, h). case left of
     None \<Rightarrow> Done (None, h)
   | Some left \<Rightarrow> rbind (rd h) (\<lambda>(right, h). case right of
       None \<Rightarrow> Done (None, h)
     | Some right \<Rightarrow> Done (Some (mk left right), h)))"

definition ghw_read_range :: "ghw_handler \<Rightarrow> (ghw_range option \<times> ghw_handler) run" where
  "ghw_read_range h = rbind (h_fgetc h) (\<lambda>(t, h). case t of
     None \<Rightarrow> Done (None, h)
   | Some t \<Rightarrow>
       let dir = t AND 0x80 \<noteq> 0 in
       case rtik_of (t AND 0x7f) of
         None \<Rightarrow> Done (None, h)
       | Some kind \<Rightarrow>
         if kind = ghdl_rtik_type_b2 then read_bounds ghw_read_byte (Range_b2 dir) h
         else if kind = ghdl_rtik_type_e8 then read_bounds ghw_read_byte (Range_e8 dir) h
         else if kind = ghdl_rtik_type_i32 \<or> kind = ghdl_rtik_type_p32
           then read_bounds ghw_read_sleb128 (Range_i32 kind dir) h
         else if kind = ghdl_rtik_type_i64 \<or> kind = ghdl_rtik_type_p64
           then read_bounds ghw_read_lsleb128 (Range_i64 kind dir) h
         else if kind = ghdl_rtik_type_f64 then read_bounds ghw_read_f64 (Range_f64 dir) h
         else Done (None, h))"

text \<open>The subtraction and the addition of \<open>left - right + 1\<close> are those of \<open>int\<close>.\<close>

definition range_len :: "bool \<Rightarrow> int \<Rightarrow> int \<Rightarrow> int run" where
  "range_len dir left right =
     rbind (c_int (if dir then left - right else right - left)) (\<lambda>d. c_int (d + 1))"

fun ghw_get_range_length :: "ghw_range \<Rightarrow> int run" where
  "ghw_get_range_length (Range_i32 kind dir left right) =
     (if kind = ghdl_rtik_type_i32 then range_len dir (sint left) (sint right) else Crash Aborted)"
| "ghw_get_range_length (Range_b2 dir left right) = range_len dir (uint left) (uint right)"
| "ghw_get_range_length (Range_e8 dir left right) = range_len dir (uint left) (uint right)"
| "ghw_get_range_length _ = Crash Aborted"

section \<open>Base types and numbers of elements\<close>

definition scalar_kinds :: "ghdl_rtik list" where
  "scalar_kinds = [ghdl_rtik_type_b2, ghdl_rtik_type_e8, ghdl_rtik_type_e32, ghdl_rtik_type_i32,
     ghdl_rtik_type_i64, ghdl_rtik_type_f64, ghdl_rtik_type_p32, ghdl_rtik_type_p64]"

definition ghw_get_base_type :: "ghw_type option \<Rightarrow> ghw_type option run" where
  "ghw_get_base_type p = rbind (deref p) (\<lambda>t.
     if ty_kind t \<in> set scalar_kinds then Done (Some t)
     else case t of
       Subtype_scalar _ _ base _ \<Rightarrow> Done base
     | Subtype_array _ _ base _ _ \<Rightarrow> Done (Some base)
     | _ \<Rightarrow> Crash Aborted)"

definition get_nbr_elements :: "ghw_type option \<Rightarrow> int run" where
  "get_nbr_elements p = rbind (deref p) (\<lambda>t.
     if ty_kind t \<in> set scalar_kinds then Done 1
     else case t of
       Subtype_scalar _ _ _ _ \<Rightarrow> Done 1
     | Type_array _ _ _ _ \<Rightarrow> Done (-1)
     | Subtype_array _ _ _ nbr_scalars _ \<Rightarrow> Done nbr_scalars
     | Type_record _ _ nbr_scalars _ \<Rightarrow> Done nbr_scalars
     | Subtype_record _ _ _ nbr_scalars _ \<Rightarrow> Done nbr_scalars
     | _ \<Rightarrow> Crash Aborted)"

section \<open>Subtypes of arrays and records\<close>

text \<open>The object for a type is allocated at the next free address.\<close>

definition alloc_type :: "(nat \<Rightarrow> ghw_type) \<Rightarrow> ghw_handler \<Rightarrow> ghw_type \<times> ghw_handler" where
  "alloc_type mk h = (mk (next_addr h), h\<lparr>next_addr := Suc (next_addr h)\<rparr>)"

text \<open>
  The loop over the dimensions, with \<open>n\<close> of them to go: the ranges, and the product of
  \<open>nbr_scalars\<close> with their lengths.
\<close>

fun read_array_rngs ::
  "nat \<Rightarrow> int \<Rightarrow> ghw_handler \<Rightarrow> ((ghw_range list \<times> int) \<times> ghw_handler) run" where
  "read_array_rngs 0 nbr_scalars h = Done (([], nbr_scalars), h)"
| "read_array_rngs (Suc n) nbr_scalars h = rbind (ghw_read_range h) (\<lambda>(rng, h).
     rbind (deref rng) (\<lambda>rng.
     rbind (ghw_get_range_length rng) (\<lambda>len.
     rbind (c_int (nbr_scalars * len)) (\<lambda>nbr_scalars.
     rbind (read_array_rngs n nbr_scalars h) (\<lambda>((rngs, nbr_scalars), h).
     Done ((rng # rngs, nbr_scalars), h))))))"

definition ghw_read_array_subtype :: "ghw_type \<Rightarrow> ghw_handler \<Rightarrow> (ghw_type \<times> ghw_handler) run" where
  "ghw_read_array_subtype base h = (case base of
     Type_array _ _ el dims \<Rightarrow>
       rbind (get_nbr_elements el) (\<lambda>nbr_scalars.
       rbind (read_array_rngs (length dims) nbr_scalars h) (\<lambda>((rngs, nbr_scalars), h).
       Done (alloc_type (\<lambda>a. Subtype_array a Null_str base nbr_scalars rngs) h)))
   | _ \<Rightarrow> Crash Wrong_member)"

text \<open>
  \<open>ghw_read_record_subtype\<close> returns NULL, here \<open>None\<close>, for an element that has no number of
  elements and is neither an array nor a record. Its loop over the elements gives the elements of
  the subtype and the sum of their numbers of elements.
\<close>

function ghw_read_record_subtype ::
    "ghw_type \<Rightarrow> ghw_handler \<Rightarrow> (ghw_type option \<times> ghw_handler) run"
  and read_record_els ::
    "(c_str \<times> ghw_type option) list \<Rightarrow> int \<Rightarrow> ghw_handler
      \<Rightarrow> (((c_str \<times> ghw_type option) list \<times> int) option \<times> ghw_handler) run" where
  "ghw_read_record_subtype base h = (case base of
     Type_record _ _ nbr_scalars els \<Rightarrow>
       if 0 \<le> nbr_scalars
       then let (sr, h) = alloc_type (\<lambda>a. Subtype_record a Null_str base nbr_scalars els) h
         in Done (Some sr, h)
       else rbind (read_record_els els 0 h) (\<lambda>(r, h). case r of
         None \<Rightarrow> Done (None, h)
       | Some (els, nbr_scalars) \<Rightarrow>
           let (sr, h) = alloc_type (\<lambda>a. Subtype_record a Null_str base nbr_scalars els) h
           in Done (Some sr, h))
   | _ \<Rightarrow> Crash Wrong_member)"
| "read_record_els [] nbr_scalars h = Done (Some ([], nbr_scalars), h)"
| "read_record_els ((name, btype) # els) nbr_scalars h =
     rbind (get_nbr_elements btype) (\<lambda>el_nbr_scalars.
     rbind
       (if 0 \<le> el_nbr_scalars then Done (Some (btype, el_nbr_scalars), h)
        else rbind (deref btype) (\<lambda>t.
          rbind (case t of
              Type_array _ _ _ _ \<Rightarrow>
                rbind (ghw_read_array_subtype t h) (\<lambda>(sa, h). Done (Some (Some sa), h))
            | Type_record _ _ _ _ \<Rightarrow>
                rbind (ghw_read_record_subtype t h) (\<lambda>(sr, h). Done (Some sr, h))
            | _ \<Rightarrow> Done (None, h))
          (\<lambda>(ty, h). case ty of
              None \<Rightarrow> Done (None, h)
            | Some ty \<Rightarrow> rbind (get_nbr_elements ty) (\<lambda>el_nbr_scalars.
                Done (Some (ty, el_nbr_scalars), h)))))
     (\<lambda>(el, h). case el of
        None \<Rightarrow> Done (None, h)
      | Some (ty, el_nbr_scalars) \<Rightarrow>
          rbind (c_int (nbr_scalars + el_nbr_scalars)) (\<lambda>nbr_scalars.
          rbind (read_record_els els nbr_scalars h) (\<lambda>(r, h).
          Done (map_option (\<lambda>(els, nbr_scalars). ((name, ty) # els, nbr_scalars)) r, h)))))"
  by pat_completeness auto
termination
  by (relation "measure (case_sum (\<lambda>(base, h). size base)
      (\<lambda>(els, n, h). size_list (size_prod (\<lambda>_. 0) (size_option size)) els))")
    auto

declare ghw_read_record_subtype.simps [simp del] read_record_els.simps [simp del]


section \<open>The type section\<close>

text \<open>The loops over literals, units, dimensions and fields, with \<open>n\<close> of them to go.\<close>

fun read_lits :: "nat \<Rightarrow> ghw_handler \<Rightarrow> (c_str list \<times> ghw_handler) run" where
  "read_lits 0 h = Done ([], h)"
| "read_lits (Suc n) h = rbind (ghw_read_strid h) (\<lambda>(lit, h).
     rbind (read_lits n h) (\<lambda>(lits, h). Done (lit # lits, h)))"

fun read_units :: "nat \<Rightarrow> ghw_handler \<Rightarrow> (ghw_unit list option \<times> ghw_handler) run" where
  "read_units 0 h = Done (Some [], h)"
| "read_units (Suc n) h = rbind (ghw_read_strid h) (\<lambda>(name, h).
     rbind (ghw_read_lsleb128 h) (\<lambda>(val, h). case val of
       None \<Rightarrow> Done (None, h)
     | Some val \<Rightarrow> rbind (read_units n h) (\<lambda>(units, h).
         Done (map_option (\<lambda>units. (name, val) # units) units, h))))"

fun read_dims :: "nat \<Rightarrow> ghw_handler \<Rightarrow> (ghw_type option list \<times> ghw_handler) run" where
  "read_dims 0 h = Done ([], h)"
| "read_dims (Suc n) h = rbind (ghw_read_typeid h) (\<lambda>(dim, h).
     rbind (read_dims n h) (\<lambda>(dims, h). Done (dim # dims, h)))"

text \<open>Once \<open>nbr_scalars\<close> is -1 it stays so, and the elements are no longer counted.\<close>

fun read_fields ::
  "nat \<Rightarrow> int \<Rightarrow> ghw_handler \<Rightarrow> (((c_str \<times> ghw_type option) list \<times> int) \<times> ghw_handler) run" where
  "read_fields 0 nbr_scalars h = Done (([], nbr_scalars), h)"
| "read_fields (Suc n) nbr_scalars h = rbind (ghw_read_strid h) (\<lambda>(name, h).
     rbind (ghw_read_typeid h) (\<lambda>(ty, h).
     rbind (if nbr_scalars \<noteq> -1
            then rbind (get_nbr_elements ty) (\<lambda>field_nbr_scalars.
              if field_nbr_scalars = -1 then Done (-1) else c_int (nbr_scalars + field_nbr_scalars))
            else Done (-1)) (\<lambda>nbr_scalars.
     rbind (read_fields n nbr_scalars h) (\<lambda>((els, nbr_scalars), h).
     Done (((name, ty) # els, nbr_scalars), h)))))"

text \<open>The cases of the switch; \<open>None\<close> for \<open>return -1\<close>.\<close>

definition read_type_enum :: "ghdl_rtik \<Rightarrow> ghw_handler \<Rightarrow> (ghw_type option \<times> ghw_handler) run" where
  "read_type_enum kind h =
     (let a = next_addr h; h = h\<lparr>next_addr := Suc a, wkt_at := (wkt_at h)(a := 0)\<rparr> in
      rbind (ghw_read_strid h) (\<lambda>(name, h).
      rbind (ghw_read_uleb128 h) (\<lambda>(nbr, h). case nbr of
        None \<Rightarrow> Done (None, h)
      | Some nbr \<Rightarrow> rbind (read_lits (unat nbr) h) (\<lambda>(lits, h).
          Done (Some (Type_enum a kind name lits), h)))))"

definition read_type_scalar :: "ghdl_rtik \<Rightarrow> ghw_handler \<Rightarrow> (ghw_type option \<times> ghw_handler) run" where
  "read_type_scalar kind h = rbind (ghw_read_strid h) (\<lambda>(name, h).
     let (sc, h) = alloc_type (\<lambda>a. Type_scalar a kind name) h in Done (Some sc, h))"

definition read_type_physical :: "ghdl_rtik \<Rightarrow> ghw_handler \<Rightarrow> (ghw_type option \<times> ghw_handler) run" where
  "read_type_physical kind h = rbind (ghw_read_strid h) (\<lambda>(name, h).
     rbind
       (if version h = 0 then Done (Some [], h)
        else rbind (ghw_read_uleb128 h) (\<lambda>(nbr_units, h). case nbr_units of
          None \<Rightarrow> Done (None, h)
        | Some nbr_units \<Rightarrow> read_units (unat nbr_units) h))
     (\<lambda>(units, h). case units of
       None \<Rightarrow> Done (None, h)
     | Some units \<Rightarrow>
         let (ph, h) = alloc_type (\<lambda>a. Type_physical a kind name units) h in Done (Some ph, h)))"

definition read_subtype_scalar :: "ghw_handler \<Rightarrow> (ghw_type option \<times> ghw_handler) run" where
  "read_subtype_scalar h = rbind (ghw_read_strid h) (\<lambda>(name, h).
     rbind (ghw_read_typeid h) (\<lambda>(base, h).
     rbind (ghw_read_range h) (\<lambda>(rng, h).
     let (ss, h) = alloc_type (\<lambda>a. Subtype_scalar a name base rng) h in Done (Some ss, h))))"

definition read_type_array :: "ghw_handler \<Rightarrow> (ghw_type option \<times> ghw_handler) run" where
  "read_type_array h = rbind (ghw_read_strid h) (\<lambda>(name, h).
     rbind (ghw_read_typeid h) (\<lambda>(el, h).
     rbind (ghw_read_uleb128 h) (\<lambda>(nbr_dim, h). case nbr_dim of
       None \<Rightarrow> Done (None, h)
     | Some nbr_dim \<Rightarrow> rbind (read_dims (unat nbr_dim) h) (\<lambda>(dims, h).
         let (arr, h) = alloc_type (\<lambda>a. Type_array a name el dims) h in Done (Some arr, h)))))"

text \<open>\<open>sa->name = name\<close> and \<open>sr->name = name\<close>, on the object that was just allocated\<close>

fun set_name :: "c_str \<Rightarrow> ghw_type \<Rightarrow> ghw_type" where
  "set_name name (Subtype_array a _ base nbr_scalars rngs) = Subtype_array a name base nbr_scalars rngs"
| "set_name name (Subtype_record a _ base nbr_scalars els) = Subtype_record a name base nbr_scalars els"
| "set_name name t = t"

definition read_subtype_array :: "ghw_handler \<Rightarrow> (ghw_type option \<times> ghw_handler) run" where
  "read_subtype_array h = rbind (ghw_read_strid h) (\<lambda>(name, h).
     rbind (ghw_read_typeid h) (\<lambda>(base, h).
     rbind (deref base) (\<lambda>base.
     rbind (ghw_read_array_subtype base h) (\<lambda>(sa, h). Done (Some (set_name name sa), h)))))"

definition read_type_record :: "ghw_handler \<Rightarrow> (ghw_type option \<times> ghw_handler) run" where
  "read_type_record h = rbind (ghw_read_strid h) (\<lambda>(name, h).
     rbind (ghw_read_uleb128 h) (\<lambda>(nbr_fields, h). case nbr_fields of
       None \<Rightarrow> Done (None, h)
     | Some nbr_fields \<Rightarrow> rbind (read_fields (unat nbr_fields) 0 h) (\<lambda>((els, nbr_scalars), h).
         let (r, h) = alloc_type (\<lambda>a. Type_record a name nbr_scalars els) h in Done (Some r, h))))"

definition read_subtype_record :: "ghw_handler \<Rightarrow> (ghw_type option \<times> ghw_handler) run" where
  "read_subtype_record h = rbind (ghw_read_strid h) (\<lambda>(name, h).
     rbind (ghw_read_typeid h) (\<lambda>(base, h).
     rbind (deref base) (\<lambda>base.
     rbind (ghw_read_record_subtype base h) (\<lambda>(sr, h).
     rbind (deref sr) (\<lambda>sr. Done (Some (set_name name sr), h))))))"

text \<open>The switch on the byte \<open>t\<close> in front of a type.\<close>

definition read_one_type :: "byte \<Rightarrow> ghw_handler \<Rightarrow> (ghw_type option \<times> ghw_handler) run" where
  "read_one_type t h = (case rtik_of t of
     None \<Rightarrow> Done (None, h)
   | Some kind \<Rightarrow>
       if kind = ghdl_rtik_type_b2 \<or> kind = ghdl_rtik_type_e8 then read_type_enum kind h
       else if kind = ghdl_rtik_type_i32 \<or> kind = ghdl_rtik_type_i64 \<or> kind = ghdl_rtik_type_f64
         then read_type_scalar kind h
       else if kind = ghdl_rtik_type_p32 \<or> kind = ghdl_rtik_type_p64 then read_type_physical kind h
       else if kind = ghdl_rtik_subtype_scalar then read_subtype_scalar h
       else if kind = ghdl_rtik_type_array then read_type_array h
       else if kind = ghdl_rtik_subtype_array then read_subtype_array h
       else if kind = ghdl_rtik_type_record then read_type_record h
       else if kind = ghdl_rtik_subtype_record then read_subtype_record h
       else Done (None, h))"

text \<open>The loop over the types, with \<open>n\<close> of them to go: \<open>h->types[i] = \<dots>\<close> puts a type behind the others.\<close>

definition add_type :: "ghw_type \<Rightarrow> ghw_handler \<Rightarrow> ghw_handler run" where
  "add_type ty h = rbind (init (types h)) (\<lambda>tab. Done (h\<lparr>types := Some (tab @ [ty])\<rparr>))"

fun read_type_loop :: "nat \<Rightarrow> ghw_handler \<Rightarrow> (int \<times> ghw_handler) run" where
  "read_type_loop 0 h = Done (0, h)"
| "read_type_loop (Suc n) h = rbind (h_fgetc h) (\<lambda>(t, h). case t of
     None \<Rightarrow> Done (-1, h)
   | Some t \<Rightarrow> rbind (read_one_type t h) (\<lambda>(ty, h). case ty of
       None \<Rightarrow> Done (-1, h)
     | Some ty \<Rightarrow> rbind (add_type ty h) (\<lambda>h. read_type_loop n h)))"

definition ghw_read_type :: "ghw_handler \<Rightarrow> (int \<times> ghw_handler) run" where
  "ghw_read_type h = rbind (h_fread 8 h) (\<lambda>(hdr, h). case hdr of
     None \<Rightarrow> Done (-1, h)
   | Some hdr \<Rightarrow>
       if take 4 hdr \<noteq> [0, 0, 0, 0] then Done (-1, h)
       else
         let h = h\<lparr>nbr_types := ghw_get_i32 h (drop 4 hdr), types := Some []\<rparr> in
         rbind (read_type_loop (unat (nbr_types h)) h) (\<lambda>(res, h).
         if res \<noteq> 0 then Done (res, h)
         else rbind (h_fgetc h) (\<lambda>(c, h). Done (if c \<noteq> Some 0 then -1 else 0, h))))"

section \<open>Well-known types\<close>

definition set_wkt :: "ghw_type \<Rightarrow> byte \<Rightarrow> ghw_handler \<Rightarrow> ghw_handler" where
  "set_wkt tid t h =
     (if ty_kind tid = ghdl_rtik_type_b2 \<or> ty_kind tid = ghdl_rtik_type_e8
      then h\<lparr>wkt_at := (wkt_at h)(ty_addr tid := t)\<rparr> else h)"

lemma set_wkt_rest_len [simp]: "rest_len (set_wkt tid t h) = rest_len h"
  by (simp add: set_wkt_def)

lemma ghw_read_typeid_advances: "ghw_read_typeid h = Done (t, h') \<Longrightarrow> advances h h'"
  by (auto simp: ghw_read_typeid_def split: option.splits dest: uleb.rd_advances)

function read_wk_loop :: "ghw_handler \<Rightarrow> (int \<times> ghw_handler) run" where
  "read_wk_loop h = rbind (h_fgetc h) (\<lambda>(t, h). case t of
     None \<Rightarrow> Done (-1, h)
   | Some t \<Rightarrow>
       if t = 0 then Done (0, h)
       else rbind (ghw_read_typeid h) (\<lambda>(tid, h).
         rbind (deref tid) (\<lambda>tid. read_wk_loop (set_wkt tid t h))))"
  by pat_completeness auto
termination
  by (relation "measure rest_len")
    (auto dest!: h_fgetc_progress ghw_read_typeid_advances advances_rest_len)

declare read_wk_loop.simps [simp del]

definition ghw_read_wk_types :: "ghw_handler \<Rightarrow> (int \<times> ghw_handler) run" where
  "ghw_read_wk_types h = rbind (h_fread 4 h) (\<lambda>(hdr, h). case hdr of
     None \<Rightarrow> Done (-1, h)
   | Some hdr \<Rightarrow> if hdr \<noteq> [0, 0, 0, 0] then Done (-1, h) else read_wk_loop h)"

section \<open>The stream is not moved back\<close>

lemma ghw_read_strid_rest_len: "ghw_read_strid h = Done (s, h') \<Longrightarrow> rest_len h' \<le> rest_len h"
  by (auto simp: ghw_read_strid_def split: option.splits dest!: uleb.rd_rest_len)

lemma ghw_read_typeid_rest_len: "ghw_read_typeid h = Done (t, h') \<Longrightarrow> rest_len h' \<le> rest_len h"
  by (rule advances_rest_len [OF ghw_read_typeid_advances])

text \<open>What holds for the bounds of a range, whatever reader they are read by.\<close>

context reader
begin

lemma bounds_advances: "read_bounds rd mk h = Done (r, h') \<Longrightarrow> advances h h'"
  by (auto simp: read_bounds_def split: option.splits dest!: rd_advances) (blast intro: advances_trans)+

end

lemma ghw_read_range_advances: "ghw_read_range h = Done (r, h') \<Longrightarrow> advances h h'"
  by (auto simp: ghw_read_range_def Let_def split: option.splits if_splits
      dest!: h_fgetc_advances byte_rd.bounds_advances sleb.bounds_advances lsleb.bounds_advances
        f64_rd.bounds_advances)
    (blast intro: advances_trans)+

lemma ghw_read_range_rest_len: "ghw_read_range h = Done (r, h') \<Longrightarrow> rest_len h' \<le> rest_len h"
  by (rule advances_rest_len [OF ghw_read_range_advances])

lemma alloc_type_rest_len: "alloc_type mk h = (t, h') \<Longrightarrow> rest_len h' = rest_len h"
  by (auto simp: alloc_type_def)

lemmas types_rest_len = ghw_read_strid_rest_len ghw_read_typeid_rest_len ghw_read_range_rest_len
  uleb.rd_rest_len lsleb.rd_rest_len alloc_type_rest_len

lemma read_lits_rest_len: "read_lits n h = Done (r, h') \<Longrightarrow> rest_len h' \<le> rest_len h"
  by (induction n arbitrary: r h) (fastforce dest: types_rest_len)+

lemma read_units_rest_len: "read_units n h = Done (r, h') \<Longrightarrow> rest_len h' \<le> rest_len h"
  by (induction n arbitrary: r h) (fastforce split: option.splits dest: types_rest_len)+

lemma read_dims_rest_len: "read_dims n h = Done (r, h') \<Longrightarrow> rest_len h' \<le> rest_len h"
  by (induction n arbitrary: r h) (fastforce dest: types_rest_len)+

lemma read_fields_rest_len: "read_fields n k h = Done (r, h') \<Longrightarrow> rest_len h' \<le> rest_len h"
  by (induction n arbitrary: k r h) (fastforce split: if_splits dest: types_rest_len)+

lemma read_array_rngs_rest_len: "read_array_rngs n k h = Done (r, h') \<Longrightarrow> rest_len h' \<le> rest_len h"
  by (induction n arbitrary: k r h) (fastforce dest: types_rest_len)+

lemma ghw_read_array_subtype_rest_len:
  "ghw_read_array_subtype base h = Done (sa, h') \<Longrightarrow> rest_len h' \<le> rest_len h"
  by (auto simp: ghw_read_array_subtype_def alloc_type_def split: ghw_type.splits
    dest!: read_array_rngs_rest_len)

lemma ghw_read_record_subtype_rest_len:
  "ghw_read_record_subtype base h = Done (sr, h') \<Longrightarrow> rest_len h' \<le> rest_len h"
  "read_record_els els n h = Done (r, h') \<Longrightarrow> rest_len h' \<le> rest_len h"
proof (induction base h and els n h arbitrary: sr h' and r h'
    rule: ghw_read_record_subtype_read_record_els.induct)
  case (1 base h)
  then show ?case
    by (auto simp: ghw_read_record_subtype.simps alloc_type_def
      split: ghw_type.splits if_splits option.splits)
next
  case (3 name btype els n h)
  then obtain el_n where el_n: "get_nbr_elements btype = Done el_n"
    by (auto simp: read_record_els.simps)
  let ?m = "if 0 \<le> el_n then Done (Some (btype, el_n), h)
    else rbind (deref btype) (\<lambda>t.
      rbind (case t of
          Type_array _ _ _ _ \<Rightarrow>
            rbind (ghw_read_array_subtype t h) (\<lambda>(sa, h). Done (Some (Some sa), h))
        | Type_record _ _ _ _ \<Rightarrow>
            rbind (ghw_read_record_subtype t h) (\<lambda>(sr, h). Done (Some sr, h))
        | _ \<Rightarrow> Done (None, h))
      (\<lambda>(ty, h). case ty of
          None \<Rightarrow> Done (None, h)
        | Some ty \<Rightarrow> rbind (get_nbr_elements ty) (\<lambda>el_n. Done (Some (ty, el_n), h))))"
  from "3.prems" el_n obtain el h1 where 1: "?m = Done (el, h1)"
    and 2: "(case el of None \<Rightarrow> Done (None, h1) | Some (ty, k) \<Rightarrow>
      rbind (c_int (n + k)) (\<lambda>n. rbind (read_record_els els n h1) (\<lambda>(r, h).
        Done (map_option (\<lambda>(els, n). ((name, ty) # els, n)) r, h)))) = Done (r, h')"
    unfolding read_record_els.simps by auto
  have h1: "rest_len h1 \<le> rest_len h"
    using 1 "3.IH"(1) [OF el_n]
    by (auto split: if_splits ghw_type.splits option.splits dest: ghw_read_array_subtype_rest_len)
  show ?case
  proof (cases el)
    case (Some p)
    obtain ty k where p: "p = (ty, k)" by (cases p)
    with 2 Some obtain r1 where "int_fits (n + k)" "read_record_els els (n + k) h1 = Done (r1, h')"
      by auto
    with "3.IH"(2) [OF el_n 1 refl Some p [symmetric], of "n + k"] h1 show ?thesis by simp
  qed (use 2 h1 in simp)
qed (auto simp: read_record_els.simps)

lemma read_one_type_rest_len: "read_one_type t h = Done (r, h') \<Longrightarrow> rest_len h' \<le> rest_len h"
  by (auto simp: read_one_type_def read_type_enum_def read_type_scalar_def read_type_physical_def
      read_subtype_scalar_def read_type_array_def read_subtype_array_def read_type_record_def
      read_subtype_record_def alloc_type_def Let_def
    split: option.splits if_splits
    dest!: types_rest_len read_lits_rest_len read_units_rest_len read_dims_rest_len
      read_fields_rest_len ghw_read_array_subtype_rest_len ghw_read_record_subtype_rest_len(1))

lemma read_type_loop_rest_len: "read_type_loop n h = Done (r, h') \<Longrightarrow> rest_len h' \<le> rest_len h"
proof (induction n arbitrary: h)
  case (Suc n)
  then obtain t h1 where h1: "h_fgetc h = Done (t, h1)" by auto
  note le = h_fgetc_rest_len [OF h1]
  show ?case
  proof (cases "h1 = h'")
    case False
    with Suc.prems h1 obtain b ty h2 where 2: "t = Some b" "read_one_type b h1 = Done (ty, h2)"
      by (auto split: option.splits)
    note le = le read_one_type_rest_len [OF 2(2)]
    show ?thesis
    proof (cases ty)
      case (Some u)
      with Suc.prems h1 2 obtain h3 where "add_type u h2 = Done h3" "read_type_loop n h3 = Done (r, h')"
        by auto
      with Suc.IH [of h3] le show ?thesis by (auto simp: add_type_def)
    qed (use Suc.prems h1 2 le in auto)
  qed (use le in simp)
qed simp

lemma read_wk_loop_rest_len: "read_wk_loop h = Done (r, h') \<Longrightarrow> rest_len h' \<le> rest_len h"
proof (induction h rule: read_wk_loop.induct)
  case (1 h)
  then obtain t h1 where h1: "h_fgetc h = Done (t, h1)" by (subst (asm) read_wk_loop.simps) auto
  note le = h_fgetc_rest_len [OF h1]
  show ?case
  proof (cases "h1 = h'")
    case False
    with "1.prems" h1 obtain b tid h2 where 2: "t = Some b" "b \<noteq> 0"
      "ghw_read_typeid h1 = Done (Some tid, h2)" "read_wk_loop (set_wkt tid b h2) = Done (r, h')"
      by (subst (asm) read_wk_loop.simps) (auto split: option.splits if_splits)
    from "1.IH" [OF h1 refl 2(1,2,3) refl _ 2(4)] have "rest_len h' \<le> rest_len (set_wkt tid b h2)"
      by simp
    with ghw_read_typeid_rest_len [OF 2(3)] le show ?thesis by simp
  qed (use le in simp)
qed

interpretation typ_sec: section_reader ghw_read_type
  by unfold_locales
    (auto simp: ghw_read_type_def Let_def split: option.splits if_splits
      dest!: h_fread_rest_len h_fgetc_rest_len read_type_loop_rest_len)

interpretation wkt_sec: section_reader ghw_read_wk_types
  by unfold_locales
    (auto simp: ghw_read_wk_types_def split: option.splits if_splits
      dest!: h_fread_rest_len read_wk_loop_rest_len)

section \<open>Reading types comes to an end\<close>

lemma type_entry_stops [simp]: "stops (type_entry h i)"
  by (auto simp: type_entry_def intro!: stops_rules)

lemma ghw_read_typeid_stops [simp]: "stops (ghw_read_typeid h)"
  by (auto simp: ghw_read_typeid_def intro!: stops_rules)

lemma ghw_read_range_stops [simp]: "stops (ghw_read_range h)"
  by (auto simp: ghw_read_range_def read_bounds_def Let_def intro!: stops_rules)

lemma ghw_get_range_length_stops [simp]: "stops (ghw_get_range_length r)"
  by (cases r) (auto simp: range_len_def intro!: stops_rules)

lemma base_type_stops [simp]: "stops (ghw_get_base_type p)" "stops (get_nbr_elements p)"
  by (auto simp: ghw_get_base_type_def get_nbr_elements_def intro!: stops_rules split: ghw_type.splits)

lemma read_array_rngs_stops [simp]: "stops (read_array_rngs n k h)"
  by (induction n arbitrary: k h) (auto intro!: stops_rules)

lemma ghw_read_array_subtype_stops [simp]: "stops (ghw_read_array_subtype base h)"
  by (auto simp: ghw_read_array_subtype_def intro!: stops_rules split: ghw_type.splits)

lemma ghw_read_record_subtype_stops:
  "stops (ghw_read_record_subtype base h)" "stops (read_record_els els n h)"
proof (induction base h and els n h rule: ghw_read_record_subtype_read_record_els.induct)
  case (1 base h)
  then show ?case
    by (auto simp: ghw_read_record_subtype.simps alloc_type_def intro!: stops_rules split: ghw_type.splits)
next
  case (3 name btype els n h)
  show ?case
    unfolding read_record_els.simps
    by (intro stops_rules base_type_stops stops_c_int stops_accesses "3.IH"; (simp; fail)?)
      (auto intro!: stops_rules "3.IH"(1) split: ghw_type.splits)
qed (simp add: read_record_els.simps)

lemma read_lists_stops [simp]:
  "stops (read_lits n h)" "stops (read_units n h)" "stops (read_dims n h)" "stops (read_fields n k h)"
  by (induction n arbitrary: h k) (auto intro!: stops_rules)

lemma read_one_type_stops [simp]: "stops (read_one_type t h)"
  by (auto simp: read_one_type_def read_type_enum_def read_type_scalar_def read_type_physical_def
      read_subtype_scalar_def read_type_array_def read_subtype_array_def read_type_record_def
      read_subtype_record_def alloc_type_def Let_def ghw_read_record_subtype_stops
    intro!: stops_rules)

lemma read_type_loop_stops [simp]: "stops (read_type_loop n h)"
  by (induction n arbitrary: h) (auto simp: add_type_def intro!: stops_rules)

lemma ghw_read_type_stops [simp]: "stops (ghw_read_type h)"
  by (auto simp: ghw_read_type_def Let_def intro!: stops_rules)

lemma read_wk_loop_stops [simp]: "stops (read_wk_loop h)"
proof (induction h rule: read_wk_loop.induct)
  case (1 h)
  show ?case by (subst read_wk_loop.simps) (auto intro!: stops_rules "1.IH")
qed

lemma ghw_read_wk_types_stops [simp]: "stops (ghw_read_wk_types h)"
  by (auto simp: ghw_read_wk_types_def intro!: stops_rules)

end
