(* ===== verification/Ghw_Values.thy ===== *)
theory Ghw_Values
  imports Ghw_Types
begin

text \<open>
  Values of signals: \<open>ghw_read_value\<close>, the snapshot, and the cycles in which only the signals that
  changed are stored.
\<close>

section \<open>One value\<close>

text \<open>\<open>None\<close> is the return value -1, which leaves \<open>*val\<close> alone.\<close>

definition ghw_read_value :: "ghw_type option \<Rightarrow> ghw_handler \<Rightarrow> (ghw_val option \<times> ghw_handler) run" where
  "ghw_read_value type h = rbind (ghw_get_base_type type) (\<lambda>base. rbind (deref base) (\<lambda>base.
     let kind = ty_kind base in
     if kind = ghdl_rtik_type_b2
     then rbind (h_fgetc h) (\<lambda>(v, h). Done (map_option Val_b2 v, h))
     else if kind = ghdl_rtik_type_e8
     then rbind (h_fgetc h) (\<lambda>(v, h). Done (map_option Val_e8 v, h))
     else if kind = ghdl_rtik_type_i32 \<or> kind = ghdl_rtik_type_p32
     then rbind (ghw_read_sleb128 h) (\<lambda>(v, h). Done (map_option Val_i32 v, h))
     else if kind = ghdl_rtik_type_f64
     then rbind (ghw_read_f64 h) (\<lambda>(v, h). Done (map_option Val_f64 v, h))
     else if kind = ghdl_rtik_type_p64
     then rbind (ghw_read_lsleb128 h) (\<lambda>(v, h). Done (map_option Val_i64 v, h))
     else Crash Aborted))"

section \<open>The values of the signals\<close>

definition the_sigs :: "ghw_handler \<Rightarrow> ghw_sig list run" where
  "the_sigs h = init (sigs h)"

definition get_sig :: "ghw_handler \<Rightarrow> nat \<Rightarrow> ghw_sig run" where
  "get_sig h i = rbind (the_sigs h) (\<lambda>ss. array_get (length ss) ss i)"

definition set_sig :: "nat \<Rightarrow> ghw_sig \<Rightarrow> ghw_handler \<Rightarrow> ghw_handler" where
  "set_sig i s h = h\<lparr>sigs := map_option (\<lambda>ss. ss[i := s]) (sigs h)\<rparr>"

text \<open>\<open>ghw_read_signal_value (h, &h->sigs[i])\<close>\<close>

definition ghw_read_signal_value :: "nat \<Rightarrow> ghw_handler \<Rightarrow> (int \<times> ghw_handler) run" where
  "ghw_read_signal_value i h = rbind (get_sig h i) (\<lambda>s.
     rbind (ghw_read_value (sig_type s) h) (\<lambda>(v, h). case v of
       None \<Rightarrow> Done (-1, h)
     | Some v \<Rightarrow> rbind (deref (sig_val s)) (\<lambda>_. Done (0, set_sig i (s\<lparr>sig_val := Some v\<rparr>) h))))"

section \<open>Snapshots\<close>

text \<open>The loop over the signals from \<open>i\<close> on, with \<open>n\<close> of them to go.\<close>

fun read_snapshot_loop :: "nat \<Rightarrow> nat \<Rightarrow> ghw_handler \<Rightarrow> (int \<times> ghw_handler) run" where
  "read_snapshot_loop 0 i h = Done (0, h)"
| "read_snapshot_loop (Suc n) i h = rbind (get_sig h i) (\<lambda>s.
     if sig_type s = None then read_snapshot_loop n (Suc i) h
     else rbind (ghw_read_signal_value i h) (\<lambda>(res, h).
       if res < 0 then Done (-1, h) else read_snapshot_loop n (Suc i) h))"

definition ghw_read_snapshot :: "ghw_handler \<Rightarrow> (int \<times> ghw_handler) run" where
  "ghw_read_snapshot h = rbind (h_fread 12 h) (\<lambda>(hdr, h). case hdr of
     None \<Rightarrow> Done (-1, h)
   | Some hdr \<Rightarrow>
       if take 4 hdr \<noteq> [0, 0, 0, 0] then Done (-1, h)
       else
         let h = h\<lparr>snap_time := ghw_get_i64 h (drop 4 hdr)\<rparr> in
         rbind (read_snapshot_loop (unat (nbr_sigs h)) 0 h) (\<lambda>(res, h).
         if res < 0 then Done (-1, h)
         else rbind (h_fread 4 h) (\<lambda>(hdr, h). case hdr of
           None \<Rightarrow> Done (-1, h)
         | Some hdr \<Rightarrow> Done (if hdr \<noteq> bytes0_of ''ESN'' then -1 else 0, h))))"

section \<open>Cycles\<close>

definition ghw_read_cycle_start :: "ghw_handler \<Rightarrow> (int \<times> ghw_handler) run" where
  "ghw_read_cycle_start h = rbind (h_fread 8 h) (\<lambda>(hdr, h). case hdr of
     None \<Rightarrow> Done (-1, h)
   | Some hdr \<Rightarrow> Done (0, h\<lparr>snap_time := ghw_get_i64 h hdr\<rparr>))"

text \<open>
  \<open>while (d > 0)\<close>: the number of the \<open>d\<close>-th signal behind \<open>i\<close> that has a type. The loop does not
  look at the number of signals.
\<close>

function next_signal :: "ghw_sig list \<Rightarrow> nat \<Rightarrow> nat \<Rightarrow> nat run" where
  "next_signal ss i d =
     (if d = 0 then Done i
      else if \<not> int_fits (int i + 1) then Crash Int_overflow
      else rbind (array_get (length ss) ss (Suc i)) (\<lambda>s.
        next_signal ss (Suc i) (if sig_type s \<noteq> None then d - 1 else d)))"
  by pat_completeness auto
termination
  by (relation "measure (\<lambda>(ss, i, d). length ss - i)") auto

declare next_signal.simps [simp del]

text \<open>
  The loop of \<open>ghw_read_cycle_cont\<close>, with what it puts at \<open>list\<close>: the numbers of the signals whose
  value it read, and a 0 at the end.
\<close>

lemma ghw_read_value_advances: "ghw_read_value ty h = Done (v, h') \<Longrightarrow> advances h h'"
  by (auto simp: ghw_read_value_def Let_def split: if_splits
    dest: h_fgetc_advances sleb.rd_advances lsleb.rd_advances f64_rd.rd_advances)

lemma set_sig_rest_len [simp]: "rest_len (set_sig i s h) = rest_len h"
  by (simp add: set_sig_def rest_len_def)

lemma ghw_read_signal_value_rest_len:
  "ghw_read_signal_value i h = Done (r, h') \<Longrightarrow> rest_len h' \<le> rest_len h"
  by (auto simp: ghw_read_signal_value_def split: option.splits
    dest!: ghw_read_value_advances advances_rest_len)

function read_cycle_cont_loop ::
  "nat \<Rightarrow> ghw_handler \<Rightarrow> ((int \<times> nat list) \<times> ghw_handler) run" where
  "read_cycle_cont_loop i h = rbind (ghw_read_uleb128 h) (\<lambda>(d, h). case d of
     None \<Rightarrow> Done ((-1, []), h)
   | Some d \<Rightarrow>
       if d = 0 then Done ((0, [0]), h)
       else rbind (the_sigs h) (\<lambda>ss. rbind (next_signal ss i (unat d)) (\<lambda>i.
         rbind (ghw_read_signal_value i h) (\<lambda>(res, h).
         if res < 0 then Done ((-1, []), h)
         else rbind (read_cycle_cont_loop i h) (\<lambda>((res, list), h). Done ((res, i # list), h))))))"
  by pat_completeness auto
termination
  by (relation "measure (\<lambda>(i, h). rest_len h)")
    (auto dest!: uleb.rd_progress ghw_read_signal_value_rest_len)

declare read_cycle_cont_loop.simps [simp del]

definition ghw_read_cycle_cont :: "ghw_handler \<Rightarrow> ((int \<times> nat list) \<times> ghw_handler) run" where
  "ghw_read_cycle_cont h = read_cycle_cont_loop 0 h"

definition add_i64 :: "u64 \<Rightarrow> u64 \<Rightarrow> u64 run" where
  "add_i64 a b =
     (if - (2 ^ 63) \<le> sint a + sint b \<and> sint a + sint b < 2 ^ 63 then Done (a + b) else Crash Int_overflow)"

definition ghw_read_cycle_next :: "ghw_handler \<Rightarrow> (int \<times> ghw_handler) run" where
  "ghw_read_cycle_next h = rbind (ghw_read_lsleb128 h) (\<lambda>(d_time, h). case d_time of
     None \<Rightarrow> Done (-1, h)
   | Some d_time \<Rightarrow>
       if d_time = -1 then Done (0, h)
       else rbind (add_i64 (snap_time h) d_time) (\<lambda>time. Done (1, h\<lparr>snap_time := time\<rparr>)))"

definition ghw_read_cycle_end :: "ghw_handler \<Rightarrow> (int \<times> ghw_handler) run" where
  "ghw_read_cycle_end h = rbind (h_fread 4 h) (\<lambda>(hdr, h). case hdr of
     None \<Rightarrow> Done (-1, h)
   | Some hdr \<Rightarrow> Done (if hdr \<noteq> bytes0_of ''ECY'' then -1 else 0, h))"

section \<open>The stream is not moved back\<close>

lemma read_snapshot_loop_rest_len: "read_snapshot_loop n i h = Done (r, h') \<Longrightarrow> rest_len h' \<le> rest_len h"
  by (induction n arbitrary: i h)
    (fastforce split: if_splits dest: ghw_read_signal_value_rest_len)+

lemma ghw_read_cycle_start_rest_len:
  "ghw_read_cycle_start h = Done (r, h') \<Longrightarrow> rest_len h' \<le> rest_len h"
  by (auto simp: ghw_read_cycle_start_def split: option.splits dest!: h_fread_rest_len)

lemma read_cycle_cont_loop_rest_len:
  "read_cycle_cont_loop i h = Done (r, h') \<Longrightarrow> rest_len h' \<le> rest_len h"
proof (induction i h arbitrary: r rule: read_cycle_cont_loop.induct)
  case (1 i h)
  then obtain d h1 where h1: "ghw_read_uleb128 h = Done (d, h1)"
    by (subst (asm) read_cycle_cont_loop.simps) auto
  note le = uleb.rd_rest_len [OF h1]
  show ?case
  proof (cases "h1 = h'")
    case False
    with "1.prems" h1 obtain e ss j res h2 where 2: "d = Some e" "e \<noteq> 0" "the_sigs h1 = Done ss"
      "next_signal ss i (unat e) = Done j" "ghw_read_signal_value j h1 = Done (res, h2)"
      and rest: "(if res < 0 then Done ((-1, []), h2)
         else rbind (read_cycle_cont_loop j h2) (\<lambda>((res, list), h). Done ((res, j # list), h))) = Done (r, h')"
      by (subst (asm) read_cycle_cont_loop.simps) (auto split: option.splits if_splits)
    note le = le ghw_read_signal_value_rest_len [OF 2(5)]
    show ?thesis
    proof (cases "res < 0")
      case False
      with rest obtain r1 where "read_cycle_cont_loop j h2 = Done (r1, h')" by auto
      from "1.IH" [OF h1 refl 2 refl False this] le show ?thesis by simp
    qed (use rest le in simp)
  qed (use le in simp)
qed

lemma ghw_read_cycle_cont_rest_len:
  "ghw_read_cycle_cont h = Done (r, h') \<Longrightarrow> rest_len h' \<le> rest_len h"
  by (auto simp: ghw_read_cycle_cont_def dest: read_cycle_cont_loop_rest_len)

lemma ghw_read_cycle_next_rest_len: "ghw_read_cycle_next h = Done (r, h') \<Longrightarrow> rest_len h' \<le> rest_len h"
  by (auto simp: ghw_read_cycle_next_def split: option.splits if_splits dest!: lsleb.rd_rest_len)

lemma ghw_read_cycle_next_progress:
  "ghw_read_cycle_next h = Done (r, h') \<Longrightarrow> 0 \<le> r \<Longrightarrow> rest_len h' < rest_len h"
  by (auto simp: ghw_read_cycle_next_def split: option.splits if_splits dest!: lsleb.rd_progress)

interpretation snp_sec: section_reader ghw_read_snapshot
  by unfold_locales
    (auto simp: ghw_read_snapshot_def Let_def split: option.splits if_splits
      dest!: h_fread_rest_len read_snapshot_loop_rest_len)

interpretation ecy_sec: section_reader ghw_read_cycle_end
  by unfold_locales
    (auto simp: ghw_read_cycle_end_def split: option.splits dest!: h_fread_rest_len)

lemma get_sig_stops [simp]: "stops (get_sig h i)" "stops (the_sigs h)"
  by (auto simp: get_sig_def the_sigs_def intro!: stops_rules)

lemma ghw_read_value_stops [simp]: "stops (ghw_read_value t h)"
  by (auto simp: ghw_read_value_def Let_def intro!: stops_rules)

lemma ghw_read_signal_value_stops [simp]: "stops (ghw_read_signal_value i h)"
  by (auto simp: ghw_read_signal_value_def intro!: stops_rules)

lemma ghw_read_snapshot_stops [simp]: "stops (ghw_read_snapshot h)"
proof -
  have "stops (read_snapshot_loop n i h)" for n i h
    by (induction n arbitrary: i h) (auto intro!: stops_rules)
  then show ?thesis by (auto simp: ghw_read_snapshot_def Let_def intro!: stops_rules)
qed

lemma next_signal_stops [simp]: "stops (next_signal ss i d)"
proof (induction ss i d rule: next_signal.induct)
  case (1 ss i d)
  show ?case
    by (subst next_signal.simps) (intro stops_rbind stops_If stops_accesses "1.IH"; simp)
qed

lemma ghw_read_cycle_cont_stops [simp]: "stops (ghw_read_cycle_cont h)"
proof -
  have "stops (read_cycle_cont_loop i h)" for i
  proof (induction i h rule: read_cycle_cont_loop.induct)
    case (1 i h)
    show ?case by (subst read_cycle_cont_loop.simps) (auto intro!: stops_rules "1.IH")
  qed
  then show ?thesis by (simp add: ghw_read_cycle_cont_def)
qed

lemma cycle_stops [simp]:
  "stops (ghw_read_cycle_start h)" "stops (ghw_read_cycle_next h)" "stops (ghw_read_cycle_end h)"
  by (auto simp: ghw_read_cycle_start_def ghw_read_cycle_next_def ghw_read_cycle_end_def add_i64_def
    intro!: stops_rules)

section \<open>Values have the type of their signal\<close>

text \<open>
  A value fits a base type when it is of the member of the union that the type asks for.
\<close>

fun val_fits :: "ghw_type \<Rightarrow> ghw_val \<Rightarrow> bool" where
  "val_fits base (Val_b2 b) \<longleftrightarrow> ty_kind base = ghdl_rtik_type_b2"
| "val_fits base (Val_e8 b) \<longleftrightarrow> ty_kind base = ghdl_rtik_type_e8"
| "val_fits base (Val_i32 w) \<longleftrightarrow> ty_kind base = ghdl_rtik_type_i32 \<or> ty_kind base = ghdl_rtik_type_p32"
| "val_fits base (Val_i64 w) \<longleftrightarrow> ty_kind base = ghdl_rtik_type_p64"
| "val_fits base (Val_f64 w) \<longleftrightarrow> ty_kind base = ghdl_rtik_type_f64"
| "val_fits base Val_none \<longleftrightarrow> False"

text \<open>
  The invariant of the table of signals: their types are \<open>ts\<close>, and a value that was stored is of the
  member that the base type of its signal asks for.
\<close>

definition value_ok :: "ghw_sig \<Rightarrow> bool" where
  "value_ok s \<longleftrightarrow> (\<forall>v. sig_val s = Some v \<longrightarrow> v = Val_none \<or>
     (\<exists>b. ghw_get_base_type (sig_type s) = Done (Some b) \<and> val_fits b v))"

definition sigs_typed :: "ghw_type option list option \<Rightarrow> ghw_sig list option \<Rightarrow> bool" where
  "sigs_typed ts p \<longleftrightarrow> map_option (map sig_type) p = ts \<and> (\<forall>ss. p = Some ss \<longrightarrow> list_all value_ok ss)"

abbreviation sigs_ok :: "ghw_type option list option \<Rightarrow> ghw_handler \<Rightarrow> bool" where
  "sigs_ok ts h \<equiv> sigs_typed ts (sigs h)"

lemma sigs_advances: "advances h h' \<Longrightarrow> sigs h' = sigs h"
  by (simp add: advances_frame)

lemma sigs_ok_set_sig:
  assumes "sigs_ok ts h" "get_sig h i = Done s" "sig_type s' = sig_type s" "value_ok s'"
  shows "sigs_ok ts (set_sig i s' h)"
proof -
  from assms(2) obtain ss where ss: "sigs h = Some ss" "i < length ss" "s = ss ! i"
    by (auto simp: get_sig_def the_sigs_def)
  have "map sig_type (ss[i := s']) = map sig_type ss"
    using ss assms(3) by (metis list_update_id map_update nth_map)
  with ss assms(1,4) show ?thesis
    by (auto simp: sigs_typed_def set_sig_def list_all_iff dest!: set_update_subset_insert [THEN subsetD])
qed

lemma ghw_read_value_fits:
  "ghw_read_value ty h = Done (Some v, h') \<Longrightarrow> \<exists>b. ghw_get_base_type ty = Done (Some b) \<and> val_fits b v"
  by (auto simp: ghw_read_value_def Let_def split: if_splits)

lemma ghw_read_signal_value_ok:
  assumes "ghw_read_signal_value i h = Done (r, h')" "sigs_ok ts h"
  shows "sigs_ok ts h'"
proof -
  from assms(1) obtain s v h1 where 1: "get_sig h i = Done s" "ghw_read_value (sig_type s) h = Done (v, h1)"
    and h': "h' = (case v of None \<Rightarrow> h1 | Some v \<Rightarrow> set_sig i (s\<lparr>sig_val := Some v\<rparr>) h1)"
    by (auto simp: ghw_read_signal_value_def split: option.splits)
  have ok: "sigs_ok ts h1" using sigs_advances [OF ghw_read_value_advances [OF 1(2)]] assms(2) by simp
  show ?thesis
  proof (cases v)
    case (Some w)
    with ghw_read_value_fits 1(2) have "value_ok (s\<lparr>sig_val := Some w\<rparr>)" by (simp add: value_ok_def)
    moreover have "get_sig h1 i = Done s"
      using 1 advances_frame [OF ghw_read_value_advances [OF 1(2)]] by (simp add: get_sig_def the_sigs_def)
    ultimately show ?thesis using h' Some sigs_ok_set_sig [OF ok] by simp
  qed (use h' ok in simp)
qed

lemma read_snapshot_loop_ok: "read_snapshot_loop n i h = Done (r, h') \<Longrightarrow> sigs_ok ts h \<Longrightarrow> sigs_ok ts h'"
  by (induction n arbitrary: i h) (fastforce split: if_splits dest: ghw_read_signal_value_ok)+

lemma read_cycle_cont_loop_ok:
  "read_cycle_cont_loop i h = Done (r, h') \<Longrightarrow> sigs_ok ts h \<Longrightarrow> sigs_ok ts h'"
proof (induction i h arbitrary: r rule: read_cycle_cont_loop.induct)
  case (1 i h)
  then obtain d h1 where h1: "ghw_read_uleb128 h = Done (d, h1)"
    by (subst (asm) read_cycle_cont_loop.simps) auto
  then have ok: "sigs_ok ts h1" using "1.prems"(2) by (auto dest: sigs_advances [OF uleb.rd_advances])
  show ?case
  proof (cases "h1 = h'")
    case False
    with "1.prems"(1) h1 obtain e ss j res h2 where 2: "d = Some e" "e \<noteq> 0" "the_sigs h1 = Done ss"
      "next_signal ss i (unat e) = Done j" "ghw_read_signal_value j h1 = Done (res, h2)"
      and rest: "(if res < 0 then Done ((-1, []), h2)
         else rbind (read_cycle_cont_loop j h2) (\<lambda>((res, list), h). Done ((res, j # list), h))) = Done (r, h')"
      by (subst (asm) read_cycle_cont_loop.simps) (auto split: option.splits if_splits)
    note ok = ghw_read_signal_value_ok [OF 2(5) ok]
    show ?thesis
    proof (cases "res < 0")
      case False
      with rest obtain r1 where "read_cycle_cont_loop j h2 = Done (r1, h')" by auto
      from "1.IH" [OF h1 refl 2 refl False this] ok show ?thesis by simp
    qed (use rest ok in simp)
  qed (use ok in simp)
qed

lemma sigs_fread: "h_fread n h = Done (x, h') \<Longrightarrow> sigs h' = sigs h"
  by (rule sigs_advances [OF h_fread_advances])

lemma ghw_read_snapshot_ok: "ghw_read_snapshot h = Done (r, h') \<Longrightarrow> sigs_ok ts h \<Longrightarrow> sigs_ok ts h'"
  by (auto simp: ghw_read_snapshot_def Let_def split: option.splits if_splits
    dest!: sigs_fread read_snapshot_loop_ok)

lemma ghw_read_cycle_cont_ok: "ghw_read_cycle_cont h = Done (r, h') \<Longrightarrow> sigs_ok ts h \<Longrightarrow> sigs_ok ts h'"
  by (auto simp: ghw_read_cycle_cont_def dest: read_cycle_cont_loop_ok)

lemma ghw_read_cycle_start_ok: "ghw_read_cycle_start h = Done (r, h') \<Longrightarrow> sigs h' = sigs h"
  by (auto simp: ghw_read_cycle_start_def split: option.splits dest!: sigs_fread)

lemma ghw_read_cycle_next_ok: "ghw_read_cycle_next h = Done (r, h') \<Longrightarrow> sigs h' = sigs h"
  by (auto simp: ghw_read_cycle_next_def split: option.splits if_splits
    dest!: sigs_advances [OF lsleb.rd_advances])

lemma ghw_read_cycle_end_ok: "ghw_read_cycle_end h = Done (r, h') \<Longrightarrow> sigs h' = sigs h"
  by (auto simp: ghw_read_cycle_end_def split: option.splits dest!: sigs_fread)

section \<open>The values that the writer stores\<close>

text \<open>
  \<open>Write_Value\<close>, the body of \<open>Write_Snapshot\<close> behind the name of the section, and the signals that
  \<open>Wave_Cycle\<close> stores: for each signal of the dump table its new value or \<open>None\<close>, where \<open>gap\<close> is
  \<open>I - Last - 1\<close>. \<open>be\<close> is the byte order of the machine that writes: \<open>Wave_Put_F64\<close> stores the bytes of
  a floating point number as they are in its memory.
\<close>

fun write_value :: "bool \<Rightarrow> ghw_val \<Rightarrow> byte list" where
  "write_value be Val_none = []"
| "write_value be (Val_b2 b) = [b]"
| "write_value be (Val_e8 b) = [b]"
| "write_value be (Val_i32 w) = wave_put_sleb128 w"
| "write_value be (Val_i64 w) = wave_put_lsleb128 w"
| "write_value be (Val_f64 w) = wave_put_f64 be w"

definition write_snapshot_body :: "bool \<Rightarrow> u64 \<Rightarrow> ghw_val list \<Rightarrow> byte list" where
  "write_snapshot_body be time vals =
     [0, 0, 0, 0] @ wave_put_i64 be time @ concat (map (write_value be) vals) @ bytes0_of ''ESN''"

fun write_changes :: "bool \<Rightarrow> nat \<Rightarrow> ghw_val option list \<Rightarrow> byte list" where
  "write_changes be gap [] = [0]"
| "write_changes be gap (None # cs) = write_changes be (Suc gap) cs"
| "write_changes be gap (Some v # cs) =
     wave_put_uleb128 (word_of_nat (Suc gap)) @ write_value be v @ write_changes be 0 cs"

text \<open>
  The signals of the dump table are those with a type, in their order; the new values of some of
  them are put into the table.
\<close>

definition sig_fits :: "ghw_sig \<Rightarrow> ghw_val \<Rightarrow> bool" where
  "sig_fits s v \<longleftrightarrow> sig_val s \<noteq> None \<and> (\<exists>t. sig_type s = Some t \<and> val_fits t v)"

text \<open>
  \<open>ghw_read_f64\<close> takes the bytes of a floating point number as they are in the file (there is a \<open>FIXME\<close>
  at this place): a machine with the little-endian order gets the number if the file has that order too.
\<close>

definition order_kept :: "bool \<Rightarrow> ghw_val \<Rightarrow> bool" where
  "order_kept be v \<longleftrightarrow> \<not> be \<or> (case v of Val_f64 _ \<Rightarrow> False | _ \<Rightarrow> True)"

definition typed :: "ghw_sig list \<Rightarrow> ghw_sig list" where
  "typed ss = filter (\<lambda>s. sig_type s \<noteq> None) ss"

fun upd_vals :: "ghw_sig list \<Rightarrow> ghw_val option list \<Rightarrow> ghw_sig list" where
  "upd_vals [] cs = []"
| "upd_vals (s # ss) cs =
     (if sig_type s = None then s # upd_vals ss cs
      else case cs of
        [] \<Rightarrow> s # ss
      | c # cs \<Rightarrow> (case c of None \<Rightarrow> s | Some v \<Rightarrow> s\<lparr>sig_val := Some v\<rparr>) # upd_vals ss cs)"

definition changes_fit :: "bool \<Rightarrow> ghw_sig list \<Rightarrow> ghw_val option list \<Rightarrow> bool" where
  "changes_fit be ss cs \<longleftrightarrow>
     list_all2 (\<lambda>s c. case c of None \<Rightarrow> True | Some v \<Rightarrow> sig_fits s v \<and> order_kept be v) (typed ss) cs"

lemma length_upd_vals [simp]: "length (upd_vals ss cs) = length ss"
  by (induction ss cs rule: upd_vals.induct) (auto split: list.splits)

section \<open>Reading them back\<close>

lemma scalar_base: "val_fits t v \<Longrightarrow> ghw_get_base_type (Some t) = Done (Some t)"
  by (cases v) (auto simp: ghw_get_base_type_def scalar_kinds_def)

lemma f64_of_other_order:
  assumes "rest_of h = Some (wave_put_f64 True 0x3FF0000000000000 @ bs)"
  shows "ghw_read_f64 h = Done (Some 0xF03F, set_rest bs h)"
proof -
  have "wave_put_f64 True 0x3FF0000000000000 = [0x3F, 0xF0, 0, 0, 0, 0, 0, 0]"
    "f64_of_bytes [0x3F, 0xF0, 0, 0, 0, 0, 0, 0] = 0xF03F"
    by code_simp+
  moreover have "h_fread 8 h = Done (Some (wave_put_f64 True 0x3FF0000000000000), set_rest bs h)"
    using assms by (intro h_fread_append) simp_all
  ultimately show ?thesis
    by (simp add: ghw_read_f64_def)
qed

lemma ghw_read_value_put:
  assumes "rest_of h = Some (write_value (word_be h) v @ bs)" "val_fits t v" "order_kept (word_be h) v"
  shows "ghw_read_value (Some t) h = Done (Some v, set_rest bs h)"
  using assms
  by (cases v) (auto simp: ghw_read_value_def scalar_base [OF assms(2)] Let_def run_simps
    sleb.rd_put lsleb.rd_put f64_rd.rd_put order_kept_def)

lemma set_rest_sigs [simp]:
  "the_sigs (set_rest bs h) = the_sigs h" "get_sig (set_rest bs h) i = get_sig h i"
  "set_sig i s (set_rest bs h) = set_rest bs (set_sig i s h)"
  by (simp_all add: the_sigs_def get_sig_def set_sig_def)

lemma set_sig_split: "sigs h = Some (pre @ s # post) \<Longrightarrow>
   set_sig (length pre) t h = h\<lparr>sigs := Some (pre @ t # post)\<rparr>"
  by (simp add: set_sig_def)

lemma ghw_read_signal_value_put:
  assumes "sigs h = Some (pre @ s # post)" "rest_of h = Some (write_value (word_be h) v @ bs)" "sig_fits s v" "order_kept (word_be h) v"
  shows "ghw_read_signal_value (length pre) h =
    Done (0, set_rest bs (h\<lparr>sigs := Some (pre @ s\<lparr>sig_val := Some v\<rparr> # post)\<rparr>))"
  using assms
  by (auto simp: ghw_read_signal_value_def get_sig_def the_sigs_def sig_fits_def ghw_read_value_put
    set_sig_split)

lemma read_snapshot_loop_put:
  assumes "sigs h = Some (pre @ post)" "rest_of h = Some (concat (map (write_value (word_be h)) vals) @ bs)"
    "changes_fit (word_be h) post (map Some vals)"
  shows "read_snapshot_loop (length post) (length pre) h =
    Done (0, set_rest bs (h\<lparr>sigs := Some (pre @ upd_vals post (map Some vals))\<rparr>))"
  using assms
proof (induction post arbitrary: pre vals h)
  case Nil
  then show ?case by (simp add: changes_fit_def typed_def set_rest_same)
next
  case (Cons s post)
  have get: "get_sig h (length pre) = Done s" using Cons.prems(1) by (simp add: get_sig_def the_sigs_def)
  show ?case
  proof (cases "sig_type s = None")
    case True
    then show ?thesis
      using get Cons.prems Cons.IH [of h "pre @ [s]" vals] by (simp add: changes_fit_def typed_def)
  next
    case False
    then obtain t where t: "sig_type s = Some t" by blast
    with Cons.prems(3) obtain v vs where vals: "vals = v # vs" "sig_fits s v \<and> order_kept (word_be h) v"
      "changes_fit (word_be h) post (map Some vs)"
      by (cases vals) (auto simp: changes_fit_def typed_def)
    let ?h = "set_rest (concat (map (write_value (word_be h)) vs) @ bs)
      (h\<lparr>sigs := Some (pre @ s\<lparr>sig_val := Some v\<rparr> # post)\<rparr>)"
    have "ghw_read_signal_value (length pre) h = Done (0, ?h)"
      using Cons.prems(1,2) vals by (intro ghw_read_signal_value_put) simp_all
    moreover have "read_snapshot_loop (length post) (length (pre @ [s\<lparr>sig_val := Some v\<rparr>])) ?h =
      Done (0, set_rest bs (?h\<lparr>sigs := Some ((pre @ [s\<lparr>sig_val := Some v\<rparr>]) @ upd_vals post (map Some vs))\<rparr>))"
      using Cons.prems(2) vals by (intro Cons.IH) simp_all
    ultimately show ?thesis using get t vals(1) by simp
  qed
qed

lemma next_signal_0 [simp]: "next_signal ss i 0 = Done i"
  by (simp add: next_signal.simps)

lemma next_signal_Suc: "pre \<noteq> [] \<Longrightarrow> int (length pre) < 2 ^ 31 \<Longrightarrow>
   next_signal (pre @ s # post) (length pre - Suc 0) (Suc d) =
     next_signal (pre @ s # post) (length pre) (if sig_type s \<noteq> None then d else Suc d)"
  by (subst next_signal.simps) (auto simp: int_fits_def nth_append)

lemma next_signal_put:
  assumes "pre \<noteq> []" "sig_type s \<noteq> None" "int (length (pre @ mid @ s # post)) < 2 ^ 31"
  shows "next_signal (pre @ mid @ s # post) (length pre - Suc 0) (Suc (length (typed mid))) =
    Done (length (pre @ mid))"
  using assms
proof (induction mid arbitrary: pre)
  case Nil
  then show ?case using next_signal_Suc [of pre s post 0] by (simp add: typed_def)
next
  case (Cons m mid)
  then show ?case
    using next_signal_Suc [of pre m "mid @ s # post" "length (typed (m # mid))"]
      Cons.IH [of "pre @ [m]"]
    by (auto simp: typed_def)
qed

lemma sigs_same: "sigs h = ss \<Longrightarrow> h\<lparr>sigs := ss\<rparr> = h"
  by (cases h) simp

lemma read_cycle_cont_put:
  assumes "sigs h = Some (pre @ mid @ post)" "pre \<noteq> []" "int (length (pre @ mid @ post)) < 2 ^ 31"
    "rest_of h = Some (write_changes (word_be h) (length (typed mid)) cs @ bs)" "changes_fit (word_be h) post cs"
  shows "\<exists>list. read_cycle_cont_loop (length pre - 1) h =
    Done ((0, list), set_rest bs (h\<lparr>sigs := Some (pre @ mid @ upd_vals post cs)\<rparr>))"
  using assms
proof (induction post arbitrary: pre mid cs h)
  case Nil
  then have "rest_of h = Some (wave_put_uleb128 0 @ bs)"
    by (auto simp: changes_fit_def typed_def wave_put_uleb128_def uleb_bytes.simps)
  from uleb.rd_put [OF this] Nil show ?case
    by (subst read_cycle_cont_loop.simps) (simp add: sigs_same)
next
  case (Cons s post)
  show ?case
  proof (cases "sig_type s")
    case None
    then show ?thesis
      using Cons.prems Cons.IH [of h pre "mid @ [s]" cs] by (simp add: changes_fit_def typed_def)
  next
    case (Some t)
    with Cons.prems(5) obtain c cs' where cs: "cs = c # cs'" "changes_fit (word_be h) post cs'"
      and c: "case c of None \<Rightarrow> True | Some v \<Rightarrow> sig_fits s v \<and> order_kept (word_be h) v"
      by (cases cs) (auto simp: changes_fit_def typed_def)
    show ?thesis
    proof (cases c)
      case None
      then show ?thesis
        using Some cs Cons.prems Cons.IH [of h pre "mid @ [s]" cs'] by (simp add: typed_def)
    next
      case (Some v)
      let ?s = "s\<lparr>sig_val := Some v\<rparr>"
      let ?h1 = "set_rest (write_value (word_be h) v @ write_changes (word_be h) 0 cs' @ bs) h"
      let ?h2 = "set_rest (write_changes (word_be h) 0 cs' @ bs) (h\<lparr>sigs := Some ((pre @ mid) @ ?s # post)\<rparr>)"
      let ?g = "length (typed mid)"
      have "length (typed mid) \<le> length mid" by (simp add: typed_def)
      with Cons.prems(3) have g: "unat (word_of_nat (Suc ?g) :: u32) = Suc ?g"
        by (intro unat_word32) simp
      have "rest_of h = Some (wave_put_uleb128 (word_of_nat (Suc ?g)) @
          write_value (word_be h) v @ write_changes (word_be h) 0 cs' @ bs)"
        using Cons.prems(4) cs(1) Some by simp
      from uleb.rd_put [OF this] have 1: "ghw_read_uleb128 h = Done (Some (word_of_nat (Suc ?g)), ?h1)" .
      have 2: "next_signal (pre @ mid @ s # post) (length pre - 1) (Suc ?g) = Done (length (pre @ mid))"
        using next_signal_put Cons.prems(2,3) \<open>sig_type s = Some t\<close> by simp
      have 3: "ghw_read_signal_value (length (pre @ mid)) ?h1 = Done (0, ?h2)"
        using Cons.prems(1,4) c Some
        by (subst ghw_read_signal_value_put [where s = s and post = post]) auto
      have "\<exists>list. read_cycle_cont_loop (length (pre @ mid @ [?s]) - 1) ?h2 =
        Done ((0, list), set_rest bs (?h2\<lparr>sigs := Some ((pre @ mid @ [?s]) @ [] @ upd_vals post cs')\<rparr>))"
        using Cons.prems cs by (intro Cons.IH) (auto simp: typed_def)
      then obtain list where 4: "read_cycle_cont_loop (length (pre @ mid)) ?h2 =
        Done ((0, list), set_rest bs (h\<lparr>sigs := Some (pre @ mid @ ?s # upd_vals post cs')\<rparr>))"
        by auto
      have "(word_of_nat (Suc ?g) :: u32) \<noteq> 0" using g by auto
      then show ?thesis
        using 1 2 3 4 g Cons.prems(1) cs(1) Some \<open>sig_type s = Some t\<close>
        by (subst read_cycle_cont_loop.simps) (simp add: the_sigs_def del: of_nat_Suc)
    qed
  qed
qed

section \<open>Snapshots and cycles read back\<close>

lemma read_snapshot_put:
  assumes "sigs h = Some ss" "unat (nbr_sigs h) = length ss" "changes_fit (word_be h) ss (map Some vals)"
    "rest_of h = Some (write_snapshot_body (word_be h) time vals @ bs)"
  shows "ghw_read_snapshot h = Done (0, set_rest bs (h\<lparr>
    snap_time := ghw_get_i64 h (wave_put_i64 (word_be h) time),
    sigs := Some (upd_vals ss (map Some vals))\<rparr>))"
proof -
  let ?t = "ghw_get_i64 h (wave_put_i64 (word_be h) time)"
  let ?hdr = "[0, 0, 0, 0] @ wave_put_i64 (word_be h) time"
  let ?body = "concat (map (write_value (word_be h)) vals) @ bytes0_of ''ESN'' @ bs"
  let ?h = "set_rest ?body (h\<lparr>snap_time := ?t\<rparr>)"
  let ?h' = "h\<lparr>snap_time := ?t, sigs := Some (upd_vals ss (map Some vals))\<rparr>"
  have "h_fread 12 h = Done (Some ?hdr, set_rest ?body h)"
    using assms(4) by (intro h_fread_append) (simp_all add: write_snapshot_body_def)
  moreover have "drop 4 ?hdr = wave_put_i64 (word_be h) time" "take 4 ?hdr = [0, 0, 0, 0]" by simp_all
  moreover have "ghw_get_i64 (set_rest ?body h) b = ghw_get_i64 h b" for b
    by (simp add: ghw_get_i64_def)
  moreover have "read_snapshot_loop (length ss) (length []) ?h =
      Done (0, set_rest (bytes0_of ''ESN'' @ bs) (?h\<lparr>sigs := Some ([] @ upd_vals ss (map Some vals))\<rparr>))"
    using assms read_snapshot_loop_put [of ?h "[]" ss vals "bytes0_of ''ESN'' @ bs"] by simp
  moreover have "h_fread 4 (set_rest (bytes0_of ''ESN'' @ bs) ?h') =
      Done (Some (bytes0_of ''ESN''), set_rest bs ?h')"
    using assms(4) by (intro h_fread_append [THEN trans]) auto
  ultimately show ?thesis
    using assms(2) by (simp add: ghw_read_snapshot_def Let_def)
qed

lemma read_cycle_put:
  assumes "sigs h = Some (s0 # ss)" "int (length (s0 # ss)) < 2 ^ 31" "changes_fit (word_be h) ss cs"
    "rest_of h = Some (write_changes (word_be h) 0 cs @ bs)"
  shows "\<exists>list. ghw_read_cycle_cont h = Done ((0, list), set_rest bs (h\<lparr>sigs := Some (s0 # upd_vals ss cs)\<rparr>))"
  using read_cycle_cont_put [of h "[s0]" "[]" ss cs bs] assms
  by (simp add: ghw_read_cycle_cont_def typed_def)

end
