(* ===== verification/Ghw_Hierarchy.thy ===== *)
theory Ghw_Hierarchy
  imports Ghw_Values
begin

text \<open>
  The hierarchy section: \<open>ghw_read_signal\<close>, which reads the numbers of the elements of a signal
  along its type, and \<open>ghw_read_hie\<close>, which links the nodes of the design.
\<close>

section \<open>The elements of a signal\<close>

text \<open>
  The array \<open>sigs\<close> is passed with the offset to which the pointer of the C function leads; the
  result is the return value with the array.
\<close>

definition read_signal_scalar ::
  "ghw_type \<Rightarrow> int \<Rightarrow> u32 option list \<Rightarrow> ghw_handler \<Rightarrow> ((int \<times> u32 option list) \<times> ghw_handler) run" where
  "read_signal_scalar t off arr h = rbind (ghw_read_uleb128 h) (\<lambda>(sig_el, h). case sig_el of
     None \<Rightarrow> Done ((-1, arr), h)
   | Some sig_el \<Rightarrow> rbind (array_set arr off (Some sig_el)) (\<lambda>arr.
       if sig_el = 0 \<or> nbr_sigs h \<le> sig_el then Done ((-1, arr), h)
       else rbind (get_sig h (unat sig_el)) (\<lambda>s.
         if sig_type s = None
         then rbind (ghw_get_base_type (Some t)) (\<lambda>base.
           Done ((0, arr), set_sig (unat sig_el) (s\<lparr>sig_type := base\<rparr>) h))
         else Done ((0, arr), h))))"

definition signal_scalar_kinds :: "ghdl_rtik list" where
  "signal_scalar_kinds =
     [ghdl_rtik_type_b2, ghdl_rtik_type_e8, ghdl_rtik_type_e32, ghdl_rtik_subtype_scalar]"

text \<open>
  \<open>int nbr_fields = r->nbr_fields\<close>: the number of fields is an \<open>unsigned int\<close>, and a number from
  \<open>2 ^ 31\<close> on becomes negative.
\<close>

definition loop_fields :: "nat \<Rightarrow> 'a list \<Rightarrow> 'a list run" where
  "loop_fields nbr_fields els =
     (if 2 ^ 31 \<le> int nbr_fields then Done []
      else if length els < nbr_fields then Crash Out_of_bounds else Done (take nbr_fields els))"

lemma loop_fields_size: "loop_fields n els = Done els' \<Longrightarrow> size_list f els' \<le> size_list f els"
proof -
  have "size_list f (take n els) \<le> size_list f els" for n
    by (induction els arbitrary: n) (auto simp: take_Cons split: nat.splits)
  then show "loop_fields n els = Done els' \<Longrightarrow> size_list f els' \<le> size_list f els"
    by (auto simp: loop_fields_def split: if_splits)
qed

text \<open>
  The loop over the elements of an array stops after \<open>len\<close> rounds when \<open>stride\<close> is positive. When
  \<open>stride\<close> is negative, \<open>i\<close> overflows before there have been \<open>2 ^ 31 + 1\<close> rounds. Only a stride of 0
  makes a loop without end. \<open>fuel\<close> is the number of rounds left.
\<close>

definition array_rounds :: "int \<Rightarrow> int \<Rightarrow> nat" where
  "array_rounds stride len = (if 0 \<le> stride then nat len else 2 ^ 31 + 1)"

function ghw_read_signal ::
    "ghw_type option \<Rightarrow> int \<Rightarrow> u32 option list \<Rightarrow> ghw_handler
      \<Rightarrow> ((int \<times> u32 option list) \<times> ghw_handler) run"
  and read_signal_array ::
    "nat \<Rightarrow> ghw_type option \<Rightarrow> int \<Rightarrow> int \<Rightarrow> int \<Rightarrow> int \<Rightarrow> u32 option list \<Rightarrow> ghw_handler
      \<Rightarrow> ((int \<times> u32 option list) \<times> ghw_handler) run"
  and read_signal_fields ::
    "(c_str \<times> ghw_type option) list \<Rightarrow> int \<Rightarrow> int \<Rightarrow> u32 option list \<Rightarrow> ghw_handler
      \<Rightarrow> ((int \<times> u32 option list) \<times> ghw_handler) run" where
  "ghw_read_signal None off arr h = Crash Null_pointer"
| "ghw_read_signal (Some t) off arr h =
     (if ty_kind t \<in> set signal_scalar_kinds then read_signal_scalar t off arr h
      else case t of
        Subtype_array _ _ base len _ \<Rightarrow> (case base of
            Type_array _ _ el _ \<Rightarrow> rbind (get_nbr_elements el) (\<lambda>stride.
              read_signal_array (array_rounds stride len) el stride 0 len off arr h)
          | _ \<Rightarrow> Crash Wrong_member)
      | Type_record _ _ _ els \<Rightarrow> rbind (loop_fields (length els) els) (\<lambda>els.
          read_signal_fields els off 0 arr h)
      | Subtype_record _ _ base _ els \<Rightarrow> (case base of
            Type_record _ _ _ base_els \<Rightarrow> rbind (loop_fields (length base_els) els) (\<lambda>els.
              read_signal_fields els off 0 arr h)
          | _ \<Rightarrow> Crash Wrong_member)
      | _ \<Rightarrow> Crash Aborted)"
| "read_signal_array fuel el stride i len off arr h =
     (if i < len
      then (case fuel of
          0 \<Rightarrow> Crash No_return
        | Suc fuel \<Rightarrow> rbind (ghw_read_signal el (off + i) arr h) (\<lambda>((res, arr), h).
            if res < 0 then Done ((-1, arr), h)
            else rbind (c_int (i + stride)) (\<lambda>i. read_signal_array fuel el stride i len off arr h)))
      else Done ((0, arr), h))"
| "read_signal_fields [] off foff arr h = Done ((0, arr), h)"
| "read_signal_fields ((name, ty) # els) off foff arr h =
     rbind (ghw_read_signal ty (off + foff) arr h) (\<lambda>((res, arr), h).
     if res < 0 then Done ((-1, arr), h)
     else rbind (get_nbr_elements ty) (\<lambda>n.
       rbind (c_int (foff + n)) (\<lambda>foff. read_signal_fields els off foff arr h)))"
  by pat_completeness auto
termination
  by (relation "inv_image (less_than <*lex*> less_than) (\<lambda>x. case x of
      Inl (p, _) \<Rightarrow> (size_option size p, 0)
    | Inr (Inl (fuel, p, _)) \<Rightarrow> (Suc (size_option size p), fuel)
    | Inr (Inr (els, _)) \<Rightarrow> (size_list (size_prod (\<lambda>_. 0) (size_option size)) els, 0))")
    (auto dest: loop_fields_size [where f = "size_prod (\<lambda>_. 0) (size_option size)"])

declare ghw_read_signal.simps [simp del] read_signal_array.simps [simp del]
  read_signal_fields.simps [simp del]

text \<open>
  Reading a signal moves the stream forward and writes to the table of signals, and to nothing
  else.
\<close>

definition reads_signal :: "ghw_handler \<Rightarrow> ghw_handler \<Rightarrow> bool" where
  "reads_signal h h' \<longleftrightarrow> (\<exists>k ss. (k = h \<or> advances h k) \<and> h' = k\<lparr>sigs := ss\<rparr> \<and>
     map_option length ss = map_option length (sigs h))"

lemma advances_reads_signal: "advances h h' \<Longrightarrow> reads_signal h h'"
  unfolding reads_signal_def
  by (intro exI [of _ h'] exI [of _ "sigs h'"]) (auto simp: advances_frame)

lemma reads_signal_refl [simp]: "reads_signal h h"
  unfolding reads_signal_def by (intro exI [of _ h] exI [of _ "sigs h"]) simp

lemma advances_sigs: "advances (k\<lparr>sigs := ss\<rparr>) l \<Longrightarrow> advances k (l\<lparr>sigs := sigs k\<rparr>)"
proof -
  assume "advances (k\<lparr>sigs := ss\<rparr>) l"
  then obtain f f' bs where "stream k = Some f" "l = k\<lparr>sigs := ss, stream := Some f'\<rparr>"
    "st_rest f = bs @ st_rest f'" "st_broken f' = st_broken f"
    by (auto simp: advances_def)
  then show ?thesis by (intro advancesI [of k f bs f']) simp_all
qed

lemma reads_signal_trans: "reads_signal h h' \<Longrightarrow> reads_signal h' h'' \<Longrightarrow> reads_signal h h''"
proof -
  assume 1: "reads_signal h h'" and 2: "reads_signal h' h''"
  from 1 obtain k ss where k: "k = h \<or> advances h k" "h' = k\<lparr>sigs := ss\<rparr>"
      "map_option length ss = map_option length (sigs h)"
    unfolding reads_signal_def by blast
  from 2 obtain l ts where "l = h' \<or> advances h' l" "h'' = l\<lparr>sigs := ts\<rparr>"
      "map_option length ts = map_option length (sigs h')"
    unfolding reads_signal_def by blast
  with k have *: "k = h \<or> advances h k" "h' = k\<lparr>sigs := ss\<rparr>" "l = h' \<or> advances h' l"
    "h'' = l\<lparr>sigs := ts\<rparr>" "map_option length ts = map_option length (sigs h)"
    by simp_all
  from *(3,2) have "l\<lparr>sigs := sigs k\<rparr> = k \<or> advances k (l\<lparr>sigs := sigs k\<rparr>)"
    using advances_sigs by auto
  then have "l\<lparr>sigs := sigs k\<rparr> = h \<or> advances h (l\<lparr>sigs := sigs k\<rparr>)"
    using *(1) advances_trans by metis
  then show ?thesis
    unfolding reads_signal_def using *(4,5)
    by (intro exI [of _ "l\<lparr>sigs := sigs k\<rparr>"] exI [of _ ts]) simp
qed

lemma reads_signal_frame:
  assumes "reads_signal h h'"
  shows "rest_len h' \<le> rest_len h" "hie_nodes h' = hie_nodes h" "nbr_sigs h' = nbr_sigs h"
    "types h' = types h" "hie h' = hie h"
  using assms by (auto simp: reads_signal_def advances_frame rest_len_def dest: advances_rest_len)

lemma set_sig_reads_signal: "advances h h' \<Longrightarrow> reads_signal h (set_sig i s h')"
  unfolding reads_signal_def set_sig_def
  by (intro exI [of _ h'] exI [of _ "map_option (\<lambda>ss. ss[i := s]) (sigs h')"])
    (auto simp: advances_frame option.map_comp comp_def)

lemma read_signal_scalar_reads:
  "read_signal_scalar t off arr h = Done ((r, arr'), h') \<Longrightarrow>
   reads_signal h h' \<and> length arr' = length arr"
  by (auto simp: read_signal_scalar_def split: option.splits if_splits dest!: uleb.rd_advances)
    (blast intro: advances_reads_signal set_sig_reads_signal)+

lemma ghw_read_signal_reads:
  "ghw_read_signal p off arr h = Done ((r, arr'), h') \<Longrightarrow>
     reads_signal h h' \<and> length arr' = length arr"
  "read_signal_array fuel el stride i len off arr h = Done ((r, arr'), h') \<Longrightarrow>
     reads_signal h h' \<and> length arr' = length arr"
  "read_signal_fields els off foff arr h = Done ((r, arr'), h') \<Longrightarrow>
     reads_signal h h' \<and> length arr' = length arr"
proof (induction p off arr h and fuel el stride i len off arr h and els off foff arr h
    arbitrary: r arr' h' and r arr' h' and r arr' h'
    rule: ghw_read_signal_read_signal_array_read_signal_fields.induct)
  case (2 t off arr h)
  then show ?case
    by (auto simp: ghw_read_signal.simps split: if_splits ghw_type.splits dest: read_signal_scalar_reads)
next
  case (3 fuel el stride i len off arr h)
  show ?case
  proof (cases "i < len \<and> fuel \<noteq> 0")
    case True
    then obtain f where f: "i < len" "fuel = Suc f" by (cases fuel) auto
    with "3.prems" obtain r1 arr1 h1 where 1: "ghw_read_signal el (off + i) arr h = Done ((r1, arr1), h1)"
      by (subst (asm) read_signal_array.simps) auto
    note IH = "3.IH"(1) [OF f 1]
    show ?thesis
    proof (cases "r1 < 0")
      case True
      then show ?thesis
        using "3.prems" f 1 IH by (subst (asm) read_signal_array.simps) simp
    next
      case False
      then have "read_signal_array f el stride (i + stride) len off arr1 h1 = Done ((r, arr'), h')"
        "int_fits (i + stride)"
        using "3.prems" f 1 by (subst (asm) read_signal_array.simps, auto)+
      with "3.IH"(2) [OF f 1 refl refl False] IH show ?thesis
        by (auto intro: reads_signal_trans)
    qed
  next
    case False
    then show ?thesis
      using "3.prems" by (subst (asm) read_signal_array.simps) (auto split: if_splits nat.splits)
  qed
next
  case (5 name ty els off foff arr h)
  from "5.prems" obtain r1 arr1 h1 where 1: "ghw_read_signal ty (off + foff) arr h = Done ((r1, arr1), h1)"
    by (auto simp: read_signal_fields.simps)
  note IH = "5.IH"(1) [OF 1]
  show ?case
  proof (cases "r1 < 0")
    case True
    then show ?thesis using "5.prems" 1 IH by (simp add: read_signal_fields.simps)
  next
    case False
    with "5.prems" 1 obtain n where n: "get_nbr_elements ty = Done n" "c_int (foff + n) = Done (foff + n)"
      "read_signal_fields els off (foff + n) arr1 h1 = Done ((r, arr'), h')"
      by (auto simp: read_signal_fields.simps)
    with "5.IH"(2) [OF 1 refl refl False n(1,2)] IH show ?thesis
      by (auto intro: reads_signal_trans)
  qed
qed (auto simp: ghw_read_signal.simps read_signal_fields.simps)

section \<open>The nodes of the hierarchy\<close>

definition get_node :: "ghw_handler \<Rightarrow> nat \<Rightarrow> ghw_hie run" where
  "get_node h n = array_get (length (hie_nodes h)) (hie_nodes h) n"

definition set_node :: "nat \<Rightarrow> ghw_hie \<Rightarrow> ghw_handler \<Rightarrow> ghw_handler" where
  "set_node n el h = h\<lparr>hie_nodes := (hie_nodes h)[n := el]\<rparr>"

text \<open>\<open>u.blk.child\<close> and \<open>u.sig\<close> of a node\<close>

fun blk_child :: "hie_u \<Rightarrow> nat option run" where
  "blk_child (U_blk child _) = Done child"
| "blk_child U_none = Crash Uninitialised"
| "blk_child (U_sig _ _) = Crash Wrong_member"

fun set_blk_child :: "nat option \<Rightarrow> hie_u \<Rightarrow> hie_u" where
  "set_blk_child child (U_blk _ it) = U_blk child it"
| "set_blk_child child _ = U_blk child None"

text \<open>What \<open>last\<close> points to: the \<open>child\<close> or the \<open>brother\<close> field of a node.\<close>

datatype hie_slot = Slot_child nat | Slot_brother nat

fun store_slot :: "hie_slot \<Rightarrow> nat option \<Rightarrow> ghw_handler \<Rightarrow> ghw_handler run" where
  "store_slot (Slot_child n) p h = rbind (get_node h n) (\<lambda>node.
     Done (set_node n (node\<lparr>hie_u := set_blk_child p (hie_u node)\<rparr>) h))"
| "store_slot (Slot_brother n) p h = rbind (get_node h n) (\<lambda>node.
     Done (set_node n (node\<lparr>hie_brother := p\<rparr>) h))"

text \<open>
  \<open>while (l->brother != NULL) l = l->brother\<close>: a chain of brothers is no longer than there are
  nodes, which is the fuel.
\<close>

fun last_brother :: "nat \<Rightarrow> ghw_handler \<Rightarrow> nat \<Rightarrow> nat run" where
  "last_brother 0 h l = Crash No_return"
| "last_brother (Suc fuel) h l = rbind (get_node h l) (\<lambda>node. case hie_brother node of
     None \<Rightarrow> Done l
   | Some b \<Rightarrow> last_brother fuel h b)"

text \<open>\<open>ghw_hie_eos\<close>: back to the parent of \<open>blk\<close>, behind its last child.\<close>

definition hie_up :: "nat \<Rightarrow> ghw_handler \<Rightarrow> (nat \<times> hie_slot) run" where
  "hie_up blk h = rbind (get_node h blk) (\<lambda>node. rbind (deref (hie_parent node)) (\<lambda>blk.
     rbind (get_node h blk) (\<lambda>node. rbind (blk_child (hie_u node)) (\<lambda>child. case child of
       None \<Rightarrow> Done (blk, Slot_child blk)
     | Some l \<Rightarrow> rbind (last_brother (length (hie_nodes h)) h l) (\<lambda>l. Done (blk, Slot_brother l))))))"

text \<open>A new element behind \<open>last\<close>: its name is read once it is linked.\<close>

definition new_node :: "ghw_hie_kind \<Rightarrow> nat \<Rightarrow> hie_slot \<Rightarrow> ghw_handler \<Rightarrow> (nat \<times> ghw_handler) run" where
  "new_node kind blk slot h =
     (let el = length (hie_nodes h);
          node = \<lparr>hie_kind = kind, hie_parent = Some blk, hie_name = Null_str, hie_brother = None,
                  hie_u = U_none\<rparr>
      in rbind (store_slot slot (Some el) (h\<lparr>hie_nodes := hie_nodes h @ [node]\<rparr>)) (\<lambda>h. Done (el, h)))"

definition set_u :: "nat \<Rightarrow> hie_u \<Rightarrow> ghw_handler \<Rightarrow> ghw_handler run" where
  "set_u n u h = rbind (get_node h n) (\<lambda>node. Done (set_node n (node\<lparr>hie_u := u\<rparr>) h))"

definition set_hie_name :: "nat \<Rightarrow> c_str \<Rightarrow> ghw_handler \<Rightarrow> ghw_handler run" where
  "set_hie_name n s h = rbind (get_node h n) (\<lambda>node. Done (set_node n (node\<lparr>hie_name := s\<rparr>) h))"

definition blk_kinds :: "ghw_hie_kind list" where
  "blk_kinds = [ghw_hie_block, ghw_hie_generate_if, ghw_hie_generate_for, ghw_hie_instance,
     ghw_hie_generic, ghw_hie_package]"

definition sig_kinds :: "ghw_hie_kind list" where
  "sig_kinds = [ghw_hie_signal, ghw_hie_port_in, ghw_hie_port_out, ghw_hie_port_inout,
     ghw_hie_port_buffer, ghw_hie_port_linkage]"

text \<open>The block \<open>el\<close>, with the iterator of a \<open>for ... generate\<close>. \<open>None\<close> stands for \<open>return -1\<close>.\<close>

definition read_hie_block ::
  "ghw_hie_kind \<Rightarrow> nat \<Rightarrow> ghw_handler \<Rightarrow> ((nat \<times> hie_slot) option \<times> ghw_handler) run" where
  "read_hie_block t el h = rbind (set_u el (U_blk None None) h) (\<lambda>h.
     if t = ghw_hie_generate_for
     then rbind (ghw_read_typeid h) (\<lambda>(iter_type, h).
       rbind (ghw_read_value iter_type h) (\<lambda>(iter_value, h). case iter_value of
         None \<Rightarrow> rbind (set_u el (U_blk None (Some (iter_type, Val_none))) h) (\<lambda>h. Done (None, h))
       | Some v \<Rightarrow> rbind (set_u el (U_blk None (Some (iter_type, v))) h) (\<lambda>h.
           Done (Some (el, Slot_child el), h))))
     else Done (Some (el, Slot_child el), h))"

text \<open>The signal or port \<open>el\<close>: an array of \<open>nbr_el + 1\<close> elements, whose last is 0.\<close>

definition read_hie_signal :: "nat \<Rightarrow> ghw_handler \<Rightarrow> (unit option \<times> ghw_handler) run" where
  "read_hie_signal el h = rbind (ghw_read_typeid h) (\<lambda>(type, h).
     rbind (get_nbr_elements type) (\<lambda>nbr_el.
     if nbr_el < 0 then rbind (set_u el (U_sig type []) h) (\<lambda>h. Done (None, h))
     else rbind (c_int (nbr_el + 1)) (\<lambda>n.
       rbind (ghw_read_signal type 0 (replicate (nat nbr_el) None @ [Some 0]) h) (\<lambda>((res, arr), h).
       rbind (set_u el (U_sig type arr) h) (\<lambda>h.
       Done (if res < 0 then None else Some (), h))))))"

text \<open>
  What the loop does for a byte \<open>t\<close> that is neither the end of the section nor the end of a scope.
\<close>

definition read_hie_el ::
  "ghw_hie_kind \<Rightarrow> nat \<Rightarrow> hie_slot \<Rightarrow> ghw_handler \<Rightarrow> ((nat \<times> hie_slot) option \<times> ghw_handler) run" where
  "read_hie_el t blk slot h = rbind (new_node t blk slot h) (\<lambda>(el, h).
     let slot = Slot_brother el in
     rbind (ghw_read_uleb128 h) (\<lambda>(str, h). case str of
       None \<Rightarrow> Done (None, h)
     | Some str \<Rightarrow> rbind (str_entry h str) (\<lambda>name. rbind (set_hie_name el name h) (\<lambda>h.
         if t = ghw_hie_process then Done (Some (blk, slot), h)
         else if t \<in> set blk_kinds then read_hie_block t el h
         else if t \<in> set sig_kinds
         then rbind (read_hie_signal el h) (\<lambda>(ok, h). Done (map_option (\<lambda>_. (blk, slot)) ok, h))
         else Crash Aborted))))"

lemma set_node_rest_len [simp]: "rest_len (set_node n el h) = rest_len h"
  by (simp add: set_node_def)

lemma store_slot_rest_len: "store_slot slot p h = Done h' \<Longrightarrow> rest_len h' = rest_len h"
  by (cases slot) auto

lemma set_u_rest_len: "set_u n u h = Done h' \<Longrightarrow> rest_len h' = rest_len h"
  by (auto simp: set_u_def)

lemma set_hie_name_rest_len: "set_hie_name n s h = Done h' \<Longrightarrow> rest_len h' = rest_len h"
  by (auto simp: set_hie_name_def)

lemma new_node_rest_len: "new_node t blk slot h = Done (el, h') \<Longrightarrow> rest_len h' = rest_len h"
  by (auto simp: new_node_def Let_def dest: store_slot_rest_len)

lemma read_hie_block_rest_len:
  "read_hie_block t el h = Done (r, h') \<Longrightarrow> rest_len h' \<le> rest_len h"
  by (auto simp: read_hie_block_def split: if_splits option.splits
    dest!: set_u_rest_len ghw_read_typeid_advances ghw_read_value_advances advances_rest_len)

lemma read_hie_signal_rest_len:
  "read_hie_signal el h = Done (r, h') \<Longrightarrow> rest_len h' \<le> rest_len h"
proof -
  have *: "ghw_read_signal p off arr h = Done ((r, arr'), h') \<Longrightarrow> rest_len h' \<le> rest_len h"
    for p off arr h r arr' h'
    using ghw_read_signal_reads(1) reads_signal_frame(1) by blast
  show "read_hie_signal el h = Done (r, h') \<Longrightarrow> rest_len h' \<le> rest_len h"
    by (auto simp: read_hie_signal_def split: if_splits
      dest!: set_u_rest_len * ghw_read_typeid_advances advances_rest_len)
qed

lemma read_hie_el_rest_len:
  "read_hie_el t blk slot h = Done (r, h') \<Longrightarrow> rest_len h' \<le> rest_len h"
  by (auto simp: read_hie_el_def Let_def split: if_splits option.splits
    dest!: new_node_rest_len set_hie_name_rest_len read_hie_block_rest_len read_hie_signal_rest_len
      uleb.rd_rest_len)

section \<open>The hierarchy section\<close>

function read_hie_loop :: "nat \<Rightarrow> hie_slot \<Rightarrow> ghw_handler \<Rightarrow> (int \<times> ghw_handler) run" where
  "read_hie_loop blk slot h = rbind (h_fgetc h) (\<lambda>(t, h). case t of
     None \<Rightarrow> Done (-1, h)
   | Some t \<Rightarrow>
       if t = 0 then Done (0, h)
       else if hie_of t = ghw_hie_eos
       then rbind (hie_up blk h) (\<lambda>(blk, slot). read_hie_loop blk slot h)
       else rbind (read_hie_el (hie_of t) blk slot h) (\<lambda>(next, h). case next of
         None \<Rightarrow> Done (-1, h)
       | Some (blk, slot) \<Rightarrow> read_hie_loop blk slot h))"
  by pat_completeness auto
termination
  by (relation "measure (\<lambda>(blk, slot, h). rest_len h)")
    (auto dest!: h_fgetc_progress read_hie_el_rest_len)

declare read_hie_loop.simps [simp del]

definition design_node :: ghw_hie where
  "design_node = \<lparr>hie_kind = ghw_hie_design, hie_parent = None, hie_name = Null_str,
     hie_brother = None, hie_u = U_blk None None\<rparr>"

definition alloc_values :: "ghw_handler \<Rightarrow> ghw_handler" where
  "alloc_values h = h\<lparr>sigs := map_option (map (\<lambda>s.
     if sig_type s \<noteq> None then s\<lparr>sig_val := Some Val_none\<rparr> else s)) (sigs h)\<rparr>"

text \<open>
  The nodes of an earlier hierarchy stay allocated; the root of the new one is allocated behind
  them.
\<close>

definition ghw_read_hie :: "ghw_handler \<Rightarrow> (int \<times> ghw_handler) run" where
  "ghw_read_hie h = rbind (h_fread 16 h) (\<lambda>(hdr, h). case hdr of
     None \<Rightarrow> Done (-1, h)
   | Some hdr \<Rightarrow>
       if take 4 hdr \<noteq> [0, 0, 0, 0] then Done (-1, h)
       else
         let blk = length (hie_nodes h);
             n = ghw_get_i32 h (drop 12 hdr) + 1;
             h = h\<lparr>nbr_sigs := n, hie_nodes := hie_nodes h @ [design_node], hie := Some blk,
                   skip_sigs := Some None, flag_full_names := False,
                   sigs := Some (replicate (unat n) \<lparr>sig_type = None, sig_val = None\<rparr>)\<rparr>
         in rbind (read_hie_loop blk (Slot_child blk) h) (\<lambda>(res, h).
            if res \<noteq> 0 then Done (res, h) else Done (0, alloc_values h)))"

text \<open>\<open>ghw_get_hie_name\<close>\<close>

fun ghw_get_hie_name :: "ghw_hie_kind \<Rightarrow> string" where
  "ghw_get_hie_name ghw_hie_eoh = ''eoh''"
| "ghw_get_hie_name ghw_hie_design = ''design''"
| "ghw_get_hie_name ghw_hie_block = ''block''"
| "ghw_get_hie_name ghw_hie_generate_if = ''generate-if''"
| "ghw_get_hie_name ghw_hie_generate_for = ''generate-for''"
| "ghw_get_hie_name ghw_hie_instance = ''instance''"
| "ghw_get_hie_name ghw_hie_package = ''package''"
| "ghw_get_hie_name ghw_hie_process = ''process''"
| "ghw_get_hie_name ghw_hie_generic = ''generic''"
| "ghw_get_hie_name ghw_hie_eos = ''eos''"
| "ghw_get_hie_name ghw_hie_signal = ''signal''"
| "ghw_get_hie_name ghw_hie_port_in = ''port-in''"
| "ghw_get_hie_name ghw_hie_port_out = ''port-out''"
| "ghw_get_hie_name ghw_hie_port_inout = ''port-inout''"
| "ghw_get_hie_name ghw_hie_port_buffer = ''port-buffer''"
| "ghw_get_hie_name ghw_hie_port_linkage = ''port-linkage''"
| "ghw_get_hie_name (ghw_hie_other t) = ''??''"

lemma read_hie_loop_rest_len: "read_hie_loop blk slot h = Done (r, h') \<Longrightarrow> rest_len h' \<le> rest_len h"
proof (induction blk slot h rule: read_hie_loop.induct)
  case (1 blk slot h)
  then obtain t h1 where h1: "h_fgetc h = Done (t, h1)" by (subst (asm) read_hie_loop.simps) auto
  note le = h_fgetc_rest_len [OF h1]
  show ?case
  proof (cases t)
    case (Some b)
    consider "b = 0" | (eos) "b \<noteq> 0" "hie_of b = ghw_hie_eos" | (el) "b \<noteq> 0" "hie_of b \<noteq> ghw_hie_eos"
      by blast
    then show ?thesis
    proof cases
      case eos
      with "1.prems" h1 Some obtain blk' slot' where up: "hie_up blk h1 = Done (blk', slot')"
        and "read_hie_loop blk' slot' h1 = Done (r, h')"
        by (subst (asm) read_hie_loop.simps) auto
      with "1.IH"(1) [OF h1 refl Some eos up refl] le show ?thesis by simp
    next
      case el
      with "1.prems" h1 Some obtain next' h2 where 2: "read_hie_el (hie_of b) blk slot h1 = Done (next', h2)"
        and rest: "(case next' of None \<Rightarrow> Done (-1, h2) | Some (blk, slot) \<Rightarrow> read_hie_loop blk slot h2) = Done (r, h')"
        by (subst (asm) read_hie_loop.simps) auto
      note le = le read_hie_el_rest_len [OF 2]
      show ?thesis
      proof (cases next')
        case next': (Some p)
        obtain blk' slot' where p: "p = (blk', slot')" by (cases p)
        with rest next' have "read_hie_loop blk' slot' h2 = Done (r, h')" by simp
        with "1.IH"(2) [OF h1 refl Some el 2 refl next' p [symmetric]] le show ?thesis by simp
      qed (use rest le in simp)
    qed (use "1.prems" h1 Some le in \<open>subst (asm) read_hie_loop.simps, simp\<close>)
  qed (use "1.prems" h1 le in \<open>subst (asm) read_hie_loop.simps, simp\<close>)
qed

lemma alloc_values_rest_len [simp]: "rest_len (alloc_values h) = rest_len h"
  by (simp add: alloc_values_def)

interpretation hie_sec: section_reader ghw_read_hie
  by unfold_locales
    (auto simp: ghw_read_hie_def Let_def split: option.splits if_splits
      dest!: h_fread_rest_len read_hie_loop_rest_len)

end
