(* ===== verification/Ghw_Sections.thy ===== *)
theory Ghw_Sections
  imports Ghw_Hierarchy
begin

text \<open>
  The sections of a file: \<open>ghw_read_base\<close> up to the end of the header, the directory and the
  tailer, the state machine \<open>ghw_read_sm\<close> with which a program goes from snapshot to cycle, the
  reader of a whole dump, and the table of sections.
\<close>

section \<open>The header sections\<close>

definition ghw_read_eoh :: "ghw_handler \<Rightarrow> (int \<times> ghw_handler) run" where
  "ghw_read_eoh h = Done (0, h)"

text \<open>
  The function that \<open>ghw_read_base\<close> calls for the name of a section, \<open>None\<close> for a section that it
  does not know.
\<close>

definition base_section ::
  "byte list \<Rightarrow> (ghw_handler \<Rightarrow> (int \<times> ghw_handler) run) option" where
  "base_section hdr =
     (if hdr = bytes0_of ''STR'' then Some ghw_read_str
      else if hdr = bytes0_of ''HIE'' then Some ghw_read_hie
      else if hdr = bytes0_of ''TYP'' then Some ghw_read_type
      else if hdr = bytes0_of ''WKT'' then Some ghw_read_wk_types
      else None)"

text \<open>
  Every round reads the four bytes of a name; the fuel is the number of names that the input can
  hold.
\<close>

fun read_base_loop :: "nat \<Rightarrow> ghw_handler \<Rightarrow> (int \<times> ghw_handler) run" where
  "read_base_loop 0 h = Crash No_return"
| "read_base_loop (Suc fuel) h = rbind (h_fread 4 h) (\<lambda>(hdr, h). case hdr of
     None \<Rightarrow> Done (-1, h)
   | Some hdr \<Rightarrow>
       if hdr = bytes0_of ''EOH'' then Done (0, h)
       else case base_section hdr of
         None \<Rightarrow> Done (-1, h)
       | Some rd \<Rightarrow> rbind (rd h) (\<lambda>(res, h).
           if res \<noteq> 0 then Done (res, h) else read_base_loop fuel h))"

definition ghw_read_base :: "ghw_handler \<Rightarrow> (int \<times> ghw_handler) run" where
  "ghw_read_base h = read_base_loop (Suc (rest_len h)) h"

section \<open>Directory and tailer\<close>

fun read_directory_loop :: "nat \<Rightarrow> ghw_handler \<Rightarrow> (int \<times> ghw_handler) run" where
  "read_directory_loop 0 h = Done (0, h)"
| "read_directory_loop (Suc n) h = rbind (h_fread 8 h) (\<lambda>(ent, h). case ent of
     None \<Rightarrow> Done (-1, h)
   | Some ent \<Rightarrow> read_directory_loop n h)"

definition ghw_read_directory :: "ghw_handler \<Rightarrow> (int \<times> ghw_handler) run" where
  "ghw_read_directory h = rbind (h_fread 8 h) (\<lambda>(hdr, h). case hdr of
     None \<Rightarrow> Done (-1, h)
   | Some hdr \<Rightarrow>
       let nbr_entries = sint (ghw_get_i32 h (drop 4 hdr)) in
       rbind (read_directory_loop (nat nbr_entries) h) (\<lambda>(res, h).
       if res \<noteq> 0 then Done (-1, h)
       else rbind (h_fread 4 h) (\<lambda>(hdr, h). case hdr of
         None \<Rightarrow> Done (-1, h)
       | Some hdr \<Rightarrow> Done (if hdr \<noteq> bytes0_of ''EOD'' then -1 else 0, h))))"

definition ghw_read_tailer :: "ghw_handler \<Rightarrow> (int \<times> ghw_handler) run" where
  "ghw_read_tailer h = rbind (h_fread 8 h) (\<lambda>(hdr, h). case hdr of
     None \<Rightarrow> Done (-1, h)
   | Some hdr \<Rightarrow> Done (0, h))"

section \<open>The state machine\<close>

definition res_num :: "ghw_res \<Rightarrow> int" where
  "res_num r = (case r of
     ghw_res_error \<Rightarrow> -1 | ghw_res_eof \<Rightarrow> -2 | ghw_res_ok \<Rightarrow> 0 | ghw_res_snapshot \<Rightarrow> 1
   | ghw_res_cycle \<Rightarrow> 2 | ghw_res_other \<Rightarrow> 3)"

text \<open>
  The results are kept as numbers, since the functions also return the results of the functions
  they call. \<open>ghw_read_sm\<close> passes NULL for the list of signals.
\<close>

definition ghw_read_sm_hdr :: "ghw_handler \<Rightarrow> (int \<times> ghw_handler) run" where
  "ghw_read_sm_hdr h = rbind (h_fread 4 h) (\<lambda>(hdr, h). case hdr of
     None \<Rightarrow> rbind (h_feof h) (\<lambda>e. Done (if e then res_num ghw_res_eof else res_num ghw_res_error, h))
   | Some hdr \<Rightarrow>
       if hdr = bytes0_of ''SNP''
       then rbind (ghw_read_snapshot h) (\<lambda>(res, h).
         Done (if res < 0 then res else res_num ghw_res_snapshot, h))
       else if hdr = bytes0_of ''CYC''
       then rbind (ghw_read_cycle_start h) (\<lambda>(res, h).
         if res < 0 then Done (res, h)
         else rbind (ghw_read_cycle_cont h) (\<lambda>((res, _), h).
           Done (if res < 0 then res else res_num ghw_res_cycle, h)))
       else if hdr = bytes0_of ''DIR''
       then rbind (ghw_read_directory h) (\<lambda>(res, h).
         Done (if res \<noteq> 0 then res else res_num ghw_res_other, h))
       else if hdr = bytes0_of ''TAI''
       then rbind (ghw_read_tailer h) (\<lambda>(res, h).
         Done (if res \<noteq> 0 then res else res_num ghw_res_other, h))
       else Done (-1, h))"

text \<open>
  One round of the loop of \<open>ghw_read_sm\<close>: \<open>Inl\<close> a result that is returned, or \<open>Inr ()\<close> for a
  further round; and the new value of \<open>*sm\<close>.
\<close>

definition sm_round ::
  "ghw_sm_type \<Rightarrow> ghw_handler \<Rightarrow> (((int + unit) \<times> ghw_sm_type) \<times> ghw_handler) run" where
  "sm_round sm h = (case sm of
     ghw_sm_cycle \<Rightarrow> rbind (ghw_read_cycle_next h) (\<lambda>(res, h).
       if res < 0 then Done ((Inl res, sm), h)
       else if res = 1
       then rbind (ghw_read_cycle_cont h) (\<lambda>((res, _), h).
         Done ((Inl (if res < 0 then res else res_num ghw_res_cycle), sm), h))
       else rbind (ghw_read_cycle_end h) (\<lambda>(res, h).
         if res < 0 then Done ((Inl res, sm), h) else Done ((Inr (), ghw_sm_sect), h)))
   | _ \<Rightarrow> rbind (ghw_read_sm_hdr h) (\<lambda>(res, h).
       if res = res_num ghw_res_other then Done ((Inr (), sm), h)
       else if res = res_num ghw_res_snapshot then Done ((Inl res, ghw_sm_sect), h)
       else if res = res_num ghw_res_cycle then Done ((Inl res, ghw_sm_cycle), h)
       else Done ((Inl res, sm), h)))"

fun read_sm_loop :: "nat \<Rightarrow> ghw_sm_type \<Rightarrow> ghw_handler \<Rightarrow> ((int \<times> ghw_sm_type) \<times> ghw_handler) run" where
  "read_sm_loop 0 sm h = Crash No_return"
| "read_sm_loop (Suc fuel) sm h = rbind (sm_round sm h) (\<lambda>((r, sm), h). case r of
     Inl res \<Rightarrow> Done ((res, sm), h)
   | Inr _ \<Rightarrow> read_sm_loop fuel sm h)"

definition ghw_read_sm :: "ghw_sm_type \<Rightarrow> ghw_handler \<Rightarrow> ((int \<times> ghw_sm_type) \<times> ghw_handler) run" where
  "ghw_read_sm sm h = read_sm_loop (Suc (rest_len h)) sm h"

section \<open>Whole dumps\<close>

text \<open>The rounds of \<open>ghw_read_cycle\<close>, each of which reads a byte or more.\<close>

fun read_cycle_loop :: "nat \<Rightarrow> ghw_handler \<Rightarrow> (int \<times> ghw_handler) run" where
  "read_cycle_loop 0 h = Crash No_return"
| "read_cycle_loop (Suc fuel) h = rbind (ghw_read_cycle_cont h) (\<lambda>((res, _), h).
     if res < 0 then Done (res, h)
     else rbind (ghw_read_cycle_next h) (\<lambda>(res, h).
       if res < 0 then Done (res, h)
       else if res = 0 then ghw_read_cycle_end h
       else read_cycle_loop fuel h))"

definition ghw_read_cycle :: "ghw_handler \<Rightarrow> (int \<times> ghw_handler) run" where
  "ghw_read_cycle h = rbind (ghw_read_cycle_start h) (\<lambda>(res, h).
     if res < 0 then Done (res, h) else read_cycle_loop (Suc (rest_len h)) h)"

definition dump_section ::
  "byte list \<Rightarrow> (ghw_handler \<Rightarrow> (int \<times> ghw_handler) run) option" where
  "dump_section hdr =
     (if hdr = bytes0_of ''SNP'' then Some ghw_read_snapshot
      else if hdr = bytes0_of ''CYC'' then Some ghw_read_cycle
      else if hdr = bytes0_of ''DIR'' then Some ghw_read_directory
      else if hdr = bytes0_of ''TAI'' then Some ghw_read_tailer
      else None)"

fun read_dump_loop :: "nat \<Rightarrow> ghw_handler \<Rightarrow> (int \<times> ghw_handler) run" where
  "read_dump_loop 0 h = Crash No_return"
| "read_dump_loop (Suc fuel) h = rbind (h_fread 4 h) (\<lambda>(hdr, h). case hdr of
     None \<Rightarrow> rbind (h_feof h) (\<lambda>e. Done (if e then 0 else -1, h))
   | Some hdr \<Rightarrow> (case dump_section hdr of
       None \<Rightarrow> Done (-1, h)
     | Some rd \<Rightarrow> rbind (rd h) (\<lambda>(res, h).
         if res \<noteq> 0 then Done (res, h) else read_dump_loop fuel h)))"

definition ghw_read_dump :: "ghw_handler \<Rightarrow> (int \<times> ghw_handler) run" where
  "ghw_read_dump h = read_dump_loop (Suc (rest_len h)) h"

section \<open>The table of sections\<close>

definition ghw_sections :: "(byte list \<times> (ghw_handler \<Rightarrow> (int \<times> ghw_handler) run) option) list" where
  "ghw_sections =
    [([0, 0, 0, 0], None),
     (bytes0_of ''STR'', Some ghw_read_str),
     (bytes0_of ''HIE'', Some ghw_read_hie),
     (bytes0_of ''TYP'', Some ghw_read_type),
     (bytes0_of ''WKT'', Some ghw_read_wk_types),
     (bytes0_of ''EOH'', Some ghw_read_eoh),
     (bytes0_of ''SNP'', Some ghw_read_snapshot),
     (bytes0_of ''CYC'', Some ghw_read_cycle),
     (bytes0_of ''DIR'', Some ghw_read_directory),
     (bytes0_of ''TAI'', Some ghw_read_tailer)]"

text \<open>The search for a name from the entry \<open>i\<close> on; 0 when there is none.\<close>

fun find_section :: "byte list \<Rightarrow> (byte list \<times> 'a) list \<Rightarrow> int \<Rightarrow> int" where
  "find_section hdr [] i = 0"
| "find_section hdr ((name, _) # ss) i = (if hdr = name then i else find_section hdr ss (i + 1))"

definition ghw_read_section :: "ghw_handler \<Rightarrow> (int \<times> ghw_handler) run" where
  "ghw_read_section h = rbind (h_fread 4 h) (\<lambda>(hdr, h). case hdr of
     None \<Rightarrow> rbind (h_feof h) (\<lambda>e. Done (if e then -2 else -1, h))
   | Some hdr \<Rightarrow> Done (find_section hdr (tl ghw_sections) 1, h))"

section \<open>The loops over the sections end\<close>

lemma read_directory_loop_rest_len:
  "read_directory_loop n h = Done (r, h') \<Longrightarrow> rest_len h' \<le> rest_len h"
  by (induction n arbitrary: h) (fastforce split: option.splits dest: h_fread_rest_len)+

interpretation dir_sec: section_reader ghw_read_directory
  by unfold_locales
    (auto simp: ghw_read_directory_def Let_def split: option.splits if_splits
      dest!: h_fread_rest_len read_directory_loop_rest_len)

interpretation tai_sec: section_reader ghw_read_tailer
  by unfold_locales
    (auto simp: ghw_read_tailer_def split: option.splits dest!: h_fread_rest_len)

interpretation eoh_sec: section_reader ghw_read_eoh
  by unfold_locales (simp add: ghw_read_eoh_def)

text \<open>Reading a name takes four bytes.\<close>

lemma name_progress: "h_fread (Suc n) h = Done (Some hdr, h1) \<Longrightarrow> rest_len h1 < rest_len h"
  by (rule eoh_sec.section_progress [where n = "Suc n"]) (auto simp: ghw_read_eoh_def)

lemma ghw_read_sm_hdr_rest_len:
  "ghw_read_sm_hdr h = Done (r, h') \<Longrightarrow> rest_len h' \<le> rest_len h"
  "ghw_read_sm_hdr h = Done (r, h') \<Longrightarrow> 0 \<le> r \<Longrightarrow> rest_len h' < rest_len h"
proof -
  have le: "ghw_read_sm_hdr h = Done (r, h') \<Longrightarrow>
      \<exists>hdr h1. h_fread 4 h = Done (hdr, h1) \<and> rest_len h' \<le> rest_len h1 \<and> (0 \<le> r \<longrightarrow> hdr \<noteq> None)"
    by (auto simp: ghw_read_sm_hdr_def res_num_def split: option.splits if_splits
      dest!: snp_sec.no_rewind dir_sec.no_rewind tai_sec.no_rewind ghw_read_cycle_start_rest_len
        ghw_read_cycle_cont_rest_len)
  then show "ghw_read_sm_hdr h = Done (r, h') \<Longrightarrow> rest_len h' \<le> rest_len h"
    by (auto dest!: h_fread_rest_len)
  show "ghw_read_sm_hdr h = Done (r, h') \<Longrightarrow> 0 \<le> r \<Longrightarrow> rest_len h' < rest_len h"
    using le name_progress [of 3 h] by (fastforce simp: numeral_eq_Suc)
qed

lemma sm_round_rest_len: "sm_round sm h = Done ((r, sm'), h') \<Longrightarrow> rest_len h' \<le> rest_len h"
  by (auto simp: sm_round_def split: ghw_sm_type.splits if_splits
    dest!: ghw_read_cycle_cont_rest_len ecy_sec.no_rewind
      ghw_read_sm_hdr_rest_len(1) ghw_read_cycle_next_rest_len)

lemma sm_round_progress:
  assumes "sm_round sm h = Done ((r, sm'), h')" "\<And>res. r = Inl res \<Longrightarrow> 0 \<le> res"
  shows "rest_len h' < rest_len h"
proof (cases "sm = ghw_sm_cycle")
  case True
  with assms(1) obtain res h1 where 1: "ghw_read_cycle_next h = Done (res, h1)"
    by (auto simp: sm_round_def)
  have "rest_len h' \<le> rest_len h1 \<and> 0 \<le> res"
    using assms True 1
    by (auto simp: sm_round_def split: if_splits dest!: ghw_read_cycle_cont_rest_len ecy_sec.no_rewind)
  with ghw_read_cycle_next_progress [OF 1] show ?thesis by simp
next
  case False
  with assms(1) obtain res where 1: "ghw_read_sm_hdr h = Done (res, h')"
    by (cases sm) (auto simp: sm_round_def split: if_splits)
  with assms False have "0 \<le> res"
    by (cases sm) (auto simp: sm_round_def res_num_def split: if_splits)
  with ghw_read_sm_hdr_rest_len(2) [OF 1] show ?thesis by simp
qed

lemma directory_stops [simp]: "stops (ghw_read_directory h)" "stops (ghw_read_tailer h)"
proof -
  have "stops (read_directory_loop n h)" for n h
    by (induction n arbitrary: h) (auto intro!: stops_rules)
  then show "stops (ghw_read_directory h)" "stops (ghw_read_tailer h)"
    by (auto simp: ghw_read_directory_def ghw_read_tailer_def Let_def intro!: stops_rules)
qed

lemma sm_round_stops [simp]: "stops (sm_round sm h)"
proof -
  have "stops (ghw_read_sm_hdr h)" for h
    by (auto simp: ghw_read_sm_hdr_def intro!: stops_rules)
  then show ?thesis
    by (cases sm) (auto simp: sm_round_def intro!: stops_rules)
qed

lemma read_sm_loop_stops: "rest_len h < fuel \<Longrightarrow> stops (read_sm_loop fuel sm h)"
proof (induction fuel arbitrary: sm h)
  case (Suc fuel)
  show ?case
  proof (cases "sm_round sm h")
    case (Done x)
    obtain r sm' h' where x: "x = ((r, sm'), h')" by (metis surj_pair)
    show ?thesis
    proof (cases r)
      case (Inr u)
      with Done x have "rest_len h' < rest_len h" by (intro sm_round_progress) auto
      with Suc.prems have "stops (read_sm_loop fuel sm' h')" by (intro Suc.IH) simp
      with Done x Inr show ?thesis by simp
    qed (use Done x in simp)
  qed (use sm_round_stops [of sm h] in simp)
qed simp

lemma read_cycle_loop_stops: "rest_len h < fuel \<Longrightarrow> stops (read_cycle_loop fuel h)"
proof (induction fuel arbitrary: h)
  case (Suc fuel)
  have "stops (read_cycle_loop fuel h2)"
    if "ghw_read_cycle_cont h = Done (r, h1)" "ghw_read_cycle_next h1 = Done (res, h2)" "\<not> res < 0"
    for r h1 res h2
    using ghw_read_cycle_cont_rest_len [OF that(1)] ghw_read_cycle_next_progress [OF that(2)] that(3)
      Suc.prems by (intro Suc.IH) simp
  then show ?case by (auto intro!: stops_rules)
qed simp

lemma ghw_read_cycle_stops [simp]: "stops (ghw_read_cycle h)"
  by (auto simp: ghw_read_cycle_def intro!: stops_rules read_cycle_loop_stops simp del: read_cycle_loop.simps)

lemma read_cycle_loop_rest_len: "read_cycle_loop fuel h = Done (r, h') \<Longrightarrow> rest_len h' \<le> rest_len h"
proof (induction fuel arbitrary: h)
  case (Suc fuel)
  then obtain res list h1 where 1: "ghw_read_cycle_cont h = Done ((res, list), h1)" by auto
  note le = ghw_read_cycle_cont_rest_len [OF 1]
  show ?case
  proof (cases "res < 0")
    case False
    with Suc.prems 1 obtain res2 h2 where 2: "ghw_read_cycle_next h1 = Done (res2, h2)" by auto
    note le = le ghw_read_cycle_next_rest_len [OF 2]
    from Suc.prems 1 2 False
    have "h' = h2 \<or> ghw_read_cycle_end h2 = Done (r, h') \<or> read_cycle_loop fuel h2 = Done (r, h')"
      by (auto split: if_splits)
    with Suc.IH [of h2] ecy_sec.no_rewind [of h2 r h'] le show ?thesis by auto
  qed (use Suc.prems 1 le in simp)
qed simp

interpretation cyc_sec: section_reader ghw_read_cycle
  by unfold_locales
    (auto simp: ghw_read_cycle_def split: if_splits
      dest!: ghw_read_cycle_start_rest_len read_cycle_loop_rest_len simp del: read_cycle_loop.simps)

lemma dump_section_reads:
  assumes "dump_section hdr = Some rd"
  shows "section_reader rd" "stops (rd h)"
  using assms snp_sec.section_reader_axioms cyc_sec.section_reader_axioms
    dir_sec.section_reader_axioms tai_sec.section_reader_axioms
  by (auto simp: dump_section_def split: if_splits)

lemma read_dump_loop_stops: "rest_len h < fuel \<Longrightarrow> stops (read_dump_loop fuel h)"
proof (induction fuel arbitrary: h)
  case (Suc fuel)
  have "stops (read_dump_loop fuel h2)"
    if "h_fread 4 h = Done (Some hdr, h1)" "dump_section hdr = Some rd" "rd h1 = Done (res, h2)"
    for hdr h1 rd res h2
    using section_reader.section_progress [OF dump_section_reads(1) [OF that(2)] that(1) _ that(3)]
      Suc.prems by (intro Suc.IH) simp
  then show ?case by (auto intro!: stops_rules) (blast dest: dump_section_reads(2))
qed simp

section \<open>The dump of the writer\<close>

text \<open>
  The sections behind the header, as \<open>Write_Snapshot\<close>, \<open>Wave_Cycle\<close>, \<open>Wave_Close_Cyc\<close> and
  \<open>Wave_Write_Directory\<close> write them. A cycle is its time and the new values of the signals of the
  dump table; all the cycles are in one section, with the differences of their times.
\<close>

definition write_snapshot :: "bool \<Rightarrow> u64 \<Rightarrow> ghw_val list \<Rightarrow> byte list" where
  "write_snapshot be time vals = bytes0_of ''SNP'' @ write_snapshot_body be time vals"

definition wave_close_cyc :: "byte list" where
  "wave_close_cyc = wave_put_lsleb128 (-1) @ bytes0_of ''ECY''"

fun wave_cycles :: "bool \<Rightarrow> u64 \<Rightarrow> (u64 \<times> ghw_val option list) list \<Rightarrow> byte list" where
  "wave_cycles be wave_time [] = wave_close_cyc"
| "wave_cycles be wave_time ((time, cs) # cycles) =
     wave_put_lsleb128 (time - wave_time) @ write_changes be 0 cs @ wave_cycles be time cycles"

definition write_cycles :: "bool \<Rightarrow> (u64 \<times> ghw_val option list) list \<Rightarrow> byte list" where
  "write_cycles be cycles = (case cycles of
     [] \<Rightarrow> []
   | (time, cs) # cycles \<Rightarrow>
       bytes0_of ''CYC'' @ wave_put_i64 be time @ write_changes be 0 cs @ wave_cycles be time cycles)"

definition wave_write_directory :: "bool \<Rightarrow> u32 \<Rightarrow> (byte list \<times> u32) list \<Rightarrow> byte list" where
  "wave_write_directory be pos entries =
     bytes0_of ''DIR'' @ wave_write_size_order be @ wave_put_i32 be (word_of_nat (length entries)) @
     concat (map (\<lambda>(name, pos). name @ wave_put_i32 be pos) entries) @ bytes0_of ''EOD'' @
     bytes0_of ''TAI'' @ wave_write_size_order be @ wave_put_i32 be pos"

section \<open>Reading the dump back\<close>

text \<open>The fuel of the state machine does not matter, as long as it is more than what is left to read.\<close>

lemma read_sm_loop_fuel:
  "rest_len h < f1 \<Longrightarrow> rest_len h < f2 \<Longrightarrow> read_sm_loop f1 sm h = read_sm_loop f2 sm h"
proof (induction f1 arbitrary: f2 sm h)
  case (Suc f1)
  then obtain f where f2: "f2 = Suc f" by (cases f2) auto
  show ?case
  proof (cases "sm_round sm h")
    case (Done x)
    obtain r sm' h' where x: "x = ((r, sm'), h')" by (metis surj_pair)
    show ?thesis
    proof (cases r)
      case (Inr u)
      with Done x have "rest_len h' < rest_len h" by (intro sm_round_progress) auto
      with Suc.prems f2 have "read_sm_loop f1 sm' h' = read_sm_loop f sm' h'" by (intro Suc.IH) auto
      with Done x Inr f2 show ?thesis by simp
    qed (use Done x f2 in simp)
  qed (simp add: f2)
qed simp

lemma ghw_read_sm_unroll:
  "ghw_read_sm sm h = rbind (sm_round sm h) (\<lambda>((r, sm), h). case r of
     Inl res \<Rightarrow> Done ((res, sm), h) | Inr _ \<Rightarrow> ghw_read_sm sm h)"
proof (cases "sm_round sm h")
  case (Done x)
  obtain r sm' h' where x: "x = ((r, sm'), h')" by (metis surj_pair)
  show ?thesis
  proof (cases r)
    case (Inr u)
    with Done x have "rest_len h' < rest_len h" by (intro sm_round_progress) auto
    then have "read_sm_loop (rest_len h) sm' h' = read_sm_loop (Suc (rest_len h')) sm' h'"
      by (intro read_sm_loop_fuel) simp_all
    with Done x Inr show ?thesis by (simp add: ghw_read_sm_def del: read_sm_loop.simps(2)) simp
  qed (use Done x in \<open>simp add: ghw_read_sm_def\<close>)
qed (simp add: ghw_read_sm_def)

lemma read_sm_returns: "sm_round sm h = Done ((Inl res, sm'), h') \<Longrightarrow> ghw_read_sm sm h = Done ((res, sm'), h')"
  by (subst ghw_read_sm_unroll) simp

lemma read_sm_goes_on: "sm_round sm h = Done ((Inr u, sm'), h') \<Longrightarrow> ghw_read_sm sm h = ghw_read_sm sm' h'"
  by (subst ghw_read_sm_unroll) simp

lemma names_differ:
  "bytes0_of ''CYC'' \<noteq> bytes0_of ''SNP''" "bytes0_of ''DIR'' \<noteq> bytes0_of ''SNP''"
  "bytes0_of ''DIR'' \<noteq> bytes0_of ''CYC''" "bytes0_of ''TAI'' \<noteq> bytes0_of ''SNP''"
  "bytes0_of ''TAI'' \<noteq> bytes0_of ''CYC''" "bytes0_of ''TAI'' \<noteq> bytes0_of ''DIR''"
  by (simp_all add: bytes0_of_def bytes_of_def of_char_def)

text \<open>
  The table of signals as the hierarchy section leaves it: number 0 is not used, and \<open>nbr_sigs\<close> is
  its length.
\<close>

definition sigs_ready :: "ghw_handler \<Rightarrow> ghw_sig \<Rightarrow> ghw_sig list \<Rightarrow> bool" where
  "sigs_ready h s0 ss \<longleftrightarrow> sigs h = Some (s0 # ss) \<and> sig_type s0 = None \<and>
     unat (nbr_sigs h) = Suc (length ss) \<and> Suc (length ss) < 2 ^ 31"

lemma changes_fit_0 [simp]: "sig_type s0 = None \<Longrightarrow> changes_fit be (s0 # ss) cs \<longleftrightarrow> changes_fit be ss cs"
  by (simp add: changes_fit_def typed_def)

lemma sm_snapshot:
  assumes "sm \<noteq> ghw_sm_cycle" "sigs_ready h s0 ss" "changes_fit (word_be h) ss (map Some vals)"
    "rest_of h = Some (write_snapshot (word_be h) time vals @ bs)" "\<not> bit time 31"
  shows "ghw_read_sm sm h = Done ((1, ghw_sm_sect), set_rest bs (h\<lparr>snap_time := time,
    sigs := Some (s0 # upd_vals ss (map Some vals))\<rparr>))"
proof -
  let ?h = "set_rest (write_snapshot_body (word_be h) time vals @ bs) h"
  have "h_fread 4 h = Done (Some (bytes0_of ''SNP''), ?h)"
    using assms(4) by (intro h_fread_append) (simp_all add: write_snapshot_def)
  moreover have "ghw_get_i64 ?h (wave_put_i64 (word_be ?h) time) = time"
    using assms(5) by (simp only: ghw_get_i64_put or_sign_extended if_False)
  then have "ghw_read_snapshot ?h = Done (0, set_rest bs (?h\<lparr>snap_time := time,
    sigs := Some (upd_vals (s0 # ss) (map Some vals))\<rparr>))"
    using assms(2-4) read_snapshot_put [of ?h "s0 # ss" vals time bs] by (simp add: sigs_ready_def)
  ultimately show ?thesis
    using assms(1,2) by (intro read_sm_returns)
      (cases sm; simp add: sm_round_def ghw_read_sm_hdr_def res_num_def sigs_ready_def)
qed

lemma sm_cycle_start:
  assumes "sm \<noteq> ghw_sm_cycle" "sigs_ready h s0 ss" "changes_fit (word_be h) ss cs"
    "rest_of h = Some (bytes0_of ''CYC'' @ wave_put_i64 (word_be h) time @ write_changes (word_be h) 0 cs @ bs)"
    "\<not> bit time 31"
  shows "ghw_read_sm sm h = Done ((2, ghw_sm_cycle), set_rest bs (h\<lparr>snap_time := time,
    sigs := Some (s0 # upd_vals ss cs)\<rparr>))"
proof -
  let ?h = "set_rest (wave_put_i64 (word_be h) time @ write_changes (word_be h) 0 cs @ bs) h"
  let ?h1 = "set_rest (write_changes (word_be h) 0 cs @ bs) (h\<lparr>snap_time := time\<rparr>)"
  have "h_fread 4 h = Done (Some (bytes0_of ''CYC''), ?h)"
    using assms(4) by (intro h_fread_append) simp_all
  moreover have "ghw_get_i64 (set_rest bs h) (wave_put_i64 (word_be h) time) = time" for bs
    using assms(5) ghw_get_i64_put [of "set_rest bs h" time] or_sign_extended [of time] by simp
  moreover have "h_fread 8 ?h = Done (Some (wave_put_i64 (word_be h) time), set_rest (write_changes (word_be h) 0 cs @ bs) h)"
    using assms(4) by (subst h_fread_append) auto
  ultimately have "ghw_read_sm_hdr h = rbind (ghw_read_cycle_cont ?h1) (\<lambda>((res, _), h).
      Done (if res < 0 then res else res_num ghw_res_cycle, h))"
    by (simp add: ghw_read_sm_hdr_def names_differ ghw_read_cycle_start_def)
  moreover obtain list where "ghw_read_cycle_cont ?h1 =
      Done ((0, list), set_rest bs (?h1\<lparr>sigs := Some (s0 # upd_vals ss cs)\<rparr>))"
    using read_cycle_put [of ?h1 s0 ss cs bs] assms(2-4) by (auto simp: sigs_ready_def)
  ultimately show ?thesis
    using assms(1) by (intro read_sm_returns) (cases sm; simp add: sm_round_def res_num_def)
qed

lemma sm_cycle_next:
  assumes "sigs_ready h s0 ss" "changes_fit (word_be h) ss cs" "d \<noteq> -1" "add_i64 (snap_time h) d = Done time"
    "rest_of h = Some (wave_put_lsleb128 d @ write_changes (word_be h) 0 cs @ bs)"
  shows "ghw_read_sm ghw_sm_cycle h = Done ((2, ghw_sm_cycle), set_rest bs (h\<lparr>snap_time := time,
    sigs := Some (s0 # upd_vals ss cs)\<rparr>))"
proof -
  let ?h1 = "set_rest (write_changes (word_be h) 0 cs @ bs) (h\<lparr>snap_time := time\<rparr>)"
  have "ghw_read_cycle_next h = Done (1, ?h1)"
    using lsleb.rd_put [OF assms(5)] assms(3,4) by (simp add: ghw_read_cycle_next_def)
  moreover obtain list where "ghw_read_cycle_cont ?h1 =
      Done ((0, list), set_rest bs (?h1\<lparr>sigs := Some (s0 # upd_vals ss cs)\<rparr>))"
    using read_cycle_put [of ?h1 s0 ss cs bs] assms(1,2,5) by (auto simp: sigs_ready_def)
  ultimately show ?thesis
    by (intro read_sm_returns) (simp add: sm_round_def res_num_def)
qed

lemma sm_cycle_close:
  assumes "rest_of h = Some (wave_close_cyc @ bs)"
  shows "ghw_read_sm ghw_sm_cycle h = ghw_read_sm ghw_sm_sect (set_rest bs h)"
proof -
  have "rest_of h = Some (wave_put_lsleb128 (-1) @ bytes0_of ''ECY'' @ bs)"
    using assms by (simp add: wave_close_cyc_def)
  from lsleb.rd_put [OF this] have "ghw_read_cycle_next h = Done (0, set_rest (bytes0_of ''ECY'' @ bs) h)"
    by (simp add: ghw_read_cycle_next_def)
  moreover have "h_fread 4 (set_rest (bytes0_of ''ECY'' @ bs) h) = Done (Some (bytes0_of ''ECY''), set_rest bs h)"
    using assms by (subst h_fread_append) auto
  ultimately show ?thesis
    by (intro read_sm_goes_on [where u = "()"]) (simp add: sm_round_def ghw_read_cycle_end_def)
qed

text \<open>An input that ends with the end of the file, and not with an error.\<close>

definition intact :: "ghw_handler \<Rightarrow> bool" where
  "intact h \<longleftrightarrow> (\<exists>f. stream h = Some f \<and> \<not> st_broken f)"

lemma intact_simps [simp]:
  "intact (set_rest bs h) = intact h" "intact (h\<lparr>snap_time := t\<rparr>) = intact h"
  "intact (h\<lparr>sigs := ss\<rparr>) = intact h"
  by (cases "stream h"; simp add: intact_def set_rest_def)+

lemma read_directory_loop_put:
  assumes "rest_of h = Some (concat (map (\<lambda>(name, pos). name @ wave_put_i32 be pos) entries) @ bs)"
    "\<forall>(name, pos)\<in>set entries. length name = 4"
  shows "read_directory_loop (length entries) h = Done (0, set_rest bs h)"
  using assms
proof (induction entries arbitrary: h)
  case (Cons e entries)
  obtain name pos where e: "e = (name, pos)" by (cases e)
  let ?h = "set_rest (concat (map (\<lambda>(name, pos). name @ wave_put_i32 be pos) entries) @ bs) h"
  have "h_fread 8 h = Done (Some (name @ wave_put_i32 be pos), ?h)"
    using Cons.prems e by (intro h_fread_append) simp_all
  moreover have "read_directory_loop (length entries) ?h = Done (0, set_rest bs ?h)"
    using Cons.prems by (intro Cons.IH) auto
  ultimately show ?case by simp
qed (simp add: set_rest_same)

lemma sint_word_of_nat32: "n < 2 ^ 31 \<Longrightarrow> sint (word_of_nat n :: u32) = int n"
  by (simp add: signed_of_nat signed_take_bit_int_eq_self)

lemma length_size_order [simp]: "length (wave_write_size_order be) = 4"
  by (simp add: wave_write_size_order_def)

lemma read_directory_put:
  assumes "rest_of h = Some (wave_write_size_order (word_be h) @
      wave_put_i32 (word_be h) (word_of_nat (length entries)) @
      concat (map (\<lambda>(name, pos). name @ wave_put_i32 (word_be h) pos) entries) @ bytes0_of ''EOD'' @ bs)"
    "\<forall>(name, pos)\<in>set entries. length name = 4" "length entries < 2 ^ 31"
  shows "ghw_read_directory h = Done (0, set_rest bs h)"
proof -
  let ?n = "wave_put_i32 (word_be h) (word_of_nat (length entries))"
  let ?ents = "concat (map (\<lambda>(name, pos). name @ wave_put_i32 (word_be h) pos) entries)"
  let ?h = "set_rest (?ents @ bytes0_of ''EOD'' @ bs) h"
  have "h_fread 8 h = Done (Some (wave_write_size_order (word_be h) @ ?n), ?h)"
    using assms(1) by (intro h_fread_append) simp_all
  moreover have "drop 4 (wave_write_size_order (word_be h) @ ?n) = ?n" by simp
  moreover have "read_directory_loop (length entries) ?h = Done (0, set_rest (bytes0_of ''EOD'' @ bs) ?h)"
    using assms(1,2) by (intro read_directory_loop_put) auto
  moreover have "h_fread 4 (set_rest (bytes0_of ''EOD'' @ bs) h) = Done (Some (bytes0_of ''EOD''), set_rest bs h)"
    using assms(1) by (subst h_fread_append) auto
  ultimately show ?thesis
    using sint_word_of_nat32 [OF assms(3)] by (simp add: ghw_read_directory_def Let_def)
qed

lemma read_sm_other:
  assumes "sm \<noteq> ghw_sm_cycle" "ghw_read_sm_hdr h = Done (3, h')"
  shows "ghw_read_sm sm h = ghw_read_sm sm h'"
  using assms by (intro read_sm_goes_on [where u = "()"]) (cases sm; simp add: sm_round_def res_num_def)

lemma sm_directory:
  assumes "sm \<noteq> ghw_sm_cycle" "rest_of h = Some (wave_write_directory (word_be h) pos entries)"
    "\<forall>(name, pos)\<in>set entries. length name = 4" "length entries < 2 ^ 31" "intact h"
  shows "ghw_read_sm sm h = Done ((-2, sm), input_end h)"
proof -
  let ?be = "word_be h"
  let ?tai = "wave_write_size_order ?be @ wave_put_i32 ?be pos"
  let ?dir = "wave_write_size_order ?be @ wave_put_i32 ?be (word_of_nat (length entries)) @
      concat (map (\<lambda>(name, pos). name @ wave_put_i32 ?be pos) entries) @ bytes0_of ''EOD'' @
      bytes0_of ''TAI'' @ ?tai"
  let ?h1 = "set_rest (bytes0_of ''TAI'' @ ?tai) h"
  have "h_fread 4 h = Done (Some (bytes0_of ''DIR''), set_rest ?dir h)"
    using assms(2) by (intro h_fread_append) (simp_all add: wave_write_directory_def)
  moreover have "ghw_read_directory (set_rest ?dir h) = Done (0, set_rest (bytes0_of ''TAI'' @ ?tai) (set_rest ?dir h))"
    using assms(2-4) by (intro read_directory_put) auto
  ultimately have 1: "ghw_read_sm_hdr h = Done (3, ?h1)"
    by (simp add: ghw_read_sm_hdr_def names_differ res_num_def)
  have "h_fread 4 ?h1 = Done (Some (bytes0_of ''TAI''), set_rest ?tai h)"
    using assms(2) by (subst h_fread_append [of _ "bytes0_of ''TAI''" ?tai]) auto
  moreover have "h_fread 8 (set_rest ?tai h) = Done (Some ?tai, set_rest [] h)"
    using assms(2) by (subst h_fread_append [of _ ?tai "[]"]) auto
  ultimately have 2: "ghw_read_sm_hdr ?h1 = Done (3, set_rest [] h)"
    by (simp add: ghw_read_sm_hdr_def names_differ res_num_def ghw_read_tailer_def)
  have "h_fread 4 (set_rest [] h) = Done (None, input_end h)"
    using assms(2) by (subst h_fread_short) auto
  moreover have "h_feof (input_end h) = Done True"
    using assms(5) by (auto simp: h_feof_def intact_def input_end_def feof_def)
  ultimately have "ghw_read_sm_hdr (set_rest [] h) = Done (-2, input_end h)"
    by (simp add: ghw_read_sm_hdr_def res_num_def)
  then have 3: "ghw_read_sm sm (set_rest [] h) = Done ((-2, sm), input_end h)"
    using assms(1) by (intro read_sm_returns) (cases sm; simp add: sm_round_def res_num_def)
  show ?thesis
    using read_sm_other [OF assms(1) 1] read_sm_other [OF assms(1) 2] 3 by simp
qed

text \<open>
  What a program sees that calls \<open>ghw_read_sm\<close> until it reports neither a snapshot nor a cycle: the
  results with the time and the table of signals after each call, and the result that ended the loop.
\<close>

fun sm_trace ::
  "nat \<Rightarrow> ghw_sm_type \<Rightarrow> ghw_handler \<Rightarrow> ((int \<times> u64 \<times> ghw_sig list option) list \<times> int) run" where
  "sm_trace 0 sm h = Crash No_return"
| "sm_trace (Suc n) sm h = rbind (ghw_read_sm sm h) (\<lambda>((res, sm), h).
     if res = res_num ghw_res_snapshot \<or> res = res_num ghw_res_cycle
     then rbind (sm_trace n sm h) (\<lambda>(tr, res'). Done ((res, snap_time h, sigs h) # tr, res'))
     else Done ([], res))"

fun cycle_states :: "ghw_sig \<Rightarrow> ghw_sig list \<Rightarrow> (u64 \<times> ghw_val option list) list
    \<Rightarrow> (int \<times> u64 \<times> ghw_sig list option) list" where
  "cycle_states s0 ss [] = []"
| "cycle_states s0 ss ((time, cs) # cycles) =
     (2, time, Some (s0 # upd_vals ss cs)) # cycle_states s0 (upd_vals ss cs) cycles"

text \<open>The simulation time does not go back.\<close>

fun times_ok :: "u64 \<Rightarrow> (u64 \<times> 'a) list \<Rightarrow> bool" where
  "times_ok t [] \<longleftrightarrow> True"
| "times_ok t ((t', cs) # cycles) \<longleftrightarrow> 0 \<le> sint t \<and> sint t \<le> sint t' \<and> times_ok t' cycles"

lemma changes_fit_upd:
  "changes_fit be ss cs' \<Longrightarrow> changes_fit be ss cs \<Longrightarrow> changes_fit be (upd_vals ss cs') cs"
proof (induction ss cs' arbitrary: cs rule: upd_vals.induct)
  case (2 s ss cs')
  then show ?case
    by (cases "sig_type s"; cases cs'; cases cs)
      (auto simp: changes_fit_def typed_def sig_fits_def split: option.splits)
qed simp

lemma time_diff:
  fixes t t' :: u64
  assumes "0 \<le> sint t" "sint t \<le> sint t'"
  shows "add_i64 t (t' - t) = Done t'" "t' - t \<noteq> -1"
proof -
  have "sint t' < 2 ^ 63" using sint_less [of t'] by simp
  have "0 \<le> z \<Longrightarrow> z < 2 ^ 63 \<Longrightarrow> sint (word_of_int z :: u64) = z" for z
    by (simp add: signed_of_int signed_take_bit_int_eq_self)
  from this [of "sint t' - sint t"] assms \<open>sint t' < 2 ^ 63\<close>
  have *: "sint (t' - t) = sint t' - sint t" by simp
  with \<open>sint t' < 2 ^ 63\<close> assms show "add_i64 t (t' - t) = Done t'" by (simp add: add_i64_def)
  show "t' - t \<noteq> -1"
  proof
    assume "t' - t = -1"
    with * have "sint t' - sint t = -1" by simp
    with assms show False by simp
  qed
qed

lemma sm_trace_cycles:
  assumes "sigs_ready h s0 ss" "\<forall>(t, cs)\<in>set cycles. changes_fit (word_be h) ss cs" "times_ok (snap_time h) cycles"
    "rest_of h = Some (wave_cycles (word_be h) (snap_time h) cycles @ wave_write_directory (word_be h) pos entries)"
    "\<forall>(name, pos)\<in>set entries. length name = 4" "length entries < 2 ^ 31" "intact h"
  shows "sm_trace (Suc (length cycles)) ghw_sm_cycle h = Done (cycle_states s0 ss cycles, -2)"
  using assms(1-4,7)
proof (induction cycles arbitrary: h ss)
  case Nil
  then have "ghw_read_sm ghw_sm_cycle h =
      ghw_read_sm ghw_sm_sect (set_rest (wave_write_directory (word_be h) pos entries) h)"
    by (intro sm_cycle_close) simp
  also have "\<dots> = Done ((-2, ghw_sm_sect), input_end h)"
    using Nil assms(5,6) by (subst sm_directory [of _ _ pos entries]) auto
  finally show ?case by (simp add: res_num_def)
next
  case (Cons c cycles)
  obtain t cs where c: "c = (t, cs)" by (cases c)
  let ?bs = "wave_cycles (word_be h) t cycles @ wave_write_directory (word_be h) pos entries"
  let ?h = "set_rest ?bs (h\<lparr>snap_time := t, sigs := Some (s0 # upd_vals ss cs)\<rparr>)"
  have d: "add_i64 (snap_time h) (t - snap_time h) = Done t" "t - snap_time h \<noteq> -1"
    using Cons.prems(3) c time_diff [of "snap_time h" t] by simp_all
  have "ghw_read_sm ghw_sm_cycle h = Done ((2, ghw_sm_cycle), ?h)"
    using Cons.prems c by (intro sm_cycle_next [OF _ _ d(2,1)]) simp_all
  moreover have "sm_trace (Suc (length cycles)) ghw_sm_cycle ?h =
      Done (cycle_states s0 (upd_vals ss cs) cycles, -2)"
    using Cons.prems c
    by (intro Cons.IH) (auto simp: sigs_ready_def changes_fit_upd)
  ultimately show ?case using c by (simp add: res_num_def del: sm_trace.simps) (simp add: res_num_def)
qed

lemma sm_trace_dump:
  assumes "sigs_ready h s0 ss" "changes_fit (word_be h) ss (map Some vals)" "\<not> bit t0 31"
    "\<forall>(t, cs)\<in>set cycles. changes_fit (word_be h) ss cs"
    "cycles = [] \<or> \<not> bit (fst (hd cycles)) 31 \<and> times_ok (fst (hd cycles)) (tl cycles)"
    "rest_of h = Some (write_snapshot (word_be h) t0 vals @ write_cycles (word_be h) cycles @
      wave_write_directory (word_be h) pos entries)"
    "\<forall>(name, pos)\<in>set entries. length name = 4" "length entries < 2 ^ 31" "intact h"
  shows "sm_trace (length cycles + 2) ghw_sm_init h =
    Done ((1, t0, Some (s0 # upd_vals ss (map Some vals))) #
      cycle_states s0 (upd_vals ss (map Some vals)) cycles, -2)"
proof -
  let ?ss = "upd_vals ss (map Some vals)"
  let ?dir = "wave_write_directory (word_be h) pos entries"
  let ?h = "set_rest (write_cycles (word_be h) cycles @ ?dir) (h\<lparr>snap_time := t0, sigs := Some (s0 # ?ss)\<rparr>)"
  have 1: "ghw_read_sm ghw_sm_init h = Done ((1, ghw_sm_sect), ?h)"
    using assms by (intro sm_snapshot) simp_all
  have "sm_trace (Suc (length cycles)) ghw_sm_sect ?h = Done (cycle_states s0 ?ss cycles, -2)"
  proof (cases cycles)
    case Nil
    then have "ghw_read_sm ghw_sm_sect ?h = Done ((-2, ghw_sm_sect), input_end ?h)"
      using assms by (intro sm_directory [of _ _ pos entries]) (auto simp: write_cycles_def)
    then show ?thesis using Nil by (simp add: res_num_def)
  next
    case (Cons c cycles')
    obtain t cs where c: "c = (t, cs)" by (cases c)
    let ?h' = "set_rest (wave_cycles (word_be h) t cycles' @ ?dir) (?h\<lparr>snap_time := t, sigs := Some (s0 # upd_vals ?ss cs)\<rparr>)"
    have "ghw_read_sm ghw_sm_sect ?h = Done ((2, ghw_sm_cycle), ?h')"
      using assms Cons c
      by (intro sm_cycle_start) (auto simp: sigs_ready_def changes_fit_upd write_cycles_def)
    moreover have "sm_trace (Suc (length cycles')) ghw_sm_cycle ?h' =
        Done (cycle_states s0 (upd_vals ?ss cs) cycles', -2)"
      using assms Cons c
      by (intro sm_trace_cycles [of _ _ _ _ pos entries]) (auto simp: sigs_ready_def changes_fit_upd)
    ultimately show ?thesis using Cons c by (simp add: res_num_def del: sm_trace.simps) (simp add: res_num_def)
  qed
  with 1 show ?thesis by (simp add: res_num_def del: sm_trace.simps) (simp add: res_num_def)
qed

section \<open>The state machine keeps the values well typed\<close>

lemma ghw_read_directory_ok: "ghw_read_directory h = Done (r, h') \<Longrightarrow> sigs h' = sigs h"
proof -
  have *: "read_directory_loop n h = Done (r, h') \<Longrightarrow> sigs h' = sigs h" for n h r h'
    by (induction n arbitrary: h) (auto split: option.splits dest!: sigs_fread)
  show "ghw_read_directory h = Done (r, h') \<Longrightarrow> sigs h' = sigs h"
    by (auto simp: ghw_read_directory_def Let_def split: option.splits if_splits dest!: sigs_fread *)
qed

lemma ghw_read_tailer_ok: "ghw_read_tailer h = Done (r, h') \<Longrightarrow> sigs h' = sigs h"
  by (auto simp: ghw_read_tailer_def split: option.splits dest!: sigs_fread)

lemma ghw_read_sm_hdr_ok: "ghw_read_sm_hdr h = Done (r, h') \<Longrightarrow> sigs_ok ts h \<Longrightarrow> sigs_ok ts h'"
  by (auto simp: ghw_read_sm_hdr_def split: option.splits if_splits
    dest!: sigs_fread ghw_read_directory_ok ghw_read_tailer_ok ghw_read_cycle_start_ok
      ghw_read_snapshot_ok ghw_read_cycle_cont_ok)

lemma sm_round_ok: "sm_round sm h = Done (r, h') \<Longrightarrow> sigs_ok ts h \<Longrightarrow> sigs_ok ts h'"
  by (cases sm) (auto simp: sm_round_def split: if_splits
    dest!: ghw_read_sm_hdr_ok ghw_read_cycle_next_ok ghw_read_cycle_end_ok ghw_read_cycle_cont_ok)

lemma ghw_read_sm_ok: "ghw_read_sm sm h = Done (r, h') \<Longrightarrow> sigs_ok ts h \<Longrightarrow> sigs_ok ts h'"
proof -
  have "read_sm_loop fuel sm h = Done (r, h') \<Longrightarrow> sigs_ok ts h \<Longrightarrow> sigs_ok ts h'" for fuel
    by (induction fuel arbitrary: sm h) (auto split: sum.splits dest!: sm_round_ok)
  then show "ghw_read_sm sm h = Done (r, h') \<Longrightarrow> sigs_ok ts h \<Longrightarrow> sigs_ok ts h'"
    unfolding ghw_read_sm_def by blast
qed

section \<open>Results of the state machine\<close>

lemma dir_results: "ghw_read_directory h = Done (res, h') \<Longrightarrow> res \<in> {0, -1}"
  by (auto simp: ghw_read_directory_def Let_def split: option.splits if_splits)

lemma tai_results: "ghw_read_tailer h = Done (res, h') \<Longrightarrow> res \<in> {0, -1}"
  by (auto simp: ghw_read_tailer_def split: option.splits)

lemma sm_hdr_results: "ghw_read_sm_hdr h = Done (res, h') \<Longrightarrow> res < 0 \<or> res \<in> {1, 2, 3}"
  by (auto simp: ghw_read_sm_hdr_def res_num_def split: option.splits if_splits
    dest!: dir_results tai_results)

lemma sm_round_results:
  "sm_round sm h = Done ((Inl res, sm'), h') \<Longrightarrow>
   res < 0 \<or> res = 1 \<and> sm' = ghw_sm_sect \<or> res = 2 \<and> sm' = ghw_sm_cycle"
  by (cases sm) (auto simp: sm_round_def res_num_def split: if_splits dest!: sm_hdr_results)

lemma ghw_read_sm_result:
  "ghw_read_sm sm h = Done ((res, sm'), h') \<Longrightarrow> rest_len h' \<le> rest_len h \<and>
   (res < 0 \<or> rest_len h' < rest_len h \<and>
     (res = res_num ghw_res_snapshot \<and> sm' = ghw_sm_sect \<or> res = res_num ghw_res_cycle \<and> sm' = ghw_sm_cycle))"
proof -
  have "read_sm_loop fuel sm h = Done ((res, sm'), h') \<Longrightarrow> rest_len h' \<le> rest_len h \<and>
     (res < 0 \<or> rest_len h' < rest_len h \<and> (res = 1 \<and> sm' = ghw_sm_sect \<or> res = 2 \<and> sm' = ghw_sm_cycle))"
    for fuel
  proof (induction fuel arbitrary: sm h)
    case (Suc fuel)
    then obtain r sm1 h1 where 1: "sm_round sm h = Done ((r, sm1), h1)" by auto
    note le = sm_round_rest_len [OF 1]
    show ?case
    proof (cases r)
      case (Inl x)
      with Suc.prems 1 have "x = res" "sm1 = sm'" "h1 = h'" by auto
      with sm_round_results [OF 1 [unfolded Inl]] sm_round_progress [OF 1] Inl le show ?thesis by force
    next
      case (Inr u)
      with Suc.prems 1 have "read_sm_loop fuel sm1 h1 = Done ((res, sm'), h')" by simp
      from Suc.IH [OF this] le show ?thesis by auto
    qed
  qed simp
  then show "ghw_read_sm sm h = Done ((res, sm'), h') \<Longrightarrow> ?thesis"
    by (simp add: ghw_read_sm_def res_num_def del: read_sm_loop.simps)
qed

section \<open>Properties\<close>

text \<open>
  C2: A dump is read back: for a file whose rest are the snapshot, the cycles, the directory and the
  tailer that the writer makes of some values and of their changes over time, the calls of
  \<open>ghw_read_sm\<close> report the snapshot and then every cycle, each with its simulation time and with the
  table of signals holding the values of that time, and then the end of the file. The time of the
  snapshot and of the first cycle must not have bit 31 set, which \<open>ghw_get_i64\<close> does not read back. The
  file may be of either byte order, but one from a big-endian machine must not hold values of floating
  point types (\<open>order_kept\<close>): the reader takes their bytes in the order of its own machine, which is
  little-endian here (\<open>f64_of_other_order\<close>).
\<close>

theorem dump_roundtrip:
  assumes "sigs_ready h s0 ss" "changes_fit (word_be h) ss (map Some vals)" "\<not> bit t0 31"
    "\<forall>(t, cs)\<in>set cycles. changes_fit (word_be h) ss cs"
    "cycles = [] \<or> \<not> bit (fst (hd cycles)) 31 \<and> times_ok (fst (hd cycles)) (tl cycles)"
    "rest_of h = Some (write_snapshot (word_be h) t0 vals @ write_cycles (word_be h) cycles @
      wave_write_directory (word_be h) pos entries)"
    "\<forall>(name, pos)\<in>set entries. length name = 4" "length entries < 2 ^ 31" "intact h"
  shows "sm_trace (length cycles + 2) ghw_sm_init h =
    Done ((1, t0, Some (s0 # upd_vals ss (map Some vals))) #
      cycle_states s0 (upd_vals ss (map Some vals)) cycles, -2)"
  using assms by (rule sm_trace_dump)

text \<open>One signal of an enumeration type: 0 at time 0, 1 at time 10, and unchanged at time 25\<close>

definition bit_sig :: "ghw_val \<Rightarrow> ghw_sig" where
  "bit_sig v = \<lparr>sig_type = Some (Type_enum 0 ghdl_rtik_type_b2 Anon_str []), sig_val = Some v\<rparr>"

definition no_sig :: ghw_sig where
  "no_sig = \<lparr>sig_type = None, sig_val = None\<rparr>"

definition demo_cycles :: "(u64 \<times> ghw_val option list) list" where
  "demo_cycles = [(10, [Some (Val_b2 1)]), (25, [None])]"

definition demo_dump :: ghw_handler where
  "demo_dump = zero_handler\<lparr>word_be := False, nbr_sigs := 2, sigs := Some [no_sig, bit_sig Val_none],
     stream := Some (file_of (write_snapshot False 0 [Val_b2 0] @ write_cycles False demo_cycles @
       wave_write_directory False 99 [(bytes0_of ''SNP'', 42)]))\<rparr>"

theorem dump_roundtrip_witness:
  "sm_trace 4 ghw_sm_init demo_dump = Done (
     [(1, 0, Some [no_sig, bit_sig (Val_b2 0)]), (2, 10, Some [no_sig, bit_sig (Val_b2 1)]),
      (2, 25, Some [no_sig, bit_sig (Val_b2 1)])], -2)"
proof -
  have "sm_trace (length demo_cycles + 2) ghw_sm_init demo_dump =
    Done ((1, 0, Some (no_sig # upd_vals [bit_sig Val_none] (map Some [Val_b2 0]))) #
      cycle_states no_sig (upd_vals [bit_sig Val_none] (map Some [Val_b2 0])) demo_cycles, -2)"
  proof (rule dump_roundtrip)
    show "sigs_ready demo_dump no_sig [bit_sig Val_none]"
      by (simp add: sigs_ready_def demo_dump_def no_sig_def)
    show "changes_fit (word_be demo_dump) [bit_sig Val_none] (map Some [Val_b2 0])"
      "\<forall>(t, cs)\<in>set demo_cycles. changes_fit (word_be demo_dump) [bit_sig Val_none] cs"
      by (simp_all add: changes_fit_def typed_def bit_sig_def sig_fits_def order_kept_def demo_cycles_def demo_dump_def zero_handler_def)
    show "demo_cycles = [] \<or> \<not> bit (fst (hd demo_cycles)) 31 \<and> times_ok (fst (hd demo_cycles)) (tl demo_cycles)"
      by (simp add: demo_cycles_def)
    show "rest_of demo_dump = Some (write_snapshot (word_be demo_dump) 0 [Val_b2 0] @
      write_cycles (word_be demo_dump) demo_cycles @
      wave_write_directory (word_be demo_dump) 99 [(bytes0_of ''SNP'', 42)])"
      by (simp add: demo_dump_def zero_handler_def rest_of_def)
    show "intact demo_dump" by (simp add: intact_def demo_dump_def file_of_def)
  qed simp_all
  moreover have "length demo_cycles + 2 = 4" by (simp add: demo_cycles_def)
  moreover have "cycle_states no_sig (upd_vals [bit_sig Val_none] (map Some [Val_b2 0])) demo_cycles =
     [(2, 10, Some [no_sig, bit_sig (Val_b2 1)]), (2, 25, Some [no_sig, bit_sig (Val_b2 1)])]"
    "upd_vals [bit_sig Val_none] (map Some [Val_b2 0]) = [bit_sig (Val_b2 0)]"
    by (simp_all add: demo_cycles_def bit_sig_def)
  ultimately show ?thesis by metis
qed

text \<open>
  C6: Whatever the file holds, \<open>ghw_read_sm\<close> and \<open>ghw_read_dump\<close> never run into a loop without end; on a
  malformed file they may crash. A call of \<open>ghw_read_sm\<close> that does return never moves the stream back,
  and it either reports an error or the end of the file, or it has read something and reports a
  snapshot, behind which it expects a section, or a cycle, behind which it expects the rest of the
  cycle. So a loop of calls until an error or the end of the file ends.
\<close>

theorem ghw_read_sm_returns:
  "stops (ghw_read_sm sm h) \<and> stops (ghw_read_dump h) \<and>
   may_run (ghw_read_sm sm h) (\<lambda>((res, sm'), h'). rest_len h' \<le> rest_len h \<and>
     (res < 0 \<or> rest_len h' < rest_len h \<and>
       (res = res_num ghw_res_snapshot \<and> sm' = ghw_sm_sect \<or> res = res_num ghw_res_cycle \<and> sm' = ghw_sm_cycle)))"
proof (intro conjI)
  show "stops (ghw_read_sm sm h)" "stops (ghw_read_dump h)"
    unfolding ghw_read_sm_def ghw_read_dump_def
    by (intro read_sm_loop_stops read_dump_loop_stops; simp)+
  show "may_run (ghw_read_sm sm h) (\<lambda>((res, sm'), h'). rest_len h' \<le> rest_len h \<and>
     (res < 0 \<or> rest_len h' < rest_len h \<and>
       (res = res_num ghw_res_snapshot \<and> sm' = ghw_sm_sect \<or> res = res_num ghw_res_cycle \<and> sm' = ghw_sm_cycle)))"
    by (auto intro!: may_runI dest!: ghw_read_sm_result)
qed

text \<open>
  The states that a program reaches which calls \<open>ghw_read_sm\<close> as long as it reports a snapshot or a
  cycle, from the handler \<open>h0\<close> on.
\<close>

inductive sm_reach :: "ghw_handler \<Rightarrow> ghw_sm_type \<Rightarrow> ghw_handler \<Rightarrow> bool" for h0 where
  reach_start: "sm_reach h0 ghw_sm_init h0"
| reach_call: "sm_reach h0 sm h \<Longrightarrow> ghw_read_sm sm h = Done ((res, sm'), h') \<Longrightarrow> 0 \<le> res \<Longrightarrow> sm_reach h0 sm' h'"

inductive_cases reach_initE: "sm_reach h0 ghw_sm_init h"

lemma reach_init: "sm_reach h0 ghw_sm_init h \<Longrightarrow> h = h0"
  by (erule reach_initE) (auto dest!: ghw_read_sm_result)

text \<open>
  C7: In every state that is reached, the signals still have their types, each value that a signal
  holds is of the member of the union that the base type of the signal asks for, and the stream has
  not been moved back.
\<close>

theorem reachable_values_ok:
  assumes "sm_reach h0 sm h" "sigs_ok ts h0"
  shows "sigs_ok ts h \<and> rest_len h \<le> rest_len h0"
  using assms
proof (induction rule: sm_reach.induct)
  case (reach_call sm h res sm' h')
  with ghw_read_sm_ok ghw_read_sm_result [of sm h res sm' h'] show ?case by fastforce
qed simp

theorem reachable_values_ok_witness:
  "\<exists>sm h'. sm_reach demo_dump sm h' \<and> sigs_ok (Some [None, sig_type (bit_sig Val_none)]) h'"
proof -
  let ?h = demo_dump and ?ts = "Some [None, sig_type (bit_sig Val_none)]"
  let ?bs = "write_cycles False demo_cycles @ wave_write_directory False 99 [(bytes0_of ''SNP'', 42)]"
  have "ghw_read_sm ghw_sm_init ?h = Done ((1, ghw_sm_sect), set_rest ?bs (?h\<lparr>snap_time := 0,
      sigs := Some (no_sig # upd_vals [bit_sig Val_none] (map Some [Val_b2 0]))\<rparr>))"
    by (rule sm_snapshot) (simp_all add: sigs_ready_def demo_dump_def no_sig_def changes_fit_def typed_def order_kept_def
      bit_sig_def sig_fits_def rest_of_def)
  from reach_call [OF reach_start this] obtain h' where r: "sm_reach ?h ghw_sm_sect h'" by auto
  moreover have "sigs_ok ?ts ?h"
    by (simp add: sigs_typed_def demo_dump_def value_ok_def no_sig_def bit_sig_def)
  ultimately have "sigs_ok ?ts h'" using reachable_values_ok by blast
  with r show ?thesis by blast
qed

end
