(* ===== verification/Ghw_Display.thy ===== *)
theory Ghw_Display
  imports Ghw_Sections
begin

text \<open>
  The functions of \<open>ghwlib.c\<close> that print values, ranges, types, signals and the hierarchy. The
  output of a function is the string it prints; \<open>fmt_g\<close> stands for the conversion \<open>%g\<close> of the C
  library, on the 64 bits of a \<open>double\<close>.
\<close>

section \<open>Printing strings and values\<close>

definition c_text :: "c_str \<Rightarrow> string run" where
  "c_text s = (case s of
     Null_str \<Rightarrow> Crash Null_pointer | Anon_str \<Rightarrow> Done anon_text | C_str bs \<Rightarrow> Done (string_of bs))"

definition dec_word :: "'a::len word \<Rightarrow> string" where
  "dec_word w = dec_nat (unat w)"

definition dec_sint :: "'a::len word \<Rightarrow> string" where
  "dec_sint w = dec_int (sint w)"

text \<open>\<open>out a b\<close>: print the string \<open>a\<close> and go on with \<open>b\<close>.\<close>

definition out :: "string \<Rightarrow> string run \<Rightarrow> string run" where
  "out s m = rbind m (\<lambda>t. Done (s @ t))"

definition outs :: "string run \<Rightarrow> string run \<Rightarrow> string run" where
  "outs m n = rbind m (\<lambda>s. out s n)"

text \<open>Reading a member of \<open>union ghw_val\<close>, whose members start at the same address.\<close>

fun val_byte :: "ghw_val \<Rightarrow> byte run" where
  "val_byte Val_none = Crash Uninitialised"
| "val_byte (Val_b2 b) = Done b"
| "val_byte (Val_e8 b) = Done b"
| "val_byte (Val_i32 w) = Done (ucast w)"
| "val_byte (Val_i64 w) = Done (ucast w)"
| "val_byte (Val_f64 w) = Done (ucast w)"

fun val_i32 :: "ghw_val \<Rightarrow> u32 run" where
  "val_i32 (Val_i32 w) = Done w"
| "val_i32 (Val_i64 w) = Done (ucast w)"
| "val_i32 (Val_f64 w) = Done (ucast w)"
| "val_i32 _ = Crash Uninitialised"

fun val_i64 :: "ghw_val \<Rightarrow> u64 run" where
  "val_i64 (Val_i64 w) = Done w"
| "val_i64 (Val_f64 w) = Done w"
| "val_i64 _ = Crash Uninitialised"

text \<open>The literal number \<open>e\<close>; the text \<open>??\<close> stands in the program, not in the table.\<close>

definition ghw_get_lit :: "ghw_type option \<Rightarrow> nat \<Rightarrow> c_str run" where
  "ghw_get_lit type e = rbind (deref type) (\<lambda>t. case t of
     Type_enum _ _ _ lits \<Rightarrow> Done (if length lits \<le> e then C_str (bytes_of ''??'') else lits ! e)
   | _ \<Rightarrow> Crash Wrong_member)"

definition ghw_disp_lit :: "ghw_type option \<Rightarrow> nat \<Rightarrow> string run" where
  "ghw_disp_lit type e = rbind (ghw_get_lit type e) (\<lambda>lit.
     rbind (c_text lit) (\<lambda>s. Done (s @ '' ('' @ dec_nat e @ '')'')))"

definition ghw_disp_value ::
  "(u64 \<Rightarrow> string) \<Rightarrow> ghw_val option \<Rightarrow> ghw_type option \<Rightarrow> string run" where
  "ghw_disp_value fmt_g val type = rbind (ghw_get_base_type type) (\<lambda>base. rbind (deref base) (\<lambda>base.
     let kind = ty_kind base in
     if kind = ghdl_rtik_type_b2 \<or> kind = ghdl_rtik_type_e8
     then rbind (deref val) (\<lambda>v. rbind (val_byte v) (\<lambda>b. ghw_disp_lit type (unat b)))
     else if kind = ghdl_rtik_type_i32
     then rbind (deref val) (\<lambda>v. rbind (val_i32 v) (\<lambda>w. Done (dec_sint w)))
     else if kind = ghdl_rtik_type_p64
     then rbind (deref val) (\<lambda>v. rbind (val_i64 v) (\<lambda>w. Done (dec_sint w)))
     else if kind = ghdl_rtik_type_f64
     then rbind (deref val) (\<lambda>v. rbind (val_i64 v) (\<lambda>w. Done (fmt_g w)))
     else Crash Aborted))"

text \<open>
  \<open>ghw_get_value\<close> leaves a string in a buffer of \<open>len\<close> bytes; \<open>None\<close> when nothing is written.
  \<open>strncpy\<close> is called with \<open>len - 1\<close>, and the byte \<open>len - 1\<close> is set.
\<close>

definition buf_strncpy :: "nat \<Rightarrow> string \<Rightarrow> string option run" where
  "buf_strncpy len s = (if len = 0 then Crash Out_of_bounds else Done (Some (take (len - 1) s)))"

definition buf_snprintf :: "nat \<Rightarrow> string \<Rightarrow> string option run" where
  "buf_snprintf len s = Done (if len = 0 then None else Some (take (len - 1) s))"

definition enum_lits :: "ghw_type \<Rightarrow> c_str list run" where
  "enum_lits t = (case t of Type_enum _ _ _ lits \<Rightarrow> Done lits | _ \<Rightarrow> Crash Wrong_member)"

definition ghw_get_value ::
  "(u64 \<Rightarrow> string) \<Rightarrow> nat \<Rightarrow> ghw_val option \<Rightarrow> ghw_type option \<Rightarrow> string option run" where
  "ghw_get_value fmt_g len val type = rbind (ghw_get_base_type type) (\<lambda>base. rbind (deref base) (\<lambda>base.
     let kind = ty_kind base;
         lit = (\<lambda>b. rbind (enum_lits base) (\<lambda>lits. rbind (array_get (length lits) lits (unat b)) (\<lambda>s.
           rbind (c_text s) (\<lambda>s. buf_strncpy len s)))) in
     if kind = ghdl_rtik_type_b2
     then rbind (deref val) (\<lambda>v. rbind (val_byte v) (\<lambda>b.
       if b \<le> 1 then lit b else buf_snprintf len (''?'' @ dec_word b)))
     else if kind = ghdl_rtik_type_e8
     then rbind (deref val) (\<lambda>v. rbind (val_byte v) (\<lambda>b. rbind (enum_lits base) (\<lambda>lits.
       if unat b \<le> length lits then lit b else buf_snprintf len (''?'' @ dec_word b))))
     else if kind = ghdl_rtik_type_i32
     then rbind (deref val) (\<lambda>v. rbind (val_i32 v) (\<lambda>w. buf_snprintf len (dec_sint w)))
     else if kind = ghdl_rtik_type_p64
     then rbind (deref val) (\<lambda>v. rbind (val_i64 v) (\<lambda>w. buf_snprintf len (dec_sint w)))
     else if kind = ghdl_rtik_type_f64
     then rbind (deref val) (\<lambda>v. rbind (val_i64 v) (\<lambda>w. buf_snprintf len (fmt_g w)))
     else rbind (deref type) (\<lambda>t.
       buf_snprintf len (''?bad type '' @ dec_nat (rtik_num (ty_kind t)) @ ''?''))))"

section \<open>Ranges\<close>

definition ghw_get_dir :: "bool \<Rightarrow> string" where
  "ghw_get_dir is_downto = (if is_downto then ''downto'' else ''to'')"

definition disp_bounds :: "string run \<Rightarrow> bool \<Rightarrow> string run \<Rightarrow> string run" where
  "disp_bounds left dir right = outs left (out ('' '' @ ghw_get_dir dir @ '' '') right)"

definition lit_text :: "ghw_type option \<Rightarrow> byte \<Rightarrow> string run" where
  "lit_text type e = rbind (ghw_get_lit type (unat e)) c_text"

fun ghw_disp_range :: "(u64 \<Rightarrow> string) \<Rightarrow> ghw_type option \<Rightarrow> ghw_range \<Rightarrow> string run" where
  "ghw_disp_range fmt_g type (Range_b2 dir left right) =
     disp_bounds (lit_text type left) dir (lit_text type right)"
| "ghw_disp_range fmt_g type (Range_e8 dir left right) =
     disp_bounds (lit_text type left) dir (lit_text type right)"
| "ghw_disp_range fmt_g type (Range_i32 kind dir left right) =
     disp_bounds (Done (dec_sint left)) dir (Done (dec_sint right))"
| "ghw_disp_range fmt_g type (Range_i64 kind dir left right) =
     disp_bounds (Done (dec_sint left)) dir (Done (dec_sint right))"
| "ghw_disp_range fmt_g type (Range_f64 dir left right) =
     disp_bounds (Done (fmt_g left)) dir (Done (fmt_g right))"

section \<open>Subtypes\<close>

definition ghw_disp_typename :: "ghw_type option \<Rightarrow> string run" where
  "ghw_disp_typename t = rbind (deref t) (\<lambda>t. c_text (ty_name t))"

text \<open>The loop over the dimensions; \<open>first\<close> is \<open>i == 0\<close>.\<close>

fun disp_array_dims ::
  "(u64 \<Rightarrow> string) \<Rightarrow> bool \<Rightarrow> ghw_type option list \<Rightarrow> ghw_range list \<Rightarrow> string run" where
  "disp_array_dims fmt_g first [] rngs = Done ''''"
| "disp_array_dims fmt_g first (dim # dims) (rng # rngs) =
     out (if first then '''' else '', '')
       (outs (ghw_disp_range fmt_g dim rng) (disp_array_dims fmt_g False dims rngs))"
| "disp_array_dims fmt_g first (dim # dims) [] = Crash Out_of_bounds"

definition ghw_disp_array_subtype_bounds ::
  "(u64 \<Rightarrow> string) \<Rightarrow> ghw_type \<Rightarrow> ghw_range list \<Rightarrow> string run" where
  "ghw_disp_array_subtype_bounds fmt_g base rngs = (case base of
     Type_array _ _ _ dims \<Rightarrow>
       out '' ('' (outs (disp_array_dims fmt_g True dims rngs) (Done '')''))
   | _ \<Rightarrow> Crash Wrong_member)"

definition same_type :: "ghw_type option \<Rightarrow> ghw_type option \<Rightarrow> bool" where
  "same_type s t \<longleftrightarrow> map_option ty_addr s = map_option ty_addr t"

text \<open>The loop over the fields of a record subtype goes over its elements and those of its base.\<close>

function ghw_disp_record_subtype_bounds ::
    "(u64 \<Rightarrow> string) \<Rightarrow> ghw_type \<Rightarrow> (c_str \<times> ghw_type option) list \<Rightarrow> string run"
  and disp_record_els ::
    "(u64 \<Rightarrow> string) \<Rightarrow> bool \<Rightarrow> (c_str \<times> ghw_type option) list \<Rightarrow> (c_str \<times> ghw_type option) list
      \<Rightarrow> string run" where
  "ghw_disp_record_subtype_bounds fmt_g base els = (case base of
     Type_record _ _ _ base_els \<Rightarrow> disp_record_els fmt_g True base_els els
   | _ \<Rightarrow> Crash Wrong_member)"
| "disp_record_els fmt_g is_first [] els = Done (if is_first then '''' else '')'')"
| "disp_record_els fmt_g is_first (bel # bels) [] = Crash Out_of_bounds"
| "disp_record_els fmt_g is_first (bel # bels) (el # els) =
     (if same_type (snd el) (snd bel) then disp_record_els fmt_g is_first bels els
      else out (if is_first then ''('' else '', '')
        (outs (c_text (fst bel))
          (outs
            (case snd el of
               None \<Rightarrow> Crash Null_pointer
             | Some t \<Rightarrow> (case t of
                 Subtype_array _ _ base _ rngs \<Rightarrow> ghw_disp_array_subtype_bounds fmt_g base rngs
               | Subtype_record _ _ base _ sels \<Rightarrow> ghw_disp_record_subtype_bounds fmt_g base sels
               | t \<Rightarrow> Done (''??? ('' @ dec_nat (rtik_num (ty_kind t)) @ '')'')))
            (disp_record_els fmt_g False bels els))))"
  by pat_completeness auto
termination
  by (relation "measure (case_sum
      (\<lambda>(f, base, els). Suc (size_list (size_prod (\<lambda>_. 0) (size_option size)) els))
      (\<lambda>(f, b, bels, els). size_list (size_prod (\<lambda>_. 0) (size_option size)) els))")
    auto

declare ghw_disp_record_subtype_bounds.simps [simp del] disp_record_els.simps [simp del]

definition ghw_disp_subtype_definition :: "(u64 \<Rightarrow> string) \<Rightarrow> ghw_type option \<Rightarrow> string run" where
  "ghw_disp_subtype_definition fmt_g p = rbind (deref p) (\<lambda>t. case t of
     Subtype_scalar _ _ base rng \<Rightarrow>
       outs (ghw_disp_typename base) (out '' range ''
         (rbind (deref rng) (\<lambda>rng. ghw_disp_range fmt_g base rng)))
   | Subtype_array _ _ base _ rngs \<Rightarrow>
       outs (ghw_disp_typename (Some base)) (ghw_disp_array_subtype_bounds fmt_g base rngs)
   | Subtype_record _ _ base _ els \<Rightarrow>
       outs (ghw_disp_typename (Some base)) (ghw_disp_record_subtype_bounds fmt_g base els)
   | t \<Rightarrow> Done (''ghw_disp_subtype_definition: unhandled type kind '' @
       dec_nat (rtik_num (ty_kind t)) @ [CHR 0x0A]))"

text \<open>The name of a type is anonymous when it is the pointer \<open>str_table[0]\<close>.\<close>

definition ghw_is_anonymous_type :: "ghw_handler \<Rightarrow> ghw_type option \<Rightarrow> bool run" where
  "ghw_is_anonymous_type h p = rbind (deref p) (\<lambda>t. rbind (str_entry h 0) (\<lambda>s. Done (ty_name t = s)))"

definition ghw_disp_subtype_indication ::
  "(u64 \<Rightarrow> string) \<Rightarrow> ghw_handler \<Rightarrow> ghw_type option \<Rightarrow> string run" where
  "ghw_disp_subtype_indication fmt_g h t = rbind (ghw_is_anonymous_type h t) (\<lambda>anon.
     if anon then ghw_disp_subtype_definition fmt_g t else ghw_disp_typename t)"

section \<open>Types\<close>

fun disp_lits :: "bool \<Rightarrow> c_str list \<Rightarrow> string run" where
  "disp_lits first [] = Done ''''"
| "disp_lits first (l # ls) = out (if first then '''' else '', '') (outs (c_text l) (disp_lits False ls))"

fun disp_units :: "c_str \<Rightarrow> ghw_unit list \<Rightarrow> string run" where
  "disp_units base [] = Done ''''"
| "disp_units base ((name, val) # us) =
     out ''  '' (outs (c_text name) (out ('' = '' @ dec_sint val @ '' '')
       (outs (c_text base) (out ('';'' @ [CHR 0x0A]) (disp_units base us)))))"

fun disp_index_types :: "bool \<Rightarrow> ghw_type option list \<Rightarrow> string run" where
  "disp_index_types first [] = Done ''''"
| "disp_index_types first (d # ds) =
     out (if first then '''' else '', '')
       (outs (ghw_disp_typename d) (out '' range <>'' (disp_index_types False ds)))"

fun disp_fields ::
  "(u64 \<Rightarrow> string) \<Rightarrow> ghw_handler \<Rightarrow> (c_str \<times> ghw_type option) list \<Rightarrow> string run" where
  "disp_fields fmt_g h [] = Done ''''"
| "disp_fields fmt_g h ((name, ty) # els) =
     out ''  '' (outs (c_text name) (out '': '' (outs (ghw_disp_subtype_indication fmt_g h ty)
       (out ('';'' @ [CHR 0x0A]) (disp_fields fmt_g h els)))))"

definition nl :: string where
  "nl = [CHR 0x0A]"

definition ghw_disp_type :: "(u64 \<Rightarrow> string) \<Rightarrow> ghw_handler \<Rightarrow> ghw_type \<Rightarrow> string run" where
  "ghw_disp_type fmt_g h t =
     (let unhandled = Done (''ghw_disp_type: unhandled type kind '' @ dec_nat (rtik_num (ty_kind t)) @ nl)
      in case t of
        Type_enum a kind name lits \<Rightarrow>
          if kind = ghdl_rtik_type_b2 \<or> kind = ghdl_rtik_type_e8
          then out ''type '' (outs (c_text name) (out '' is ('' (outs (disp_lits True lits)
            (Done ('');'' @ (if wkt_at h a \<noteq> 0 then ''  -- WKT:'' @ dec_word (wkt_at h a) else '''') @ nl)))))
          else unhandled
      | Type_scalar _ kind name \<Rightarrow>
          if kind = ghdl_rtik_type_i32 \<or> kind = ghdl_rtik_type_f64
          then out ''type '' (outs (c_text name) (Done ('' is range <>;'' @ nl)))
          else unhandled
      | Type_physical _ kind name units \<Rightarrow>
          if kind = ghdl_rtik_type_p32 \<or> kind = ghdl_rtik_type_p64
          then out ''type '' (outs (c_text name) (out ('' is range <> units'' @ nl)
            (outs (disp_units (fst (hd units)) units) (Done (''end units'' @ nl)))))
          else unhandled
      | Type_array _ name el dims \<Rightarrow>
          out ''type '' (outs (c_text name) (out '' is array ('' (outs (disp_index_types True dims)
            (out '') of '' (outs (ghw_disp_subtype_indication fmt_g h el) (Done ('';'' @ nl)))))))
      | Type_record _ name _ els \<Rightarrow>
          out ''type '' (outs (c_text name) (out ('' is record'' @ nl)
            (outs (disp_fields fmt_g h els) (Done (''end record;'' @ nl)))))
      | _ \<Rightarrow>
          out ''subtype '' (outs (c_text (ty_name t)) (out '' is ''
            (outs (ghw_disp_subtype_definition fmt_g (Some t)) (Done ('';'' @ nl))))))"

text \<open>The loop over the table of types from \<open>i\<close> on, with \<open>n\<close> types to go.\<close>

fun disp_types_loop :: "(u64 \<Rightarrow> string) \<Rightarrow> ghw_handler \<Rightarrow> nat \<Rightarrow> nat \<Rightarrow> string run" where
  "disp_types_loop fmt_g h 0 i = Done ''''"
| "disp_types_loop fmt_g h (Suc n) i = rbind (type_entry h (word_of_nat i)) (\<lambda>t.
     rbind (if flag_verbose h \<noteq> 0 then Done True
            else rbind (ghw_is_anonymous_type h (Some t)) (\<lambda>anon. Done (\<not> anon))) (\<lambda>show_it.
     outs (if show_it then ghw_disp_type fmt_g h t else Done '''') (disp_types_loop fmt_g h n (Suc i))))"

definition ghw_disp_types :: "(u64 \<Rightarrow> string) \<Rightarrow> ghw_handler \<Rightarrow> string run" where
  "ghw_disp_types fmt_g h = disp_types_loop fmt_g h (unat (nbr_types h)) 0"

end
