(* ===== verification/Ghw_Disp_Hie.thy ===== *)
theory Ghw_Disp_Hie
  imports Ghw_Display
begin

text \<open>
  Printing the hierarchy, and printing the values of the signals that a filter lets through.
\<close>

section \<open>Names\<close>

text \<open>
  The two loops of \<open>print_name\<close> up the parents: the named nodes from \<open>hie\<close> up, the last of them
  first. Every step goes to another node, so that the number of nodes is fuel enough.
\<close>

fun name_path :: "nat \<Rightarrow> ghw_handler \<Rightarrow> nat option \<Rightarrow> ghw_hie list run" where
  "name_path fuel h None = Done []"
| "name_path 0 h (Some p) = Crash No_return"
| "name_path (Suc fuel) h (Some p) = rbind (get_node h p) (\<lambda>node.
     if hie_name node = Null_str then Done []
     else rbind (name_path fuel h (hie_parent node)) (\<lambda>path. Done (path @ [node])))"

definition disp_iter :: "(u64 \<Rightarrow> string) \<Rightarrow> ghw_hie \<Rightarrow> string run" where
  "disp_iter fmt_g node = (case hie_u node of
     U_blk _ (Some (iter_type, iter_value)) \<Rightarrow>
       outs (ghw_disp_value fmt_g (Some iter_value) iter_type) (Done '''')
   | U_sig _ _ \<Rightarrow> Crash Wrong_member
   | _ \<Rightarrow> Crash Uninitialised)"

fun disp_path :: "(u64 \<Rightarrow> string) \<Rightarrow> bool \<Rightarrow> ghw_hie list \<Rightarrow> string run" where
  "disp_path fmt_g first [] = Done ''''"
| "disp_path fmt_g first (node # path) =
     out (if first then '''' else ''/'') (outs (c_text (hie_name node))
       (outs (if hie_kind node = ghw_hie_generate_for
              then out ''('' (outs (disp_iter fmt_g node) (Done '')'')) else Done '''')
         (disp_path fmt_g False path)))"

definition print_name :: "(u64 \<Rightarrow> string) \<Rightarrow> ghw_handler \<Rightarrow> nat \<Rightarrow> bool \<Rightarrow> string run" where
  "print_name fmt_g h n full_names =
     (if \<not> full_names
      then rbind (get_node h n) (\<lambda>node. out '' '' (outs (c_text (hie_name node)) (Done '': '')))
      else rbind (name_path (Suc (length (hie_nodes h))) h (Some n)) (\<lambda>path.
        out '' /'' (outs (disp_path fmt_g True path) (Done '': ''))))"

section \<open>The elements of a signal\<close>

definition sig_at :: "u32 option list \<Rightarrow> nat \<Rightarrow> u32 run" where
  "sig_at arr k = rbind (array_get (length arr) arr k) init"

lemma sig_at_Done: "sig_at arr k = Done s \<Longrightarrow> k < length arr"
  by (auto simp: sig_at_def)

text \<open>The end of the run of consecutive numbers that goes on at \<open>j\<close>\<close>

function run_end :: "u32 option list \<Rightarrow> nat \<Rightarrow> nat run" where
  "run_end arr j = rbind (sig_at arr j) (\<lambda>s.
     if s = 0 then Done j
     else rbind (sig_at arr (j - 1)) (\<lambda>p. if s \<noteq> p + 1 then Done j else run_end arr (Suc j)))"
  by pat_completeness auto
termination
  by (relation "measure (\<lambda>(arr, j). length arr - j)") (auto dest: sig_at_Done)

declare run_end.simps [simp del]

lemma run_end_ge: "run_end arr j = Done k \<Longrightarrow> j \<le> k \<and> k < length arr"
proof (induction arr j rule: run_end.induct)
  case (1 arr j)
  from "1.prems" obtain s where s: "sig_at arr j = Done s" by (subst (asm) run_end.simps) auto
  then show ?case
    using "1.prems" "1.IH" [OF s] sig_at_Done [OF s]
    by (subst (asm) run_end.simps) (fastforce split: if_splits)
qed

function disp_sigs :: "u32 option list \<Rightarrow> nat \<Rightarrow> string run" where
  "disp_sigs arr k = rbind (sig_at arr k) (\<lambda>first.
     rbind (run_end arr (Suc k)) (\<lambda>j.
     rbind (if Suc k < j then rbind (sig_at arr (j - 1)) (\<lambda>l. Done (''-#'' @ dec_word l)) else Done '''')
       (\<lambda>to. rbind (sig_at arr j) (\<lambda>next.
       out ('' #'' @ dec_word first @ to) (if next = 0 then Done '''' else disp_sigs arr j)))))"
  by pat_completeness auto
termination
  by (relation "measure (\<lambda>(arr, k). length arr - k)") (auto dest: run_end_ge)

declare disp_sigs.simps [simp del]

section \<open>The hierarchy\<close>

text \<open>What is printed for a node, up to the end of its line, and the node that follows it directly.\<close>

definition blk_disp_kinds :: "ghw_hie_kind list" where
  "blk_disp_kinds = [ghw_hie_design, ghw_hie_block, ghw_hie_generate_if, ghw_hie_generate_for,
     ghw_hie_instance, ghw_hie_process, ghw_hie_package]"

definition disp_node ::
  "(u64 \<Rightarrow> string) \<Rightarrow> ghw_handler \<Rightarrow> nat \<Rightarrow> int \<Rightarrow> (string \<times> nat option \<times> int) run" where
  "disp_node fmt_g h n indent = rbind (get_node h n) (\<lambda>node.
     let start = (if flag_full_names h then '''' else replicate (nat indent) (CHR '' '')) @
           ghw_get_hie_name (hie_kind node) in
     if hie_kind node \<in> set blk_disp_kinds
     then
       rbind (if hie_name node \<noteq> Null_str then print_name fmt_g h n (flag_full_names h) else Done '''')
         (\<lambda>name.
       rbind (if hie_kind node = ghw_hie_generate_for
              then out ''('' (outs (disp_iter fmt_g node) (Done '')'')) else Done '''') (\<lambda>iter.
       rbind (blk_child (hie_u node)) (\<lambda>child.
       Done (start @ name @ iter @ nl,
         case child of None \<Rightarrow> (hie_brother node, indent) | Some c \<Rightarrow> (Some c, indent + 1)))))
     else if hie_kind node \<in> set sig_kinds
     then (case hie_u node of
         U_sig type arr \<Rightarrow>
           rbind (print_name fmt_g h n (flag_full_names h)) (\<lambda>name.
           rbind (ghw_disp_subtype_indication fmt_g h type) (\<lambda>ind.
           rbind (sig_at arr 0) (\<lambda>s.
           if s = 0 then Crash Aborted
           else rbind (disp_sigs arr 0) (\<lambda>els.
             Done (start @ name @ ind @ '':'' @ els @ nl, (hie_brother node, indent))))))
       | U_none \<Rightarrow> Crash Uninitialised
       | U_blk _ _ \<Rightarrow> Crash Wrong_member)
     else Crash Aborted)"

text \<open>
  \<open>while (n == NULL)\<close>: up the parents to the next node, \<open>None\<close> when the root is reached. The
  number of nodes is fuel for this loop, and for the loop over the nodes.
\<close>

fun next_node :: "nat \<Rightarrow> ghw_handler \<Rightarrow> nat \<Rightarrow> nat option \<Rightarrow> int \<Rightarrow> (nat option \<times> int) run" where
  "next_node fuel h n (Some b) indent = Done (Some b, indent)"
| "next_node 0 h n None indent = Crash No_return"
| "next_node (Suc fuel) h n None indent = rbind (get_node h n) (\<lambda>node. case hie_parent node of
     None \<Rightarrow> Done (None, indent)
   | Some p \<Rightarrow> rbind (get_node h p) (\<lambda>pnode. next_node fuel h p (hie_brother pnode) (indent - 1)))"

fun disp_hie_loop :: "nat \<Rightarrow> (u64 \<Rightarrow> string) \<Rightarrow> ghw_handler \<Rightarrow> nat \<Rightarrow> int \<Rightarrow> string run" where
  "disp_hie_loop 0 fmt_g h n indent = Crash No_return"
| "disp_hie_loop (Suc fuel) fmt_g h n indent = rbind (disp_node fmt_g h n indent) (\<lambda>(s, next, indent).
     rbind (next_node (length (hie_nodes h)) h n next indent) (\<lambda>(next, indent). case next of
       None \<Rightarrow> Done s
     | Some m \<Rightarrow> out s (disp_hie_loop fuel fmt_g h m indent)))"

definition ghw_disp_hie :: "(u64 \<Rightarrow> string) \<Rightarrow> ghw_handler \<Rightarrow> nat option \<Rightarrow> string run" where
  "ghw_disp_hie fmt_g h root = rbind (deref root) (\<lambda>n.
     disp_hie_loop (length (hie_nodes h)) fmt_g h n 0)"

section \<open>Filtering and printing the signals\<close>

fun is_skip_signal :: "int list \<Rightarrow> int \<Rightarrow> bool" where
  "is_skip_signal [] signal = True"
| "is_skip_signal (s # keep) signal = (if signal = s then False else is_skip_signal keep signal)"

text \<open>
  An empty list stands for \<open>nb_signals_to_keep\<close> being 0. The number of a signal is converted to an
  \<open>int\<close>.
\<close>

definition ghw_filter_signals :: "ghw_handler \<Rightarrow> int list \<Rightarrow> ghw_handler run" where
  "ghw_filter_signals h keep = rbind (init (skip_sigs h)) (\<lambda>skip.
     let n = unat (nbr_sigs h);
         flags = map (\<lambda>i. is_skip_signal keep (sint (word_of_nat i :: u32))) [0..<n] in
     if keep = [] then Done (h\<lparr>skip_sigs := Some None\<rparr>)
     else case skip of
       None \<Rightarrow> Done (h\<lparr>skip_sigs := Some (Some flags)\<rparr>)
     | Some old \<Rightarrow>
         if length old < n then Crash Out_of_bounds
         else Done (h\<lparr>skip_sigs := Some (Some (flags @ drop n old))\<rparr>))"

definition skipped :: "ghw_handler \<Rightarrow> nat \<Rightarrow> bool run" where
  "skipped h i = rbind (init (skip_sigs h)) (\<lambda>skip. case skip of
     None \<Rightarrow> Done False | Some flags \<Rightarrow> array_get (length flags) flags i)"

fun disp_values_loop :: "(u64 \<Rightarrow> string) \<Rightarrow> ghw_handler \<Rightarrow> nat \<Rightarrow> nat \<Rightarrow> string run" where
  "disp_values_loop fmt_g h 0 i = Done ''''"
| "disp_values_loop fmt_g h (Suc n) i = rbind (get_sig h i) (\<lambda>s. rbind (skipped h i) (\<lambda>skip.
     outs (if sig_type s \<noteq> None \<and> \<not> skip
           then out (''#'' @ dec_nat i @ '': '') (outs (ghw_disp_value fmt_g (sig_val s) (sig_type s)) (Done nl))
           else Done '''')
       (disp_values_loop fmt_g h n (Suc i))))"

definition ghw_disp_values :: "(u64 \<Rightarrow> string) \<Rightarrow> ghw_handler \<Rightarrow> string run" where
  "ghw_disp_values fmt_g h = disp_values_loop fmt_g h (unat (nbr_sigs h)) 0"

end
