(* ===== verification/Ghw_Open.thy ===== *)
theory Ghw_Open
  imports Ghw_Numbers
begin

text \<open>
  Opening and closing a waveform file: \<open>ghw_open\<close> with its decompressors and its check of the
  file header, and the header that the waveform writer puts at the start of a file.
\<close>

section \<open>The functions\<close>

text \<open>
  \<open>fopen\<close> and \<open>popen\<close> stand for the operating system: the stream that a file name or a command
  gives, \<open>None\<close> for NULL. \<open>snprintf\<close> writes at most one byte less than the \<open>plen\<close> bytes of its
  buffer before the NUL.
\<close>

definition ghw_openz ::
  "(string \<Rightarrow> c_file option) \<Rightarrow> ghw_handler \<Rightarrow> string \<Rightarrow> string \<Rightarrow> int \<times> ghw_handler" where
  "ghw_openz popen h decomp filename =
     (let plen = length decomp + 1 + length filename + 1;
          p = take (plen - 1) (decomp @ '' '' @ filename);
          h = h\<lparr>stream := popen p\<rparr>
      in if stream h = None then (-1, h) else (0, h\<lparr>stream_ispipe := True\<rparr>))"

definition check_header :: "ghw_handler \<Rightarrow> byte list \<Rightarrow> int \<times> ghw_handler" where
  "check_header h hdr =
     (if take 9 hdr \<noteq> bytes_of ''GHDLwave'' @ [10] then (-2, h)
      else if hdr ! 9 \<noteq> 16 \<or> hdr ! 10 \<noteq> 0 then (-2, h)
      else let h = h\<lparr>version := sint (hdr ! 11)\<rparr> in
        if version h > 1 then (-3, h)
        else if hdr ! 12 \<noteq> 1 \<and> hdr ! 12 \<noteq> 2 then (-4, h)
        else let h = h\<lparr>word_be := (hdr ! 12 = 2), word_len := hdr ! 13, off_len := hdr ! 14\<rparr> in
          if hdr ! 15 \<noteq> 0 then (-5, h)
          else (0, h\<lparr>hie := None\<rparr>))"

definition reread_header ::
  "(string \<Rightarrow> c_file option) \<Rightarrow> ghw_handler \<Rightarrow> string \<Rightarrow> string \<Rightarrow> (int \<times> ghw_handler) run" where
  "reread_header popen h decomp filename =
     (let (res, h) = ghw_openz popen h decomp filename
      in if res < 0 then Done (-1, h)
         else rbind (h_fread 16 h) (\<lambda>(hdr, h). case hdr of
           None \<Rightarrow> Done (-1, h)
         | Some hdr \<Rightarrow> Done (check_header h hdr)))"

definition ghw_open ::
  "(string \<Rightarrow> c_file option) \<Rightarrow> (string \<Rightarrow> c_file option) \<Rightarrow> ghw_handler \<Rightarrow> string
    \<Rightarrow> (int \<times> ghw_handler) run" where
  "ghw_open fopen popen h filename =
     (let h = h\<lparr>stream := fopen filename\<rparr> in
      if stream h = None then Done (-1, h)
      else rbind (h_fread 16 h) (\<lambda>(hdr, h). case hdr of
        None \<Rightarrow> Done (-1, h)
      | Some hdr \<Rightarrow>
          if take 2 hdr = [0x1f, 0x8b] then reread_header popen h ''gzip -cd'' filename
          else if take 2 hdr = bytes_of ''BZ'' then reread_header popen h ''bzip2 -cd'' filename
          else Done (check_header (h\<lparr>stream_ispipe := False\<rparr>) hdr)))"

definition ghw_close :: "ghw_handler \<Rightarrow> ghw_handler" where
  "ghw_close h = (if stream h \<noteq> None then h\<lparr>stream := None\<rparr> else h)"

section \<open>The header of the writer\<close>

definition write_file_header :: "bool \<Rightarrow> byte list" where
  "write_file_header be = bytes_of ''GHDLwave'' @ [10] @ [16, 0, 1] @ wave_write_size_order be"

text \<open>What a handler holds after the header of the writer has been accepted.\<close>

definition opened :: "bool \<Rightarrow> bool \<Rightarrow> c_file \<Rightarrow> ghw_handler \<Rightarrow> ghw_handler" where
  "opened pipe be f h = h\<lparr>stream := Some f, stream_ispipe := pipe, word_be := be, word_len := 4,
     off_len := 1, version := 1, hie := None\<rparr>"

lemma length_write_file_header [simp]: "length (write_file_header be) = 16"
  by (simp add: write_file_header_def wave_write_size_order_def)

lemma write_file_header_eq: "write_file_header be =
    [71, 72, 68, 76, 119, 97, 118, 101, 10, 16, 0, 1, if be then 2 else 1, 4, 1, 0]"
  by (simp add: write_file_header_def wave_write_size_order_def bytes_of_def of_char_def)

lemma check_header_written:
  "check_header h (write_file_header be) =
     (0, h\<lparr>version := 1, word_be := be, word_len := 4, off_len := 1, hie := None\<rparr>)"
  by (simp add: check_header_def write_file_header_eq bytes_of_def of_char_def)

lemma reread_header_written:
  assumes "popen (decomp @ '' '' @ filename) = Some g" and "st_rest g = write_file_header be @ body"
  shows "reread_header popen h decomp filename =
    Done (0, opened True be (g\<lparr>st_rest := body\<rparr>) h)"
proof -
  have "rest_of (h\<lparr>stream := Some g, stream_ispipe := True\<rparr>) = Some (write_file_header be @ body)"
    using assms(2) by (simp add: rest_of_def)
  from h_fread_append [OF this, of 16] show ?thesis
    using assms(1)
    by (simp add: reread_header_def ghw_openz_def Let_def check_header_written opened_def
        set_rest_def)
qed

section \<open>Properties\<close>

text \<open>
  C25: A file that starts with the header of the waveform writer is accepted, whether it is plain
  or compressed: \<open>ghw_open\<close> returns 0 with the byte order and the sizes of the header in the
  handler and the stream right behind the header. For a compressed file that stream is the output
  of the decompressor that the magic number asks for.
\<close>

theorem ghw_open_accepts_written:
  assumes "fopen filename = Some f"
    and "st_rest f = write_file_header be @ body \<and> g = f \<and> pipe = False \<or>
      st_rest f = magic @ rest \<and> 14 \<le> length rest \<and> pipe = True \<and>
      (magic = [0x1f, 0x8b] \<and> decomp = ''gzip -cd'' \<or> magic = bytes_of ''BZ'' \<and> decomp = ''bzip2 -cd'') \<and>
      popen (decomp @ '' '' @ filename) = Some g \<and> st_rest g = write_file_header be @ body"
  shows "ghw_open fopen popen h filename = Done (0, opened pipe be (g\<lparr>st_rest := body\<rparr>) h)"
proof -
  let ?h = "h\<lparr>stream := Some f\<rparr>"
  from assms(2) consider
    (plain) "st_rest f = write_file_header be @ body" "g = f" "pipe = False"
  | (zip) "st_rest f = magic @ rest" "14 \<le> length rest" "pipe = True"
      "magic = [0x1f, 0x8b] \<and> decomp = ''gzip -cd'' \<or> magic = bytes_of ''BZ'' \<and> decomp = ''bzip2 -cd''"
      "popen (decomp @ '' '' @ filename) = Some g" "st_rest g = write_file_header be @ body"
    by blast
  then show ?thesis
  proof cases
    case plain
    have "h_fread 16 ?h = Done (Some (write_file_header be), ?h\<lparr>stream := Some (f\<lparr>st_rest := body\<rparr>)\<rparr>)"
      using plain(1) by (subst h_fread_append) auto
    moreover have "take 2 (write_file_header be) \<noteq> [0x1f, 0x8b]"
      "take 2 (write_file_header be) \<noteq> bytes_of ''BZ''"
      by (simp_all add: write_file_header_eq bytes_of_def of_char_def)
    ultimately show ?thesis
      using assms(1) plain(2,3) by (simp add: ghw_open_def check_header_written opened_def)
  next
    case zip
    obtain hdr more where rest: "rest = hdr @ more" "length hdr = 14"
      using zip(2) by (metis append_take_drop_id length_take min.absorb2)
    have "h_fread 16 ?h = Done (Some (magic @ hdr), ?h\<lparr>stream := Some (f\<lparr>st_rest := more\<rparr>)\<rparr>)"
      using zip(1,4) rest by (subst h_fread_append) (auto simp: bytes_of_def)
    moreover have "reread_header popen (?h\<lparr>stream := Some (f\<lparr>st_rest := more\<rparr>)\<rparr>) decomp filename =
        Done (0, opened True be (g\<lparr>st_rest := body\<rparr>) h)"
      using reread_header_written [of popen decomp filename g be body, OF zip(5,6)] by (simp add: opened_def)
    moreover have "bytes_of ''BZ'' \<noteq> [0x1f, 0x8b]" by (simp add: bytes_of_def of_char_def)
    ultimately show ?thesis
      using assms(1) zip(3,4) by (auto simp: ghw_open_def)
  qed
qed

theorem ghw_open_accepts_written_witness:
  "\<exists>fopen popen. \<forall>h. ghw_open fopen popen h ''a.ghw.gz'' =
     Done (0, opened True False (file_of [72, 73, 69]) h)"
proof (intro exI allI)
  fix h
  let ?f = "file_of ([0x1f, 0x8b] @ replicate 20 0)"
  let ?g = "file_of (write_file_header False @ [72, 73, 69])"
  let ?fopen = "\<lambda>s. if s = ''a.ghw.gz'' then Some ?f else None"
  let ?popen = "\<lambda>s. if s = ''gzip -cd a.ghw.gz'' then Some ?g else None"
  have "ghw_open ?fopen ?popen h ''a.ghw.gz'' =
      Done (0, opened True False (?g\<lparr>st_rest := [72, 73, 69]\<rparr>) h)"
    by (rule ghw_open_accepts_written
        [where f = ?f and magic = "[0x1f, 0x8b]" and rest = "replicate 20 0" and decomp = "''gzip -cd''"])
      (simp_all add: file_of_def)
  then show "ghw_open ?fopen ?popen h ''a.ghw.gz'' =
      Done (0, opened True False (file_of [72, 73, 69]) h)"
    by (simp add: file_of_def)
qed

lemma sint_byte: "sint (v :: byte) = (if v < 128 then uint v else uint v - 256)"
proof -
  have "0 \<le> uint v" "uint v < 256" using uint_bounded [of v] by simp_all
  moreover have "0 \<le> z \<Longrightarrow> z < 256 \<Longrightarrow> odd (z div 128) \<longleftrightarrow> 128 \<le> z" for z :: int
    by presburger
  ultimately have "bit (uint v) 7 \<longleftrightarrow> 128 \<le> uint v"
    by (simp add: bit_iff_odd)
  then show ?thesis
    using \<open>uint v < 256\<close>
    by (auto simp: sint_uint signed_take_bit_eq_take_bit_minus word_less_def take_bit_int_eq_self)
qed

text \<open>
  \<open>ghw_open\<close> rejects every header whose version is not known, with -3, but only when the
  version byte is between 2 and 127: the byte is read as a signed number, and the values
  from 128 on are accepted as negative versions.
\<close>

lemma check_header_version:
  "fst (check_header h (bytes_of ''GHDLwave'' @ [10, 16, 0, v, 1, 4, 1, 0])) =
     (if 2 \<le> v \<and> v < 128 then -3 else 0)"
proof -
  have "0 \<le> uint v" "uint v < 256" using uint_bounded [of v] by simp_all
  then have "1 < sint v \<longleftrightarrow> 2 \<le> v \<and> v < (128 :: byte)"
    by (auto simp: sint_byte word_le_def word_less_def)
  then show ?thesis by (simp add: check_header_def bytes_of_def of_char_def Let_def)
qed

end
