(* ===== verification/Ghwdump.thy ===== *)
theory Ghwdump
  imports Ghw_Disp_Hie Ghw_Open
begin

text \<open>
  The program \<open>ghwdump\<close>: its options, the set of signals of the option \<open>-f\<close>, and its main
  function. The parsed command line (what \<open>getopt\<close> returns, in order) and the operating system's
  \<open>fopen\<close> and \<open>popen\<close> are arguments. The result of \<open>main\<close> is what is printed to the standard
  output, and how the program ends.
\<close>

section \<open>The set of signals\<close>

text \<open>
  \<open>%d\<close> of \<open>sscanf\<close>: white space, a sign, and the longest run of digits, at least one; the result is
  the number, what is left of the string, and the number of characters read.
\<close>

definition is_digit :: "char \<Rightarrow> bool" where
  "is_digit c \<longleftrightarrow> 48 \<le> (of_char c :: nat) \<and> (of_char c :: nat) \<le> 57"

definition is_space :: "char \<Rightarrow> bool" where
  "is_space c \<longleftrightarrow> (of_char c :: nat) \<in> {9, 10, 11, 12, 13, 32}"

definition digits_val :: "string \<Rightarrow> nat" where
  "digits_val ds = foldl (\<lambda>n c. 10 * n + (of_char c - 48)) 0 ds"

definition scan_int :: "string \<Rightarrow> (int \<times> string \<times> nat) option" where
  "scan_int s =
     (let s1 = dropWhile is_space s;
          neg = (s1 \<noteq> [] \<and> hd s1 = CHR ''-'');
          s2 = (if s1 \<noteq> [] \<and> (hd s1 = CHR ''-'' \<or> hd s1 = CHR ''+'') then tl s1 else s1);
          ds = takeWhile is_digit s2;
          rest = drop (length ds) s2
      in if ds = [] then None
         else Some (if neg then - int (digits_val ds) else int (digits_val ds), rest,
           length s - length rest))"

text \<open>\<open>sscanf (s, "%d-%d%n", ...)\<close>: the numbers that were matched, and the value of \<open>%n\<close>.\<close>

definition scan_range :: "string \<Rightarrow> int list \<times> nat option" where
  "scan_range s = (case scan_int s of
     None \<Rightarrow> ([], None)
   | Some (a, r, n) \<Rightarrow>
       if r = [] \<or> hd r \<noteq> CHR ''-'' then ([a], None)
       else case scan_int (tl r) of
         None \<Rightarrow> ([a], None)
       | Some (b, _, k) \<Rightarrow> ([a, b], Some (n + 1 + k)))"

text \<open>
  \<open>add_signal_range\<close> on the string from \<open>s\<close> on, with \<open>expected\<close> characters up to the next comma:
  the bounds, in order, when the specification is accepted. A number that does not fit an \<open>int\<close> has
  no defined value.
\<close>

definition signal_range :: "string \<Rightarrow> nat \<Rightarrow> (int \<times> int) option run" where
  "signal_range s expected = (case scan_range s of
     (ns, bytes) \<Rightarrow>
       if \<not> list_all int_fits ns then Crash Int_overflow
       else
         let (rangeStart, rangeEnd) = (case ns of
               [a, b] \<Rightarrow> if bytes = Some expected then (min a b, max a b)
                 else (case scan_int s of
                   Some (a, _, n) \<Rightarrow> if n = expected \<and> 0 \<le> a then (a, a) else (a, b)
                 | None \<Rightarrow> (a, b))
             | [a] \<Rightarrow> (case scan_int s of
                   Some (a, _, n) \<Rightarrow> if n = expected \<and> 0 \<le> a then (a, a) else (a, -1)
                 | None \<Rightarrow> (a, -1))
             | _ \<Rightarrow> (-1, -1))
         in if rangeEnd < 0 \<or> rangeStart < 0 \<or> rangeEnd - rangeStart < 0 then Done None
            else Done (Some (rangeStart, rangeEnd)))"

text \<open>
  The loop \<open>for (i = rangeStart; i <= rangeEnd; ++i)\<close> over an \<open>int\<close>: behind the largest \<open>int\<close> the
  increment overflows.
\<close>

definition range_signals :: "int \<Rightarrow> int \<Rightarrow> int list run" where
  "range_signals a b = (if b = 2 ^ 31 - 1 then Crash Int_overflow else Done [a..b])"

text \<open>
  \<open>add_signals\<close>, on the rest of the argument and the set so far; \<open>None\<close> when the program exits.
\<close>

function add_signals :: "int list \<Rightarrow> string \<Rightarrow> int list option run" where
  "add_signals set_so_far s =
     (let part = takeWhile (\<lambda>c. c \<noteq> CHR '','') s; rest = drop (length part) s in
      rbind (signal_range s (length part)) (\<lambda>r. case r of
        None \<Rightarrow> Done None
      | Some (a, b) \<Rightarrow> rbind (range_signals a b) (\<lambda>sigs.
          if rest = [] then Done (Some (set_so_far @ sigs))
          else add_signals (set_so_far @ sigs) (tl rest))))"
  by pat_completeness auto
termination
  by (relation "measure (\<lambda>(_, s). length s)") auto

declare add_signals.simps [simp del]

section \<open>Options\<close>

record options =
  flag_disp_types :: bool
  flag_disp_hierarchy :: bool
  opt_full_names :: bool
  flag_disp_time :: bool
  flag_disp_signals :: bool
  flag_disp_strings :: bool
  flag_list :: bool
  opt_verbose :: int
  signal_set :: "int list"

definition no_options :: options where
  "no_options = \<lparr>flag_disp_types = False, flag_disp_hierarchy = False, opt_full_names = False,
     flag_disp_time = False, flag_disp_signals = False, flag_disp_strings = False,
     flag_list = False, opt_verbose = 0, signal_set = []\<rparr>"

text \<open>An option with its argument; the result is the options or the exit status of the program.\<close>

definition set_option :: "options \<Rightarrow> char \<Rightarrow> string \<Rightarrow> (int + options) run" where
  "set_option o1 c arg =
     (if c = CHR ''t'' then Done (Inr (o1\<lparr>flag_disp_types := True\<rparr>))
      else if c = CHR ''h'' then Done (Inr (o1\<lparr>flag_disp_hierarchy := True\<rparr>))
      else if c = CHR ''H'' then Done (Inr (o1\<lparr>flag_disp_hierarchy := True, opt_full_names := True\<rparr>))
      else if c = CHR ''T'' then Done (Inr (o1\<lparr>flag_disp_time := True\<rparr>))
      else if c = CHR ''s'' then Done (Inr (o1\<lparr>flag_disp_signals := True, flag_disp_time := True\<rparr>))
      else if c = CHR ''S'' then Done (Inr (o1\<lparr>flag_disp_strings := True\<rparr>))
      else if c = CHR ''f'' then rbind (add_signals (signal_set o1) arg) (\<lambda>r. case r of
        None \<Rightarrow> Done (Inl 1) | Some ss \<Rightarrow> Done (Inr (o1\<lparr>signal_set := ss\<rparr>)))
      else if c = CHR ''l'' then Done (Inr (o1\<lparr>flag_list := True\<rparr>))
      else if c = CHR ''v'' then rbind (c_int (opt_verbose o1 + 1)) (\<lambda>v. Done (Inr (o1\<lparr>opt_verbose := v\<rparr>)))
      else Done (Inl 2))"

fun set_options :: "options \<Rightarrow> (char \<times> string) list \<Rightarrow> (int + options) run" where
  "set_options o1 [] = Done (Inr o1)"
| "set_options o1 ((c, arg) # args) = rbind (set_option o1 c arg) (\<lambda>r. case r of
     Inl status \<Rightarrow> Done (Inl status) | Inr o2 \<Rightarrow> set_options o2 args)"

section \<open>One file\<close>

text \<open>The strings of the table from \<open>i\<close> on, with \<open>n\<close> to go.\<close>

fun disp_strings_loop :: "ghw_handler \<Rightarrow> nat \<Rightarrow> nat \<Rightarrow> string run" where
  "disp_strings_loop h 0 i = Done ''''"
| "disp_strings_loop h (Suc n) i = rbind (str_entry h (word_of_nat i)) (\<lambda>s.
     out '' '' (outs (c_text s) (out nl (disp_strings_loop h n (Suc i)))))"

definition disp_string_table :: "ghw_handler \<Rightarrow> string run" where
  "disp_string_table h = out (''String table:'' @ nl) (disp_strings_loop h (unat (nbr_str h) - 1) 1)"

text \<open>
  The loop of the option \<open>-l\<close>. Each round reads the name of a section, which is the fuel.
\<close>

definition section_text :: "int \<Rightarrow> string" where
  "section_text i = string_of (takeWhile (\<lambda>b. b \<noteq> 0) (fst (ghw_sections ! nat i)))"

fun list_sections :: "nat \<Rightarrow> (u64 \<Rightarrow> string) \<Rightarrow> options \<Rightarrow> ghw_handler \<Rightarrow> (string \<times> ghw_handler) run" where
  "list_sections 0 fmt_g opts h = Crash No_return"
| "list_sections (Suc fuel) fmt_g opts h = rbind (ghw_read_section h) (\<lambda>(sect, h).
     if sect = -2 then Done (''eof of file'' @ nl, h)
     else if sect < 0 then Done (''Error in file'' @ nl, h)
     else if sect = 0 then Done (''Unknown section'' @ nl, h)
     else
       let title = ''Section '' @ section_text sect @ nl in
       rbind (deref (snd (ghw_sections ! nat sect))) (\<lambda>rd. rbind (rd h) (\<lambda>(res, h).
       if res < 0 then Done (title, h)
       else rbind
         (if flag_disp_strings opts \<and> section_text sect = ''STR'' then disp_string_table h
          else if flag_disp_types opts \<and> section_text sect = ''TYP'' then ghw_disp_types fmt_g h
          else Done '''') (\<lambda>s.
         rbind (list_sections fuel fmt_g opts h) (\<lambda>(t, h). Done (title @ s @ t, h))))))"

text \<open>
  The loop over the snapshots and cycles. The filter is set before the first values are printed,
  when \<open>filter_done\<close> does not hold yet. A round that does not end the loop has read a name or a
  byte of a cycle.
\<close>

fun dump_loop ::
  "nat \<Rightarrow> (u64 \<Rightarrow> string) \<Rightarrow> options \<Rightarrow> ghw_sm_type \<Rightarrow> bool \<Rightarrow> ghw_handler
    \<Rightarrow> (string \<times> bool \<times> ghw_handler) run" where
  "dump_loop 0 fmt_g opts sm filter_done h = Crash No_return"
| "dump_loop (Suc fuel) fmt_g opts sm filter_done h = rbind (ghw_read_sm sm h) (\<lambda>((res, sm), h).
     if res = res_num ghw_res_snapshot \<or> res = res_num ghw_res_cycle
     then
       let time = (if flag_disp_time opts then ''Time is '' @ dec_sint (snap_time h) @ '' fs'' @ nl else '''') in
       rbind
         (if flag_disp_signals opts
          then rbind (if filter_done then Done h else ghw_filter_signals h (signal_set opts)) (\<lambda>h.
            rbind (ghw_disp_values fmt_g h) (\<lambda>s. Done (s, True, h)))
          else Done ('''', filter_done, h)) (\<lambda>(s, filter_done, h).
       rbind (dump_loop fuel fmt_g opts sm filter_done h) (\<lambda>(t, r). Done (time @ s @ t, r)))
     else if res = res_num ghw_res_eof then Done ('''', filter_done, h)
     else Crash Aborted)"

text \<open>
  One file: what is printed, the exit status when the program returns here, and \<open>filter_done\<close>.
  The handler \<open>h\<close> is a local variable that is not initialised.
\<close>

definition dump_file ::
  "(string \<Rightarrow> c_file option) \<Rightarrow> (string \<Rightarrow> c_file option) \<Rightarrow> (u64 \<Rightarrow> string) \<Rightarrow> options \<Rightarrow> bool
    \<Rightarrow> ghw_handler \<Rightarrow> string \<Rightarrow> (string \<times> int option \<times> bool) run" where
  "dump_file fopen popen fmt_g opts filter_done h filename =
     rbind (ghw_open fopen popen (h\<lparr>flag_verbose := opt_verbose opts\<rparr>) filename) (\<lambda>(res, h).
     if res \<noteq> 0 then Done ('''', Some 1, filter_done)
     else if flag_list opts
     then rbind (list_sections (Suc (rest_len h)) fmt_g opts h) (\<lambda>(s, h). Done (s, None, filter_done))
     else rbind (ghw_read_base h) (\<lambda>(res, h).
       if res < 0 then Done ('''', Some 2, filter_done)
       else
         rbind (if flag_disp_types opts then ghw_disp_types fmt_g h else Done '''') (\<lambda>types_out.
         rbind (if flag_disp_hierarchy opts
                then let h = h\<lparr>flag_full_names := opt_full_names opts\<rparr> in
                  rbind (ghw_disp_hie fmt_g h (hie h)) (\<lambda>s. Done (s, h))
                else Done ('''', h)) (\<lambda>(hie_out, h).
         rbind (dump_loop (Suc (rest_len h)) fmt_g opts ghw_sm_init filter_done h)
           (\<lambda>(s, filter_done, h). Done (types_out @ hie_out @ s, None, filter_done))))))"

fun dump_files ::
  "(string \<Rightarrow> c_file option) \<Rightarrow> (string \<Rightarrow> c_file option) \<Rightarrow> (u64 \<Rightarrow> string) \<Rightarrow> options \<Rightarrow> bool
    \<Rightarrow> ghw_handler \<Rightarrow> string list \<Rightarrow> (string \<times> int) run" where
  "dump_files fopen popen fmt_g opts filter_done h [] = Done ('''', 0)"
| "dump_files fopen popen fmt_g opts filter_done h (f # fs) =
     rbind (dump_file fopen popen fmt_g opts filter_done h f) (\<lambda>(s, status, filter_done).
     case status of
       Some st \<Rightarrow> Done (s, st)
     | None \<Rightarrow> rbind (dump_files fopen popen fmt_g opts filter_done h fs) (\<lambda>(t, st). Done (s @ t, st)))"

text \<open>The text of \<open>usage\<close> is left out of the output.\<close>

definition ghwdump_main ::
  "(string \<Rightarrow> c_file option) \<Rightarrow> (string \<Rightarrow> c_file option) \<Rightarrow> (u64 \<Rightarrow> string) \<Rightarrow> ghw_handler
    \<Rightarrow> (char \<times> string) list \<Rightarrow> string list \<Rightarrow> (string \<times> int) run" where
  "ghwdump_main fopen popen fmt_g h args files = rbind (set_options no_options args) (\<lambda>r. case r of
     Inl status \<Rightarrow> Done ('''', status)
   | Inr opts \<Rightarrow> if files = [] then Done ('''', 1) else dump_files fopen popen fmt_g opts False h files)"

end
