(* ===== verification/Ghw_Type_Inv.thy ===== *)
theory Ghw_Type_Inv
  imports Ghw_Types
begin

text \<open>
  What holds for the types that \<open>ghw_read_type\<close> puts into the table: an invariant of a single type,
  which says how its number of scalars follows from its components, its preservation by the readers,
  and an abstract count of the scalars of a type that \<open>get_nbr_elements\<close> implements for types without
  null ranges.
\<close>

section \<open>The invariant of a type\<close>

text \<open>The product of \<open>k\<close> and the lengths of ranges, as the loop over the dimensions computes it\<close>

fun range_prod :: "int \<Rightarrow> ghw_range list \<Rightarrow> int run" where
  "range_prod k [] = Done k"
| "range_prod k (r # rs) = rbind (ghw_get_range_length r) (\<lambda>len. rbind (c_int (k * len)) (\<lambda>k. range_prod k rs))"

text \<open>
  The sum of the numbers of scalars of the fields of a record, where -1 stands for a field without
  number and is kept, and the sum over the fields of a record subtype.
\<close>

fun fields_nbr :: "int \<Rightarrow> (c_str \<times> ghw_type option) list \<Rightarrow> int run" where
  "fields_nbr n [] = Done n"
| "fields_nbr n (f # fs) =
     rbind (if n \<noteq> -1
            then rbind (get_nbr_elements (snd f)) (\<lambda>m. if m = -1 then Done (-1) else c_int (n + m))
            else Done (-1)) (\<lambda>n. fields_nbr n fs)"

fun els_nbr :: "int \<Rightarrow> (c_str \<times> ghw_type option) list \<Rightarrow> int run" where
  "els_nbr n [] = Done n"
| "els_nbr n (f # fs) = rbind (get_nbr_elements (snd f)) (\<lambda>m. rbind (c_int (n + m)) (\<lambda>n. els_nbr n fs))"

text \<open>A field of a record subtype has the name of the field of the record, and its type or a subtype of it.\<close>

definition field_of :: "c_str \<times> ghw_type option \<Rightarrow> c_str \<times> ghw_type option \<Rightarrow> bool" where
  "field_of f g \<longleftrightarrow> fst f = fst g \<and> (snd f = snd g \<or>
     (case snd f of
        Some (Subtype_array _ _ base _ _) \<Rightarrow> snd g = Some base
      | Some (Subtype_record _ _ base _ _) \<Rightarrow> snd g = Some base
      | _ \<Rightarrow> False))"

function type_ok :: "ghw_type \<Rightarrow> bool" and fields_ok :: "(c_str \<times> ghw_type option) list \<Rightarrow> bool" where
  "type_ok (Type_enum a k n lits) \<longleftrightarrow> k \<in> {ghdl_rtik_type_b2, ghdl_rtik_type_e8}"
| "type_ok (Type_scalar a k n) \<longleftrightarrow> k \<in> {ghdl_rtik_type_i32, ghdl_rtik_type_i64, ghdl_rtik_type_f64}"
| "type_ok (Type_physical a k n us) \<longleftrightarrow> k \<in> {ghdl_rtik_type_p32, ghdl_rtik_type_p64}"
| "type_ok (Subtype_scalar a n base rng) \<longleftrightarrow> (case base of None \<Rightarrow> True | Some t \<Rightarrow> type_ok t)"
| "type_ok (Type_array a n el dims) \<longleftrightarrow> (case el of None \<Rightarrow> True | Some t \<Rightarrow> type_ok t)"
| "type_ok (Subtype_array a n base nbr rngs) \<longleftrightarrow> type_ok base \<and> (case base of
     Type_array _ _ el dims \<Rightarrow> length rngs = length dims \<and>
       (case get_nbr_elements el of Done k \<Rightarrow> range_prod k rngs = Done nbr | Crash _ \<Rightarrow> False)
   | _ \<Rightarrow> False)"
| "type_ok (Type_record a n nbr els) \<longleftrightarrow> fields_ok els \<and> fields_nbr 0 els = Done nbr"
| "type_ok (Subtype_record a n base nbr els) \<longleftrightarrow> type_ok base \<and> fields_ok els \<and> (case base of
     Type_record _ _ base_nbr base_els \<Rightarrow> list_all2 field_of els base_els \<and>
       (if 0 \<le> base_nbr then els = base_els \<and> nbr = base_nbr else els_nbr 0 els = Done nbr)
   | _ \<Rightarrow> False)"
| "fields_ok [] \<longleftrightarrow> True"
| "fields_ok ((f, t) # els) \<longleftrightarrow> (case t of None \<Rightarrow> True | Some t \<Rightarrow> type_ok t) \<and> fields_ok els"
  by pat_completeness auto
termination
  by (relation "measure (case_sum size (size_list (size_prod (\<lambda>_. 0) (size_option size))))") auto

definition tab_ok :: "ghw_type list option \<Rightarrow> bool" where
  "tab_ok p \<longleftrightarrow> (\<forall>tab. p = Some tab \<longrightarrow> list_all type_ok tab)"

text \<open>What reading a type leaves alone: the tables of the handler and the hierarchy\<close>

definition tabs :: "ghw_handler \<Rightarrow> ghw_type list option \<times> u32 \<times> u32 \<times> str_ptr list option
    \<times> ghw_hie list \<times> nat option \<times> u32 \<times> ghw_sig list option \<times> bool list option option" where
  "tabs h = (types h, nbr_types h, nbr_str h, str_table h, hie_nodes h, hie h, nbr_sigs h, sigs h, skip_sigs h)"

abbreviation types_ok :: "ghw_handler \<Rightarrow> bool" where
  "types_ok h \<equiv> tab_ok (fst (tabs h))"

lemma tabs_simps [simp]:
  "tabs (h\<lparr>next_addr := a\<rparr>) = tabs h" "tabs (h\<lparr>wkt_at := w\<rparr>) = tabs h"
  "tabs (h\<lparr>next_addr := a, wkt_at := w\<rparr>) = tabs h" "tabs (h\<lparr>snap_time := t\<rparr>) = tabs h"
  by (simp_all add: tabs_def)

lemma fst_tabs: "fst (tabs h) = types h"
  by (simp add: tabs_def)

definition opt_ok :: "ghw_type option \<Rightarrow> bool" where
  "opt_ok p \<longleftrightarrow> (case p of None \<Rightarrow> True | Some t \<Rightarrow> type_ok t)"

lemma opt_ok_simps [simp]: "opt_ok None" "opt_ok (Some t) = type_ok t"
  by (simp_all add: opt_ok_def)

lemma type_ok_opt [simp]:
  "type_ok (Subtype_scalar a n base rng) = opt_ok base" "type_ok (Type_array a n el dims) = opt_ok el"
  "fields_ok ((f, p) # els) \<longleftrightarrow> opt_ok p \<and> fields_ok els"
  by (simp_all add: opt_ok_def)

declare type_ok.simps(4,5) [simp del] fields_ok.simps(2) [simp del]

section \<open>The readers keep it\<close>

text \<open>Reading numbers, strings and references to types does not write to the table.\<close>

lemma types_advances: "advances h h' \<Longrightarrow> tabs h' = tabs h"
  by (simp add: advances_frame tabs_def)

lemma ghw_read_strid_advances: "ghw_read_strid h = Done (s, h') \<Longrightarrow> advances h h'"
  by (auto simp: ghw_read_strid_def split: option.splits dest: uleb.rd_advances)

lemmas types_frame = types_advances [OF ghw_read_strid_advances] types_advances [OF ghw_read_typeid_advances]
  types_advances [OF ghw_read_range_advances] types_advances [OF uleb.rd_advances]
  types_advances [OF lsleb.rd_advances] types_advances [OF h_fgetc_advances] types_advances [OF h_fread_advances]

lemma ghw_read_typeid_ok:
  assumes "ghw_read_typeid h = Done (p, h')"
  shows "tabs h' = tabs h \<and> (types_ok h \<longrightarrow> opt_ok p)"
proof -
  note t = types_frame(2) [OF assms]
  then have "types h' = types h" by (simp add: tabs_def)
  with assms show ?thesis
    by (auto simp: t ghw_read_typeid_def type_entry_def tab_ok_def fst_tabs list_all_length
      split: option.splits)
qed

lemma alloc_type_types: "alloc_type mk h = (t, h') \<Longrightarrow> tabs h' = tabs h \<and> t = mk (next_addr h)"
  by (auto simp: alloc_type_def)

lemma read_array_rngs_prod:
  "read_array_rngs n k h = Done ((rngs, nbr), h') \<Longrightarrow>
   tabs h' = tabs h \<and> length rngs = n \<and> range_prod k rngs = Done nbr"
  by (induction n arbitrary: k rngs h) (fastforce dest: types_frame)+

lemma ghw_read_array_subtype_ok:
  assumes "ghw_read_array_subtype base h = Done (sa, h')" "type_ok base"
  shows "tabs h' = tabs h \<and> type_ok sa \<and> (\<exists>a n rngs. sa = Subtype_array a Null_str base n rngs)"
  using assms
  by (auto simp: ghw_read_array_subtype_def split: ghw_type.splits
    dest!: read_array_rngs_prod alloc_type_types)

lemma field_of_refl [simp]: "field_of f f"
  by (simp add: field_of_def)

lemma ghw_read_record_subtype_ok:
  "ghw_read_record_subtype base h = Done (sr, h') \<Longrightarrow> type_ok base \<Longrightarrow>
     tabs h' = tabs h \<and> opt_ok sr \<and> (\<forall>s. sr = Some s \<longrightarrow> (\<exists>a n els. s = Subtype_record a Null_str base n els))"
  "read_record_els els n h = Done (r, h') \<Longrightarrow> fields_ok els \<Longrightarrow>
     tabs h' = tabs h \<and> (\<forall>els' n'. r = Some (els', n') \<longrightarrow>
       fields_ok els' \<and> list_all2 field_of els' els \<and> els_nbr n els' = Done n')"
proof (induction base h and els n h arbitrary: sr h' and r h'
    rule: ghw_read_record_subtype_read_record_els.induct)
  case (1 base h)
  then show ?case
    by (auto simp: ghw_read_record_subtype.simps alloc_type_def list_all2_refl
      split: ghw_type.splits if_splits option.splits)
next
  case (3 name btype els n h)
  then obtain el_n where el_n: "get_nbr_elements btype = Done el_n"
    by (auto simp: read_record_els.simps)
  let ?m = "if 0 \<le> el_n then Done (Some (btype, el_n), h)
    else rbind (deref btype) (\<lambda>t.
      rbind (case t of
          Type_array _ _ _ _ \<Rightarrow>
            rbind (ghw_read_array_subtype t h) (\<lambda>(sa, h). Done (Some (Some sa), h))
        | Type_record _ _ _ _ \<Rightarrow>
            rbind (ghw_read_record_subtype t h) (\<lambda>(sr, h). Done (Some sr, h))
        | _ \<Rightarrow> Done (None, h))
      (\<lambda>(ty, h). case ty of
          None \<Rightarrow> Done (None, h)
        | Some ty \<Rightarrow> rbind (get_nbr_elements ty) (\<lambda>el_n. Done (Some (ty, el_n), h))))"
  from "3.prems" el_n obtain el h1 where 1: "?m = Done (el, h1)"
    and 2: "(case el of None \<Rightarrow> Done (None, h1) | Some (ty, k) \<Rightarrow>
      rbind (c_int (n + k)) (\<lambda>n. rbind (read_record_els els n h1) (\<lambda>(r, h).
        Done (map_option (\<lambda>(els, n). ((name, ty) # els, n)) r, h)))) = Done (r, h')"
    unfolding read_record_els.simps by auto
  have ok: "opt_ok btype" "fields_ok els" using "3.prems" by auto
  have h1: "tabs h1 = tabs h \<and> (\<forall>ty k. el = Some (ty, k) \<longrightarrow> opt_ok ty \<and>
      get_nbr_elements ty = Done k \<and> field_of (name, ty) (name, btype))"
  proof (cases "0 \<le> el_n")
    case False
    with 1 obtain t where t: "btype = Some t" by auto
    show ?thesis
    proof (cases t)
      case (Type_array a nm el' dims)
      with 1 False t obtain sa where "ghw_read_array_subtype t h = Done (sa, h1)"
        "el = Some (Some sa, the (case get_nbr_elements (Some sa) of Done k \<Rightarrow> Some k | _ \<Rightarrow> None))"
        "get_nbr_elements (Some sa) \<noteq> Crash c" for c
        by fastforce
      with ok t show ?thesis
        by (cases "get_nbr_elements (Some sa)")
          (auto simp: field_of_def dest!: ghw_read_array_subtype_ok)
    next
      case (Type_record a nm nbr els')
      with 1 False t obtain sr where sr: "ghw_read_record_subtype t h = Done (Some sr, h1)"
        "el = Some (Some sr, the (case get_nbr_elements (Some sr) of Done k \<Rightarrow> Some k | _ \<Rightarrow> None))"
        "get_nbr_elements (Some sr) \<noteq> Crash c" for c
        by (fastforce simp: get_nbr_elements_def)
      from "3.IH"(1) [OF el_n False _ _ sr(1)] Type_record t ok
      have "tabs h1 = tabs h \<and> type_ok sr \<and> (\<exists>a n els. sr = Subtype_record a Null_str t n els)" by simp
      with sr t show ?thesis
        by (cases "get_nbr_elements (Some sr)") (auto simp: field_of_def)
    qed (use 1 False t in auto)
  qed (use 1 ok el_n in auto)
  show ?case
  proof (cases el)
    case (Some p)
    obtain ty k where p: "p = (ty, k)" by (cases p)
    with 2 Some obtain r1 where r1: "int_fits (n + k)" "read_record_els els (n + k) h1 = Done (r1, h')"
      "r = map_option (\<lambda>(els, n). ((name, ty) # els, n)) r1"
      by auto
    with "3.IH"(2) [OF el_n 1 refl Some p [symmetric], of "n + k"] ok
    have "tabs h' = tabs h1 \<and> (\<forall>els' n'. r1 = Some (els', n') \<longrightarrow>
       fields_ok els' \<and> list_all2 field_of els' els \<and> els_nbr (n + k) els' = Done n')"
      by simp
    with r1 h1 Some p show ?thesis by (auto simp: map_option_case split: option.splits)
  qed (use 2 h1 in simp)
qed (auto simp: read_record_els.simps)

lemma read_fields_ok:
  "read_fields n k h = Done ((els, nbr), h') \<Longrightarrow> types_ok h \<Longrightarrow>
   tabs h' = tabs h \<and> fields_ok els \<and> fields_nbr k els = Done nbr"
proof (induction n arbitrary: k els h)
  case (Suc n)
  then obtain name h1 ty h2 where 1: "ghw_read_strid h = Done (name, h1)" "ghw_read_typeid h1 = Done (ty, h2)"
    by auto
  with Suc.prems obtain m els1 where m: "(if k \<noteq> -1
        then rbind (get_nbr_elements ty) (\<lambda>f. if f = -1 then Done (-1) else c_int (k + f))
        else Done (-1)) = Done m"
      "read_fields n m h2 = Done ((els1, nbr), h')" "els = (name, ty) # els1"
    by auto
  note 2 = types_frame(1) [OF 1(1)] ghw_read_typeid_ok [OF 1(2)]
  with Suc.IH [OF m(2)] m Suc.prems(2) show ?case
    by (cases "k = -1") auto
qed simp

lemma lists_types:
  "read_lits n h = Done (r1, h') \<Longrightarrow> tabs h' = tabs h"
  "read_units n h = Done (r2, h') \<Longrightarrow> tabs h' = tabs h"
  "read_dims n h = Done (r3, h') \<Longrightarrow> tabs h' = tabs h"
  by (induction n arbitrary: r1 r2 r3 h) (fastforce split: option.splits dest: types_frame)+

lemma type_ok_set_name: "type_ok t \<Longrightarrow> type_ok (set_name name t)"
  by (cases t) auto

lemmas read_type_defs = read_type_enum_def read_type_scalar_def read_type_physical_def
  read_subtype_scalar_def read_type_array_def read_subtype_array_def read_type_record_def
  read_subtype_record_def

text \<open>The readers of the cases of the switch, in turn\<close>

lemma read_kinds_ok:
  "read_type_enum k h = Done (p, h') \<Longrightarrow> k \<in> {ghdl_rtik_type_b2, ghdl_rtik_type_e8} \<Longrightarrow> tabs h' = tabs h \<and> opt_ok p"
  "read_type_scalar k h = Done (p, h') \<Longrightarrow> k \<in> {ghdl_rtik_type_i32, ghdl_rtik_type_i64, ghdl_rtik_type_f64} \<Longrightarrow>
    tabs h' = tabs h \<and> opt_ok p"
  "read_type_physical k h = Done (p, h') \<Longrightarrow> k \<in> {ghdl_rtik_type_p32, ghdl_rtik_type_p64} \<Longrightarrow>
    tabs h' = tabs h \<and> opt_ok p"
  by (auto simp: read_type_defs Let_def split: if_splits option.splits prod.splits
    dest!: types_frame lists_types alloc_type_types)

lemma read_subtypes_ok:
  assumes ok: "types_ok h"
  shows "read_subtype_scalar h = Done (p, h') \<Longrightarrow> tabs h' = tabs h \<and> opt_ok p"
    "read_type_array h = Done (p, h') \<Longrightarrow> tabs h' = tabs h \<and> opt_ok p"
    "read_subtype_array h = Done (p, h') \<Longrightarrow> tabs h' = tabs h \<and> opt_ok p"
    "read_type_record h = Done (p, h') \<Longrightarrow> tabs h' = tabs h \<and> opt_ok p"
    "read_subtype_record h = Done (p, h') \<Longrightarrow> tabs h' = tabs h \<and> opt_ok p"
proof -
  note frames = types_frame(1) ghw_read_typeid_ok
  show "read_subtype_scalar h = Done (p, h') \<Longrightarrow> tabs h' = tabs h \<and> opt_ok p"
    using ok by (auto simp: read_subtype_scalar_def split: prod.splits
      dest!: frames types_frame(3) alloc_type_types)
  show "read_type_array h = Done (p, h') \<Longrightarrow> tabs h' = tabs h \<and> opt_ok p"
    using ok by (auto simp: read_type_array_def split: option.splits prod.splits
      dest!: frames types_frame(4) lists_types(3) alloc_type_types)
  show "read_subtype_array h = Done (p, h') \<Longrightarrow> tabs h' = tabs h \<and> opt_ok p"
    using ok by (auto simp: read_subtype_array_def dest!: frames)
      (auto dest!: ghw_read_array_subtype_ok)
  show "read_subtype_record h = Done (p, h') \<Longrightarrow> tabs h' = tabs h \<and> opt_ok p"
    using ok by (auto simp: read_subtype_record_def dest!: frames)
      (auto dest!: ghw_read_record_subtype_ok(1))
  show "read_type_record h = Done (p, h') \<Longrightarrow> tabs h' = tabs h \<and> opt_ok p"
  proof -
    assume *: "read_type_record h = Done (p, h')"
    then obtain name h1 nbr h2 where 1: "ghw_read_strid h = Done (name, h1)" "ghw_read_uleb128 h1 = Done (nbr, h2)"
      by (auto simp: read_type_record_def)
    note f = types_frame(1) [OF 1(1)] types_frame(4) [OF 1(2)]
    show ?thesis
    proof (cases nbr)
      case (Some k)
      with * 1 obtain els n h3 where 2: "read_fields (unat k) 0 h2 = Done ((els, n), h3)"
        "alloc_type (\<lambda>a. Type_record a name n els) h3 = (the p, h')" "p = Some (the p)"
        by (auto simp: read_type_record_def split: prod.splits)
      with read_fields_ok [OF 2(1)] alloc_type_types [OF 2(2)] f ok show ?thesis
        by (metis opt_ok_simps(2) type_ok.simps(7))
    qed (use * 1 f in \<open>auto simp: read_type_record_def\<close>)
  qed
qed

lemma read_one_type_ok:
  assumes "read_one_type t h = Done (p, h')" "types_ok h"
  shows "tabs h' = tabs h \<and> opt_ok p"
  using assms(1)
  by (auto simp: read_one_type_def split: option.splits if_splits
    dest!: read_kinds_ok read_subtypes_ok(1) [OF assms(2)] read_subtypes_ok(2) [OF assms(2)]
      read_subtypes_ok(3) [OF assms(2)] read_subtypes_ok(4) [OF assms(2)] read_subtypes_ok(5) [OF assms(2)])

lemma tabs_types [simp]:
  "tabs (h\<lparr>types := t\<rparr>) = (t, snd (tabs h))"
  "tabs (h\<lparr>nbr_types := n\<rparr>) = (types h, n, snd (snd (tabs h)))"
  by (simp_all add: tabs_def)

text \<open>The table grows by one good type with each round.\<close>

lemma read_type_loop_ok:
  assumes "read_type_loop n h = Done (r, h')" "types_ok h" "types h = Some tab"
  shows "\<exists>new. tabs h' = (Some (tab @ new), snd (tabs h)) \<and> list_all type_ok new \<and> (r = 0 \<longrightarrow> length new = n)"
  using assms
proof (induction n arbitrary: h tab)
  case 0
  then show ?case by (intro exI [of _ "[]"]) (simp add: tabs_def)
next
  case (Suc n)
  then obtain t h1 where h1: "h_fgetc h = Done (t, h1)" by auto
  note f1 = types_advances [OF h_fgetc_advances [OF h1]]
  show ?case
  proof (cases "tabs h' = tabs h \<and> r \<noteq> 0")
    case True
    then show ?thesis using Suc.prems(3) by (intro exI [of _ "[]"]) (simp add: tabs_def)
  next
    case False
    with Suc.prems h1 f1 obtain b where b: "t = Some b" by (auto split: option.splits)
    with Suc.prems h1 obtain ty h2 where 2: "read_one_type b h1 = Done (ty, h2)" by auto
    with read_one_type_ok [OF 2] f1 Suc.prems(2) have f2: "tabs h2 = tabs h" "opt_ok ty" by auto
    with False Suc.prems h1 b 2 obtain u where u: "ty = Some u" by (auto split: option.splits)
    with Suc.prems h1 b 2 obtain h3 where h3: "add_type u h2 = Done h3" "read_type_loop n h3 = Done (r, h')"
      by auto
    moreover have "types h2 = Some tab" using f2(1) Suc.prems(3) by (simp add: tabs_def)
    ultimately have "h3 = h2\<lparr>types := Some (tab @ [u])\<rparr>" by (auto simp: add_type_def)
    then have "tabs h3 = (Some (tab @ [u]), snd (tabs h))" "types h3 = Some (tab @ [u])"
      using f2 by simp_all
    moreover have "types_ok h3" using calculation f2 u Suc.prems(2,3) by (simp add: tab_ok_def fst_tabs)
    ultimately obtain new where "tabs h' = (Some ((tab @ [u]) @ new), snd (tabs h))"
      "list_all type_ok new" "r = 0 \<longrightarrow> length new = n"
      using Suc.IH [OF h3(2)] by auto
    then show ?thesis using f2 u by (intro exI [of _ "u # new"]) simp
  qed
qed

lemma ghw_read_type_ok:
  assumes "ghw_read_type h = Done (r, h')"
  shows "snd (snd (tabs h')) = snd (snd (tabs h)) \<and> (types_ok h \<longrightarrow> types_ok h') \<and>
    (r = 0 \<longrightarrow> (\<exists>tab. types h' = Some tab \<and> length tab = unat (nbr_types h') \<and> list_all type_ok tab))"
proof -
  from assms obtain hdr h1 where h1: "h_fread 8 h = Done (hdr, h1)" by (auto simp: ghw_read_type_def)
  note f = types_frame(7) [OF h1]
  show ?thesis
  proof (cases "hdr = None \<or> take 4 (the hdr) \<noteq> [0, 0, 0, 0]")
    case True
    with assms h1 f show ?thesis by (auto simp: ghw_read_type_def Let_def split: option.splits if_splits)
  next
    case False
    let ?n = "ghw_get_i32 h1 (drop 4 (the hdr))"
    let ?h = "h1\<lparr>nbr_types := ?n, types := Some []\<rparr>"
    from False assms h1 obtain res h2 where 2: "read_type_loop (unat ?n) ?h = Done (res, h2)"
      and rest: "(if res \<noteq> 0 then Done (res, h2)
         else rbind (h_fgetc h2) (\<lambda>(c, h). Done (if c \<noteq> Some 0 then -1 else 0, h))) = Done (r, h')"
      by (auto simp: ghw_read_type_def Let_def)
    have "\<exists>new. tabs h2 = (Some ([] @ new), snd (tabs ?h)) \<and> list_all type_ok new \<and> (res = 0 \<longrightarrow> length new = unat ?n)"
      by (rule read_type_loop_ok [OF 2]) (simp_all add: tab_ok_def)
    then obtain new where new: "tabs h2 = (Some new, ?n, snd (snd (tabs h)))" "list_all type_ok new"
        "res = 0 \<longrightarrow> length new = unat ?n"
      using f by auto
    moreover have "tabs h' = tabs h2 \<and> (r = 0 \<longrightarrow> res = 0)"
      using rest by (auto split: if_splits dest!: types_frame(6))
    ultimately have "tabs h' = (Some new, ?n, snd (snd (tabs h)))" "r = 0 \<longrightarrow> length new = unat ?n" by simp_all
    moreover from this(1) have "types h' = Some new" "nbr_types h' = ?n" by (simp_all add: tabs_def)
    ultimately show ?thesis using new(2) by (simp add: tab_ok_def)
  qed
qed

section \<open>The number of scalars\<close>

text \<open>
  The number of elements that a discrete range stands for when it is not a null range, and the
  number of scalars of a constrained type without null ranges, whose records have less than \<open>2 ^ 31\<close>
  fields.
\<close>

fun range_card :: "ghw_range \<Rightarrow> int" where
  "range_card (Range_b2 dir left right) = (if dir then uint left - uint right else uint right - uint left) + 1"
| "range_card (Range_e8 dir left right) = (if dir then uint left - uint right else uint right - uint left) + 1"
| "range_card (Range_i32 _ dir left right) = (if dir then sint left - sint right else sint right - sint left) + 1"
| "range_card (Range_i64 _ dir left right) = (if dir then sint left - sint right else sint right - sint left) + 1"
| "range_card (Range_f64 _ _ _) = 0"

inductive sized :: "ghw_type \<Rightarrow> nat \<Rightarrow> bool"
  and fields_sized :: "(c_str \<times> ghw_type option) list \<Rightarrow> nat \<Rightarrow> bool" where
  sized_scalar: "ty_kind t \<in> set scalar_kinds \<Longrightarrow> sized t 1"
| sized_subtype: "sized (Subtype_scalar a n base rng) 1"
| sized_array: "sized el k \<Longrightarrow> \<forall>r\<in>set rngs. 0 \<le> range_card r \<Longrightarrow>
    sized (Subtype_array a n (Type_array b m (Some el) dims) nbr rngs) (k * prod_list (map (\<lambda>r. nat (range_card r)) rngs))"
| sized_record: "fields_sized els k \<Longrightarrow> length els < 2 ^ 31 \<Longrightarrow> sized (Type_record a n nbr els) k"
| sized_subrecord: "fields_sized els k \<Longrightarrow> length els < 2 ^ 31 \<Longrightarrow> sized (Subtype_record a n base nbr els) k"
| sized_nil: "fields_sized [] 0"
| sized_cons: "sized t k \<Longrightarrow> fields_sized els m \<Longrightarrow> fields_sized ((f, Some t) # els) (k + m)"

inductive_simps fields_sized_simps [simp]: "fields_sized [] n" "fields_sized (f # els) n"

inductive_cases sized_arrayE: "sized (Subtype_array a n base nbr rngs) k"

text \<open>
  Types without a number: arrays without ranges, and records of which the first field that is not
  \<open>sized\<close> is such a type.
\<close>

inductive open_type :: "ghw_type \<Rightarrow> bool" where
  open_array: "open_type (Type_array a n el dims)"
| open_record: "fields_sized pre k \<Longrightarrow> open_type t \<Longrightarrow> open_type (Type_record a n nbr (pre @ (f, Some t) # post))"

lemma range_length_card: "ghw_get_range_length r = Done k \<Longrightarrow> k = range_card r"
  by (cases r) (auto simp: range_len_def split: if_splits)

lemma range_prod_card:
  "range_prod (int k) rngs = Done nbr \<Longrightarrow> \<forall>r\<in>set rngs. 0 \<le> range_card r \<Longrightarrow>
   nbr = int (k * prod_list (map (\<lambda>r. nat (range_card r)) rngs))"
proof (induction rngs arbitrary: k)
  case (Cons r rngs)
  then obtain len where len: "ghw_get_range_length r = Done len" "range_prod (int k * len) rngs = Done nbr"
    by auto
  with range_length_card Cons.prems(2) have "len = int (nat (range_card r))" by auto
  with len(2) Cons.IH [of "k * nat (range_card r)"] Cons.prems(2) show ?case
    by (simp add: algebra_simps)
qed simp

lemma scalar_nbr: "ty_kind t \<in> set scalar_kinds \<Longrightarrow> get_nbr_elements (Some t) = Done 1"
  by (simp add: get_nbr_elements_def)

lemma from_zero:
  assumes "\<forall>n r. F (int n) = Done r \<longrightarrow> r = int (n + m)" "F 0 = Done r"
  shows "r = int m"
proof -
  note assms(1) [THEN spec, of 0, THEN spec, of r]
  with assms(2) show ?thesis by simp
qed

lemma sized_nbr:
  "sized t k \<Longrightarrow> type_ok t \<Longrightarrow> get_nbr_elements (Some t) = Done (int k)"
  "fields_sized els m \<Longrightarrow> fields_ok els \<Longrightarrow>
     (\<forall>n r. fields_nbr (int n) els = Done r \<longrightarrow> r = int (n + m)) \<and>
     (\<forall>n r. els_nbr (int n) els = Done r \<longrightarrow> r = int (n + m))"
proof (induction t k and els m rule: sized_fields_sized.inducts)
  case (sized_array el k rngs a n b m dims nbr)
  then have "get_nbr_elements (Some el) = Done (int k)" "range_prod (int k) rngs = Done nbr"
    by (auto split: run.splits)
  with range_prod_card sized_array.hyps(2) show ?case
    by (simp add: get_nbr_elements_def scalar_kinds_def)
next
  case (sized_record els k a n nbr)
  with from_zero [of "\<lambda>n. fields_nbr n els" k nbr] show ?case
    by (auto simp: get_nbr_elements_def scalar_kinds_def)
next
  case (sized_subrecord els k a n base nbr)
  with from_zero [of "\<lambda>n. fields_nbr n els" k nbr] from_zero [of "\<lambda>n. els_nbr n els" k nbr] show ?case
    by (auto simp: get_nbr_elements_def scalar_kinds_def split: ghw_type.splits if_splits)
next
  case (sized_cons t k els m f)
  then have t: "get_nbr_elements (Some t) = Done (int k)" by simp
  have "fields_nbr (int (n + k)) els = Done r \<longrightarrow> r = int (n + k + m)"
    "els_nbr (int (n + k)) els = Done r \<longrightarrow> r = int (n + k + m)" for n r
    using sized_cons.IH(2) sized_cons.prems by (auto simp del: of_nat_add)
  with t show ?case
    by (auto simp: algebra_simps split: if_splits)
qed (auto simp: scalar_nbr get_nbr_elements_def scalar_kinds_def)

lemma fields_nbr_append:
  "fields_nbr n (fs @ gs) = rbind (fields_nbr n fs) (\<lambda>n. fields_nbr n gs)"
  by (induction fs arbitrary: n) (simp_all add: rbind_assoc)

lemma fields_nbr_none: "fields_nbr (-1) fs = Done (-1)"
  by (induction fs) simp_all

lemma fields_ok_append: "fields_ok (fs @ gs) \<longleftrightarrow> fields_ok fs \<and> fields_ok gs"
  by (induction fs) auto

lemma open_type_nbr: "open_type t \<Longrightarrow> type_ok t \<Longrightarrow> get_nbr_elements (Some t) = Done (-1)"
proof (induction rule: open_type.induct)
  case (open_record pre k t a n nbr f post)
  then have ok: "fields_ok pre" "type_ok t" and nbr: "fields_nbr 0 (pre @ (f, Some t) # post) = Done nbr"
    by (auto simp: fields_ok_append)
  from nbr obtain m where m: "fields_nbr (int 0) pre = Done m"
    by (auto simp: fields_nbr_append)
  with sized_nbr(2) [OF open_record.hyps(1) ok(1)] have "m = int k"
    by fastforce
  with nbr m open_record.IH [OF ok(2)] show ?case
    by (simp add: fields_nbr_append fields_nbr_none get_nbr_elements_def scalar_kinds_def)
qed (simp add: get_nbr_elements_def scalar_kinds_def)

section \<open>Properties\<close>

text \<open>
  C8: When \<open>ghw_read_type\<close> succeeds, the table holds as many types as the file announces, and each of
  them is well formed: it is of a kind the reader knows, a subtype of an array has a range for each
  dimension of its base, a subtype of a record has the fields of its base, each with the type of the
  base or a subtype of it, and the number of scalars is the one that its components give. The string
  table, the signals and the hierarchy are left alone.
\<close>

theorem read_types_well_formed:
  assumes "ghw_read_type h = Done (0, h')"
  shows "snd (snd (tabs h')) = snd (snd (tabs h)) \<and>
    (\<exists>tab. types h' = Some tab \<and> length tab = unat (nbr_types h') \<and> list_all type_ok tab)"
  using ghw_read_type_ok [OF assms] by blast

text \<open>A type section with an enumeration of two literals and an array type of it\<close>

definition demo_types :: ghw_handler where
  "demo_types = zero_handler\<lparr>word_len := 4, off_len := 4, version := 1, nbr_str := 1,
     str_table := Some [Anon_lit],
     stream := Some (file_of ([0, 0, 0, 0] @ [2, 0, 0, 0] @ [22, 0, 2, 0, 0] @ [31, 0, 1, 1, 1] @ [0]))\<rparr>"

theorem read_types_well_formed_witness:
  "\<exists>h' e. ghw_read_type demo_types = Done (0, h') \<and>
     types h' = Some [e, Type_array 1 Anon_str (Some e) [Some e]] \<and> list_all type_ok [e, Type_array 1 Anon_str (Some e) [Some e]]"
proof -
  let ?e = "Type_enum 0 ghdl_rtik_type_b2 Anon_str [Anon_str, Anon_str]"
  have "runs_to (ghw_read_type demo_types) (\<lambda>(r, h'). r = 0 \<and> types h' = Some [?e, Type_array 1 Anon_str (Some ?e) [Some ?e]])"
    by code_simp
  then obtain h' where "ghw_read_type demo_types = Done (0, h')"
    "types h' = Some [?e, Type_array 1 Anon_str (Some ?e) [Some ?e]]"
    by (auto elim!: runs_toE)
  with read_types_well_formed [OF this(1)] show ?thesis by auto
qed

text \<open>
  C18: For every type of a table that \<open>ghw_read_type\<close> has read, \<open>get_nbr_elements\<close> gives the number of its
  scalars when it is constrained and has no null range (it is \<open>sized\<close>): 1 for a scalar, the product of
  the numbers of the elements of its ranges with that of its element for an array, and the sum over the
  fields for a record. For an array without ranges, and for a record with a field that has no number
  because of one, it gives -1. (With a null range the number is wrong: \<open>null_range_overflow\<close>.)
\<close>

theorem get_nbr_elements_counts:
  assumes "ghw_read_type h = Done (0, h')" and "types h' = Some tab" and "t \<in> set tab"
  shows "(\<forall>k. sized t k \<longrightarrow> get_nbr_elements (Some t) = Done (int k)) \<and>
    (open_type t \<longrightarrow> get_nbr_elements (Some t) = Done (-1))"
proof -
  have "type_ok t"
    using ghw_read_type_ok [OF assms(1)] assms(2,3) by (auto simp: list_all_iff)
  then show ?thesis
    using sized_nbr(1) open_type_nbr by blast
qed

text \<open>A matrix of 2 by 3 bits, and a record of such a matrix and of one without ranges\<close>

definition demo_matrices :: ghw_handler where
  "demo_matrices = zero_handler\<lparr>word_len := 4, off_len := 4, version := 1, nbr_str := 1,
     str_table := Some [Anon_lit],
     stream := Some (file_of ([0, 0, 0, 0] @ [5, 0, 0, 0] @ [22, 0, 2, 0, 0] @ [25, 0] @ [31, 0, 1, 2, 1, 2] @
       [35, 0, 3, 22, 0, 1, 153, 2, 0] @ [32, 0, 2, 0, 4, 0, 3] @ [0]))\<rparr>"

theorem get_nbr_elements_counts_witness:
  "runs_to (ghw_read_type demo_matrices) (\<lambda>(res, h'). res = 0 \<and>
     (\<exists>e i m s r. types h' = Some [e, i, m, s, r] \<and>
        map (\<lambda>t. get_nbr_elements (Some t)) [e, m, s, r] = [Done 1, Done (-1), Done 6, Done (-1)]))"
proof -
  let ?e = "Type_enum 0 ghdl_rtik_type_b2 Anon_str [Anon_str, Anon_str]"
  let ?i = "Type_scalar 1 ghdl_rtik_type_i32 Anon_str"
  let ?m = "Type_array 2 Anon_str (Some ?e) [Some ?e, Some ?i]"
  let ?rs = "[Range_b2 False 0 1, Range_i32 ghdl_rtik_type_i32 True 2 0]"
  let ?s = "Subtype_array 3 Anon_str ?m 6 ?rs"
  let ?r = "Type_record 4 Anon_str (-1) ([(Anon_str, Some ?s)] @ (Anon_str, Some ?m) # [])"
  have "runs_to (ghw_read_type demo_matrices) (\<lambda>(r, h'). r = 0 \<and> types h' = Some [?e, ?i, ?m, ?s, ?r])"
    by code_simp
  then obtain h' where read: "ghw_read_type demo_matrices = Done (0, h')" "types h' = Some [?e, ?i, ?m, ?s, ?r]"
    by (auto elim!: runs_toE)
  note counts = get_nbr_elements_counts [OF this]
  have e: "sized ?e 1" by (rule sized_scalar) (simp add: scalar_kinds_def)
  then have s: "sized ?s (1 * prod_list (map (\<lambda>r. nat (range_card r)) ?rs))" by (rule sized_array) simp
  have m: "open_type ?m" by (rule open_array)
  have r: "open_type ?r" by (rule open_record [of _ "1 * prod_list (map (\<lambda>r. nat (range_card r)) ?rs) + 0"]) (use s m in \<open>auto\<close>)
  have "get_nbr_elements (Some ?e) = Done 1" "get_nbr_elements (Some ?m) = Done (-1)"
    "get_nbr_elements (Some ?s) = Done 6" "get_nbr_elements (Some ?r) = Done (-1)"
    using counts [of ?e] counts [of ?m] counts [of ?s] counts [of ?r] e s m r by fastforce+
  then show ?thesis
    using read by (simp add: runs_to_def)
qed

end
