(* ===== verification/Ghw_Signal_Inv.thy ===== *)
theory Ghw_Signal_Inv
  imports Ghw_Hierarchy Ghw_Type_Inv
begin

text \<open>
  What \<open>ghw_read_signal\<close> does along a well-formed type: it stops, and for a type without null ranges
  it stays within the array that \<open>ghw_read_hie\<close> allocates for the elements of the signal and fills all
  of it. For a type with a null range it may write behind that array.
\<close>

section \<open>Reading a signal stops\<close>

lemma range_prod_0: "range_prod 0 rngs = Done n \<Longrightarrow> n = 0"
  by (induction rngs) auto

lemma fields_ok_take: "fields_ok els \<Longrightarrow> fields_ok (take n els)"
proof (induction els arbitrary: n)
  case (Cons f els)
  then show ?case by (cases f; cases n) auto
qed simp

lemma loop_fields_ok: "loop_fields n els = Done els' \<Longrightarrow> fields_ok els \<Longrightarrow> fields_ok els'"
  by (auto simp: loop_fields_def fields_ok_take split: if_splits)

lemma loop_fields_stops [simp]: "stops (loop_fields n els)"
  by (simp add: loop_fields_def)

lemma read_signal_scalar_stops [simp]: "stops (read_signal_scalar t off arr h)"
  unfolding read_signal_scalar_def by (intro stops_rules) simp_all

text \<open>The rounds that are left suffice to bring \<open>i\<close> to \<open>len\<close>, or to the overflow of \<open>i\<close>.\<close>

definition enough_rounds :: "nat \<Rightarrow> int \<Rightarrow> int \<Rightarrow> int \<Rightarrow> bool" where
  "enough_rounds fuel stride i len \<longleftrightarrow>
     len \<le> i \<or> 0 < stride \<and> len - i \<le> int fuel \<or> stride < 0 \<and> int_fits i \<and> i + 2 ^ 31 + 1 \<le> int fuel"

lemma enough_rounds_step:
  assumes "enough_rounds fuel stride i len" "i < len"
  obtains f where "fuel = Suc f" "int_fits (i + stride) \<longrightarrow> enough_rounds f stride (i + stride) len"
  using assms by (cases fuel) (auto simp: enough_rounds_def int_fits_def)

lemma enough_rounds_start:
  "(stride = 0 \<Longrightarrow> len = 0) \<Longrightarrow> enough_rounds (array_rounds stride len) stride 0 len"
  by (auto simp: enough_rounds_def array_rounds_def int_fits_def)

lemma ghw_read_signal_stops:
  "opt_ok p \<Longrightarrow> stops (ghw_read_signal p off arr h)"
  "opt_ok el \<Longrightarrow> enough_rounds fuel stride i len \<Longrightarrow> stops (read_signal_array fuel el stride i len off arr h)"
  "fields_ok els \<Longrightarrow> stops (read_signal_fields els off foff arr h)"
proof (induction p off arr h and fuel el stride i len off arr h and els off foff arr h
    rule: ghw_read_signal_read_signal_array_read_signal_fields.induct)
  case (2 t off arr h)
  show ?case
  proof (cases "ty_kind t \<in> set signal_scalar_kinds")
    case False
    show ?thesis
    proof (cases t)
      case (Subtype_array a n base len rngs)
      with "2.prems" obtain b m el dims k where base: "base = Type_array b m el dims" "opt_ok el"
        "get_nbr_elements el = Done k" "range_prod k rngs = Done len"
        by (auto split: ghw_type.splits run.splits)
      moreover have "enough_rounds (array_rounds k len) k 0 len"
        using base range_prod_0 by (intro enough_rounds_start) auto
      ultimately show ?thesis
        using "2.IH"(1) [OF False Subtype_array base(1,3)] False Subtype_array
        by (simp add: ghw_read_signal.simps)
    next
      case (Type_record a n nbr els)
      with "2.prems" "2.IH"(2) [OF False Type_record] False show ?thesis
        by (auto simp: ghw_read_signal.simps intro!: stops_rbind dest: loop_fields_ok)
    next
      case (Subtype_record a n base nbr els)
      with "2.prems" obtain b m nbr' base_els where base: "base = Type_record b m nbr' base_els" "fields_ok els"
        by (auto split: ghw_type.splits)
      with "2.IH"(3) [OF False Subtype_record base(1)] False Subtype_record show ?thesis
        by (auto simp: ghw_read_signal.simps intro!: stops_rbind dest: loop_fields_ok)
    qed (use False in \<open>simp_all add: ghw_read_signal.simps\<close>)
  qed (simp add: ghw_read_signal.simps)
next
  case (3 fuel el stride i len off arr h)
  show ?case
  proof (cases "i < len")
    case True
    from "3.prems"(2) True obtain f where f: "fuel = Suc f"
      and enough: "int_fits (i + stride) \<longrightarrow> enough_rounds f stride (i + stride) len"
      by (rule enough_rounds_step)
    have "stops (ghw_read_signal el (off + i) arr h)" using "3.IH"(1) [OF True f] "3.prems"(1) by simp
    moreover have "stops (rbind (c_int (i + stride)) (\<lambda>i. read_signal_array f el stride i len off arr' h'))"
      if r: "ghw_read_signal el (off + i) arr h = Done ((r, arr'), h')" "\<not> r < 0" for r arr' h'
      using "3.IH"(2) [OF True f r(1) refl refl r(2)] "3.prems"(1) enough by (intro stops_rbind) auto
    ultimately show ?thesis
      using True f by (subst read_signal_array.simps) (auto intro!: stops_rbind)
  qed (subst read_signal_array.simps, simp)
next
  case (5 name ty els off foff arr h)
  then show ?case
    by (auto simp: read_signal_fields.simps intro!: stops_rbind)
qed (auto simp: ghw_read_signal.simps read_signal_fields.simps)

section \<open>Accesses within the array\<close>

text \<open>\<open>in_bounds m Q\<close>: no access of the code is out of bounds, and \<open>Q\<close> holds for what it returns.\<close>

definition in_bounds :: "'a run \<Rightarrow> ('a \<Rightarrow> bool) \<Rightarrow> bool" where
  "in_bounds m Q \<longleftrightarrow> (case m of Done x \<Rightarrow> Q x | Crash c \<Rightarrow> c \<noteq> Out_of_bounds)"

lemma in_bounds_simps [simp]:
  "in_bounds (Done x) Q \<longleftrightarrow> Q x" "in_bounds (Crash c) Q \<longleftrightarrow> c \<noteq> Out_of_bounds"
  by (simp_all add: in_bounds_def)

lemma in_bounds_rbind: "in_bounds (rbind m f) Q \<longleftrightarrow> in_bounds m (\<lambda>x. in_bounds (f x) Q)"
  by (cases m) simp_all

lemma in_boundsI: "m \<noteq> Crash Out_of_bounds \<Longrightarrow> (\<And>x. m = Done x \<Longrightarrow> Q x) \<Longrightarrow> in_bounds m Q"
  by (cases m) auto

lemma in_bounds_mono: "in_bounds m Q \<Longrightarrow> (\<And>x. m = Done x \<Longrightarrow> Q x \<Longrightarrow> Q' x) \<Longrightarrow> in_bounds m Q'"
  by (cases m) auto

lemma in_bounds_init [simp]: "in_bounds (init p) Q \<longleftrightarrow> (\<forall>x. p = Some x \<longrightarrow> Q x)"
  by (cases p) auto

lemma in_bounds_c_int [simp]: "in_bounds (c_int z) Q \<longleftrightarrow> (int_fits z \<longrightarrow> Q z)"
  by (simp add: c_int_def)

lemma h_fgetc_bounds: "h_fgetc h \<noteq> Crash Out_of_bounds"
  by (cases "stream h") (auto simp: h_fgetc_def split: prod.splits)

lemma read_uleb128_loop_bounds: "read_uleb128_loop r off h \<noteq> Crash Out_of_bounds"
proof (induction r off h rule: read_uleb128_loop.induct)
  case (1 r off h)
  then show ?case
    by (subst read_uleb128_loop.simps) (auto simp: rbind_eq_Crash Let_def h_fgetc_bounds split: option.splits)
qed

lemma ghw_read_uleb128_bounds [simp]: "ghw_read_uleb128 h \<noteq> Crash Out_of_bounds"
  by (simp add: ghw_read_uleb128_def read_uleb128_loop_bounds)

text \<open>
  The table of signals has the size that the header of the section announces, and the elements
  \<open>off\<close> to \<open>off + k - 1\<close> of the array are numbers of signals, while the others have been left alone.
\<close>

definition sigs_sized :: "ghw_handler \<Rightarrow> bool" where
  "sigs_sized h \<longleftrightarrow> map_option length (sigs h) = Some (unat (nbr_sigs h))"

definition filled :: "u32 \<Rightarrow> int \<Rightarrow> nat \<Rightarrow> u32 option list \<Rightarrow> u32 option list \<Rightarrow> int \<Rightarrow> bool" where
  "filled n off k arr arr' r \<longleftrightarrow> length arr' = length arr \<and>
     (\<forall>j<length arr. int j < off \<or> off + int k \<le> int j \<longrightarrow> arr' ! j = arr ! j) \<and>
     (0 \<le> r \<longrightarrow> (\<forall>j<length arr. off \<le> int j \<and> int j < off + int k \<longrightarrow> (\<exists>id. arr' ! j = Some id \<and> 0 < id \<and> id < n)))"

lemma filled_0: "filled n off 0 arr arr r"
  by (auto simp: filled_def)

lemma filled_length: "filled n off k arr arr' r \<Longrightarrow> length arr' = length arr"
  by (simp add: filled_def)

lemma filled_fail: "filled n off k arr arr' r \<Longrightarrow> r' < 0 \<Longrightarrow> filled n off (k + m) arr arr' r'"
  by (auto simp: filled_def)

lemma filled_append:
  assumes "filled n off k arr arr1 r1" "0 \<le> r1" "filled n (off + int k) m arr1 arr2 r"
  shows "filled n off (k + m) arr arr2 r"
  unfolding filled_def
proof (intro conjI allI impI)
  fix j
  assume j: "j < length arr" "off \<le> int j \<and> int j < off + int (k + m)" "0 \<le> r"
  show "\<exists>id. arr2 ! j = Some id \<and> 0 < id \<and> id < n"
  proof (cases "int j < off + int k")
    case True
    with assms j have "arr2 ! j = arr1 ! j" by (simp add: filled_def)
    with assms j True show ?thesis by (simp add: filled_def)
  next
    case False
    with assms j show ?thesis by (simp add: filled_def)
  qed
qed (use assms in \<open>auto simp: filled_def\<close>)

lemma reads_signal_sized: "reads_signal h h' \<Longrightarrow> sigs_sized h \<Longrightarrow> sigs_sized h' \<and> nbr_sigs h' = nbr_sigs h"
  by (auto simp: reads_signal_def sigs_sized_def advances_frame)

lemma get_sig_bounds: "sigs_sized h \<Longrightarrow> i < nbr_sigs h \<Longrightarrow> get_sig h (unat i) \<noteq> Crash Out_of_bounds"
  by (auto simp: get_sig_def the_sigs_def sigs_sized_def word_less_nat_alt rbind_def init_def array_get_def
    split: option.splits run.splits)

lemma ghw_get_base_type_bounds: "ghw_get_base_type p \<noteq> Crash Out_of_bounds"
  by (cases p) (auto simp: ghw_get_base_type_def split: ghw_type.splits)

lemma read_signal_scalar_fills:
  assumes "sigs_sized h" "0 \<le> off" "off < int (length arr)"
  shows "in_bounds (read_signal_scalar t off arr h) (\<lambda>((r, arr'), h'). filled (nbr_sigs h) off 1 arr arr' r)"
proof -
  have "filled n off 1 arr arr r" if "r < 0" for n r
    using that by (auto simp: filled_def)
  moreover have "filled n off 1 arr (arr[nat off := Some i]) r" if "r < 0 \<or> 0 < i \<and> i < n" for n i r
    using that assms(2,3) by (auto simp: filled_def nth_list_update nat_eq_iff2)
  moreover have "sigs_sized h1 \<and> nbr_sigs h1 = nbr_sigs h" if "ghw_read_uleb128 h = Done (p, h1)" for p h1
    using uleb.rd_frame [OF that] assms(1) by (simp add: sigs_sized_def)
  ultimately show ?thesis
    using assms(2,3) unfolding read_signal_scalar_def in_bounds_rbind
    by (auto intro!: in_boundsI simp: array_set_def split: option.splits)
      (auto simp: rbind_eq_Crash not_le get_sig_bounds ghw_get_base_type_bounds word_neq_0_conv
        split: if_splits)
qed

text \<open>
  The loop over the elements of an array, for an element of \<open>k\<close> scalars that is read within bounds,
  from the element \<open>m\<close> on with \<open>q\<close> elements to go.
\<close>

lemma read_signal_array_fills:
  assumes el: "\<And>off arr h. sigs_sized h \<Longrightarrow> 0 \<le> off \<Longrightarrow> off + int k \<le> int (length arr) \<Longrightarrow>
      in_bounds (ghw_read_signal p off arr h) (\<lambda>((r, arr'), h'). filled (nbr_sigs h) off k arr arr' r)"
  shows "sigs_sized h \<Longrightarrow> 0 \<le> off \<Longrightarrow> off + int (k * (m + q)) \<le> int (length arr) \<Longrightarrow>
    in_bounds (read_signal_array fuel p (int k) (int (k * m)) (int (k * (m + q))) off arr h)
      (\<lambda>((r, arr'), h'). filled (nbr_sigs h) (off + int (k * m)) (k * q) arr arr' r)"
proof (induction fuel arbitrary: m q arr h)
  case 0
  show ?case
    by (subst read_signal_array.simps, cases "k * m < k * (m + q)") (auto simp: filled_0)
next
  case (Suc fuel)
  show ?case
  proof (cases "k * m < k * (m + q)")
    case False
    then have "\<not> int (k * m) < int (k * (m + q))" "k * q = 0" by (simp_all only: of_nat_less_iff) simp_all
    then show ?thesis by (subst read_signal_array.simps) (simp only: if_False in_bounds_simps prod.case filled_0)
  next
    case True
    then have lt: "int (k * m) < int (k * (m + q))" by (simp only: of_nat_less_iff)
    from True obtain q' where q: "q = Suc q'" by (cases q) auto
    let ?off = "off + int (k * m)" and ?n = "nbr_sigs h"
    have "in_bounds (ghw_read_signal p ?off arr h) (\<lambda>((r, arr'), h'). filled ?n ?off k arr arr' r)"
    proof (rule el)
      have "?off + int k \<le> off + int (k * (m + q))" using q by (simp add: algebra_simps)
      with Suc.prems(3) show "?off + int k \<le> int (length arr)" by simp
    qed (use Suc.prems in simp_all)
    moreover have "in_bounds (rbind (c_int (int (k * m) + int k)) (\<lambda>i. read_signal_array fuel p (int k) i (int (k * (m + q))) off arr1 h1))
        (\<lambda>((r, arr'), h'). filled ?n ?off (k * q) arr arr' r)"
      if 1: "ghw_read_signal p ?off arr h = Done ((r1, arr1), h1)" "filled ?n ?off k arr arr1 r1" "\<not> r1 < 0"
      for r1 arr1 h1
    proof -
      have h1: "sigs_sized h1" "nbr_sigs h1 = ?n" "length arr1 = length arr"
        using ghw_read_signal_reads(1) [OF 1(1)] reads_signal_sized Suc.prems(1) filled_length [OF 1(2)] by auto
      have ap: "filled ?n (off + int (k * Suc m)) (k * q') arr1 a r \<Longrightarrow> filled ?n ?off (k + k * q') arr a r" for a r
        using filled_append [OF 1(2), of "k * q'" a r] 1(3) by (simp add: algebra_simps)
      have "in_bounds (read_signal_array fuel p (int k) (int (k * Suc m)) (int (k * (Suc m + q'))) off arr1 h1)
          (\<lambda>((r, arr'), h'). filled (nbr_sigs h1) (off + int (k * Suc m)) (k * q') arr1 arr' r)"
        using Suc.prems h1 q by (intro Suc.IH) (auto simp: algebra_simps)
      then have "in_bounds (read_signal_array fuel p (int k) (int (k * Suc m)) (int (k * (Suc m + q'))) off arr1 h1)
          (\<lambda>((r, arr'), h'). filled ?n ?off (k + k * q') arr arr' r)"
        using ap h1(2) by (auto elim!: in_bounds_mono)
      then show ?thesis using q by (auto simp: in_bounds_rbind algebra_simps)
    qed
    ultimately show ?thesis
      by (subst read_signal_array.simps)
        (simp only: lt if_True nat.case in_bounds_rbind, auto simp: q in_bounds_rbind elim!: in_bounds_mono filled_fail)
  qed
qed

lemma read_signal_fills:
  "sized t k \<Longrightarrow> type_ok t \<Longrightarrow> sigs_sized h \<Longrightarrow> 0 \<le> off \<Longrightarrow> off + int k \<le> int (length arr) \<Longrightarrow>
    in_bounds (ghw_read_signal (Some t) off arr h) (\<lambda>((r, arr'), h'). filled (nbr_sigs h) off k arr arr' r)"
  "fields_sized els k \<Longrightarrow> fields_ok els \<Longrightarrow> sigs_sized h \<Longrightarrow> 0 \<le> off + foff \<Longrightarrow>
      off + foff + int k \<le> int (length arr) \<Longrightarrow>
    in_bounds (read_signal_fields els off foff arr h)
      (\<lambda>((r, arr'), h'). filled (nbr_sigs h) (off + foff) k arr arr' r)"
proof (induction t k and els k arbitrary: off arr h and off foff arr h rule: sized_fields_sized.inducts)
  case (sized_scalar t)
  then show ?case
    using read_signal_scalar_fills [of h off arr t]
    by (cases t) (auto simp: ghw_read_signal.simps scalar_kinds_def)
next
  case (sized_subtype a n base rng)
  then show ?case
    using read_signal_scalar_fills [of h off arr "Subtype_scalar a n base rng"]
    by (simp add: ghw_read_signal.simps signal_scalar_kinds_def)
next
  case (sized_array el k rngs a n b m dims nbr)
  let ?q = "prod_list (map (\<lambda>r. nat (range_card r)) rngs)"
  from sized_array.prems have el: "type_ok el" "get_nbr_elements (Some el) = Done (int k)" "range_prod (int k) rngs = Done nbr"
    using sized_nbr(1) [OF sized_array.hyps(1)] by (auto split: run.splits)
  from range_prod_card [OF el(3) sized_array.hyps(2)] have nbr: "nbr = int (k * (0 + ?q))" by simp
  have "in_bounds (read_signal_array (array_rounds (int k) nbr) (Some el) (int k) (int (k * 0)) (int (k * (0 + ?q))) off arr h)
      (\<lambda>((r, arr'), h'). filled (nbr_sigs h) (off + int (k * 0)) (k * ?q) arr arr' r)"
    using sized_array.prems sized_array.IH [OF el(1)] by (intro read_signal_array_fills) simp_all
  with el nbr show ?case
    by (simp add: ghw_read_signal.simps signal_scalar_kinds_def)
next
  case (sized_record els k a n nbr)
  then show ?case
    using sized_record.IH [where foff = 0]
    by (simp add: ghw_read_signal.simps signal_scalar_kinds_def loop_fields_def)
next
  case (sized_subrecord els k a n base nbr)
  then have "\<exists>b m nbr' base_els. base = Type_record b m nbr' base_els \<and> length base_els = length els"
    by (auto split: ghw_type.splits dest: list_all2_lengthD)
  with sized_subrecord show ?case
    using sized_subrecord.IH [where foff = 0]
    by (auto simp: ghw_read_signal.simps signal_scalar_kinds_def loop_fields_def)
next
  case sized_nil
  then show ?case by (simp add: read_signal_fields.simps filled_0)
next
  case (sized_cons t k els m f)
  let ?n = "nbr_sigs h"
  from sized_cons.prems have t: "type_ok t" "fields_ok els" "get_nbr_elements (Some t) = Done (int k)"
    using sized_nbr(1) [OF sized_cons.hyps(1)] by auto
  have "in_bounds (ghw_read_signal (Some t) (off + foff) arr h) (\<lambda>((r, arr'), h'). filled ?n (off + foff) k arr arr' r)"
    using sized_cons.prems t by (intro sized_cons.IH(1)) auto
  moreover have "in_bounds (read_signal_fields els off (foff + int k) arr1 h1)
        (\<lambda>((r, arr'), h'). filled ?n (off + foff) (k + m) arr arr' r)"
    if 1: "ghw_read_signal (Some t) (off + foff) arr h = Done ((r1, arr1), h1)" "filled ?n (off + foff) k arr arr1 r1"
      "\<not> r1 < 0" for r1 arr1 h1
  proof -
    have h1: "sigs_sized h1" "nbr_sigs h1 = ?n" "length arr1 = length arr"
      using ghw_read_signal_reads(1) [OF 1(1)] reads_signal_sized sized_cons.prems(2) filled_length [OF 1(2)] by auto
    have "in_bounds (read_signal_fields els off (foff + int k) arr1 h1)
        (\<lambda>((r, arr'), h'). filled (nbr_sigs h1) (off + (foff + int k)) m arr1 arr' r)"
      using sized_cons.prems t h1 by (intro sized_cons.IH(2)) auto
    then show ?thesis
      using filled_append [OF 1(2)] 1(3) h1 by (auto elim!: in_bounds_mono simp: add.assoc)
  qed
  ultimately show ?case
    using t by (auto simp: read_signal_fields.simps in_bounds_rbind elim!: in_bounds_mono filled_fail)
qed

section \<open>Properties\<close>

text \<open>
  C14: Reading a signal stays within the array of its elements: for a well-formed type of \<open>k\<close> scalars
  without null ranges, \<open>ghw_read_hie\<close> makes no access out of bounds while it reads a signal or a port,
  and when it does not report an error, the node holds the numbers of \<open>k\<close> signals, each of them
  greater than 0 and below \<open>nbr_sigs\<close>, and a 0 behind them.
\<close>

theorem signal_elements_in_bounds:
  assumes "ghw_read_typeid h = Done (Some t, h1)" "type_ok t" "sized t k" "sigs_sized h" "el < length (hie_nodes h)"
  shows "in_bounds (read_hie_signal el h) (\<lambda>(ok, h'). ok = None \<or>
    (\<exists>ids. hie_u (hie_nodes h' ! el) = U_sig (Some t) (map Some ids @ [Some 0]) \<and> length ids = k \<and>
       list_all (\<lambda>id. 0 < id \<and> id < nbr_sigs h) ids))"
proof -
  let ?arr = "replicate k None @ [Some 0] :: u32 option list"
  have h1: "sigs_sized h1" "nbr_sigs h1 = nbr_sigs h" "hie_nodes h1 = hie_nodes h"
    using advances_frame [OF ghw_read_typeid_advances [OF assms(1)]] assms(4) by (auto simp: sigs_sized_def)
  have "in_bounds (ghw_read_signal (Some t) 0 ?arr h1) (\<lambda>((r, arr'), h'). filled (nbr_sigs h) 0 k ?arr arr' r)"
    using read_signal_fills(1) [OF assms(3,2) h1(1), of 0 ?arr] h1(2) by simp
  moreover have "\<exists>ids. arr' = map Some ids @ [Some 0] \<and> length ids = k \<and> list_all (\<lambda>id. 0 < id \<and> id < nbr_sigs h) ids"
    if f: "filled (nbr_sigs h) 0 k ?arr arr' r" "0 \<le> r" for arr' r
  proof (intro exI conjI)
    have each: "arr' ! j = Some (the (arr' ! j)) \<and> 0 < the (arr' ! j) \<and> the (arr' ! j) < nbr_sigs h" if "j < k" for j
    proof -
      have "\<forall>j<Suc k. j < k \<longrightarrow> (\<exists>id. arr' ! j = Some id \<and> 0 < id \<and> id < nbr_sigs h)"
        using f by (simp add: filled_def)
      with that obtain id where "arr' ! j = Some id \<and> 0 < id \<and> id < nbr_sigs h" using less_SucI by blast
      then show ?thesis by simp
    qed
    show "arr' = map Some (map the (take k arr')) @ [Some 0]"
      using f each by (intro nth_equalityI) (auto simp: filled_def nth_append less_Suc_eq)
    show "length (map the (take k arr')) = k" using f by (simp add: filled_def)
    show "list_all (\<lambda>id. 0 < id \<and> id < nbr_sigs h) (map the (take k arr'))"
      using f each by (auto simp: list_all_length filled_def)
  qed
  moreover have "el < length (hie_nodes h2)" if "ghw_read_signal (Some t) 0 ?arr h1 = Done ((r, arr'), h2)" for r arr' h2
    using reads_signal_frame(2) [of h1 h2] ghw_read_signal_reads(1) [OF that] h1(3) assms(5) by simp
  ultimately show ?thesis
    using assms(1) sized_nbr(1) [OF assms(3,2)]
    by (auto simp: read_hie_signal_def in_bounds_rbind set_u_def get_node_def set_node_def elim!: in_bounds_mono)
qed

text \<open>A signal of an array type of two bits, with the numbers 1 and 2\<close>

definition demo_pair :: ghw_type where
  "demo_pair = (let e = Type_enum 0 ghdl_rtik_type_b2 Anon_str [Anon_str, Anon_str] in
     Subtype_array 2 Anon_str (Type_array 1 Anon_str (Some e) [None]) 2 [Range_i32 ghdl_rtik_type_i32 False 0 1])"

definition demo_signal :: ghw_handler where
  "demo_signal = zero_handler\<lparr>stream := Some (file_of [1, 1, 2]), nbr_types := 1, types := Some [demo_pair],
     nbr_sigs := 3, sigs := Some (replicate 3 \<lparr>sig_type = None, sig_val = None\<rparr>), hie_nodes := [design_node]\<rparr>"

theorem signal_elements_in_bounds_witness:
  "runs_to (read_hie_signal 0 demo_signal) (\<lambda>(ok, h'). ok = Some () \<and>
     (\<exists>ids. hie_u (hie_nodes h' ! 0) = U_sig (Some demo_pair) (map Some ids @ [Some 0]) \<and> length ids = 2 \<and>
       list_all (\<lambda>id. 0 < id \<and> id < 3) ids))"
proof -
  have "runs_to (ghw_read_typeid demo_signal) (\<lambda>(p, h1). p = Some demo_pair)" by code_simp
  then obtain h1 where h1: "ghw_read_typeid demo_signal = Done (Some demo_pair, h1)"
    by (auto elim!: runs_toE)
  let ?e = "Type_enum 0 ghdl_rtik_type_b2 Anon_str [Anon_str, Anon_str]"
  have "sized ?e 1" by (rule sized_scalar) (simp add: scalar_kinds_def)
  from sized_array [OF this, of "[Range_i32 ghdl_rtik_type_i32 False 0 1]" 2 Anon_str 1 Anon_str "[None]" 2]
  have "sized demo_pair 2" by (simp add: demo_pair_def Let_def)
  moreover have "type_ok demo_pair"
    by (simp add: demo_pair_def get_nbr_elements_def scalar_kinds_def range_len_def int_fits_def)
  moreover have "sigs_sized demo_signal" "0 < length (hie_nodes demo_signal)" "nbr_sigs demo_signal = 3"
    by (simp_all add: sigs_sized_def demo_signal_def)
  moreover have "runs_to (read_hie_signal 0 demo_signal) (\<lambda>(ok, h'). ok = Some ())" by code_simp
  ultimately show ?thesis
    using signal_elements_in_bounds [OF h1, of 2 0] by (auto simp: runs_to_def split: run.splits)
qed

text \<open>
  A record with a field of ten bits and a field whose array is indexed from 6 to 0, which is a null
  range: its length is -5 for \<open>ghw_get_range_length\<close>.
\<close>

definition null_types :: ghw_handler where
  "null_types = zero_handler\<lparr>word_len := 4, off_len := 4, version := 1, nbr_str := 1,
     str_table := Some [Anon_lit],
     stream := Some (file_of ([0, 0, 0, 0] @ [6, 0, 0, 0] @ [22, 0, 2, 0, 0] @ [25, 0] @ [31, 0, 1, 1, 2] @
       [35, 0, 3, 25, 0, 9] @ [35, 0, 3, 25, 6, 0] @ [32, 0, 2, 0, 4, 0, 5] @ [0]))\<rparr>"

definition null_signal :: "ghw_handler \<Rightarrow> ghw_handler" where
  "null_signal h = h\<lparr>stream := Some (file_of (6 # map word_of_nat [1..<11])), nbr_sigs := 11,
     sigs := Some (replicate 11 \<lparr>sig_type = None, sig_val = None\<rparr>), hie_nodes := [design_node]\<rparr>"

definition crash_of :: "'a run \<Rightarrow> crash option" where
  "crash_of m = (case m of Done x \<Rightarrow> None | Crash c \<Rightarrow> Some c)"

text \<open>
  A null range makes \<open>ghw_read_hie\<close> write behind an array: the record type above is read without
  an error and counts 10 - 5 = 5 scalars, so that a signal of it gets an array of 6 elements, into
  which \<open>ghw_read_signal\<close> writes the ten elements of the first field.
\<close>

lemma null_range_overflow:
  "runs_to (ghw_read_type null_types) (\<lambda>(r, h). r = 0 \<and> get_nbr_elements (Some (the (types h) ! 5)) = Done 5 \<and>
     crash_of (read_hie_signal 0 (null_signal h)) = Some Out_of_bounds)"
  by code_simp

end
