(* ===== verification/Ghw_Hie_Tree.thy ===== *)
theory Ghw_Hie_Tree
  imports Ghw_Signal_Inv
begin

text \<open>
  The shape of the hierarchy that \<open>ghw_read_hie\<close> builds: the nodes are allocated in the order in which
  a walk over the tree meets them, each node points to its first child and to its next brother, and the
  loop keeps the position at which the next node is linked.
\<close>

section \<open>Forests in the order of a walk\<close>

text \<open>
  A forest is given by the list \<open>ps\<close> of the parents of its nodes. \<open>first_with ps p i\<close> is the first
  child of \<open>p\<close> behind \<open>i\<close>.
\<close>

definition first_with :: "nat option list \<Rightarrow> nat \<Rightarrow> nat \<Rightarrow> nat option" where
  "first_with ps p i = List.find (\<lambda>j. ps ! j = Some p) [Suc i..<length ps]"

definition sibling :: "nat option list \<Rightarrow> nat \<Rightarrow> nat option" where
  "sibling ps i = (case ps ! i of None \<Rightarrow> None | Some p \<Rightarrow> first_with ps p i)"

inductive anc :: "nat option list \<Rightarrow> nat \<Rightarrow> nat \<Rightarrow> bool" for ps where
  anc_refl [simp]: "anc ps i i"
| anc_up: "ps ! i = Some p \<Longrightarrow> anc ps p q \<Longrightarrow> anc ps i q"

text \<open>
  The nodes from \<open>r\<close> on form a tree with the root \<open>r\<close>, in the order of a walk: the parent of a node is
  the node before it or one of the ancestors of that node.
\<close>

definition nested :: "nat option list \<Rightarrow> nat \<Rightarrow> bool" where
  "nested ps r \<longleftrightarrow> r < length ps \<and> ps ! r = None \<and>
     (\<forall>i. r \<le> i \<and> Suc i < length ps \<longrightarrow> (\<exists>p. ps ! Suc i = Some p \<and> r \<le> p \<and> p \<le> i \<and> anc ps i p))"

lemma first_with_SomeD:
  "first_with ps p i = Some j \<Longrightarrow> i < j \<and> j < length ps \<and> ps ! j = Some p"
  by (auto simp: first_with_def find_Some_iff)

lemma first_with_None:
  "first_with ps p i = None \<longleftrightarrow> (\<forall>j. i < j \<and> j < length ps \<longrightarrow> ps ! j \<noteq> Some p)"
  by (auto simp: first_with_def find_None_iff)

lemma first_with_snoc:
  assumes "i < length ps"
  shows "first_with (ps @ [x]) p i = (case first_with ps p i of Some j \<Rightarrow> Some j
     | None \<Rightarrow> if x = Some p then Some (length ps) else None)"
proof -
  have "List.find (\<lambda>j. (ps @ [x]) ! j = Some p) [Suc i..<length ps] = first_with ps p i"
    unfolding first_with_def by (rule find_cong) (simp_all add: nth_append)
  moreover have "[Suc i..<length (ps @ [x])] = [Suc i..<length ps] @ [length ps]"
    using assms by simp
  moreover have "List.find Q (as @ [b]) = (case List.find Q as of Some j \<Rightarrow> Some j | None \<Rightarrow> if Q b then Some b else None)"
    for Q and as :: "nat list" and b
    by (induction as) auto
  ultimately show ?thesis by (simp add: first_with_def)
qed

lemma first_with_self: "Suc i = length ps \<Longrightarrow> first_with ps p i = None"
  by (auto simp: first_with_None)

lemma nested_parent:
  assumes "nested ps r" "r < i" "i < length ps"
  obtains p where "ps ! i = Some p" "r \<le> p" "p < i" "anc ps (i - 1) p"
proof -
  obtain j where j: "i = Suc j" using assms(2) by (cases i) auto
  with assms have "\<exists>p. ps ! Suc j = Some p \<and> r \<le> p \<and> p \<le> j \<and> anc ps j p" by (simp add: nested_def)
  with that j show ?thesis by auto
qed

lemma nested_parentD: "nested ps r \<Longrightarrow> ps ! i = Some p \<Longrightarrow> r \<le> i \<Longrightarrow> i < length ps \<Longrightarrow> r \<le> p \<and> p < i"
proof -
  assume *: "nested ps r" "ps ! i = Some p" "r \<le> i" "i < length ps"
  then have "r \<noteq> i" by (auto simp: nested_def)
  then have "r < i" using *(3) by simp
  from nested_parent [OF *(1) this *(4)] *(2) show ?thesis by (metis option.inject)
qed

lemma anc_le: "anc ps i q \<Longrightarrow> nested ps r \<Longrightarrow> r \<le> i \<Longrightarrow> i < length ps \<Longrightarrow> r \<le> q \<and> q \<le> i"
proof (induction rule: anc.induct)
  case (anc_up i p q)
  then have p: "r \<le> p \<and> p < i" by (intro nested_parentD)
  with anc_up have "r \<le> q \<and> q \<le> p" by simp
  with p show ?case by simp
qed simp

lemma anc_append:
  "anc ps i q \<Longrightarrow> nested ps r \<Longrightarrow> r \<le> i \<Longrightarrow> i < length ps \<Longrightarrow> anc (ps @ xs) i q"
proof (induction rule: anc.induct)
  case (anc_up i p q)
  then have "r \<le> p \<and> p < i" by (intro nested_parentD)
  with anc_up have "anc (ps @ xs) p q" by simp
  with anc_up.hyps(1) anc_up.prems(3) show ?case by (auto simp: nth_append intro!: anc.anc_up [of _ i p])
qed simp

lemma anc_trans: "anc ps i q \<Longrightarrow> anc ps q s \<Longrightarrow> anc ps i s"
  by (induction rule: anc.induct) (auto intro: anc.anc_up)

lemma nested_snoc:
  assumes "nested ps r" "anc ps (length ps - 1) p" "r \<le> p"
  shows "nested (ps @ [Some p]) r"
proof -
  have n: "r < length ps" using assms(1) by (simp add: nested_def)
  then have p: "p \<le> length ps - 1" using anc_le [OF assms(2,1)] by simp
  have "\<exists>q. (ps @ [Some p]) ! Suc i = Some q \<and> r \<le> q \<and> q \<le> i \<and> anc (ps @ [Some p]) i q"
    if i: "r \<le> i" "i < length ps" for i
  proof (cases "Suc i < length ps")
    case True
    with i assms(1) obtain q where "ps ! Suc i = Some q" "r \<le> q" "q \<le> i" "anc ps i q"
      by (auto simp: nested_def)
    with True i anc_append [OF _ assms(1)] show ?thesis by (auto simp: nth_append)
  next
    case False
    with i have "i = length ps - 1" "Suc i = length ps" by simp_all
    with assms(2,3) p i anc_append [OF assms(2,1)] show ?thesis by (simp add: nth_append)
  qed
  with n assms(1) show ?thesis by (simp add: nested_def nth_append)
qed

text \<open>
  An ancestor of a node is an ancestor of the nodes between them. Hence a node has no brother within
  the walk over what is below it.
\<close>

lemma anc_between:
  assumes "nested ps r" "r \<le> x" "x \<le> j" "j \<le> i" "i < length ps" "anc ps i x"
  shows "anc ps j x"
  using assms(4-6)
proof (induction i rule: less_induct)
  case (less i)
  show ?case
  proof (cases "i = j")
    case False
    with less.prems have i: "j < i" "x \<noteq> i" "r < i" using assms(2,3) by auto
    from nested_parent [OF assms(1) this(3) less.prems(2)] obtain p where
      p: "ps ! i = Some p" "r \<le> p" "p < i" "anc ps (i - 1) p" by blast
    with less.prems(3) i(2) have "anc ps p x" by (auto elim: anc.cases)
    with p(4) have "anc ps (i - 1) x" by (rule anc_trans)
    with less.IH [of "i - 1"] less.prems i show ?thesis by simp
  qed (use less.prems in simp)
qed

lemma no_brother_below:
  assumes "nested ps r" "r \<le> x" "x < j" "j \<le> i" "i < length ps" "anc ps i x" "ps ! x = Some p"
  shows "ps ! j \<noteq> Some p"
proof
  assume j: "ps ! j = Some p"
  have "anc ps j x" using assms anc_between by simp
  with j assms(3) have "anc ps p x" by (auto elim: anc.cases)
  moreover have "r \<le> p \<and> p < x" using nested_parentD [OF assms(1,7,2)] assms by simp
  ultimately show False using anc_le [OF _ assms(1)] assms by fastforce
qed

section \<open>The links of the nodes\<close>

fun child_of :: "hie_u \<Rightarrow> nat option" where
  "child_of (U_blk child _) = child"
| "child_of _ = None"

definition parents :: "ghw_hie list \<Rightarrow> nat option list" where
  "parents ns = map hie_parent ns"

definition links :: "ghw_hie list \<Rightarrow> nat \<Rightarrow> bool" where
  "links ns r \<longleftrightarrow> (\<forall>i. r \<le> i \<and> i < length ns \<longrightarrow>
     hie_brother (ns ! i) = sibling (parents ns) i \<and> child_of (hie_u (ns ! i)) = first_with (parents ns) i i)"

definition hie_tree :: "ghw_hie list \<Rightarrow> nat \<Rightarrow> bool" where
  "hie_tree ns r \<longleftrightarrow> nested (parents ns) r \<and> links ns r"

text \<open>Where the next node is linked: \<open>blk\<close> is the node before it or one of its ancestors, and \<open>slot\<close> the end of the list of its children.\<close>

definition position :: "nat option list \<Rightarrow> nat \<Rightarrow> nat \<Rightarrow> hie_slot \<Rightarrow> bool" where
  "position ps r blk slot \<longleftrightarrow> r \<le> blk \<and> blk < length ps \<and> anc ps (length ps - 1) blk \<and>
     (case slot of
        Slot_child n \<Rightarrow> n = blk \<and> first_with ps blk blk = None
      | Slot_brother l \<Rightarrow> r \<le> l \<and> l < length ps \<and> ps ! l = Some blk \<and> first_with ps blk l = None)"

lemma length_parents [simp]: "length (parents ns) = length ns"
  by (simp add: parents_def)

lemma parents_nth [simp]: "i < length ns \<Longrightarrow> parents ns ! i = hie_parent (ns ! i)"
  by (simp add: parents_def)

lemma parents_snoc [simp]: "parents (ns @ [node]) = parents ns @ [hie_parent node]"
  by (simp add: parents_def)

lemma parents_update [simp]: "hie_parent node = hie_parent (ns ! n) \<Longrightarrow> parents (ns[n := node]) = parents ns"
  by (cases "n < length ns") (auto simp: parents_def map_update list_update_same_conv list_update_beyond)

text \<open>The fields that are not links may change.\<close>

lemma hie_tree_update:
  assumes "hie_tree ns r" "hie_parent node = hie_parent (ns ! n)" "hie_brother node = hie_brother (ns ! n)"
    "child_of (hie_u node) = child_of (hie_u (ns ! n))"
  shows "hie_tree (ns[n := node]) r"
  using assms by (auto simp: hie_tree_def links_def nth_list_update)
    (metis nth_list_update_eq nth_list_update_neq)+

text \<open>The new node is linked behind the children of \<open>blk\<close>.\<close>

lemma snoc_links:
  assumes t: "hie_tree ns r" and pos: "position (parents ns) r blk slot" and node: "hie_parent node = Some blk"
    "hie_brother node = None" "child_of (hie_u node) = None"
    and i: "r \<le> i" "i < length ns"
  shows "sibling (parents (ns @ [node])) i =
      (if slot = Slot_brother i then Some (length ns) else hie_brother (ns ! i))"
    "first_with (parents (ns @ [node])) i i =
      (if slot = Slot_child i then Some (length ns) else child_of (hie_u (ns ! i)))"
proof -
  let ?ps = "parents ns"
  have old: "hie_brother (ns ! i) = sibling ?ps i" "child_of (hie_u (ns ! i)) = first_with ?ps i i"
    using t i by (auto simp: hie_tree_def links_def)
  have later: "j \<le> i \<or> first_with ?ps p i \<noteq> None" if "j < length ns" "?ps ! j = Some p" for j p
    using that by (rule_tac ccontr) (auto simp: first_with_None simp del: parents_nth)
  show "sibling (parents (ns @ [node])) i =
      (if slot = Slot_brother i then Some (length ns) else hie_brother (ns ! i))"
  proof (cases "?ps ! i")
    case (Some p)
    have *: "slot = Slot_brother i" if "p = blk" "first_with ?ps blk i = None"
    proof (cases slot)
      case (Slot_child n)
      have "blk < i" using nested_parentD [of ?ps r i p] t Some i that by (simp add: hie_tree_def)
      with pos Slot_child Some that i show ?thesis by (auto simp: position_def first_with_None)
    next
      case (Slot_brother l)
      with pos later [of l blk] that have "l \<le> i" by (auto simp: position_def)
      moreover have "\<not> l < i" using pos Slot_brother Some that i by (auto simp: position_def first_with_None)
      ultimately show ?thesis using Slot_brother by simp
    qed
    have **: "p = blk \<and> first_with ?ps blk i = None" if "slot = Slot_brother i"
      using pos that Some i by (simp add: position_def)
    have "slot = Slot_brother i \<longleftrightarrow> p = blk \<and> first_with ?ps p i = None" using * ** by blast
    moreover have "sibling (parents (ns @ [node])) i = first_with (?ps @ [Some blk]) p i"
      using Some i node(1) by (simp add: sibling_def nth_append del: parents_nth)
    moreover have "hie_brother (ns ! i) = first_with ?ps p i" using old(1) Some by (simp add: sibling_def)
    ultimately show ?thesis
      using i by (cases "first_with ?ps p i") (auto simp: first_with_snoc simp del: parents_nth)
  next
    case None
    then have "slot \<noteq> Slot_brother i" using pos i by (auto simp: position_def)
    with None i old show ?thesis by (simp add: sibling_def nth_append)
  qed
  have "slot = Slot_child i" if "i = blk" "first_with ?ps i i = None"
  proof (cases slot)
    case (Slot_child n)
    with pos that show ?thesis by (simp add: position_def)
  next
    case (Slot_brother l)
    with pos have l: "r \<le> l" "l < length ns" "?ps ! l = Some blk" by (auto simp: position_def)
    with nested_parentD [of ?ps r l blk] t have "blk < l" by (simp add: hie_tree_def)
    with that l have False by (auto simp: first_with_None simp del: parents_nth)
    then show ?thesis ..
  qed
  moreover have "i = blk \<and> first_with ?ps i i = None" if "slot = Slot_child i"
    using pos that by (simp add: position_def)
  ultimately show "first_with (parents (ns @ [node])) i i =
      (if slot = Slot_child i then Some (length ns) else child_of (hie_u (ns ! i)))"
    using node i old by (auto simp: first_with_snoc split: option.splits)
qed

definition tree_at :: "ghw_handler \<Rightarrow> nat \<Rightarrow> nat option list \<Rightarrow> bool" where
  "tree_at h r ps \<longleftrightarrow> hie_tree (hie_nodes h) r \<and> parents (hie_nodes h) = ps"

lemma tree_at_length: "tree_at h r ps \<Longrightarrow> length (hie_nodes h) = length ps"
  by (auto simp: tree_at_def)

lemma tree_at_nested: "tree_at h r ps \<Longrightarrow> nested ps r"
  by (auto simp: tree_at_def hie_tree_def)

lemma tree_at_advances: "advances h h' \<Longrightarrow> tree_at h' r ps = tree_at h r ps"
  by (simp add: tree_at_def advances_frame)

lemma set_hie_name_tree: "set_hie_name n s h = Done h' \<Longrightarrow> tree_at h r ps \<Longrightarrow> tree_at h' r ps"
  by (auto simp: set_hie_name_def set_node_def get_node_def tree_at_def intro!: hie_tree_update)

lemma last_child: "hie_tree ns r \<Longrightarrow> Suc n = length ns \<Longrightarrow> child_of (hie_u (ns ! n)) = None"
  using first_with_self [of n "parents ns" n] by (auto simp: hie_tree_def links_def nested_def)

lemma set_u_tree:
  "set_u n u h = Done h' \<Longrightarrow> tree_at h r ps \<Longrightarrow> Suc n = length ps \<Longrightarrow> child_of u = None \<Longrightarrow> tree_at h' r ps"
  by (auto simp: set_u_def set_node_def get_node_def tree_at_def last_child intro!: hie_tree_update)

lemma store_slot_nodes:
  assumes "store_slot slot (Some p) h = Done h'"
  shows "parents (hie_nodes h') = parents (hie_nodes h)"
    "hie_brother (hie_nodes h' ! i) = (if slot = Slot_brother i then Some p else hie_brother (hie_nodes h ! i))"
    "child_of (hie_u (hie_nodes h' ! i)) = (if slot = Slot_child i then Some p else child_of (hie_u (hie_nodes h ! i)))"
proof -
  have c: "child_of (set_blk_child (Some p) u) = Some p" for u by (cases u) auto
  show "parents (hie_nodes h') = parents (hie_nodes h)"
    using assms by (cases slot) (auto simp: get_node_def set_node_def)
  show "hie_brother (hie_nodes h' ! i) = (if slot = Slot_brother i then Some p else hie_brother (hie_nodes h ! i))"
    using assms by (cases slot) (auto simp: get_node_def set_node_def nth_list_update)
  show "child_of (hie_u (hie_nodes h' ! i)) = (if slot = Slot_child i then Some p else child_of (hie_u (hie_nodes h ! i)))"
    using assms c by (cases slot) (auto simp: get_node_def set_node_def nth_list_update)
qed

lemma new_node_tree:
  assumes "new_node kind blk slot h = Done (el, h')" "tree_at h r ps" "position ps r blk slot"
  shows "el = length ps \<and> tree_at h' r (ps @ [Some blk])"
proof -
  let ?ns = "hie_nodes h"
  let ?node = "\<lparr>hie_kind = kind, hie_parent = Some blk, hie_name = Null_str, hie_brother = None, hie_u = U_none\<rparr>"
  have ps: "ps = parents ?ns" "hie_tree ?ns r" using assms(2) by (simp_all add: tree_at_def)
  from assms(1) have st: "store_slot slot (Some (length ?ns)) (h\<lparr>hie_nodes := ?ns @ [?node]\<rparr>) = Done h'"
    and el: "el = length ?ns"
    by (auto simp: new_node_def Let_def)
  note st = store_slot_nodes [OF st, simplified]
  have n: "nested (ps @ [Some blk]) r"
    using ps assms(3) by (intro nested_snoc) (auto simp: hie_tree_def position_def)
  have slot: "slot \<noteq> Slot_brother (length ps)" "slot \<noteq> Slot_child (length ps)"
    using assms(3) by (auto simp: position_def split: hie_slot.splits)
  have "hie_brother (hie_nodes h' ! i) = sibling (ps @ [Some blk]) i \<and>
      child_of (hie_u (hie_nodes h' ! i)) = first_with (ps @ [Some blk]) i i"
    if i: "r \<le> i" "i < Suc (length ps)" for i
  proof (cases "i = length ps")
    case True
    then show ?thesis
      using slot st(2,3) [of i] ps(1) first_with_self [of i "ps @ [Some blk]"]
      by (auto simp: sibling_def nth_append)
  next
    case False
    with i ps(1) have "i < length ?ns" by simp
    with snoc_links [OF ps(2) assms(3) [unfolded ps(1)], of ?node i] i st(2,3) [of i] ps(1) show ?thesis
      by (simp add: nth_append)
  qed
  with n st(1) ps(1) el show ?thesis
    by (auto simp: tree_at_def hie_tree_def links_def simp del: parents_nth dest: arg_cong [where f = length])
qed

section \<open>The loop keeps the tree and the position\<close>

lemma get_node_links:
  assumes "get_node h n = Done node" "tree_at h r ps" "r \<le> n"
  shows "n < length ps \<and> hie_parent node = ps ! n \<and> hie_brother node = sibling ps n \<and>
    child_of (hie_u node) = first_with ps n n"
  using assms by (auto simp: get_node_def tree_at_def hie_tree_def links_def)

lemma blk_child_of: "blk_child u = Done c \<Longrightarrow> child_of u = c"
  by (cases u) auto

text \<open>The chain of the brothers of a child \<open>l\<close> of \<open>p\<close> leads to the last child of \<open>p\<close>.\<close>

lemma last_brother_tree:
  "last_brother fuel h l = Done m \<Longrightarrow> tree_at h r ps \<Longrightarrow> r \<le> l \<Longrightarrow> l < length ps \<Longrightarrow> ps ! l = Some p \<Longrightarrow>
   r \<le> m \<and> m < length ps \<and> ps ! m = Some p \<and> first_with ps p m = None"
proof (induction fuel h l rule: last_brother.induct)
  case (2 fuel h l)
  then obtain node where node: "get_node h l = Done node" by auto
  note n = get_node_links [OF node "2.prems"(2,3)]
  show ?case
  proof (cases "hie_brother node")
    case None
    with 2 n node show ?thesis by (simp add: sibling_def)
  next
    case (Some b)
    with n "2.prems"(5) have "first_with ps p l = Some b" by (simp add: sibling_def)
    note b = first_with_SomeD [OF this]
    with Some node "2.prems" show ?thesis by (intro "2.IH" [OF node Some]) simp_all
  qed
qed simp

lemma hie_up_tree:
  assumes "hie_up blk h = Done (blk', slot')" "tree_at h r ps" "position ps r blk slot"
  shows "position ps r blk' slot'"
proof -
  have blk: "r \<le> blk" "blk < length ps" "anc ps (length ps - 1) blk"
    using assms(3) by (simp_all add: position_def)
  from assms(1) obtain node p pnode c where 1: "get_node h blk = Done node" "hie_parent node = Some p"
    "get_node h p = Done pnode" "blk_child (hie_u pnode) = Done c"
    and rest: "(case c of None \<Rightarrow> Done (p, Slot_child p)
     | Some l \<Rightarrow> rbind (last_brother (length (hie_nodes h)) h l) (\<lambda>l. Done (p, Slot_brother l))) = Done (blk', slot')"
    by (auto simp: hie_up_def)
  from get_node_links [OF 1(1) assms(2) blk(1)] 1(2) have p: "ps ! blk = Some p" by simp
  with nested_parentD [OF tree_at_nested [OF assms(2)] this blk(1,2)] have "r \<le> p" "p < length ps"
    using blk(2) by simp_all
  moreover have "anc ps (length ps - 1) p"
    by (rule anc_trans [OF blk(3)]) (rule anc_up [OF p], simp)
  moreover have "first_with ps p p = c"
    using get_node_links [OF 1(3) assms(2) calculation(1)] blk_child_of [OF 1(4)] by simp
  ultimately show ?thesis
  proof (cases c)
    case (Some l)
    with rest obtain m where m: "last_brother (length (hie_nodes h)) h l = Done m" "blk' = p" "slot' = Slot_brother m"
      by auto
    from Some \<open>first_with ps p p = c\<close> have "p < l \<and> l < length ps \<and> ps ! l = Some p"
      by (auto dest: first_with_SomeD)
    with last_brother_tree [OF m(1) assms(2)] \<open>r \<le> p\<close> m \<open>anc ps (length ps - 1) p\<close> \<open>p < length ps\<close> show ?thesis
      by (auto simp: position_def)
  qed (use rest in \<open>auto simp: position_def\<close>)
qed

lemma read_hie_block_tree:
  assumes "read_hie_block t el h = Done (next, h')" "tree_at h r ps" "Suc el = length ps"
  shows "tree_at h' r ps \<and> (next = None \<or> next = Some (el, Slot_child el))"
proof (cases "t = ghw_hie_generate_for")
  case True
  with assms(1) obtain h1 ty h2 v h3 where 1: "set_u el (U_blk None None) h = Done h1" "ghw_read_typeid h1 = Done (ty, h2)"
    "ghw_read_value ty h2 = Done (v, h3)"
    and rest: "(case v of
         None \<Rightarrow> rbind (set_u el (U_blk None (Some (ty, Val_none))) h3) (\<lambda>h. Done (None, h))
       | Some v \<Rightarrow> rbind (set_u el (U_blk None (Some (ty, v))) h3) (\<lambda>h.
           Done (Some (el, Slot_child el), h))) = Done (next, h')"
    by (auto simp: read_hie_block_def)
  have "tree_at h3 r ps"
    using set_u_tree [OF 1(1) assms(2,3)] tree_at_advances [OF ghw_read_typeid_advances [OF 1(2)]]
      tree_at_advances [OF ghw_read_value_advances [OF 1(3)]] by simp
  with rest assms(3) set_u_tree [of el] show ?thesis by (auto split: option.splits)
next
  case False
  with assms set_u_tree [of el _ h _ r ps] show ?thesis by (auto simp: read_hie_block_def)
qed

lemma read_hie_signal_tree:
  assumes "read_hie_signal el h = Done (ok, h')" "tree_at h r ps" "Suc el = length ps"
  shows "tree_at h' r ps"
proof -
  from assms(1) obtain ty h1 k where 1: "ghw_read_typeid h = Done (ty, h1)" "get_nbr_elements ty = Done k"
    and rest: "(if k < 0 then rbind (set_u el (U_sig ty []) h1) (\<lambda>h. Done (None, h))
     else rbind (c_int (k + 1)) (\<lambda>n.
       rbind (ghw_read_signal ty 0 (replicate (nat k) None @ [Some 0]) h1) (\<lambda>((res, arr), h).
       rbind (set_u el (U_sig ty arr) h) (\<lambda>h. Done (if res < 0 then None else Some (), h))))) = Done (ok, h')"
    by (auto simp: read_hie_signal_def)
  have t: "tree_at h1 r ps" using assms(2) tree_at_advances [OF ghw_read_typeid_advances [OF 1(1)]] by simp
  show ?thesis
  proof (cases "k < 0")
    case True
    with rest t assms(3) set_u_tree [of el _ h1 _ r ps] show ?thesis by auto
  next
    case False
    with rest obtain res arr h2 where 2: "ghw_read_signal ty 0 (replicate (nat k) None @ [Some 0]) h1 = Done ((res, arr), h2)"
      "set_u el (U_sig ty arr) h2 = Done h'"
      by auto
    with reads_signal_frame(2) ghw_read_signal_reads(1) have "hie_nodes h2 = hie_nodes h1" by blast
    with t have "tree_at h2 r ps" by (simp add: tree_at_def)
    with 2(2) assms(3) set_u_tree show ?thesis by simp
  qed
qed

lemma position_snoc:
  assumes "nested (ps @ [Some blk]) r" "position ps r blk slot"
  shows "position (ps @ [Some blk]) r blk (Slot_brother (length ps))"
    "position (ps @ [Some blk]) r (length ps) (Slot_child (length ps))"
proof -
  have "anc (ps @ [Some blk]) (length ps) blk" by (rule anc_up [of _ _ blk]) simp_all
  then show "position (ps @ [Some blk]) r blk (Slot_brother (length ps))"
    using assms by (auto simp: position_def nested_def intro: first_with_self)
  show "position (ps @ [Some blk]) r (length ps) (Slot_child (length ps))"
    using assms by (auto simp: position_def nested_def intro: first_with_self)
qed

lemma read_hie_el_tree:
  assumes "read_hie_el t blk slot h = Done (next, h')" "tree_at h r ps" "position ps r blk slot"
  shows "tree_at h' r (ps @ [Some blk]) \<and>
    (\<forall>blk' slot'. next = Some (blk', slot') \<longrightarrow> position (ps @ [Some blk]) r blk' slot')"
proof -
  let ?ps = "ps @ [Some blk]"
  from assms(1) obtain el h1 str h2 where 1: "new_node t blk slot h = Done (el, h1)"
    "ghw_read_uleb128 h1 = Done (str, h2)"
    by (auto simp: read_hie_el_def Let_def)
  note t1 = new_node_tree [OF 1(1) assms(2,3)]
  with tree_at_advances [OF uleb.rd_advances [OF 1(2)]] have t2: "tree_at h2 r ?ps" "el = length ps" by simp_all
  note pos = position_snoc [OF tree_at_nested [OF t2(1)] assms(3)]
  show ?thesis
  proof (cases str)
    case (Some s)
    with assms(1) 1 obtain name h3 where 3: "str_entry h2 s = Done name" "set_hie_name el name h2 = Done h3"
      "(if t = ghw_hie_process then Done (Some (blk, Slot_brother el), h3)
         else if t \<in> set blk_kinds then read_hie_block t el h3
         else if t \<in> set sig_kinds
         then rbind (read_hie_signal el h3) (\<lambda>(ok, h). Done (map_option (\<lambda>_. (blk, Slot_brother el)) ok, h))
         else Crash Aborted) = Done (next, h')"
      by (auto simp: read_hie_el_def Let_def)
    from set_hie_name_tree [OF 3(2) t2(1)] have "tree_at h3 r ?ps" .
    with 3(3) t2(2) pos read_hie_block_tree [of t el h3 _ _ r ?ps] read_hie_signal_tree [of el h3 _ _ r ?ps]
    show ?thesis by (fastforce split: if_splits)
  qed (use assms(1) 1 t2 in \<open>auto simp: read_hie_el_def Let_def\<close>)
qed

lemma read_hie_loop_tree:
  "read_hie_loop blk slot h = Done (res, h') \<Longrightarrow> tree_at h r ps \<Longrightarrow> position ps r blk slot \<Longrightarrow>
   hie_tree (hie_nodes h') r"
proof (induction blk slot h arbitrary: ps rule: read_hie_loop.induct)
  case (1 blk slot h)
  then obtain t h1 where h1: "h_fgetc h = Done (t, h1)" by (subst (asm) read_hie_loop.simps) auto
  with "1.prems"(2) tree_at_advances [OF h_fgetc_advances] have t1: "tree_at h1 r ps" by blast
  then have ok1: "hie_tree (hie_nodes h1) r" by (simp add: tree_at_def)
  show ?case
  proof (cases "t = None \<or> t = Some 0")
    case True
    with "1.prems"(1) h1 ok1 show ?thesis by (subst (asm) read_hie_loop.simps) auto
  next
    case False
    then obtain b where b: "t = Some b" "b \<noteq> 0" by auto
    show ?thesis
    proof (cases "hie_of b = ghw_hie_eos")
      case True
      with "1.prems"(1) h1 b obtain blk' slot' where up: "hie_up blk h1 = Done (blk', slot')"
        "read_hie_loop blk' slot' h1 = Done (res, h')"
        by (subst (asm) read_hie_loop.simps) auto
      with "1.IH"(1) [OF h1 refl b True up(1) refl up(2) t1] hie_up_tree [OF up(1) t1 "1.prems"(3)] show ?thesis
        by simp
    next
      case False
      with "1.prems"(1) h1 b obtain next' h2 where el: "read_hie_el (hie_of b) blk slot h1 = Done (next', h2)"
        and rest: "(case next' of None \<Rightarrow> Done (-1, h2) | Some (blk, slot) \<Rightarrow> read_hie_loop blk slot h2) = Done (res, h')"
        by (subst (asm) read_hie_loop.simps) auto
      note t2 = read_hie_el_tree [OF el t1 "1.prems"(3)]
      show ?thesis
      proof (cases next')
        case None
        with rest t2 show ?thesis by (simp add: tree_at_def)
      next
        case (Some p)
        obtain blk' slot' where p: "p = (blk', slot')" by (cases p)
        with Some rest t2 have "read_hie_loop blk' slot' h2 = Done (res, h')" "tree_at h2 r (ps @ [Some blk])"
          "position (ps @ [Some blk]) r blk' slot'" by simp_all
        then show ?thesis by (rule "1.IH"(2) [OF h1 refl b False el refl Some p [symmetric]])
      qed
    qed
  qed
qed

section \<open>The hierarchy section is read to its end\<close>

definition keeps :: "ghw_handler \<Rightarrow> ghw_handler \<Rightarrow> bool" where
  "keeps h h' \<longleftrightarrow> types h' = types h \<and> hie h' = hie h"

lemma keeps_trans: "keeps h h' \<Longrightarrow> keeps h' h'' \<Longrightarrow> keeps h h''"
  by (simp add: keeps_def)

lemma keeps_advances: "advances h h' \<Longrightarrow> keeps h h'"
  by (simp add: keeps_def advances_frame)

lemma keeps_node: "set_u n u h = Done h' \<Longrightarrow> keeps h h'" "set_hie_name n s h = Done h' \<Longrightarrow> keeps h h'"
  by (auto simp: keeps_def set_u_def set_hie_name_def set_node_def)

lemma keeps_new_node: "new_node kind blk slot h = Done (el, h') \<Longrightarrow> keeps h h'"
  by (cases slot) (auto simp: keeps_def new_node_def Let_def set_node_def)

lemma keeps_signal: "ghw_read_signal p off arr h = Done ((r, arr'), h') \<Longrightarrow> keeps h h'"
  using ghw_read_signal_reads(1) reads_signal_frame(4,5) by (fastforce simp: keeps_def)

lemmas keeps_reads = keeps_node keeps_new_node keeps_signal keeps_advances [OF uleb.rd_advances]
  keeps_advances [OF h_fgetc_advances] keeps_advances [OF ghw_read_typeid_advances]
  keeps_advances [OF ghw_read_value_advances]

lemma keeps_block: "read_hie_block t el h = Done (next, h') \<Longrightarrow> keeps h h'"
  by (auto simp: read_hie_block_def split: if_splits option.splits dest!: keeps_reads) (simp_all add: keeps_def)

lemma keeps_hie_signal: "read_hie_signal el h = Done (ok, h') \<Longrightarrow> keeps h h'"
  by (auto simp: read_hie_signal_def split: if_splits dest!: keeps_reads) (simp_all add: keeps_def)

lemma keeps_hie_el: "read_hie_el t blk slot h = Done (next, h') \<Longrightarrow> keeps h h'"
  by (auto simp: read_hie_el_def Let_def split: if_splits option.splits
    dest!: keeps_reads keeps_block keeps_hie_signal) (simp_all add: keeps_def)

lemma last_brother_stops:
  "tree_at h r ps \<Longrightarrow> r \<le> l \<Longrightarrow> l < length ps \<Longrightarrow> length ps - l \<le> fuel \<Longrightarrow> stops (last_brother fuel h l)"
proof (induction fuel h l rule: last_brother.induct)
  case (2 fuel h l)
  have "stops (get_node h l)" by (simp add: get_node_def)
  moreover have "stops (last_brother fuel h b)" if b: "get_node h l = Done node" "hie_brother node = Some b" for node b
  proof -
    have "sibling ps l = Some b" using get_node_links [OF b(1) "2.prems"(1,2)] b(2) by simp
    then have "l < b \<and> b < length ps" by (auto simp: sibling_def split: option.splits dest: first_with_SomeD)
    then show ?thesis using "2.prems" by (intro "2.IH" [OF b]) auto
  qed
  ultimately show ?case by (auto intro!: stops_rules)
qed simp

lemma hie_up_stops:
  assumes "tree_at h r ps" "position ps r blk slot"
  shows "stops (hie_up blk h)"
proof -
  have blk: "r \<le> blk" "blk < length ps" using assms(2) by (simp_all add: position_def)
  have "stops (last_brother (length (hie_nodes h)) h l)"
    if "get_node h blk = Done node" "hie_parent node = Some p" "get_node h p = Done pnode"
      "blk_child (hie_u pnode) = Done (Some l)" for node p pnode l
  proof -
    have "r \<le> p \<and> p < blk"
      using get_node_links [OF that(1) assms(1) blk(1)] that(2) nested_parentD [OF tree_at_nested [OF assms(1)] _ blk] by simp
    moreover from this have "first_with ps p p = Some l"
      using get_node_links [OF that(3) assms(1)] blk_child_of [OF that(4)] by simp
    ultimately show ?thesis
      using tree_at_length [OF assms(1)] by (intro last_brother_stops [OF assms(1)]) (auto dest: first_with_SomeD)
  qed
  moreover have "stops (blk_child u)" for u by (cases u) simp_all
  ultimately show ?thesis by (auto simp: hie_up_def get_node_def intro!: stops_rules)
qed

lemma node_stops [simp]: "stops (set_u n u h)" "stops (set_hie_name n s h)" "stops (new_node t blk slot h)"
  by (cases slot; auto simp: set_u_def set_hie_name_def new_node_def get_node_def Let_def intro!: stops_rules)+

lemma read_hie_block_stops [simp]: "stops (read_hie_block t el h)"
  unfolding read_hie_block_def by (intro stops_rules) simp_all

lemma read_hie_signal_stops: "types_ok h \<Longrightarrow> stops (read_hie_signal el h)"
  unfolding read_hie_signal_def
  by (intro stops_rules ghw_read_signal_stops(1))
    (auto simp: ghw_read_typeid_ok split: prod.splits intro: stops_rules)

lemma read_hie_el_stops: "types_ok h \<Longrightarrow> stops (read_hie_el t blk slot h)"
  unfolding read_hie_el_def Let_def
  by (intro stops_rules read_hie_signal_stops)
    (auto simp: str_entry_stops keeps_def fst_tabs dest!: keeps_reads)

lemma read_hie_loop_stops:
  "types_ok h \<Longrightarrow> tree_at h r ps \<Longrightarrow> position ps r blk slot \<Longrightarrow> stops (read_hie_loop blk slot h)"
proof (induction blk slot h arbitrary: ps rule: read_hie_loop.induct)
  case (1 blk slot h)
  have ok: "types_ok h1 \<and> tree_at h1 r ps" if "h_fgetc h = Done (t, h1)" for t h1
    using that "1.prems" tree_at_advances [OF h_fgetc_advances [OF that]]
    by (auto simp: fst_tabs keeps_def dest!: keeps_reads)
  have up: "stops (rbind (hie_up blk h1) (\<lambda>(blk, slot). read_hie_loop blk slot h1))"
    if b: "h_fgetc h = Done (Some b, h1)" "b \<noteq> 0" "hie_of b = ghw_hie_eos" for b h1
  proof -
    have "stops (read_hie_loop blk' slot' h1)" if up: "hie_up blk h1 = Done (blk', slot')" for blk' slot'
      using "1.IH"(1) [OF b(1) refl refl b(2,3) up refl] ok [OF b(1)] hie_up_tree [OF up _ "1.prems"(3)] by blast
    moreover have "stops (hie_up blk h1)" using ok [OF b(1)] "1.prems"(3) by (blast intro: hie_up_stops)
    ultimately show ?thesis by (auto intro!: stops_rules)
  qed
  have el: "stops (rbind (read_hie_el (hie_of b) blk slot h1) (\<lambda>(next, h).
      case next of None \<Rightarrow> Done (-1, h) | Some (blk, slot) \<Rightarrow> read_hie_loop blk slot h))"
    if b: "h_fgetc h = Done (Some b, h1)" "b \<noteq> 0" "hie_of b \<noteq> ghw_hie_eos" for b h1
  proof -
    have "stops (read_hie_loop blk' slot' h2)"
      if el: "read_hie_el (hie_of b) blk slot h1 = Done (Some (blk', slot'), h2)" for blk' slot' h2
    proof (rule "1.IH"(2) [OF b(1) refl refl b(2,3) el refl refl refl])
      show "types_ok h2" using keeps_hie_el [OF el] ok [OF b(1)] by (simp add: keeps_def fst_tabs)
      show "tree_at h2 r (ps @ [Some blk])" "position (ps @ [Some blk]) r blk' slot'"
        using read_hie_el_tree [OF el] ok [OF b(1)] "1.prems"(3) by auto
    qed
    moreover have "stops (read_hie_el (hie_of b) blk slot h1)"
      using ok [OF b(1)] by (intro read_hie_el_stops) simp
    ultimately show ?thesis by (auto intro!: stops_rules)
  qed
  show ?case
    by (subst read_hie_loop.simps) (intro stops_rbind stops_prod stops_option stops_If up el; simp)
qed

text \<open>The root on its own is a tree, behind the nodes of an earlier hierarchy.\<close>

lemma root_tree:
  "tree_at (h\<lparr>nbr_sigs := n, hie_nodes := ns @ [design_node], hie := q, skip_sigs := sk, flag_full_names := f,
     sigs := ss\<rparr>) (length ns) (parents ns @ [None])"
  "position (parents ns @ [None]) (length ns) (length ns) (Slot_child (length ns))"
  using first_with_self [of "length ns" "parents ns @ [None]" "length ns"]
  by (auto simp: tree_at_def hie_tree_def links_def nested_def position_def sibling_def design_node_def
    less_Suc_eq nth_append)

lemma ghw_read_hie_stops:
  assumes "types_ok h"
  shows "stops (ghw_read_hie h)"
proof -
  have "types h1 = types h" if "h_fread 16 h = Done (hdr, h1)" for hdr h1
    using h_fread_advances [OF that] by (simp add: advances_frame)
  with assms show ?thesis
    unfolding ghw_read_hie_def Let_def
    by (intro stops_rules read_hie_loop_stops [OF _ root_tree]) (simp_all add: fst_tabs)
qed

definition hie_ok :: "ghw_handler \<Rightarrow> bool" where
  "hie_ok h \<longleftrightarrow> (case hie h of None \<Rightarrow> True | Some r \<Rightarrow> hie_tree (hie_nodes h) r)"

lemma read_hie_loop_keeps: "read_hie_loop blk slot h = Done (res, h') \<Longrightarrow> keeps h h'"
proof (induction blk slot h rule: read_hie_loop.induct)
  case (1 blk slot h)
  then obtain t h1 where h1: "h_fgetc h = Done (t, h1)" by (subst (asm) read_hie_loop.simps) auto
  note k1 = keeps_reads(6) [OF h1]
  show ?case
  proof (cases "t = None \<or> t = Some 0")
    case True
    with "1.prems"(1) h1 k1 show ?thesis by (subst (asm) read_hie_loop.simps) auto
  next
    case False
    then obtain b where b: "t = Some b" "b \<noteq> 0" by auto
    show ?thesis
    proof (cases "hie_of b = ghw_hie_eos")
      case True
      with "1.prems"(1) h1 b obtain blk' slot' where up: "hie_up blk h1 = Done (blk', slot')"
        "read_hie_loop blk' slot' h1 = Done (res, h')"
        by (subst (asm) read_hie_loop.simps) auto
      with "1.IH"(1) [OF h1 refl b True up(1) refl up(2)] k1 show ?thesis by (blast intro: keeps_trans)
    next
      case False
      with "1.prems"(1) h1 b obtain next' h2 where el: "read_hie_el (hie_of b) blk slot h1 = Done (next', h2)"
        and rest: "(case next' of None \<Rightarrow> Done (-1, h2) | Some (blk, slot) \<Rightarrow> read_hie_loop blk slot h2) = Done (res, h')"
        by (subst (asm) read_hie_loop.simps) auto
      note k2 = keeps_trans [OF k1 keeps_hie_el [OF el]]
      show ?thesis
      proof (cases next')
        case (Some p)
        obtain blk' slot' where p: "p = (blk', slot')" by (cases p)
        with Some rest have "read_hie_loop blk' slot' h2 = Done (res, h')" by simp
        then have "keeps h2 h'" by (rule "1.IH"(2) [OF h1 refl b False el refl Some p [symmetric]])
        with k2 show ?thesis by (rule keeps_trans)
      qed (use rest k2 in simp)
    qed
  qed
qed

lemma ghw_read_hie_ok:
  assumes "ghw_read_hie h = Done (res, h')"
  shows "types h' = types h \<and> (hie_ok h \<longrightarrow> hie_ok h') \<and>
    (res = 0 \<longrightarrow> (\<exists>r. hie h' = Some r \<and> length (hie_nodes h) = r \<and> hie_tree (hie_nodes h') r))"
proof -
  from assms obtain hdr h1 where h1: "h_fread 16 h = Done (hdr, h1)" by (auto simp: ghw_read_hie_def)
  note adv = h_fread_advances [OF h1]
  show ?thesis
  proof (cases "hdr = None \<or> take 4 (the hdr) \<noteq> [0, 0, 0, 0]")
    case True
    with assms h1 adv show ?thesis
      by (auto simp: ghw_read_hie_def Let_def hie_ok_def advances_frame split: option.splits if_splits)
  next
    case False
    let ?r = "length (hie_nodes h1)" and ?n = "ghw_get_i32 h1 (drop 12 (the hdr)) + 1"
    let ?h = "h1\<lparr>nbr_sigs := ?n, hie_nodes := hie_nodes h1 @ [design_node], hie := Some ?r, skip_sigs := Some None,
      flag_full_names := False, sigs := Some (replicate (unat ?n) \<lparr>sig_type = None, sig_val = None\<rparr>)\<rparr>"
    from False assms h1 obtain h2 where 2: "read_hie_loop ?r (Slot_child ?r) ?h = Done (res, h2)"
      "h' = (if res \<noteq> 0 then h2 else alloc_values h2)"
      by (auto simp: ghw_read_hie_def Let_def split: if_splits)
    have "hie_tree (hie_nodes h2) ?r" using read_hie_loop_tree [OF 2(1) root_tree] .
    moreover have "types h2 = types h" "hie h2 = Some ?r"
      using read_hie_loop_keeps [OF 2(1)] adv by (simp_all add: keeps_def advances_frame)
    ultimately show ?thesis using 2(2) adv by (simp add: alloc_values_def hie_ok_def advances_frame)
  qed
qed

section \<open>Properties\<close>

text \<open>
  C9: When the table of types is well formed, \<open>ghw_read_hie\<close> never runs into a loop without end, and when
  it succeeds the nodes from the root on form a tree: they stand in the order of a walk over the tree,
  every node points to its first child and to its next brother, and to nothing when there is none. On
  a malformed section it may report an error or crash; an end of scope at the root is such a crash.
\<close>

theorem ghw_read_hie_tree:
  assumes "types_ok h"
  shows "stops (ghw_read_hie h) \<and>
    may_run (ghw_read_hie h) (\<lambda>(res, h'). res \<noteq> 0 \<or> (\<exists>r. hie h' = Some r \<and> hie_tree (hie_nodes h') r))"
  using ghw_read_hie_stops [OF assms] ghw_read_hie_ok by (auto intro!: may_runI)

text \<open>A block that holds an instance, and a second block behind it\<close>

definition demo_hie :: ghw_handler where
  "demo_hie = zero_handler\<lparr>nbr_str := 1, str_table := Some [Anon_lit],
     stream := Some (file_of (replicate 16 0 @ [3, 0, 6, 0, 15, 15, 3, 0, 15, 0]))\<rparr>"

theorem ghw_read_hie_tree_witness:
  "runs_to (ghw_read_hie demo_hie) (\<lambda>(res, h'). res = 0 \<and> hie_tree (hie_nodes h') 0 \<and>
     parents (hie_nodes h') = [None, Some 0, Some 1, Some 0])"
proof -
  have "runs_to (ghw_read_hie demo_hie) (\<lambda>(res, h'). res = 0 \<and> hie h' = Some 0 \<and>
      parents (hie_nodes h') = [None, Some 0, Some 1, Some 0])"
    by code_simp
  moreover have "types_ok demo_hie" by (simp add: tab_ok_def fst_tabs demo_hie_def zero_handler_def)
  ultimately show ?thesis
    using ghw_read_hie_tree [of demo_hie] by (auto simp: runs_to_def split: run.splits)
qed

text \<open>An end of scope where no scope is open: the root has no parent.\<close>

lemma end_of_scope_at_root:
  "rbind (ghw_read_hie (demo_hie\<lparr>stream := Some (file_of (replicate 16 0 @ [15, 0]))\<rparr>)) (\<lambda>(res, h). Done res) =
   Crash Null_pointer"
  by code_simp

end
