(* ===== verification/Ghw_Disp_Order.thy ===== *)
theory Ghw_Disp_Order
  imports Ghw_Hie_Tree Ghw_Disp_Hie
begin

text \<open>
  Printing stops, and \<open>ghw_disp_hie\<close>, which walks along the links of the hierarchy, prints the nodes
  one after the other in the order in which the file has them.
\<close>

section \<open>Printing stops\<close>

lemma stops_out [simp]: "stops m \<Longrightarrow> stops (out s m)"
  by (simp add: out_def stops_rbind)

lemma stops_outs [simp]: "stops m \<Longrightarrow> stops n \<Longrightarrow> stops (outs m n)"
  by (simp add: outs_def stops_rbind)

lemma text_stops [simp]: "stops (c_text s)" "stops (val_byte v)" "stops (val_i32 v)" "stops (val_i64 v)"
  by (cases s; simp add: c_text_def) (cases v; simp)+

lemma disp_lit_stops [simp]: "stops (ghw_get_lit p e)" "stops (lit_text p b)" "stops (ghw_disp_lit p e)"
proof -
  show 1: "stops (ghw_get_lit p e)" for p e
    by (auto simp: ghw_get_lit_def intro!: stops_rules split: ghw_type.splits)
  then show "stops (lit_text p b)" "stops (ghw_disp_lit p e)"
    by (auto simp: lit_text_def ghw_disp_lit_def intro!: stops_rules)
qed

lemma ghw_disp_value_stops [simp]: "stops (ghw_disp_value fmt_g v p)"
  unfolding ghw_disp_value_def Let_def by (intro stops_rules) simp_all

lemma ghw_disp_range_stops [simp]: "stops (ghw_disp_range fmt_g p rng)"
  by (cases rng) (simp_all add: disp_bounds_def)

lemma ghw_disp_typename_stops [simp]: "stops (ghw_disp_typename p)"
  by (simp add: ghw_disp_typename_def stops_rbind)

lemma disp_array_dims_stops [simp]: "stops (disp_array_dims fmt_g first dims rngs)"
  by (induction fmt_g first dims rngs rule: disp_array_dims.induct) simp_all

lemma ghw_disp_array_subtype_bounds_stops [simp]: "stops (ghw_disp_array_subtype_bounds fmt_g base rngs)"
  by (simp add: ghw_disp_array_subtype_bounds_def split: ghw_type.splits)

lemma record_bounds_stops [simp]:
  "stops (ghw_disp_record_subtype_bounds fmt_g base els)"
  "stops (disp_record_els fmt_g is_first bels els)"
  by (induction fmt_g base els and fmt_g is_first bels els rule: ghw_disp_record_subtype_bounds_disp_record_els.induct)
    (auto simp: ghw_disp_record_subtype_bounds.simps disp_record_els.simps split: ghw_type.splits option.splits)

lemma subtype_stops [simp]:
  "stops (ghw_disp_subtype_definition fmt_g p)" "stops (ghw_is_anonymous_type h p)"
  "stops (ghw_disp_subtype_indication fmt_g h p)"
proof -
  show 1: "stops (ghw_disp_subtype_definition fmt_g p)"
    unfolding ghw_disp_subtype_definition_def
    by (intro stops_rules) (auto split: ghw_type.splits intro!: stops_rules stops_outs stops_out)
  show 2: "stops (ghw_is_anonymous_type h p)"
    by (auto simp: ghw_is_anonymous_type_def str_entry_stops intro!: stops_rules)
  show "stops (ghw_disp_subtype_indication fmt_g h p)"
    unfolding ghw_disp_subtype_indication_def by (intro stops_rules 1 2) simp_all
qed

lemma type_lists_stops [simp]:
  "stops (disp_lits first ls)" "stops (disp_units base us)" "stops (disp_index_types first ds)"
  "stops (disp_fields fmt_g h els)"
proof -
  show "stops (disp_lits first ls)" by (induction ls arbitrary: first) simp_all
  show "stops (disp_units base us)" by (induction us) auto
  show "stops (disp_index_types first ds)" by (induction ds arbitrary: first) simp_all
  show "stops (disp_fields fmt_g h els)" by (induction els) auto
qed

lemma ghw_disp_type_stops [simp]: "stops (ghw_disp_type fmt_g h t)"
  by (simp add: ghw_disp_type_def Let_def split: ghw_type.splits)

lemma ghw_disp_types_stops [simp]: "stops (ghw_disp_types fmt_g h)"
proof -
  have "stops (disp_types_loop fmt_g h n i)" for n i
  proof (induction n arbitrary: i)
    case (Suc n)
    show ?case unfolding disp_types_loop.simps by (intro stops_rules stops_outs Suc) simp_all
  qed simp
  then show ?thesis by (simp add: ghw_disp_types_def)
qed

lemma ghw_disp_values_stops [simp]: "stops (ghw_disp_values fmt_g h)"
proof -
  have s: "stops (skipped h i)" for i
    by (auto simp: skipped_def intro!: stops_rules)
  have "stops (disp_values_loop fmt_g h n i)" for n i
  proof (induction n arbitrary: i)
    case (Suc n)
    show ?case unfolding disp_values_loop.simps by (intro stops_rules stops_outs s Suc) simp_all
  qed simp
  then show ?thesis by (simp add: ghw_disp_values_def)
qed

lemma ghw_filter_signals_stops [simp]: "stops (ghw_filter_signals h keep)"
  unfolding ghw_filter_signals_def Let_def by (intro stops_rules) simp_all

lemma sig_at_stops [simp]: "stops (sig_at arr k)"
  by (simp add: sig_at_def stops_rbind)

lemma run_end_stops [simp]: "stops (run_end arr j)"
proof (induction arr j rule: run_end.induct)
  case (1 arr j)
  then show ?case by (subst run_end.simps) (auto intro!: stops_rules)
qed

lemma disp_sigs_stops [simp]: "stops (disp_sigs arr k)"
proof (induction arr k rule: disp_sigs.induct)
  case (1 arr k)
  show ?case
    by (subst disp_sigs.simps) (intro stops_rules stops_out 1; simp)
qed

section \<open>The walk\<close>

text \<open>The number of the ancestors of a node. A parent comes before its children, so that the number of nodes is fuel enough.\<close>

fun depth :: "nat \<Rightarrow> nat option list \<Rightarrow> nat \<Rightarrow> nat" where
  "depth 0 ps i = 0"
| "depth (Suc fuel) ps i = (case ps ! i of None \<Rightarrow> 0 | Some p \<Rightarrow> Suc (depth fuel ps p))"

definition node_depth :: "ghw_hie list \<Rightarrow> nat \<Rightarrow> nat" where
  "node_depth ns i = depth (length ns) (parents ns) i"

text \<open>The lines of the nodes \<open>ns\<close>, each indented by its depth\<close>

fun disp_nodes :: "(u64 \<Rightarrow> string) \<Rightarrow> ghw_handler \<Rightarrow> nat list \<Rightarrow> string run" where
  "disp_nodes fmt_g h [] = Done ''''"
| "disp_nodes fmt_g h (n # ns) =
     rbind (disp_node fmt_g h n (int (node_depth (hie_nodes h) n))) (\<lambda>(s, _). out s (disp_nodes fmt_g h ns))"

lemma depth_fuel:
  "nested ps r \<Longrightarrow> r \<le> i \<Longrightarrow> i < length ps \<Longrightarrow> i < f \<Longrightarrow> i < g \<Longrightarrow> depth f ps i = depth g ps i"
proof (induction f arbitrary: i g)
  case (Suc f)
  then obtain g' where g: "g = Suc g'" by (cases g) auto
  show ?case
  proof (cases "ps ! i")
    case (Some p)
    with nested_parentD [OF Suc.prems(1) Some] Suc.prems have "r \<le> p \<and> p < i" by simp
    with Suc g have "depth f ps p = depth g' ps p" by (intro Suc.IH) auto
    with Some g show ?thesis by simp
  qed (simp add: g)
qed simp

lemma node_depth_parent:
  assumes "hie_tree ns r" "parents ns ! i = Some p" "r \<le> i" "i < length ns"
  shows "node_depth ns i = Suc (node_depth ns p)"
proof -
  have n: "nested (parents ns) r" using assms(1) by (simp add: hie_tree_def)
  have p: "r \<le> p \<and> p < i" using nested_parentD [OF n assms(2,3)] assms(4) by simp
  obtain k where k: "length ns = Suc k" using assms(4) by (cases "length ns") auto
  then have "depth k (parents ns) p = depth (length ns) (parents ns) p"
    using p assms(4) by (intro depth_fuel [OF n]) auto
  with k assms(2) show ?thesis by (simp add: node_depth_def)
qed

lemma node_depth_root: "hie_tree ns r \<Longrightarrow> node_depth ns r = 0"
  by (cases "length ns") (auto simp: node_depth_def hie_tree_def nested_def)

text \<open>A node that comes after \<open>i\<close> and whose parent does not, has an ancestor of \<open>i\<close> as its parent.\<close>

lemma parent_open:
  assumes "nested ps r" "r \<le> i" "i < j" "j < length ps" "ps ! j = Some q" "q \<le> i"
  shows "anc ps i q"
proof -
  have "r < j" using assms by simp
  from nested_parent [OF assms(1) this assms(4)] assms(5) have "r \<le> q" "anc ps (j - 1) q" by auto
  with anc_between [OF assms(1), of q i "j - 1"] assms show ?thesis by simp
qed

lemma anc_parent: "anc ps x q \<Longrightarrow> x \<noteq> q \<Longrightarrow> ps ! x = Some p \<Longrightarrow> anc ps p q"
  by (auto elim: anc.cases)

text \<open>Nothing follows below \<open>x\<close> once the walk is behind \<open>i\<close> and the parent of the next node is above \<open>x\<close>.\<close>

lemma walk_closed:
  assumes t: "nested ps r" and x: "r \<le> x" "x \<le> i" "i < length ps" "anc ps i x"
    and nx: "Suc i < length ps \<longrightarrow> (\<exists>p. ps ! Suc i = Some p \<and> p < x)"
  shows "first_with ps x i = None"
  unfolding first_with_None
proof (intro allI impI notI)
  fix j assume j: "i < j \<and> j < length ps" "ps ! j = Some x"
  with nx obtain p where p: "ps ! Suc i = Some p" "p < x" by auto
  then have ij: "Suc i < j" using j by (cases "j = Suc i") auto
  then have "anc ps (Suc i) x" using parent_open [OF t _ ij _ j(2)] j x by simp
  then have "anc ps p x" using anc_parent p(1) x by fastforce
  moreover have "r \<le> p \<and> p < Suc i" using nested_parentD [OF t p(1)] x ij j by simp
  ultimately show False using anc_le [OF _ t, of p x] p(2) x by simp
qed

text \<open>Within the walk below \<open>x\<close> there is no brother of \<open>x\<close>.\<close>

lemma brother_behind:
  assumes t: "nested ps r" and x: "r \<le> x" "x \<le> i" "i < length ps" "anc ps i x" "ps ! x = Some p"
  shows "first_with ps p x = first_with ps p i"
proof (cases "first_with ps p i")
  case None
  then have "\<forall>j. i < j \<and> j < length ps \<longrightarrow> ps ! j \<noteq> Some p" by (simp add: first_with_None)
  with no_brother_below [OF t x(1) _ _ x(3-5)] have "first_with ps p x = None"
    by (auto simp: first_with_None) (metis linorder_not_le)
  with None show ?thesis by simp
next
  case (Some j)
  have e: "Suc i + (length ps - Suc i) = length ps" using x by simp
  have "[Suc x..<length ps] = [Suc x..<Suc i] @ [Suc i..<length ps]"
    using x(2) upt_add_eq_append [of "Suc x" "Suc i" "length ps - Suc i", unfolded e] by (simp del: upt_Suc)
  moreover have "List.find (\<lambda>j. ps ! j = Some p) [Suc x..<Suc i] = None"
  proof -
    have "ps ! j \<noteq> Some p" if "x < j" "j \<le> i" for j using no_brother_below [OF t x(1) that x(3-5)] .
    then show ?thesis by (auto simp: find_None_iff simp del: upt_Suc)
  qed
  moreover have "List.find Q as = None \<Longrightarrow> List.find Q (as @ bs) = List.find Q bs" for Q and as bs :: "nat list"
    by (induction as) (auto split: if_splits)
  ultimately show ?thesis by (simp add: first_with_def del: upt_Suc)
qed

lemma first_with_next: "Suc i < length ps \<Longrightarrow> ps ! Suc i = Some p \<Longrightarrow> first_with ps p i = Some (Suc i)"
  by (simp add: first_with_def upt_conv_Cons del: upt_Suc)

lemma get_node_ok: "tree_at h r ps \<Longrightarrow> n < length ps \<Longrightarrow> get_node h n = Done (hie_nodes h ! n)"
  by (simp add: get_node_def tree_at_length)

lemma node_links:
  assumes "tree_at h r ps" "r \<le> n" "n < length ps"
  shows "hie_parent (hie_nodes h ! n) = ps ! n" "hie_brother (hie_nodes h ! n) = sibling ps n"
  using get_node_links [OF get_node_ok [OF assms(1,3)] assms(1,2)] by simp_all

lemma tree_depth:
  assumes "tree_at h r ps" "ps ! i = Some p" "r \<le> i" "i < length ps"
  shows "node_depth (hie_nodes h) i = Suc (node_depth (hie_nodes h) p)"
  using assms by (intro node_depth_parent [of _ r]) (auto simp: tree_at_def)

text \<open>The way up from \<open>x\<close>, to the node behind \<open>i\<close> or to the root\<close>

lemma walk_next:
  assumes t: "tree_at h r ps" and i: "Suc i < length ps" "ps ! Suc i = Some p" and ri: "r \<le> i"
  shows "p < x \<Longrightarrow> x \<le> i \<Longrightarrow> anc ps i x \<Longrightarrow> x < fuel \<Longrightarrow>
    next_node fuel h x (sibling ps x) ind =
      Done (Some (Suc i), ind - (int (node_depth (hie_nodes h) x) - int (node_depth (hie_nodes h) (Suc i))))"
proof (induction x arbitrary: fuel ind rule: less_induct)
  case (less x)
  have n: "nested ps r" using t by (rule tree_at_nested)
  have p: "r \<le> p" "anc ps i p"
    using nested_parent [OF n _ i(1)] i(2) ri by (metis diff_Suc_1 le_imp_less_Suc option.inject)+
  have rx: "r < x" "r \<le> x" "x < length ps" using p less.prems i(1) by simp_all
  from nested_parent [OF n rx(1,3)] obtain q where q: "ps ! x = Some q" "r \<le> q" "q < x" by blast
  have "anc ps x p" using anc_between [OF n p(1) _ less.prems(2) _ p(2)] less.prems i(1) by simp
  then have qp: "anc ps q p" using anc_parent q(1) less.prems(1) by blast
  then have pq: "p \<le> q" using anc_le [OF qp n q(2)] q(3) rx(3) by simp
  have sib: "sibling ps x = first_with ps q i"
    using brother_behind [OF n rx(2) less.prems(2) _ less.prems(3) q(1)] i(1) q(1) by (simp add: sibling_def)
  show ?case
  proof (cases "p = q")
    case True
    then have "sibling ps x = Some (Suc i)" using sib first_with_next [OF i] by simp
    moreover have "node_depth (hie_nodes h) x = node_depth (hie_nodes h) (Suc i)"
      using tree_depth [OF t q(1)] tree_depth [OF t i(2)] True rx i(1) less.prems by simp
    ultimately show ?thesis by simp
  next
    case False
    with pq have "p < q" by simp
    have "anc ps i q" by (rule anc_trans [OF less.prems(3)]) (rule anc_up [OF q(1)], simp)
    moreover have "first_with ps q i = None"
      using i \<open>p < q\<close> q less.prems calculation by (intro walk_closed [OF n q(2)]) auto
    moreover obtain f where "fuel = Suc f" using less.prems(4) by (cases fuel) auto
    ultimately show ?thesis
      using less.IH [of q f "ind - 1"] \<open>p < q\<close> q less.prems sib rx
        get_node_ok [OF t rx(3)] get_node_ok [OF t, of q] node_links [OF t rx(2,3)] node_links [OF t q(2)]
        tree_depth [OF t q(1) rx(2,3)]
      by simp
  qed
qed

lemma walk_end:
  assumes t: "tree_at h r ps" and i: "Suc i = length ps"
  shows "r \<le> x \<Longrightarrow> x \<le> i \<Longrightarrow> anc ps i x \<Longrightarrow> x < fuel \<Longrightarrow>
    next_node fuel h x (sibling ps x) ind = Done (None, ind - int (node_depth (hie_nodes h) x))"
proof (induction x arbitrary: fuel ind rule: less_induct)
  case (less x)
  have n: "nested ps r" using t by (rule tree_at_nested)
  obtain f where f: "fuel = Suc f" using less.prems(4) by (cases fuel) auto
  have x: "x < length ps" using less.prems i by simp
  show ?case
  proof (cases "x = r")
    case True
    then have "ps ! x = None" using n by (simp add: nested_def)
    with True f get_node_ok [OF t x] node_links [OF t less.prems(1) x] t node_depth_root show ?thesis
      by (simp add: sibling_def tree_at_def)
  next
    case False
    with less.prems have "r < x" by simp
    from nested_parent [OF n this x] obtain q where q: "ps ! x = Some q" "r \<le> q" "q < x" by blast
    have "sibling ps x = first_with ps q i"
      using brother_behind [OF n less.prems(1,2) _ less.prems(3) q(1)] i q(1) by (simp add: sibling_def)
    also have "\<dots> = None" using i by (rule first_with_self)
    finally have sib: "sibling ps x = None" .
    have "anc ps i q" by (rule anc_trans [OF less.prems(3)]) (rule anc_up [OF q(1)], simp)
    with less.IH [of q f "ind - 1"] q less.prems sib f x i
      get_node_ok [OF t x] get_node_ok [OF t, of q] node_links [OF t less.prems(1) x] node_links [OF t q(2)]
      tree_depth [OF t q(1) less.prems(1) x]
    show ?thesis by simp
  qed
qed

lemma disp_node_next:
  assumes "disp_node fmt_g h i ind = Done (s, nxt, ind')" "tree_at h r ps" "r \<le> i" "i < length ps"
  shows "(nxt, ind') = (case first_with ps i i of None \<Rightarrow> (sibling ps i, ind) | Some c \<Rightarrow> (Some c, ind + 1))"
proof -
  note l = get_node_links [OF get_node_ok [OF assms(2,4)] assms(2,3)]
  from assms(1) get_node_ok [OF assms(2,4)] l show ?thesis
    by (auto simp: disp_node_def Let_def split: if_splits hie_u.splits option.splits dest!: blk_child_of)
qed

lemma walk_step:
  assumes t: "tree_at h r ps" and i: "r \<le> i" "i < length ps"
    and d: "disp_node fmt_g h i (int (node_depth (hie_nodes h) i)) = Done (s, nxt, ind)"
  shows "next_node (length ps) h i nxt ind = Done
    (if Suc i < length ps then (Some (Suc i), int (node_depth (hie_nodes h) (Suc i)))
     else (None, 0))"
proof (cases "Suc i < length ps")
  case True
  have n: "nested ps r" using t by (rule tree_at_nested)
  from i(1) have "r < Suc i" by simp
  from nested_parent [OF n this True] obtain p where p: "ps ! Suc i = Some p" "r \<le> p" "p < Suc i" .
  have dp: "node_depth (hie_nodes h) (Suc i) = Suc (node_depth (hie_nodes h) p)"
    using tree_depth [OF t p(1)] i True by simp
  show ?thesis
  proof (cases "p = i")
    case c: True
    with first_with_next [OF True] p(1) have "first_with ps i i = Some (Suc i)" by simp
    with disp_node_next [OF d t i] have "nxt = Some (Suc i)" "ind = int (node_depth (hie_nodes h) i) + 1"
      by auto
    with True c dp show ?thesis by simp
  next
    case False
    with p(3) have "p < i" by (simp add: less_Suc_eq)
    with walk_closed [OF n i(1) _ i(2)] p(1) have "first_with ps i i = None" by simp
    with disp_node_next [OF d t i] have "nxt = sibling ps i" "ind = int (node_depth (hie_nodes h) i)" by auto
    with walk_next [OF t True p(1) i(1) \<open>p < i\<close>] i(2) True show ?thesis by simp
  qed
next
  case False
  with i(2) have e: "Suc i = length ps" by simp
  with disp_node_next [OF d t i] first_with_self [OF e] have "nxt = sibling ps i" "ind = int (node_depth (hie_nodes h) i)"
    by auto
  with walk_end [OF t e i(1)] i(2) False show ?thesis by simp
qed

lemma disp_hie_loop_nodes:
  assumes "tree_at h r ps"
  shows "r \<le> i \<Longrightarrow> i < length ps \<Longrightarrow> length ps - i \<le> fuel \<Longrightarrow>
    disp_hie_loop fuel fmt_g h i (int (node_depth (hie_nodes h) i)) = disp_nodes fmt_g h [i..<length ps]"
proof (induction fuel arbitrary: i)
  case (Suc fuel)
  let ?d = "\<lambda>i. int (node_depth (hie_nodes h) i)"
  show ?case
  proof (cases "disp_node fmt_g h i (?d i)")
    case (Done x)
    obtain s nxt ind where x: "x = (s, nxt, ind)" by (cases x)
    note step = walk_step [OF assms Suc.prems(1,2) Done [unfolded x]]
    have upt: "[i..<length ps] = i # [Suc i..<length ps]" using Suc.prems(2) by (simp add: upt_conv_Cons)
    have out0: "out s (Done '''') = Done s" by (simp add: out_def)
    show ?thesis
    proof (cases "Suc i < length ps")
      case True
      with Suc.IH [of "Suc i"] Suc.prems Done x step upt show ?thesis
        by (simp add: tree_at_length [OF assms] del: upt_Suc)
    next
      case False
      then have "[Suc i..<length ps] = []" by simp
      with False Done x step upt out0 show ?thesis
        by (simp add: tree_at_length [OF assms] del: upt_Suc)
    qed
  qed (use Suc.prems(2) in \<open>simp add: upt_conv_Cons\<close>)
qed simp

section \<open>Printing the hierarchy stops\<close>

lemma name_path_stops:
  assumes t: "tree_at h r ps"
  shows "r \<le> i \<Longrightarrow> i < length ps \<Longrightarrow> i < fuel \<Longrightarrow> stops (name_path fuel h (Some i))"
proof (induction fuel arbitrary: i)
  case (Suc fuel)
  have "stops (name_path fuel h (ps ! i))"
  proof (cases "ps ! i")
    case (Some q)
    with nested_parentD [OF tree_at_nested [OF t] Some] Suc.prems show ?thesis
      by (auto intro: Suc.IH)
  qed (cases fuel; simp)
  with get_node_ok [OF t Suc.prems(2)] node_links [OF t Suc.prems(1,2)] show ?case
    by (auto intro!: stops_rules)
qed simp

lemma print_name_stops:
  assumes "tree_at h r ps" "r \<le> i" "i < length ps"
  shows "stops (print_name fmt_g h i full)"
proof -
  have it: "stops (disp_iter f node)" for f node
    by (auto simp: disp_iter_def split: hie_u.splits option.splits)
  have "stops (disp_path fmt_g first path)" for first path
    by (induction fmt_g first path rule: disp_path.induct) (auto intro!: stops_out stops_outs it)
  moreover have "stops (name_path (Suc (length (hie_nodes h))) h (Some i))"
    using assms tree_at_length [OF assms(1)] by (intro name_path_stops) auto
  ultimately show ?thesis
    unfolding print_name_def by (intro stops_rules stops_out stops_outs) (simp_all add: get_node_def)
qed

lemma disp_node_stops:
  assumes "tree_at h r ps" "r \<le> i" "i < length ps"
  shows "stops (disp_node fmt_g h i ind)"
proof -
  have it: "stops (disp_iter f node)" for f node
    by (auto simp: disp_iter_def split: hie_u.splits option.splits)
  have "stops (blk_child u)" for u by (cases u) simp_all
  then show ?thesis
    using get_node_ok [OF assms(1,3)]
    by (auto simp: disp_node_def Let_def it print_name_stops [OF assms] split: hie_u.splits
      intro!: stops_rules stops_out stops_outs)
qed

lemma disp_nodes_stops:
  assumes "tree_at h r ps"
  shows "\<forall>i\<in>set ns. r \<le> i \<and> i < length ps \<Longrightarrow> stops (disp_nodes fmt_g h ns)"
  by (induction ns) (auto intro!: stops_rules stops_out disp_node_stops [OF assms])

lemma ghw_disp_hie_nodes:
  assumes "hie h = Some r" "hie_tree (hie_nodes h) r"
  shows "ghw_disp_hie fmt_g h (hie h) = disp_nodes fmt_g h [r..<length (hie_nodes h)]"
proof -
  have t: "tree_at h r (parents (hie_nodes h))" using assms(2) by (simp add: tree_at_def)
  have "r < length (hie_nodes h)" using assms(2) by (simp add: hie_tree_def nested_def)
  with disp_hie_loop_nodes [OF t, of r] assms node_depth_root show ?thesis
    by (simp add: ghw_disp_hie_def)
qed

lemma ghw_disp_hie_stops: "hie_ok h \<Longrightarrow> stops (ghw_disp_hie fmt_g h (hie h))"
proof (cases "hie h")
  case (Some r)
  assume "hie_ok h"
  with Some have t: "hie_tree (hie_nodes h) r" by (simp add: hie_ok_def)
  then have "tree_at h r (parents (hie_nodes h))" by (simp add: tree_at_def)
  then have "stops (disp_nodes fmt_g h [r..<length (hie_nodes h)])" by (rule disp_nodes_stops) simp
  with ghw_disp_hie_nodes [OF Some t] show ?thesis by simp
qed (simp add: ghw_disp_hie_def)

section \<open>Properties\<close>

text \<open>
  C10: \<open>ghw_disp_hie\<close> prints the hierarchy in the order of the file: following the links to the first
  child, to the next brother and up the parents is the same as printing the nodes one after the other
  as they were allocated, each indented by the number of its ancestors.
\<close>

theorem disp_hie_in_order:
  assumes "hie h = Some r" "hie_tree (hie_nodes h) r"
  shows "ghw_disp_hie fmt_g h (hie h) = disp_nodes fmt_g h [r..<length (hie_nodes h)]"
  using assms by (rule ghw_disp_hie_nodes)

theorem disp_hie_in_order_witness:
  "runs_to (ghw_read_hie demo_hie) (\<lambda>(res, h). res = 0 \<and>
     ghw_disp_hie (\<lambda>_. '''') h (hie h) = disp_nodes (\<lambda>_. '''') h [0, 1, 2, 3] \<and>
     disp_nodes (\<lambda>_. '''') h [0, 1, 2, 3] =
       Done (''design'' @ nl @ '' block <anon>: '' @ nl @ ''  instance <anon>: '' @ nl @ '' block <anon>: '' @ nl))"
proof -
  have "runs_to (ghw_read_hie demo_hie) (\<lambda>(res, h). res = 0 \<and> length (hie_nodes h) = 4 \<and> hie h = Some 0 \<and>
     disp_nodes (\<lambda>_. '''') h [0, 1, 2, 3] =
       Done (''design'' @ nl @ '' block <anon>: '' @ nl @ ''  instance <anon>: '' @ nl @ '' block <anon>: '' @ nl))"
    by code_simp
  then obtain h where h: "ghw_read_hie demo_hie = Done (0, h)" "length (hie_nodes h) = 4" "hie h = Some 0"
    "disp_nodes (\<lambda>_. '''') h [0, 1, 2, 3] =
       Done (''design'' @ nl @ '' block <anon>: '' @ nl @ ''  instance <anon>: '' @ nl @ '' block <anon>: '' @ nl)"
    by (auto elim!: runs_toE)
  with ghw_read_hie_ok [OF h(1)] have "hie_tree (hie_nodes h) 0" by auto
  note order = disp_hie_in_order [OF h(3) this]
  have "[0..<4] = [0, 1, 2, 3 :: nat]" by (simp add: upt_rec)
  with order h(2) have "ghw_disp_hie (\<lambda>_. '''') h (hie h) = disp_nodes (\<lambda>_. '''') h [0, 1, 2, 3]" by metis
  with h(1,4) show ?thesis by (simp only: runs_to_simps prod.case simp_thms)
qed

end
