(* ===== verification/Ghwdump_Total.thy ===== *)
theory Ghwdump_Total
  imports Ghwdump Ghw_Disp_Order
begin

text \<open>
  The composition of the parts: whatever is in its files, \<open>ghwdump\<close> does not loop for ever. The types
  that the hierarchy section reads along, and the links that the printer of the hierarchy follows, are
  put there by earlier sections, so that the readers of all sections keep them in shape.
\<close>

section \<open>What the sections leave alone\<close>

definition core :: "ghw_handler \<Rightarrow> ghw_type list option \<times> nat option \<times> ghw_hie list" where
  "core h = (types h, hie h, hie_nodes h)"

definition sane :: "ghw_handler \<Rightarrow> bool" where
  "sane h \<longleftrightarrow> types_ok h \<and> hie_ok h"

lemma sane_core: "core h' = core h \<Longrightarrow> sane h \<Longrightarrow> sane h'"
  by (auto simp: sane_def core_def hie_ok_def fst_tabs split: option.splits)

lemma core_tabs: "tabs h' = tabs h \<Longrightarrow> core h' = core h"
  by (simp add: tabs_def core_def)

lemma core_advances: "advances h h' \<Longrightarrow> core h' = core h"
  by (simp add: core_def advances_frame)

lemma core_updates [simp]:
  "core (h\<lparr>str_table := a\<rparr>) = core h" "core (h\<lparr>str_content := b\<rparr>) = core h" "core (h\<lparr>snap_time := t\<rparr>) = core h"
  "core (h\<lparr>nbr_str := n\<rparr>) = core h" "core (h\<lparr>nbr_str := n, str_size := k\<rparr>) = core h"
  "core (h\<lparr>wkt_at := w\<rparr>) = core h" "core (h\<lparr>skip_sigs := sk\<rparr>) = core h" "core (set_sig i s h) = core h"
  "core (set_wkt tid c h) = core h"
  by (simp_all add: core_def set_sig_def set_wkt_def)

lemmas core_reads = core_advances [OF h_fgetc_advances] core_advances [OF h_fread_advances]
  core_advances [OF uleb.rd_advances] core_advances [OF lsleb.rd_advances]
  core_advances [OF ghw_read_typeid_advances] core_advances [OF ghw_read_value_advances]

lemma core_strings:
  "read_str_copy n j prev h = Done h' \<Longrightarrow> core h' = core h"
  "put_content c h = Done h' \<Longrightarrow> core h' = core h"
  by (induction n arbitrary: j h) (auto simp: put_content_def split: if_splits)

lemma core_str_chars: "read_str_chars h = Done (c, h') \<Longrightarrow> core h' = core h"
proof (induction h rule: read_str_chars.induct)
  case (1 h)
  from "1.prems" obtain v h1 where h1: "h_fgetc h = Done (v, h1)"
    by (subst (asm) read_str_chars.simps) auto
  show ?case
  proof (cases "h1 = h'")
    case False
    with "1.prems" h1 obtain b h2 where 2: "v = Some b" "\<not> (b \<le> 31 \<or> 128 \<le> b \<and> b \<le> 159)"
      "put_content b h1 = Done h2" "read_str_chars h2 = Done (c, h')"
      by (subst (asm) read_str_chars.simps) (auto split: option.splits if_splits)
    with "1.IH" [OF h1 refl] core_strings(2) [OF 2(3)] core_reads(1) [OF h1] show ?thesis by simp
  qed (use core_reads(1) [OF h1] in simp)
qed

lemma core_str_len: "read_str_len c pl sh h = Done (r, h') \<Longrightarrow> core h' = core h"
proof (induction c pl sh h rule: read_str_len.induct)
  case (1 c pl sh h)
  show ?case
  proof (cases "c < 128")
    case False
    with "1.prems" obtain v h1 where h1: "h_fgetc h = Done (v, h1)"
      by (subst (asm) read_str_len.simps) auto
    with "1.prems" False "1.IH" [OF False h1 refl] core_reads(1) [OF h1] show ?thesis
      by (subst (asm) read_str_len.simps) (auto split: option.splits if_splits)
  qed (use "1.prems" in \<open>subst (asm) read_str_len.simps, simp\<close>)
qed

lemma core_str: "ghw_read_str h = Done (r, h') \<Longrightarrow> core h' = core h"
proof -
  have "read_str_one pl h = Done (r, h') \<Longrightarrow> core h' = core h" for pl h r h'
    by (auto simp: read_str_one_def read_str_end_def Let_def split: option.splits
      dest!: core_strings core_str_chars core_str_len)
  then have "read_str_loop n pl h = Done (r, h') \<Longrightarrow> core h' = core h" for n pl h r h'
    by (induction n arbitrary: pl h) (fastforce split: option.splits)+
  then have "read_str_table h = Done (r, h') \<Longrightarrow> core h' = core h" for h r h'
    by (fastforce simp: read_str_table_def Let_def split: option.splits if_splits dest: core_reads(2))
  note t = this
  show "ghw_read_str h = Done (r, h') \<Longrightarrow> core h' = core h"
    by (auto simp: ghw_read_str_def split: option.splits if_splits dest!: t core_reads(2))
qed

lemma core_wk: "ghw_read_wk_types h = Done (r, h') \<Longrightarrow> core h' = core h"
proof -
  have "read_wk_loop h = Done (r, h') \<Longrightarrow> core h' = core h" for h r h'
  proof (induction h rule: read_wk_loop.induct)
    case (1 h)
    then obtain t h1 where h1: "h_fgetc h = Done (t, h1)" by (subst (asm) read_wk_loop.simps) auto
    show ?case
    proof (cases "h1 = h'")
      case False
      with "1.prems" h1 obtain b tid h2 where 2: "t = Some b" "b \<noteq> 0" "ghw_read_typeid h1 = Done (Some tid, h2)"
        "read_wk_loop (set_wkt tid b h2) = Done (r, h')"
        by (subst (asm) read_wk_loop.simps) (auto split: option.splits if_splits)
      with "1.IH" [OF h1 refl 2(1,2,3) refl] core_reads(1) [OF h1] core_reads(5) [OF 2(3)] show ?thesis by simp
    qed (use core_reads(1) [OF h1] in simp)
  qed
  then show "ghw_read_wk_types h = Done (r, h') \<Longrightarrow> core h' = core h"
    by (fastforce simp: ghw_read_wk_types_def split: option.splits if_splits dest: core_reads(2))
qed

lemma core_signal_value: "ghw_read_signal_value i h = Done (r, h') \<Longrightarrow> core h' = core h"
  by (auto simp: ghw_read_signal_value_def split: option.splits dest!: core_reads(6))

lemma core_snapshot: "ghw_read_snapshot h = Done (r, h') \<Longrightarrow> core h' = core h"
proof -
  have "read_snapshot_loop n i h = Done (r, h') \<Longrightarrow> core h' = core h" for n i h r h'
    by (induction n arbitrary: i h) (fastforce split: if_splits dest: core_signal_value)+
  then show "ghw_read_snapshot h = Done (r, h') \<Longrightarrow> core h' = core h"
    by (fastforce simp: ghw_read_snapshot_def Let_def split: option.splits if_splits dest: core_reads(2))
qed

lemma core_cycle_cont: "ghw_read_cycle_cont h = Done (r, h') \<Longrightarrow> core h' = core h"
proof -
  have "read_cycle_cont_loop i h = Done (r, h') \<Longrightarrow> core h' = core h" for i h r h'
  proof (induction i h arbitrary: r rule: read_cycle_cont_loop.induct)
    case (1 i h)
    then obtain d h1 where h1: "ghw_read_uleb128 h = Done (d, h1)"
      by (subst (asm) read_cycle_cont_loop.simps) auto
    show ?case
    proof (cases "h1 = h'")
      case False
      with "1.prems" h1 obtain e ss j res h2 where 2: "d = Some e" "e \<noteq> 0" "the_sigs h1 = Done ss"
        "next_signal ss i (unat e) = Done j" "ghw_read_signal_value j h1 = Done (res, h2)"
        and rest: "(if res < 0 then Done ((-1, []), h2)
          else rbind (read_cycle_cont_loop j h2) (\<lambda>((res, list), h). Done ((res, j # list), h))) = Done (r, h')"
        by (subst (asm) read_cycle_cont_loop.simps) (auto split: option.splits if_splits)
      show ?thesis
      proof (cases "res < 0")
        case False
        with rest obtain r2 where "read_cycle_cont_loop j h2 = Done (r2, h')" by auto
        with "1.IH" [OF h1 refl 2(1-5) refl False] core_reads(3) [OF h1] core_signal_value [OF 2(5)] show ?thesis
          by simp
      qed (use rest core_reads(3) [OF h1] core_signal_value [OF 2(5)] in simp)
    qed (use core_reads(3) [OF h1] in simp)
  qed
  then show "ghw_read_cycle_cont h = Done (r, h') \<Longrightarrow> core h' = core h"
    by (simp add: ghw_read_cycle_cont_def)
qed

lemma core_cycle_parts:
  "ghw_read_cycle_start h = Done (r, h') \<Longrightarrow> core h' = core h"
  "ghw_read_cycle_next h = Done (r, h') \<Longrightarrow> core h' = core h"
  "ghw_read_cycle_end h = Done (r, h') \<Longrightarrow> core h' = core h"
  by (auto simp: ghw_read_cycle_start_def ghw_read_cycle_next_def ghw_read_cycle_end_def
    split: option.splits if_splits dest!: core_reads(2,4))

lemma core_cycle: "ghw_read_cycle h = Done (r, h') \<Longrightarrow> core h' = core h"
proof -
  have "read_cycle_loop fuel h = Done (r, h') \<Longrightarrow> core h' = core h" for fuel h r h'
    by (induction fuel arbitrary: h)
      (fastforce split: if_splits dest: core_cycle_cont core_cycle_parts(2,3))+
  note t = this
  show "ghw_read_cycle h = Done (r, h') \<Longrightarrow> core h' = core h"
    by (auto simp: ghw_read_cycle_def split: if_splits dest!: t core_cycle_parts(1) simp del: read_cycle_loop.simps)
qed

lemma core_directory:
  "ghw_read_directory h = Done (r, h') \<Longrightarrow> core h' = core h"
  "ghw_read_tailer h = Done (r, h') \<Longrightarrow> core h' = core h"
proof -
  have "read_directory_loop n h = Done (r, h') \<Longrightarrow> core h' = core h" for n h r h'
    by (induction n arbitrary: h) (fastforce split: option.splits dest: core_reads(2))+
  then show "ghw_read_directory h = Done (r, h') \<Longrightarrow> core h' = core h"
    by (fastforce simp: ghw_read_directory_def Let_def split: option.splits if_splits dest: core_reads(2))
  show "ghw_read_tailer h = Done (r, h') \<Longrightarrow> core h' = core h"
    by (auto simp: ghw_read_tailer_def split: option.splits dest!: core_reads(2))
qed

section \<open>The readers of the sections\<close>

text \<open>What the loops over the sections rely on\<close>

locale total_section = section_reader rd_sec for rd_sec :: "ghw_handler \<Rightarrow> (int \<times> ghw_handler) run" +
  assumes rd_sane: "rd_sec h = Done (r, h') \<Longrightarrow> sane h \<Longrightarrow> sane h'"
    and rd_stops: "sane h \<Longrightarrow> stops (rd_sec h)"
begin

text \<open>A name and the section behind it take something of the input, and keep the handler in shape.\<close>

lemma named_section:
  assumes "h_fread 4 h = Done (Some hdr, h1)" "sane h"
  shows "stops (rd_sec h1)" "rd_sec h1 = Done (r, h') \<Longrightarrow> sane h' \<and> rest_len h' < rest_len h"
proof -
  have "sane h1" using sane_core [OF core_reads(2) [OF assms(1)]] assms(2) .
  then show "stops (rd_sec h1)" "rd_sec h1 = Done (r, h') \<Longrightarrow> sane h' \<and> rest_len h' < rest_len h"
    using rd_stops rd_sane section_progress [OF assms(1)] by auto
qed

end

lemma sane_type: "ghw_read_type h = Done (r, h') \<Longrightarrow> sane h \<Longrightarrow> sane h'"
  using ghw_read_type_ok [of h r h'] by (auto simp: sane_def tabs_def hie_ok_def split: option.splits)

lemma sane_hie: "ghw_read_hie h = Done (r, h') \<Longrightarrow> sane h \<Longrightarrow> sane h'"
  using ghw_read_hie_ok [of h r h'] by (auto simp: sane_def fst_tabs)

interpretation str_tot: total_section ghw_read_str
  by unfold_locales (auto intro: sane_core [OF core_str])

interpretation typ_tot: total_section ghw_read_type
  by unfold_locales (auto intro: sane_type)

interpretation wkt_tot: total_section ghw_read_wk_types
  by unfold_locales (auto intro: sane_core [OF core_wk])

interpretation hie_tot: total_section ghw_read_hie
proof unfold_locales
  show "sane h \<Longrightarrow> stops (ghw_read_hie h)" for h by (simp add: sane_def ghw_read_hie_stops)
qed (rule sane_hie)

interpretation eoh_tot: total_section ghw_read_eoh
  by unfold_locales (auto simp: ghw_read_eoh_def)

interpretation snp_tot: total_section ghw_read_snapshot
  by unfold_locales (auto intro: sane_core [OF core_snapshot])

interpretation cyc_tot: total_section ghw_read_cycle
  by unfold_locales (auto intro: sane_core [OF core_cycle])

interpretation dir_tot: total_section ghw_read_directory
  by unfold_locales (auto intro: sane_core [OF core_directory(1)])

interpretation tai_tot: total_section ghw_read_tailer
  by unfold_locales (auto intro: sane_core [OF core_directory(2)])

lemma base_section_total: "base_section hdr = Some rd \<Longrightarrow> total_section rd"
  using str_tot.total_section_axioms typ_tot.total_section_axioms wkt_tot.total_section_axioms
    hie_tot.total_section_axioms
  by (auto simp: base_section_def split: if_splits)

lemma section_total: "0 < i \<Longrightarrow> i < 10 \<Longrightarrow> \<exists>rd. snd (ghw_sections ! i) = Some rd \<and> total_section rd"
  using str_tot.total_section_axioms typ_tot.total_section_axioms wkt_tot.total_section_axioms
    hie_tot.total_section_axioms eoh_tot.total_section_axioms snp_tot.total_section_axioms
    cyc_tot.total_section_axioms dir_tot.total_section_axioms tai_tot.total_section_axioms
  by (auto simp: ghw_sections_def less_Suc_eq numeral_eq_Suc)

section \<open>The loops of the program\<close>

lemma base_section_step:
  assumes "sane h" "h_fread 4 h = Done (Some hdr, h1)" "base_section hdr = Some rd"
  shows "stops (rd h1)" "rd h1 = Done (r, h2) \<Longrightarrow> sane h2 \<and> rest_len h2 < rest_len h"
  using total_section.named_section [OF base_section_total [OF assms(3)] assms(2,1)] by blast+

lemma read_base_loop_stops: "sane h \<Longrightarrow> rest_len h < fuel \<Longrightarrow> stops (read_base_loop fuel h)"
proof (induction fuel arbitrary: h)
  case (Suc fuel)
  have next_stops: "stops (rbind (rd h1) (\<lambda>(res, h). if res \<noteq> 0 then Done (res, h) else read_base_loop fuel h))"
    if 1: "h_fread 4 h = Done (Some hdr, h1)" "base_section hdr = Some rd" for hdr h1 rd
  proof -
    note step = base_section_step [OF Suc.prems(1) 1]
    have "stops (read_base_loop fuel h2)" if "rd h1 = Done (r, h2)" for r h2
      using step(2) [OF that] Suc.prems(2) by (intro Suc.IH) simp_all
    with step(1) show ?thesis by (auto intro!: stops_rules)
  qed
  show ?case
  proof (cases "h_fread 4 h")
    case (Done x)
    obtain hdr h1 where "x = (hdr, h1)" by (cases x)
    with Done next_stops [of _ h1] show ?thesis by (auto split: option.split)
  next
    case (Crash c)
    with stops_reads(2) [of 4 h] show ?thesis by simp
  qed
qed simp

lemma read_base_loop_sane: "sane h \<Longrightarrow> read_base_loop fuel h = Done (res, h') \<Longrightarrow> sane h'"
proof (induction fuel arbitrary: h)
  case (Suc fuel)
  then obtain hdr h1 where h1: "h_fread 4 h = Done (hdr, h1)" by auto
  have s1: "sane h1" using sane_core [OF core_reads(2) [OF h1]] Suc.prems(1) .
  show ?case
  proof (cases "h1 = h'")
    case False
    with Suc.prems(2) h1 obtain n rd r h2 where 2: "hdr = Some n" "base_section n = Some rd" "rd h1 = Done (r, h2)"
      "h' = h2 \<or> read_base_loop fuel h2 = Done (res, h')"
      by (auto split: option.splits if_splits)
    with base_section_step(2) [OF Suc.prems(1) h1 [unfolded 2(1)] 2(2)] Suc.IH show ?thesis by blast
  qed (use s1 in simp)
qed simp

lemma find_section_range:
  "find_section hdr ss i = 0 \<or> i \<le> find_section hdr ss i \<and> find_section hdr ss i < i + int (length ss)"
  by (induction hdr ss i rule: find_section.induct) auto

lemma ghw_read_section_cases:
  assumes "ghw_read_section h = Done (i, h1)" "0 < i"
  obtains hdr where "h_fread 4 h = Done (Some hdr, h1)" "i < 10"
proof -
  from assms obtain hdr where "h_fread 4 h = Done (Some hdr, h1)" "i = find_section hdr (tl ghw_sections) 1"
    by (auto simp: ghw_read_section_def split: option.splits if_splits)
  with that find_section_range [of hdr "tl ghw_sections" 1] assms(2) show ?thesis
    by (auto simp: ghw_sections_def)
qed

lemma disp_string_table_stops [simp]: "stops (disp_string_table h)"
proof -
  have "stops (disp_strings_loop h n i)" for n i
    by (induction n arbitrary: i) (auto intro!: stops_rules stops_out stops_outs str_entry_stops)
  then show ?thesis by (simp add: disp_string_table_def)
qed

lemma list_sections_stops: "sane h \<Longrightarrow> rest_len h < fuel \<Longrightarrow> stops (list_sections fuel fmt_g opts h)"
proof (induction fuel arbitrary: h)
  case (Suc fuel)
  have sec: "stops (ghw_read_section h)" by (auto simp: ghw_read_section_def intro!: stops_rules)
  have rd: "stops (rd h1) \<and> (\<forall>r h2. rd h1 = Done (r, h2) \<longrightarrow> sane h2 \<and> rest_len h2 < rest_len h)"
    if 1: "ghw_read_section h = Done (i, h1)" "\<not> i < 0" "i \<noteq> 0" "snd (ghw_sections ! nat i) = Some rd" for i h1 rd
  proof -
    from 1 obtain hdr where hdr: "h_fread 4 h = Done (Some hdr, h1)" "i < 10"
      by (auto elim: ghw_read_section_cases)
    with section_total [of "nat i"] 1 have "total_section rd" by auto
    from total_section.named_section [OF this hdr(1) Suc.prems(1)] show ?thesis by blast
  qed
  have next_stops: "stops (list_sections fuel fmt_g opts h2)"
    if "ghw_read_section h = Done (i, h1)" "\<not> i < 0" "i \<noteq> 0" "snd (ghw_sections ! nat i) = Some rd"
      "rd h1 = Done (r, h2)" for i h1 rd r h2
  proof (rule Suc.IH)
    show "sane h2" "rest_len h2 < fuel" using rd [OF that(1-4)] that(5) Suc.prems(2) by auto
  qed
  show ?case
    unfolding list_sections.simps Let_def
    by (intro stops_rules) (use sec rd next_stops in auto)
qed simp

lemma ghw_filter_signals_stream: "ghw_filter_signals h keep = Done h' \<Longrightarrow> rest_len h' = rest_len h"
  by (auto simp: ghw_filter_signals_def Let_def split: if_splits option.splits intro!: rest_len_stream)

lemma dump_loop_stops: "rest_len h < fuel \<Longrightarrow> stops (dump_loop fuel fmt_g opts sm fd h)"
proof (induction fuel arbitrary: sm fd h)
  case (Suc fuel)
  have sm: "stops (ghw_read_sm sm h)"
    unfolding ghw_read_sm_def by (intro read_sm_loop_stops) simp
  have round: "stops (dump_loop fuel fmt_g opts sm' d h2)"
    if "ghw_read_sm sm h = Done ((res, sm'), h1)" "res = res_num ghw_res_snapshot \<or> res = res_num ghw_res_cycle"
      "rest_len h2 = rest_len h1" for res sm' h1 d h2
  proof (rule Suc.IH)
    show "rest_len h2 < fuel"
      using ghw_read_sm_result [OF that(1)] that(2,3) Suc.prems by (auto simp: res_num_def)
  qed
  let ?shown = "\<lambda>h1. if flag_disp_signals opts
     then rbind (if fd then Done h1 else ghw_filter_signals h1 (signal_set opts)) (\<lambda>h.
       rbind (ghw_disp_values fmt_g h) (\<lambda>s. Done (s, True, h)))
     else Done ('''', fd, h1)"
  have shown: "stops (?shown h1)" "?shown h1 = Done (t, d, h2) \<Longrightarrow> rest_len h2 = rest_len h1" for h1 t d h2
    by (auto intro!: stops_rules split: if_splits dest!: ghw_filter_signals_stream)
  show ?case
  proof (cases "ghw_read_sm sm h")
    case (Done x)
    obtain res sm' h1 where x: "x = ((res, sm'), h1)" by (metis surj_pair)
    have "stops (rbind (?shown h1) (\<lambda>(s, fd, h).
        rbind (dump_loop fuel fmt_g opts sm' fd h) (\<lambda>(t, r). Done (time @ s @ t, r))))"
      if "res = res_num ghw_res_snapshot \<or> res = res_num ghw_res_cycle" for time
      using round [OF Done [unfolded x] that] shown(2) [of h1]
      by (intro stops_rbind stops_prod shown(1)) (simp_all del: dump_loop.simps)
    with Done x show ?thesis by (simp add: Let_def)
  qed (use sm in simp)
qed simp

lemma ghw_open_stops [simp]: "stops (ghw_open fopen popen h f)"
proof -
  have "stops (reread_header popen h d f)" for h d
    by (auto simp: reread_header_def Let_def intro!: stops_rules)
  then show ?thesis
    unfolding ghw_open_def Let_def by (intro stops_rules) simp_all
qed

lemma ghw_open_types:
  assumes "ghw_open fopen popen h f = Done (0, h')"
  shows "types h' = types h \<and> hie h' = None"
proof -
  have c: "check_header h hdr = (0, h') \<Longrightarrow> types h' = types h \<and> hie h' = None" for h hdr
    by (auto simp: check_header_def Let_def split: if_splits)
  have "reread_header popen h d f = Done (0, h') \<Longrightarrow> types h' = types h \<and> hie h' = None" for h d
    by (auto simp: reread_header_def ghw_openz_def Let_def advances_frame
      split: if_splits option.splits dest!: c h_fread_advances)
  note r = this
  show ?thesis
    using assms by (auto simp: ghw_open_def Let_def advances_frame
      split: if_splits option.splits dest!: c r h_fread_advances)
qed

lemma dump_file_stops:
  assumes "types_ok h"
  shows "stops (dump_file fopen popen fmt_g opts fd h f)"
proof -
  have ok: "sane h1" if "ghw_open fopen popen (h\<lparr>flag_verbose := opt_verbose opts\<rparr>) f = Done (0, h1)" for h1
    using ghw_open_types [OF that] assms by (simp add: sane_def hie_ok_def fst_tabs)
  have list: "sane h1 \<Longrightarrow> stops (list_sections (Suc (rest_len h1)) fmt_g opts h1)" for h1
    by (rule list_sections_stops) simp_all
  have base: "sane h1 \<Longrightarrow> stops (ghw_read_base h1)" "sane h1 \<Longrightarrow> ghw_read_base h1 = Done (r, h2) \<Longrightarrow> sane h2" for h1 r h2
    unfolding ghw_read_base_def
    by (rule read_base_loop_stops, assumption, rule lessI) (rule read_base_loop_sane)
  have hie: "sane h2 \<Longrightarrow> stops (ghw_disp_hie fmt_g (h2\<lparr>flag_full_names := b\<rparr>) (hie h2))" for h2 b
    using ghw_disp_hie_stops [of "h2\<lparr>flag_full_names := b\<rparr>"] by (simp add: sane_def hie_ok_def split: option.splits)
  have loop: "stops (dump_loop (Suc (rest_len h2)) fmt_g opts sm d h2)" for sm d h2
    by (rule dump_loop_stops) simp
  show ?thesis
    unfolding dump_file_def Let_def
    by (intro stops_rbind stops_prod stops_If)
      (auto intro!: stops_rbind list base(1) loop hie dest: ok base(2) simp del: dump_loop.simps list_sections.simps)
qed

lemma dump_files_stops:
  assumes "types_ok h"
  shows "stops (dump_files fopen popen fmt_g opts fd h fs)"
  by (induction fs arbitrary: fd) (auto intro!: stops_rules dump_file_stops [OF assms])

lemma set_options_stops [simp]: "stops (set_options opts args)"
proof -
  have sr: "stops (signal_range s n)" for s n
    by (auto simp: signal_range_def Let_def split: list.splits option.splits prod.splits)
  have "stops (add_signals ss s)" for ss s
  proof (induction ss s rule: add_signals.induct)
    case (1 ss s)
    show ?case
      by (subst add_signals.simps) (auto simp: Let_def sr range_signals_def intro!: stops_rules "1.IH")
  qed
  then have "stops (set_option opts c arg)" for opts c arg
    unfolding set_option_def by (intro stops_rules) simp_all
  then show ?thesis
    by (induction args arbitrary: opts) (auto intro!: stops_rules split: sum.splits)
qed

lemma ghwdump_main_stops:
  assumes "types_ok h"
  shows "stops (ghwdump_main fopen popen fmt_g h args files)"
  unfolding ghwdump_main_def
  by (intro stops_rbind) (auto intro: dump_files_stops [OF assms] split: sum.splits)

section \<open>The exit status\<close>

lemma set_options_status: "set_options opts args = Done (Inl st) \<Longrightarrow> st = 1 \<or> st = 2"
proof -
  have one: "set_option opts c arg = Done (Inl st) \<Longrightarrow> st = 1 \<or> st = 2" for opts c arg
    by (auto simp: set_option_def split: if_splits option.splits)
  show "set_options opts args = Done (Inl st) \<Longrightarrow> st = 1 \<or> st = 2"
    by (induction args arbitrary: opts) (auto split: sum.splits dest!: one)
qed

lemma dump_files_status:
  "dump_files fopen popen fmt_g opts fd h fs = Done (s, st) \<Longrightarrow> st = 0 \<or> st = 1 \<or> st = 2"
proof -
  have one: "dump_file fopen popen fmt_g opts fd h f = Done (s, Some st, d) \<Longrightarrow> st = 1 \<or> st = 2" for fd f s d
    by (auto simp: dump_file_def Let_def split: if_splits simp del: dump_loop.simps list_sections.simps)
  show "dump_files fopen popen fmt_g opts fd h fs = Done (s, st) \<Longrightarrow> st = 0 \<or> st = 1 \<or> st = 2"
    by (induction fs arbitrary: fd s) (auto split: option.splits dest!: one)
qed

lemma ghwdump_main_status:
  "ghwdump_main fopen popen fmt_g h args files = Done (s, st) \<Longrightarrow> st \<in> {0, 1, 2}"
  by (auto simp: ghwdump_main_def split: sum.splits if_splits
    dest!: set_options_status dump_files_status)

end
