(* ===== verification/Grt_Jumps.thy ===== *)
theory Grt_Jumps
  imports Ghw_Prelude
begin

text \<open>
  \<open>config/jumps.c\<close>: how the run time returns from an error deep inside the simulation to its main
  program. \<open>__ghdl_run_through_longjump\<close> calls a function behind a \<open>setjmp\<close> and with a handler
  for SIGSEGV; \<open>__ghdl_maybe_return_via_longjump\<close> leaves that function. The model is that of Linux on
  x86-64, where the handlers of SIGFPE and SIGBUS are not installed.
\<close>

section \<open>Backtraces\<close>

type_synonym code_addr = u64

text \<open>\<open>struct backtrace_addrs\<close>; \<open>size\<close> is the length of the list. The array has 32 elements.\<close>

record backtrace_addrs =
  bt_skip :: int
  bt_addrs :: "code_addr list"

definition bt_max :: nat where
  "bt_max = 32"

text \<open>The loop that looks for the program counter from the index \<open>i\<close> on\<close>

fun find_pc :: "code_addr \<Rightarrow> code_addr list \<Rightarrow> int \<Rightarrow> int" where
  "find_pc pc [] i = 0"
| "find_pc pc (a # addrs) i = (if a = pc then i else find_pc pc addrs (i + 1))"

text \<open>
  The part of the context of a signal that the handlers look at: the number of the trap, the program
  counter, and the frames that \<open>backtrace\<close> finds, which stores no more than it is asked for.
\<close>

record ucontext =
  reg_trapno :: nat
  reg_rip :: code_addr
  uc_frames :: "code_addr list"

definition get_bt_from_ucontext :: "ucontext \<Rightarrow> backtrace_addrs" where
  "get_bt_from_ucontext uc =
     (let addrs = take bt_max (uc_frames uc) in \<lparr>bt_skip = find_pc (reg_rip uc) addrs 0, bt_addrs = addrs\<rparr>)"

definition grt_save_backtrace :: "code_addr list \<Rightarrow> int \<Rightarrow> backtrace_addrs run" where
  "grt_save_backtrace frames skip =
     rbind (c_int (skip + 1)) (\<lambda>skip. Done \<lparr>bt_skip = skip, bt_addrs = take bt_max frames\<rparr>)"

section \<open>The state\<close>

text \<open>The three mechanisms between which \<open>jumps.c\<close> chooses when it is compiled\<close>

datatype sjlj = USE_BUILTIN_SJLJ | USE__SETJMP | USE_SETJMP

datatype sig_handler = SIG_DFL | Grt_sigsegv_handler | Other_handler nat

record sig_action =
  sa_sigaction :: sig_handler
  sa_siginfo :: bool
  sa_oneshot :: bool

datatype grt_error = Overflow_error | Null_access_error

text \<open>
  The static variables of \<open>jumps.c\<close>, what the system keeps for SIGSEGV (its action, and whether it is
  blocked), and what the run time has reported. \<open>Error_Hook\<close> is the procedure that \<open>Fatal_Error\<close> calls first,
  if one is set: it belongs to the program around the run time, is known by a number, and \<open>hooks_called\<close>
  lists the calls. A buffer for \<open>setjmp\<close> holds the frame of the
  function that called it, counted from the outermost call of \<open>__ghdl_run_through_longjump\<close>, and
  the signal mask at that time.
\<close>

record jmp_state =
  run_env_en :: int
  run_env :: "(nat \<times> bool) option"
  prev_sigsegv_act :: sig_action
  sigsegv_act :: sig_action
  sigsegv_blocked :: bool
  expect_failure :: bool
  error_hook :: "nat option"
  hooks_called :: "nat list"
  reports :: "(grt_error \<times> backtrace_addrs) list"

section \<open>Signals\<close>

definition grt_signal_setup :: "jmp_state \<Rightarrow> jmp_state" where
  "grt_signal_setup s = s\<lparr>prev_sigsegv_act := sigsegv_act s,
     sigsegv_act := \<lparr>sa_sigaction = Grt_sigsegv_handler, sa_siginfo = True, sa_oneshot = True\<rparr>\<rparr>"

definition grt_signal_restore :: "jmp_state \<Rightarrow> jmp_state" where
  "grt_signal_restore s = s\<lparr>sigsegv_act := prev_sigsegv_act s\<rparr>"

section \<open>Jumps\<close>

text \<open>
  How a piece of the program ends: it returns a number, jumps to a frame with a value that is given
  to \<open>setjmp\<close>, or ends the process.
\<close>

datatype ending = Returned int | Jumped nat int | Exited int | Killed | Handled_by nat

text \<open>
  \<open>LONGJMP (run_env, val)\<close> from code that runs in the frames below \<open>depth\<close>. \<open>_longjmp\<close> and
  \<open>longjmp\<close> replace 0 by 1, \<open>__builtin_longjmp\<close> does not; only \<open>longjmp\<close> restores the signal mask.
\<close>

definition long_jump :: "sjlj \<Rightarrow> int \<Rightarrow> nat \<Rightarrow> jmp_state \<Rightarrow> (ending \<times> jmp_state) run" where
  "long_jump sj val depth s = (case run_env s of
     None \<Rightarrow> Crash Uninitialised
   | Some (frame, blocked) \<Rightarrow>
       if depth \<le> frame then Crash Bad_jump
       else Done (Jumped frame (if sj \<noteq> USE_BUILTIN_SJLJ \<and> val = 0 then 1 else val),
         if sj = USE_SETJMP then s\<lparr>sigsegv_blocked := blocked\<rparr> else s))"

text \<open>\<open>None\<close>: the function returns.\<close>

definition maybe_return_via_longjump ::
  "sjlj \<Rightarrow> int \<Rightarrow> nat \<Rightarrow> jmp_state \<Rightarrow> (ending option \<times> jmp_state) run" where
  "maybe_return_via_longjump sj val depth s =
     (if run_env_en s \<noteq> 0 then rbind (long_jump sj val depth s) (\<lambda>(e, s). Done (Some e, s)) else Done (None, s))"

text \<open>
  The hook of \<open>Fatal_Error\<close> in \<open>grt-errors.adb\<close>: it is reset before it is called. The procedure returns and leaves
  the variables of \<open>jumps.c\<close> alone.
\<close>

definition call_error_hook :: "jmp_state \<Rightarrow> jmp_state" where
  "call_error_hook s = (case error_hook s of
     None \<Rightarrow> s
   | Some hook \<Rightarrow> s\<lparr>error_hook := None, hooks_called := hooks_called s @ [hook]\<rparr>)"

text \<open>
  \<open>Grt_Overflow_Error\<close> and \<open>Grt_Null_Access_Error\<close> of \<open>grt-errors.adb\<close>: both print the error with
  its backtrace and end in \<open>Fatal_Error\<close>.
\<close>

definition grt_fatal_error ::
  "sjlj \<Rightarrow> grt_error \<Rightarrow> backtrace_addrs \<Rightarrow> nat \<Rightarrow> jmp_state \<Rightarrow> (ending \<times> jmp_state) run" where
  "grt_fatal_error sj err bt depth s =
     (let s = call_error_hook (s\<lparr>reports := reports s @ [(err, bt)]\<rparr>) in
      rbind (maybe_return_via_longjump sj (-1) depth s) (\<lambda>(j, s).
      Done (case j of Some e \<Rightarrow> e | None \<Rightarrow> Exited (if expect_failure s then 0 else 1), s)))"

definition grt_sigsegv_handler :: "sjlj \<Rightarrow> ucontext \<Rightarrow> nat \<Rightarrow> jmp_state \<Rightarrow> (ending \<times> jmp_state) run" where
  "grt_sigsegv_handler sj uc depth s =
     (let bt = get_bt_from_ucontext uc in
      if reg_trapno uc = 4 then grt_fatal_error sj Overflow_error bt depth s
      else grt_fatal_error sj Null_access_error bt depth s)"

text \<open>
  An instruction raises SIGSEGV. The system kills the process when the signal is blocked or has no
  handler; otherwise it blocks the signal for the time of the handler, and takes the handler away
  when it was installed for one signal only.
\<close>

definition raise_sigsegv :: "sjlj \<Rightarrow> ucontext \<Rightarrow> nat \<Rightarrow> jmp_state \<Rightarrow> (ending \<times> jmp_state) run" where
  "raise_sigsegv sj uc depth s =
     (if sigsegv_blocked s then Done (Killed, s)
      else case sa_sigaction (sigsegv_act s) of
        SIG_DFL \<Rightarrow> Done (Killed, s)
      | Other_handler n \<Rightarrow> Done (Handled_by n, s)
      | Grt_sigsegv_handler \<Rightarrow> grt_sigsegv_handler sj uc depth (s\<lparr>sigsegv_blocked := True,
          sigsegv_act := (if sa_oneshot (sigsegv_act s) then \<lparr>sa_sigaction = SIG_DFL, sa_siginfo = False, sa_oneshot = False\<rparr>
            else sigsegv_act s)\<rparr>))"

section \<open>Programs\<close>

text \<open>
  What the functions of the run time do, as far as it concerns \<open>jumps.c\<close>: return a number, call
  \<open>__ghdl_maybe_return_via_longjump\<close> and go on when it returns, execute an instruction that faults in
  some context, or call \<open>__ghdl_run_through_longjump\<close> with a function and go on with its result.
\<close>

datatype 'c prog =
    Return int
  | Maybe_return int "'c prog"
  | Fault 'c
  | Run_through "'c prog" "int \<Rightarrow> 'c prog"

text \<open>
  The body of \<open>__ghdl_run_through_longjump\<close>, in the frame \<open>frame\<close>, from \<open>SETJMP\<close> on. A jump to the
  frame returns from \<open>SETJMP\<close> again; with the value 0 the function is called again, and \<open>fuel\<close>
  bounds the number of these calls.
\<close>

fun setjmp_loop ::
  "nat \<Rightarrow> (jmp_state \<Rightarrow> (ending \<times> jmp_state) run) \<Rightarrow> nat \<Rightarrow> jmp_state \<Rightarrow> (ending \<times> jmp_state) run" where
  "setjmp_loop 0 func frame s = Crash No_return"
| "setjmp_loop (Suc fuel) func frame s = rbind (func s) (\<lambda>(e, s). case e of
     Jumped target val \<Rightarrow>
       if target \<noteq> frame then Done (e, s)
       else if val = 0 then setjmp_loop fuel func frame s
       else Done (Returned val, s)
   | _ \<Rightarrow> Done (e, s))"

definition run_through_longjump ::
  "nat \<Rightarrow> (jmp_state \<Rightarrow> (ending \<times> jmp_state) run) \<Rightarrow> nat \<Rightarrow> jmp_state \<Rightarrow> (ending \<times> jmp_state) run" where
  "run_through_longjump fuel func frame s =
     (let s = grt_signal_setup (s\<lparr>run_env_en := 1\<rparr>);
          s = s\<lparr>run_env := Some (frame, sigsegv_blocked s)\<rparr>
      in rbind (setjmp_loop fuel func frame s) (\<lambda>(e, s). case e of
           Returned res \<Rightarrow> Done (Returned res, (grt_signal_restore s)\<lparr>run_env_en := 0\<rparr>)
         | _ \<Rightarrow> Done (e, s)))"

primrec exec :: "sjlj \<Rightarrow> nat \<Rightarrow> ucontext prog \<Rightarrow> nat \<Rightarrow> jmp_state \<Rightarrow> (ending \<times> jmp_state) run" where
  "exec sj fuel (Return n) = (\<lambda>depth s. Done (Returned n, s))"
| "exec sj fuel (Maybe_return val p) = (\<lambda>depth s.
     rbind (maybe_return_via_longjump sj val depth s) (\<lambda>(j, s).
     case j of Some e \<Rightarrow> Done (e, s) | None \<Rightarrow> exec sj fuel p depth s))"
| "exec sj fuel (Fault uc) = (\<lambda>depth s. raise_sigsegv sj uc depth s)"
| "exec sj fuel (Run_through p k) = (\<lambda>depth s.
     rbind (run_through_longjump fuel (exec sj fuel p (Suc depth)) depth s) (\<lambda>(e, s). case e of
       Returned res \<Rightarrow> exec sj fuel (k res) depth s
     | _ \<Rightarrow> Done (e, s)))"


section \<open>Backtraces point to the fault\<close>

lemma find_pc_found: "pc \<in> set addrs \<Longrightarrow>
   \<exists>k < length addrs. find_pc pc addrs i = i + int k \<and> addrs ! k = pc \<and> pc \<notin> set (take k addrs)"
proof (induction addrs arbitrary: i)
  case (Cons a addrs)
  show ?case
  proof (cases "a = pc")
    case False
    with Cons obtain k where "k < length addrs" "find_pc pc addrs (i + 1) = i + 1 + int k" "addrs ! k = pc"
      "pc \<notin> set (take k addrs)" by auto
    with False show ?thesis by (intro exI [of _ "Suc k"]) auto
  qed (auto intro!: exI [of _ 0])
qed simp

lemma find_pc_missing: "pc \<notin> set addrs \<Longrightarrow> find_pc pc addrs i = 0"
  by (induction addrs arbitrary: i) auto

section \<open>Jumps reach live frames\<close>

text \<open>
  While jumps are enabled, the buffer holds the frame of the innermost call of
  \<open>__ghdl_run_through_longjump\<close>.
\<close>

definition env_ok :: "nat \<Rightarrow> jmp_state \<Rightarrow> bool" where
  "env_ok depth s \<longleftrightarrow> (run_env_en s \<noteq> 0 \<longrightarrow> (\<exists>frame b. run_env s = Some (frame, b) \<and> depth = Suc frame))"

lemma env_ok_simps [simp]:
  "env_ok depth (s\<lparr>reports := r\<rparr>) = env_ok depth s"
  "env_ok depth (s\<lparr>sigsegv_blocked := b\<rparr>) = env_ok depth s"
  "env_ok depth (s\<lparr>sigsegv_blocked := b, sigsegv_act := a\<rparr>) = env_ok depth s"
  by (simp_all add: env_ok_def)

lemma env_ok_hook [simp]: "env_ok depth (call_error_hook s) = env_ok depth s"
  by (simp add: env_ok_def call_error_hook_def split: option.splits)

lemma prev_hook [simp]: "prev_sigsegv_act (call_error_hook s) = prev_sigsegv_act s"
  by (simp add: call_error_hook_def split: option.splits)

text \<open>An ending that \<open>exec\<close> gives from a good state: a jump goes to the frame above.\<close>

definition ends_ok :: "nat \<Rightarrow> ending \<times> jmp_state \<Rightarrow> bool" where
  "ends_ok depth = (\<lambda>(e, s). case e of
     Returned r \<Rightarrow> env_ok depth s | Jumped t v \<Rightarrow> env_ok depth s \<and> depth = Suc t | _ \<Rightarrow> True)"

definition safe :: "nat \<Rightarrow> (ending \<times> jmp_state) run \<Rightarrow> bool" where
  "safe depth m \<longleftrightarrow> (case m of Done r \<Rightarrow> ends_ok depth r | Crash c \<Rightarrow> c = No_return)"

lemma safe_simps [simp]: "safe depth (Done r) = ends_ok depth r" "safe depth (Crash c) = (c = No_return)"
  by (simp_all add: safe_def)

lemma maybe_return_safe:
  assumes "env_ok depth s"
  shows "(\<exists>e s'. maybe_return_via_longjump sj val depth s = Done (Some e, s') \<and> ends_ok depth (e, s')) \<or>
    maybe_return_via_longjump sj val depth s = Done (None, s)"
  using assms
  by (auto simp: maybe_return_via_longjump_def long_jump_def ends_ok_def env_ok_def)

lemma raise_sigsegv_safe: "env_ok depth s \<Longrightarrow> safe depth (raise_sigsegv sj uc depth s)"
proof -
  have *: "safe depth (grt_fatal_error sj err bt depth s)" if "env_ok depth s" for err bt s
    using maybe_return_safe [of depth "call_error_hook (s\<lparr>reports := reports s @ [(err, bt)]\<rparr>)" sj "-1"] that
    by (auto simp: grt_fatal_error_def ends_ok_def Let_def)
  assume "env_ok depth s"
  then show ?thesis
    by (auto simp: raise_sigsegv_def grt_sigsegv_handler_def Let_def ends_ok_def intro!: *
      split: sig_handler.splits)
qed

text \<open>What a call of \<open>__ghdl_run_through_longjump\<close> gives: no jump leaves it.\<close>

definition contained :: "(ending \<times> jmp_state) run \<Rightarrow> bool" where
  "contained m \<longleftrightarrow> (case m of Done (e, s) \<Rightarrow> (\<forall>t v. e \<noteq> Jumped t v) | Crash c \<Rightarrow> c = No_return)"

lemma contained_simps [simp]:
  "contained (Done (e, s)) \<longleftrightarrow> (\<forall>t v. e \<noteq> Jumped t v)" "contained (Crash c) \<longleftrightarrow> c = No_return"
  by (simp_all add: contained_def)

lemma contained_finish:
  "contained m \<Longrightarrow> contained (rbind m (\<lambda>(e, s). case e of Returned r \<Rightarrow> Done (Returned r, f s) | _ \<Rightarrow> Done (e, s)))"
  by (cases m) (auto split: ending.splits)

lemma run_through_contained:
  assumes "\<And>s. env_ok (Suc depth) s \<Longrightarrow> safe (Suc depth) (func s)"
  shows "contained (run_through_longjump fuel func depth s)"
proof -
  have *: "contained (setjmp_loop fuel func depth s)" if "env_ok (Suc depth) s" for s
    using that
  proof (induction fuel arbitrary: s)
    case (Suc fuel)
    have "safe (Suc depth) (func s)" using assms Suc.prems .
    with Suc.IH show ?case
      by (cases "func s") (auto simp: ends_ok_def split: ending.splits)
  qed simp
  have "env_ok (Suc depth) ((grt_signal_setup (s\<lparr>run_env_en := 1\<rparr>))\<lparr>run_env := Some (depth, b)\<rparr>)" for b
    by (simp add: env_ok_def grt_signal_setup_def)
  from * [OF this] show ?thesis
    by (simp add: run_through_longjump_def Let_def contained_finish)
qed

lemma run_through_disables:
  "run_through_longjump fuel func depth s = Done (Returned r, s') \<Longrightarrow> run_env_en s' = 0"
  by (auto simp: run_through_longjump_def Let_def split: ending.splits)

lemma exec_safe: "env_ok depth s \<Longrightarrow> safe depth (exec sj fuel p depth s)"
proof (induction p arbitrary: depth s)
  case (Maybe_return val p)
  from maybe_return_safe [OF Maybe_return.prems, of sj val] Maybe_return.IH [OF Maybe_return.prems]
  show ?case by auto
next
  case (Run_through p k)
  have c: "contained (run_through_longjump fuel (exec sj fuel p (Suc depth)) depth s)"
    by (rule run_through_contained) (rule Run_through.IH)
  show ?case
  proof (cases "run_through_longjump fuel (exec sj fuel p (Suc depth)) depth s")
    case (Done x)
    obtain e s' where x: "x = (e, s')" by (cases x)
    show ?thesis
    proof (cases e)
      case (Returned r)
      with Done x have "env_ok depth s'" by (auto simp: env_ok_def dest: run_through_disables)
      with Run_through.IH(2) [of "k r"] Done x Returned show ?thesis by simp
    qed (use Done x c in \<open>auto simp: ends_ok_def\<close>)
  qed (use c in auto)
qed (auto simp: ends_ok_def raise_sigsegv_safe)

section \<open>The action of SIGSEGV is put back\<close>

text \<open>A program that does not call \<open>__ghdl_run_through_longjump\<close>\<close>

fun flat :: "'c prog \<Rightarrow> bool" where
  "flat (Return n) = True"
| "flat (Maybe_return val p) = flat p"
| "flat (Fault uc) = True"
| "flat (Run_through p k) = False"

definition keeps_prev :: "sig_action \<Rightarrow> (ending \<times> jmp_state) run \<Rightarrow> bool" where
  "keeps_prev a m \<longleftrightarrow> may_run m (\<lambda>(e, s). prev_sigsegv_act s = a)"

lemma long_jump_prev: "keeps_prev (prev_sigsegv_act s) (long_jump sj val depth s)"
  by (auto simp: keeps_prev_def long_jump_def split: option.splits)

lemma grt_fatal_error_prev:
  "prev_sigsegv_act s = a \<Longrightarrow> keeps_prev a (grt_fatal_error sj err bt depth s)"
  using long_jump_prev [of "call_error_hook (s\<lparr>reports := reports s @ [(err, bt)]\<rparr>)" sj "-1" depth]
  by (auto simp: keeps_prev_def grt_fatal_error_def Let_def maybe_return_via_longjump_def may_run_rbind
    elim!: may_run_mono)

lemma exec_flat_prev: "flat p \<Longrightarrow> keeps_prev (prev_sigsegv_act s) (exec sj fuel p depth s)"
proof (induction p)
  case (Maybe_return val p)
  then show ?case
    using long_jump_prev [of s sj val depth]
    by (auto simp: keeps_prev_def maybe_return_via_longjump_def may_run_rbind elim!: may_run_mono)
next
  case (Fault uc)
  have "keeps_prev (prev_sigsegv_act s) (Done (e, s))" for e by (simp add: keeps_prev_def)
  then show ?case
    by (simp add: raise_sigsegv_def grt_sigsegv_handler_def Let_def grt_fatal_error_prev
      split: sig_handler.splits)
qed (auto simp: keeps_prev_def)

lemma setjmp_loop_prev:
  assumes "\<And>s. keeps_prev (prev_sigsegv_act s) (func s)"
  shows "keeps_prev (prev_sigsegv_act s) (setjmp_loop fuel func frame s)"
proof (induction fuel arbitrary: s)
  case (Suc fuel)
  show ?case
  proof (cases "func s")
    case (Done x)
    then show ?thesis
      using assms [of s] Suc.IH [of "snd x"] by (auto simp: keeps_prev_def split: ending.splits)
  qed (simp add: keeps_prev_def)
qed (simp add: keeps_prev_def)

section \<open>Properties\<close>

text \<open>
  C28: Jumps never reach a function that has returned, nor a buffer that was not set: whatever a
  program does, with calls of \<open>__ghdl_run_through_longjump\<close> nested in any way, from a state in which
  jumps are disabled no \<open>longjmp\<close> goes wrong and none leaves the outermost call.
\<close>

theorem longjmp_target_live:
  assumes "run_env_en s = 0"
  shows "exec sj fuel p depth s \<noteq> Crash Bad_jump \<and> exec sj fuel p depth s \<noteq> Crash Uninitialised \<and>
    exec sj fuel (Run_through p Return) depth s \<noteq> Done (Jumped target val, s')"
proof (intro conjI)
  from assms have "env_ok depth s" by (simp add: env_ok_def)
  from exec_safe [OF this, of sj fuel p] have "exec sj fuel p depth s = Crash c \<Longrightarrow> c = No_return" for c
    by (simp add: safe_def)
  then show "exec sj fuel p depth s \<noteq> Crash Bad_jump" "exec sj fuel p depth s \<noteq> Crash Uninitialised"
    by auto
  have "contained (run_through_longjump fuel (exec sj fuel p (Suc depth)) depth s)"
    by (rule run_through_contained) (rule exec_safe)
  then show "exec sj fuel (Run_through p Return) depth s \<noteq> Done (Jumped target val, s')"
    by (cases "run_through_longjump fuel (exec sj fuel p (Suc depth)) depth s")
      (auto split: ending.splits)
qed

definition no_action :: sig_action where
  "no_action = \<lparr>sa_sigaction = SIG_DFL, sa_siginfo = False, sa_oneshot = False\<rparr>"

definition jmp_start :: jmp_state where
  "jmp_start = \<lparr>run_env_en = 0, run_env = None, prev_sigsegv_act = no_action, sigsegv_act = no_action,
     sigsegv_blocked = False, expect_failure = False, error_hook = None, hooks_called = [], reports = []\<rparr>"

lemma longjmp_target_live_witness:
  "exec USE__SETJMP 1 (Run_through (Maybe_return 5 (Return 0)) Return) 0 jmp_start \<noteq> Crash Bad_jump \<and>
   exec USE__SETJMP 1 (Run_through (Maybe_return 5 (Return 0)) Return) 0 jmp_start =
     Done (Returned 5, jmp_start\<lparr>run_env := Some (0, False)\<rparr>)"
proof
  show "exec USE__SETJMP 1 (Run_through (Maybe_return 5 (Return 0)) Return) 0 jmp_start \<noteq> Crash Bad_jump"
    by (rule longjmp_target_live [THEN conjunct1]) (simp add: jmp_start_def)
qed (code_simp)

text \<open>
  C29: A fault in the function that \<open>__ghdl_run_through_longjump\<close> calls makes it return -1: the error
  is reported once, as an overflow when the number of the trap is 4 and as a NULL access otherwise,
  with the backtrace of the fault, the error hook is called if there is one and is not called again, the
  action of SIGSEGV is put back, and jumps are disabled. The signal stays blocked, unless \<open>setjmp\<close>
  saves the mask.
\<close>

theorem fault_is_reported:
  assumes "\<not> sigsegv_blocked s"
  shows "exec sj (Suc fuel) (Run_through (Fault uc) k) depth s = exec sj (Suc fuel) (k (-1)) depth
    (s\<lparr>run_env_en := 0, prev_sigsegv_act := sigsegv_act s, run_env := Some (depth, False),
       sigsegv_blocked := (sj \<noteq> USE_SETJMP), error_hook := None,
       hooks_called := hooks_called s @ (case error_hook s of None \<Rightarrow> [] | Some hook \<Rightarrow> [hook]),
       reports := reports s @ [(if reg_trapno uc = 4 then Overflow_error else Null_access_error,
         get_bt_from_ucontext uc)]\<rparr>)"
  using assms
  by (cases s) (simp add: run_through_longjump_def Let_def raise_sigsegv_def grt_signal_setup_def
    grt_sigsegv_handler_def grt_fatal_error_def maybe_return_via_longjump_def long_jump_def
    grt_signal_restore_def call_error_hook_def split: option.splits)

lemma fault_is_reported_witness:
  "\<not> sigsegv_blocked jmp_start \<and>
   exec USE_SETJMP 1 (Run_through (Fault \<lparr>reg_trapno = 14, reg_rip = 8, uc_frames = [3, 8]\<rparr>) Return) 0
       (jmp_start\<lparr>error_hook := Some 7\<rparr>) =
     Done (Returned (-1), jmp_start\<lparr>run_env := Some (0, False), hooks_called := [7],
       reports := [(Null_access_error, \<lparr>bt_skip = 1, bt_addrs = [3, 8]\<rparr>)]\<rparr>)"
  using fault_is_reported [of "jmp_start\<lparr>error_hook := Some 7\<rparr>" USE_SETJMP 0 "\<lparr>reg_trapno = 14, reg_rip = 8, uc_frames = [3, 8]\<rparr>" Return 0]
  by (simp add: jmp_start_def no_action_def get_bt_from_ucontext_def bt_max_def)

text \<open>
  C30: After one fault has been reported, a second fault kills the process, since the jump out of the
  handler leaves SIGSEGV blocked; only \<open>USE_SETJMP\<close>, which is never chosen, reports both.
\<close>

theorem second_fault_kills:
  assumes "\<not> sigsegv_blocked s"
  shows "runs_to (exec sj (Suc fuel) (Run_through (Fault uc1) (\<lambda>_. Run_through (Fault uc2) Return)) depth s)
    (\<lambda>(e, s'). e = (if sj = USE_SETJMP then Returned (-1) else Killed) \<and>
      length (reports s') = length (reports s) + (if sj = USE_SETJMP then 2 else 1))"
  using assms
  by (simp add: run_through_longjump_def Let_def raise_sigsegv_def grt_signal_setup_def
    grt_sigsegv_handler_def grt_fatal_error_def maybe_return_via_longjump_def long_jump_def
    grt_signal_restore_def call_error_hook_def split: option.splits)

lemma second_fault_kills_witness:
  "\<not> sigsegv_blocked jmp_start \<and>
   runs_to (exec USE_BUILTIN_SJLJ 1 (Run_through (Fault \<lparr>reg_trapno = 14, reg_rip = 8, uc_frames = []\<rparr>)
     (\<lambda>_. Run_through (Fault \<lparr>reg_trapno = 4, reg_rip = 8, uc_frames = []\<rparr>) Return)) 0 jmp_start)
     (\<lambda>(e, s'). e = Killed \<and> length (reports s') = 1)"
  using second_fault_kills [of jmp_start USE_BUILTIN_SJLJ 0 "\<lparr>reg_trapno = 14, reg_rip = 8, uc_frames = []\<rparr>"
      "\<lparr>reg_trapno = 4, reg_rip = 8, uc_frames = []\<rparr>" 0]
  by (simp add: jmp_start_def)

text \<open>
  C31: A call of \<open>__ghdl_run_through_longjump\<close> that returns leaves jumps disabled, whatever its function does. When
  the function is \<open>flat\<close>, that is, does not call \<open>__ghdl_run_through_longjump\<close> itself, the action of SIGSEGV is
  again what it was before the call, also when the handler that is installed for one signal has been taken away.
\<close>

theorem run_restores_action:
  assumes "exec sj fuel (Run_through p Return) depth s = Done (Returned r, s')"
  shows "run_env_en s' = 0 \<and> (flat p \<longrightarrow> sigsegv_act s' = sigsegv_act s)"
proof -
  let ?s = "grt_signal_setup (s\<lparr>run_env_en := 1\<rparr>)"
  let ?s = "?s\<lparr>run_env := Some (depth, sigsegv_blocked ?s)\<rparr>"
  have "keeps_prev (prev_sigsegv_act ?s) (setjmp_loop fuel (exec sj fuel p (Suc depth)) depth ?s)" if "flat p"
    using that by (intro setjmp_loop_prev exec_flat_prev)
  then show ?thesis
    using assms
    by (auto simp: run_through_longjump_def Let_def keeps_prev_def grt_signal_setup_def
      grt_signal_restore_def split: ending.splits)
qed

text \<open>A fault while another handler was installed before\<close>

definition foreign_action :: sig_action where
  "foreign_action = \<lparr>sa_sigaction = Other_handler 5, sa_siginfo = False, sa_oneshot = False\<rparr>"

lemma run_restores_action_witness:
  "\<exists>s'. exec USE_BUILTIN_SJLJ 1 (Run_through (Fault \<lparr>reg_trapno = 4, reg_rip = 8, uc_frames = []\<rparr>) Return) 0
      (jmp_start\<lparr>sigsegv_act := foreign_action\<rparr>) = Done (Returned (-1), s') \<and>
    reports s' \<noteq> [] \<and> run_env_en s' = 0 \<and> sigsegv_act s' = foreign_action"
proof -
  let ?p = "Fault \<lparr>reg_trapno = 4, reg_rip = 8, uc_frames = []\<rparr> :: ucontext prog"
  let ?s = "jmp_start\<lparr>sigsegv_act := foreign_action\<rparr>"
  have "runs_to (exec USE_BUILTIN_SJLJ 1 (Run_through ?p Return) 0 ?s) (\<lambda>(e, s'). e = Returned (-1) \<and> reports s' \<noteq> [])"
    by code_simp
  then obtain s' where s': "exec USE_BUILTIN_SJLJ 1 (Run_through ?p Return) 0 ?s = Done (Returned (-1), s')" "reports s' \<noteq> []"
    by (auto elim!: runs_toE)
  from run_restores_action [OF this(1)] s' show ?thesis by (intro exI [of _ s']) simp
qed

text \<open>
  \<open>__ghdl_run_through_longjump\<close> cannot be nested. Once the inner call has returned, errors of the
  outer function no longer return through the outer call, and when that has returned, the handler
  of the run time stays installed.
\<close>

lemma run_not_reentrant:
  "runs_to (exec sj (Suc fuel) (Run_through (Run_through (Return a) (\<lambda>_. Maybe_return v (Return b))) Return) depth s)
    (\<lambda>(e, s'). e = Returned b \<and> sa_sigaction (sigsegv_act s') = Grt_sigsegv_handler)"
  by (simp add: run_through_longjump_def Let_def maybe_return_via_longjump_def
    grt_signal_restore_def grt_signal_setup_def)

text \<open>
  C37: With the builtin jumps, an error value of 0 calls the function again, and so without end; the
  other two mechanisms return 1.
\<close>

theorem jump_value_zero:
  "exec sj (Suc fuel) (Run_through (Maybe_return 0 p) k) depth s =
     (if sj = USE_BUILTIN_SJLJ then Crash No_return
      else exec sj (Suc fuel) (k 1) depth (s\<lparr>run_env_en := 0, prev_sigsegv_act := sigsegv_act s,
        run_env := Some (depth, sigsegv_blocked s)\<rparr>))"
proof (cases "sj = USE_BUILTIN_SJLJ")
  case True
  have "setjmp_loop n (exec USE_BUILTIN_SJLJ (Suc fuel) (Maybe_return 0 p) (Suc depth)) depth t = Crash No_return"
    if "run_env_en t = 1" "run_env t = Some (depth, b)" for n t b
    using that by (induction n) (simp_all add: maybe_return_via_longjump_def long_jump_def)
  then have "run_through_longjump (Suc fuel) (exec USE_BUILTIN_SJLJ (Suc fuel) (Maybe_return 0 p) (Suc depth)) depth s
      = Crash No_return"
    by (simp add: run_through_longjump_def Let_def grt_signal_setup_def del: setjmp_loop.simps exec.simps(2))
  with True show ?thesis by simp
next
  case False
  then show ?thesis
    by (cases s) (simp add: run_through_longjump_def Let_def maybe_return_via_longjump_def long_jump_def
        grt_signal_restore_def grt_signal_setup_def)
qed

text \<open>
  The backtrace of a fault holds the first 32 frames, and \<open>skip\<close> is the first of them that is the
  faulting instruction, or 0 when there is none.
\<close>

lemma backtrace_skip:
  "bt_addrs (get_bt_from_ucontext uc) = take 32 (uc_frames uc) \<and>
   (if reg_rip uc \<in> set (take 32 (uc_frames uc))
    then \<exists>k < 32. bt_skip (get_bt_from_ucontext uc) = int k \<and> uc_frames uc ! k = reg_rip uc \<and>
      reg_rip uc \<notin> set (take k (uc_frames uc))
    else bt_skip (get_bt_from_ucontext uc) = 0)"
  using find_pc_found [of "reg_rip uc" "take 32 (uc_frames uc)" 0]
    find_pc_missing [of "reg_rip uc" "take 32 (uc_frames uc)" 0]
  by (auto simp: get_bt_from_ucontext_def bt_max_def Let_def min_def split: if_splits)

end
