(* ===== verification/Grt_Win32.thy ===== *)
theory Grt_Win32
  imports Grt_Jumps
begin

text \<open>
  \<open>config/win32.c\<close>: the mechanism of \<open>jumps.c\<close> for Windows. On i386,
  \<open>__ghdl_run_through_longjump\<close> puts a handler in front of the chain of exception handlers of the
  thread; on x86-64 it installs none. The backtrace is made by walking the stack.
\<close>

section \<open>Walking the stack\<close>

text \<open>
  \<open>StackWalk64\<close> is an argument: the frame that follows a frame, if there is one, and \<open>pc\<close> the program
  counter of a frame. Each round of the loop lowers \<open>skip\<close> or stores an address.
\<close>

function bt_loop :: "('f \<Rightarrow> 'f option) \<Rightarrow> ('f \<Rightarrow> code_addr) \<Rightarrow> 'f \<Rightarrow> int \<Rightarrow> code_addr list \<Rightarrow> code_addr list" where
  "bt_loop walk pc f skip addrs =
     (if length addrs < bt_max
      then
        let (skip, addrs) = (if 0 < skip then (skip - 1, addrs) else (skip, addrs @ [pc f])) in
        case walk f of None \<Rightarrow> addrs | Some f' \<Rightarrow> bt_loop walk pc f' skip addrs
      else addrs)"
  by pat_completeness auto
termination
  by (relation "measure (\<lambda>(walk, pc, f, skip, addrs). nat skip + (bt_max - length addrs))")
    (auto split: if_splits)

declare bt_loop.simps [simp del]

definition get_bt_from_context ::
  "('f \<Rightarrow> 'f option) \<Rightarrow> ('f \<Rightarrow> code_addr) \<Rightarrow> 'f \<Rightarrow> int \<Rightarrow> backtrace_addrs" where
  "get_bt_from_context walk pc ctxt skip = \<lparr>bt_skip = 0, bt_addrs = bt_loop walk pc ctxt skip []\<rparr>"

text \<open>\<open>grt_save_backtrace\<close> with the context that \<open>RtlCaptureContext\<close> gives\<close>

definition win_save_backtrace ::
  "('f \<Rightarrow> 'f option) \<Rightarrow> ('f \<Rightarrow> code_addr) \<Rightarrow> 'f \<Rightarrow> int \<Rightarrow> backtrace_addrs run" where
  "win_save_backtrace walk pc ctxt skip =
     rbind (c_int (skip + 1)) (\<lambda>skip. Done (get_bt_from_context walk pc ctxt skip))"

section \<open>Exceptions\<close>

datatype win_exception =
    EXCEPTION_ACCESS_VIOLATION | EXCEPTION_FLT_DENORMAL_OPERAND | EXCEPTION_FLT_DIVIDE_BY_ZERO
  | EXCEPTION_FLT_INVALID_OPERATION | EXCEPTION_FLT_OVERFLOW | EXCEPTION_FLT_STACK_CHECK
  | EXCEPTION_FLT_UNDERFLOW | EXCEPTION_INT_DIVIDE_BY_ZERO | EXCEPTION_INT_OVERFLOW
  | EXCEPTION_STACK_OVERFLOW | EXCEPTION_other u32

text \<open>
  The record of an exception with the frames of its stack, from the frame of the fault on. The chain
  \<open>fs_0\<close> of the thread holds the handlers, the innermost first; on x86-64 it stands for the handlers that the
  program around the run time has set up.
\<close>

type_synonym win_fault = "win_exception \<times> code_addr list"

datatype seh_handler = Ghdl_SEH_handler | Foreign_handler nat

record win_state =
  win_env_en :: int
  win_env :: "nat option"
  fs_0 :: "seh_handler list"
  win_expect_failure :: bool
  win_error_hook :: "nat option"
  win_hooks_called :: "nat list"
  win_reports :: "(grt_error \<times> backtrace_addrs) list"
  win_stderr :: "string list"

text \<open>\<open>longjmp\<close> replaces 0 by 1.\<close>

definition win_maybe_return :: "int \<Rightarrow> nat \<Rightarrow> win_state \<Rightarrow> ending option run" where
  "win_maybe_return val depth s =
     (if win_env_en s \<noteq> 0
      then case win_env s of
          None \<Rightarrow> Crash Uninitialised
        | Some frame \<Rightarrow>
            if depth \<le> frame then Crash Bad_jump
            else Done (Some (Jumped frame (if val = 0 then 1 else val)))
      else Done None)"

text \<open>\<open>Fatal_Error\<close>, as in \<open>Grt_Jumps\<close>\<close>

definition win_call_error_hook :: "win_state \<Rightarrow> win_state" where
  "win_call_error_hook s = (case win_error_hook s of
     None \<Rightarrow> s
   | Some hook \<Rightarrow> s\<lparr>win_error_hook := None, win_hooks_called := win_hooks_called s @ [hook]\<rparr>)"

definition win_fatal_error ::
  "grt_error \<Rightarrow> backtrace_addrs \<Rightarrow> nat \<Rightarrow> win_state \<Rightarrow> (ending \<times> win_state) run" where
  "win_fatal_error err bt depth s =
     (let s = win_call_error_hook (s\<lparr>win_reports := win_reports s @ [(err, bt)]\<rparr>) in
      rbind (win_maybe_return (-1) depth s) (\<lambda>j.
      Done (case j of Some e \<Rightarrow> e | None \<Rightarrow> Exited (if win_expect_failure s then 0 else 1), s)))"

text \<open>The message for an exception that the run time does not report itself\<close>

fun seh_message :: "win_exception \<Rightarrow> string" where
  "seh_message EXCEPTION_ACCESS_VIOLATION = ''''"
| "seh_message EXCEPTION_INT_OVERFLOW = ''''"
| "seh_message EXCEPTION_INT_DIVIDE_BY_ZERO = ''division by 0''"
| "seh_message EXCEPTION_STACK_OVERFLOW = ''stack overflow''"
| "seh_message (EXCEPTION_other _) = ''unknown reason''"
| "seh_message _ = ''floating point error''"

text \<open>The frames of a fault as what \<open>StackWalk64\<close> walks over\<close>

fun walk_frames :: "code_addr list \<Rightarrow> code_addr list option" where
  "walk_frames (f # g # fs) = Some (g # fs)"
| "walk_frames fs = None"

text \<open>
  \<open>ghdl_SEH_handler\<close>. When \<open>__ghdl_maybe_return_via_longjump\<close> returns, the handler returns 0, which
  asks Windows to execute the faulting instruction once more, and so without end.
\<close>

definition ghdl_SEH_handler :: "win_fault \<Rightarrow> nat \<Rightarrow> win_state \<Rightarrow> (ending \<times> win_state) run" where
  "ghdl_SEH_handler fault depth s = (case fault of (code, frames) \<Rightarrow>
     let bt = get_bt_from_context walk_frames hd frames 1 in
     if code = EXCEPTION_ACCESS_VIOLATION then win_fatal_error Null_access_error bt depth s
     else if code = EXCEPTION_INT_OVERFLOW then win_fatal_error Overflow_error bt depth s
     else
       let s = s\<lparr>win_stderr := win_stderr s @ [''exception raised: '' @ seh_message code]\<rparr> in
       rbind (win_maybe_return 1 depth s) (\<lambda>j. case j of
         Some e \<Rightarrow> Done (e, s) | None \<Rightarrow> Crash No_return))"

text \<open>An exception goes to the innermost handler of the chain.\<close>

definition raise_exception :: "win_fault \<Rightarrow> nat \<Rightarrow> win_state \<Rightarrow> (ending \<times> win_state) run" where
  "raise_exception fault depth s = (case fs_0 s of
     [] \<Rightarrow> Done (Killed, s)
   | Foreign_handler n # _ \<Rightarrow> Done (Handled_by n, s)
   | Ghdl_SEH_handler # _ \<Rightarrow> ghdl_SEH_handler fault depth s)"

section \<open>Running a function\<close>

text \<open>
  \<open>__ghdl_run_through_longjump\<close> in the frame \<open>frame\<close>, for \<open>__i386__\<close> and for x86-64. The value of a jump is
  not 0, so that the function is called once.
\<close>

definition win_run_through ::
  "bool \<Rightarrow> (win_state \<Rightarrow> (ending \<times> win_state) run) \<Rightarrow> nat \<Rightarrow> win_state \<Rightarrow> (ending \<times> win_state) run" where
  "win_run_through i386 func frame s =
     (let prev = fs_0 s;
          s = (if i386 then s\<lparr>fs_0 := Ghdl_SEH_handler # prev\<rparr> else s);
          s = s\<lparr>win_env_en := 1, win_env := Some frame\<rparr> in
      rbind (func s) (\<lambda>(e, s).
        let back = s\<lparr>win_env_en := 0\<rparr>;
            back = (if i386 then back\<lparr>fs_0 := prev\<rparr> else back) in
        case e of
          Returned res \<Rightarrow> Done (Returned res, back)
        | Jumped target val \<Rightarrow> Done (if target = frame then (Returned val, back) else (e, s))
        | _ \<Rightarrow> Done (e, s)))"

primrec win_exec :: "bool \<Rightarrow> win_fault prog \<Rightarrow> nat \<Rightarrow> win_state \<Rightarrow> (ending \<times> win_state) run" where
  "win_exec i386 (Return n) = (\<lambda>depth s. Done (Returned n, s))"
| "win_exec i386 (Maybe_return val p) = (\<lambda>depth s. rbind (win_maybe_return val depth s) (\<lambda>j.
     case j of Some e \<Rightarrow> Done (e, s) | None \<Rightarrow> win_exec i386 p depth s))"
| "win_exec i386 (Fault fault) = (\<lambda>depth s. raise_exception fault depth s)"
| "win_exec i386 (Run_through p k) = (\<lambda>depth s.
     rbind (win_run_through i386 (win_exec i386 p (Suc depth)) depth s) (\<lambda>(e, s). case e of
       Returned res \<Rightarrow> win_exec i386 (k res) depth s
     | _ \<Rightarrow> Done (e, s)))"

section \<open>Properties\<close>

lemma bt_loop_frames:
  "bt_loop walk_frames hd (f # fs) skip addrs =
     (if length addrs < bt_max
      then addrs @ take (bt_max - length addrs) (drop (nat skip) (f # fs)) else addrs)"
proof (induction fs arbitrary: f skip addrs)
  case Nil
  have "nat skip = 0 \<longleftrightarrow> \<not> 0 < skip" by auto
  then show ?case by (subst bt_loop.simps) (auto simp: take_Cons' drop_Cons')
next
  case (Cons g fs)
  show ?case
  proof (cases "0 < skip")
    case True
    then obtain k where k: "nat skip = Suc k" "nat (skip - 1) = k" by (cases "nat skip") auto
    show ?thesis using True k Cons.IH [of g "skip - 1" addrs]
      by (subst bt_loop.simps) (auto simp del: drop_Suc_Cons simp: drop_Suc)
  next
    case False
    then have "nat skip = 0" by simp
    with False Cons.IH [of g skip "addrs @ [f]"] show ?thesis
      by (subst bt_loop.simps) (auto simp: take_Cons' bt_max_def)
  qed
qed

text \<open>
  The backtrace holds the first 32 of the frames that are left when \<open>skip\<close> frames are skipped.
\<close>

lemma win_backtrace:
  "get_bt_from_context walk_frames hd (f # fs) skip = \<lparr>bt_skip = 0, bt_addrs = take 32 (drop (nat skip) (f # fs))\<rparr>"
  by (simp add: get_bt_from_context_def bt_loop_frames bt_max_def)

text \<open>
  C38: A function that \<open>__ghdl_run_through_longjump\<close> calls, and that does not call it again, returns its own
  result, or jumps back with the value of an error, where 0 becomes 1, or raises an exception. On i386 the call
  returns after an exception too: -1 for an invalid access or an overflow, which are reported with the
  backtrace of the callers and to the error hook, and 1 with a message for all others. In these cases the chain
  of handlers is as before, and jumps are disabled. On x86-64 no handler is installed: an exception goes to the
  innermost handler that the program has set up itself, or kills the process.
\<close>

theorem exceptions_are_reported:
  "win_exec i386 (Run_through (Return n) k) depth s =
     win_exec i386 (k n) depth (s\<lparr>win_env_en := 0, win_env := Some depth\<rparr>) \<and>
   win_exec i386 (Run_through (Maybe_return val p) k) depth s =
     win_exec i386 (k (if val = 0 then 1 else val)) depth (s\<lparr>win_env_en := 0, win_env := Some depth\<rparr>) \<and>
   win_exec True (Run_through (Fault (code, f # fs)) k) depth s =
     (let bt = \<lparr>bt_skip = 0, bt_addrs = take 32 fs\<rparr>;
          s' = s\<lparr>win_env_en := 0, win_env := Some depth\<rparr>;
          hooked = s'\<lparr>win_error_hook := None,
            win_hooks_called := win_hooks_called s @ (case win_error_hook s of None \<Rightarrow> [] | Some hook \<Rightarrow> [hook])\<rparr> in
      if code = EXCEPTION_ACCESS_VIOLATION
      then win_exec True (k (-1)) depth (hooked\<lparr>win_reports := win_reports s @ [(Null_access_error, bt)]\<rparr>)
      else if code = EXCEPTION_INT_OVERFLOW
      then win_exec True (k (-1)) depth (hooked\<lparr>win_reports := win_reports s @ [(Overflow_error, bt)]\<rparr>)
      else win_exec True (k 1) depth (s'\<lparr>win_stderr := win_stderr s @ [''exception raised: '' @ seh_message code]\<rparr>)) \<and>
   win_exec False (Run_through (Fault (code, f # fs)) k) depth (s\<lparr>fs_0 := map Foreign_handler hs\<rparr>) =
     Done (case hs of [] \<Rightarrow> Killed | h # _ \<Rightarrow> Handled_by h,
       s\<lparr>fs_0 := map Foreign_handler hs, win_env_en := 1, win_env := Some depth\<rparr>)"
proof (intro conjI)
  show "win_exec i386 (Run_through (Return n) k) depth s =
      win_exec i386 (k n) depth (s\<lparr>win_env_en := 0, win_env := Some depth\<rparr>)"
    by (cases s) (simp add: win_run_through_def Let_def)
  show "win_exec i386 (Run_through (Maybe_return val p) k) depth s =
      win_exec i386 (k (if val = 0 then 1 else val)) depth (s\<lparr>win_env_en := 0, win_env := Some depth\<rparr>)"
    by (cases s) (simp add: win_run_through_def win_maybe_return_def Let_def)
  show "win_exec False (Run_through (Fault (code, f # fs)) k) depth (s\<lparr>fs_0 := map Foreign_handler hs\<rparr>) =
      Done (case hs of [] \<Rightarrow> Killed | h # _ \<Rightarrow> Handled_by h,
        s\<lparr>fs_0 := map Foreign_handler hs, win_env_en := 1, win_env := Some depth\<rparr>)"
    by (cases s; cases hs) (simp_all add: win_run_through_def raise_exception_def Let_def)
qed (cases s; simp add: win_run_through_def raise_exception_def ghdl_SEH_handler_def Let_def
    win_fatal_error_def win_call_error_hook_def win_maybe_return_def get_bt_from_context_def bt_loop_frames bt_max_def
    split: option.splits)

text \<open>
  As on Unix, the calls cannot be nested: when an inner call has returned, an exception of the outer
  function that is not reported by the run time is raised again without end.
\<close>

lemma win_not_reentrant:
  assumes "code \<noteq> EXCEPTION_ACCESS_VIOLATION" "code \<noteq> EXCEPTION_INT_OVERFLOW"
  shows "win_exec True (Run_through (Run_through (Return a) (\<lambda>_. Fault (code, frames))) k) depth s = Crash No_return"
  using assms by (simp add: win_run_through_def raise_exception_def ghdl_SEH_handler_def Let_def win_maybe_return_def)

lemma win_not_reentrant_witness:
  "win_exec True (Run_through (Run_through (Return 0) (\<lambda>_. Fault (EXCEPTION_INT_DIVIDE_BY_ZERO, [4]))) Return) 0
    \<lparr>win_env_en = 0, win_env = None, fs_0 = [], win_expect_failure = False, win_error_hook = None, win_hooks_called = [],
     win_reports = [], win_stderr = []\<rparr> = Crash No_return"
  by (rule win_not_reentrant) simp_all

end
