(* ===== verification/Grt_Vpi.thy ===== *)
theory Grt_Vpi
  imports Ghw_Prelude
begin

text \<open>
  The VPI bridge: the table of function pointers between a VPI module and the run time
  (\<open>vpi_thunk.h\<close>), the stubs of \<open>libghdlvpi\<close> that go through the table (\<open>vpi_thunk.c\<close>), and the
  loader of VPI modules (\<open>grt-cvpi.c\<close>). The functions of the run time behind the table are written
  in Ada; they, the dynamic linker and the modules are arguments.
\<close>

section \<open>The table\<close>

text \<open>The VPI functions of the table\<close>

datatype vpi_entry =
    E_register_systf | E_vprintf | E_mcd_close | E_mcd_name | E_mcd_open | E_mcd_open_x
  | E_mcd_vprintf | E_mcd_fputc | E_mcd_fgetc | E_register_cb | E_remove_cb | E_sim_vcontrol
  | E_handle | E_iterate | E_scan | E_handle_by_index | E_get_time | E_get | E_get_str | E_get_value
  | E_put_value | E_free_object | E_get_vlog_info | E_chk_error | E_handle_by_name | E_control_np

text \<open>The fields of \<open>struct vpi_thunk\<close>, in their order\<close>

definition vpi_thunk_fields :: "vpi_entry list" where
  "vpi_thunk_fields =
     [E_register_systf, E_vprintf, E_mcd_close, E_mcd_name, E_mcd_open, E_mcd_open_x, E_mcd_vprintf,
      E_mcd_fputc, E_mcd_fgetc, E_register_cb, E_remove_cb, E_sim_vcontrol, E_handle, E_iterate,
      E_scan, E_handle_by_index, E_get_time, E_get, E_get_str, E_get_value, E_put_value,
      E_free_object, E_get_vlog_info, E_chk_error, E_handle_by_name, E_control_np]"

text \<open>A table: the function of the run time that a field points to, \<open>None\<close> for a null pointer\<close>

type_synonym vpi_thunk = "vpi_entry \<Rightarrow> vpi_entry option"

text \<open>The initialisers of \<open>__ghdl_vpi_thunk_v1\<close>, which C assigns to the fields by their position\<close>

definition thunk_v1_inits :: "vpi_entry option list" where
  "thunk_v1_inits =
     [Some E_register_systf, Some E_vprintf, Some E_mcd_close, Some E_mcd_name, Some E_mcd_open,
      None, None, None, None,
      Some E_register_cb, Some E_remove_cb,
      None,
      Some E_handle, Some E_iterate, Some E_scan, Some E_handle_by_index, Some E_get_time,
      Some E_get, Some E_get_str, Some E_get_value, Some E_put_value, Some E_free_object,
      Some E_get_vlog_info, Some E_chk_error, Some E_handle_by_name, Some E_control_np]"

definition ghdl_vpi_thunk_v1 :: vpi_thunk where
  "ghdl_vpi_thunk_v1 e = (case map_of (zip vpi_thunk_fields thunk_v1_inits) e of
     Some p \<Rightarrow> p | None \<Rightarrow> None)"

section \<open>The stubs\<close>

text \<open>An argument of a VPI function: a number, a pointer, or the list of arguments behind \<open>...\<close>\<close>

datatype vpi_val = Int_val u32 | Byte_val byte | Ptr_val nat | Va_val "vpi_val list"

text \<open>A call of a stub with its arguments\<close>

datatype vpi_call =
    Vpi_register_systf nat | Vpi_vprintf nat "vpi_val list" | Vpi_mcd_close u32 | Vpi_mcd_name u32
  | Vpi_mcd_open nat | Vpi_mcd_open_x nat nat | Vpi_mcd_vprintf u32 nat "vpi_val list"
  | Vpi_mcd_fputc u32 byte | Vpi_mcd_fgetc u32 | Vpi_register_cb nat | Vpi_remove_cb nat
  | Vpi_sim_vcontrol u32 "vpi_val list" | Vpi_handle u32 nat | Vpi_iterate u32 nat | Vpi_scan nat
  | Vpi_handle_by_index nat u32 | Vpi_get_time nat nat | Vpi_get u32 nat | Vpi_get_str u32 nat
  | Vpi_get_value nat nat | Vpi_put_value nat nat nat u32 | Vpi_free_object nat
  | Vpi_get_vlog_info nat | Vpi_chk_error nat | Vpi_handle_by_name nat nat
  | Vpi_printf nat "vpi_val list" | Vpi_control u32 "vpi_val list"

text \<open>
  What a stub calls: the field of the table and the arguments. \<open>vpi_control\<close> takes an \<open>int\<close> from its
  variable arguments, which must be there.
\<close>

fun vpi_stub :: "vpi_call \<Rightarrow> (vpi_entry \<times> vpi_val list) run" where
  "vpi_stub (Vpi_register_systf s) = Done (E_register_systf, [Ptr_val s])"
| "vpi_stub (Vpi_vprintf fmt ap) = Done (E_vprintf, [Ptr_val fmt, Va_val ap])"
| "vpi_stub (Vpi_mcd_close mcd) = Done (E_mcd_close, [Int_val mcd])"
| "vpi_stub (Vpi_mcd_name mcd) = Done (E_mcd_name, [Int_val mcd])"
| "vpi_stub (Vpi_mcd_open name) = Done (E_mcd_open, [Ptr_val name])"
| "vpi_stub (Vpi_mcd_open_x name mode) = Done (E_mcd_open_x, [Ptr_val name, Ptr_val mode])"
| "vpi_stub (Vpi_mcd_vprintf mcd fmt ap) = Done (E_mcd_vprintf, [Int_val mcd, Ptr_val fmt, Va_val ap])"
| "vpi_stub (Vpi_mcd_fputc mcd x) = Done (E_mcd_fputc, [Int_val mcd, Byte_val x])"
| "vpi_stub (Vpi_mcd_fgetc mcd) = Done (E_mcd_fgetc, [Int_val mcd])"
| "vpi_stub (Vpi_register_cb data) = Done (E_register_cb, [Ptr_val data])"
| "vpi_stub (Vpi_remove_cb ref) = Done (E_remove_cb, [Ptr_val ref])"
| "vpi_stub (Vpi_sim_vcontrol operation ap) = Done (E_sim_vcontrol, [Int_val operation, Va_val ap])"
| "vpi_stub (Vpi_handle type ref) = Done (E_handle, [Int_val type, Ptr_val ref])"
| "vpi_stub (Vpi_iterate type ref) = Done (E_iterate, [Int_val type, Ptr_val ref])"
| "vpi_stub (Vpi_scan iter) = Done (E_scan, [Ptr_val iter])"
| "vpi_stub (Vpi_handle_by_index ref index) = Done (E_handle_by_index, [Ptr_val ref, Int_val index])"
| "vpi_stub (Vpi_get_time obj t) = Done (E_get_time, [Ptr_val obj, Ptr_val t])"
| "vpi_stub (Vpi_get property ref) = Done (E_get, [Int_val property, Ptr_val ref])"
| "vpi_stub (Vpi_get_str property ref) = Done (E_get_str, [Int_val property, Ptr_val ref])"
| "vpi_stub (Vpi_get_value expr value) = Done (E_get_value, [Ptr_val expr, Ptr_val value])"
| "vpi_stub (Vpi_put_value obj value time flags) =
     Done (E_put_value, [Ptr_val obj, Ptr_val value, Ptr_val time, Int_val flags])"
| "vpi_stub (Vpi_free_object ref) = Done (E_free_object, [Ptr_val ref])"
| "vpi_stub (Vpi_get_vlog_info info) = Done (E_get_vlog_info, [Ptr_val info])"
| "vpi_stub (Vpi_chk_error info) = Done (E_chk_error, [Ptr_val info])"
| "vpi_stub (Vpi_handle_by_name name scope) = Done (E_handle_by_name, [Ptr_val name, Ptr_val scope])"
| "vpi_stub (Vpi_printf fmt args) = Done (E_vprintf, [Ptr_val fmt, Va_val args])"
| "vpi_stub (Vpi_control op args) = (case args of
     Int_val status # _ \<Rightarrow> Done (E_control_np, [Int_val op, Int_val status])
   | _ \<Rightarrow> Crash Wrong_member)"

text \<open>
  A call of a stub in \<open>libghdlvpi\<close>, whose variable \<open>VPI_THUNK\<close> is \<open>thunk\<close>: \<open>grt\<close> are the functions
  of the run time.
\<close>

definition thunk_call ::
  "(vpi_entry \<Rightarrow> vpi_val list \<Rightarrow> 'w \<Rightarrow> vpi_val \<times> 'w) \<Rightarrow> vpi_thunk option \<Rightarrow> vpi_call \<Rightarrow> 'w
    \<Rightarrow> (vpi_val \<times> 'w) run" where
  "thunk_call grt thunk c w = rbind (deref thunk) (\<lambda>t. rbind (vpi_stub c) (\<lambda>(e, args).
     rbind (deref (t e)) (\<lambda>f. Done (grt f args w))))"

text \<open>
  The functions that \<open>grt-cvpi.c\<close> itself gives to a module that is linked with the run time:
  \<open>vprintf\<close> is that of the C library, and \<open>vpi_control_np\<close> that of the run time.
\<close>

definition grt_vpi_vprintf :: "(nat \<Rightarrow> vpi_val list \<Rightarrow> 'w \<Rightarrow> int \<times> 'w) \<Rightarrow> nat \<Rightarrow> vpi_val list \<Rightarrow> 'w \<Rightarrow> int \<times> 'w" where
  "grt_vpi_vprintf vprintf fmt ap w = vprintf fmt ap w"

definition grt_vpi_printf :: "(nat \<Rightarrow> vpi_val list \<Rightarrow> 'w \<Rightarrow> int \<times> 'w) \<Rightarrow> nat \<Rightarrow> vpi_val list \<Rightarrow> 'w \<Rightarrow> int \<times> 'w" where
  "grt_vpi_printf vprintf fmt params w = vprintf fmt params w"

definition grt_vpi_control ::
  "(u32 \<Rightarrow> u32 \<Rightarrow> 'w \<Rightarrow> int \<times> 'w) \<Rightarrow> u32 \<Rightarrow> vpi_val list \<Rightarrow> 'w \<Rightarrow> (int \<times> 'w) run" where
  "grt_vpi_control vpi_control_np op params w = (case params of
     Int_val status # _ \<Rightarrow> Done (vpi_control_np op status w)
   | _ \<Rightarrow> Crash Wrong_member)"

section \<open>Loading modules\<close>

text \<open>
  What a symbol of a shared library stands for: a variable that points to a table (at an address), or
  an array of pointers to functions, in which \<open>None\<close> is a null pointer.
\<close>

datatype vpi_symbol = Sym_thunk nat | Sym_routines "nat option list"

type_synonym module = nat

text \<open>
  The dynamic linker: \<open>dlopen\<close>, \<open>dlsym\<close> and \<open>dlerror\<close>, called by \<open>module_open\<close>, \<open>module_symbol\<close> and
  \<open>module_error\<close>; and what a startup routine of a module does to the rest of the process.
\<close>

record 'w linker =
  module_open :: "string \<Rightarrow> module option"
  module_symbol :: "module \<Rightarrow> string \<Rightarrow> vpi_symbol option"
  module_error :: "string option"
  call_routine :: "nat \<Rightarrow> 'w \<Rightarrow> 'w"

text \<open>
  The static variable of \<open>loadVpiModule\<close>, the variables of type \<open>vpi_thunk *\<close> of the loaded libraries,
  what was printed to the standard error, and the rest of the process.
\<close>

record 'w vpi_state =
  libghdlvpi_mod :: "module option"
  thunk_var :: "nat \<Rightarrow> vpi_thunk option"
  vpi_stderr :: "string list"
  process :: 'w

definition eprint :: "string \<Rightarrow> 'w vpi_state \<Rightarrow> 'w vpi_state" where
  "eprint msg s = s\<lparr>vpi_stderr := vpi_stderr s @ [msg]\<rparr>"

definition libghdlvpi_name :: string where
  "libghdlvpi_name = ''libghdlvpi.so''"

text \<open>\<open>for (i = 0; i < 2; i++)\<close>: the symbol with its leading underscore, or else without\<close>

definition try_symbol :: "'w linker \<Rightarrow> module \<Rightarrow> string \<Rightarrow> vpi_symbol option" where
  "try_symbol lk m symbol = (case module_symbol lk m symbol of
     Some s \<Rightarrow> Some s | None \<Rightarrow> module_symbol lk m (tl symbol))"

definition set_thunk :: "'w linker \<Rightarrow> module \<Rightarrow> 'w vpi_state \<Rightarrow> 'w vpi_state run" where
  "set_thunk lk m s = (case try_symbol lk m ''_VPI_THUNK'' of
     None \<Rightarrow> Done (eprint (''warning: VPI_THUNK not found in '' @ libghdlvpi_name) s)
   | Some (Sym_thunk a) \<Rightarrow> Done (s\<lparr>thunk_var := (thunk_var s)(a := Some ghdl_vpi_thunk_v1)\<rparr>)
   | Some (Sym_routines _) \<Rightarrow> Crash Wrong_member)"

definition load_libghdlvpi :: "'w linker \<Rightarrow> 'w vpi_state \<Rightarrow> 'w vpi_state run" where
  "load_libghdlvpi lk s =
     (if libghdlvpi_mod s \<noteq> None then Done s
      else
        let s = s\<lparr>libghdlvpi_mod := module_open lk libghdlvpi_name\<rparr> in
        case libghdlvpi_mod s of None \<Rightarrow> Done s | Some m \<Rightarrow> set_thunk lk m s)"

text \<open>\<open>for (j = 0; vpifuns[j]; j++)\<close>: the array ends with a null pointer.\<close>

fun run_routines :: "'w linker \<Rightarrow> nat option list \<Rightarrow> 'w vpi_state \<Rightarrow> 'w vpi_state run" where
  "run_routines lk [] s = Crash Out_of_bounds"
| "run_routines lk (None # fs) s = Done s"
| "run_routines lk (Some f # fs) s = run_routines lk fs (s\<lparr>process := call_routine lk f (process s)\<rparr>)"

definition loading_message :: "string \<Rightarrow> string" where
  "loading_message modulename = ''loading VPI module '' @ [CHR 0x27] @ modulename @ [CHR 0x27]"

definition loadVpiModule :: "'w linker \<Rightarrow> string \<Rightarrow> 'w vpi_state \<Rightarrow> (int \<times> 'w vpi_state) run" where
  "loadVpiModule lk modulename s =
     (let s = eprint (loading_message modulename) s in
      case module_open lk modulename of
        None \<Rightarrow> Done (-1, eprint (case module_error lk of None \<Rightarrow> ''unknown dlopen error'' | Some msg \<Rightarrow> msg) s)
      | Some vpimod \<Rightarrow> rbind (load_libghdlvpi lk s) (\<lambda>s.
          case try_symbol lk vpimod ''_vlog_startup_routines'' of
            None \<Rightarrow> Done (-1, eprint ''vlog_startup_routines not found'' s)
          | Some (Sym_routines fs) \<Rightarrow> rbind (run_routines lk fs s) (\<lambda>s.
              Done (0, eprint ''VPI module loaded!'' s))
          | Some (Sym_thunk _) \<Rightarrow> Crash Wrong_member))"

section \<open>Properties\<close>

lemma fields_complete: "set vpi_thunk_fields = UNIV" "distinct vpi_thunk_fields"
proof -
  have "e \<in> set vpi_thunk_fields" for e by (cases e) (simp_all add: vpi_thunk_fields_def)
  then show "set vpi_thunk_fields = UNIV" by blast
qed (simp add: vpi_thunk_fields_def)

text \<open>The functions that the run time does not have\<close>

definition missing_entries :: "vpi_entry list" where
  "missing_entries = [E_mcd_open_x, E_mcd_vprintf, E_mcd_fputc, E_mcd_fgetc, E_sim_vcontrol]"

text \<open>
  The initialisers of the table meet the fields of their names: every field points to the
  function of the run time of the same name, but for the five functions that are missing.
\<close>

lemma thunk_v1_matches_fields:
  "length thunk_v1_inits = length vpi_thunk_fields \<and>
   ghdl_vpi_thunk_v1 e = (if e \<in> set missing_entries then None else Some e)"
  by (cases e) (simp_all add: ghdl_vpi_thunk_v1_def vpi_thunk_fields_def thunk_v1_inits_def missing_entries_def)

text \<open>The state after the first call of \<open>loadVpiModule\<close> has found \<open>libghdlvpi\<close> and its variable\<close>

definition linked :: "'w linker \<Rightarrow> module \<Rightarrow> nat \<Rightarrow> bool" where
  "linked lk m a \<longleftrightarrow> module_open lk libghdlvpi_name = Some m \<and> try_symbol lk m ''_VPI_THUNK'' = Some (Sym_thunk a)"

lemma run_routines_ok:
  "run_routines lk (map Some fs @ None # rest) s = Done (s\<lparr>process := fold (call_routine lk) fs (process s)\<rparr>)"
  by (induction fs arbitrary: s) simp_all

text \<open>
  What a module expects of the functions that it is linked with: each of them is the function of the run time
  of the same name, called with the arguments that it gets, in their order; \<open>vpi_printf\<close> is \<open>vpi_vprintf\<close>
  with the list of its arguments, \<open>vpi_control\<close> hands on one argument, and the five functions that the run
  time does not have are null pointers.
\<close>

definition stubs_forward :: "(vpi_entry \<Rightarrow> vpi_val list \<Rightarrow> 'w \<Rightarrow> vpi_val \<times> 'w) \<Rightarrow> (vpi_call \<Rightarrow> 'w \<Rightarrow> (vpi_val \<times> 'w) run) \<Rightarrow> bool" where
  "stubs_forward grt stub \<longleftrightarrow>
     (\<forall>data. stub (Vpi_register_systf data) = (\<lambda>w. Done (grt E_register_systf [Ptr_val data] w))) \<and>
     (\<forall>fmt ap. stub (Vpi_vprintf fmt ap) = (\<lambda>w. Done (grt E_vprintf [Ptr_val fmt, Va_val ap] w))) \<and>
     (\<forall>fmt ap. stub (Vpi_printf fmt ap) = (\<lambda>w. Done (grt E_vprintf [Ptr_val fmt, Va_val ap] w))) \<and>
     (\<forall>mcd. stub (Vpi_mcd_close mcd) = (\<lambda>w. Done (grt E_mcd_close [Int_val mcd] w))) \<and>
     (\<forall>mcd. stub (Vpi_mcd_name mcd) = (\<lambda>w. Done (grt E_mcd_name [Int_val mcd] w))) \<and>
     (\<forall>name. stub (Vpi_mcd_open name) = (\<lambda>w. Done (grt E_mcd_open [Ptr_val name] w))) \<and>
     (\<forall>cb. stub (Vpi_register_cb cb) = (\<lambda>w. Done (grt E_register_cb [Ptr_val cb] w))) \<and>
     (\<forall>cb. stub (Vpi_remove_cb cb) = (\<lambda>w. Done (grt E_remove_cb [Ptr_val cb] w))) \<and>
     (\<forall>ty obj. stub (Vpi_handle ty obj) = (\<lambda>w. Done (grt E_handle [Int_val ty, Ptr_val obj] w))) \<and>
     (\<forall>ty obj. stub (Vpi_iterate ty obj) = (\<lambda>w. Done (grt E_iterate [Int_val ty, Ptr_val obj] w))) \<and>
     (\<forall>it. stub (Vpi_scan it) = (\<lambda>w. Done (grt E_scan [Ptr_val it] w))) \<and>
     (\<forall>obj i. stub (Vpi_handle_by_index obj i) = (\<lambda>w. Done (grt E_handle_by_index [Ptr_val obj, Int_val i] w))) \<and>
     (\<forall>obj t. stub (Vpi_get_time obj t) = (\<lambda>w. Done (grt E_get_time [Ptr_val obj, Ptr_val t] w))) \<and>
     (\<forall>prop obj. stub (Vpi_get prop obj) = (\<lambda>w. Done (grt E_get [Int_val prop, Ptr_val obj] w))) \<and>
     (\<forall>prop obj. stub (Vpi_get_str prop obj) = (\<lambda>w. Done (grt E_get_str [Int_val prop, Ptr_val obj] w))) \<and>
     (\<forall>obj v. stub (Vpi_get_value obj v) = (\<lambda>w. Done (grt E_get_value [Ptr_val obj, Ptr_val v] w))) \<and>
     (\<forall>obj v t fl. stub (Vpi_put_value obj v t fl) =
        (\<lambda>w. Done (grt E_put_value [Ptr_val obj, Ptr_val v, Ptr_val t, Int_val fl] w))) \<and>
     (\<forall>obj. stub (Vpi_free_object obj) = (\<lambda>w. Done (grt E_free_object [Ptr_val obj] w))) \<and>
     (\<forall>info. stub (Vpi_get_vlog_info info) = (\<lambda>w. Done (grt E_get_vlog_info [Ptr_val info] w))) \<and>
     (\<forall>info. stub (Vpi_chk_error info) = (\<lambda>w. Done (grt E_chk_error [Ptr_val info] w))) \<and>
     (\<forall>name scope. stub (Vpi_handle_by_name name scope) =
        (\<lambda>w. Done (grt E_handle_by_name [Ptr_val name, Ptr_val scope] w))) \<and>
     (\<forall>op status args. stub (Vpi_control op (Int_val status # args)) =
        (\<lambda>w. Done (grt E_control_np [Int_val op, Int_val status] w))) \<and>
     (\<forall>name mode. stub (Vpi_mcd_open_x name mode) = (\<lambda>w. Crash Null_pointer)) \<and>
     (\<forall>mcd fmt ap. stub (Vpi_mcd_vprintf mcd fmt ap) = (\<lambda>w. Crash Null_pointer)) \<and>
     (\<forall>mcd c. stub (Vpi_mcd_fputc mcd c) = (\<lambda>w. Crash Null_pointer)) \<and>
     (\<forall>mcd. stub (Vpi_mcd_fgetc mcd) = (\<lambda>w. Crash Null_pointer)) \<and>
     (\<forall>op ap. stub (Vpi_sim_vcontrol op ap) = (\<lambda>w. Crash Null_pointer))"

lemma thunk_v1_forwards: "stubs_forward grt (thunk_call grt (Some ghdl_vpi_thunk_v1))"
proof -
  have call: "thunk_call grt (Some ghdl_vpi_thunk_v1) c = (\<lambda>w.
      if e \<in> set missing_entries then Crash Null_pointer else Done (grt e args w))"
    if "vpi_stub c = Done (e, args)" for c e args
    using that thunk_v1_matches_fields [of e] by (simp add: thunk_call_def fun_eq_iff)
  show ?thesis
    unfolding stubs_forward_def by (intro conjI allI; subst call, simp, simp add: missing_entries_def)
qed

text \<open>
  C39: Loading the first module installs the table in \<open>libghdlvpi\<close>, then calls the startup routines of
  the module up to the null pointer, in their order, prints two messages and returns 0. From then on every
  stub is the function of the run time of its name (\<open>stubs_forward\<close>).
\<close>

theorem module_reaches_run_time:
  assumes "libghdlvpi_mod s = None" "linked lk m a" "module_open lk modulename = Some v"
    "try_symbol lk v ''_vlog_startup_routines'' = Some (Sym_routines (map Some fs @ None # rest))"
  shows "runs_to (loadVpiModule lk modulename s) (\<lambda>(res, s'). res = 0 \<and> libghdlvpi_mod s' = Some m \<and>
    process s' = fold (call_routine lk) fs (process s) \<and>
    vpi_stderr s' = vpi_stderr s @ [loading_message modulename, ''VPI module loaded!''] \<and>
    stubs_forward grt (thunk_call grt (thunk_var s' a)))"
  using assms thunk_v1_forwards
  by (simp add: loadVpiModule_def Let_def load_libghdlvpi_def linked_def set_thunk_def eprint_def
    run_routines_ok)

text \<open>A linker with a module of two startup routines, whose process is the list of the routines called\<close>

definition demo_linker :: "nat list linker" where
  "demo_linker = \<lparr>module_open = (\<lambda>path. if path = libghdlvpi_name then Some 1 else if path = ''m.vpi'' then Some 2 else None),
     module_symbol = (\<lambda>m name. if m = 1 \<and> name = ''VPI_THUNK'' then Some (Sym_thunk 7)
       else if m = 2 \<and> name = ''vlog_startup_routines'' then Some (Sym_routines [Some 10, Some 11, None]) else None),
     module_error = None, call_routine = (\<lambda>f fs. fs @ [f])\<rparr>"

definition demo_state :: "nat list vpi_state" where
  "demo_state = \<lparr>libghdlvpi_mod = None, thunk_var = Map.empty, vpi_stderr = [], process = []\<rparr>"

text \<open>A run time whose functions return their first argument and list the calls\<close>

definition demo_grt :: "vpi_entry \<Rightarrow> vpi_val list \<Rightarrow> (vpi_entry \<times> vpi_val list) list \<Rightarrow> vpi_val \<times> (vpi_entry \<times> vpi_val list) list" where
  "demo_grt e args w = (hd args, w @ [(e, args)])"

lemma module_reaches_run_time_witness:
  "runs_to (loadVpiModule demo_linker ''m.vpi'' demo_state) (\<lambda>(res, s'). res = 0 \<and> process s' = [10, 11] \<and>
    thunk_call demo_grt (thunk_var s' 7) (Vpi_iterate 3 9) [] = Done (Int_val 3, [(E_iterate, [Int_val 3, Ptr_val 9])]) \<and>
    thunk_call demo_grt (thunk_var s' 7) (Vpi_get_str 5 6) [] = Done (Int_val 5, [(E_get_str, [Int_val 5, Ptr_val 6])]) \<and>
    thunk_call demo_grt (thunk_var s' 7) (Vpi_mcd_fgetc 1) [] = Crash Null_pointer)"
proof -
  have "linked demo_linker 1 7"
    by (simp add: linked_def demo_linker_def try_symbol_def libghdlvpi_name_def)
  moreover have "module_open demo_linker ''m.vpi'' = Some 2"
    by (simp add: demo_linker_def libghdlvpi_name_def)
  moreover have "try_symbol demo_linker 2 ''_vlog_startup_routines'' =
      Some (Sym_routines (map Some [10, 11] @ None # []))"
    by (simp add: demo_linker_def try_symbol_def)
  ultimately have *: "runs_to (loadVpiModule demo_linker ''m.vpi'' demo_state) (\<lambda>(res, s'). res = 0 \<and>
      libghdlvpi_mod s' = Some 1 \<and> process s' = fold (call_routine demo_linker) [10, 11] (process demo_state) \<and>
      vpi_stderr s' = vpi_stderr demo_state @ [loading_message ''m.vpi'', ''VPI module loaded!''] \<and>
      stubs_forward demo_grt (thunk_call demo_grt (thunk_var s' 7)))"
    by (intro module_reaches_run_time) (simp_all add: demo_state_def)
  show ?thesis
    by (intro runs_to_mono [OF *]) (auto simp: stubs_forward_def demo_grt_def demo_state_def demo_linker_def)
qed

text \<open>
  Once \<open>libghdlvpi\<close> has been loaded, loading further modules does not touch its table; a module
  that cannot be opened, or has no startup routines, gives -1 and changes nothing else of the process.
\<close>

lemma later_modules:
  assumes "libghdlvpi_mod s = Some m" "loadVpiModule lk modulename s = Done (res, s')"
  shows "libghdlvpi_mod s' = Some m \<and> thunk_var s' = thunk_var s \<and>
    (res = 0 \<and> module_open lk modulename \<noteq> None \<or> res = -1 \<and> process s' = process s)"
proof -
  have *: "run_routines lk fs s = Done s' \<Longrightarrow> libghdlvpi_mod s' = libghdlvpi_mod s \<and> thunk_var s' = thunk_var s"
    for fs s s' by (induction lk fs s rule: run_routines.induct) auto
  from assms show ?thesis
    by (auto simp: loadVpiModule_def Let_def eprint_def load_libghdlvpi_def
      split: option.splits vpi_symbol.splits dest!: *)
qed

lemma later_modules_witness:
  "loadVpiModule demo_linker ''x'' (demo_state\<lparr>libghdlvpi_mod := Some 1\<rparr>) = Done (-1, demo_state\<lparr>libghdlvpi_mod := Some 1,
     vpi_stderr := [loading_message ''x'', ''unknown dlopen error'']\<rparr>) \<and>
   thunk_var (demo_state\<lparr>libghdlvpi_mod := Some 1, vpi_stderr := [loading_message ''x'', ''unknown dlopen error'']\<rparr>) =
     thunk_var (demo_state\<lparr>libghdlvpi_mod := Some 1\<rparr>)"
proof -
  have 1: "loadVpiModule demo_linker ''x'' (demo_state\<lparr>libghdlvpi_mod := Some 1\<rparr>) = Done (-1, demo_state\<lparr>libghdlvpi_mod := Some 1,
     vpi_stderr := [loading_message ''x'', ''unknown dlopen error'']\<rparr>)"
    by (simp add: loadVpiModule_def eprint_def demo_linker_def demo_state_def libghdlvpi_name_def)
  with later_modules [OF _ 1, of 1] show ?thesis by simp
qed

end
