(* ===== verification/Grt_Support.thy ===== *)
theory Grt_Support
  imports C_Stdio
begin

text \<open>
  Small pieces of the run time and of the code generator in C: the conversions and allocations of
  \<open>grt-cbinding.c\<close>, the clocks of \<open>config/times.c\<close> and \<open>config/clock.c\<close>, and the memory segments of
  \<open>ortho/mcode/memsegs_c.c\<close> with the Ada package that uses them.
\<close>

section \<open>grt-cbinding.c\<close>

text \<open>
  \<open>snprintf (buf, len, \<dots>)\<close> stores what fits with the terminating NUL; \<open>strlen\<close> then gives the length
  of what was stored. A buffer of length 0 is not written. \<open>fmt_g\<close> stands for \<open>%g\<close> on the bits of a
  \<open>double\<close>, and \<open>fmt_f\<close> for the conversion with a format of the caller.
\<close>

definition snprintf_buf :: "nat \<Rightarrow> string \<Rightarrow> string option" where
  "snprintf_buf len s = (if len = 0 then None else Some (take (len - 1) s))"

definition ghdl_snprintf_g :: "(u64 \<Rightarrow> string) \<Rightarrow> u32 \<Rightarrow> u64 \<Rightarrow> (string \<times> int) run" where
  "ghdl_snprintf_g fmt_g len val =
     rbind (init (snprintf_buf (unat len) (fmt_g val))) (\<lambda>buf. Done (buf, int (length buf)))"

definition ghdl_snprintf_fmtf :: "(string \<Rightarrow> u64 \<Rightarrow> string) \<Rightarrow> u32 \<Rightarrow> string \<Rightarrow> u64 \<Rightarrow> string option" where
  "ghdl_snprintf_fmtf fmt_f len format v = snprintf_buf (unat len) (fmt_f format v)"

definition ghdl_fprintf_g :: "(u64 \<Rightarrow> string) \<Rightarrow> u64 \<Rightarrow> string \<Rightarrow> string" where
  "ghdl_fprintf_g fmt_g val file = file @ fmt_g val"

text \<open>\<open>%3d\<close> and \<open>%03d\<close>: the number in at least three characters\<close>

definition pad3 :: "int \<Rightarrow> string" where
  "pad3 z = (let s = dec_int z in replicate (3 - length s) (CHR '' '') @ s)"

definition pad03 :: "int \<Rightarrow> string" where
  "pad03 z =
     (if z < 0 then let s = dec_nat (nat (- z)) in CHR ''-'' # replicate (2 - length s) (CHR ''0'') @ s
      else let s = dec_nat (nat z) in replicate (3 - length s) (CHR ''0'') @ s)"

definition ghdl_fprintf_clock :: "int \<Rightarrow> int \<Rightarrow> string \<Rightarrow> string" where
  "ghdl_fprintf_clock a b file = file @ pad3 a @ ''.'' @ pad03 b"

text \<open>\<open>getc_unlocked\<close> and \<open>feof_unlocked\<close>, where the C library does not have them\<close>

definition getc_unlocked :: "c_file \<Rightarrow> byte option \<times> c_file" where
  "getc_unlocked f = fgetc f"

definition feof_unlocked :: "c_file \<Rightarrow> bool" where
  "feof_unlocked f = feof f"

definition gnat_last_chance_handler :: "unit run" where
  "gnat_last_chance_handler = Crash Aborted"

section \<open>config/times.c and config/clock.c\<close>

text \<open>
  \<open>times\<close> gives the elapsed time and the user and system times of the process, or fails. A
  \<open>clock_t\<close> is 64 bits wide, and is converted to an \<open>int\<close>.
\<close>

definition grt_get_times :: "(u64 \<times> u64 \<times> u64) option \<Rightarrow> u32 \<times> u32 \<times> u32" where
  "grt_get_times tms = (case tms of
     None \<Rightarrow> (0, 0, 0)
   | Some (res, utime, stime) \<Rightarrow>
       if res = -1 then (0, 0, 0) else (ucast res, ucast utime, ucast stime))"

definition clock_get_times :: "u64 \<Rightarrow> u32 \<times> u32 \<times> u32" where
  "clock_get_times clock = (ucast clock, 0, 0)"

section \<open>memsegs_c.c\<close>

text \<open>
  The mappings of the process by their address: their contents and rights. The calls of the system are a
  parameter, the record \<open>vm_system\<close>: \<open>mmap (NULL, size, PROT_READ | PROT_WRITE, MAP_PRIVATE | MAP_ANONYMOUS, -1, 0)\<close>,
  \<open>mremap (ptr, old_size, size, MREMAP_MAYMOVE)\<close>, \<open>munmap\<close> and \<open>mprotect (ptr, size, PROT_READ | PROT_EXEC)\<close>, and for
  Windows \<open>VirtualAlloc\<close> of committed memory, \<open>VirtualFree\<close> and \<open>VirtualProtect\<close>. \<open>MAP_FAILED\<close> is \<open>(void *) -1\<close>.
\<close>

record mem_seg =
  seg_bytes :: "byte list"
  seg_write :: bool
  seg_exec :: bool

type_synonym memory = "u64 \<Rightarrow> mem_seg option"

definition MAP_FAILED :: u64 where
  "MAP_FAILED = -1"

record vm_system =
  sys_mmap :: "int \<Rightarrow> memory \<Rightarrow> u64 \<times> memory"
  sys_mremap :: "u64 \<Rightarrow> int \<Rightarrow> int \<Rightarrow> memory \<Rightarrow> u64 \<times> memory"
  sys_munmap :: "u64 \<Rightarrow> int \<Rightarrow> memory \<Rightarrow> memory"
  sys_mprotect_rx :: "u64 \<Rightarrow> int \<Rightarrow> memory \<Rightarrow> memory"
  sys_VirtualAlloc :: "int \<Rightarrow> memory \<Rightarrow> u64 \<times> memory"
  sys_VirtualFree :: "u64 \<Rightarrow> int \<Rightarrow> memory \<Rightarrow> memory"
  sys_VirtualProtect_rx :: "u64 \<Rightarrow> int \<Rightarrow> memory \<Rightarrow> memory"

definition mmap_malloc :: "vm_system \<Rightarrow> int \<Rightarrow> memory \<Rightarrow> u64 \<times> memory" where
  "mmap_malloc sys size1 m =
     (let (res, m) = sys_mmap sys size1 m in if res = MAP_FAILED then (0, m) else (res, m))"

text \<open>With \<open>HAVE_MREMAP\<close> the result of \<open>mremap\<close> is returned as it is.\<close>

definition mmap_realloc :: "vm_system \<Rightarrow> u64 \<Rightarrow> int \<Rightarrow> int \<Rightarrow> memory \<Rightarrow> u64 \<times> memory" where
  "mmap_realloc sys ptr old_size size1 m = sys_mremap sys ptr old_size size1 m"

text \<open>
  Without it, the contents are copied: \<open>memcpy (res, ptr, old_size)\<close>.
\<close>

definition mem_copy :: "u64 \<Rightarrow> u64 \<Rightarrow> int \<Rightarrow> memory \<Rightarrow> memory run" where
  "mem_copy dst src n m = (case (m dst, m src) of
     (Some d, Some s) \<Rightarrow>
       if nat n \<le> length (seg_bytes d) \<and> nat n \<le> length (seg_bytes s)
       then Done (m(dst \<mapsto> d\<lparr>seg_bytes := take (nat n) (seg_bytes s) @ drop (nat n) (seg_bytes d)\<rparr>))
       else Crash Out_of_bounds
   | _ \<Rightarrow> Crash Out_of_bounds)"

definition mmap_realloc_copy :: "vm_system \<Rightarrow> u64 \<Rightarrow> int \<Rightarrow> int \<Rightarrow> memory \<Rightarrow> (u64 \<times> memory) run" where
  "mmap_realloc_copy sys ptr old_size size1 m =
     (let (res, m) = sys_mmap sys size1 m in
      if res = MAP_FAILED then Done (0, m)
      else rbind (mem_copy res ptr old_size m) (\<lambda>m. Done (res, sys_munmap sys ptr old_size m)))"

definition mmap_free :: "vm_system \<Rightarrow> u64 \<Rightarrow> int \<Rightarrow> memory \<Rightarrow> memory" where
  "mmap_free sys ptr size1 m = sys_munmap sys ptr size1 m"

definition mmap_rx :: "vm_system \<Rightarrow> u64 \<Rightarrow> int \<Rightarrow> memory \<Rightarrow> memory" where
  "mmap_rx sys ptr size1 m = sys_mprotect_rx sys ptr size1 m"

text \<open>The same functions for Windows, where a failure of \<open>VirtualAlloc\<close> is NULL and is not looked at\<close>

definition win_mmap_malloc :: "vm_system \<Rightarrow> int \<Rightarrow> memory \<Rightarrow> u64 \<times> memory" where
  "win_mmap_malloc sys size1 m = sys_VirtualAlloc sys size1 m"

definition win_mmap_realloc :: "vm_system \<Rightarrow> u64 \<Rightarrow> int \<Rightarrow> int \<Rightarrow> memory \<Rightarrow> (u64 \<times> memory) run" where
  "win_mmap_realloc sys ptr old_size size1 m =
     (let (res, m) = sys_VirtualAlloc sys size1 m in
      if ptr \<noteq> 0
      then rbind (mem_copy res ptr (if old_size < size1 then old_size else size1) m) (\<lambda>m.
        Done (res, sys_VirtualFree sys ptr old_size m))
      else Done (res, m))"

definition win_mmap_free :: "vm_system \<Rightarrow> u64 \<Rightarrow> int \<Rightarrow> memory \<Rightarrow> memory" where
  "win_mmap_free sys ptr size1 m = sys_VirtualFree sys ptr size1 m"

definition win_mmap_rx :: "vm_system \<Rightarrow> u64 \<Rightarrow> int \<Rightarrow> memory \<Rightarrow> memory" where
  "win_mmap_rx sys ptr size1 m = sys_VirtualProtect_rx sys ptr size1 m"

section \<open>Memsegs_Mmap\<close>

text \<open>The Ada type \<open>Memseg_Type\<close> with \<open>Resize\<close>, \<open>Delete\<close> and \<open>Set_Rx\<close>\<close>

record memseg =
  seg_base :: u64
  seg_size :: int

definition seg_create :: memseg where
  "seg_create = \<lparr>seg_base = 0, seg_size = 0\<rparr>"

definition seg_resize :: "vm_system \<Rightarrow> int \<Rightarrow> memseg \<Rightarrow> memory \<Rightarrow> memseg \<times> memory" where
  "seg_resize sys size1 seg m =
     (let (base, m) = (if seg_size seg = 0 then mmap_malloc sys size1 m
                       else mmap_realloc sys (seg_base seg) (seg_size seg) size1 m)
      in (\<lparr>seg_base = base, seg_size = size1\<rparr>, m))"

definition seg_delete :: "vm_system \<Rightarrow> memseg \<Rightarrow> memory \<Rightarrow> memseg \<times> memory" where
  "seg_delete sys seg m =
     (let m = mmap_free sys (seg_base seg) (seg_size seg) m in (\<lparr>seg_base = 0, seg_size = 0\<rparr>, m))"

definition seg_set_rx :: "vm_system \<Rightarrow> memseg \<Rightarrow> memory \<Rightarrow> memory" where
  "seg_set_rx sys seg m = mmap_rx sys (seg_base seg) (seg_size seg) m"

section \<open>Properties\<close>

text \<open>
  The documented behaviour of \<open>mmap\<close> and \<open>mremap\<close>. Either they fail, give \<open>MAP_FAILED\<close> and change nothing; or
  \<open>mmap\<close> makes a mapping of zeros at an address that is not in use, and \<open>mremap\<close>, when it is given the size that
  the mapping has, gives it the new size at its old or a new address and keeps its contents and rights up to the
  smaller of the sizes. Nothing is said of a call of \<open>mremap\<close> with another old size.
\<close>

definition fresh :: "memory \<Rightarrow> u64 \<Rightarrow> bool" where
  "fresh m p \<longleftrightarrow> p \<notin> {0, MAP_FAILED} \<and> m p = None"

definition vm_ok :: "vm_system \<Rightarrow> bool" where
  "vm_ok sys \<longleftrightarrow>
     (\<forall>n m. 0 < n \<longrightarrow> sys_mmap sys n m = (MAP_FAILED, m) \<or>
        (\<exists>p. fresh m p \<and>
           sys_mmap sys n m = (p, m(p \<mapsto> \<lparr>seg_bytes = replicate (nat n) 0, seg_write = True, seg_exec = False\<rparr>)))) \<and>
     (\<forall>p n m s. m p = Some s \<longrightarrow> p \<notin> {0, MAP_FAILED} \<longrightarrow> 0 < n \<longrightarrow>
        sys_mremap sys p (int (length (seg_bytes s))) n m = (MAP_FAILED, m) \<or>
        (\<exists>q bs. (q = p \<or> fresh m q) \<and> length bs = nat n \<and>
           take (min (length (seg_bytes s)) (nat n)) bs = take (min (length (seg_bytes s)) (nat n)) (seg_bytes s) \<and>
           sys_mremap sys p (int (length (seg_bytes s))) n m = (q, (m(p := None))(q \<mapsto> s\<lparr>seg_bytes := bs\<rparr>))))"

lemma vm_mmap:
  assumes "vm_ok sys" "0 < n"
  shows "sys_mmap sys n m = (MAP_FAILED, m) \<or> (\<exists>p. fresh m p \<and>
    sys_mmap sys n m = (p, m(p \<mapsto> \<lparr>seg_bytes = replicate (nat n) 0, seg_write = True, seg_exec = False\<rparr>)))"
  by (rule conjunct1 [OF assms(1) [unfolded vm_ok_def], rule_format, OF assms(2)])

lemma vm_mremap:
  assumes "vm_ok sys" "m p = Some s" "p \<notin> {0, MAP_FAILED}" "0 < n"
  shows "sys_mremap sys p (int (length (seg_bytes s))) n m = (MAP_FAILED, m) \<or>
    (\<exists>q bs. (q = p \<or> fresh m q) \<and> length bs = nat n \<and>
      take (min (length (seg_bytes s)) (nat n)) bs = take (min (length (seg_bytes s)) (nat n)) (seg_bytes s) \<and>
      sys_mremap sys p (int (length (seg_bytes s))) n m = (q, (m(p := None))(q \<mapsto> s\<lparr>seg_bytes := bs\<rparr>)))"
  by (rule conjunct2 [OF assms(1) [unfolded vm_ok_def], rule_format]) (fact assms)+

text \<open>A segment is well formed when it is empty, or has a mapping of the size it says that can be written.\<close>

definition seg_ok :: "memory \<Rightarrow> memseg \<Rightarrow> bool" where
  "seg_ok m seg \<longleftrightarrow> seg = seg_create \<or> 0 < seg_size seg \<and> seg_base seg \<notin> {0, MAP_FAILED} \<and>
     (\<exists>s. m (seg_base seg) = Some s \<and> int (length (seg_bytes s)) = seg_size seg \<and> seg_write s)"

definition seg_contents :: "memory \<Rightarrow> memseg \<Rightarrow> byte list" where
  "seg_contents m seg = (if seg_size seg = 0 then [] else case m (seg_base seg) of None \<Rightarrow> [] | Some s \<Rightarrow> seg_bytes s)"

text \<open>
  C40: Resizing a well-formed segment either fails, when the system has no memory: then nothing has changed in
  memory, and the base of the segment is NULL or \<open>MAP_FAILED\<close>. Or the segment is well formed and has the new
  size; its contents are kept up to the smaller of the two sizes, and are zeros when it was empty; and no
  mapping other than the one of the segment has changed.
\<close>

theorem seg_resize_keeps:
  assumes "vm_ok sys" "seg_ok m seg" "0 < size1" "seg_resize sys size1 seg m = (seg', m')"
  shows "seg_size seg' = size1 \<and>
    (if seg_base seg' \<in> {0, MAP_FAILED} then m' = m
     else seg_ok m' seg' \<and> length (seg_contents m' seg') = nat size1 \<and>
       (let k = min (length (seg_contents m seg)) (nat size1) in
        take k (seg_contents m' seg') = take k (seg_contents m seg)) \<and>
       (seg = seg_create \<longrightarrow> seg_contents m' seg' = replicate (nat size1) 0) \<and>
       (\<forall>p. p \<notin> {seg_base seg, seg_base seg'} \<longrightarrow> m' p = m p))"
proof (cases "seg_size seg = 0")
  case True
  then have seg: "seg = seg_create" using assms(2) by (simp add: seg_ok_def)
  have empty: "seg_contents m seg_create = []" by (simp add: seg_contents_def seg_create_def)
  have *: "seg_resize sys size1 seg m = (let (base, m) = mmap_malloc sys size1 m in (\<lparr>seg_base = base, seg_size = size1\<rparr>, m))"
    using True by (simp add: seg_resize_def)
  consider "sys_mmap sys size1 m = (MAP_FAILED, m)" | p where "fresh m p"
      "sys_mmap sys size1 m = (p, m(p \<mapsto> \<lparr>seg_bytes = replicate (nat size1) 0, seg_write = True, seg_exec = False\<rparr>))"
    using vm_mmap [OF assms(1,3)] by blast
  then show ?thesis
  proof cases
    case 1
    with * assms(4) show ?thesis by (simp add: mmap_malloc_def)
  next
    case 2
    then have p: "p \<notin> {0, MAP_FAILED}" by (simp add: fresh_def)
    let ?s = "\<lparr>seg_bytes = replicate (nat size1) 0, seg_write = True, seg_exec = False\<rparr>"
    have r: "seg' = \<lparr>seg_base = p, seg_size = size1\<rparr>" "m' = m(p \<mapsto> ?s)"
      using * assms(4) 2(2) p by (simp_all add: mmap_malloc_def)
    have "seg_contents m' seg' = replicate (nat size1) 0" "seg_ok m' seg'"
      using p assms(3) by (simp_all add: r seg_contents_def seg_ok_def)
    with p show ?thesis by (simp add: r seg empty)
  qed
next
  case False
  with assms(2) obtain s where s: "seg_base seg \<notin> {0, MAP_FAILED}" "m (seg_base seg) = Some s"
    "seg_size seg = int (length (seg_bytes s))" "seg_write s"
    by (auto simp: seg_ok_def seg_create_def)
  have *: "seg_resize sys size1 seg m = (let (base, m) = sys_mremap sys (seg_base seg) (int (length (seg_bytes s))) size1 m
      in (\<lparr>seg_base = base, seg_size = size1\<rparr>, m))"
    using False s(3) by (simp add: seg_resize_def mmap_realloc_def)
  consider "sys_mremap sys (seg_base seg) (int (length (seg_bytes s))) size1 m = (MAP_FAILED, m)"
    | q bs where "q = seg_base seg \<or> fresh m q" "length bs = nat size1"
      "take (min (length (seg_bytes s)) (nat size1)) bs = take (min (length (seg_bytes s)) (nat size1)) (seg_bytes s)"
      "sys_mremap sys (seg_base seg) (int (length (seg_bytes s))) size1 m =
        (q, (m(seg_base seg := None))(q \<mapsto> s\<lparr>seg_bytes := bs\<rparr>))"
    using vm_mremap [where m = m and p = "seg_base seg" and s = s, OF assms(1) s(2,1) assms(3)] by blast
  then show ?thesis
  proof cases
    case 1
    with * assms(4) show ?thesis by simp
  next
    case 2
    then have q: "q \<notin> {0, MAP_FAILED}" using s(1) by (auto simp: fresh_def)
    have r: "seg' = \<lparr>seg_base = q, seg_size = size1\<rparr>" "m' = (m(seg_base seg := None))(q \<mapsto> s\<lparr>seg_bytes := bs\<rparr>)"
      using * assms(4) 2(4) by simp_all
    have "seg_contents m seg = seg_bytes s" "seg_contents m' seg' = bs"
      using False s(2) assms(3) by (simp_all add: seg_contents_def r)
    moreover have "seg_ok m' seg'" "seg \<noteq> seg_create"
      using q 2(2) s(4) assms(3) False by (auto simp: r seg_ok_def seg_create_def)
    ultimately show ?thesis using q 2(2,3) by (simp add: r)
  qed
qed

text \<open>A system with two places for mappings, in which a mapping that is resized moves to the other place\<close>

definition demo_mremap :: "u64 \<Rightarrow> int \<Rightarrow> int \<Rightarrow> memory \<Rightarrow> u64 \<times> memory" where
  "demo_mremap p old n m = (case m p of
     None \<Rightarrow> (MAP_FAILED, m)
   | Some s \<Rightarrow>
       let bs = take (nat n) (seg_bytes s @ replicate (nat n) 0);
           q = (if m 8192 = None then 8192 else p)
       in (q, (m(p := None))(q \<mapsto> s\<lparr>seg_bytes := bs\<rparr>)))"

definition demo_vm :: vm_system where
  "demo_vm = \<lparr>
     sys_mmap = (\<lambda>n m. if m 4096 = None
       then (4096, m(4096 \<mapsto> \<lparr>seg_bytes = replicate (nat n) 0, seg_write = True, seg_exec = False\<rparr>)) else (MAP_FAILED, m)),
     sys_mremap = demo_mremap, sys_munmap = (\<lambda>p n m. m(p := None)), sys_mprotect_rx = (\<lambda>p n m. m),
     sys_VirtualAlloc = (\<lambda>n m. (0, m)), sys_VirtualFree = (\<lambda>p n m. m(p := None)), sys_VirtualProtect_rx = (\<lambda>p n m. m)\<rparr>"

lemma demo_places: "(4096 :: u64) \<notin> {0, MAP_FAILED}" "(8192 :: u64) \<notin> {0, MAP_FAILED}"
  by code_simp+

lemma vm_ok_demo: "vm_ok demo_vm"
proof -
  have "\<exists>q bs. (q = p \<or> fresh m q) \<and> length bs = nat n \<and>
      take (min (length (seg_bytes s)) (nat n)) bs = take (min (length (seg_bytes s)) (nat n)) (seg_bytes s) \<and>
      demo_mremap p (int (length (seg_bytes s))) n m = (q, (m(p := None))(q \<mapsto> s\<lparr>seg_bytes := bs\<rparr>))"
    if "m p = Some s" for p n m s
    using that demo_places(2)
    by (intro exI [of _ "if m 8192 = None then 8192 else p"] exI [of _ "take (nat n) (seg_bytes s @ replicate (nat n) 0)"])
      (auto simp: demo_mremap_def fresh_def Let_def min_def)
  then have "sys_mremap demo_vm p (int (length (seg_bytes s))) n m = (MAP_FAILED, m) \<or>
      (\<exists>q bs. (q = p \<or> fresh m q) \<and> length bs = nat n \<and>
        take (min (length (seg_bytes s)) (nat n)) bs = take (min (length (seg_bytes s)) (nat n)) (seg_bytes s) \<and>
        sys_mremap demo_vm p (int (length (seg_bytes s))) n m = (q, (m(p := None))(q \<mapsto> s\<lparr>seg_bytes := bs\<rparr>)))"
    if "m p = Some s" for p n m s
    using that by (simp add: demo_vm_def)
  moreover have "sys_mmap demo_vm n m = (MAP_FAILED, m) \<or> (\<exists>p. fresh m p \<and>
      sys_mmap demo_vm n m = (p, m(p \<mapsto> \<lparr>seg_bytes = replicate (nat n) 0, seg_write = True, seg_exec = False\<rparr>)))" for n m
    using demo_places(1) by (simp add: demo_vm_def fresh_def)
  ultimately show ?thesis
    unfolding vm_ok_def by blast
qed

definition demo_seg :: memseg where
  "demo_seg = \<lparr>seg_base = 4096, seg_size = 2\<rparr>"

definition demo_memory :: memory where
  "demo_memory = Map.empty(4096 \<mapsto> \<lparr>seg_bytes = [7, 9], seg_write = True, seg_exec = False\<rparr>)"

lemma seg_resize_keeps_witness:
  "\<exists>m'. seg_resize demo_vm 3 demo_seg demo_memory = (\<lparr>seg_base = 8192, seg_size = 3\<rparr>, m') \<and>
    take 2 (seg_contents m' \<lparr>seg_base = 8192, seg_size = 3\<rparr>) = [7, 9] \<and> seg_ok m' \<lparr>seg_base = 8192, seg_size = 3\<rparr>"
proof -
  have mem: "demo_memory 8192 = None" "demo_memory 4096 = Some \<lparr>seg_bytes = [7, 9], seg_write = True, seg_exec = False\<rparr>"
    by (simp_all add: demo_memory_def)
  then obtain m' where r: "seg_resize demo_vm 3 demo_seg demo_memory = (\<lparr>seg_base = 8192, seg_size = 3\<rparr>, m')"
    by (simp add: seg_resize_def mmap_realloc_def demo_vm_def demo_mremap_def demo_seg_def Let_def)
  have "seg_ok demo_memory demo_seg"
    using demo_places(1) mem by (simp add: seg_ok_def demo_seg_def)
  from seg_resize_keeps [OF vm_ok_demo this _ r] r mem demo_places(2) show ?thesis
    by (auto simp: seg_contents_def demo_seg_def numeral_2_eq_2)
qed

text \<open>
  When the system has no memory, \<open>mmap_malloc\<close> returns NULL, and so does the variant of
  \<open>mmap_realloc\<close> that copies; the variant that is used on Linux returns \<open>MAP_FAILED\<close>, which is not NULL
  and becomes the base of the segment.
\<close>

lemma realloc_failure:
  assumes "sys_mmap sys size1 m = (MAP_FAILED, m)" "sys_mremap sys ptr old_size size1 m = (MAP_FAILED, m)"
  shows "mmap_malloc sys size1 m = (0, m) \<and> mmap_realloc_copy sys ptr old_size size1 m = Done (0, m) \<and>
    mmap_realloc sys ptr old_size size1 m = (MAP_FAILED, m) \<and> MAP_FAILED \<noteq> 0"
  using assms by (simp add: mmap_malloc_def mmap_realloc_copy_def mmap_realloc_def MAP_FAILED_def)

text \<open>The variant that copies writes behind the new mapping when a segment is made smaller.\<close>

lemma realloc_copy_shrinks:
  assumes "vm_ok sys" "0 < size1" "size1 < old_size" "fst (sys_mmap sys size1 m) \<noteq> MAP_FAILED"
  shows "mmap_realloc_copy sys ptr old_size size1 m = Crash Out_of_bounds"
proof -
  obtain p where p: "sys_mmap sys size1 m =
      (p, m(p \<mapsto> \<lparr>seg_bytes = replicate (nat size1) 0, seg_write = True, seg_exec = False\<rparr>))" "p \<noteq> MAP_FAILED"
    using vm_mmap [OF assms(1,2), of m] assms(4) by auto
  have not_fits: "\<not> nat old_size \<le> nat size1" using assms(2,3) by linarith
  show ?thesis
    using p not_fits by (simp add: mmap_realloc_copy_def mem_copy_def split: option.splits)
qed

text \<open>
  \<open>__ghdl_snprintf_g\<close> never returns more than fits into the buffer with its NUL, and returns the
  length of the whole text when that fits.
\<close>

lemma snprintf_g_bound:
  "ghdl_snprintf_g fmt_g len val =
     (if len = 0 then Crash Uninitialised
      else Done (take (unat len - 1) (fmt_g val), int (min (unat len - 1) (length (fmt_g val)))))"
proof (cases "len = 0")
  case False
  then have "unat len \<noteq> 0" by (simp add: unat_eq_zero)
  with False show ?thesis by (simp add: ghdl_snprintf_g_def snprintf_buf_def min.commute)
qed (simp add: ghdl_snprintf_g_def snprintf_buf_def)

end
