(* ===== verification/Ortho_Gcc.thy ===== *)
theory Ortho_Gcc
  imports Complex_Main Ghw_Prelude
begin

text \<open>
  The interface of GCC that \<open>ortho/gcc/ortho-lang-7.c\<close> builds on. GCC itself is not part of the
  repository: it is a record \<open>g\<close> of functions, the first argument of all definitions of the theories
  \<open>Ortho_\<dots>\<close>. \<open>'t\<close> is the type of the addresses of tree nodes, so that the C type \<open>tree\<close> is
  \<open>'t option\<close> with \<open>NULL_TREE\<close> as \<open>None\<close>, and \<open>'s\<close> is the state of GCC, which holds the nodes.
  \<open>gcc_ok\<close> states what is used of the documented behaviour of these functions, and the store of nodes of
  \<open>Ortho_Store\<close> shows that it can hold.
\<close>

section \<open>Trees\<close>

text \<open>The codes that the source names; all others are \<open>Other_code\<close>.\<close>

datatype tree_code =
    ERROR_MARK | IDENTIFIER_NODE | TREE_LIST | STATEMENT_LIST | BLOCK
  | FIELD_DECL | VAR_DECL | CONST_DECL | PARM_DECL | RESULT_DECL | FUNCTION_DECL | TYPE_DECL | LABEL_DECL
  | VOID_TYPE | BOOLEAN_TYPE | INTEGER_TYPE | ENUMERAL_TYPE | REAL_TYPE | POINTER_TYPE | REFERENCE_TYPE
  | RECORD_TYPE | UNION_TYPE | ARRAY_TYPE
  | INTEGER_CST | REAL_CST | CONSTRUCTOR
  | COMPONENT_REF | ARRAY_REF | ARRAY_RANGE_REF | INDIRECT_REF | ADDR_EXPR
  | PLUS_EXPR | MINUS_EXPR | MULT_EXPR | RDIV_EXPR | TRUNC_DIV_EXPR | TRUNC_MOD_EXPR | FLOOR_MOD_EXPR
  | BIT_AND_EXPR | BIT_IOR_EXPR | BIT_XOR_EXPR | BIT_NOT_EXPR | NEGATE_EXPR | ABS_EXPR
  | EQ_EXPR | NE_EXPR | LE_EXPR | LT_EXPR | GE_EXPR | GT_EXPR
  | TRUTH_ANDIF_EXPR | TRUTH_ORIF_EXPR | TRUTH_AND_EXPR | TRUTH_OR_EXPR
  | NOP_EXPR | CONVERT_EXPR | FLOAT_EXPR | FIX_TRUNC_EXPR
  | CALL_EXPR | BIND_EXPR | MODIFY_EXPR | COND_EXPR | TRY_FINALLY_EXPR | SWITCH_EXPR | CASE_LABEL_EXPR
  | LABEL_EXPR | GOTO_EXPR | RETURN_EXPR
  | Other_code nat

text \<open>The fields of a node that hold a tree, a flag or a number, by the names of their macros.\<close>

datatype tree_field =
    TREE_TYPE | TREE_CHAIN | TREE_PURPOSE | TREE_VALUE | TREE_OPERAND nat
  | TYPE_NAME | TYPE_STUB_DECL | TYPE_FIELDS | TYPE_VALUES | TYPE_DOMAIN | TYPE_MAIN_VARIANT
  | TYPE_MIN_VALUE | TYPE_MAX_VALUE | TYPE_SIZE_UNIT
  | DECL_NAME | DECL_CONTEXT | DECL_INITIAL | DECL_RESULT | DECL_ARGUMENTS | DECL_ARG_TYPE | DECL_SAVED_TREE
  | DECL_FIELD_OFFSET | DECL_FIELD_BIT_OFFSET
  | BLOCK_SUPERCONTEXT | BLOCK_CHAIN | BLOCK_SUBBLOCKS | BLOCK_VARS

datatype tree_flag =
    TREE_USED | TREE_SIDE_EFFECTS | TREE_ADDRESSABLE | TREE_STATIC | TREE_PUBLIC | TREE_READONLY
  | TREE_CONSTANT | TREE_THIS_VOLATILE | DECL_EXTERNAL | DECL_ARTIFICIAL | DECL_IGNORED_P | TYPE_UNSIGNED

datatype tree_num =
    EXPR_LOCATION | DECL_SOURCE_LOCATION | TYPE_PRECISION | TYPE_MODE | TYPE_ALIAS_SET | TYPE_ALIGN_UNIT
  | TREE_INT_CST_LOW | DECL_FUNCTION_CODE

text \<open>
  The macros for the operands of a \<open>BIND_EXPR\<close> and of a \<open>COND_EXPR\<close>; \<open>DECL_CHAIN\<close> is the
  \<open>TREE_CHAIN\<close> of a declaration.
\<close>

abbreviation "BIND_EXPR_VARS \<equiv> TREE_OPERAND 0"
abbreviation "BIND_EXPR_BODY \<equiv> TREE_OPERAND 1"
abbreviation "BIND_EXPR_BLOCK \<equiv> TREE_OPERAND 2"
abbreviation "COND_EXPR_ELSE \<equiv> TREE_OPERAND 2"
abbreviation "DECL_CHAIN \<equiv> TREE_CHAIN"

text \<open>Nodes that GCC makes at its start\<close>

datatype gcc_node =
    error_mark_node | void_type_node | void_list_node | ptr_type_node | integer_type_node | char_type_node
  | size_type_node | float_type_node | double_type_node | long_double_type_node
  | integer_zero_node | integer_one_node | size_zero_node

section \<open>Functions of GCC\<close>

datatype built_in_function =
    BUILT_IN_ALLOCA | BUILT_IN_STACK_SAVE | BUILT_IN_STACK_RESTORE | BUILT_IN_TRAP

text \<open>The enumerators as numbers, as they are in the \<open>DECL_FUNCTION_CODE\<close> of a declaration\<close>

primrec built_in_number :: "built_in_function \<Rightarrow> int" where
  "built_in_number BUILT_IN_ALLOCA = 0"
| "built_in_number BUILT_IN_STACK_SAVE = 1"
| "built_in_number BUILT_IN_STACK_RESTORE = 2"
| "built_in_number BUILT_IN_TRAP = 3"

text \<open>
  Functions that give a tree and do not change the trees there are: they get trees and numbers.
  The names are those of GCC.
\<close>

datatype gcc_fun =
    Fold | Fold_build1 tree_code | Fold_convert | Save_expr
  | Convert_to_integer | Convert_to_pointer | Convert_to_real
  | Build_pointer_type | Build_array_type | Build_range_type | Build_function_type | Build_function_type_list
  | Make_unsigned_type | Make_signed_type
  | Build_int_cst | Build_int_cstu | Double_int_to_tree | Array_type_nelts
  | Build_constructor_single | Build_call_expr | Build_call_nary | Build_call_vec
  | Builtin_decl_implicit built_in_function | Builtin_decl_explicit built_in_function
  | Create_artificial_label | Build_case_label

text \<open>Properties of a tree that GCC decides\<close>

datatype gcc_test = Integer_zerop | Real_zerop | Tree_fits_uhwi_p | Record_or_union_type_p

text \<open>Constants of the target machine, and of GCC\<close>

datatype target_const = BITS_PER_UNIT | MAX_BITS_PER_WORD | DOUBLE_TYPE_SIZE | Pmode | ECF_NOTHROW | ECF_LEAF

text \<open>Functions that are called for their effect\<close>

datatype gcc_action =
    Layout_type | Layout_decl | Fixup_unsigned_type | Set_min_and_max_values_for_integral_type
  | Rest_of_decl_compilation | Rest_of_type_compilation
  | Allocate_struct_function | Set_function_end_locus | Set_cfun
  | Cgraph_get_create | Cgraph_finalize_function
  | Build_common_tree_nodes | Build_common_builtin_nodes | Set_call_expr_flags

record ('t, 's) gcc =
  tree_nodes :: "'s \<Rightarrow> 't list"                                 \<comment> \<open>the nodes there are\<close>
  code_of :: "'s \<Rightarrow> 't \<Rightarrow> tree_code"                            \<comment> \<open>\<open>TREE_CODE\<close>\<close>
  link_of :: "'s \<Rightarrow> tree_field \<Rightarrow> 't \<Rightarrow> 't option"
  flag_of :: "'s \<Rightarrow> tree_flag \<Rightarrow> 't \<Rightarrow> bool"
  num_of :: "'s \<Rightarrow> tree_num \<Rightarrow> 't \<Rightarrow> int"
  stmts_of :: "'s \<Rightarrow> 't \<Rightarrow> 't list"                              \<comment> \<open>the elements of a \<open>STATEMENT_LIST\<close>\<close>
  spelling_of :: "'s \<Rightarrow> 't \<Rightarrow> string"                            \<comment> \<open>\<open>IDENTIFIER_POINTER\<close>\<close>
  test :: "gcc_test \<Rightarrow> 's \<Rightarrow> 't \<Rightarrow> bool"
  get_alias_set :: "'s \<Rightarrow> 't \<Rightarrow> int"
  target :: "target_const \<Rightarrow> int"
  set_link :: "tree_field \<Rightarrow> 't \<Rightarrow> 't option \<Rightarrow> 's \<Rightarrow> 's"
  set_flag :: "tree_flag \<Rightarrow> 't \<Rightarrow> bool \<Rightarrow> 's \<Rightarrow> 's"
  set_num :: "tree_num \<Rightarrow> 't \<Rightarrow> int \<Rightarrow> 's \<Rightarrow> 's"
  make_node :: "tree_code \<Rightarrow> 's \<Rightarrow> 't \<times> 's"
  build :: "tree_code \<Rightarrow> 't option \<Rightarrow> 't option list \<Rightarrow> 's \<Rightarrow> 't \<times> 's"       \<comment> \<open>\<open>build1\<close> to \<open>build4\<close>\<close>
  build_decl :: "int \<Rightarrow> tree_code \<Rightarrow> 't option \<Rightarrow> 't option \<Rightarrow> 's \<Rightarrow> 't \<times> 's"
  tree_cons :: "'t option \<Rightarrow> 't option \<Rightarrow> 't option \<Rightarrow> 's \<Rightarrow> 't \<times> 's"
  alloc_stmt_list :: "'s \<Rightarrow> 't \<times> 's"
  append_to_statement_list :: "'t \<Rightarrow> 't option \<Rightarrow> 's \<Rightarrow> 't option \<times> 's"
  build_constructor :: "'t \<Rightarrow> ('t option \<times> 't) list \<Rightarrow> 's \<Rightarrow> 't \<times> 's"
  build_real :: "'t \<Rightarrow> rat \<Rightarrow> 's \<Rightarrow> 't \<times> 's"
  get_identifier :: "string \<Rightarrow> 's \<Rightarrow> 't \<times> 's"
  add_builtin_function :: "string \<Rightarrow> 't \<Rightarrow> built_in_function \<Rightarrow> 's \<Rightarrow> 't \<times> 's"
  set_builtin_decl :: "built_in_function \<Rightarrow> 't \<Rightarrow> 's \<Rightarrow> 's"
  linemap_line_start :: "int \<Rightarrow> 's \<Rightarrow> int \<times> 's"                \<comment> \<open>the location of a line\<close>
  call :: "gcc_fun \<Rightarrow> 't option list \<Rightarrow> int list \<Rightarrow> 's \<Rightarrow> 't \<times> 's"
  act :: "gcc_action \<Rightarrow> 't option list \<Rightarrow> int list \<Rightarrow> 's \<Rightarrow> 's"
  gcc_node :: "gcc_node \<Rightarrow> 't"

section \<open>The documented behaviour of GCC\<close>

text \<open>\<open>same_node\<close>: a node is what it was. \<open>extends\<close>: all the nodes are what they were, there may be more.\<close>

definition same_node :: "('t, 's) gcc \<Rightarrow> 's \<Rightarrow> 's \<Rightarrow> 't \<Rightarrow> bool" where
  "same_node g s s' t \<longleftrightarrow>
     code_of g s' t = code_of g s t \<and> (\<forall>f. link_of g s' f t = link_of g s f t) \<and>
     (\<forall>f. flag_of g s' f t = flag_of g s f t) \<and> (\<forall>f. num_of g s' f t = num_of g s f t) \<and>
     stmts_of g s' t = stmts_of g s t"

definition alive :: "('t, 's) gcc \<Rightarrow> 's \<Rightarrow> 't \<Rightarrow> bool" where
  "alive g s t \<longleftrightarrow> t \<in> set (tree_nodes g s)"

definition extends :: "('t, 's) gcc \<Rightarrow> 's \<Rightarrow> 's \<Rightarrow> bool" where
  "extends g s s' \<longleftrightarrow> (\<forall>t. alive g s t \<longrightarrow> alive g s' t \<and> same_node g s s' t)"

text \<open>A new node of a code: nothing has changed for the others; its chains are empty and it is not used.\<close>

definition new_tree :: "('t, 's) gcc \<Rightarrow> 's \<Rightarrow> tree_code \<Rightarrow> 't \<times> 's \<Rightarrow> bool" where
  "new_tree g s c r \<longleftrightarrow> (case r of (t, s') \<Rightarrow>
     \<not> alive g s t \<and> (\<forall>t'. alive g s' t' \<longleftrightarrow> t' = t \<or> alive g s t') \<and> (\<forall>t'. t' \<noteq> t \<longrightarrow> same_node g s s' t') \<and>
     code_of g s' t = c \<and> link_of g s' BLOCK_CHAIN t = None \<and> \<not> flag_of g s' TREE_USED t \<and> stmts_of g s' t = [])"

text \<open>The fields are independent variables.\<close>

definition fields_ok :: "('t, 's) gcc \<Rightarrow> bool" where
  "fields_ok g \<longleftrightarrow>
     (\<forall>s f t v t'. alive g (set_link g f t v s) t' = alive g s t' \<and>
        code_of g (set_link g f t v s) t' = code_of g s t' \<and>
        (\<forall>f'. link_of g (set_link g f t v s) f' t' = (if f' = f \<and> t' = t then v else link_of g s f' t')) \<and>
        (\<forall>f'. flag_of g (set_link g f t v s) f' t' = flag_of g s f' t') \<and>
        (\<forall>f'. num_of g (set_link g f t v s) f' t' = num_of g s f' t') \<and>
        stmts_of g (set_link g f t v s) t' = stmts_of g s t') \<and>
     (\<forall>s f t v t'. alive g (set_flag g f t v s) t' = alive g s t' \<and>
        code_of g (set_flag g f t v s) t' = code_of g s t' \<and>
        (\<forall>f'. link_of g (set_flag g f t v s) f' t' = link_of g s f' t') \<and>
        (\<forall>f'. flag_of g (set_flag g f t v s) f' t' = (if f' = f \<and> t' = t then v else flag_of g s f' t')) \<and>
        (\<forall>f'. num_of g (set_flag g f t v s) f' t' = num_of g s f' t') \<and>
        stmts_of g (set_flag g f t v s) t' = stmts_of g s t') \<and>
     (\<forall>s f t v t'. alive g (set_num g f t v s) t' = alive g s t' \<and>
        code_of g (set_num g f t v s) t' = code_of g s t' \<and>
        (\<forall>f'. link_of g (set_num g f t v s) f' t' = link_of g s f' t') \<and>
        (\<forall>f'. flag_of g (set_num g f t v s) f' t' = flag_of g s f' t') \<and>
        (\<forall>f'. num_of g (set_num g f t v s) f' t' = (if f' = f \<and> t' = t then v else num_of g s f' t')) \<and>
        stmts_of g (set_num g f t v s) t' = stmts_of g s t')"

text \<open>
  The constructors make a new node and fill in what they are given. Adding a statement with side
  effects that is not a list itself puts it at the end of the list, which is made when there is none.
\<close>

definition makers_ok :: "('t, 's) gcc \<Rightarrow> bool" where
  "makers_ok g \<longleftrightarrow>
     (\<forall>c s. new_tree g s c (make_node g c s)) \<and>
     (\<forall>c ty ops s. new_tree g s c (build g c ty ops s) \<and>
        (let (t, s') = build g c ty ops s in
         link_of g s' TREE_TYPE t = ty \<and> (\<forall>i < length ops. link_of g s' (TREE_OPERAND i) t = ops ! i))) \<and>
     (\<forall>l c n ty s. new_tree g s c (build_decl g l c n ty s) \<and>
        (let (t, s') = build_decl g l c n ty s in
         link_of g s' DECL_NAME t = n \<and> link_of g s' TREE_TYPE t = ty \<and> link_of g s' TREE_CHAIN t = None)) \<and>
     (\<forall>p v n s. new_tree g s TREE_LIST (tree_cons g p v n s) \<and>
        (let (t, s') = tree_cons g p v n s in
         link_of g s' TREE_PURPOSE t = p \<and> link_of g s' TREE_VALUE t = v \<and> link_of g s' TREE_CHAIN t = n)) \<and>
     (\<forall>s. new_tree g s STATEMENT_LIST (alloc_stmt_list g s))"

definition statements_ok :: "('t, 's) gcc \<Rightarrow> bool" where
  "statements_ok g \<longleftrightarrow>
     (\<forall>s t l. code_of g s t \<noteq> STATEMENT_LIST \<longrightarrow> flag_of g s TREE_SIDE_EFFECTS t \<longrightarrow>
        code_of g s l = STATEMENT_LIST \<longrightarrow>
        (let (p, s') = append_to_statement_list g t (Some l) s in
         p = Some l \<and>
         (\<forall>t'. alive g s' t' = alive g s t' \<and> code_of g s' t' = code_of g s t' \<and>
            (\<forall>f. link_of g s' f t' = link_of g s f t') \<and> (\<forall>f. num_of g s' f t' = num_of g s f t') \<and>
            (\<forall>f. f \<noteq> TREE_SIDE_EFFECTS \<or> t' \<noteq> l \<longrightarrow> flag_of g s' f t' = flag_of g s f t') \<and>
            stmts_of g s' t' = (if t' = l then stmts_of g s l @ [t] else stmts_of g s t')))) \<and>
     (\<forall>s t. alive g s t \<longrightarrow> code_of g s t \<noteq> STATEMENT_LIST \<longrightarrow> flag_of g s TREE_SIDE_EFFECTS t \<longrightarrow>
        append_to_statement_list g t None s =
        (let (l, s') = alloc_stmt_list g s in append_to_statement_list g t (Some l) s'))"

text \<open>
  The other functions that give a tree leave the nodes as they are. The tree is a new one or an old one;
  a call and a case label are new. A call of a builtin function for the stack has side effects.
\<close>

definition calls_ok :: "('t, 's) gcc \<Rightarrow> bool" where
  "calls_ok g \<longleftrightarrow>
     (\<forall>f ts ns s. let (t, s') = call g f ts ns s in extends g s s' \<and> alive g s' t) \<and>
     (\<forall>ty es s. let (t, s') = build_constructor g ty es s in extends g s s' \<and> alive g s' t) \<and>
     (\<forall>ty r s. let (t, s') = build_real g ty r s in extends g s s' \<and> alive g s' t) \<and>
     (\<forall>n s. let (t, s') = get_identifier g n s in extends g s s' \<and> alive g s' t) \<and>
     (\<forall>l s. extends g s (snd (linemap_line_start g l s))) \<and>
     (\<forall>ty f as s. let (t, s') = call g Build_call_vec (ty # f # as) [] s in
        new_tree g s CALL_EXPR (t, s') \<and> link_of g s' TREE_TYPE t = ty \<and> link_of g s' (TREE_OPERAND 1) t = f \<and>
        (\<forall>i < length as. link_of g s' (TREE_OPERAND (3 + i)) t = as ! i)) \<and>
     (\<forall>low high l s. let (t, s') = call g Build_case_label [low, high, l] [] s in
        new_tree g s CASE_LABEL_EXPR (t, s') \<and> link_of g s' (TREE_OPERAND 0) t = low \<and>
        link_of g s' (TREE_OPERAND 1) t = high \<and> link_of g s' (TREE_OPERAND 2) t = l) \<and>
     (\<forall>f as s. let (t, s') = call g Build_call_expr (f # as) [] s in
        \<not> alive g s t \<and> code_of g s' t = CALL_EXPR \<and> flag_of g s' TREE_SIDE_EFFECTS t \<and>
        (\<forall>i < length as. link_of g s' (TREE_OPERAND (3 + i)) t = as ! i))"

text \<open>
  \<open>builtin_decl_implicit\<close> gives the declaration of a builtin function, and \<open>build_call_expr\<close> makes a call through
  the address of the declaration that it gets.
\<close>

definition builtins_ok :: "('t, 's) gcc \<Rightarrow> bool" where
  "builtins_ok g \<longleftrightarrow>
     (\<forall>f as s. let (t, s') = call g Build_call_expr (f # as) [] s in
        \<exists>a. link_of g s' (TREE_OPERAND 1) t = Some a \<and> alive g s' a \<and>
           code_of g s' a = ADDR_EXPR \<and> link_of g s' (TREE_OPERAND 0) a = f) \<and>
     (\<forall>f s. let (t, s') = call g (Builtin_decl_implicit f) [] [] s in
        code_of g s' t = FUNCTION_DECL \<and> num_of g s' DECL_FUNCTION_CODE t = built_in_number f)"

text \<open>
  Laying out a type or a declaration and handing it on to the middle end fill in sizes, offsets and
  bounds of types; they do not change what connects the nodes.
\<close>

definition layout_field :: "tree_field \<Rightarrow> bool" where
  "layout_field f \<longleftrightarrow> f \<in> {TYPE_SIZE_UNIT, TYPE_MIN_VALUE, TYPE_MAX_VALUE, DECL_FIELD_OFFSET, DECL_FIELD_BIT_OFFSET}"

definition actions_ok :: "('t, 's) gcc \<Rightarrow> bool" where
  "actions_ok g \<longleftrightarrow>
     (\<forall>a ts ns s t. alive g s t \<longrightarrow>
        alive g (act g a ts ns s) t \<and> code_of g (act g a ts ns s) t = code_of g s t \<and>
        (\<forall>f. \<not> layout_field f \<longrightarrow> link_of g (act g a ts ns s) f t = link_of g s f t) \<and>
        stmts_of g (act g a ts ns s) t = stmts_of g s t)"

definition gcc_ok :: "('t, 's) gcc \<Rightarrow> bool" where
  "gcc_ok g \<longleftrightarrow> fields_ok g \<and> makers_ok g \<and> statements_ok g \<and> calls_ok g \<and> actions_ok g"

end
