(* ===== verification/Ortho_Bindings.thy ===== *)
theory Ortho_Bindings
  imports Ortho_Gcc
begin

text \<open>
  The state of \<open>ortho-lang-7.c\<close> and its binding levels: a level collects the declarations and the
  blocks of a function or of a \<open>declare\<close> statement, and becomes a \<open>BIND_EXPR\<close> when it is popped. The
  statements that are being made are at the end of the current list of statements.
\<close>

section \<open>State\<close>

record 't binding_level =
  bind :: "'t option"
  block :: "'t option"
  save_stack :: bool
  first_decl :: "'t option"
  last_decl :: "'t option"
  first_block :: "'t option"
  last_block :: "'t option"
  prev_stmts :: "'t option"

text \<open>
  The static variables of the source, and the variables of GCC that it reads and sets. A chain of
  binding levels along \<open>prev\<close> is a list, with the level that the variable points to at its head.
\<close>

record ('t, 's) ortho =
  trees :: 's
  cur_binding_level :: "'t binding_level list"
  old_binding_levels :: "'t binding_level list"
  cur_stmts :: "'t option"
  stack_alloc_function_ptr :: "'t option"
  signed_and_unsigned_types :: "int \<Rightarrow> bool \<Rightarrow> 't option"
  fp_const_m_p5 :: rat
  current_function_decl :: "'t option"
  input_location :: int
  errorcount :: int

text \<open>A function of GCC that gives a tree, in this state\<close>

definition tree_op :: "('s \<Rightarrow> 'a \<times> 's) \<Rightarrow> ('t, 's) ortho \<Rightarrow> 'a \<times> ('t, 's) ortho" where
  "tree_op f b = (let (t, s) = f (trees b) in (t, b\<lparr>trees := s\<rparr>))"

text \<open>\<open>gcc_assert\<close>; what fails it and \<open>gcc_unreachable ()\<close> end the compiler\<close>

definition gcc_assert :: "bool \<Rightarrow> unit run" where
  "gcc_assert c = (if c then Done () else Crash Aborted)"

section \<open>Chains\<close>

text \<open>
  The end of a chain, to which an element is appended: the first and the last element, and the field
  that links them.
\<close>

definition link_last :: "('t, 's) gcc \<Rightarrow> tree_field \<Rightarrow> 't option \<Rightarrow> 't option \<Rightarrow> 't \<Rightarrow> 's \<Rightarrow> ('t option \<times> 's) run" where
  "link_last g f fst_el lst el s = (case fst_el of
     None \<Rightarrow> Done (Some el, s)
   | Some _ \<Rightarrow> rbind (deref lst) (\<lambda>l. Done (fst_el, set_link g f l (Some el) s)))"

section \<open>Binding levels\<close>

datatype binding_kind = GLOBAL_BINDING | FUNCTION_BINDING | LOCAL_BINDING

text \<open>\<open>ggc_alloc\<close> clears the memory.\<close>

definition no_level :: "'t binding_level" where
  "no_level = \<lparr>bind = None, block = None, save_stack = False, first_decl = None, last_decl = None,
     first_block = None, last_block = None, prev_stmts = None\<rparr>"

definition get_level :: "('t, 's) ortho \<Rightarrow> 't binding_level \<times> ('t, 's) ortho" where
  "get_level b = (case old_binding_levels b of
     [] \<Rightarrow> (no_level, b)
   | r # rs \<Rightarrow> (r, b\<lparr>old_binding_levels := rs\<rparr>))"

definition init_level :: "'t binding_level \<Rightarrow> 't binding_level" where
  "init_level r = r\<lparr>first_decl := None, last_decl := None, first_block := None, last_block := None, save_stack := False\<rparr>"

definition new_bind :: "('t, 's) gcc \<Rightarrow> 't binding_level \<Rightarrow> ('t, 's) ortho \<Rightarrow> 't binding_level \<times> ('t, 's) ortho" where
  "new_bind g r b =
     (let (blk, b) = tree_op (make_node g BLOCK) b;
          b = trees_update (set_flag g TREE_USED blk True) b;
          (bnd, b) = tree_op (build g BIND_EXPR (Some (gcc_node g void_type_node)) [None, None, Some blk]) b;
          b = trees_update (set_flag g TREE_SIDE_EFFECTS bnd True) b;
          r = r\<lparr>block := Some blk, bind := Some bnd, prev_stmts := cur_stmts b\<rparr>;
          (l, b) = tree_op (alloc_stmt_list g) b
      in (r, b\<lparr>cur_stmts := Some l\<rparr>))"

text \<open>\<open>Append the block created\<close>\<close>

definition chain_block :: "('t, 's) gcc \<Rightarrow> 't \<Rightarrow> 't binding_level \<Rightarrow> 's \<Rightarrow> ('t binding_level \<times> 's) run" where
  "chain_block g blk c s =
     rbind (link_last g BLOCK_CHAIN (first_block c) (last_block c) blk s) (\<lambda>(p, s).
     Done (c\<lparr>first_block := p, last_block := Some blk\<rparr>, s))"

definition push_binding :: "('t, 's) gcc \<Rightarrow> binding_kind \<Rightarrow> ('t, 's) ortho \<Rightarrow> ('t, 's) ortho run" where
  "push_binding g kind b =
     (let (r, b) = get_level b;
          r = init_level r;
          (r, b) = (case kind of
              GLOBAL_BINDING \<Rightarrow> (r\<lparr>bind := None, block := None, prev_stmts := None\<rparr>, b)
            | _ \<Rightarrow> new_bind g r b)
      in rbind (case kind of
              GLOBAL_BINDING \<Rightarrow> Done b
            | FUNCTION_BINDING \<Rightarrow>
                rbind (deref (block r)) (\<lambda>blk.
                Done (trees_update (set_link g BLOCK_SUPERCONTEXT blk (current_function_decl b)) b))
            | LOCAL_BINDING \<Rightarrow> (case cur_binding_level b of
                  [] \<Rightarrow> Crash Null_pointer
                | c # cs \<Rightarrow>
                    rbind (deref (block r)) (\<lambda>blk.
                    rbind (chain_block g blk c (trees b)) (\<lambda>(c, s).
                    Done (b\<lparr>trees := set_link g BLOCK_SUPERCONTEXT blk (block c) s,
                            cur_binding_level := c # cs\<rparr>)))))
         (\<lambda>b. Done (b\<lparr>cur_binding_level := r # cur_binding_level b\<rparr>)))"

text \<open>\<open>Chain the declaration\<close>\<close>

definition chain_decl :: "('t, 's) gcc \<Rightarrow> 't \<Rightarrow> 't binding_level \<Rightarrow> 's \<Rightarrow> ('t binding_level \<times> 's) run" where
  "chain_decl g d c s =
     rbind (link_last g TREE_CHAIN (first_decl c) (last_decl c) d s) (\<lambda>(p, s).
     Done (c\<lparr>first_decl := p, last_decl := Some d\<rparr>, s))"

definition pushdecl :: "('t, 's) gcc \<Rightarrow> 't \<Rightarrow> ('t, 's) ortho \<Rightarrow> ('t, 's) ortho run" where
  "pushdecl g d b =
     (let b = trees_update (set_link g DECL_CONTEXT d (current_function_decl b)) b in
      case cur_binding_level b of
        [] \<Rightarrow> Crash Null_pointer
      | c # cs \<Rightarrow>
          rbind (chain_decl g d c (trees b)) (\<lambda>(c, s).
          Done (b\<lparr>trees := s, cur_binding_level := c # cs\<rparr>)))"

text \<open>
  Appending to the list of statements in a field, and in \<open>cur_stmts\<close>. \<open>UNKNOWN_LOCATION\<close> is 0.
\<close>

definition append_to_field :: "('t, 's) gcc \<Rightarrow> 't \<Rightarrow> tree_field \<Rightarrow> 't \<Rightarrow> 's \<Rightarrow> 's" where
  "append_to_field g stmt f t s =
     (let (p, s) = append_to_statement_list g stmt (link_of g s f t) s in set_link g f t p s)"

definition append_stmt :: "('t, 's) gcc \<Rightarrow> 't \<Rightarrow> ('t, 's) ortho \<Rightarrow> ('t, 's) ortho" where
  "append_stmt g stmt b =
     (let b = (if num_of g (trees b) EXPR_LOCATION stmt = 0
               then trees_update (set_num g EXPR_LOCATION stmt (input_location b)) b else b);
          b = trees_update (set_flag g TREE_SIDE_EFFECTS stmt True) b;
          (p, b) = tree_op (append_to_statement_list g stmt (cur_stmts b)) b
      in b\<lparr>cur_stmts := p\<rparr>)"

text \<open>The body of a binding that allocates on the stack\<close>

definition save_stack_body :: "('t, 's) gcc \<Rightarrow> 't \<Rightarrow> ('t, 's) ortho \<Rightarrow> ('t, 's) ortho run" where
  "save_stack_body g res b =
     (let void_type = Some (gcc_node g void_type_node);
          ptr_type = Some (gcc_node g ptr_type_node);
          (tmp_var, b) = tree_op (build_decl g (input_location b) VAR_DECL None ptr_type) b;
          b = trees_update (set_flag g DECL_ARTIFICIAL tmp_var True) b;
          b = trees_update (set_flag g DECL_IGNORED_P tmp_var True) b;
          b = trees_update (set_flag g TREE_USED tmp_var True) b
      in rbind (pushdecl g tmp_var b) (\<lambda>b.
      let (save_fn, b) = tree_op (call g (Builtin_decl_implicit BUILT_IN_STACK_SAVE) [] []) b;
          (save_call, b) = tree_op (call g Build_call_expr [Some save_fn] []) b;
          (save, b) = tree_op (build g MODIFY_EXPR ptr_type [Some tmp_var, Some save_call]) b;
          b = trees_update (set_flag g TREE_SIDE_EFFECTS save True) b;
          (restore_fn, b) = tree_op (call g (Builtin_decl_implicit BUILT_IN_STACK_RESTORE) [] []) b;
          (restore, b) = tree_op (call g Build_call_expr [Some restore_fn, Some tmp_var] []) b;
          (t, b) = tree_op (build g TRY_FINALLY_EXPR void_type [cur_stmts b, None]) b;
          b = trees_update (set_flag g TREE_SIDE_EFFECTS t True) b;
          b = trees_update (append_to_field g restore (TREE_OPERAND 1) t) b;
          b = trees_update (set_link g BIND_EXPR_BODY res None) b;
          b = trees_update (append_to_field g save BIND_EXPR_BODY res) b
      in Done (trees_update (append_to_field g t BIND_EXPR_BODY res) b)))"

definition pop_binding :: "('t, 's) gcc \<Rightarrow> ('t, 's) ortho \<Rightarrow> ('t \<times> ('t, 's) ortho) run" where
  "pop_binding g b =
     (case cur_binding_level b of
        [] \<Rightarrow> Crash Null_pointer
      | cur # prev \<Rightarrow>
          rbind (deref (bind cur)) (\<lambda>res.
          rbind (if save_stack cur then save_stack_body g res b
                 else Done (trees_update (set_link g BIND_EXPR_BODY res (cur_stmts b)) b)) (\<lambda>b.
          case cur_binding_level b of
            [] \<Rightarrow> Crash Null_pointer
          | cur # prev \<Rightarrow>
              rbind (deref (block cur)) (\<lambda>blk.
              let b = trees_update (set_link g BIND_EXPR_VARS res (first_decl cur)) b;
                  b = trees_update (set_link g BLOCK_SUBBLOCKS blk (first_block cur)) b;
                  b = trees_update (set_link g BLOCK_VARS blk (first_decl cur)) b
              in Done (res, b\<lparr>cur_stmts := prev_stmts cur, cur_binding_level := prev,
                              old_binding_levels := cur # old_binding_levels b\<rparr>)))))"

definition global_bindings_p :: "('t, 's) ortho \<Rightarrow> bool run" where
  "global_bindings_p b = (case cur_binding_level b of [] \<Rightarrow> Crash Null_pointer | c # cs \<Rightarrow> Done (cs = []))"

end
