(* ===== verification/Ortho_Types.thy ===== *)
theory Ortho_Types
  imports Ortho_Bindings
begin

text \<open>
  Types of \<open>ortho-lang-7.c\<close>: numbers, accesses, arrays, records and unions, enumerations, and the
  aggregates of arrays and records.
\<close>

section \<open>Chains and lists\<close>

record 't chain_constr_type =
  chain_first :: "'t option"
  chain_last :: "'t option"

definition chain_init :: "'t chain_constr_type" where
  "chain_init = \<lparr>chain_first = None, chain_last = None\<rparr>"

definition chain_append :: "('t, 's) gcc \<Rightarrow> 't \<Rightarrow> 't chain_constr_type \<Rightarrow> 's \<Rightarrow> ('t chain_constr_type \<times> 's) run" where
  "chain_append g el c s = (case chain_first c of
     None \<Rightarrow> rbind (gcc_assert (chain_last c = None)) (\<lambda>_.
             Done (c\<lparr>chain_first := Some el, chain_last := Some el\<rparr>, s))
   | Some _ \<Rightarrow> rbind (deref (chain_last c)) (\<lambda>l.
             Done (c\<lparr>chain_last := Some el\<rparr>, set_link g TREE_CHAIN l (Some el) s)))"

record 't list_constr_type =
  list_first :: "'t option"
  list_last :: "'t option"

definition list_init :: "'t list_constr_type" where
  "list_init = \<lparr>list_first = None, list_last = None\<rparr>"

definition list_link :: "('t, 's) gcc \<Rightarrow> 't \<Rightarrow> 't list_constr_type \<Rightarrow> 's \<Rightarrow> ('t list_constr_type \<times> 's) run" where
  "list_link g res c s = (case list_first c of
     None \<Rightarrow> Done (c\<lparr>list_first := Some res, list_last := Some res\<rparr>, s)
   | Some _ \<Rightarrow> rbind (deref (list_last c)) (\<lambda>l.
       Done (c\<lparr>list_last := Some res\<rparr>, set_link g TREE_CHAIN l (Some res) s)))"

definition ortho_list_append ::
  "('t, 's) gcc \<Rightarrow> 't \<Rightarrow> 't list_constr_type \<Rightarrow> 's \<Rightarrow> ('t list_constr_type \<times> 's) run" where
  "ortho_list_append g el c s =
     (let (res, s) = tree_cons g None (Some el) None s in list_link g res c s)"

section \<open>Scalar and access types\<close>

definition new_unsigned_type :: "('t, 's) gcc \<Rightarrow> int \<Rightarrow> ('t, 's) ortho \<Rightarrow> 't \<times> ('t, 's) ortho" where
  "new_unsigned_type g size1 b = tree_op (call g Make_unsigned_type [] [size1]) b"

definition new_signed_type :: "('t, 's) gcc \<Rightarrow> int \<Rightarrow> ('t, 's) ortho \<Rightarrow> 't \<times> ('t, 's) ortho" where
  "new_signed_type g size1 b = tree_op (call g Make_signed_type [] [size1]) b"

definition layout_type :: "('t, 's) gcc \<Rightarrow> 't \<Rightarrow> ('t, 's) ortho \<Rightarrow> ('t, 's) ortho" where
  "layout_type g t = trees_update (act g Layout_type [Some t] [])"

definition new_float_type :: "('t, 's) gcc \<Rightarrow> ('t, 's) ortho \<Rightarrow> 't \<times> ('t, 's) ortho" where
  "new_float_type g b =
     (let (res, b) = tree_op (make_node g REAL_TYPE) b;
          b = trees_update (set_num g TYPE_PRECISION res (target g DOUBLE_TYPE_SIZE)) b
      in (res, layout_type g res b))"

definition new_access_type :: "('t, 's) gcc \<Rightarrow> 't option \<Rightarrow> ('t, 's) ortho \<Rightarrow> 't \<times> ('t, 's) ortho" where
  "new_access_type g dtype b = (case dtype of
     None \<Rightarrow>
       let (res, b) = tree_op (make_node g POINTER_TYPE) b;
           b = trees_update (set_link g TREE_TYPE res None) b;
           b = trees_update (set_num g TYPE_MODE res (target g Pmode)) b
       in (res, layout_type g res b)
   | Some d \<Rightarrow> tree_op (call g Build_pointer_type [Some d] []) b)"

definition finish_access_type :: "('t, 's) gcc \<Rightarrow> 't \<Rightarrow> 't option \<Rightarrow> ('t, 's) ortho \<Rightarrow> ('t, 's) ortho run" where
  "finish_access_type g atype dtype b =
     rbind (gcc_assert (code_of g (trees b) atype = POINTER_TYPE \<and> link_of g (trees b) TREE_TYPE atype = None)) (\<lambda>_.
     Done (trees_update (set_link g TREE_TYPE atype dtype) b))"

section \<open>Arrays\<close>

definition new_array_type :: "('t, 's) gcc \<Rightarrow> 't \<Rightarrow> 't \<Rightarrow> ('t, 's) ortho \<Rightarrow> 't \<times> ('t, 's) ortho" where
  "new_array_type g el_type index_type b = tree_op (call g Build_array_type [Some el_type, Some index_type] []) b"

text \<open>The last index of an array of a length: that of a null array is 0\<close>

definition array_last :: "('t, 's) gcc \<Rightarrow> 't option \<Rightarrow> 't \<Rightarrow> ('t, 's) ortho \<Rightarrow> 't \<times> ('t, 's) ortho" where
  "array_last g index_type length1 b =
     (if test g Integer_zerop (trees b) length1 then (gcc_node g size_zero_node, b)
      else let (one, b) = tree_op (call g Build_int_cstu [index_type] [1]) b;
               (len, b) = tree_op (build g MINUS_EXPR index_type [Some length1, Some one]) b
           in tree_op (call g Fold [Some len] []) b)"

definition new_constrained_array_type :: "('t, 's) gcc \<Rightarrow> 't \<Rightarrow> 't \<Rightarrow> ('t, 's) ortho \<Rightarrow> 't \<times> ('t, 's) ortho" where
  "new_constrained_array_type g atype length1 b =
     (let index_type = link_of g (trees b) TYPE_DOMAIN atype;
          (len, b) = array_last g index_type length1 b;
          (range_type, b) = tree_op (call g Build_range_type
             [index_type, Some (gcc_node g size_zero_node), Some len] []) b;
          (res, b) = tree_op (call g Build_array_type [link_of g (trees b) TREE_TYPE atype, Some range_type] []) b
      in (res, trees_update (set_num g TYPE_ALIAS_SET res (get_alias_set g (trees b) atype)) b))"

section \<open>Records and unions\<close>

record 't o_element_list =
  el_res :: 't
  el_chain :: "'t chain_constr_type"

definition new_uncomplete_record_type :: "('t, 's) gcc \<Rightarrow> ('t, 's) ortho \<Rightarrow> 't \<times> ('t, 's) ortho" where
  "new_uncomplete_record_type g b = tree_op (make_node g RECORD_TYPE) b"

definition start_record_type :: "('t, 's) gcc \<Rightarrow> ('t, 's) ortho \<Rightarrow> 't o_element_list \<times> ('t, 's) ortho" where
  "start_record_type g b =
     (let (res, b) = tree_op (make_node g RECORD_TYPE) b in (\<lparr>el_res = res, el_chain = chain_init\<rparr>, b))"

definition start_uncomplete_record_type :: "'t \<Rightarrow> 't o_element_list" where
  "start_uncomplete_record_type res = \<lparr>el_res = res, el_chain = chain_init\<rparr>"

definition new_record_union_field ::
  "('t, 's) gcc \<Rightarrow> 't option \<Rightarrow> 't \<Rightarrow> 't o_element_list \<Rightarrow> ('t, 's) ortho \<Rightarrow>
   ('t \<times> 't o_element_list \<times> ('t, 's) ortho) run" where
  "new_record_union_field g ident etype list b =
     (let (res, b) = tree_op (build_decl g (input_location b) FIELD_DECL ident (Some etype)) b;
          b = trees_update (set_link g DECL_CONTEXT res (Some (el_res list))) b
      in rbind (chain_append g res (el_chain list) (trees b)) (\<lambda>(c, s).
         Done (res, list\<lparr>el_chain := c\<rparr>, b\<lparr>trees := s\<rparr>)))"

definition new_record_field where
  "new_record_field = new_record_union_field"

definition finish_record_type :: "('t, 's) gcc \<Rightarrow> 't o_element_list \<Rightarrow> ('t, 's) ortho \<Rightarrow> 't \<times> ('t, 's) ortho" where
  "finish_record_type g elements b =
     (let res = el_res elements;
          b = trees_update (set_link g TYPE_FIELDS res (chain_first (el_chain elements))) b;
          b = layout_type g res b;
          b = (if link_of g (trees b) TYPE_NAME res \<noteq> None
               then trees_update (act g Rest_of_type_compilation [Some res] [1]) b else b)
      in (res, b))"

definition start_union_type :: "('t, 's) gcc \<Rightarrow> ('t, 's) ortho \<Rightarrow> 't o_element_list \<times> ('t, 's) ortho" where
  "start_union_type g b =
     (let (res, b) = tree_op (make_node g UNION_TYPE) b in (\<lparr>el_res = res, el_chain = chain_init\<rparr>, b))"

definition new_union_field where
  "new_union_field = new_record_union_field"

definition finish_union_type :: "('t, 's) gcc \<Rightarrow> 't o_element_list \<Rightarrow> ('t, 's) ortho \<Rightarrow> 't \<times> ('t, 's) ortho" where
  "finish_union_type g elements b =
     (let res = el_res elements;
          b = trees_update (set_link g TYPE_FIELDS res (chain_first (el_chain elements))) b
      in (res, layout_type g res b))"

section \<open>Booleans and enumerations\<close>

text \<open>The type and its literals for false and true\<close>

definition new_boolean_type :: "('t, 's) gcc \<Rightarrow> ('t, 's) ortho \<Rightarrow> ('t \<times> 't option \<times> 't option) \<times> ('t, 's) ortho" where
  "new_boolean_type g b =
     (let (res, b) = tree_op (make_node g BOOLEAN_TYPE) b;
          b = trees_update (set_num g TYPE_PRECISION res 1) b;
          b = trees_update (act g Fixup_unsigned_type [Some res] []) b
      in ((res, link_of g (trees b) TYPE_MIN_VALUE res, link_of g (trees b) TYPE_MAX_VALUE res), b))"

record 't o_enum_list =
  enum_res :: 't
  enum_chain :: "'t chain_constr_type"
  enum_num :: int
  enum_size :: int

definition start_enum_type :: "('t, 's) gcc \<Rightarrow> int \<Rightarrow> ('t, 's) ortho \<Rightarrow> 't o_enum_list \<times> ('t, 's) ortho" where
  "start_enum_type g size1 b =
     (let (res, b) = tree_op (make_node g ENUMERAL_TYPE) b;
          b = trees_update (set_num g TYPE_PRECISION res size1) b;
          b = trees_update (set_flag g TYPE_UNSIGNED res True) b
      in (\<lparr>enum_res = res, enum_chain = chain_init, enum_num = 0, enum_size = size1\<rparr>, b))"

definition new_enum_literal ::
  "('t, 's) gcc \<Rightarrow> 't \<Rightarrow> 't o_enum_list \<Rightarrow> ('t, 's) ortho \<Rightarrow> ('t \<times> 't o_enum_list \<times> ('t, 's) ortho) run" where
  "new_enum_literal g ident list b =
     (let (res, b) = tree_op (call g Build_int_cstu [Some (enum_res list)] [enum_num list]) b;
          (el, b) = tree_op (tree_cons g (Some ident) (Some res) None) b
      in rbind (chain_append g el (enum_chain list) (trees b)) (\<lambda>(c, s).
         rbind (c_int (enum_num list + 1)) (\<lambda>num.
         Done (res, list\<lparr>enum_chain := c, enum_num := num\<rparr>, b\<lparr>trees := s\<rparr>))))"

text \<open>\<open>UNSIGNED\<close> is 1.\<close>

definition finish_enum_type :: "('t, 's) gcc \<Rightarrow> 't o_enum_list \<Rightarrow> ('t, 's) ortho \<Rightarrow> 't \<times> ('t, 's) ortho" where
  "finish_enum_type g list b =
     (let res = enum_res list;
          b = trees_update (set_link g TYPE_VALUES res (chain_first (enum_chain list))) b;
          b = trees_update (act g Set_min_and_max_values_for_integral_type [Some res] [enum_size list, 1]) b
      in (res, layout_type g res b))"

section \<open>Aggregates\<close>

text \<open>
  The elements of a constructor are a vector of fields and values. The length for which the vector is
  allocated, \<open>fields_length\<close> and \<open>array_type_nelts\<close>, is a hint: \<open>vec_alloc\<close> reserves, and the vector
  grows. The fields of a type are followed along their chain, which has at most as many elements as there
  are nodes.
\<close>

fun fields_length_loop :: "('t, 's) gcc \<Rightarrow> nat \<Rightarrow> 't option \<Rightarrow> int \<Rightarrow> 's \<Rightarrow> int run" where
  "fields_length_loop g _ None count s = Done count"
| "fields_length_loop g 0 (Some t) count s = Crash No_return"
| "fields_length_loop g (Suc n) (Some t) count s =
     rbind (if code_of g s t = FIELD_DECL then c_int (count + 1) else Done count) (\<lambda>count.
     fields_length_loop g n (link_of g s DECL_CHAIN t) count s)"

definition fields_length :: "('t, 's) gcc \<Rightarrow> 't \<Rightarrow> 's \<Rightarrow> int run" where
  "fields_length g type s = fields_length_loop g (length (tree_nodes g s)) (link_of g s TYPE_FIELDS type) 0 s"

record 't o_record_aggr_list =
  ra_atype :: 't
  ra_field :: "'t option"
  ra_elts :: "('t option \<times> 't) list"

definition start_record_aggr :: "('t, 's) gcc \<Rightarrow> 't \<Rightarrow> ('t, 's) ortho \<Rightarrow> 't o_record_aggr_list run" where
  "start_record_aggr g atype b =
     rbind (fields_length g atype (trees b)) (\<lambda>_.
     Done \<lparr>ra_atype = atype, ra_field = link_of g (trees b) TYPE_FIELDS atype, ra_elts = []\<rparr>)"

definition new_record_aggr_el ::
  "('t, 's) gcc \<Rightarrow> 't \<Rightarrow> 't o_record_aggr_list \<Rightarrow> ('t, 's) ortho \<Rightarrow> 't o_record_aggr_list run" where
  "new_record_aggr_el g value list b =
     (let list = list\<lparr>ra_elts := ra_elts list @ [(ra_field list, value)]\<rparr> in
      rbind (deref (ra_field list)) (\<lambda>f.
      Done (list\<lparr>ra_field := link_of g (trees b) TREE_CHAIN f\<rparr>)))"

definition finish_record_aggr :: "('t, 's) gcc \<Rightarrow> 't o_record_aggr_list \<Rightarrow> ('t, 's) ortho \<Rightarrow> 't \<times> ('t, 's) ortho" where
  "finish_record_aggr g list b = tree_op (build_constructor g (ra_atype list) (ra_elts list)) b"

record 't o_array_aggr_list =
  aa_atype :: 't
  aa_elts :: "('t option \<times> 't) list"

definition start_array_aggr :: "('t, 's) gcc \<Rightarrow> 't \<Rightarrow> ('t, 's) ortho \<Rightarrow> ('t o_array_aggr_list \<times> ('t, 's) ortho) run" where
  "start_array_aggr g atype b =
     (let (nelts, b) = tree_op (call g Array_type_nelts [Some atype] []) b in
      rbind (gcc_assert (test g Tree_fits_uhwi_p (trees b) nelts)) (\<lambda>_.
      Done (\<lparr>aa_atype = atype, aa_elts = []\<rparr>, b)))"

definition new_array_aggr_el :: "'t \<Rightarrow> 't o_array_aggr_list \<Rightarrow> 't o_array_aggr_list" where
  "new_array_aggr_el value list = list\<lparr>aa_elts := aa_elts list @ [(None, value)]\<rparr>"

definition finish_array_aggr :: "('t, 's) gcc \<Rightarrow> 't o_array_aggr_list \<Rightarrow> ('t, 's) ortho \<Rightarrow> 't \<times> ('t, 's) ortho" where
  "finish_array_aggr g list b = tree_op (build_constructor g (aa_atype list) (aa_elts list)) b"

definition new_union_aggr :: "('t, 's) gcc \<Rightarrow> 't \<Rightarrow> 't \<Rightarrow> 't \<Rightarrow> ('t, 's) ortho \<Rightarrow> 't \<times> ('t, 's) ortho" where
  "new_union_aggr g atype field value b =
     (let (res, b) = tree_op (call g Build_constructor_single [Some atype, Some field, Some value] []) b
      in (res, trees_update (set_flag g TREE_CONSTANT res True) b))"

definition new_default_value :: "('t, 's) gcc \<Rightarrow> 't \<Rightarrow> ('t, 's) ortho \<Rightarrow> 't \<times> ('t, 's) ortho" where
  "new_default_value g atype b = tree_op (build_constructor g atype []) b"

end
