(* ===== verification/Ortho_Exprs.thy ===== *)
theory Ortho_Exprs
  imports Ortho_Types
begin

text \<open>
  Expressions of \<open>ortho-lang-7.c\<close>: operations, conversions, literals, references to the elements of
  objects, and addresses.
\<close>

section \<open>Operations\<close>

text \<open>
  The table of the operations by their number. The kind is a parameter that comes from Ada, of which the
  low byte counts; the table has 19 entries.
\<close>

datatype ON_op_kind =
    ON_Nil
  | ON_Add_Ov | ON_Sub_Ov | ON_Mul_Ov | ON_Div_Ov | ON_Rem_Ov | ON_Mod_Ov
  | ON_And | ON_Or | ON_Xor
  | ON_Not | ON_Neg_Ov | ON_Abs_Ov
  | ON_Eq | ON_Neq | ON_Le | ON_Lt | ON_Ge | ON_Gt

definition ON_kinds :: "ON_op_kind list" where
  "ON_kinds = [ON_Nil, ON_Add_Ov, ON_Sub_Ov, ON_Mul_Ov, ON_Div_Ov, ON_Rem_Ov, ON_Mod_Ov, ON_And, ON_Or, ON_Xor,
     ON_Not, ON_Neg_Ov, ON_Abs_Ov, ON_Eq, ON_Neq, ON_Le, ON_Lt, ON_Ge, ON_Gt]"

text \<open>The number of an operation, and their order: the comparisons come last.\<close>

definition ON_number :: "ON_op_kind \<Rightarrow> nat" where
  "ON_number k = length (takeWhile (\<lambda>k'. k' \<noteq> k) ON_kinds)"

lemma ON_kinds_number [simp]: "ON_kinds ! ON_number k = k" "ON_number k < length ON_kinds"
  by (cases k; simp add: ON_number_def ON_kinds_def)+

instantiation ON_op_kind :: linorder
begin

definition less_eq_ON_op_kind :: "ON_op_kind \<Rightarrow> ON_op_kind \<Rightarrow> bool" where
  "k \<le> k' \<longleftrightarrow> ON_number k \<le> ON_number k'"

definition less_ON_op_kind :: "ON_op_kind \<Rightarrow> ON_op_kind \<Rightarrow> bool" where
  "k < k' \<longleftrightarrow> ON_number k < ON_number k'"

instance
proof
  fix k k' k'' :: ON_op_kind
  show "k < k' \<longleftrightarrow> k \<le> k' \<and> \<not> k' \<le> k"
    unfolding less_eq_ON_op_kind_def less_ON_op_kind_def by linarith
  show "k \<le> k" unfolding less_eq_ON_op_kind_def by simp
  show "k \<le> k' \<Longrightarrow> k' \<le> k'' \<Longrightarrow> k \<le> k''" unfolding less_eq_ON_op_kind_def by linarith
  show "k \<le> k' \<or> k' \<le> k" unfolding less_eq_ON_op_kind_def by linarith
  assume "k \<le> k'" "k' \<le> k"
  then have "ON_number k = ON_number k'" unfolding less_eq_ON_op_kind_def by linarith
  then show "k = k'" using ON_kinds_number(1) by metis
qed

end

definition ON_op_to_TREE_CODE :: "tree_code list" where
  "ON_op_to_TREE_CODE =
    [ERROR_MARK,
     PLUS_EXPR, MINUS_EXPR, MULT_EXPR, ERROR_MARK, TRUNC_MOD_EXPR, FLOOR_MOD_EXPR,
     BIT_AND_EXPR, BIT_IOR_EXPR, BIT_XOR_EXPR,
     BIT_NOT_EXPR, NEGATE_EXPR, ABS_EXPR,
     EQ_EXPR, NE_EXPR, LE_EXPR, LT_EXPR, GE_EXPR, GT_EXPR]"

definition truncate_kind :: "u32 \<Rightarrow> nat" where
  "truncate_kind kind = unat (kind AND 0xff)"

definition op_code :: "nat \<Rightarrow> tree_code run" where
  "op_code k = array_get (length ON_op_to_TREE_CODE) ON_op_to_TREE_CODE k"

text \<open>What Ada has put above the low byte does not matter; the operations from \<open>ON_Eq\<close> on compare.\<close>

lemma truncate_kind_number: "truncate_kind (push_bit 8 junk OR word_of_nat (ON_number k)) = ON_number k"
proof -
  have m: "0xff = (mask 8 :: u32)" by (simp add: mask_eq_exp_minus_1)
  have "truncate_kind (push_bit 8 junk OR word_of_nat (ON_number k)) = unat (take_bit 8 (word_of_nat (ON_number k) :: u32))"
    unfolding truncate_kind_def m by (simp only: take_bit_eq_mask [symmetric] take_bit_or) (simp add: take_bit_push_bit)
  then show ?thesis by (cases k; simp add: ON_number_def ON_kinds_def)
qed

lemma comparison_codes:
  "ON_Eq \<le> k \<longleftrightarrow> (\<exists>c \<in> {EQ_EXPR, NE_EXPR, LE_EXPR, LT_EXPR, GE_EXPR, GT_EXPR}. op_code (ON_number k) = Done c)"
  by (cases k; simp add: less_eq_ON_op_kind_def ON_number_def ON_kinds_def op_code_def ON_op_to_TREE_CODE_def array_get_def)

definition new_dyadic_op :: "('t, 's) gcc \<Rightarrow> u32 \<Rightarrow> 't \<Rightarrow> 't \<Rightarrow> ('t, 's) ortho \<Rightarrow> ('t \<times> ('t, 's) ortho) run" where
  "new_dyadic_op g kind left1 right1 b =
     (let k = truncate_kind kind;
          left_type = link_of g (trees b) TREE_TYPE left1
      in rbind (gcc_assert (left_type = link_of g (trees b) TREE_TYPE right1)) (\<lambda>_.
      rbind (if k = 4
             then rbind (deref left_type) (\<lambda>ty.
                  Done (if code_of g (trees b) ty = REAL_TYPE then RDIV_EXPR else TRUNC_DIV_EXPR))
             else op_code k) (\<lambda>code.
      Done (tree_op (build g code left_type [Some left1, Some right1]) b))))"

definition new_monadic_op :: "('t, 's) gcc \<Rightarrow> u32 \<Rightarrow> 't \<Rightarrow> ('t, 's) ortho \<Rightarrow> ('t \<times> ('t, 's) ortho) run" where
  "new_monadic_op g kind operand b =
     rbind (op_code (truncate_kind kind)) (\<lambda>code.
     Done (tree_op (build g code (link_of g (trees b) TREE_TYPE operand) [Some operand]) b))"

definition new_compare_op ::
  "('t, 's) gcc \<Rightarrow> u32 \<Rightarrow> 't \<Rightarrow> 't \<Rightarrow> 't \<Rightarrow> ('t, 's) ortho \<Rightarrow> ('t \<times> ('t, 's) ortho) run" where
  "new_compare_op g kind left1 right1 ntype b =
     rbind (gcc_assert (code_of g (trees b) ntype = BOOLEAN_TYPE)) (\<lambda>_.
     rbind (gcc_assert (link_of g (trees b) TREE_TYPE left1 = link_of g (trees b) TREE_TYPE right1)) (\<lambda>_.
     rbind (op_code (truncate_kind kind)) (\<lambda>code.
     Done (tree_op (build g code (Some ntype) [Some left1, Some right1]) b))))"

section \<open>Conversions\<close>

text \<open>
  The code that converts between types of two codes. A real becomes an integer by rounding: 0.5 is added to
  it, or -0.5 when it is negative, before it is truncated.
\<close>

definition convert_code :: "tree_code \<Rightarrow> tree_code \<Rightarrow> tree_code run" where
  "convert_code val_code rtype_code =
     (if val_code = POINTER_TYPE \<and> rtype_code = POINTER_TYPE then Done NOP_EXPR
      else if val_code = INTEGER_TYPE \<and> rtype_code = INTEGER_TYPE then Done CONVERT_EXPR
      else if val_code = INTEGER_TYPE \<and> rtype_code = ENUMERAL_TYPE then Done CONVERT_EXPR
      else if val_code = ENUMERAL_TYPE \<and> rtype_code = INTEGER_TYPE then Done CONVERT_EXPR
      else if val_code = INTEGER_TYPE \<and> rtype_code = REAL_TYPE then Done FLOAT_EXPR
      else if val_code = BOOLEAN_TYPE \<and> rtype_code = BOOLEAN_TYPE then Done NOP_EXPR
      else if val_code = BOOLEAN_TYPE \<and> rtype_code = INTEGER_TYPE then Done CONVERT_EXPR
      else if val_code = INTEGER_TYPE \<and> rtype_code = BOOLEAN_TYPE then Done NOP_EXPR
      else if val_code = REAL_TYPE \<and> rtype_code = REAL_TYPE then Done NOP_EXPR
      else Crash Aborted)"

definition round_to_integer :: "('t, 's) gcc \<Rightarrow> 't \<Rightarrow> 't \<Rightarrow> 't \<Rightarrow> ('t, 's) ortho \<Rightarrow> 't \<times> ('t, 's) ortho" where
  "round_to_integer g val val_type rtype b =
     (let (m_p5, b) = tree_op (build_real g val_type (fp_const_m_p5 b)) b;
          (p5, b) = tree_op (build_real g val_type (1 / 2)) b;
          (zero, b) = tree_op (build_real g val_type 0) b;
          (saved, b) = tree_op (call g Save_expr [Some val] []) b;
          (comp, b) = tree_op (build g GE_EXPR (Some (gcc_node g integer_type_node)) [Some saved, Some zero]) b;
          (adj, b) = tree_op (build g COND_EXPR (Some val_type) [Some comp, Some p5, Some m_p5]) b;
          (res, b) = tree_op (build g PLUS_EXPR (Some val_type) [Some saved, Some adj]) b
      in tree_op (build g FIX_TRUNC_EXPR (Some rtype) [Some res]) b)"

definition new_convert_ov :: "('t, 's) gcc \<Rightarrow> 't \<Rightarrow> 't \<Rightarrow> ('t, 's) ortho \<Rightarrow> ('t \<times> ('t, 's) ortho) run" where
  "new_convert_ov g val rtype b =
     (let val_type = link_of g (trees b) TREE_TYPE val in
      if val_type = Some rtype then Done (val, b)
      else rbind (deref val_type) (\<lambda>vty.
        let val_code = code_of g (trees b) vty; rtype_code = code_of g (trees b) rtype in
        if val_code = REAL_TYPE \<and> rtype_code = INTEGER_TYPE then Done (round_to_integer g val vty rtype b)
        else rbind (convert_code val_code rtype_code) (\<lambda>code.
          Done (tree_op (build g code (Some rtype) [Some val]) b))))"

section \<open>Literals\<close>

text \<open>
  An integer constant is made of a pair of words, of which the higher one is signed. \<open>value >> 1\<close> is
  an arithmetic shift for a signed value and a logical one for an unsigned value.
\<close>

definition pair_value :: "u64 \<Rightarrow> u64 \<Rightarrow> int" where
  "pair_value hi lo = sint hi * 2 ^ 64 + uint lo"

definition signed_hi :: "u64 \<Rightarrow> u64" where
  "signed_hi value = signed_drop_bit 63 (signed_drop_bit 1 value)"

definition new_signed_literal :: "('t, 's) gcc \<Rightarrow> 't \<Rightarrow> u64 \<Rightarrow> ('t, 's) ortho \<Rightarrow> 't \<times> ('t, 's) ortho" where
  "new_signed_literal g ltype value b =
     tree_op (call g Double_int_to_tree [Some ltype] [pair_value (signed_hi value) value]) b"

definition new_unsigned_literal :: "('t, 's) gcc \<Rightarrow> 't \<Rightarrow> u64 \<Rightarrow> ('t, 's) ortho \<Rightarrow> 't \<times> ('t, 's) ortho" where
  "new_unsigned_literal g ltype value b =
     tree_op (call g Double_int_to_tree [Some ltype]
       [pair_value (drop_bit 63 (drop_bit 1 value)) value]) b"

definition new_null_access :: "('t, 's) gcc \<Rightarrow> 't \<Rightarrow> ('t, 's) ortho \<Rightarrow> 't \<times> ('t, 's) ortho" where
  "new_null_access g ltype b = tree_op (call g Build_int_cst [Some ltype] [0]) b"

text \<open>
  A finite \<open>double\<close> is \<open>m * 2 ^ e\<close>. \<open>frexp\<close> splits it into a fraction from 1/2 up to 1 and a power of 2; a
  number of bits is the length of the binary representation of \<open>m\<close>. \<open>ldexp (frac, 60)\<close> is an integer,
  since the fraction has 53 bits. The conversion of an infinity or of a NaN to \<open>long long\<close> is undefined.
\<close>

datatype c_double = Finite int int | Not_finite

fun bit_length :: "nat \<Rightarrow> nat" where
  "bit_length n = (if n = 0 then 0 else Suc (bit_length (n div 2)))"

declare bit_length.simps [simp del]

text \<open>The value of \<open>frac\<close> times \<open>2 ^ 60\<close>, and the exponent\<close>

definition frexp60 :: "int \<Rightarrow> int \<Rightarrow> int \<times> int" where
  "frexp60 m e = (if m = 0 then (0, 0)
     else let n = bit_length (nat \<bar>m\<bar>) in (m * 2 ^ (60 - n), e + int n))"

text \<open>\<open>2 ^ n\<close> for an integer \<open>n\<close>, and the product of two reals, in the arithmetic of GCC\<close>

definition real_2expN :: "int \<Rightarrow> rat" where
  "real_2expN n = (if 0 \<le> n then 2 ^ nat n else 1 / 2 ^ nat (- n))"

definition new_float_literal :: "('t, 's) gcc \<Rightarrow> 't \<Rightarrow> c_double \<Rightarrow> ('t, 's) ortho \<Rightarrow> ('t \<times> ('t, 's) ortho) run" where
  "new_float_literal g ltype value b = (case value of
     Not_finite \<Rightarrow> Crash Int_overflow
   | Finite m e \<Rightarrow>
       let (s, ex) = frexp60 m e;
           lo = word_of_int s :: u64;
           hi = signed_hi lo;
           r_sign = of_int (pair_value hi lo);
           r_exp = real_2expN (ex - 60)
       in Done (tree_op (build_real g ltype (r_sign * r_exp)) b))"

section \<open>References\<close>

text \<open>
  \<open>ortho_mark_addressable\<close> goes to the object that a reference is into, which is reached after at most as
  many steps as there are nodes.
\<close>

fun mark_addressable_loop :: "('t, 's) gcc \<Rightarrow> nat \<Rightarrow> 't option \<Rightarrow> ('t, 's) ortho \<Rightarrow> (bool \<times> ('t, 's) ortho) run" where
  "mark_addressable_loop g 0 n b = Crash No_return"
| "mark_addressable_loop g (Suc k) n b =
     rbind (deref n) (\<lambda>n.
     let c = code_of g (trees b) n in
     if c \<in> {VAR_DECL, CONST_DECL, PARM_DECL, RESULT_DECL} then
       Done (True, trees_update (set_flag g TREE_ADDRESSABLE n True) b)
     else if c \<in> {COMPONENT_REF, ARRAY_REF, ARRAY_RANGE_REF} then
       mark_addressable_loop g k (link_of g (trees b) (TREE_OPERAND 0) n) b
     else if c \<in> {FUNCTION_DECL, CONSTRUCTOR} then
       Done (True, trees_update (set_flag g TREE_ADDRESSABLE n True) b)
     else if c = INDIRECT_REF then Done (True, b)
     else Crash Aborted)"

definition ortho_mark_addressable :: "('t, 's) gcc \<Rightarrow> 't \<Rightarrow> ('t, 's) ortho \<Rightarrow> (bool \<times> ('t, 's) ortho) run" where
  "ortho_mark_addressable g expr b = mark_addressable_loop g (length (tree_nodes g (trees b))) (Some expr) b"

definition new_indexed_element :: "('t, 's) gcc \<Rightarrow> 't \<Rightarrow> 't \<Rightarrow> ('t, 's) ortho \<Rightarrow> ('t \<times> ('t, 's) ortho) run" where
  "new_indexed_element g arr index1 b =
     rbind (ortho_mark_addressable g arr b) (\<lambda>(_, b).
     rbind (deref (link_of g (trees b) TREE_TYPE arr)) (\<lambda>arr_type.
     Done (tree_op (build g ARRAY_REF (link_of g (trees b) TREE_TYPE arr_type) [Some arr, Some index1, None, None]) b)))"

definition new_slice :: "('t, 's) gcc \<Rightarrow> 't \<Rightarrow> 't \<Rightarrow> 't \<Rightarrow> ('t, 's) ortho \<Rightarrow> ('t \<times> ('t, 's) ortho) run" where
  "new_slice g arr res_type index1 b =
     rbind (gcc_assert (code_of g (trees b) res_type = ARRAY_TYPE)) (\<lambda>_.
     rbind (ortho_mark_addressable g arr b) (\<lambda>(_, b).
     Done (tree_op (build g ARRAY_RANGE_REF (Some res_type) [Some arr, Some index1, None, None]) b)))"

definition new_selected_element :: "('t, 's) gcc \<Rightarrow> 't \<Rightarrow> 't \<Rightarrow> ('t, 's) ortho \<Rightarrow> ('t \<times> ('t, 's) ortho) run" where
  "new_selected_element g rec1 el b =
     rbind (deref (link_of g (trees b) TREE_TYPE rec1)) (\<lambda>rec_type.
     rbind (gcc_assert (test g Record_or_union_type_p (trees b) rec_type)) (\<lambda>_.
     Done (tree_op (build g COMPONENT_REF (link_of g (trees b) TREE_TYPE el) [Some rec1, Some el, None]) b)))"

definition new_access_element :: "('t, 's) gcc \<Rightarrow> 't \<Rightarrow> ('t, 's) ortho \<Rightarrow> ('t \<times> ('t, 's) ortho) run" where
  "new_access_element g acc b =
     rbind (deref (link_of g (trees b) TREE_TYPE acc)) (\<lambda>acc_type.
     rbind (gcc_assert (code_of g (trees b) acc_type = POINTER_TYPE)) (\<lambda>_.
     Done (tree_op (build g INDIRECT_REF (link_of g (trees b) TREE_TYPE acc_type) [Some acc]) b)))"

text \<open>
  Offsets are unsigned words (\<open>TREE_INT_CST_LOW\<close>), and so is their sum before it is stored into a
  \<open>HOST_WIDE_INT\<close>.
\<close>

definition cst_low :: "('t, 's) gcc \<Rightarrow> 's \<Rightarrow> 't \<Rightarrow> u64" where
  "cst_low g s t = word_of_int (num_of g s TREE_INT_CST_LOW t)"

definition new_offsetof :: "('t, 's) gcc \<Rightarrow> 't \<Rightarrow> 't \<Rightarrow> 't \<Rightarrow> ('t, 's) ortho \<Rightarrow> ('t \<times> ('t, 's) ortho) run" where
  "new_offsetof g rec_type field rtype b =
     rbind (gcc_assert (link_of g (trees b) DECL_CONTEXT field = Some rec_type)) (\<lambda>_.
     rbind (deref (link_of g (trees b) DECL_FIELD_OFFSET field)) (\<lambda>off.
     rbind (gcc_assert (test g Tree_fits_uhwi_p (trees b) off)) (\<lambda>_.
     rbind (deref (link_of g (trees b) DECL_FIELD_BIT_OFFSET field)) (\<lambda>bit_off.
     rbind (gcc_assert (test g Tree_fits_uhwi_p (trees b) bit_off)) (\<lambda>_.
     let pos = cst_low g (trees b) off + cst_low g (trees b) bit_off div word_of_int (target g BITS_PER_UNIT) in
     Done (tree_op (call g Build_int_cstu [Some rtype] [uint pos]) b))))))"

definition new_sizeof :: "('t, 's) gcc \<Rightarrow> 't \<Rightarrow> 't \<Rightarrow> ('t, 's) ortho \<Rightarrow> 't \<times> ('t, 's) ortho" where
  "new_sizeof g atype rtype b =
     (let (e, b) = tree_op (build g NOP_EXPR (Some rtype) [link_of g (trees b) TYPE_SIZE_UNIT atype]) b
      in tree_op (call g Fold [Some e] []) b)"

definition new_alignof :: "('t, 's) gcc \<Rightarrow> 't \<Rightarrow> 't \<Rightarrow> ('t, 's) ortho \<Rightarrow> 't \<times> ('t, 's) ortho" where
  "new_alignof g atype rtype b =
     tree_op (call g Build_int_cstu [Some rtype] [num_of g (trees b) TYPE_ALIGN_UNIT atype]) b"

section \<open>Addresses\<close>

definition ortho_build_addr :: "('t, 's) gcc \<Rightarrow> 't \<Rightarrow> 't \<Rightarrow> ('t, 's) ortho \<Rightarrow> ('t \<times> ('t, 's) ortho) run" where
  "ortho_build_addr g lvalue atype b =
     rbind (if code_of g (trees b) lvalue = INDIRECT_REF
            then rbind (deref (link_of g (trees b) (TREE_OPERAND 0) lvalue)) (\<lambda>res. Done (res, b))
            else rbind (ortho_mark_addressable g lvalue b) (\<lambda>(_, b).
              let ty = link_of g (trees b) TREE_TYPE lvalue;
                  (ptr_type, b) = (if ty \<noteq> link_of g (trees b) TREE_TYPE atype
                                   then tree_op (call g Build_pointer_type [ty] []) b else (atype, b))
              in Done (tree_op (call g (Fold_build1 ADDR_EXPR) [Some ptr_type, Some lvalue] []) b))) (\<lambda>(res, b).
     if link_of g (trees b) TREE_TYPE res \<noteq> Some atype
     then Done (tree_op (call g (Fold_build1 NOP_EXPR) [Some atype, Some res] []) b)
     else Done (res, b))"

definition new_unchecked_address where "new_unchecked_address = ortho_build_addr"
definition new_address where "new_address = ortho_build_addr"
definition new_global_address where "new_global_address = ortho_build_addr"
definition new_global_unchecked_address where "new_global_unchecked_address = ortho_build_addr"

definition build_function_ptr :: "('t, 's) gcc \<Rightarrow> 't \<Rightarrow> ('t, 's) ortho \<Rightarrow> 't \<times> ('t, 's) ortho" where
  "build_function_ptr g func b =
     (let (ty, b) = tree_op (call g Build_pointer_type [link_of g (trees b) TREE_TYPE func] []) b
      in tree_op (build g ADDR_EXPR (Some ty) [Some func]) b)"

definition new_subprogram_address :: "('t, 's) gcc \<Rightarrow> 't \<Rightarrow> 't \<Rightarrow> ('t, 's) ortho \<Rightarrow> 't \<times> ('t, 's) ortho" where
  "new_subprogram_address g subprg atype b =
     (let (p, b) = build_function_ptr g subprg b;
          (e, b) = tree_op (build g NOP_EXPR (Some atype) [Some p]) b
      in tree_op (call g Fold [Some e] []) b)"

definition new_value :: "'t \<Rightarrow> 't" where
  "new_value lvalue = lvalue"

text \<open>
  \<open>new_alloca\<close>: the stack is saved by the current level unless it is the level of a function at the
  top, below which there is only the global level.
\<close>

definition new_alloca :: "('t, 's) gcc \<Rightarrow> 't \<Rightarrow> 't \<Rightarrow> ('t, 's) ortho \<Rightarrow> ('t \<times> ('t, 's) ortho) run" where
  "new_alloca g rtype size1 b = (case cur_binding_level b of
     [] \<Rightarrow> Crash Null_pointer
   | c # cs \<Rightarrow>
       let b = (if cs \<noteq> [] \<and> tl cs \<noteq> [] then b\<lparr>cur_binding_level := c\<lparr>save_stack := True\<rparr> # cs\<rparr> else b);
           (n, b) = tree_op (call g Fold_convert [Some (gcc_node g size_type_node), Some size1] []) b;
           (res, b) = tree_op (call g Build_call_nary
              [Some (gcc_node g ptr_type_node), stack_alloc_function_ptr b, Some n] []) b
       in Done (tree_op (call g Fold_convert [Some rtype, Some res] []) b))"

end
