(* ===== verification/Ortho_Decls.thy ===== *)
theory Ortho_Decls
  imports Ortho_Exprs
begin

text \<open>
  Declarations of \<open>ortho-lang-7.c\<close>: types, constants, variables and subprograms.
\<close>

section \<open>Lines and types\<close>

definition new_debug_line_decl :: "('t, 's) gcc \<Rightarrow> int \<Rightarrow> ('t, 's) ortho \<Rightarrow> ('t, 's) ortho" where
  "new_debug_line_decl g line b =
     (let (l, b) = tree_op (linemap_line_start g line) b in b\<lparr>input_location := l\<rparr>)"

definition new_type_decl :: "('t, 's) gcc \<Rightarrow> 't \<Rightarrow> 't \<Rightarrow> ('t, 's) ortho \<Rightarrow> ('t, 's) ortho run" where
  "new_type_decl g ident atype b =
     (let b = trees_update (set_link g TYPE_NAME atype (Some ident)) b;
          (decl, b) = tree_op (build_decl g (input_location b) TYPE_DECL (Some ident) (Some atype)) b;
          b = trees_update (set_link g TYPE_STUB_DECL atype (Some decl)) b
      in pushdecl g decl b)"

section \<open>Storage\<close>

datatype o_storage = o_storage_external | o_storage_public | o_storage_private | o_storage_local

text \<open>The flags for external, public and static\<close>

fun storage_flags :: "o_storage \<Rightarrow> bool \<times> bool \<times> bool" where
  "storage_flags o_storage_external = (True, True, False)"
| "storage_flags o_storage_public = (False, True, True)"
| "storage_flags o_storage_private = (False, False, True)"
| "storage_flags o_storage_local = (False, False, False)"

definition set_storage :: "('t, 's) gcc \<Rightarrow> 't \<Rightarrow> o_storage \<Rightarrow> 's \<Rightarrow> 's" where
  "set_storage g node storage s =
     (let (ext, pub, stat) = storage_flags storage;
          s = set_flag g DECL_EXTERNAL node ext s;
          s = set_flag g TREE_PUBLIC node pub s
      in set_flag g TREE_STATIC node stat s)"

definition rest_of_decl :: "('t, 's) gcc \<Rightarrow> 't \<Rightarrow> bool \<Rightarrow> ('t, 's) ortho \<Rightarrow> ('t, 's) ortho" where
  "rest_of_decl g decl top_level =
     trees_update (act g Rest_of_decl_compilation [Some decl] [if top_level then 1 else 0, 0])"

section \<open>Constants and variables\<close>

definition new_const_decl ::
  "('t, 's) gcc \<Rightarrow> 't \<Rightarrow> o_storage \<Rightarrow> 't \<Rightarrow> ('t, 's) ortho \<Rightarrow> ('t \<times> ('t, 's) ortho) run" where
  "new_const_decl g ident storage atype b =
     (let (cst, b) = tree_op (build_decl g (input_location b) VAR_DECL (Some ident) (Some atype)) b;
          b = trees_update (set_storage g cst storage) b;
          b = trees_update (set_flag g TREE_READONLY cst True) b
      in rbind (pushdecl g cst b) (\<lambda>b.
         case storage of
           o_storage_local \<Rightarrow> Crash Aborted
         | o_storage_external \<Rightarrow> Done (cst, rest_of_decl g cst (current_function_decl b = None) b)
         | o_storage_public \<Rightarrow> Done (cst, b)
         | o_storage_private \<Rightarrow> Done (cst, b)))"

definition finish_init_value :: "('t, 's) gcc \<Rightarrow> 't \<Rightarrow> 't \<Rightarrow> ('t, 's) ortho \<Rightarrow> ('t, 's) ortho" where
  "finish_init_value g decl val b =
     (let b = trees_update (set_link g DECL_INITIAL decl (Some val)) b;
          b = trees_update (set_flag g TREE_CONSTANT val True) b;
          b = trees_update (set_flag g TREE_STATIC decl True) b
      in rest_of_decl g decl (current_function_decl b = None) b)"

definition new_var_decl ::
  "('t, 's) gcc \<Rightarrow> 't \<Rightarrow> o_storage \<Rightarrow> 't \<Rightarrow> ('t, 's) ortho \<Rightarrow> ('t \<times> ('t, 's) ortho) run" where
  "new_var_decl g ident storage atype b =
     (let (var, b) = tree_op (build_decl g (input_location b) VAR_DECL (Some ident) (Some atype)) b;
          b = (if current_function_decl b \<noteq> None
               then let b = trees_update (set_flag g TREE_STATIC var False) b;
                        b = trees_update (set_flag g DECL_EXTERNAL var False) b
                    in trees_update (set_flag g TREE_PUBLIC var False) b
               else trees_update (set_storage g var storage) b)
      in rbind (pushdecl g var b) (\<lambda>b.
         Done (var, if current_function_decl b = None then rest_of_decl g var True b else b)))"

section \<open>Subprograms\<close>

record 't o_inter_list =
  il_ident :: 't
  il_storage :: o_storage
  il_rtype :: 't
  il_param_list :: "'t list_constr_type"
  il_param_chain :: "'t chain_constr_type"

definition start_function_decl :: "'t \<Rightarrow> o_storage \<Rightarrow> 't \<Rightarrow> 't o_inter_list" where
  "start_function_decl ident storage rtype =
     \<lparr>il_ident = ident, il_storage = storage, il_rtype = rtype, il_param_list = list_init, il_param_chain = chain_init\<rparr>"

definition start_procedure_decl :: "('t, 's) gcc \<Rightarrow> 't \<Rightarrow> o_storage \<Rightarrow> 't o_inter_list" where
  "start_procedure_decl g ident storage = start_function_decl ident storage (gcc_node g void_type_node)"

text \<open>
  The case of enumerations and booleans has no \<open>break\<close>: the assignment of \<open>integer_type_node\<close> is
  followed by that of the default case.
\<close>

definition set_arg_type :: "('t, 's) gcc \<Rightarrow> 't \<Rightarrow> 't \<Rightarrow> 's \<Rightarrow> 's" where
  "set_arg_type g r atype s =
     (let s = (if code_of g s atype \<in> {ENUMERAL_TYPE, BOOLEAN_TYPE}
               then set_link g DECL_ARG_TYPE r (Some (gcc_node g integer_type_node)) s else s)
      in set_link g DECL_ARG_TYPE r (Some atype) s)"

definition new_interface_decl ::
  "('t, 's) gcc \<Rightarrow> 't \<Rightarrow> 't \<Rightarrow> 't o_inter_list \<Rightarrow> ('t, 's) ortho \<Rightarrow> ('t \<times> 't o_inter_list \<times> ('t, 's) ortho) run" where
  "new_interface_decl g ident atype interfaces b =
     (let (r, b) = tree_op (build_decl g (input_location b) PARM_DECL (Some ident) (Some atype)) b;
          b = trees_update (set_arg_type g r atype) b;
          b = trees_update (act g Layout_decl [Some r] [0]) b
      in rbind (chain_append g r (il_param_chain interfaces) (trees b)) (\<lambda>(c, s).
         rbind (ortho_list_append g atype (il_param_list interfaces) s) (\<lambda>(l, s).
         Done (r, interfaces\<lparr>il_param_chain := c, il_param_list := l\<rparr>, b\<lparr>trees := s\<rparr>))))"

text \<open>The loop that sets the context of the parameters\<close>

fun set_contexts :: "('t, 's) gcc \<Rightarrow> nat \<Rightarrow> 't \<Rightarrow> 't option \<Rightarrow> 's \<Rightarrow> 's run" where
  "set_contexts g _ decl None s = Done s"
| "set_contexts g 0 decl (Some parm) s = Crash No_return"
| "set_contexts g (Suc n) decl (Some parm) s =
     (let s = set_link g DECL_CONTEXT parm (Some decl) s in set_contexts g n decl (link_of g s TREE_CHAIN parm) s)"

definition set_all_contexts :: "('t, 's) gcc \<Rightarrow> 't \<Rightarrow> 't option \<Rightarrow> 's \<Rightarrow> 's run" where
  "set_all_contexts g decl parm s = set_contexts g (length (tree_nodes g s)) decl parm s"

text \<open>The declaration with its flags\<close>

definition subprogram_flags :: "('t, 's) gcc \<Rightarrow> 't \<Rightarrow> bool \<Rightarrow> o_storage \<Rightarrow> 's \<Rightarrow> 's" where
  "subprogram_flags g decl is_global storage s =
     (let s = (if is_global then set_storage g decl storage s
               else set_flag g TREE_PUBLIC decl False (set_flag g DECL_EXTERNAL decl False s));
          s = set_flag g TREE_STATIC decl True s;
          s = set_link g DECL_INITIAL decl (Some (gcc_node g error_mark_node)) s
      in set_flag g TREE_ADDRESSABLE decl True s)"

definition finish_subprogram_decl ::
  "('t, 's) gcc \<Rightarrow> 't o_inter_list \<Rightarrow> ('t, 's) ortho \<Rightarrow> ('t \<times> ('t, 's) ortho) run" where
  "finish_subprogram_decl g interfaces b =
     rbind (ortho_list_append g (gcc_node g void_type_node) (il_param_list interfaces) (trees b)) (\<lambda>(l, s).
     let b = b\<lparr>trees := s\<rparr>;
         (ftype, b) = tree_op (call g Build_function_type [Some (il_rtype interfaces), list_first l] []) b;
         (decl, b) = tree_op (build_decl g (input_location b) FUNCTION_DECL (Some (il_ident interfaces)) (Some ftype)) b;
         b = trees_update (set_num g DECL_SOURCE_LOCATION decl (input_location b)) b;
         is_global = (current_function_decl b = None \<or> il_storage interfaces = o_storage_external);
         b = trees_update (subprogram_flags g decl is_global (il_storage interfaces)) b;
         (result, b) = tree_op (build_decl g (input_location b) RESULT_DECL None (Some (il_rtype interfaces))) b;
         b = trees_update (set_link g DECL_RESULT decl (Some result)) b;
         b = trees_update (set_link g DECL_CONTEXT result (Some decl)) b;
         b = trees_update (set_link g DECL_ARGUMENTS decl (chain_first (il_param_chain interfaces))) b
     in rbind (set_all_contexts g decl (chain_first (il_param_chain interfaces)) (trees b)) (\<lambda>s.
        rbind (pushdecl g decl (b\<lparr>trees := s\<rparr>)) (\<lambda>b.
        let b = (if il_storage interfaces = o_storage_external
                 then trees_update (set_link g DECL_CONTEXT decl None) b else b)
        in Done (decl, if is_global then rest_of_decl g decl True b else b))))"

definition start_subprogram_body :: "('t, 's) gcc \<Rightarrow> 't \<Rightarrow> ('t, 's) ortho \<Rightarrow> ('t, 's) ortho run" where
  "start_subprogram_body g func b =
     rbind (gcc_assert (current_function_decl b = link_of g (trees b) DECL_CONTEXT func)) (\<lambda>_.
     let b = b\<lparr>current_function_decl := Some func\<rparr>;
         b = trees_update (set_flag g DECL_EXTERNAL func False) b
     in push_binding g FUNCTION_BINDING b)"

definition finish_subprogram_body :: "('t, 's) gcc \<Rightarrow> ('t, 's) ortho \<Rightarrow> ('t, 's) ortho run" where
  "finish_subprogram_body g b =
     rbind (pop_binding g b) (\<lambda>(bnd, b).
     rbind (deref (current_function_decl b)) (\<lambda>func.
     let b = trees_update (set_link g DECL_INITIAL func (link_of g (trees b) BIND_EXPR_BLOCK bnd)) b;
         b = trees_update (set_link g DECL_SAVED_TREE func (Some bnd)) b;
         b = trees_update (act g Allocate_struct_function [Some func] [0]) b;
         b = trees_update (act g Set_function_end_locus [] [input_location b]) b;
         parent = link_of g (trees b) DECL_CONTEXT func;
         b = (if parent \<noteq> None then trees_update (act g Cgraph_get_create [Some func] []) b
              else trees_update (act g Cgraph_finalize_function [Some func] [0]) b);
         b = b\<lparr>current_function_decl := parent\<rparr>
     in Done (trees_update (act g Set_cfun [None] []) b)))"

end
