(* ===== verification/Ortho_Stmts.thy ===== *)
theory Ortho_Stmts
  imports Ortho_Decls
begin

text \<open>
  Statements of \<open>ortho-lang-7.c\<close>: calls, assignments, returns, and the structured statements, which are
  opened and closed by calls of their own.
\<close>

abbreviation void_type :: "('t, 's) gcc \<Rightarrow> 't option" where
  "void_type g \<equiv> Some (gcc_node g void_type_node)"

section \<open>Lines and blocks\<close>

definition new_debug_line_stmt :: "('t, 's) gcc \<Rightarrow> int \<Rightarrow> ('t, 's) ortho \<Rightarrow> ('t, 's) ortho" where
  "new_debug_line_stmt g line b =
     (let (l, b) = tree_op (linemap_line_start g line) b in b\<lparr>input_location := l\<rparr>)"

definition start_declare_stmt :: "('t, 's) gcc \<Rightarrow> ('t, 's) ortho \<Rightarrow> ('t, 's) ortho run" where
  "start_declare_stmt g b = push_binding g LOCAL_BINDING b"

definition finish_declare_stmt :: "('t, 's) gcc \<Rightarrow> ('t, 's) ortho \<Rightarrow> ('t, 's) ortho run" where
  "finish_declare_stmt g b = rbind (pop_binding g b) (\<lambda>(bnd, b). Done (append_stmt g bnd b))"

section \<open>Calls\<close>

record 't o_assoc_list =
  subprg :: 't
  vecptr :: "'t list"

definition start_association :: "'t \<Rightarrow> 't o_assoc_list" where
  "start_association subprg1 = \<lparr>subprg = subprg1, vecptr = []\<rparr>"

definition new_association :: "'t \<Rightarrow> 't o_assoc_list \<Rightarrow> 't o_assoc_list" where
  "new_association val assocs = assocs\<lparr>vecptr := vecptr assocs @ [val]\<rparr>"

definition new_function_call :: "('t, 's) gcc \<Rightarrow> 't o_assoc_list \<Rightarrow> ('t, 's) ortho \<Rightarrow> ('t \<times> ('t, 's) ortho) run" where
  "new_function_call g assocs b =
     rbind (deref (link_of g (trees b) TREE_TYPE (subprg assocs))) (\<lambda>ftype.
     let rtype = link_of g (trees b) TREE_TYPE ftype;
         (p, b) = build_function_ptr g (subprg assocs) b
     in Done (tree_op (call g Build_call_vec (rtype # Some p # map Some (vecptr assocs)) []) b))"

definition new_procedure_call :: "('t, 's) gcc \<Rightarrow> 't o_assoc_list \<Rightarrow> ('t, 's) ortho \<Rightarrow> ('t, 's) ortho run" where
  "new_procedure_call g assocs b =
     rbind (new_function_call g assocs b) (\<lambda>(res, b).
     Done (append_stmt g res (trees_update (set_flag g TREE_SIDE_EFFECTS res True) b)))"

section \<open>Assignments and returns\<close>

definition new_assign_stmt :: "('t, 's) gcc \<Rightarrow> 't \<Rightarrow> 't \<Rightarrow> ('t, 's) ortho \<Rightarrow> ('t, 's) ortho" where
  "new_assign_stmt g target1 value b =
     (let (n, b) = tree_op (build g MODIFY_EXPR (link_of g (trees b) TREE_TYPE target1) [Some target1, Some value]) b;
          b = trees_update (set_flag g TREE_SIDE_EFFECTS n True) b
      in append_stmt g n b)"

definition new_func_return_stmt :: "('t, 's) gcc \<Rightarrow> 't \<Rightarrow> ('t, 's) ortho \<Rightarrow> ('t, 's) ortho run" where
  "new_func_return_stmt g value b =
     rbind (deref (current_function_decl b)) (\<lambda>func.
     let res = link_of g (trees b) DECL_RESULT func;
         (assign, b) = tree_op (build g MODIFY_EXPR (link_of g (trees b) TREE_TYPE value) [res, Some value]) b;
         b = trees_update (set_flag g TREE_SIDE_EFFECTS assign True) b;
         (stmt, b) = tree_op (build g RETURN_EXPR (void_type g) [Some assign]) b;
         b = trees_update (set_flag g TREE_SIDE_EFFECTS stmt True) b
     in Done (append_stmt g stmt b))"

definition new_proc_return_stmt :: "('t, 's) gcc \<Rightarrow> ('t, 's) ortho \<Rightarrow> ('t, 's) ortho" where
  "new_proc_return_stmt g b =
     (let (stmt, b) = tree_op (build g RETURN_EXPR (void_type g) [None]) b;
          b = trees_update (set_flag g TREE_SIDE_EFFECTS stmt True) b
      in append_stmt g stmt b)"

section \<open>Conditional statements\<close>

record 't o_if_block =
  if_prev_stmts :: "'t option"
  if_stmt :: 't

definition start_if_stmt :: "('t, 's) gcc \<Rightarrow> 't \<Rightarrow> ('t, 's) ortho \<Rightarrow> 't o_if_block \<times> ('t, 's) ortho" where
  "start_if_stmt g cond b =
     (let (stmts, b) = tree_op (alloc_stmt_list g) b;
          (stmt, b) = tree_op (build g COND_EXPR (void_type g) [Some cond, Some stmts, None]) b;
          b = append_stmt g stmt b
      in (\<lparr>if_prev_stmts = cur_stmts b, if_stmt = stmt\<rparr>, b\<lparr>cur_stmts := Some stmts\<rparr>))"

definition new_else_stmt :: "('t, 's) gcc \<Rightarrow> 't o_if_block \<Rightarrow> ('t, 's) ortho \<Rightarrow> ('t, 's) ortho" where
  "new_else_stmt g blk b =
     (let (stmts, b) = tree_op (alloc_stmt_list g) b;
          b = b\<lparr>cur_stmts := Some stmts\<rparr>
      in trees_update (set_link g COND_EXPR_ELSE (if_stmt blk) (cur_stmts b)) b)"

definition finish_if_stmt :: "'t o_if_block \<Rightarrow> ('t, 's) ortho \<Rightarrow> ('t, 's) ortho" where
  "finish_if_stmt blk b = b\<lparr>cur_stmts := if_prev_stmts blk\<rparr>"

section \<open>Loops\<close>

record 't o_snode =
  beg_label :: 't
  end_label :: 't

definition build_label :: "('t, 's) gcc \<Rightarrow> ('t, 's) ortho \<Rightarrow> 't \<times> ('t, 's) ortho" where
  "build_label g b =
     (let (res, b) = tree_op (build_decl g (input_location b) LABEL_DECL None (void_type g)) b;
          b = trees_update (set_link g DECL_CONTEXT res (current_function_decl b)) b
      in (res, trees_update (set_flag g DECL_ARTIFICIAL res True) b))"

definition start_loop_stmt :: "('t, 's) gcc \<Rightarrow> ('t, 's) ortho \<Rightarrow> 't o_snode \<times> ('t, 's) ortho" where
  "start_loop_stmt g b =
     (let (beg, b) = build_label g b;
          (stmt, b) = tree_op (build g LABEL_EXPR (void_type g) [Some beg]) b;
          b = append_stmt g stmt b;
          (fin, b) = build_label g b
      in (\<lparr>beg_label = beg, end_label = fin\<rparr>, b))"

definition finish_loop_stmt :: "('t, 's) gcc \<Rightarrow> 't o_snode \<Rightarrow> ('t, 's) ortho \<Rightarrow> ('t, 's) ortho" where
  "finish_loop_stmt g label b =
     (let (stmt, b) = tree_op (build g GOTO_EXPR (void_type g) [Some (beg_label label)]) b;
          b = trees_update (set_flag g TREE_USED (beg_label label) True) b;
          b = append_stmt g stmt b
      in if flag_of g (trees b) TREE_USED (end_label label)
         then let (stmt, b) = tree_op (build g LABEL_EXPR (void_type g) [Some (end_label label)]) b
              in append_stmt g stmt b
         else b)"

definition new_exit_stmt :: "('t, 's) gcc \<Rightarrow> 't o_snode \<Rightarrow> ('t, 's) ortho \<Rightarrow> ('t, 's) ortho" where
  "new_exit_stmt g l b =
     (let (stmt, b) = tree_op (build g GOTO_EXPR (void_type g) [Some (end_label l)]) b;
          b = append_stmt g stmt b
      in trees_update (set_flag g TREE_USED (end_label l) True) b)"

definition new_next_stmt :: "('t, 's) gcc \<Rightarrow> 't o_snode \<Rightarrow> ('t, 's) ortho \<Rightarrow> ('t, 's) ortho" where
  "new_next_stmt g l b =
     (let (stmt, b) = tree_op (build g GOTO_EXPR (void_type g) [Some (beg_label l)]) b;
          b = trees_update (set_flag g TREE_USED (beg_label l) True) b
      in append_stmt g stmt b)"

section \<open>Case statements\<close>

record 't o_case_block =
  case_prev_stmts :: "'t option"
  case_type :: "'t option"
  case_end_label :: 't
  add_break :: bool

definition start_case_stmt :: "('t, 's) gcc \<Rightarrow> 't \<Rightarrow> ('t, 's) ortho \<Rightarrow> 't o_case_block \<times> ('t, 's) ortho" where
  "start_case_stmt g value b =
     (let prev = cur_stmts b;
          ty = link_of g (trees b) TREE_TYPE value;
          (fin, b) = build_label g b;
          (stmts, b) = tree_op (alloc_stmt_list g) b;
          (stmt, b) = tree_op (build g SWITCH_EXPR ty [Some value, Some stmts, None]) b;
          b = append_stmt g stmt b
      in (\<lparr>case_prev_stmts = prev, case_type = ty, case_end_label = fin, add_break = False\<rparr>,
          b\<lparr>cur_stmts := Some stmts\<rparr>))"

definition start_choice :: "('t, 's) gcc \<Rightarrow> 't o_case_block \<Rightarrow> ('t, 's) ortho \<Rightarrow> 't o_case_block \<times> ('t, 's) ortho" where
  "start_choice g blk b =
     (if add_break blk
      then let (stmt, b) = tree_op (build g GOTO_EXPR (case_type blk) [Some (case_end_label blk)]) b
           in (blk\<lparr>add_break := False\<rparr>, append_stmt g stmt b)
      else (blk, b))"

text \<open>The three kinds of choices: a value, a range and the default\<close>

definition append_case_label :: "('t, 's) gcc \<Rightarrow> 't option \<Rightarrow> 't option \<Rightarrow> ('t, 's) ortho \<Rightarrow> ('t, 's) ortho" where
  "append_case_label g low high b =
     (let (l, b) = tree_op (call g Create_artificial_label [] [input_location b]) b;
          (stmt, b) = tree_op (call g Build_case_label [low, high, Some l] []) b
      in append_stmt g stmt b)"

definition new_expr_choice :: "('t, 's) gcc \<Rightarrow> 't \<Rightarrow> ('t, 's) ortho \<Rightarrow> ('t, 's) ortho" where
  "new_expr_choice g expr = append_case_label g (Some expr) None"

definition new_range_choice :: "('t, 's) gcc \<Rightarrow> 't \<Rightarrow> 't \<Rightarrow> ('t, 's) ortho \<Rightarrow> ('t, 's) ortho" where
  "new_range_choice g low high = append_case_label g (Some low) (Some high)"

definition new_default_choice :: "('t, 's) gcc \<Rightarrow> ('t, 's) ortho \<Rightarrow> ('t, 's) ortho" where
  "new_default_choice g = append_case_label g None None"

definition finish_choice :: "'t o_case_block \<Rightarrow> 't o_case_block" where
  "finish_choice blk = blk\<lparr>add_break := True\<rparr>"

definition finish_case_stmt :: "('t, 's) gcc \<Rightarrow> 't o_case_block \<Rightarrow> ('t, 's) ortho \<Rightarrow> ('t, 's) ortho" where
  "finish_case_stmt g blk b =
     (let b = b\<lparr>cur_stmts := case_prev_stmts blk\<rparr>;
          (stmt, b) = tree_op (build g LABEL_EXPR (void_type g) [Some (case_end_label blk)]) b
      in append_stmt g stmt b)"

end
