(* ===== verification/Ortho_Laws.thy ===== *)
theory Ortho_Laws
  imports Ortho_Stmts
begin

text \<open>
  The behaviour of GCC as rules: what a field holds after an assignment, what a new node is, and what a
  function leaves as it was. A store of nodes with these properties shows that they can hold.
\<close>

section \<open>Fields\<close>

named_theorems gcc_simps

lemma set_link_simps [gcc_simps]:
  assumes "gcc_ok g"
  shows "alive g (set_link g f t v s) = alive g s"
    and "code_of g (set_link g f t v s) = code_of g s"
    and "link_of g (set_link g f t v s) f' t' = (if f' = f \<and> t' = t then v else link_of g s f' t')"
    and "flag_of g (set_link g f t v s) = flag_of g s"
    and "num_of g (set_link g f t v s) = num_of g s"
    and "stmts_of g (set_link g f t v s) = stmts_of g s"
  using assms by (simp_all add: gcc_ok_def fields_ok_def fun_eq_iff)

lemma set_flag_simps [gcc_simps]:
  assumes "gcc_ok g"
  shows "alive g (set_flag g f t v s) = alive g s"
    and "code_of g (set_flag g f t v s) = code_of g s"
    and "link_of g (set_flag g f t v s) = link_of g s"
    and "flag_of g (set_flag g f t v s) f' t' = (if f' = f \<and> t' = t then v else flag_of g s f' t')"
    and "num_of g (set_flag g f t v s) = num_of g s"
    and "stmts_of g (set_flag g f t v s) = stmts_of g s"
  using assms by (simp_all add: gcc_ok_def fields_ok_def fun_eq_iff)

lemma set_num_simps [gcc_simps]:
  assumes "gcc_ok g"
  shows "alive g (set_num g f t v s) = alive g s"
    and "code_of g (set_num g f t v s) = code_of g s"
    and "link_of g (set_num g f t v s) = link_of g s"
    and "flag_of g (set_num g f t v s) = flag_of g s"
    and "num_of g (set_num g f t v s) f' t' = (if f' = f \<and> t' = t then v else num_of g s f' t')"
    and "stmts_of g (set_num g f t v s) = stmts_of g s"
  using assms by (simp_all add: gcc_ok_def fields_ok_def fun_eq_iff)

section \<open>New nodes\<close>

lemma new_treeD:
  assumes "new_tree g s c (t, s')"
  shows "\<not> alive g s t" "alive g s' t' \<longleftrightarrow> t' = t \<or> alive g s t'"
    and "code_of g s' t = c" "link_of g s' BLOCK_CHAIN t = None" "\<not> flag_of g s' TREE_USED t" "stmts_of g s' t = []"
    and "t' \<noteq> t \<Longrightarrow> code_of g s' t' = code_of g s t'" "t' \<noteq> t \<Longrightarrow> link_of g s' f t' = link_of g s f t'"
    and "t' \<noteq> t \<Longrightarrow> flag_of g s' fl t' = flag_of g s fl t'" "t' \<noteq> t \<Longrightarrow> num_of g s' n t' = num_of g s n t'"
    and "t' \<noteq> t \<Longrightarrow> stmts_of g s' t' = stmts_of g s t'"
  using assms by (auto simp: new_tree_def same_node_def)

lemma make_node_new: "gcc_ok g \<Longrightarrow> make_node g c s = (t, s') \<Longrightarrow> new_tree g s c (t, s')"
  by (simp add: gcc_ok_def makers_ok_def) metis

lemma build_new:
  assumes "gcc_ok g" and "build g c ty ops s = (t, s')"
  shows "new_tree g s c (t, s')" "link_of g s' TREE_TYPE t = ty"
    and "i < length ops \<Longrightarrow> link_of g s' (TREE_OPERAND i) t = ops ! i"
  using assms by (auto simp: gcc_ok_def makers_ok_def dest!: spec[of _ c] spec[of _ ty] spec[of _ ops] spec[of _ s])

lemma build_decl_new:
  assumes "gcc_ok g" and "build_decl g l c n ty s = (t, s')"
  shows "new_tree g s c (t, s')" "link_of g s' DECL_NAME t = n" "link_of g s' TREE_TYPE t = ty"
    and "link_of g s' TREE_CHAIN t = None"
proof -
  have *: "new_tree g s c (build_decl g l c n ty s) \<and>
     (let (t, s') = build_decl g l c n ty s in
      link_of g s' DECL_NAME t = n \<and> link_of g s' TREE_TYPE t = ty \<and> link_of g s' TREE_CHAIN t = None)"
    using assms(1) unfolding gcc_ok_def makers_ok_def by blast
  show "new_tree g s c (t, s')" "link_of g s' DECL_NAME t = n" "link_of g s' TREE_TYPE t = ty"
    "link_of g s' TREE_CHAIN t = None"
    using * assms(2) by auto
qed

lemma tree_cons_new:
  assumes "gcc_ok g" and "tree_cons g p v n s = (t, s')"
  shows "new_tree g s TREE_LIST (t, s')" "link_of g s' TREE_PURPOSE t = p" "link_of g s' TREE_VALUE t = v"
    and "link_of g s' TREE_CHAIN t = n"
proof -
  have *: "new_tree g s TREE_LIST (tree_cons g p v n s) \<and>
     (let (t, s') = tree_cons g p v n s in
      link_of g s' TREE_PURPOSE t = p \<and> link_of g s' TREE_VALUE t = v \<and> link_of g s' TREE_CHAIN t = n)"
    using assms(1) unfolding gcc_ok_def makers_ok_def by blast
  show "new_tree g s TREE_LIST (t, s')" "link_of g s' TREE_PURPOSE t = p" "link_of g s' TREE_VALUE t = v"
    "link_of g s' TREE_CHAIN t = n"
    using * assms(2) by auto
qed

lemma alloc_stmt_list_new: "gcc_ok g \<Longrightarrow> alloc_stmt_list g s = (t, s') \<Longrightarrow> new_tree g s STATEMENT_LIST (t, s')"
  by (simp add: gcc_ok_def makers_ok_def) metis

lemma call_vec_new:
  assumes "gcc_ok g" and "call g Build_call_vec (ty # f # as) [] s = (t, s')"
  shows "new_tree g s CALL_EXPR (t, s')" "link_of g s' TREE_TYPE t = ty" "link_of g s' (TREE_OPERAND 1) t = f"
    and "i < length as \<Longrightarrow> link_of g s' (TREE_OPERAND (3 + i)) t = as ! i"
proof -
  have *: "let (t, s') = call g Build_call_vec (ty # f # as) [] s in
        new_tree g s CALL_EXPR (t, s') \<and> link_of g s' TREE_TYPE t = ty \<and> link_of g s' (TREE_OPERAND 1) t = f \<and>
        (\<forall>i < length as. link_of g s' (TREE_OPERAND (3 + i)) t = as ! i)"
    using assms(1) unfolding gcc_ok_def calls_ok_def by blast
  show "new_tree g s CALL_EXPR (t, s')" "link_of g s' TREE_TYPE t = ty" "link_of g s' (TREE_OPERAND 1) t = f"
    "i < length as \<Longrightarrow> link_of g s' (TREE_OPERAND (3 + i)) t = as ! i"
    using * assms(2) by auto
qed

lemma case_label_new:
  assumes "gcc_ok g" and "call g Build_case_label [low, high, l] [] s = (t, s')"
  shows "new_tree g s CASE_LABEL_EXPR (t, s')" "link_of g s' (TREE_OPERAND 0) t = low"
    and "link_of g s' (TREE_OPERAND (Suc 0)) t = high" "link_of g s' (TREE_OPERAND 2) t = l"
proof -
  have *: "let (t, s') = call g Build_case_label [low, high, l] [] s in
        new_tree g s CASE_LABEL_EXPR (t, s') \<and> link_of g s' (TREE_OPERAND 0) t = low \<and>
        link_of g s' (TREE_OPERAND 1) t = high \<and> link_of g s' (TREE_OPERAND 2) t = l"
    using assms(1) unfolding gcc_ok_def calls_ok_def by blast
  show "new_tree g s CASE_LABEL_EXPR (t, s')" "link_of g s' (TREE_OPERAND 0) t = low"
    "link_of g s' (TREE_OPERAND (Suc 0)) t = high" "link_of g s' (TREE_OPERAND 2) t = l"
    using * assms(2) by auto
qed

lemma call_expr_new:
  assumes "gcc_ok g" and "call g Build_call_expr (f # as) [] s = (t, s')"
  shows "\<not> alive g s t" "code_of g s' t = CALL_EXPR" "flag_of g s' TREE_SIDE_EFFECTS t"
    and "i < length as \<Longrightarrow> link_of g s' (TREE_OPERAND (3 + i)) t = as ! i"
proof -
  have *: "let (t, s') = call g Build_call_expr (f # as) [] s in
        \<not> alive g s t \<and> code_of g s' t = CALL_EXPR \<and> flag_of g s' TREE_SIDE_EFFECTS t \<and>
        (\<forall>i < length as. link_of g s' (TREE_OPERAND (3 + i)) t = as ! i)"
    using assms(1) unfolding gcc_ok_def calls_ok_def by blast
  show "\<not> alive g s t" "code_of g s' t = CALL_EXPR" "flag_of g s' TREE_SIDE_EFFECTS t"
    "i < length as \<Longrightarrow> link_of g s' (TREE_OPERAND (3 + i)) t = as ! i"
    using * assms(2) by auto
qed

lemma call_expr_function:
  assumes "builtins_ok g" and "call g Build_call_expr (f # as) [] s = (t, s')"
  shows "\<exists>a. link_of g s' (TREE_OPERAND 1) t = Some a \<and> alive g s' a \<and>
    code_of g s' a = ADDR_EXPR \<and> link_of g s' (TREE_OPERAND 0) a = f"
proof -
  have "let (t, s') = call g Build_call_expr (f # as) [] s in
      \<exists>a. link_of g s' (TREE_OPERAND 1) t = Some a \<and> alive g s' a \<and>
        code_of g s' a = ADDR_EXPR \<and> link_of g s' (TREE_OPERAND 0) a = f"
    using assms(1) unfolding builtins_ok_def by blast
  with assms(2) show ?thesis by auto
qed

lemma builtin_decl_function:
  assumes "builtins_ok g" and "call g (Builtin_decl_implicit f) [] [] s = (t, s')"
  shows "code_of g s' t = FUNCTION_DECL" "num_of g s' DECL_FUNCTION_CODE t = built_in_number f"
proof -
  have *: "let (t, s') = call g (Builtin_decl_implicit f) [] [] s in
        code_of g s' t = FUNCTION_DECL \<and> num_of g s' DECL_FUNCTION_CODE t = built_in_number f"
    using assms(1) unfolding builtins_ok_def by blast
  show "code_of g s' t = FUNCTION_DECL" "num_of g s' DECL_FUNCTION_CODE t = built_in_number f"
    using * assms(2) by auto
qed

lemma call_extends:
  assumes "gcc_ok g" and "call g f ts ns s = (t, s')"
  shows "extends g s s'" "alive g s' t"
  using assms unfolding gcc_ok_def calls_ok_def by (metis (mono_tags, lifting) case_prodD)+

lemma act_keeps:
  assumes "gcc_ok g" and "alive g s t"
  shows "alive g (act g a ts ns s) t" "code_of g (act g a ts ns s) t = code_of g s t"
    and "\<not> layout_field f \<Longrightarrow> link_of g (act g a ts ns s) f t = link_of g s f t"
    and "stmts_of g (act g a ts ns s) t = stmts_of g s t"
  using assms by (simp_all add: gcc_ok_def actions_ok_def)

lemma append_to_statement_list_Some:
  assumes "gcc_ok g" "code_of g s t \<noteq> STATEMENT_LIST" "flag_of g s TREE_SIDE_EFFECTS t"
    and "code_of g s l = STATEMENT_LIST"
  obtains s' where "append_to_statement_list g t (Some l) s = (Some l, s')"
    and "alive g s' = alive g s" "code_of g s' = code_of g s" "link_of g s' = link_of g s" "num_of g s' = num_of g s"
    and "\<And>f t'. f \<noteq> TREE_SIDE_EFFECTS \<or> t' \<noteq> l \<Longrightarrow> flag_of g s' f t' = flag_of g s f t'"
    and "stmts_of g s' = (stmts_of g s)(l := stmts_of g s l @ [t])"
proof -
  obtain p s' where a: "append_to_statement_list g t (Some l) s = (p, s')" by fastforce
  have "let (p, s') = append_to_statement_list g t (Some l) s in
         p = Some l \<and>
         (\<forall>t'. alive g s' t' = alive g s t' \<and> code_of g s' t' = code_of g s t' \<and>
            (\<forall>f. link_of g s' f t' = link_of g s f t') \<and> (\<forall>f. num_of g s' f t' = num_of g s f t') \<and>
            (\<forall>f. f \<noteq> TREE_SIDE_EFFECTS \<or> t' \<noteq> l \<longrightarrow> flag_of g s' f t' = flag_of g s f t') \<and>
            stmts_of g s' t' = (if t' = l then stmts_of g s l @ [t] else stmts_of g s t'))"
    using assms unfolding gcc_ok_def statements_ok_def by blast
  with a show thesis by (intro that [of s']) (auto simp: fun_eq_iff)
qed

end
