(* ===== verification/Ortho_Chains.thy ===== *)
theory Ortho_Chains
  imports Ortho_Laws
begin

text \<open>
  Chains of nodes: the fields of a record, the literals of an enumeration, the parameters of a
  subprogram and their types, the declarations and the blocks of a binding level are all linked in the
  same way, by functions that share a contract.
\<close>

primrec chain :: "('t, 's) gcc \<Rightarrow> 's \<Rightarrow> tree_field \<Rightarrow> 't option \<Rightarrow> 't list \<Rightarrow> bool" where
  "chain g s f p [] \<longleftrightarrow> p = None"
| "chain g s f p (x # xs) \<longleftrightarrow> p = Some x \<and> chain g s f (link_of g s f x) xs"

text \<open>A chain with its first and its last element\<close>

definition built :: "('t, 's) gcc \<Rightarrow> 's \<Rightarrow> tree_field \<Rightarrow> 't option \<times> 't option \<Rightarrow> 't list \<Rightarrow> bool" where
  "built g s f e xs \<longleftrightarrow> chain g s f (fst e) xs \<and> distinct xs \<and>
     snd e = (if xs = [] then None else Some (last xs))"

lemma chain_cong:
  "(\<And>x. x \<in> set xs \<Longrightarrow> link_of g' s' f' x = link_of g s f x) \<Longrightarrow> chain g' s' f' p xs = chain g s f p xs"
  by (induction xs arbitrary: p) auto

lemma built_cong:
  "(\<And>x. x \<in> set xs \<Longrightarrow> link_of g s' f x = link_of g s f x) \<Longrightarrow> built g s' f e xs = built g s f e xs"
  using chain_cong [of xs g s' f g s f] by (auto simp: built_def)

lemma chain_append_last:
  assumes "gcc_ok g" "chain g s f p xs" "xs \<noteq> []" "distinct xs" "el \<notin> set xs" "link_of g s f el = None"
  shows "chain g (set_link g f (last xs) (Some el) s) f p (xs @ [el])"
  using assms(2-)
proof (induction xs arbitrary: p)
  case (Cons x xs)
  show ?case
  proof (cases "xs = []")
    case True
    with Cons.prems show ?thesis by (auto simp: set_link_simps [OF assms(1)])
  next
    case False
    have "last xs \<noteq> x" using False Cons.prems(3) by auto
    with False Cons show ?thesis by (auto simp: set_link_simps [OF assms(1)])
  qed
qed simp

lemma built_Nil [simp]: "built g s f (None, None) []"
  by (simp add: built_def)

text \<open>A chain is not longer than there are nodes.\<close>

lemma chain_length_nodes:
  assumes "distinct ds" "\<And>d. d \<in> set ds \<Longrightarrow> alive g s d"
  shows "length ds \<le> length (tree_nodes g s)"
proof -
  have "length ds = card (set ds)" using assms(1) by (simp add: distinct_card)
  also have "\<dots> \<le> card (set (tree_nodes g s))" by (rule card_mono) (use assms(2) in \<open>auto simp: alive_def\<close>)
  finally show ?thesis using card_length [of "tree_nodes g s"] by simp
qed

text \<open>
  The contract of a function that appends an element: an empty chain becomes one of this element, and
  otherwise the last element is linked to it.
\<close>

locale chain_builder =
  fixes g :: "('t, 's) gcc" and f :: tree_field
    and ends :: "'c \<Rightarrow> 't option \<times> 't option"
    and append :: "'t \<Rightarrow> 'c \<Rightarrow> 's \<Rightarrow> ('c \<times> 's) run"
  assumes append_first: "ends c = (None, None) \<Longrightarrow> \<exists>c'. append el c s = Done (c', s) \<and> ends c' = (Some el, Some el)"
    and append_next: "ends c = (Some p, Some q) \<Longrightarrow>
      \<exists>c'. append el c s = Done (c', set_link g f q (Some el) s) \<and> ends c' = (Some p, Some el)"
begin

lemma append_built:
  assumes "gcc_ok g" "built g s f (ends c) xs" "el \<notin> set xs" "link_of g s f el = None"
  obtains c' s' where "append el c s = Done (c', s')" "built g s' f (ends c') (xs @ [el])"
    and "s' = (if xs = [] then s else set_link g f (last xs) (Some el) s)"
proof (cases xs)
  case Nil
  then have "ends c = (None, None)" using assms(2) by (auto simp: built_def prod_eq_iff)
  with append_first [of c el s] Nil assms show thesis by (auto simp: built_def intro: that)
next
  case (Cons x ys)
  then have "ends c = (Some x, Some (last xs))" using assms(2) by (auto simp: built_def prod_eq_iff)
  from append_next [OF this, of el s] obtain c' where
    "append el c s = Done (c', set_link g f (last xs) (Some el) s)" "ends c' = (Some x, Some el)" by auto
  moreover have "chain g (set_link g f (last xs) (Some el) s) f (Some x) (xs @ [el])"
    using chain_append_last [OF assms(1) _ _ _ assms(3,4), of "Some x"] assms(2) Cons by (auto simp: built_def)
  ultimately show thesis using assms(2,3) Cons by (intro that) (auto simp: built_def)
qed

end

interpretation fields: chain_builder g TREE_CHAIN "\<lambda>c. (chain_first c, chain_last c)" "chain_append g" for g
  by unfold_locales (auto simp: chain_append_def gcc_assert_def)

interpretation param_types: chain_builder g TREE_CHAIN "\<lambda>c. (list_first c, list_last c)" "list_link g" for g
  by unfold_locales (auto simp: list_link_def)

interpretation decls: chain_builder g TREE_CHAIN "\<lambda>c. (first_decl c, last_decl c)" "chain_decl g" for g
  by unfold_locales (auto simp: chain_decl_def link_last_def)

interpretation blocks: chain_builder g BLOCK_CHAIN "\<lambda>c. (first_block c, last_block c)" "chain_block g" for g
  by unfold_locales (auto simp: chain_block_def link_last_def)

end
