(* ===== verification/Ortho_Emit.thy ===== *)
theory Ortho_Emit
  imports Ortho_Chains
begin

text \<open>
  Structured programs: how a front end drives the statements of \<open>ortho-lang-7.c\<close>, and the trees that
  these make of a program.
\<close>

section \<open>Programs and their emission\<close>

text \<open>The loop that is left or continued is given by the number of loops in between.\<close>

datatype 't choice = Expr_Choice 't | Range_Choice 't 't | Default_Choice

datatype 't stmt =
    Assign 't 't
  | Proc_Call 't "'t list"
  | Return_Value 't
  | Return
  | If_Then 't "'t stmt list"
  | If_Else 't "'t stmt list" "'t stmt list"
  | Loop "'t stmt list"
  | Exit nat
  | Continue nat
  | Case 't "('t choice list \<times> 't stmt list) list"
  | Declare "('t \<times> 't) list" "'t stmt list"

fun emit_choice :: "('t, 's) gcc \<Rightarrow> 't choice \<Rightarrow> ('t, 's) ortho \<Rightarrow> ('t, 's) ortho" where
  "emit_choice g (Expr_Choice e) b = new_expr_choice g e b"
| "emit_choice g (Range_Choice low high) b = new_range_choice g low high b"
| "emit_choice g Default_Choice b = new_default_choice g b"

fun declare_vars :: "('t, 's) gcc \<Rightarrow> ('t \<times> 't) list \<Rightarrow> ('t, 's) ortho \<Rightarrow> ('t, 's) ortho run" where
  "declare_vars g [] b = Done b"
| "declare_vars g ((ident, atype) # vs) b =
     rbind (new_var_decl g ident o_storage_local atype b) (\<lambda>(_, b). declare_vars g vs b)"

fun emit :: "('t, 's) gcc \<Rightarrow> 't o_snode list \<Rightarrow> 't stmt \<Rightarrow> ('t, 's) ortho \<Rightarrow> ('t, 's) ortho run"
and emit_all :: "('t, 's) gcc \<Rightarrow> 't o_snode list \<Rightarrow> 't stmt list \<Rightarrow> ('t, 's) ortho \<Rightarrow> ('t, 's) ortho run"
and emit_alts :: "('t, 's) gcc \<Rightarrow> 't o_snode list \<Rightarrow> ('t choice list \<times> 't stmt list) list \<Rightarrow>
   't o_case_block \<Rightarrow> ('t, 's) ortho \<Rightarrow> ('t o_case_block \<times> ('t, 's) ortho) run" where
  "emit g env (Assign target1 value) b = Done (new_assign_stmt g target1 value b)"
| "emit g env (Proc_Call p as) b = new_procedure_call g (fold new_association as (start_association p)) b"
| "emit g env (Return_Value v) b = new_func_return_stmt g v b"
| "emit g env Return b = Done (new_proc_return_stmt g b)"
| "emit g env (If_Then c ss) b =
     (let (blk, b) = start_if_stmt g c b in
      rbind (emit_all g env ss b) (\<lambda>b. Done (finish_if_stmt blk b)))"
| "emit g env (If_Else c ss1 ss2) b =
     (let (blk, b) = start_if_stmt g c b in
      rbind (emit_all g env ss1 b) (\<lambda>b.
      rbind (emit_all g env ss2 (new_else_stmt g blk b)) (\<lambda>b. Done (finish_if_stmt blk b))))"
| "emit g env (Loop ss) b =
     (let (l, b) = start_loop_stmt g b in
      rbind (emit_all g (l # env) ss b) (\<lambda>b. Done (finish_loop_stmt g l b)))"
| "emit g env (Exit n) b =
     rbind (array_get (length env) env n) (\<lambda>l. Done (new_exit_stmt g l b))"
| "emit g env (Continue n) b =
     rbind (array_get (length env) env n) (\<lambda>l. Done (new_next_stmt g l b))"
| "emit g env (Case v alts) b =
     (let (blk, b) = start_case_stmt g v b in
      rbind (emit_alts g env alts blk b) (\<lambda>(blk, b). Done (finish_case_stmt g blk b)))"
| "emit g env (Declare vs ss) b =
     rbind (start_declare_stmt g b) (\<lambda>b.
     rbind (declare_vars g vs b) (\<lambda>b.
     rbind (emit_all g env ss b) (\<lambda>b. finish_declare_stmt g b)))"
| "emit_all g env [] b = Done b"
| "emit_all g env (st # ss) b = rbind (emit g env st b) (\<lambda>b. emit_all g env ss b)"
| "emit_alts g env [] blk b = Done (blk, b)"
| "emit_alts g env ((cs, ss) # alts) blk b =
     (let (blk, b) = start_choice g blk b;
          b = fold (emit_choice g) cs b;
          blk = finish_choice blk
      in rbind (emit_all g env ss b) (\<lambda>b. emit_alts g env alts blk b))"

section \<open>The trees of a program\<close>

text \<open>The loops that a program leaves, and those it continues, by their numbers\<close>

fun exits :: "nat \<Rightarrow> 't stmt \<Rightarrow> bool" where
  "exits n (Exit m) \<longleftrightarrow> m = n"
| "exits n (If_Then c ss) \<longleftrightarrow> (\<exists>st \<in> set ss. exits n st)"
| "exits n (If_Else c ss1 ss2) \<longleftrightarrow> (\<exists>st \<in> set ss1. exits n st) \<or> (\<exists>st \<in> set ss2. exits n st)"
| "exits n (Loop ss) \<longleftrightarrow> (\<exists>st \<in> set ss. exits (Suc n) st)"
| "exits n (Case v alts) \<longleftrightarrow> (\<exists>(cs, ss) \<in> set alts. \<exists>st \<in> set ss. exits n st)"
| "exits n (Declare vs ss) \<longleftrightarrow> (\<exists>st \<in> set ss. exits n st)"
| "exits n _ \<longleftrightarrow> False"

fun continues :: "nat \<Rightarrow> 't stmt \<Rightarrow> bool" where
  "continues n (Continue m) \<longleftrightarrow> m = n"
| "continues n (If_Then c ss) \<longleftrightarrow> (\<exists>st \<in> set ss. continues n st)"
| "continues n (If_Else c ss1 ss2) \<longleftrightarrow> (\<exists>st \<in> set ss1. continues n st) \<or> (\<exists>st \<in> set ss2. continues n st)"
| "continues n (Loop ss) \<longleftrightarrow> (\<exists>st \<in> set ss. continues (Suc n) st)"
| "continues n (Case v alts) \<longleftrightarrow> (\<exists>(cs, ss) \<in> set alts. \<exists>st \<in> set ss. continues n st)"
| "continues n (Declare vs ss) \<longleftrightarrow> (\<exists>st \<in> set ss. continues n st)"
| "continues n _ \<longleftrightarrow> False"

text \<open>A case label for a choice, a variable for a declaration, and a jump to a label\<close>

fun choice_label :: "('t, 's) gcc \<Rightarrow> 's \<Rightarrow> 't choice \<Rightarrow> 't \<Rightarrow> bool" where
  "choice_label g s ch t \<longleftrightarrow> code_of g s t = CASE_LABEL_EXPR \<and>
     link_of g s (TREE_OPERAND 0) t = (case ch of Expr_Choice e \<Rightarrow> Some e | Range_Choice l h \<Rightarrow> Some l | Default_Choice \<Rightarrow> None) \<and>
     link_of g s (TREE_OPERAND 1) t = (case ch of Range_Choice l h \<Rightarrow> Some h | _ \<Rightarrow> None)"

definition variable :: "('t, 's) gcc \<Rightarrow> 's \<Rightarrow> 't \<Rightarrow> 't \<times> 't \<Rightarrow> 't \<Rightarrow> bool" where
  "variable g s f v t \<longleftrightarrow> code_of g s t = VAR_DECL \<and> link_of g s DECL_NAME t = Some (fst v) \<and>
     link_of g s TREE_TYPE t = Some (snd v) \<and> link_of g s DECL_CONTEXT t = Some f"

definition expr1 :: "('t, 's) gcc \<Rightarrow> 's \<Rightarrow> tree_code \<Rightarrow> 't \<Rightarrow> 't \<Rightarrow> bool" where
  "expr1 g s c t x \<longleftrightarrow> code_of g s t = c \<and> link_of g s (TREE_OPERAND 0) t = Some x"

definition body :: "('t, 's) gcc \<Rightarrow> 's \<Rightarrow> nat \<Rightarrow> 't \<Rightarrow> 't list \<Rightarrow> bool" where
  "body g s i t ts \<longleftrightarrow> (\<exists>l. link_of g s (TREE_OPERAND i) t = Some l \<and> code_of g s l = STATEMENT_LIST \<and> stmts_of g s l = ts)"

definition env_labels :: "'t o_snode list \<Rightarrow> 't set" where
  "env_labels env = beg_label ` set env \<union> end_label ` set env"

inductive represents :: "('t, 's) gcc \<Rightarrow> 's \<Rightarrow> 't \<Rightarrow> 't o_snode list \<Rightarrow> 't stmt \<Rightarrow> 't list \<Rightarrow> bool"
and represents_all :: "('t, 's) gcc \<Rightarrow> 's \<Rightarrow> 't \<Rightarrow> 't o_snode list \<Rightarrow> 't stmt list \<Rightarrow> 't list \<Rightarrow> bool"
and represents_alts :: "('t, 's) gcc \<Rightarrow> 's \<Rightarrow> 't \<Rightarrow> 't o_snode list \<Rightarrow> 't \<Rightarrow> bool \<Rightarrow>
   ('t choice list \<times> 't stmt list) list \<Rightarrow> 't list \<Rightarrow> bool"
for g s f where
  assign: "expr1 g s MODIFY_EXPR t target1 \<Longrightarrow> link_of g s (TREE_OPERAND 1) t = Some value \<Longrightarrow>
     represents g s f env (Assign target1 value) [t]"
| proc_call: "code_of g s t = CALL_EXPR \<Longrightarrow> link_of g s (TREE_OPERAND 1) t = Some a \<Longrightarrow> expr1 g s ADDR_EXPR a p \<Longrightarrow>
     (\<And>i. i < length as \<Longrightarrow> link_of g s (TREE_OPERAND (3 + i)) t = Some (as ! i)) \<Longrightarrow>
     represents g s f env (Proc_Call p as) [t]"
| return_value: "expr1 g s RETURN_EXPR t a \<Longrightarrow> code_of g s a = MODIFY_EXPR \<Longrightarrow>
     link_of g s (TREE_OPERAND 0) a = link_of g s DECL_RESULT f \<Longrightarrow> link_of g s (TREE_OPERAND 1) a = Some v \<Longrightarrow>
     represents g s f env (Return_Value v) [t]"
| return_void: "code_of g s t = RETURN_EXPR \<Longrightarrow> link_of g s (TREE_OPERAND 0) t = None \<Longrightarrow> represents g s f env Return [t]"
| if_then: "expr1 g s COND_EXPR t c \<Longrightarrow> body g s 1 t ts \<Longrightarrow> represents_all g s f env ss ts \<Longrightarrow>
     link_of g s COND_EXPR_ELSE t = None \<Longrightarrow> represents g s f env (If_Then c ss) [t]"
| if_else: "expr1 g s COND_EXPR t c \<Longrightarrow> body g s 1 t ts1 \<Longrightarrow> represents_all g s f env ss1 ts1 \<Longrightarrow>
     body g s 2 t ts2 \<Longrightarrow> represents_all g s f env ss2 ts2 \<Longrightarrow> represents g s f env (If_Else c ss1 ss2) [t]"
| loop: "expr1 g s LABEL_EXPR t1 (beg_label l) \<Longrightarrow> represents_all g s f (l # env) ss ts \<Longrightarrow>
     expr1 g s GOTO_EXPR t2 (beg_label l) \<Longrightarrow>
     (if \<exists>st \<in> set ss. exits 0 st then \<exists>t3. ts3 = [t3] \<and> expr1 g s LABEL_EXPR t3 (end_label l) else ts3 = []) \<Longrightarrow>
     beg_label l \<noteq> end_label l \<Longrightarrow> {beg_label l, end_label l} \<inter> env_labels env = {} \<Longrightarrow>
     represents g s f env (Loop ss) (t1 # ts @ t2 # ts3)"
| exit_loop: "n < length env \<Longrightarrow> expr1 g s GOTO_EXPR t (end_label (env ! n)) \<Longrightarrow> represents g s f env (Exit n) [t]"
| continue_loop: "n < length env \<Longrightarrow> expr1 g s GOTO_EXPR t (beg_label (env ! n)) \<Longrightarrow> represents g s f env (Continue n) [t]"
| switch: "expr1 g s SWITCH_EXPR t v \<Longrightarrow> body g s 1 t ts \<Longrightarrow> represents_alts g s f env fin False alts ts \<Longrightarrow>
     expr1 g s LABEL_EXPR t2 fin \<Longrightarrow> fin \<notin> env_labels env \<Longrightarrow> represents g s f env (Case v alts) [t, t2]"
| bind_block: "code_of g s t = BIND_EXPR \<Longrightarrow> chain g s TREE_CHAIN (link_of g s BIND_EXPR_VARS t) ds \<Longrightarrow>
     list_all2 (variable g s f) vs ds \<Longrightarrow> body g s 1 t ts \<Longrightarrow> represents_all g s f env ss ts \<Longrightarrow>
     represents g s f env (Declare vs ss) [t]"
| all_Nil: "represents_all g s f env [] []"
| all_Cons: "represents g s f env st ts \<Longrightarrow> represents_all g s f env ss us \<Longrightarrow> represents_all g s f env (st # ss) (ts @ us)"
| alts_Nil: "represents_alts g s f env fin brk [] []"
| alts_Cons: "(if brk then \<exists>t. gs = [t] \<and> expr1 g s GOTO_EXPR t fin else gs = []) \<Longrightarrow> list_all2 (choice_label g s) cs ls \<Longrightarrow>
     represents_all g s f env ss ts \<Longrightarrow> represents_alts g s f env fin True alts us \<Longrightarrow>
     represents_alts g s f env fin brk ((cs, ss) # alts) (gs @ ls @ ts @ us)"

end
