(* ===== verification/Ortho_Refine.thy ===== *)
theory Ortho_Refine
  imports Ortho_Emit
begin

text \<open>
  What the functions on statements do to the trees: which nodes they leave as they are, and what they
  append to the list of statements. This is the library for the proof that the trees that are made of a
  structured program represent it.
\<close>

section \<open>What making statements changes\<close>

definition level_ok :: "'t binding_level \<Rightarrow> bool" where
  "level_ok c \<longleftrightarrow> (first_block c \<noteq> None \<longrightarrow> last_block c \<noteq> None)"

definition similar :: "'t binding_level \<Rightarrow> 't binding_level \<Rightarrow> bool" where
  "similar c c' \<longleftrightarrow> bind c' = bind c \<and> block c' = block c \<and> save_stack c' = save_stack c \<and>
     first_decl c' = first_decl c \<and> last_decl c' = last_decl c \<and> prev_stmts c' = prev_stmts c"

definition similar_levels :: "'t binding_level list \<Rightarrow> 't binding_level list \<Rightarrow> bool" where
  "similar_levels ls ls' \<longleftrightarrow> (case (ls, ls') of
     (c # cs, c' # cs') \<Rightarrow> similar c c' \<and> cs' = cs | _ \<Rightarrow> False)"

definition ready :: "('t, 's) gcc \<Rightarrow> 't \<Rightarrow> 't \<Rightarrow> ('t, 's) ortho \<Rightarrow> bool" where
  "ready g f l b \<longleftrightarrow> current_function_decl b = Some f \<and> cur_stmts b = Some l \<and>
     alive g (trees b) l \<and> code_of g (trees b) l = STATEMENT_LIST \<and> alive g (trees b) f \<and>
     (\<exists>c cs. cur_binding_level b = c # cs \<and> level_ok c)"

text \<open>
  \<open>kept\<close>: the labels of \<open>U\<close> have been used, statements may have been added to \<open>l\<close>, and nothing
  else has changed for the nodes there were, except for chains of blocks. \<open>grown\<close>: the statements
  \<open>ts\<close> have been added. \<open>steady\<close>: for the nodes of \<open>A\<close> nothing has changed but the labels of \<open>U\<close>.
\<close>

definition kept :: "('t, 's) gcc \<Rightarrow> 't set \<Rightarrow> 't \<Rightarrow> 's \<Rightarrow> 's \<Rightarrow> bool" where
  "kept g U l s s' \<longleftrightarrow> (\<forall>t. alive g s t \<longrightarrow>
     alive g s' t \<and> code_of g s' t = code_of g s t \<and>
     (\<forall>fl. fl \<noteq> BLOCK_CHAIN \<longrightarrow> link_of g s' fl t = link_of g s fl t) \<and>
     (t \<noteq> l \<longrightarrow> stmts_of g s' t = stmts_of g s t) \<and>
     flag_of g s' TREE_USED t = (flag_of g s TREE_USED t \<or> t \<in> U))"

definition grown :: "('t, 's) gcc \<Rightarrow> 't set \<Rightarrow> 't \<Rightarrow> 't list \<Rightarrow> ('t, 's) ortho \<Rightarrow> ('t, 's) ortho \<Rightarrow> bool" where
  "grown g U l ts b b' \<longleftrightarrow> current_function_decl b' = current_function_decl b \<and>
     similar_levels (cur_binding_level b) (cur_binding_level b') \<and> level_ok (hd (cur_binding_level b')) \<and>
     kept g U l (trees b) (trees b') \<and> stmts_of g (trees b') l = stmts_of g (trees b) l @ ts"

definition steady :: "('t, 's) gcc \<Rightarrow> ('t \<Rightarrow> bool) \<Rightarrow> 't set \<Rightarrow> 's \<Rightarrow> 's \<Rightarrow> bool" where
  "steady g A U s s' \<longleftrightarrow> (\<forall>t. A t \<longrightarrow>
     alive g s' t \<and> code_of g s' t = code_of g s t \<and>
     (\<forall>fl. fl \<noteq> BLOCK_CHAIN \<longrightarrow> link_of g s' fl t = link_of g s fl t) \<and>
     stmts_of g s' t = stmts_of g s t \<and>
     flag_of g s' TREE_USED t = (flag_of g s TREE_USED t \<or> t \<in> U))"

text \<open>
  \<open>lasting\<close>: a fact on trees that stays true as long as the nodes outside of \<open>A\<close> stay as they are, and
  functions have the same results.
\<close>

definition stable_field :: "tree_field \<Rightarrow> bool" where
  "stable_field fl \<longleftrightarrow> fl \<noteq> BLOCK_CHAIN \<and> \<not> layout_field fl"

lemma stable_fields [simp]:
  "stable_field (TREE_OPERAND i)" "stable_field TREE_CHAIN" "stable_field TREE_TYPE" "stable_field DECL_NAME"
  "stable_field DECL_CONTEXT" "stable_field DECL_RESULT"
  by (simp_all add: stable_field_def layout_field_def)

definition settled :: "('t, 's) gcc \<Rightarrow> ('t \<Rightarrow> bool) \<Rightarrow> 's \<Rightarrow> 's \<Rightarrow> bool" where
  "settled g A s s' \<longleftrightarrow> (\<forall>t. alive g s t \<longrightarrow> alive g s' t \<and>
     link_of g s' DECL_RESULT t = link_of g s DECL_RESULT t \<and>
     (\<not> A t \<longrightarrow> code_of g s' t = code_of g s t \<and>
       (\<forall>fl. stable_field fl \<longrightarrow> link_of g s' fl t = link_of g s fl t) \<and> stmts_of g s' t = stmts_of g s t))"

definition lasting :: "('t, 's) gcc \<Rightarrow> ('t \<Rightarrow> bool) \<Rightarrow> 's \<Rightarrow> ('s \<Rightarrow> bool) \<Rightarrow> bool" where
  "lasting g A s P \<longleftrightarrow> (\<forall>s'. settled g A s s' \<longrightarrow> P s')"

section \<open>Rules\<close>

lemma steadyD:
  assumes "steady g A U s s'" "A t"
  shows "alive g s' t" "code_of g s' t = code_of g s t" "fl \<noteq> BLOCK_CHAIN \<Longrightarrow> link_of g s' fl t = link_of g s fl t"
    and "stmts_of g s' t = stmts_of g s t"
  using assms by (simp_all add: steady_def)

lemma steady_refl: "(\<And>t. A t \<Longrightarrow> alive g s t) \<Longrightarrow> steady g A {} s s"
  by (simp add: steady_def)

lemma steady_new: "steady g A U s s1 \<Longrightarrow> new_tree g s1 c (t, s2) \<Longrightarrow> steady g A U s s2"
  unfolding steady_def using new_treeD by metis

lemma steady_extends: "steady g A U s s1 \<Longrightarrow> extends g s1 s2 \<Longrightarrow> steady g A U s s2"
  unfolding steady_def extends_def same_node_def by metis

lemma steady_set_flag:
  "gcc_ok g \<Longrightarrow> steady g A U s s1 \<Longrightarrow> fl \<noteq> TREE_USED \<or> \<not> A t \<Longrightarrow> steady g A U s (set_flag g fl t v s1)"
  unfolding steady_def by (auto simp: set_flag_simps)

lemma steady_set_used: "gcc_ok g \<Longrightarrow> steady g A U s s1 \<Longrightarrow> steady g A (insert t U) s (set_flag g TREE_USED t True s1)"
  unfolding steady_def by (simp add: set_flag_simps)

lemma steady_set_link:
  "gcc_ok g \<Longrightarrow> steady g A U s s1 \<Longrightarrow> fl = BLOCK_CHAIN \<or> \<not> A t \<Longrightarrow> steady g A U s (set_link g fl t v s1)"
  unfolding steady_def by (auto simp: set_link_simps)

lemma settledD:
  assumes "settled g A s s'" "alive g s t"
  shows "alive g s' t" "link_of g s' DECL_RESULT t = link_of g s DECL_RESULT t"
    and "\<not> A t \<Longrightarrow> code_of g s' t = code_of g s t" "\<not> A t \<Longrightarrow> stmts_of g s' t = stmts_of g s t"
    and "\<not> A t \<Longrightarrow> stable_field fl \<Longrightarrow> link_of g s' fl t = link_of g s fl t"
  using assms by (simp_all add: settled_def)

lemma settled_refl: "settled g A s s"
  by (simp add: settled_def)

lemma settled_trans: "settled g A s s1 \<Longrightarrow> settled g A s1 s2 \<Longrightarrow> settled g A s s2"
  unfolding settled_def by metis

lemma settled_kept:
  assumes "kept g U l s s1" and "A l \<or> \<not> alive g s l"
  shows "settled g A s s1"
  using assms unfolding kept_def settled_def stable_field_def by (metis tree_field.distinct)

lemma settled_new: "settled g A s s1 \<Longrightarrow> new_tree g s1 c (t, s2) \<Longrightarrow> settled g A s s2"
  unfolding settled_def using new_treeD by metis

lemma settled_extends: "settled g A s s1 \<Longrightarrow> extends g s1 s2 \<Longrightarrow> settled g A s s2"
  unfolding settled_def extends_def same_node_def by metis

lemma settled_set_link:
  "gcc_ok g \<Longrightarrow> settled g A s s1 \<Longrightarrow> \<not> stable_field fl \<or> A t \<and> fl \<noteq> DECL_RESULT \<or> \<not> alive g s t \<Longrightarrow>
   settled g A s (set_link g fl t v s1)"
  unfolding settled_def by (auto simp: set_link_simps)

lemma settled_set_flag: "gcc_ok g \<Longrightarrow> settled g A s s1 \<Longrightarrow> settled g A s (set_flag g fl t v s1)"
  unfolding settled_def by (simp add: set_flag_simps)

lemma settled_more: "settled g A s s' \<Longrightarrow> (\<And>t. A t \<Longrightarrow> alive g s t \<Longrightarrow> A' t) \<Longrightarrow> settled g A' s s'"
  unfolding settled_def by blast

lemma lastingI: "(\<And>s'. settled g A s s' \<Longrightarrow> P s') \<Longrightarrow> lasting g A s P"
  by (simp add: lasting_def)

lemma lastingD: "lasting g A s P \<Longrightarrow> settled g A s s' \<Longrightarrow> P s'"
  by (simp add: lasting_def)

lemma lasting_now: "lasting g A s P \<Longrightarrow> P s"
  using lastingD settled_refl by metis

lemma lasting_step: "lasting g A s P \<Longrightarrow> settled g A s s1 \<Longrightarrow> lasting g A s1 P"
  unfolding lasting_def using settled_trans by metis

lemma lasting_less:
  assumes "lasting g A s P" and "\<And>t. A' t \<Longrightarrow> alive g s t \<Longrightarrow> A t"
  shows "lasting g A' s P"
  using assms settled_more unfolding lasting_def by metis

lemma expr1_settled: "settled g A s s' \<Longrightarrow> expr1 g s c t x \<Longrightarrow> alive g s t \<Longrightarrow> \<not> A t \<Longrightarrow> expr1 g s' c t x"
  by (simp add: settled_def expr1_def)

lemma body_settled:
  "settled g A s s' \<Longrightarrow> alive g s t \<Longrightarrow> \<not> A t \<Longrightarrow> link_of g s (TREE_OPERAND i) t = Some l \<Longrightarrow> alive g s l \<Longrightarrow>
   code_of g s l = STATEMENT_LIST \<Longrightarrow> \<not> A l \<Longrightarrow> body g s' i t (stmts_of g s l)"
  by (auto simp: settled_def body_def)

lemma kept_trans: "kept g U l s s1 \<Longrightarrow> kept g U' l s1 s2 \<Longrightarrow> kept g (U \<union> U') l s s2"
  unfolding kept_def by auto

lemma similar_levels_trans:
  "similar_levels ls ls1 \<Longrightarrow> similar_levels ls1 ls2 \<Longrightarrow> similar_levels ls ls2"
  by (auto simp: similar_levels_def similar_def split: list.splits)

lemma grown_refl: "ready g f l b \<Longrightarrow> grown g {} l [] b b"
  by (auto simp: grown_def ready_def kept_def similar_levels_def similar_def)

lemma grown_trans: "grown g U l ts b b1 \<Longrightarrow> grown g U' l us b1 b2 \<Longrightarrow> grown g (U \<union> U') l (ts @ us) b b2"
  by (auto simp: grown_def intro: kept_trans similar_levels_trans)

lemma grown_steady:
  assumes "grown g U l ts b b1" "steady g (alive g (trees b)) U' (trees b1) s" "alive g (trees b) l"
  shows "grown g (U \<union> U') l ts b (b1\<lparr>trees := s\<rparr>)"
  using assms by (auto simp: grown_def kept_def steady_def)

text \<open>What is appended to a list that was not there before does not count.\<close>

lemma grown_inner:
  assumes "grown g U l ts b b1" "grown g U' l2 us b1 b2" "\<not> alive g (trees b) l2" "alive g (trees b) l"
  shows "grown g (U \<union> U') l ts b b2"
proof -
  have "l \<noteq> l2" using assms by auto
  then show ?thesis
    using assms by (auto simp: grown_def kept_def intro: similar_levels_trans)
qed

lemma grown_cur_stmts [simp]:
  "grown g U l ts b (b'\<lparr>cur_stmts := p\<rparr>) = grown g U l ts b b'"
  "grown g U l ts (b\<lparr>cur_stmts := p\<rparr>) b' = grown g U l ts b b'"
  by (simp_all add: grown_def)

lemma grown_cong:
  assumes "grown g U l ts b b'" "\<And>t. alive g (trees b) t \<Longrightarrow> t \<in> U \<longleftrightarrow> t \<in> U'"
  shows "grown g U' l ts b b'"
  using assms by (auto simp: grown_def kept_def)

lemma grown_ready:
  assumes "ready g f l b" "grown g U l ts b b'" "cur_stmts b' = Some l"
  shows "ready g f l b'"
  using assms
  by (auto simp: ready_def grown_def kept_def similar_levels_def split: list.splits)

lemma grown_kept: "grown g U l ts b b' \<Longrightarrow> kept g U l (trees b) (trees b')"
  by (simp add: grown_def)

lemma grown_alive: "grown g U l ts b b' \<Longrightarrow> alive g (trees b) t \<Longrightarrow> alive g (trees b') t"
  by (simp add: grown_def kept_def)

lemma ready_alive: "ready g f l b \<Longrightarrow> alive g (trees b) l"
  by (simp add: ready_def)

section \<open>Appending a statement\<close>

lemma append_stmt_spec:
  assumes "gcc_ok g" "cur_stmts b = Some l" "code_of g (trees b) l = STATEMENT_LIST"
    and "code_of g (trees b) t \<noteq> STATEMENT_LIST"
  obtains s where "append_stmt g t b = b\<lparr>trees := s\<rparr>" "alive g s = alive g (trees b)"
    and "code_of g s = code_of g (trees b)" "link_of g s = link_of g (trees b)"
    and "flag_of g s TREE_USED = flag_of g (trees b) TREE_USED"
    and "stmts_of g s = (stmts_of g (trees b))(l := stmts_of g (trees b) l @ [t])"
proof -
  note ok = assms(1)
  let ?s1 = "if num_of g (trees b) EXPR_LOCATION t = 0
             then set_num g EXPR_LOCATION t (input_location b) (trees b) else trees b"
  let ?s = "set_flag g TREE_SIDE_EFFECTS t True ?s1"
  have pre: "code_of g ?s t \<noteq> STATEMENT_LIST" "flag_of g ?s TREE_SIDE_EFFECTS t" "code_of g ?s l = STATEMENT_LIST"
    using assms by (simp_all add: set_flag_simps set_num_simps)
  obtain s' where a: "append_to_statement_list g t (Some l) ?s = (Some l, s')"
    "alive g s' = alive g ?s" "code_of g s' = code_of g ?s" "link_of g s' = link_of g ?s" "num_of g s' = num_of g ?s"
    "\<And>f t'. f \<noteq> TREE_SIDE_EFFECTS \<or> t' \<noteq> l \<Longrightarrow> flag_of g s' f t' = flag_of g ?s f t'"
    "stmts_of g s' = (stmts_of g ?s)(l := stmts_of g ?s l @ [t])"
    using append_to_statement_list_Some [OF ok pre] by blast
  have "append_stmt g t b = b\<lparr>trees := s'\<rparr>"
    using a(1) assms(2) by (auto simp: append_stmt_def tree_op_def Let_def split: if_splits)
  moreover have "flag_of g s' TREE_USED = flag_of g (trees b) TREE_USED"
    using a(6) [of TREE_USED] by (auto simp: fun_eq_iff set_flag_simps [OF ok] set_num_simps [OF ok])
  ultimately show thesis
    using a by (intro that [of s']) (simp_all add: set_flag_simps [OF ok] set_num_simps [OF ok])
qed

lemma append_grown:
  assumes ok: "gcc_ok g" and r: "ready g f l b" and k: "steady g (alive g (trees b)) U (trees b) s1"
    and t: "code_of g s1 t \<noteq> STATEMENT_LIST"
  obtains s where "append_stmt g t (b\<lparr>trees := s1\<rparr>) = b\<lparr>trees := s\<rparr>"
    and "grown g U l [t] b (b\<lparr>trees := s\<rparr>)" "settled g (alive g (trees b)) s1 s"
    and "alive g s = alive g s1" "code_of g s = code_of g s1" "link_of g s = link_of g s1"
    and "flag_of g s TREE_USED = flag_of g s1 TREE_USED"
    and "stmts_of g s = (stmts_of g s1)(l := stmts_of g s1 l @ [t])"
proof -
  let ?b = "b\<lparr>trees := s1\<rparr>"
  have l: "cur_stmts ?b = Some l" "code_of g (trees ?b) l = STATEMENT_LIST"
    using r steadyD(2) [OF k ready_alive [OF r]] by (simp_all add: ready_def)
  obtain s where s: "append_stmt g t ?b = ?b\<lparr>trees := s\<rparr>" "alive g s = alive g (trees ?b)"
    "code_of g s = code_of g (trees ?b)" "link_of g s = link_of g (trees ?b)"
    "flag_of g s TREE_USED = flag_of g (trees ?b) TREE_USED"
    "stmts_of g s = (stmts_of g (trees ?b))(l := stmts_of g (trees ?b) l @ [t])"
    using append_stmt_spec [OF ok l, of t] t by auto
  have "grown g U l [t] b (b\<lparr>trees := s\<rparr>)"
    using r k s by (auto simp: grown_def ready_def kept_def steady_def similar_levels_def similar_def)
  moreover have "settled g (alive g (trees b)) s1 s"
    using s ready_alive [OF r] by (auto simp: settled_def)
  ultimately show thesis using s by (intro that [of s]) simp_all
qed

section \<open>Emitting statements\<close>

definition emitted :: "('t, 's) gcc \<Rightarrow> 't \<Rightarrow> ('t, 's) ortho \<Rightarrow> 't set \<Rightarrow> ('s \<Rightarrow> 't list \<Rightarrow> bool) \<Rightarrow> ('t, 's) ortho run \<Rightarrow> bool" where
  "emitted g l b U P m \<longleftrightarrow> (\<exists>b' ts. m = Done b' \<and> cur_stmts b' = Some l \<and> grown g U l ts b b' \<and>
     lasting g (alive g (trees b)) (trees b') (\<lambda>s. P s ts))"

lemma emittedI:
  "m = Done b' \<Longrightarrow> cur_stmts b' = Some l \<Longrightarrow> grown g U l ts b b' \<Longrightarrow>
   lasting g (alive g (trees b)) (trees b') (\<lambda>s. P s ts) \<Longrightarrow> emitted g l b U P m"
  by (auto simp: emitted_def)

lemma emitted_bind:
  assumes m: "emitted g l b U P m" and r: "ready g f l b"
    and F: "\<And>b' ts. m = Done b' \<Longrightarrow> ready g f l b' \<Longrightarrow> grown g U l ts b b' \<Longrightarrow> emitted g l b' U' Q (F b')"
    and R: "\<And>s ts us. P s ts \<Longrightarrow> Q s us \<Longrightarrow> R s (ts @ us)"
  shows "emitted g l b (U \<union> U') R (rbind m F)"
proof -
  let ?A = "alive g (trees b)"
  obtain b1 ts where b1: "m = Done b1" "cur_stmts b1 = Some l" "grown g U l ts b b1" "lasting g ?A (trees b1) (\<lambda>s. P s ts)"
    using m by (auto simp: emitted_def)
  obtain b2 us where b2: "F b1 = Done b2" "cur_stmts b2 = Some l" "grown g U' l us b1 b2"
    "lasting g (alive g (trees b1)) (trees b2) (\<lambda>s. Q s us)"
    using F [OF b1(1) grown_ready [OF r b1(3,2)] b1(3)] by (auto simp: emitted_def)
  have "lasting g ?A (trees b2) (\<lambda>s. P s ts)"
    using lasting_step [OF b1(4) settled_kept [OF grown_kept [OF b2(3)]]] ready_alive [OF r] by blast
  moreover have "lasting g ?A (trees b2) (\<lambda>s. Q s us)"
    using lasting_less [OF b2(4)] grown_alive [OF b1(3)] by blast
  ultimately have "lasting g ?A (trees b2) (\<lambda>s. R s (ts @ us))"
    using R by (simp add: lasting_def)
  then show ?thesis
    using b1 b2 grown_trans [OF b1(3) b2(3)] by (intro emittedI) simp_all
qed

lemma emitted_mono:
  assumes "emitted g l b U P m" and "\<And>s ts. P s ts \<Longrightarrow> Q s ts" and "\<And>t. alive g (trees b) t \<Longrightarrow> t \<in> U \<longleftrightarrow> t \<in> U'"
  shows "emitted g l b U' Q m"
  using assms grown_cong unfolding emitted_def lasting_def by metis

lemma emitted_append:
  assumes ok: "gcc_ok g" and r: "ready g f l b" and k: "steady g (alive g (trees b)) U (trees b) s1"
    and t: "code_of g s1 t \<noteq> STATEMENT_LIST" and P: "\<And>s. settled g (alive g (trees b)) s1 s \<Longrightarrow> P s [t]"
  shows "emitted g l b U P (Done (append_stmt g t (b\<lparr>trees := s1\<rparr>)))"
proof -
  obtain s where s: "append_stmt g t (b\<lparr>trees := s1\<rparr>) = b\<lparr>trees := s\<rparr>" "grown g U l [t] b (b\<lparr>trees := s\<rparr>)"
    "settled g (alive g (trees b)) s1 s"
    using append_grown [OF ok r k t] by blast
  show ?thesis
  proof (rule emittedI)
    show "Done (append_stmt g t (b\<lparr>trees := s1\<rparr>)) = Done (b\<lparr>trees := s\<rparr>)" using s(1) by simp
    show "cur_stmts (b\<lparr>trees := s\<rparr>) = Some l" using r by (simp add: ready_def)
    show "lasting g (alive g (trees b)) (trees (b\<lparr>trees := s\<rparr>)) (\<lambda>s. P s [t])"
      using settled_trans [OF s(3)] by (auto intro!: lastingI P)
  qed (rule s(2))
qed

text \<open>A new expression is appended: as it is, or with one of the two flags set.\<close>

lemma emitted_build:
  assumes ok: "gcc_ok g" and r: "ready g f l b" and k: "steady g (alive g (trees b)) U (trees b) s0"
    and c: "c \<noteq> STATEMENT_LIST"
    and P: "\<And>t s. code_of g s t = c \<Longrightarrow> (\<And>i. i < length ops \<Longrightarrow> link_of g s (TREE_OPERAND i) t = ops ! i) \<Longrightarrow>
      settled g (alive g (trees b)) s0 s \<Longrightarrow> P s [t]"
  shows "emitted g l b U P
      (Done (let (t, b1) = tree_op (build g c ty ops) (b\<lparr>trees := s0\<rparr>) in append_stmt g t b1))"
    and "emitted g l b U P
      (Done (let (t, b1) = tree_op (build g c ty ops) (b\<lparr>trees := s0\<rparr>) in
             append_stmt g t (trees_update (set_flag g TREE_SIDE_EFFECTS t True) b1)))"
    and "emitted g l b (insert x U) P
      (Done (let (t, b1) = tree_op (build g c ty ops) (b\<lparr>trees := s0\<rparr>) in
             append_stmt g t (trees_update (set_flag g TREE_USED x True) b1)))"
proof -
  let ?A = "alive g (trees b)"
  obtain t s1 where n: "build g c ty ops s0 = (t, s1)" by fastforce
  note new = build_new [OF ok n]
  have s1: "steady g ?A U (trees b) s1" by (rule steady_new [OF k new(1)])
  have t: "code_of g s1 t = c" "alive g s1 t" "\<not> ?A t"
    using new_treeD(1-3) [OF new(1)] steadyD(1) [OF k] by auto
  have P1: "P s [t]" if s: "settled g ?A s1' s" and "s1' \<in> {s1, set_flag g fl x v s1}" for s s1' fl x v
  proof (rule P)
    have s: "settled g ?A s1 s"
      using that settled_trans [OF settled_set_flag [OF ok settled_refl]] by auto
    show "code_of g s t = c" using settledD(3) [OF s t(2,3)] t(1) by simp
    show "link_of g s (TREE_OPERAND i) t = ops ! i" if "i < length ops" for i
      using settledD(5) [OF s t(2,3)] new(3) [OF that] by simp
    show "settled g ?A s0 s" by (rule settled_trans [OF settled_new [OF settled_refl new(1)] s])
  qed
  show "emitted g l b U P (Done (let (t, b1) = tree_op (build g c ty ops) (b\<lparr>trees := s0\<rparr>) in append_stmt g t b1))"
    using emitted_append [OF ok r s1, of t P] t c P1 [of s1] by (simp add: tree_op_def n)
  let ?s = "set_flag g TREE_SIDE_EFFECTS t True s1"
  have "emitted g l b U P (Done (append_stmt g t (b\<lparr>trees := ?s\<rparr>)))"
    by (rule emitted_append [OF ok r steady_set_flag [OF ok s1]])
      (use t c P1 [of ?s _ TREE_SIDE_EFFECTS t True] in \<open>simp_all add: set_flag_simps ok\<close>)
  then show "emitted g l b U P (Done (let (t, b1) = tree_op (build g c ty ops) (b\<lparr>trees := s0\<rparr>) in
             append_stmt g t (trees_update (set_flag g TREE_SIDE_EFFECTS t True) b1)))"
    by (simp add: tree_op_def n comp_def)
  let ?s = "set_flag g TREE_USED x True s1"
  have "emitted g l b (insert x U) P (Done (append_stmt g t (b\<lparr>trees := ?s\<rparr>)))"
    by (rule emitted_append [OF ok r steady_set_used [OF ok s1]])
      (use t c P1 [of ?s _ TREE_USED x True] in \<open>simp_all add: set_flag_simps ok\<close>)
  then show "emitted g l b (insert x U) P (Done (let (t, b1) = tree_op (build g c ty ops) (b\<lparr>trees := s0\<rparr>) in
             append_stmt g t (trees_update (set_flag g TREE_USED x True) b1)))"
    by (simp add: tree_op_def n comp_def)
qed

lemma emitted_expr1:
  assumes "gcc_ok g" "ready g f l b" "c \<noteq> STATEMENT_LIST" and P: "\<And>t s. expr1 g s c t x \<Longrightarrow> P s [t]"
  shows "emitted g l b {} P (Done (let (t, b1) = tree_op (build g c ty [Some x]) b in append_stmt g t b1))"
    and "emitted g l b {y} P (Done (let (t, b1) = tree_op (build g c ty [Some x]) b in
             append_stmt g t (trees_update (set_flag g TREE_USED y True) b1)))"
proof -
  have "steady g (alive g (trees b)) {} (trees b) (trees b)" by (rule steady_refl)
  note 1 = emitted_build [where P = P and ty = ty and ops = "[Some x]", OF assms(1,2) this assms(3)]
  show "emitted g l b {} P (Done (let (t, b1) = tree_op (build g c ty [Some x]) b in append_stmt g t b1))"
    using 1(1) P by (simp add: expr1_def)
  show "emitted g l b {y} P (Done (let (t, b1) = tree_op (build g c ty [Some x]) b in
             append_stmt g t (trees_update (set_flag g TREE_USED y True) b1)))"
    using 1(3) [of y] P by (simp add: expr1_def)
qed

section \<open>Simple statements\<close>

lemma emitted_assign:
  assumes ok: "gcc_ok g" and r: "ready g f l b"
  shows "emitted g l b {} (\<lambda>s. represents g s f env (Assign x v)) (Done (new_assign_stmt g x v b))"
proof -
  have "emitted g l b {} (\<lambda>s. represents g s f env (Assign x v))
      (Done (let (t, b1) = tree_op (build g MODIFY_EXPR (link_of g (trees b) TREE_TYPE x) [Some x, Some v])
                             (b\<lparr>trees := trees b\<rparr>) in
             append_stmt g t (trees_update (set_flag g TREE_SIDE_EFFECTS t True) b1)))"
  proof (rule emitted_build(2) [OF ok r steady_refl])
    fix t s
    assume "code_of g s t = MODIFY_EXPR"
      and "\<And>i. i < length [Some x, Some v] \<Longrightarrow> link_of g s (TREE_OPERAND i) t = [Some x, Some v] ! i"
    from this(1) this(2) [of 0] this(2) [of 1] show "represents g s f env (Assign x v) [t]"
      by (intro assign) (simp_all add: expr1_def)
  qed simp_all
  then show ?thesis by (simp add: new_assign_stmt_def)
qed

lemma emitted_proc_return:
  assumes ok: "gcc_ok g" and r: "ready g f l b"
  shows "emitted g l b {} (\<lambda>s. represents g s f env Return) (Done (new_proc_return_stmt g b))"
proof -
  have "emitted g l b {} (\<lambda>s. represents g s f env Return)
      (Done (let (t, b1) = tree_op (build g RETURN_EXPR (void_type g) [None]) (b\<lparr>trees := trees b\<rparr>) in
             append_stmt g t (trees_update (set_flag g TREE_SIDE_EFFECTS t True) b1)))"
    by (rule emitted_build(2) [OF ok r steady_refl]) (auto intro!: return_void)
  then show ?thesis by (simp add: new_proc_return_stmt_def)
qed

lemma emitted_func_return:
  assumes ok: "gcc_ok g" and r: "ready g f l b"
  shows "emitted g l b {} (\<lambda>s. represents g s f env (Return_Value v)) (new_func_return_stmt g v b)"
proof -
  let ?A = "alive g (trees b)"
  obtain a s1 where n: "build g MODIFY_EXPR (link_of g (trees b) TREE_TYPE v)
      [link_of g (trees b) DECL_RESULT f, Some v] (trees b) = (a, s1)"
    by fastforce
  note new = build_new [OF ok n]
  let ?s = "set_flag g TREE_SIDE_EFFECTS a True s1"
  have k: "steady g ?A {} (trees b) ?s"
    by (intro steady_set_flag ok steady_new [OF steady_refl new(1)]) simp_all
  have f: "alive g (trees b) f" using r by (simp add: ready_def)
  have a: "alive g ?s a" "\<not> ?A a" "code_of g ?s a = MODIFY_EXPR" "link_of g ?s (TREE_OPERAND 1) a = Some v"
    "link_of g ?s (TREE_OPERAND 0) a = link_of g ?s DECL_RESULT f"
    using new_treeD(1-3) [OF new(1)] new(3) [of 0] new(3) [of 1] steadyD(3) [OF k f, of DECL_RESULT]
    by (simp_all add: set_flag_simps [OF ok])
  have "emitted g l b {} (\<lambda>s. represents g s f env (Return_Value v))
      (Done (let (t, b1) = tree_op (build g RETURN_EXPR (void_type g) [Some a]) (b\<lparr>trees := ?s\<rparr>) in
             append_stmt g t (trees_update (set_flag g TREE_SIDE_EFFECTS t True) b1)))"
  proof (rule emitted_build(2) [OF ok r k])
    fix t s
    assume *: "code_of g s t = RETURN_EXPR" "settled g ?A ?s s"
      "\<And>i. i < length [Some a] \<Longrightarrow> link_of g s (TREE_OPERAND i) t = [Some a] ! i"
    note a' = settledD(3,5) [OF *(2) a(1,2)]
    show "represents g s f env (Return_Value v) [t]"
      using *(1) *(3) [of 0] a a' settledD(2) [OF *(2) steadyD(1) [OF k f]]
      by (intro return_value [of _ _ t a]) (simp_all add: expr1_def)
  qed simp
  then show ?thesis
    using r by (auto simp: new_func_return_stmt_def ready_def tree_op_def n comp_def split: prod.splits)
qed

lemma fold_new_association: "fold new_association as a = a\<lparr>vecptr := vecptr a @ as\<rparr>"
  by (induction as arbitrary: a) (simp_all add: new_association_def)

lemma emitted_procedure_call:
  assumes ok: "gcc_ok g" and r: "ready g f l b" and p: "link_of g (trees b) TREE_TYPE p = Some ty"
  shows "emitted g l b {} (\<lambda>s. represents g s f env (Proc_Call p as))
     (new_procedure_call g (fold new_association as (start_association p)) b)"
proof -
  let ?A = "alive g (trees b)"
  obtain pt s1 where n1: "call g Build_pointer_type [Some ty] [] (trees b) = (pt, s1)" by fastforce
  obtain a s2 where n2: "build g ADDR_EXPR (Some pt) [Some p] s1 = (a, s2)" by fastforce
  obtain t s3 where n3: "call g Build_call_vec (link_of g (trees b) TREE_TYPE ty # Some a # map Some as) [] s2 = (t, s3)"
    by fastforce
  note a = build_new [OF ok n2]
  note t = call_vec_new [OF ok n3]
  let ?s = "set_flag g TREE_SIDE_EFFECTS t True s3"
  have 1: "steady g ?A {} (trees b) s1" by (rule steady_extends [OF steady_refl call_extends(1) [OF ok n1]])
  then have k: "steady g ?A {} (trees b) s3" by (intro steady_new [OF steady_new [OF 1 a(1)] t(1)])
  have fresh: "\<not> ?A a" "\<not> ?A t" "a \<noteq> t" "alive g s3 a" "alive g s3 t"
    using new_treeD(1,2) [OF a(1)] new_treeD(1,2) [OF t(1)] steadyD(1) [OF 1] steadyD(1) [OF steady_new [OF 1 a(1)]] by auto
  then have ta: "expr1 g s3 ADDR_EXPR a p" "code_of g s3 t = CALL_EXPR"
    using new_treeD(3) [OF a(1)] a(3) [of 0] new_treeD(3,7,8) [OF t(1)] by (auto simp: expr1_def)
  have "emitted g l b {} (\<lambda>s. represents g s f env (Proc_Call p as)) (Done (append_stmt g t (b\<lparr>trees := ?s\<rparr>)))"
  proof (rule emitted_append [OF ok r])
    show "steady g ?A {} (trees b) ?s" by (intro steady_set_flag ok k) simp
    show "code_of g ?s t \<noteq> STATEMENT_LIST" using ta(2) by (simp add: set_flag_simps [OF ok])
    fix s' assume "settled g ?A ?s s'"
    then have s': "settled g ?A s3 s'" by (rule settled_trans [OF settled_set_flag [OF ok settled_refl]])
    note t' = settledD [OF s' fresh(5)]
    show "represents g s' f env (Proc_Call p as) [t]"
      using t'(3) t'(5) ta(2) t(3,4) fresh expr1_settled [OF s' ta(1)] by (intro proc_call [of _ _ _ a]) simp_all
  qed
  then show ?thesis
    using n1 n2 n3 p
    by (simp add: new_procedure_call_def new_function_call_def fold_new_association start_association_def
        build_function_ptr_def tree_op_def comp_def)
qed

lemma emitted_exit:
  assumes ok: "gcc_ok g" and r: "ready g f l b" and n: "n < length env"
  shows "emitted g l b {end_label (env ! n)} (\<lambda>s. represents g s f env (Exit n)) (Done (new_exit_stmt g (env ! n) b))"
proof -
  have "emitted g l b {} (\<lambda>s. represents g s f env (Exit n))
      (Done (let (t, b1) = tree_op (build g GOTO_EXPR (void_type g) [Some (end_label (env ! n))]) b in append_stmt g t b1))"
    by (rule emitted_expr1(1) [OF ok r]) (simp_all add: exit_loop n)
  then show ?thesis
    by (auto simp: new_exit_stmt_def case_prod_unfold Let_def emitted_def grown_def kept_def settled_def
        lasting_def set_flag_simps [OF ok] intro!: exI)
qed

lemma emitted_next:
  assumes ok: "gcc_ok g" and r: "ready g f l b" and n: "n < length env"
  shows "emitted g l b {beg_label (env ! n)} (\<lambda>s. represents g s f env (Continue n)) (Done (new_next_stmt g (env ! n) b))"
  using emitted_expr1(2) [where P = "\<lambda>s. represents g s f env (Continue n)", OF ok r, of GOTO_EXPR "beg_label (env ! n)"]
  by (simp add: new_next_stmt_def continue_loop n)

end
