(* ===== verification/Ortho_Structured.thy ===== *)
theory Ortho_Structured
  imports Ortho_Refine
begin

text \<open>
  The structured statements, and the refinement: the trees that the functions of \<open>ortho-lang-7.c\<close> make of
  a structured program represent it.
\<close>

section \<open>Programs that can be emitted\<close>

text \<open>
  A program can be emitted in \<open>n\<close> loops when it leaves and continues only these, and calls subprograms
  that have a type.
\<close>

fun feasible :: "('t, 's) gcc \<Rightarrow> 's \<Rightarrow> nat \<Rightarrow> 't stmt \<Rightarrow> bool" where
  "feasible g s n (Exit m) \<longleftrightarrow> m < n"
| "feasible g s n (Continue m) \<longleftrightarrow> m < n"
| "feasible g s n (Proc_Call p as) \<longleftrightarrow> alive g s p \<and> link_of g s TREE_TYPE p \<noteq> None"
| "feasible g s n (If_Then c ss) \<longleftrightarrow> (\<forall>st \<in> set ss. feasible g s n st)"
| "feasible g s n (If_Else c ss1 ss2) \<longleftrightarrow> (\<forall>st \<in> set ss1. feasible g s n st) \<and> (\<forall>st \<in> set ss2. feasible g s n st)"
| "feasible g s n (Loop ss) \<longleftrightarrow> (\<forall>st \<in> set ss. feasible g s (Suc n) st)"
| "feasible g s n (Case v alts) \<longleftrightarrow> (\<forall>(cs, ss) \<in> set alts. \<forall>st \<in> set ss. feasible g s n st)"
| "feasible g s n (Declare vs ss) \<longleftrightarrow> (\<forall>st \<in> set ss. feasible g s n st)"
| "feasible g s n _ \<longleftrightarrow> True"

definition labels_alive :: "('t, 's) gcc \<Rightarrow> 's \<Rightarrow> 't o_snode list \<Rightarrow> bool" where
  "labels_alive g s env \<longleftrightarrow> (\<forall>t \<in> env_labels env. alive g s t)"

definition labels_used :: "'t o_snode list \<Rightarrow> 't stmt \<Rightarrow> 't set" where
  "labels_used env st = {t. \<exists>n < length env. exits n st \<and> t = end_label (env ! n) \<or> continues n st \<and> t = beg_label (env ! n)}"

definition labels_used_all :: "'t o_snode list \<Rightarrow> 't stmt list \<Rightarrow> 't set" where
  "labels_used_all env ss = (\<Union>st \<in> set ss. labels_used env st)"

definition well_emitted :: "('t, 's) gcc \<Rightarrow> 't stmt \<Rightarrow> bool" where
  "well_emitted g st \<longleftrightarrow> (\<forall>f l b env. ready g f l b \<longrightarrow> feasible g (trees b) (length env) st \<longrightarrow>
     labels_alive g (trees b) env \<longrightarrow>
     emitted g l b (labels_used env st) (\<lambda>s. represents g s f env st) (emit g env st b))"

definition well_emitted_all :: "('t, 's) gcc \<Rightarrow> 't stmt list \<Rightarrow> bool" where
  "well_emitted_all g ss \<longleftrightarrow> (\<forall>f l b env. ready g f l b \<longrightarrow> (\<forall>st \<in> set ss. feasible g (trees b) (length env) st) \<longrightarrow>
     labels_alive g (trees b) env \<longrightarrow>
     emitted g l b (labels_used_all env ss) (\<lambda>s. represents_all g s f env ss) (emit_all g env ss b))"

lemma feasible_mono:
  assumes "feasible g s n st"
    and k: "\<And>t. alive g s t \<Longrightarrow> alive g s' t" "\<And>t. alive g s t \<Longrightarrow> link_of g s' TREE_TYPE t = link_of g s TREE_TYPE t"
  shows "feasible g s' n st"
  using assms(1)
proof (induction st arbitrary: n)
  case (Case v alts)
  then show ?case by fastforce
qed (use k in auto)

lemma labels_alive_mono:
  "labels_alive g s env \<Longrightarrow> (\<And>t. alive g s t \<Longrightarrow> alive g s' t) \<Longrightarrow> labels_alive g s' env"
  by (auto simp: labels_alive_def)

lemma kept_feasible: "feasible g s n st \<Longrightarrow> kept g U l s s' \<Longrightarrow> feasible g s' n st"
  by (erule feasible_mono) (simp_all add: kept_def)

lemma kept_labels_alive: "labels_alive g s env \<Longrightarrow> kept g U l s s' \<Longrightarrow> labels_alive g s' env"
  by (erule labels_alive_mono) (simp add: kept_def)

section \<open>Sequences\<close>

lemma emitted_Nil: "ready g f l b \<Longrightarrow> emitted g l b {} (\<lambda>s. represents_all g s f env []) (Done b)"
  by (intro emittedI [where ts = "[]"]) (auto simp: ready_def intro: grown_refl lastingI all_Nil)

lemma well_emitted_all:
  assumes "\<And>st. st \<in> set ss \<Longrightarrow> well_emitted g st"
  shows "well_emitted_all g ss"
  using assms
proof (induction ss)
  case Nil
  then show ?case by (simp add: well_emitted_all_def labels_used_all_def emitted_Nil)
next
  case (Cons st ss)
  show ?case unfolding well_emitted_all_def
  proof (intro allI impI)
    fix f l b env
    assume r: "ready g f l b" and fe: "\<forall>st' \<in> set (st # ss). feasible g (trees b) (length env) st'"
      and la: "labels_alive g (trees b) env"
    have "emitted g l b (labels_used env st \<union> labels_used_all env ss) (\<lambda>s. represents_all g s f env (st # ss))
      (rbind (emit g env st b) (emit_all g env ss))"
    proof (rule emitted_bind [OF _ r])
      show "emitted g l b (labels_used env st) (\<lambda>s. represents g s f env st) (emit g env st b)"
        using Cons.prems r fe la by (simp add: well_emitted_def)
      fix b' ts assume r': "ready g f l b'" and gr: "grown g (labels_used env st) l ts b b'"
      note k = grown_kept [OF gr]
      have "well_emitted_all g ss" using Cons by simp
      then show "emitted g l b' (labels_used_all env ss) (\<lambda>s. represents_all g s f env ss) (emit_all g env ss b')"
        using r' fe kept_feasible [OF _ k] kept_labels_alive [OF la k] by (simp add: well_emitted_all_def)
    qed (rule all_Cons)
    then show "emitted g l b (labels_used_all env (st # ss)) (\<lambda>s. represents_all g s f env (st # ss)) (emit_all g env (st # ss) b)"
      by (simp add: labels_used_all_def)
  qed
qed

section \<open>Lists of statements inside of a statement\<close>

text \<open>A new list is made, and a statement of which it is an operand is appended.\<close>

lemma open_list:
  assumes ok: "gcc_ok g" and r: "ready g f l b" and k: "steady g (alive g (trees b)) {} (trees b) s0"
    and c: "c \<noteq> STATEMENT_LIST"
  obtains l2 t sA sB s1 where "alloc_stmt_list g s0 = (l2, sA)" "build g c ty [Some v, Some l2, None] sA = (t, sB)"
    and "append_stmt g t (b\<lparr>trees := sB\<rparr>) = b\<lparr>trees := s1\<rparr>" "grown g {} l [t] b (b\<lparr>trees := s1\<rparr>)"
    and "ready g f l2 (b\<lparr>trees := s1, cur_stmts := Some l2\<rparr>)" "stmts_of g s1 l2 = []"
    and "\<not> alive g (trees b) l2" "\<not> alive g (trees b) t" "alive g s1 t" "code_of g s1 t = c" "l2 \<noteq> t"
    and "link_of g s1 (TREE_OPERAND 0) t = Some v" "link_of g s1 (TREE_OPERAND 1) t = Some l2"
    and "link_of g s1 (TREE_OPERAND 2) t = None" "settled g (alive g (trees b)) s0 s1"
    and "\<And>x. alive g s0 x \<Longrightarrow> flag_of g s1 TREE_USED x = flag_of g s0 TREE_USED x"
proof -
  let ?A = "alive g (trees b)"
  obtain l2 sA where a: "alloc_stmt_list g s0 = (l2, sA)" by fastforce
  obtain t sB where n: "build g c ty [Some v, Some l2, None] sA = (t, sB)" by fastforce
  note a' = new_treeD [OF alloc_stmt_list_new [OF ok a]]
  note n' = build_new [OF ok n]
  note t' = new_treeD [OF n'(1)]
  have k1: "steady g ?A {} (trees b) sB"
    by (rule steady_new [OF steady_new [OF k alloc_stmt_list_new [OF ok a]] n'(1)])
  have t: "code_of g sB t = c" "alive g sB t" "\<not> ?A t" "alive g sB l2" "\<not> ?A l2" "l2 \<noteq> t"
    "code_of g sB l2 = STATEMENT_LIST" "stmts_of g sB l2 = []"
    using a'(1-3,6) t'(1-3,7,11) steadyD(1) [OF k] by auto
  obtain s1 where s1: "append_stmt g t (b\<lparr>trees := sB\<rparr>) = b\<lparr>trees := s1\<rparr>" "grown g {} l [t] b (b\<lparr>trees := s1\<rparr>)"
    "settled g ?A sB s1" "alive g s1 = alive g sB" "code_of g s1 = code_of g sB" "link_of g s1 = link_of g sB"
    "flag_of g s1 TREE_USED = flag_of g sB TREE_USED" "stmts_of g s1 = (stmts_of g sB)(l := stmts_of g sB l @ [t])"
    using append_grown [OF ok r k1, of t] t c by metis
  have l: "l \<noteq> l2" using t ready_alive [OF r] by auto
  show thesis
  proof (rule that [OF a n s1(1,2)])
    have "ready g f l (b\<lparr>trees := s1\<rparr>)" by (rule grown_ready [OF r s1(2)]) (use r in \<open>simp add: ready_def\<close>)
    then show "ready g f l2 (b\<lparr>trees := s1, cur_stmts := Some l2\<rparr>)" using t s1 by (simp add: ready_def)
    show "stmts_of g s1 l2 = []" using s1(8) t(8) l by simp
    show "settled g ?A s0 s1"
      by (rule settled_trans [OF settled_new [OF settled_new [OF settled_refl alloc_stmt_list_new [OF ok a]] n'(1)] s1(3)])
    show "flag_of g s1 TREE_USED x = flag_of g s0 TREE_USED x" if "alive g s0 x" for x
      using that a'(1,2,9) t'(1,2,9) s1(7) by (metis (full_types))
    show "link_of g s1 (TREE_OPERAND 0) t = Some v" "link_of g s1 (TREE_OPERAND 1) t = Some l2"
      "link_of g s1 (TREE_OPERAND 2) t = None"
      using n'(3) [of 0] n'(3) [of 1] n'(3) [of 2] s1(6) by simp_all
  qed (use t s1 in simp_all)
qed

text \<open>Statements are emitted into a new list.\<close>

lemma settled_kept_new:
  assumes "settled g A s s1" "kept g U l s1 s2" "\<not> alive g s l"
  shows "settled g A s s2"
  unfolding settled_def
proof (intro allI impI)
  fix t assume t: "alive g s t"
  note 1 = settledD [OF assms(1) t]
  have "t \<noteq> l" using t assms(3) by auto
  with 1(1) assms(2) have "alive g s2 t" "code_of g s2 t = code_of g s1 t" "stmts_of g s2 t = stmts_of g s1 t"
    "\<And>fl. stable_field fl \<Longrightarrow> link_of g s2 fl t = link_of g s1 fl t"
    by (simp_all add: kept_def stable_field_def)
  with 1 show "alive g s2 t \<and> link_of g s2 DECL_RESULT t = link_of g s DECL_RESULT t \<and>
     (\<not> A t \<longrightarrow> code_of g s2 t = code_of g s t \<and>
       (\<forall>fl. stable_field fl \<longrightarrow> link_of g s2 fl t = link_of g s fl t) \<and> stmts_of g s2 t = stmts_of g s t)"
    by simp
qed

lemma close_list:
  assumes r: "ready g f l b" and gr: "grown g U l us b b1" and r2: "ready g f l2 b1'"
    and b1': "b1' = b1\<lparr>cur_stmts := Some l2\<rparr>" and l2: "stmts_of g (trees b1) l2 = []" "\<not> alive g (trees b) l2"
    and em: "emitted g l2 b1' U' Q m"
  obtains b2 ts where "m = Done b2" "grown g (U \<union> U') l us b b2" "ready g f l2 b2" "stmts_of g (trees b2) l2 = ts"
    and "lasting g (alive g (trees b1)) (trees b2) (\<lambda>s. Q s ts)" "kept g U' l2 (trees b1) (trees b2)"
proof -
  obtain b2 ts where b2: "m = Done b2" "cur_stmts b2 = Some l2" "grown g U' l2 ts b1' b2"
    "lasting g (alive g (trees b1')) (trees b2) (\<lambda>s. Q s ts)"
    using em by (auto simp: emitted_def)
  show thesis
  proof (rule that [OF b2(1)])
    show "grown g (U \<union> U') l us b b2" using grown_inner [OF gr _ l2(2) ready_alive [OF r]] b2(3) b1' by simp
    show "ready g f l2 b2" by (rule grown_ready [OF r2 b2(3,2)])
    show "stmts_of g (trees b2) l2 = ts" using b2(3) l2 b1' by (simp add: grown_def)
  qed (use b2 b1' grown_kept [OF b2(3)] in simp_all)
qed

lemma labels_used_simps:
  "labels_used env (If_Then c ss) = labels_used_all env ss"
  "labels_used env (If_Else c ss1 ss2) = labels_used_all env ss1 \<union> labels_used_all env ss2"
  "labels_used env (Declare vs ss) = labels_used_all env ss"
  "labels_used env (Case v alts) = (\<Union>(cs, ss) \<in> set alts. labels_used_all env ss)"
  by (auto simp: labels_used_all_def labels_used_def) (metis (mono_tags, lifting) case_prodI)+

section \<open>Conditional statements\<close>

lemma emitted_if_then:
  assumes ok: "gcc_ok g" and ss: "well_emitted_all g ss"
  shows "well_emitted g (If_Then c ss)"
  unfolding well_emitted_def
proof (intro allI impI)
  fix f l b env
  assume r: "ready g f l b" and fe: "feasible g (trees b) (length env) (If_Then c ss)"
    and la: "labels_alive g (trees b) env"
  let ?A = "alive g (trees b)" and ?U = "labels_used_all env ss"
  obtain l2 t sA sB s1 where o: "alloc_stmt_list g (trees b) = (l2, sA)"
    "build g COND_EXPR (void_type g) [Some c, Some l2, None] sA = (t, sB)"
    "append_stmt g t (b\<lparr>trees := sB\<rparr>) = b\<lparr>trees := s1\<rparr>" "grown g {} l [t] b (b\<lparr>trees := s1\<rparr>)"
    "ready g f l2 (b\<lparr>trees := s1, cur_stmts := Some l2\<rparr>)" "stmts_of g s1 l2 = []"
    "\<not> ?A l2" "\<not> ?A t" "alive g s1 t" "code_of g s1 t = COND_EXPR" "link_of g s1 (TREE_OPERAND 0) t = Some c"
    "link_of g s1 (TREE_OPERAND 1) t = Some l2" "link_of g s1 (TREE_OPERAND 2) t = None"
    by (rule open_list [OF ok r steady_refl, where c = COND_EXPR and ty = "void_type g" and v = c]) auto
  let ?b1 = "b\<lparr>trees := s1, cur_stmts := Some l2\<rparr>"
  note k1 = grown_kept [OF o(4)]
  have em: "emitted g l2 ?b1 ?U (\<lambda>s. represents_all g s f env ss) (emit_all g env ss ?b1)"
    using ss o(5) fe kept_feasible [OF _ k1] kept_labels_alive [OF la k1]
    unfolding well_emitted_all_def by simp
  obtain b2 ts where b2: "emit_all g env ss ?b1 = Done b2" "grown g ?U l [t] b b2" "ready g f l2 b2"
    "stmts_of g (trees b2) l2 = ts" "lasting g (alive g s1) (trees b2) (\<lambda>s. represents_all g s f env ss ts)"
    "kept g ?U l2 s1 (trees b2)"
    using close_list [OF r o(4,5) _ _ o(7) em] o(6) by auto
  have t: "alive g (trees b2) t" "code_of g (trees b2) t = COND_EXPR"
    "fl \<noteq> BLOCK_CHAIN \<Longrightarrow> link_of g (trees b2) fl t = link_of g s1 fl t" for fl
    using b2(6) o(9,10) by (simp_all add: kept_def)
  have "represents g s' f env (If_Then c ss) [t]" if s': "settled g ?A (trees b2) s'" for s'
  proof (rule if_then)
    show "expr1 g s' COND_EXPR t c"
      using expr1_settled [OF s', of COND_EXPR t c] t o by (simp add: expr1_def)
    show "body g s' 1 t ts"
      using body_settled [OF s' t(1) o(8), of 1 l2] t o b2(3,4) by (simp add: ready_def)
    show "link_of g s' COND_EXPR_ELSE t = None"
      using settledD(5) [OF s' t(1) o(8)] t o by simp
    show "represents_all g s' f env ss ts"
      using lasting_less [OF b2(5), of ?A] grown_alive [OF o(4)] s' by (auto intro: lastingD)
  qed
  then have "emitted g l b (labels_used env (If_Then c ss)) (\<lambda>s. represents g s f env (If_Then c ss))
      (Done (b2\<lparr>cur_stmts := Some l\<rparr>))"
    using b2(2) by (intro emittedI [where b' = "b2\<lparr>cur_stmts := Some l\<rparr>" and ts = "[t]"] lastingI)
      (simp_all add: labels_used_simps)
  then show "emitted g l b (labels_used env (If_Then c ss)) (\<lambda>s. represents g s f env (If_Then c ss)) (emit g env (If_Then c ss) b)"
    using b2(1) r by (simp add: start_if_stmt_def finish_if_stmt_def tree_op_def o(1-3) ready_def)
qed

lemma emitted_if_else:
  assumes ok: "gcc_ok g" and ss1: "well_emitted_all g ss1" and ss2: "well_emitted_all g ss2"
  shows "well_emitted g (If_Else c ss1 ss2)"
  unfolding well_emitted_def
proof (intro allI impI)
  fix f l b env
  assume r: "ready g f l b" and fe: "feasible g (trees b) (length env) (If_Else c ss1 ss2)"
    and la: "labels_alive g (trees b) env"
  let ?A = "alive g (trees b)" and ?U1 = "labels_used_all env ss1" and ?U2 = "labels_used_all env ss2"
  let ?st = "If_Else c ss1 ss2"
  obtain l2 t sA sB s1 where o: "alloc_stmt_list g (trees b) = (l2, sA)"
    "build g COND_EXPR (void_type g) [Some c, Some l2, None] sA = (t, sB)"
    "append_stmt g t (b\<lparr>trees := sB\<rparr>) = b\<lparr>trees := s1\<rparr>" "grown g {} l [t] b (b\<lparr>trees := s1\<rparr>)"
    "ready g f l2 (b\<lparr>trees := s1, cur_stmts := Some l2\<rparr>)" "stmts_of g s1 l2 = []"
    "\<not> ?A l2" "\<not> ?A t" "alive g s1 t" "code_of g s1 t = COND_EXPR" "link_of g s1 (TREE_OPERAND 0) t = Some c"
    "link_of g s1 (TREE_OPERAND 1) t = Some l2" "l2 \<noteq> t"
    by (rule open_list [OF ok r steady_refl, where c = COND_EXPR and ty = "void_type g" and v = c]) auto
  let ?b1 = "b\<lparr>trees := s1, cur_stmts := Some l2\<rparr>"
  note k1 = grown_kept [OF o(4)]
  have em: "emitted g l2 ?b1 ?U1 (\<lambda>s. represents_all g s f env ss1) (emit_all g env ss1 ?b1)"
    using ss1 o(5) fe kept_feasible [OF _ k1] kept_labels_alive [OF la k1]
    unfolding well_emitted_all_def by simp
  obtain b2 ts1 where b2: "emit_all g env ss1 ?b1 = Done b2" "grown g ?U1 l [t] b b2" "ready g f l2 b2"
    "stmts_of g (trees b2) l2 = ts1" "lasting g (alive g s1) (trees b2) (\<lambda>s. represents_all g s f env ss1 ts1)"
    "kept g ?U1 l2 s1 (trees b2)"
    using close_list [OF r o(4,5) _ _ o(7) em] o(6) by auto
  have t2: "alive g (trees b2) t" "code_of g (trees b2) t = COND_EXPR"
    "fl \<noteq> BLOCK_CHAIN \<Longrightarrow> link_of g (trees b2) fl t = link_of g s1 fl t" for fl
    using b2(6) o(9,10) by (simp_all add: kept_def)
  obtain l3 sC where n: "alloc_stmt_list g (trees b2) = (l3, sC)" by fastforce
  note l3 = alloc_stmt_list_new [OF ok n]
  let ?s3 = "set_link g COND_EXPR_ELSE t (Some l3) sC"
  let ?b3 = "b2\<lparr>trees := ?s3\<rparr>"
  have A2: "?A x \<Longrightarrow> alive g (trees b2) x" for x using grown_alive [OF b2(2)] .
  have l3': "\<not> alive g (trees b2) l3" "alive g ?s3 l3" "code_of g ?s3 l3 = STATEMENT_LIST" "stmts_of g ?s3 l3 = []" "\<not> ?A l3"
    using new_treeD(1-3,6) [OF l3] A2 by (auto simp: set_link_simps [OF ok])
  have "steady g ?A {} (trees b2) ?s3"
    by (intro steady_set_link ok steady_new [OF steady_refl l3] disjI2 o(8)) (rule A2)
  then have gr3: "grown g ?U1 l [t] b ?b3"
    using grown_steady [OF b2(2) _ ready_alive [OF r]] by fastforce
  note k3 = grown_kept [OF gr3]
  have "t \<noteq> l3" using t2(1) l3'(1) by auto
  then have t3: "alive g ?s3 t" "code_of g ?s3 t = COND_EXPR" "link_of g ?s3 COND_EXPR_ELSE t = Some l3"
    "fl \<noteq> BLOCK_CHAIN \<Longrightarrow> fl \<noteq> COND_EXPR_ELSE \<Longrightarrow> link_of g ?s3 fl t = link_of g s1 fl t" for fl
    using t2 new_treeD(1,2,7,8) [OF l3] by (auto simp: set_link_simps [OF ok])
  have r3: "ready g f l3 (?b3\<lparr>cur_stmts := Some l3\<rparr>)"
    using grown_ready [OF r gr3, of] b2(3) l3' new_treeD(2) [OF l3] by (simp add: ready_def set_link_simps [OF ok])
  have em2: "emitted g l3 (?b3\<lparr>cur_stmts := Some l3\<rparr>) ?U2 (\<lambda>s. represents_all g s f env ss2) (emit_all g env ss2 (?b3\<lparr>cur_stmts := Some l3\<rparr>))"
    using ss2 r3 fe kept_feasible [OF _ k3] kept_labels_alive [OF la k3]
    unfolding well_emitted_all_def by simp
  obtain b4 ts2 where b4: "emit_all g env ss2 (?b3\<lparr>cur_stmts := Some l3\<rparr>) = Done b4" "grown g (?U1 \<union> ?U2) l [t] b b4"
    "ready g f l3 b4" "stmts_of g (trees b4) l3 = ts2"
    "lasting g (alive g ?s3) (trees b4) (\<lambda>s. represents_all g s f env ss2 ts2)" "kept g ?U2 l3 ?s3 (trees b4)"
    using close_list [OF r gr3 r3 refl _ l3'(5) em2] l3'(4) by auto
  have t: "alive g (trees b4) t" "code_of g (trees b4) t = COND_EXPR" "link_of g (trees b4) COND_EXPR_ELSE t = Some l3"
    "fl \<noteq> BLOCK_CHAIN \<Longrightarrow> fl \<noteq> COND_EXPR_ELSE \<Longrightarrow> link_of g (trees b4) fl t = link_of g s1 fl t" for fl
    using b4(6) t3 by (simp_all add: kept_def)
  have st: "settled g (alive g s1) (trees b2) (trees b4)"
    by (rule settled_kept_new [OF settled_set_link [OF ok settled_new [OF settled_refl l3]] b4(6) l3'(1)]) (simp add: o(9))
  have l2: "alive g (trees b4) l2" "code_of g (trees b4) l2 = STATEMENT_LIST" "stmts_of g (trees b4) l2 = ts1"
  proof -
    have l2: "alive g (trees b2) l2" "code_of g (trees b2) l2 = STATEMENT_LIST" using b2(3) by (simp_all add: ready_def)
    then have "l2 \<noteq> l3" using l3'(1) by auto
    then have "alive g ?s3 l2" "code_of g ?s3 l2 = STATEMENT_LIST" "stmts_of g ?s3 l2 = ts1"
      using l2 b2(4) new_treeD(2,7,11) [OF l3] by (simp_all add: set_link_simps [OF ok])
    then show "alive g (trees b4) l2" "code_of g (trees b4) l2 = STATEMENT_LIST" "stmts_of g (trees b4) l2 = ts1"
      using b4(6) \<open>l2 \<noteq> l3\<close> by (simp_all add: kept_def)
  qed
  have "represents g s' f env ?st [t]" if s': "settled g ?A (trees b4) s'" for s'
  proof (rule if_else)
    show "expr1 g s' COND_EXPR t c"
      using expr1_settled [OF s', of COND_EXPR t c] t o by (simp add: expr1_def)
    show "body g s' 1 t ts1"
      using body_settled [OF s' t(1) o(8), of 1 l2] t o l2 by simp
    show "body g s' 2 t ts2"
      using body_settled [OF s' t(1) o(8), of 2 l3] t l3'(5) b4(3,4) by (simp add: ready_def)
    show "represents_all g s' f env ss1 ts1"
      using lasting_less [OF lasting_step [OF b2(5) st], of ?A] grown_alive [OF o(4)] s' by (auto intro: lastingD)
    show "represents_all g s' f env ss2 ts2"
      using lasting_less [OF b4(5), of ?A] grown_alive [OF gr3] s' by (auto intro: lastingD)
  qed
  then have "emitted g l b (labels_used env ?st) (\<lambda>s. represents g s f env ?st) (Done (b4\<lparr>cur_stmts := Some l\<rparr>))"
    using b4(2) by (intro emittedI [where b' = "b4\<lparr>cur_stmts := Some l\<rparr>" and ts = "[t]"] lastingI)
      (simp_all add: labels_used_simps)
  moreover have "b2\<lparr>cur_stmts := Some l3, trees := ?s3\<rparr> = ?b3\<lparr>cur_stmts := Some l3\<rparr>" by simp
  then have "emit_all g env ss2 (b2\<lparr>cur_stmts := Some l3, trees := ?s3\<rparr>) = Done b4" using b4(1) by metis
  ultimately show "emitted g l b (labels_used env ?st) (\<lambda>s. represents g s f env ?st) (emit g env ?st b)"
    using b2(1) r
    by (simp add: start_if_stmt_def new_else_stmt_def finish_if_stmt_def tree_op_def o(1-3) n ready_def comp_def)
qed


section \<open>Loops\<close>

lemma steady_trans: "steady g A U s s1 \<Longrightarrow> steady g (alive g s1) {} s1 s2 \<Longrightarrow> steady g A U s s2"
  unfolding steady_def by auto

lemma build_label_spec:
  assumes ok: "gcc_ok g"
  obtains t s where "build_label g b = (t, b\<lparr>trees := s\<rparr>)" "\<not> alive g (trees b) t"
    and "\<And>x. alive g s x \<longleftrightarrow> x = t \<or> alive g (trees b) x" "\<not> flag_of g s TREE_USED t"
    and "steady g (alive g (trees b)) {} (trees b) s" "\<forall>A. settled g A (trees b) s"
proof -
  obtain t s1 where n: "build_decl g (input_location b) LABEL_DECL None (void_type g) (trees b) = (t, s1)" by fastforce
  note new = build_decl_new(1) [OF ok n]
  let ?s = "set_flag g DECL_ARTIFICIAL t True (set_link g DECL_CONTEXT t (current_function_decl b) s1)"
  show thesis
  proof (rule that [of t ?s])
    show "build_label g b = (t, b\<lparr>trees := ?s\<rparr>)" by (simp add: build_label_def tree_op_def n comp_def)
    show "\<not> alive g (trees b) t" by (rule new_treeD(1) [OF new])
    show "alive g ?s x \<longleftrightarrow> x = t \<or> alive g (trees b) x" for x
      by (simp add: new_treeD(2) [OF new] set_flag_simps set_link_simps ok)
    show "\<not> flag_of g ?s TREE_USED t" by (simp add: new_treeD(5) [OF new] set_flag_simps set_link_simps ok)
    show "steady g (alive g (trees b)) {} (trees b) ?s"
      by (intro steady_set_flag steady_set_link ok steady_new [OF steady_refl new]) (simp_all add: new_treeD(1) [OF new])
    show "\<forall>A. settled g A (trees b) ?s"
      by (intro allI settled_set_flag settled_set_link ok settled_new [OF settled_refl new]) (simp add: new_treeD(1) [OF new])
  qed
qed

lemma emitted_prefix:
  assumes r: "ready g f l b" and gr: "grown g U l ts b b1" and em: "emitted g l b1 U' Q m"
    and R: "\<And>s us. settled g (alive g (trees b)) (trees b1) s \<Longrightarrow> Q s us \<Longrightarrow> R s (ts @ us)"
  shows "emitted g l b (U \<union> U') R m"
proof -
  let ?A = "alive g (trees b)"
  obtain b2 us where b2: "m = Done b2" "cur_stmts b2 = Some l" "grown g U' l us b1 b2"
    "lasting g (alive g (trees b1)) (trees b2) (\<lambda>s. Q s us)"
    using em by (auto simp: emitted_def)
  have "settled g ?A (trees b1) (trees b2)" by (rule settled_kept [OF grown_kept [OF b2(3)]]) (simp add: ready_alive [OF r])
  moreover have "lasting g ?A (trees b2) (\<lambda>s. Q s us)"
    using lasting_less [OF b2(4)] grown_alive [OF gr] by blast
  ultimately have "lasting g ?A (trees b2) (\<lambda>s. R s (ts @ us))"
    using settled_trans R unfolding lasting_def by metis
  then show ?thesis using b2 grown_trans [OF gr b2(3)] by (intro emittedI) simp_all
qed

lemma labels_used_loop:
  assumes "t \<notin> {beg_label l, end_label l}"
  shows "t \<in> labels_used_all (l # env) ss \<longleftrightarrow> t \<in> labels_used env (Loop ss)"
proof
  assume "t \<in> labels_used_all (l # env) ss"
  then obtain st n where "st \<in> set ss" "n < length (l # env)"
    "exits n st \<and> t = end_label ((l # env) ! n) \<or> continues n st \<and> t = beg_label ((l # env) ! n)"
    by (auto simp: labels_used_all_def labels_used_def)
  with assms show "t \<in> labels_used env (Loop ss)"
    by (cases n) (auto simp: labels_used_def)
next
  assume "t \<in> labels_used env (Loop ss)"
  then obtain st n where "st \<in> set ss" "n < length env"
    "exits (Suc n) st \<and> t = end_label (env ! n) \<or> continues (Suc n) st \<and> t = beg_label (env ! n)"
    by (auto simp: labels_used_def)
  then show "t \<in> labels_used_all (l # env) ss"
    by (auto simp: labels_used_all_def labels_used_def intro!: bexI [of _ st] exI [of _ "Suc n"])
qed

lemma end_label_used:
  assumes "end_label l \<notin> env_labels env" "beg_label l \<noteq> end_label l"
  shows "end_label l \<in> labels_used_all (l # env) ss \<longleftrightarrow> (\<exists>st \<in> set ss. exits 0 st)"
proof
  assume "end_label l \<in> labels_used_all (l # env) ss"
  then obtain st n where *: "st \<in> set ss" "n < length (l # env)"
    "exits n st \<and> end_label l = end_label ((l # env) ! n) \<or> continues n st \<and> end_label l = beg_label ((l # env) ! n)"
    by (auto simp: labels_used_all_def labels_used_def)
  with assms show "\<exists>st \<in> set ss. exits 0 st"
    by (cases n) (auto simp: env_labels_def)
next
  assume "\<exists>st \<in> set ss. exits 0 st"
  then show "end_label l \<in> labels_used_all (l # env) ss"
    by (auto simp: labels_used_all_def labels_used_def intro!: exI [of _ 0])
qed

text \<open>The end of a loop: the jump back, and the end label when it is used\<close>

lemma emitted_finish_loop:
  assumes ok: "gcc_ok g" and r: "ready g f l b" and ne: "beg_label n \<noteq> end_label n"
    and used: "flag_of g (trees b) TREE_USED (end_label n) \<longleftrightarrow> u" and al: "alive g (trees b) (end_label n)"
  shows "emitted g l b {beg_label n} (\<lambda>s ts. \<exists>t2 ts3. ts = t2 # ts3 \<and> expr1 g s GOTO_EXPR t2 (beg_label n) \<and>
     (if u then \<exists>t3. ts3 = [t3] \<and> expr1 g s LABEL_EXPR t3 (end_label n) else ts3 = []))
     (Done (finish_loop_stmt g n b))"
proof -
  let ?P = "\<lambda>s ts. \<exists>t. ts = [t] \<and> expr1 g s GOTO_EXPR t (beg_label n)"
  let ?Q = "\<lambda>s ts. if u then \<exists>t3. ts = [t3] \<and> expr1 g s LABEL_EXPR t3 (end_label n) else ts = []"
  let ?F = "\<lambda>b. Done (if flag_of g (trees b) TREE_USED (end_label n)
      then let (t, b1) = tree_op (build g LABEL_EXPR (void_type g) [Some (end_label n)]) b in append_stmt g t b1 else b)"
  let ?m = "Done (let (t, b1) = tree_op (build g GOTO_EXPR (void_type g) [Some (beg_label n)]) b in
             append_stmt g t (trees_update (set_flag g TREE_USED (beg_label n) True) b1))"
  have "emitted g l b ({beg_label n} \<union> {}) (\<lambda>s ts. \<exists>t2 ts3. ts = t2 # ts3 \<and> expr1 g s GOTO_EXPR t2 (beg_label n) \<and> ?Q s ts3)
      (rbind ?m ?F)"
  proof (rule emitted_bind [OF _ r])
    show "emitted g l b {beg_label n} ?P ?m" by (rule emitted_expr1(2) [OF ok r]) simp_all
    fix b' ts assume r': "ready g f l b'" and gr: "grown g {beg_label n} l ts b b'"
    have "flag_of g (trees b') TREE_USED (end_label n) \<longleftrightarrow> u"
      using grown_kept [OF gr] al used ne by (auto simp: kept_def)
    moreover have "emitted g l b' {} (\<lambda>s ts. ts = []) (Done b')"
      using r' grown_refl [OF r'] by (intro emittedI [where ts = "[]"]) (auto simp: ready_def lasting_def)
    moreover have "emitted g l b' {} (\<lambda>s ts. \<exists>t3. ts = [t3] \<and> expr1 g s LABEL_EXPR t3 (end_label n))
        (Done (let (t, b1) = tree_op (build g LABEL_EXPR (void_type g) [Some (end_label n)]) b' in append_stmt g t b1))"
      by (rule emitted_expr1(1) [OF ok r']) simp_all
    ultimately show "emitted g l b' {} ?Q (?F b')" by (cases u) simp_all
  next
    fix s ts us assume "?P s ts" and us: "?Q s us"
    then obtain t where "ts = [t]" "expr1 g s GOTO_EXPR t (beg_label n)" by auto
    with us show "\<exists>t2 ts3. ts @ us = t2 # ts3 \<and> expr1 g s GOTO_EXPR t2 (beg_label n) \<and> ?Q s ts3" by simp
  qed
  then show ?thesis by (simp add: finish_loop_stmt_def case_prod_unfold Let_def)
qed

lemma emitted_loop:
  assumes ok: "gcc_ok g" and ss: "well_emitted_all g ss"
  shows "well_emitted g (Loop ss)"
  unfolding well_emitted_def
proof (intro allI impI)
  fix f l b env
  assume r: "ready g f l b" and fe: "feasible g (trees b) (length env) (Loop ss)"
    and la: "labels_alive g (trees b) env"
  let ?A = "alive g (trees b)"
  obtain beg sa where a: "build_label g b = (beg, b\<lparr>trees := sa\<rparr>)" "\<not> ?A beg"
    "\<And>x. alive g sa x \<longleftrightarrow> x = beg \<or> ?A x" "\<not> flag_of g sa TREE_USED beg" "steady g ?A {} (trees b) sa"
    using build_label_spec [OF ok, of b] by metis
  obtain t1 sb where n: "build g LABEL_EXPR (void_type g) [Some beg] sa = (t1, sb)" by fastforce
  note n' = build_new [OF ok n]
  note t1 = new_treeD [OF n'(1)]
  obtain s1 where s1: "append_stmt g t1 (b\<lparr>trees := sb\<rparr>) = b\<lparr>trees := s1\<rparr>" "grown g {} l [t1] b (b\<lparr>trees := s1\<rparr>)"
    "alive g s1 = alive g sb" "code_of g s1 = code_of g sb" "link_of g s1 = link_of g sb"
    using append_grown [OF ok r steady_new [OF a(5) n'(1)], of t1] t1(3) by auto
  obtain fin s2 where e: "build_label g (b\<lparr>trees := s1\<rparr>) = (fin, b\<lparr>trees := s2\<rparr>)" "\<not> alive g s1 fin"
    "\<And>x. alive g s2 x \<longleftrightarrow> x = fin \<or> alive g s1 x" "\<not> flag_of g s2 TREE_USED fin" "steady g (alive g s1) {} s1 s2"
    "settled g ?A s1 s2"
    using build_label_spec [OF ok, of "b\<lparr>trees := s1\<rparr>", simplified] by metis
  let ?b2 = "b\<lparr>trees := s2\<rparr>" and ?n = "\<lparr>beg_label = beg, end_label = fin\<rparr>"
  let ?U = "labels_used_all (?n # env) ss" and ?ex = "\<exists>st \<in> set ss. exits 0 st"
  have fresh: "\<not> ?A t1" "\<not> ?A fin" "fin \<noteq> beg" "alive g s1 t1" "alive g s2 beg" "alive g s2 fin" "alive g s2 t1"
    using t1(1,2) a(3) e(2,3) s1(3) by auto
  have envl: "beg \<notin> env_labels env" "fin \<notin> env_labels env"
    using la a(2) fresh(2) by (auto simp: labels_alive_def)
  have "steady g ?A {} s1 s2"
    using e(5) grown_alive [OF s1(2)] unfolding steady_def by simp
  then have gr2: "grown g {} l [t1] b ?b2"
    using grown_steady [OF s1(2) _ ready_alive [OF r], of "{}" s2] by simp
  have r2: "ready g f l ?b2" by (rule grown_ready [OF r gr2]) (use r in \<open>simp add: ready_def\<close>)
  note k2 = grown_kept [OF gr2]
  have t1': "expr1 g s2 LABEL_EXPR t1 beg"
    using steadyD(2,3) [OF e(5) fresh(4)] t1(3) n'(3) [of 0] s1(4,5) by (simp add: expr1_def)
  let ?P = "\<lambda>s. represents_all g s f (?n # env) ss"
  let ?Q = "\<lambda>s ts. \<exists>t2 ts3. ts = t2 # ts3 \<and> expr1 g s GOTO_EXPR t2 beg \<and>
     (if ?ex then \<exists>t3. ts3 = [t3] \<and> expr1 g s LABEL_EXPR t3 fin else ts3 = [])"
  have "emitted g l ?b2 (?U \<union> {beg}) (\<lambda>s ts. \<exists>us vs. ts = us @ vs \<and> ?P s us \<and> ?Q s vs)
      (rbind (emit_all g (?n # env) ss ?b2) (\<lambda>b. Done (finish_loop_stmt g ?n b)))"
  proof (rule emitted_bind [OF _ r2])
    have "labels_alive g s2 (?n # env)"
      using kept_labels_alive [OF la k2] fresh by (auto simp: labels_alive_def env_labels_def)
    then show "emitted g l ?b2 ?U ?P (emit_all g (?n # env) ss ?b2)"
      using ss r2 fe kept_feasible [OF _ k2] unfolding well_emitted_all_def by simp
    fix b' ts assume r': "ready g f l b'" and gr: "grown g ?U l ts ?b2 b'"
    have "flag_of g (trees b') TREE_USED fin \<longleftrightarrow> ?ex" "alive g (trees b') fin"
      using grown_kept [OF gr] fresh(6) e(4) end_label_used [of ?n env ss] envl(2) fresh(3)
      by (auto simp: kept_def)
    then show "emitted g l b' {beg} ?Q (Done (finish_loop_stmt g ?n b'))"
      using emitted_finish_loop [OF ok r', of ?n ?ex] fresh(3) by (simp cong: if_cong split del: if_split)
  qed blast
  then have "emitted g l b ({} \<union> (?U \<union> {beg})) (\<lambda>s. represents g s f env (Loop ss))
      (rbind (emit_all g (?n # env) ss ?b2) (\<lambda>b. Done (finish_loop_stmt g ?n b)))"
  proof (rule emitted_prefix [OF r gr2])
    fix s us assume s: "settled g ?A (trees ?b2) s" and "\<exists>us' vs. us = us' @ vs \<and> ?P s us' \<and> ?Q s vs"
    then obtain ts t2 ts3 where us: "us = ts @ t2 # ts3" "?P s ts" "expr1 g s GOTO_EXPR t2 beg"
      "if ?ex then \<exists>t3. ts3 = [t3] \<and> expr1 g s LABEL_EXPR t3 fin else ts3 = []" by blast
    have "expr1 g s LABEL_EXPR t1 beg" using expr1_settled [OF s] t1' fresh(1,7) by simp
    then show "represents g s f env (Loop ss) ([t1] @ us)"
      using loop [of g s t1 ?n f env ss ts t2 ts3] us envl fresh(3) by auto
  qed
  then have "emitted g l b (labels_used env (Loop ss)) (\<lambda>s. represents g s f env (Loop ss))
      (rbind (emit_all g (?n # env) ss ?b2) (\<lambda>b. Done (finish_loop_stmt g ?n b)))"
  proof (rule emitted_mono)
    fix t assume "?A t"
    then have "t \<notin> {beg_label ?n, end_label ?n}" using a(2) fresh(2) by auto
    then show "t \<in> {} \<union> (?U \<union> {beg}) \<longleftrightarrow> t \<in> labels_used env (Loop ss)"
      using labels_used_loop [of t ?n env ss] by simp
  qed
  then show "emitted g l b (labels_used env (Loop ss)) (\<lambda>s. represents g s f env (Loop ss)) (emit g env (Loop ss) b)"
    by (simp add: start_loop_stmt_def a(1) e(1) tree_op_def n s1(1))
qed


section \<open>Case statements\<close>

lemma emitted_case_label:
  assumes ok: "gcc_ok g" and r: "ready g f l b"
    and P: "\<And>s t. code_of g s t = CASE_LABEL_EXPR \<Longrightarrow> link_of g s (TREE_OPERAND 0) t = low \<Longrightarrow>
      link_of g s (TREE_OPERAND (Suc 0)) t = high \<Longrightarrow> P s [t]"
  shows "emitted g l b {} P (Done (append_case_label g low high b))"
proof -
  let ?A = "alive g (trees b)"
  obtain lab s1 where n1: "call g Create_artificial_label [] [input_location b] (trees b) = (lab, s1)" by fastforce
  obtain t s2 where n2: "call g Build_case_label [low, high, Some lab] [] s1 = (t, s2)" by fastforce
  note t = case_label_new [OF ok n2]
  have 1: "steady g ?A {} (trees b) s1" by (rule steady_extends [OF steady_refl call_extends(1) [OF ok n1]])
  have fresh: "alive g s2 t" "\<not> ?A t" using new_treeD(1,2) [OF t(1)] steadyD(1) [OF 1] by auto
  have "emitted g l b {} P (Done (append_stmt g t (b\<lparr>trees := s2\<rparr>)))"
  proof (rule emitted_append [OF ok r steady_new [OF 1 t(1)]])
    show "code_of g s2 t \<noteq> STATEMENT_LIST" using new_treeD(3) [OF t(1)] by simp
    fix s assume s: "settled g ?A s2 s"
    note t' = settledD(3,5) [OF s fresh]
    show "P s [t]" using t' t(2,3) new_treeD(3) [OF t(1)] by (intro P) simp_all
  qed
  then show ?thesis by (simp add: append_case_label_def tree_op_def n1 n2)
qed

lemma emitted_choice:
  assumes "gcc_ok g" "ready g f l b"
  shows "emitted g l b {} (\<lambda>s ts. \<exists>t. ts = [t] \<and> choice_label g s ch t) (Done (emit_choice g ch b))"
  by (cases ch) (auto simp: new_expr_choice_def new_range_choice_def new_default_choice_def
      intro!: emitted_case_label [OF assms])

lemma emitted_choices:
  assumes ok: "gcc_ok g" and "ready g f l b"
  shows "emitted g l b {} (\<lambda>s ts. list_all2 (choice_label g s) cs ts) (Done (fold (emit_choice g) cs b))"
  using assms(2)
proof (induction cs arbitrary: b)
  case Nil
  then show ?case
    using grown_refl [OF Nil] by (intro emittedI [where ts = "[]"]) (auto simp: ready_def lasting_def)
next
  case (Cons ch cs)
  have "emitted g l b ({} \<union> {}) (\<lambda>s ts. list_all2 (choice_label g s) (ch # cs) ts)
      (rbind (Done (emit_choice g ch b)) (\<lambda>b. Done (fold (emit_choice g) cs b)))"
  proof (rule emitted_bind [OF emitted_choice [OF ok Cons.prems] Cons.prems])
    show "emitted g l b' {} (\<lambda>s ts. list_all2 (choice_label g s) cs ts) (Done (fold (emit_choice g) cs b'))"
      if "ready g f l b'" for b' using Cons.IH [OF that] .
  qed (auto simp del: choice_label.simps)
  then show ?case by (simp del: choice_label.simps)
qed

lemma emit_alts_block:
  "emit_alts g env alts blk b = Done (blk', b') \<Longrightarrow>
   case_prev_stmts blk' = case_prev_stmts blk \<and> case_end_label blk' = case_end_label blk"
proof (induction alts arbitrary: blk b)
  case (Cons alt alts)
  then show ?case
    by (cases alt) (fastforce simp: start_choice_def finish_choice_def Let_def case_prod_unfold rbind_eq_Done split: if_splits)
qed simp

definition alts_ok :: "('t, 's) gcc \<Rightarrow> 's \<Rightarrow> 't o_snode list \<Rightarrow> ('t choice list \<times> 't stmt list) list \<Rightarrow> bool" where
  "alts_ok g s env alts \<longleftrightarrow> labels_alive g s env \<and>
     (\<forall>(cs, ss) \<in> set alts. well_emitted_all g ss \<and> (\<forall>st \<in> set ss. feasible g s (length env) st))"

lemma alts_ok_kept: "alts_ok g s env alts \<Longrightarrow> kept g U l s s' \<Longrightarrow> alts_ok g s' env alts"
  unfolding alts_ok_def using kept_feasible kept_labels_alive by fast

lemma emitted_start_choice:
  assumes ok: "gcc_ok g" and r: "ready g f l b"
  shows "emitted g l b {} (\<lambda>s ts. if add_break blk then \<exists>t. ts = [t] \<and> expr1 g s GOTO_EXPR t (case_end_label blk) else ts = [])
    (Done (snd (start_choice g blk b)))"
proof (cases "add_break blk")
  case True
  have "emitted g l b {} (\<lambda>s ts. \<exists>t. ts = [t] \<and> expr1 g s GOTO_EXPR t (case_end_label blk))
      (Done (let (t, b1) = tree_op (build g GOTO_EXPR (case_type blk) [Some (case_end_label blk)]) b in append_stmt g t b1))"
    by (rule emitted_expr1(1) [OF ok r]) simp_all
  with True show ?thesis by (simp add: start_choice_def case_prod_unfold Let_def)
next
  case False
  then show ?thesis
    using grown_refl [OF r] r by (intro emittedI [where ts = "[]"]) (auto simp: ready_def lasting_def start_choice_def)
qed

lemma emitted_alts:
  assumes ok: "gcc_ok g" and "ready g f l b" "alts_ok g (trees b) env alts"
  shows "emitted g l b (\<Union>(cs, ss) \<in> set alts. labels_used_all env ss)
     (\<lambda>s. represents_alts g s f env (case_end_label blk) (add_break blk) alts)
     (rbind (emit_alts g env alts blk b) (\<lambda>(_, b). Done b))"
  using assms(2-)
proof (induction alts arbitrary: blk b)
  case Nil
  then show ?case
    using grown_refl [OF Nil(1)] by (intro emittedI [where ts = "[]"]) (auto simp: ready_def lasting_def alts_Nil)
next
  case (Cons alt alts)
  obtain cs ss where alt: "alt = (cs, ss)" by (cases alt)
  let ?fin = "case_end_label blk" and ?U = "labels_used_all env ss"
  let ?Us = "\<Union>(cs, ss) \<in> set alts. labels_used_all env ss"
  let ?blk = "finish_choice (fst (start_choice g blk b))"
  have blk: "case_end_label ?blk = ?fin" "add_break ?blk" by (simp_all add: finish_choice_def start_choice_def Let_def case_prod_unfold)
  let ?G = "\<lambda>s ts. if add_break blk then \<exists>t. ts = [t] \<and> expr1 g s GOTO_EXPR t ?fin else ts = []"
  let ?L = "\<lambda>s ts. list_all2 (choice_label g s) cs ts"
  let ?B = "\<lambda>s ts. represents_all g s f env ss ts"
  let ?R = "\<lambda>s ts. represents_alts g s f env ?fin True alts ts"
  let ?f3 = "\<lambda>b. rbind (emit_alts g env alts ?blk b) (\<lambda>(_, b). Done b)"
  let ?f2 = "\<lambda>b. rbind (emit_all g env ss b) ?f3"
  let ?f1 = "\<lambda>b. rbind (Done (fold (emit_choice g) cs b)) ?f2"
  have 3: "emitted g l b ?Us ?R (?f3 b)" if "ready g f l b" "alts_ok g (trees b) env (alt # alts)" for b
    using Cons.IH [OF that(1), of ?blk] that(2) blk by (simp add: alts_ok_def)
  have 2: "emitted g l b (?U \<union> ?Us) (\<lambda>s ts. \<exists>us vs. ts = us @ vs \<and> ?B s us \<and> ?R s vs) (?f2 b)"
    if r: "ready g f l b" and a: "alts_ok g (trees b) env (alt # alts)" for b
  proof (rule emitted_bind [OF _ r])
    show "emitted g l b ?U ?B (emit_all g env ss b)"
      using r a by (simp add: alts_ok_def alt well_emitted_all_def)
    show "emitted g l b' ?Us ?R (?f3 b')" if "ready g f l b'" "grown g ?U l ts b b'" for b' ts
      using 3 [OF that(1) alts_ok_kept [OF a grown_kept [OF that(2)]]] .
  qed blast
  have 1: "emitted g l b ({} \<union> (?U \<union> ?Us)) (\<lambda>s ts. \<exists>ls us vs. ts = ls @ us @ vs \<and> ?L s ls \<and> ?B s us \<and> ?R s vs) (?f1 b)"
    if r: "ready g f l b" and a: "alts_ok g (trees b) env (alt # alts)" for b
  proof (rule emitted_bind [OF emitted_choices [OF ok r] r])
    show "emitted g l b' (?U \<union> ?Us) (\<lambda>s ts. \<exists>us vs. ts = us @ vs \<and> ?B s us \<and> ?R s vs) (?f2 b')"
      if "ready g f l b'" "grown g {} l ts b b'" for b' ts
      using 2 [OF that(1) alts_ok_kept [OF a grown_kept [OF that(2)]]] .
  qed blast
  have "emitted g l b ({} \<union> ({} \<union> (?U \<union> ?Us))) (\<lambda>s. represents_alts g s f env ?fin (add_break blk) (alt # alts))
     (rbind (Done (snd (start_choice g blk b))) ?f1)"
  proof (rule emitted_bind [OF emitted_start_choice [OF ok Cons.prems(1)] Cons.prems(1)])
    show "emitted g l b' ({} \<union> (?U \<union> ?Us)) (\<lambda>s ts. \<exists>ls us vs. ts = ls @ us @ vs \<and> ?L s ls \<and> ?B s us \<and> ?R s vs) (?f1 b')"
      if "ready g f l b'" "grown g {} l ts b b'" for b' ts
      using 1 [OF that(1) alts_ok_kept [OF Cons.prems(2) grown_kept [OF that(2)]]] .
    show "represents_alts g s f env ?fin (add_break blk) (alt # alts) (ts @ us)"
      if "?G s ts" "\<exists>ls us' vs. us = ls @ us' @ vs \<and> ?L s ls \<and> ?B s us' \<and> ?R s vs" for s ts us
      using that alts_Cons [of "add_break blk" ts g s ?fin cs] unfolding alt by blast
  qed
  then show ?case
    by (simp add: alt case_prod_unfold Let_def rbind_assoc)
qed

lemma emitted_case:
  assumes ok: "gcc_ok g" and ss: "\<And>cs ss. (cs, ss) \<in> set alts \<Longrightarrow> well_emitted_all g ss"
  shows "well_emitted g (Case v alts)"
  unfolding well_emitted_def
proof (intro allI impI)
  fix f l b env
  assume r: "ready g f l b" and fe: "feasible g (trees b) (length env) (Case v alts)"
    and la: "labels_alive g (trees b) env"
  let ?A = "alive g (trees b)" and ?st = "Case v alts" and ?ty = "link_of g (trees b) TREE_TYPE v"
  let ?U = "\<Union>(cs, ss) \<in> set alts. labels_used_all env ss"
  obtain fin sa where a: "build_label g b = (fin, b\<lparr>trees := sa\<rparr>)" "\<not> ?A fin"
    "\<And>x. alive g sa x \<longleftrightarrow> x = fin \<or> ?A x" "steady g ?A {} (trees b) sa"
    using build_label_spec [OF ok, of b] by metis
  obtain l2 t sA sB s1 where o: "alloc_stmt_list g sa = (l2, sA)"
    "build g SWITCH_EXPR ?ty [Some v, Some l2, None] sA = (t, sB)"
    "append_stmt g t (b\<lparr>trees := sB\<rparr>) = b\<lparr>trees := s1\<rparr>" "grown g {} l [t] b (b\<lparr>trees := s1\<rparr>)"
    "ready g f l2 (b\<lparr>trees := s1, cur_stmts := Some l2\<rparr>)" "stmts_of g s1 l2 = []"
    "\<not> ?A l2" "\<not> ?A t" "alive g s1 t" "code_of g s1 t = SWITCH_EXPR" "link_of g s1 (TREE_OPERAND 0) t = Some v"
    "link_of g s1 (TREE_OPERAND 1) t = Some l2"
    by (rule open_list [OF ok r a(4), where c = SWITCH_EXPR and ty = ?ty and v = v]) auto
  let ?b1 = "b\<lparr>trees := s1, cur_stmts := Some l2\<rparr>"
  let ?blk = "\<lparr>case_prev_stmts = Some l, case_type = ?ty, case_end_label = fin, add_break = False\<rparr>"
  let ?m = "rbind (emit_alts g env alts ?blk ?b1) (\<lambda>(_, b). Done b)"
  note k1 = grown_kept [OF o(4)]
  have "alts_ok g s1 env alts"
    using alts_ok_kept [OF _ k1, of env alts] fe la ss by (force simp: alts_ok_def)
  then have em: "emitted g l2 ?b1 ?U (\<lambda>s. represents_alts g s f env fin False alts) ?m"
    using emitted_alts [OF ok o(5), of env alts ?blk] by simp
  obtain b2 ts where b2: "?m = Done b2" "grown g ?U l [t] b b2" "ready g f l2 b2"
    "stmts_of g (trees b2) l2 = ts" "lasting g (alive g s1) (trees b2) (\<lambda>s. represents_alts g s f env fin False alts ts)"
    "kept g ?U l2 s1 (trees b2)"
    using close_list [OF r o(4,5) _ _ o(7) em] o(6) by auto
  then obtain blk' where e: "emit_alts g env alts ?blk ?b1 = Done (blk', b2)" by auto
  have blk': "case_prev_stmts blk' = Some l" "case_end_label blk' = fin" using emit_alts_block [OF e] by simp_all
  let ?b3 = "b2\<lparr>cur_stmts := Some l\<rparr>"
  have gr3: "grown g ?U l [t] b ?b3" using b2(2) by simp
  have r3: "ready g f l ?b3" by (rule grown_ready [OF r gr3]) simp
  have t: "alive g (trees b2) t" "code_of g (trees b2) t = SWITCH_EXPR"
    "fl \<noteq> BLOCK_CHAIN \<Longrightarrow> link_of g (trees b2) fl t = link_of g s1 fl t" for fl
    using b2(6) o(9,10) by (simp_all add: kept_def)
  have "emitted g l b (?U \<union> {}) (\<lambda>s. represents g s f env ?st)
      (Done (let (t, b1) = tree_op (build g LABEL_EXPR (void_type g) [Some fin]) ?b3 in append_stmt g t b1))"
  proof (rule emitted_prefix [OF r gr3])
    show "emitted g l ?b3 {} (\<lambda>s ts. \<exists>t. ts = [t] \<and> expr1 g s LABEL_EXPR t fin)
        (Done (let (t, b1) = tree_op (build g LABEL_EXPR (void_type g) [Some fin]) ?b3 in append_stmt g t b1))"
      by (rule emitted_expr1(1) [OF ok r3]) simp_all
    fix s us assume s: "settled g ?A (trees ?b3) s" and "\<exists>t. us = [t] \<and> expr1 g s LABEL_EXPR t fin"
    then obtain t2 where us: "us = [t2]" "expr1 g s LABEL_EXPR t2 fin" by auto
    have s': "settled g ?A (trees b2) s" using s by simp
    have "expr1 g s SWITCH_EXPR t v"
      using expr1_settled [OF s', of SWITCH_EXPR t v] t o by (simp add: expr1_def)
    moreover have "body g s 1 t ts"
      using body_settled [OF s' t(1) o(8), of 1 l2] t o b2(3,4) by (simp add: ready_def)
    moreover have "represents_alts g s f env fin False alts ts"
      using lasting_less [OF b2(5), of ?A] grown_alive [OF o(4)] s' by (auto intro: lastingD)
    moreover have "fin \<notin> env_labels env" using la a(2) by (auto simp: labels_alive_def)
    ultimately show "represents g s f env ?st ([t] @ us)" using switch us by fastforce
  qed
  then show "emitted g l b (labels_used env ?st) (\<lambda>s. represents g s f env ?st) (emit g env ?st b)"
    using e r blk' by (simp add: start_case_stmt_def finish_case_stmt_def tree_op_def o(1-3) a(1) ready_def labels_used_simps Let_def)
qed


section \<open>Declare statements\<close>

lemma emitted_start:
  assumes "emitted g l b' U P m" "trees b' = trees b" "current_function_decl b' = current_function_decl b"
    and "similar_levels (cur_binding_level b) (cur_binding_level b')"
  shows "emitted g l b U P m"
  using assms similar_levels_trans unfolding emitted_def grown_def by fastforce

text \<open>The new level, and the node that it becomes\<close>

definition fresh_level :: "('t, 's) gcc \<Rightarrow> 's \<Rightarrow> 't \<Rightarrow> 't \<Rightarrow> 't \<Rightarrow> 't option \<Rightarrow> 't binding_level \<Rightarrow> 's \<Rightarrow> bool" where
  "fresh_level g s0 bnd blk l2 prev r s \<longleftrightarrow> level_ok r \<and> bind r = Some bnd \<and> block r = Some blk \<and>
     first_decl r = None \<and> last_decl r = None \<and> \<not> save_stack r \<and> prev_stmts r = prev \<and>
     steady g (alive g s0) {} s0 s \<and> alive g s l2 \<and> alive g s bnd \<and> alive g s blk \<and>
     \<not> alive g s0 l2 \<and> \<not> alive g s0 bnd \<and> \<not> alive g s0 blk \<and> bnd \<noteq> l2 \<and>
     code_of g s l2 = STATEMENT_LIST \<and> code_of g s bnd = BIND_EXPR \<and> code_of g s blk = BLOCK \<and>
     link_of g s BIND_EXPR_BLOCK bnd = Some blk \<and> stmts_of g s l2 = []"

lemma new_bind_spec:
  assumes ok: "gcc_ok g"
  obtains bnd blk l2 s r1 where "new_bind g (init_level r) b = (r1, b\<lparr>trees := s, cur_stmts := Some l2\<rparr>)"
    and "fresh_level g (trees b) bnd blk l2 (cur_stmts b) r1 s"
proof -
  let ?A = "alive g (trees b)"
  obtain blk s1 where n1: "make_node g BLOCK (trees b) = (blk, s1)" by fastforce
  let ?s1 = "set_flag g TREE_USED blk True s1"
  obtain bnd s2 where n2: "build g BIND_EXPR (void_type g) [None, None, Some blk] ?s1 = (bnd, s2)" by fastforce
  let ?s2 = "set_flag g TREE_SIDE_EFFECTS bnd True s2"
  obtain l2 s3 where n3: "alloc_stmt_list g ?s2 = (l2, s3)" by fastforce
  note 1 = new_treeD [OF make_node_new [OF ok n1]]
  note 2 = new_treeD [OF build_new(1) [OF ok n2]]
  note 3 = new_treeD [OF alloc_stmt_list_new [OF ok n3]]
  have k3: "steady g ?A {} (trees b) s3"
    by (intro steady_new [OF _ alloc_stmt_list_new [OF ok n3]] steady_set_flag ok
        steady_new [OF _ build_new(1) [OF ok n2]] steady_new [OF _ make_node_new [OF ok n1]] steady_refl)
      (simp_all add: 1(1))
  have "blk \<noteq> bnd" "bnd \<noteq> l2" "blk \<noteq> l2" "alive g s3 l2" "alive g s3 bnd" "alive g s3 blk" "\<not> ?A blk" "\<not> ?A bnd" "\<not> ?A l2"
    using 1(1,2) 2(1,2) 3(1,2) by (auto simp: set_flag_simps [OF ok])
  then have "fresh_level g (trees b) bnd blk l2 (cur_stmts b)
     ((init_level r)\<lparr>block := Some blk, bind := Some bnd, prev_stmts := cur_stmts b\<rparr>) s3"
    using k3 1(3) 2(3,7) 3(3,6,7,8) build_new(3) [OF ok n2, of 2]
    by (simp add: fresh_level_def level_ok_def init_level_def set_flag_simps [OF ok])
  then show thesis
    by (intro that) (simp_all add: new_bind_def tree_op_def n1 n2 n3 comp_def)
qed

lemma get_level_cases:
  obtains r olds where "get_level b = (r, b\<lparr>old_binding_levels := olds\<rparr>)"
proof (cases "old_binding_levels b")
  case Nil
  then show thesis by (cases b) (auto simp: get_level_def intro!: that [of no_level "[]"])
next
  case (Cons r rs)
  then show thesis by (intro that [of r rs]) (simp add: get_level_def)
qed

lemma fresh_level_step:
  assumes ok: "gcc_ok g" and "fresh_level g s0 bnd blk l2 prev r s" and "fl = BLOCK_CHAIN \<or> fl = BLOCK_SUPERCONTEXT \<and> t = blk"
  shows "fresh_level g s0 bnd blk l2 prev r (set_link g fl t v s)"
  using assms(2,3) steady_set_link [OF ok] by (auto simp: fresh_level_def set_link_simps [OF ok])

lemma push_local_spec:
  assumes ok: "gcc_ok g" and lev: "cur_binding_level b = c # cs" "level_ok c"
  obtains b1 r1 c1 bnd blk l2 where "push_binding g LOCAL_BINDING b = Done b1" "cur_binding_level b1 = r1 # c1 # cs"
    and "similar c c1" "level_ok c1" "cur_stmts b1 = Some l2" "current_function_decl b1 = current_function_decl b"
    and "fresh_level g (trees b) bnd blk l2 (cur_stmts b) r1 (trees b1)"
proof -
  obtain r0 olds where gl: "get_level b = (r0, b\<lparr>old_binding_levels := olds\<rparr>)" by (rule get_level_cases)
  let ?b0 = "b\<lparr>old_binding_levels := olds\<rparr>"
  obtain bnd blk l2 s3 r1 where n: "new_bind g (init_level r0) ?b0 = (r1, ?b0\<lparr>trees := s3, cur_stmts := Some l2\<rparr>)"
    "fresh_level g (trees ?b0) bnd blk l2 (cur_stmts ?b0) r1 s3"
    using new_bind_spec [OF ok] by metis
  then have n2: "fresh_level g (trees b) bnd blk l2 (cur_stmts b) r1 s3" by simp
  let ?c1 = "c\<lparr>first_block := (if first_block c = None then Some blk else first_block c), last_block := Some blk\<rparr>"
  obtain s4 where s4: "chain_block g blk c s3 = Done (?c1, s4)" "fresh_level g (trees b) bnd blk l2 (cur_stmts b) r1 s4"
  proof (cases "first_block c")
    case None
    then show thesis using n2 by (intro that [of s3]) (simp_all add: chain_block_def link_last_def)
  next
    case (Some p)
    then obtain q where "last_block c = Some q" using lev by (auto simp: level_ok_def)
    then show thesis using Some fresh_level_step [OF ok n2]
      by (intro that [of "set_link g BLOCK_CHAIN q (Some blk) s3"]) (simp_all add: chain_block_def link_last_def)
  qed
  let ?b1 = "?b0\<lparr>trees := set_link g BLOCK_SUPERCONTEXT blk (block c) s4, cur_stmts := Some l2, cur_binding_level := r1 # ?c1 # cs\<rparr>"
  show thesis
  proof (rule that [of ?b1 r1 ?c1 l2 bnd blk])
    show "push_binding g LOCAL_BINDING b = Done ?b1"
      using n(2) by (simp add: push_binding_def gl n(1) lev s4(1) fresh_level_def)
    show "fresh_level g (trees b) bnd blk l2 (cur_stmts b) r1 (trees ?b1)" using fresh_level_step [OF ok s4(2)] by simp
  qed (simp_all add: similar_def level_ok_def)
qed

lemma push_function_spec:
  assumes ok: "gcc_ok g"
  obtains b1 r1 bnd blk l2 where "push_binding g FUNCTION_BINDING b = Done b1"
    and "cur_binding_level b1 = r1 # cur_binding_level b" "cur_stmts b1 = Some l2"
    and "current_function_decl b1 = current_function_decl b"
    and "fresh_level g (trees b) bnd blk l2 (cur_stmts b) r1 (trees b1)"
proof -
  obtain r0 olds where gl: "get_level b = (r0, b\<lparr>old_binding_levels := olds\<rparr>)" by (rule get_level_cases)
  let ?b0 = "b\<lparr>old_binding_levels := olds\<rparr>"
  obtain bnd blk l2 s3 r1 where n: "new_bind g (init_level r0) ?b0 = (r1, ?b0\<lparr>trees := s3, cur_stmts := Some l2\<rparr>)"
    "fresh_level g (trees ?b0) bnd blk l2 (cur_stmts ?b0) r1 s3"
    using new_bind_spec [OF ok] by metis
  let ?b1 = "?b0\<lparr>trees := set_link g BLOCK_SUPERCONTEXT blk (current_function_decl b) s3, cur_stmts := Some l2,
    cur_binding_level := r1 # cur_binding_level b\<rparr>"
  show thesis
  proof (rule that [of ?b1 r1 l2 bnd blk])
    show "push_binding g FUNCTION_BINDING b = Done ?b1"
      using n(2) by (simp add: push_binding_def gl n(1) fresh_level_def comp_def)
    show "fresh_level g (trees b) bnd blk l2 (cur_stmts b) r1 (trees ?b1)"
      using fresh_level_step [OF ok n(2), of BLOCK_SUPERCONTEXT blk] by simp
  qed simp_all
qed

text \<open>The declarations of a level\<close>

lemma new_var_spec:
  assumes ok: "gcc_ok g" and f: "current_function_decl b = Some f" and lev: "cur_binding_level b = r # ls"
    and built: "built g (trees b) TREE_CHAIN (first_decl r, last_decl r) ds" and ds: "\<And>d. d \<in> set ds \<Longrightarrow> alive g (trees b) d"
  obtains b1 r1 d where "new_var_decl g ident st ty b = Done (d, b1)" "cur_binding_level b1 = r1 # ls"
    and "r1 = r\<lparr>first_decl := first_decl r1, last_decl := last_decl r1\<rparr>" "current_function_decl b1 = Some f"
    and "cur_stmts b1 = cur_stmts b" "built g (trees b1) TREE_CHAIN (first_decl r1, last_decl r1) (ds @ [d])"
    and "\<not> alive g (trees b) d" "alive g (trees b1) d" "variable g (trees b1) f (ident, ty) d"
    and "steady g (\<lambda>t. alive g (trees b) t \<and> t \<notin> set ds) {} (trees b) (trees b1)"
    and "\<And>d. alive g (trees b) d \<Longrightarrow> alive g (trees b1) d"
    and "\<And>v d. d \<in> set ds \<Longrightarrow> variable g (trees b) f v d \<Longrightarrow> variable g (trees b1) f v d"
proof -
  obtain d s1 where n: "build_decl g (input_location b) VAR_DECL (Some ident) (Some ty) (trees b) = (d, s1)" by fastforce
  note new = build_decl_new [OF ok n]
  note d = new_treeD [OF new(1)]
  let ?s2 = "set_flag g TREE_PUBLIC d False (set_flag g DECL_EXTERNAL d False (set_flag g TREE_STATIC d False s1))"
  let ?s3 = "set_link g DECL_CONTEXT d (Some f) ?s2"
  note gs = set_link_simps [OF ok] set_flag_simps [OF ok]
  have d_ds: "d \<notin> set ds" using ds d(1) by auto
  have b3: "built g ?s3 TREE_CHAIN (first_decl r, last_decl r) ds"
  proof -
    have "link_of g ?s3 TREE_CHAIN x = link_of g (trees b) TREE_CHAIN x" if "x \<in> set ds" for x
    proof -
      have "x \<noteq> d" using that d_ds by auto
      then show ?thesis using d(8) by (simp add: gs)
    qed
    then show ?thesis using built built_cong by metis
  qed
  obtain r1 s4 where s4: "chain_decl g d r ?s3 = Done (r1, s4)" "built g s4 TREE_CHAIN (first_decl r1, last_decl r1) (ds @ [d])"
    "s4 = (if ds = [] then ?s3 else set_link g TREE_CHAIN (last ds) (Some d) ?s3)"
    using decls.append_built [OF ok b3 d_ds] new(4) by (auto simp: gs)
  have same: "alive g s4 = alive g s1" "code_of g s4 = code_of g s1" "stmts_of g s4 = stmts_of g s1"
    "flag_of g s4 TREE_USED = flag_of g s1 TREE_USED" by (auto simp: s4(3) gs fun_eq_iff)
  have link: "link_of g s4 fl t = link_of g s1 fl t" if "\<not> (fl = DECL_CONTEXT \<and> t = d)" "\<not> (fl = TREE_CHAIN \<and> t \<in> set ds)" for fl t
    using that by (auto simp: s4(3) gs)
  have ctx: "link_of g s4 DECL_CONTEXT d = Some f" by (simp add: s4(3) gs)
  have r1: "r1 = r\<lparr>first_decl := first_decl r1, last_decl := last_decl r1\<rparr>"
    using s4(1) by (auto simp: chain_decl_def link_last_def split: option.splits)
  show thesis
  proof (rule that [of d "b\<lparr>trees := s4, cur_binding_level := r1 # ls\<rparr>" r1])
    show "new_var_decl g ident st ty b = Done (d, b\<lparr>trees := s4, cur_binding_level := r1 # ls\<rparr>)"
      using f lev s4(1) by (simp add: new_var_decl_def tree_op_def n pushdecl_def comp_def)
    show "steady g (\<lambda>t. alive g (trees b) t \<and> t \<notin> set ds) {} (trees b) (trees (b\<lparr>trees := s4, cur_binding_level := r1 # ls\<rparr>))"
      unfolding steady_def
    proof (intro allI impI)
      fix t assume t: "alive g (trees b) t \<and> t \<notin> set ds"
      then have "t \<noteq> d" using d(1) by auto
      with t d(2,7-9,11) link show "alive g (trees (b\<lparr>trees := s4, cur_binding_level := r1 # ls\<rparr>)) t \<and>
        code_of g (trees (b\<lparr>trees := s4, cur_binding_level := r1 # ls\<rparr>)) t = code_of g (trees b) t \<and>
        (\<forall>fl. fl \<noteq> BLOCK_CHAIN \<longrightarrow> link_of g (trees (b\<lparr>trees := s4, cur_binding_level := r1 # ls\<rparr>)) fl t = link_of g (trees b) fl t) \<and>
        stmts_of g (trees (b\<lparr>trees := s4, cur_binding_level := r1 # ls\<rparr>)) t = stmts_of g (trees b) t \<and>
        flag_of g (trees (b\<lparr>trees := s4, cur_binding_level := r1 # ls\<rparr>)) TREE_USED t = (flag_of g (trees b) TREE_USED t \<or> t \<in> {})"
        by (simp add: same)
    qed
    show "variable g (trees (b\<lparr>trees := s4, cur_binding_level := r1 # ls\<rparr>)) f (ident, ty) d"
      using d(3) new(2,3) ctx link d_ds by (simp add: variable_def same)
    show "variable g (trees (b\<lparr>trees := s4, cur_binding_level := r1 # ls\<rparr>)) f v x"
      if "x \<in> set ds" "variable g (trees b) f v x" for v x
    proof -
      have "x \<noteq> d" using that(1) d_ds by auto
      then show ?thesis using that d(7,8) link by (simp add: variable_def same)
    qed
  qed (use f r1 s4(2) d(1,2) same in simp_all)
qed

definition declared :: "('t, 's) gcc \<Rightarrow> 't \<Rightarrow> ('t \<times> 't) list \<Rightarrow> 't binding_level list \<Rightarrow> 't list \<Rightarrow>
  't binding_level \<Rightarrow> ('t, 's) ortho \<Rightarrow> 't list \<Rightarrow> 't binding_level \<Rightarrow> ('t, 's) ortho \<Rightarrow> bool" where
  "declared g f vs ls ds r b es r1 b1 \<longleftrightarrow> cur_binding_level b1 = r1 # ls \<and>
     r1 = r\<lparr>first_decl := first_decl r1, last_decl := last_decl r1\<rparr> \<and> current_function_decl b1 = Some f \<and>
     cur_stmts b1 = cur_stmts b \<and> built g (trees b1) TREE_CHAIN (first_decl r1, last_decl r1) (ds @ es) \<and>
     (\<forall>e \<in> set es. \<not> alive g (trees b) e \<and> alive g (trees b1) e) \<and> list_all2 (variable g (trees b1) f) vs es \<and>
     steady g (\<lambda>t. alive g (trees b) t \<and> t \<notin> set ds) {} (trees b) (trees b1) \<and>
     (\<forall>t. alive g (trees b) t \<longrightarrow> alive g (trees b1) t) \<and>
     (\<forall>v. \<forall>d \<in> set ds. variable g (trees b) f v d \<longrightarrow> variable g (trees b1) f v d)"

lemma declare_vars_spec:
  assumes ok: "gcc_ok g"
  shows "current_function_decl b = Some f \<Longrightarrow> cur_binding_level b = r # ls \<Longrightarrow>
    built g (trees b) TREE_CHAIN (first_decl r, last_decl r) ds \<Longrightarrow> (\<And>d. d \<in> set ds \<Longrightarrow> alive g (trees b) d) \<Longrightarrow>
    \<exists>b1 r1 es. declare_vars g vs b = Done b1 \<and> declared g f vs ls ds r b es r1 b1"
proof (induction vs arbitrary: b r ds)
  case Nil
  then show ?case
    by (intro exI [of _ b] exI [of _ r] exI [of _ "[]"]) (auto simp: declared_def intro: steady_refl)
next
  case (Cons v vs)
  obtain ident ty where v: "v = (ident, ty)" by (cases v)
  obtain b1 r1 d where 1: "new_var_decl g ident o_storage_local ty b = Done (d, b1)" "cur_binding_level b1 = r1 # ls"
    "r1 = r\<lparr>first_decl := first_decl r1, last_decl := last_decl r1\<rparr>" "current_function_decl b1 = Some f"
    "cur_stmts b1 = cur_stmts b" "built g (trees b1) TREE_CHAIN (first_decl r1, last_decl r1) (ds @ [d])"
    "\<not> alive g (trees b) d" "alive g (trees b1) d" "variable g (trees b1) f (ident, ty) d"
    "steady g (\<lambda>t. alive g (trees b) t \<and> t \<notin> set ds) {} (trees b) (trees b1)"
    "\<And>d. alive g (trees b) d \<Longrightarrow> alive g (trees b1) d"
    "\<And>v d. d \<in> set ds \<Longrightarrow> variable g (trees b) f v d \<Longrightarrow> variable g (trees b1) f v d"
    by (rule new_var_spec [OF ok Cons.prems]) auto
  have "\<exists>b2 r2 es. declare_vars g vs b1 = Done b2 \<and> declared g f vs ls (ds @ [d]) r1 b1 es r2 b2"
    using Cons.prems(4) 1(8,11) by (intro Cons.IH [OF 1(4,2,6)]) auto
  then obtain b2 r2 es where dv: "declare_vars g vs b1 = Done b2" and D: "declared g f vs ls (ds @ [d]) r1 b1 es r2 b2"
    by auto
  note 2 = D [unfolded declared_def, THEN conjunct1] D [unfolded declared_def, THEN conjunct2]
  have "r2 = r1\<lparr>first_decl := first_decl r2, last_decl := last_decl r2\<rparr>" using 2 by simp
  then have "r2 = r\<lparr>first_decl := first_decl r2, last_decl := last_decl r2\<rparr>" by (subst (asm) 1(3)) simp
  moreover have "steady g (\<lambda>t. alive g (trees b) t \<and> t \<notin> set ds) {} (trees b) (trees b2)"
    using 1(7,10) 2(2) unfolding steady_def by auto
  moreover have "list_all2 (variable g (trees b2) f) (v # vs) (d # es)" using 1(9) 2(2) v by simp
  moreover have "\<forall>e \<in> set (d # es). \<not> alive g (trees b) e \<and> alive g (trees b2) e"
    using 1(7,8,11) 2(2) by auto
  moreover have "\<forall>v. \<forall>d \<in> set ds. variable g (trees b) f v d \<longrightarrow> variable g (trees b2) f v d"
    using 1(12) 2(2) by simp
  moreover have "\<forall>t. alive g (trees b) t \<longrightarrow> alive g (trees b2) t" using 1(11) 2(2) by simp
  ultimately have "declared g f (v # vs) ls ds r b (d # es) r2 b2"
    using 1(5) 2 unfolding declared_def by simp
  then show ?case using 1(1) dv v by auto
qed


lemma chain_settled:
  assumes "chain g s fl p xs" "settled g A s s'" "\<And>x. x \<in> set xs \<Longrightarrow> alive g s x \<and> \<not> A x" "stable_field fl"
  shows "chain g s' fl p xs"
  using assms(1) chain_cong [of xs g s' fl g s fl p] settledD(5) [OF assms(2)] assms(3,4) by blast

lemma variables_settled:
  assumes "list_all2 (variable g s f) vs xs" "settled g A s s'" "\<And>x. x \<in> set xs \<Longrightarrow> alive g s x \<and> \<not> A x"
  shows "list_all2 (variable g s' f) vs xs"
  using assms(1)
proof (rule list.rel_mono_strong)
  fix v x assume "x \<in> set xs" "variable g s f v x"
  then show "variable g s' f v x"
    using settledD(3,5) [OF assms(2)] assms(3) by (simp add: variable_def)
qed

text \<open>
  The inside of a level: declarations and statements are made, and the level is popped. What it becomes is a
  node with the declarations, the statements and the block.
\<close>

definition block_node :: "('t, 's) gcc \<Rightarrow> 's \<Rightarrow> 't \<Rightarrow> 't o_snode list \<Rightarrow> ('t \<times> 't) list \<Rightarrow> 't stmt list \<Rightarrow> 't \<Rightarrow> bool" where
  "block_node g s f env vs ss t \<longleftrightarrow> code_of g s t = BIND_EXPR \<and>
     (\<exists>ds. chain g s TREE_CHAIN (link_of g s BIND_EXPR_VARS t) ds \<and> list_all2 (variable g s f) vs ds) \<and>
     (\<exists>ts. body g s 1 t ts \<and> represents_all g s f env ss ts)"

lemma block_inside:
  assumes ok: "gcc_ok g" and ss: "well_emitted_all g ss" and fr: "fresh_level g s0 bnd blk l2 prev r1 (trees b1)"
    and b1: "cur_binding_level b1 = r1 # ls" "cur_stmts b1 = Some l2" "current_function_decl b1 = Some f"
    and f: "alive g (trees b1) f" and fe: "\<And>st. st \<in> set ss \<Longrightarrow> feasible g (trees b1) (length env) st"
    and la: "labels_alive g (trees b1) env"
  obtains b2 b3 b4 where "declare_vars g vs b1 = Done b2" "emit_all g env ss b2 = Done b3"
    and "pop_binding g b3 = Done (bnd, b4)" "cur_stmts b4 = prev" "cur_binding_level b4 = ls"
    and "current_function_decl b4 = Some f" "steady g (alive g s0) (labels_used_all env ss) s0 (trees b4)"
    and "alive g (trees b4) bnd" "link_of g (trees b4) BIND_EXPR_BLOCK bnd = Some blk"
    and "lasting g (alive g s0) (trees b4) (\<lambda>s. block_node g s f env vs ss bnd)"
    and "alive g (trees b4) blk" "code_of g (trees b4) blk = BLOCK"
    and "\<And>t. alive g (trees b1) t \<Longrightarrow> alive g (trees b4) t"
proof -
  let ?A = "alive g s0" and ?U = "labels_used_all env ss"
  note 1 = fr [unfolded fresh_level_def, THEN conjunct1] fr [unfolded fresh_level_def, THEN conjunct2]
  have k1: "steady g ?A {} s0 (trees b1)" using 1 by simp
  have nA: "\<not> ?A l2" "\<not> ?A bnd" "\<not> ?A blk" using 1 by simp_all
  have al1: "alive g (trees b1) l2" "alive g (trees b1) bnd" "alive g (trees b1) blk" using 1 by simp_all
  have "\<exists>b2 r2 es. declare_vars g vs b1 = Done b2 \<and> declared g f vs ls [] r1 b1 es r2 b2"
    using 1 by (intro declare_vars_spec [OF ok b1(3,1)]) simp_all
  then obtain b2 r2 es where dv: "declare_vars g vs b1 = Done b2" and D: "declared g f vs ls [] r1 b1 es r2 b2" by auto
  have k12: "steady g (alive g (trees b1)) {} (trees b1) (trees b2)"
    and r2: "r2 = r1\<lparr>first_decl := first_decl r2, last_decl := last_decl r2\<rparr>"
    and es: "chain g (trees b2) TREE_CHAIN (first_decl r2) es" "list_all2 (variable g (trees b2) f) vs es"
      "\<And>e. e \<in> set es \<Longrightarrow> alive g (trees b2) e \<and> \<not> alive g (trees b1) e"
    and b2: "cur_binding_level b2 = r2 # ls" "current_function_decl b2 = Some f" "cur_stmts b2 = Some l2"
    using D b1(2) by (auto simp: declared_def built_def)
  note A1 = steadyD(1) [OF k1] and A2 = steadyD(1) [OF k12]
  have k2: "steady g ?A {} s0 (trees b2)" by (rule steady_trans [OF k1 k12])
  have r2': "bind r2 = Some bnd" "block r2 = Some blk" "\<not> save_stack r2" "prev_stmts r2 = prev" "level_ok r2"
    by (subst r2, use 1 in \<open>simp add: level_ok_def\<close>)+
  have rdy2: "ready g f l2 b2"
    using b2 r2'(5) A2 [OF al1(1)] A2 [OF f] steadyD(2) [OF k12 al1(1)] 1 by (simp add: ready_def)
  have feas: "feasible g (trees b2) (length env) st" if "st \<in> set ss" for st
    by (rule feasible_mono [OF fe [OF that]]) (use A2 steadyD(3) [OF k12] in auto)
  have lab: "labels_alive g (trees b2) env" using la A2 by (rule labels_alive_mono)
  have "emitted g l2 b2 ?U (\<lambda>s. represents_all g s f env ss) (emit_all g env ss b2)"
    using ss rdy2 feas lab unfolding well_emitted_all_def by simp
  then obtain b3 ts where b3: "emit_all g env ss b2 = Done b3" "cur_stmts b3 = Some l2" "grown g ?U l2 ts b2 b3"
    "lasting g (alive g (trees b2)) (trees b3) (\<lambda>s. represents_all g s f env ss ts)"
    by (auto simp: emitted_def)
  note k3 = grown_kept [OF b3(3)]
  obtain r3 where r3: "cur_binding_level b3 = r3 # ls" "similar r2 r3" "current_function_decl b3 = Some f"
    using b3(3) b2 by (auto simp: grown_def similar_levels_def split: list.splits)
  let ?s7 = "set_link g BLOCK_VARS blk (first_decl r2) (set_link g BLOCK_SUBBLOCKS blk (first_block r3)
    (set_link g BIND_EXPR_VARS bnd (first_decl r2) (set_link g BIND_EXPR_BODY bnd (Some l2) (trees b3))))"
  let ?b4 = "b3\<lparr>trees := ?s7, cur_stmts := prev, cur_binding_level := ls, old_binding_levels := r3 # old_binding_levels b3\<rparr>"
  note gs = set_link_simps [OF ok]
  have al2: "alive g (trees b2) bnd" "alive g (trees b2) blk" "code_of g (trees b2) bnd = BIND_EXPR"
    "code_of g (trees b2) blk = BLOCK" "link_of g (trees b2) BIND_EXPR_BLOCK bnd = Some blk"
    using A2 al1 steadyD(2,3) [OF k12] 1 by simp_all
  have l2: "alive g ?s7 l2" "code_of g ?s7 l2 = STATEMENT_LIST" "stmts_of g ?s7 l2 = ts"
  proof -
    have "ready g f l2 b3" by (rule grown_ready [OF rdy2 b3(3,2)])
    then show "alive g ?s7 l2" "code_of g ?s7 l2 = STATEMENT_LIST" by (simp_all add: ready_def gs)
    have "stmts_of g (trees b2) l2 = []" using steadyD(4) [OF k12 al1(1)] 1 by simp
    then show "stmts_of g ?s7 l2 = ts" using b3(3) by (simp add: gs grown_def)
  qed
  have st27: "settled g (\<lambda>t. t \<in> {bnd, blk, l2}) (trees b2) ?s7"
    by (intro settled_set_link ok settled_kept [OF k3]) simp_all
  have st37: "settled g (alive g (trees b2)) (trees b3) ?s7"
    by (intro settled_set_link ok settled_refl) (simp_all add: al2)
  have es': "e \<notin> {bnd, blk, l2}" "\<not> ?A e" "alive g ?s7 e" if "e \<in> set es" for e
    using es(3) [OF that] al1 A1 settledD(1) [OF st27] by auto
  have ch: "chain g ?s7 TREE_CHAIN (first_decl r2) es"
    by (rule chain_settled [OF es(1) st27]) (use es(3) es'(1) in auto)
  have vars: "list_all2 (variable g ?s7 f) vs es"
    by (rule variables_settled [OF es(2) st27]) (use es(3) es'(1) in auto)
  have bnd: "alive g ?s7 bnd" "code_of g ?s7 bnd = BIND_EXPR" "link_of g ?s7 (TREE_OPERAND 0) bnd = first_decl r2"
    "link_of g ?s7 (TREE_OPERAND 1) bnd = Some l2" "link_of g ?s7 BIND_EXPR_BLOCK bnd = Some blk"
    using k3 al2 by (simp_all add: gs kept_def)
  show thesis
  proof (rule that [OF dv b3(1)])
    show "pop_binding g b3 = Done (bnd, ?b4)"
      using r3 r2' by (simp add: pop_binding_def similar_def b3(2) comp_def)
    show "steady g ?A ?U s0 (trees ?b4)"
    proof -
      have "steady g ?A ?U s0 (trees b3)"
        unfolding steady_def
      proof (intro allI impI)
        fix t assume t: "?A t"
        then have "t \<noteq> l2" using nA by auto
        with t k2 k3 show "alive g (trees b3) t \<and> code_of g (trees b3) t = code_of g s0 t \<and>
          (\<forall>fl. fl \<noteq> BLOCK_CHAIN \<longrightarrow> link_of g (trees b3) fl t = link_of g s0 fl t) \<and>
          stmts_of g (trees b3) t = stmts_of g s0 t \<and>
          flag_of g (trees b3) TREE_USED t = (flag_of g s0 TREE_USED t \<or> t \<in> ?U)"
          by (simp add: steady_def kept_def)
      qed
      then show ?thesis using nA by (simp add: steady_set_link [OF ok])
    qed
    show "alive g (trees ?b4) bnd" "link_of g (trees ?b4) BIND_EXPR_BLOCK bnd = Some blk" using bnd by simp_all
    show "alive g (trees ?b4) blk" "code_of g (trees ?b4) blk = BLOCK" using k3 al2 by (simp_all add: gs kept_def)
    show "alive g (trees ?b4) t" if "alive g (trees b1) t" for t
      using settledD(1) [OF st27 A2 [OF that]] by simp
    show "lasting g ?A (trees ?b4) (\<lambda>s. block_node g s f env vs ss bnd)"
    proof (rule lastingI)
      fix s assume "settled g ?A (trees ?b4) s"
      then have s: "settled g ?A ?s7 s" by simp
      note bnd' = settledD(3,5) [OF s bnd(1) nA(2)]
      have "chain g s TREE_CHAIN (first_decl r2) es" by (rule chain_settled [OF ch s]) (use es' in auto)
      moreover have "list_all2 (variable g s f) vs es" by (rule variables_settled [OF vars s]) (use es' in auto)
      moreover have "body g s 1 bnd ts" using body_settled [OF s bnd(1) nA(2) bnd(4)] l2 nA(1) by simp
      moreover have "represents_all g s f env ss ts"
        using lasting_less [OF lasting_step [OF b3(4) st37], of ?A] steadyD(1) [OF k2] s by (auto intro: lastingD)
      ultimately show "block_node g s f env vs ss bnd"
        using bnd' bnd by (auto simp: block_node_def)
    qed
  qed (use r3 in simp_all)
qed

lemma emitted_declare:
  assumes ok: "gcc_ok g" and ss: "well_emitted_all g ss"
  shows "well_emitted g (Declare vs ss)"
  unfolding well_emitted_def
proof (intro allI impI)
  fix f l b env
  assume r: "ready g f l b" and fe: "feasible g (trees b) (length env) (Declare vs ss)"
    and la: "labels_alive g (trees b) env"
  let ?A = "alive g (trees b)" and ?st = "Declare vs ss" and ?U = "labels_used_all env ss"
  have fA: "?A f" "current_function_decl b = Some f" "cur_stmts b = Some l" using r by (simp_all add: ready_def)
  obtain c cs where lev: "cur_binding_level b = c # cs" "level_ok c" using r by (auto simp: ready_def)
  obtain b1 r1 c1 bnd blk l2 where 1: "push_binding g LOCAL_BINDING b = Done b1" "cur_binding_level b1 = r1 # c1 # cs"
    "similar c c1" "level_ok c1" "cur_stmts b1 = Some l2" "current_function_decl b1 = current_function_decl b"
    "fresh_level g (trees b) bnd blk l2 (cur_stmts b) r1 (trees b1)"
    by (rule push_local_spec [OF ok lev])
  have k1: "steady g ?A {} (trees b) (trees b1)" using 1(7) by (simp add: fresh_level_def)
  have feas: "feasible g (trees b1) (length env) st" if "st \<in> set ss" for st
    using fe that steadyD(1,3) [OF k1] by (auto intro: feasible_mono)
  have lab: "labels_alive g (trees b1) env" using la steadyD(1) [OF k1] by (rule labels_alive_mono)
  obtain b2 b3 b4 where 2: "declare_vars g vs b1 = Done b2" "emit_all g env ss b2 = Done b3"
    "pop_binding g b3 = Done (bnd, b4)" "cur_stmts b4 = cur_stmts b" "cur_binding_level b4 = c1 # cs"
    "current_function_decl b4 = Some f" "steady g ?A ?U (trees b) (trees b4)" "alive g (trees b4) bnd"
    "lasting g ?A (trees b4) (\<lambda>s. block_node g s f env vs ss bnd)"
    using block_inside [OF ok ss 1(7,2,5) _ _ feas lab, of f] 1(6) fA steadyD(1) [OF k1] by metis
  let ?b' = "b4\<lparr>trees := trees b\<rparr>"
  have rdy': "ready g f l ?b'" using r 1(4) 2(4-6) by (simp add: ready_def)
  have "emitted g l ?b' ?U (\<lambda>s. represents g s f env ?st) (Done (append_stmt g bnd (?b'\<lparr>trees := trees b4\<rparr>)))"
  proof (rule emitted_append [OF ok rdy'])
    show "steady g (alive g (trees ?b')) ?U (trees ?b') (trees b4)" using 2(7) by simp
    show "code_of g (trees b4) bnd \<noteq> STATEMENT_LIST" using lasting_now [OF 2(9)] by (simp add: block_node_def)
    fix s assume "settled g (alive g (trees ?b')) (trees b4) s"
    then have "block_node g s f env vs ss bnd" using lastingD [OF 2(9)] by simp
    then show "represents g s f env ?st [bnd]" by (auto simp: block_node_def intro: bind_block)
  qed
  then have "emitted g l b ?U (\<lambda>s. represents g s f env ?st) (Done (append_stmt g bnd b4))"
    using emitted_start [of g l ?b' ?U _ _ b] 2(5,6) fA lev 1(3) by (simp add: similar_levels_def)
  then show "emitted g l b (labels_used env ?st) (\<lambda>s. represents g s f env ?st) (emit g env ?st b)"
    by (simp add: start_declare_stmt_def 1(1) 2(1-3) finish_declare_stmt_def labels_used_simps)
qed

section \<open>All programs\<close>

lemma stmt_well_emitted:
  assumes ok: "gcc_ok g"
  shows "well_emitted g st"
proof (induction st)
  case (Assign x v)
  then show ?case using emitted_assign [OF ok] by (simp add: well_emitted_def labels_used_def)
next
  case (Proc_Call p as)
  then show ?case using emitted_procedure_call [OF ok] by (auto simp: well_emitted_def labels_used_def)
next
  case (Return_Value v)
  then show ?case using emitted_func_return [OF ok] by (simp add: well_emitted_def labels_used_def)
next
  case Return
  then show ?case using emitted_proc_return [OF ok] by (simp add: well_emitted_def labels_used_def)
next
  case (If_Then c ss)
  then show ?case by (intro emitted_if_then ok well_emitted_all)
next
  case (If_Else c ss1 ss2)
  then show ?case by (intro emitted_if_else ok well_emitted_all)
next
  case (Loop ss)
  then show ?case by (intro emitted_loop ok well_emitted_all)
next
  case (Exit n)
  have "labels_used env (Exit n) = {end_label (env ! n)}" if "n < length env" for env :: "'a o_snode list"
    using that by (auto simp: labels_used_def)
  then show ?case using emitted_exit [OF ok] by (simp add: well_emitted_def)
next
  case (Continue n)
  have "labels_used env (Continue n) = {beg_label (env ! n)}" if "n < length env" for env :: "'a o_snode list"
    using that by (auto simp: labels_used_def)
  then show ?case using emitted_next [OF ok] by (simp add: well_emitted_def)
next
  case (Case v alts)
  then show ?case by (intro emitted_case ok well_emitted_all) fastforce
next
  case (Declare vs ss)
  then show ?case by (intro emitted_declare ok well_emitted_all)
qed

end
