(* ===== verification/Ortho_Store.thy ===== *)
theory Ortho_Store
  imports Ortho_Laws
begin

text \<open>
  A store of nodes that behaves as GCC is documented to: nodes are numbered, and a field is a function from
  the nodes. It shows that \<open>gcc_ok\<close> can hold, and the examples of the theories \<open>Ortho_\<dots>\<close> are run on it.
\<close>

record node_store =
  node_count :: nat
  codes :: "nat \<Rightarrow> tree_code"
  links :: "tree_field \<Rightarrow> nat \<Rightarrow> nat option"
  flags :: "tree_flag \<Rightarrow> nat \<Rightarrow> bool"
  nums :: "tree_num \<Rightarrow> nat \<Rightarrow> int"
  lists :: "nat \<Rightarrow> nat list"

definition store_new :: "tree_code \<Rightarrow> (tree_field \<Rightarrow> nat option) \<Rightarrow> node_store \<Rightarrow> nat \<times> node_store" where
  "store_new c ini s =
     (let n = node_count s in
      (n, s\<lparr>node_count := Suc n, codes := (codes s)(n := c), links := (\<lambda>f. (links s f)(n := ini f)),
            flags := (\<lambda>f. (flags s f)(n := False)), nums := (\<lambda>f. (nums s f)(n := 0)), lists := (lists s)(n := [])\<rparr>))"

definition expr_links :: "nat option \<Rightarrow> nat option list \<Rightarrow> tree_field \<Rightarrow> nat option" where
  "expr_links ty ops f = (case f of
     TREE_TYPE \<Rightarrow> ty | TREE_OPERAND i \<Rightarrow> if i < length ops then ops ! i else None | _ \<Rightarrow> None)"

definition decl_links :: "nat option \<Rightarrow> nat option \<Rightarrow> tree_field \<Rightarrow> nat option" where
  "decl_links name ty f = (case f of DECL_NAME \<Rightarrow> name | TREE_TYPE \<Rightarrow> ty | _ \<Rightarrow> None)"

definition cons_links :: "nat option \<Rightarrow> nat option \<Rightarrow> nat option \<Rightarrow> tree_field \<Rightarrow> nat option" where
  "cons_links p v n f = (case f of TREE_PURPOSE \<Rightarrow> p | TREE_VALUE \<Rightarrow> v | TREE_CHAIN \<Rightarrow> n | _ \<Rightarrow> None)"

definition no_links :: "tree_field \<Rightarrow> nat option" where
  "no_links f = None"

definition store_alloc_list :: "node_store \<Rightarrow> nat \<times> node_store" where
  "store_alloc_list = store_new STATEMENT_LIST no_links"

definition store_append :: "nat \<Rightarrow> nat option \<Rightarrow> node_store \<Rightarrow> nat option \<times> node_store" where
  "store_append t p s =
     (if flags s TREE_SIDE_EFFECTS t
      then let (l, s) = (case p of Some l \<Rightarrow> (l, s) | None \<Rightarrow> store_alloc_list s)
           in (Some l, s\<lparr>lists := (lists s)(l := lists s l @ [t]), flags := (flags s)(TREE_SIDE_EFFECTS := (flags s TREE_SIDE_EFFECTS)(l := True))\<rparr>)
      else (p, s))"

definition store_call :: "gcc_fun \<Rightarrow> nat option list \<Rightarrow> int list \<Rightarrow> node_store \<Rightarrow> nat \<times> node_store" where
  "store_call f ts ns s = (case f of
     Build_call_vec \<Rightarrow> store_new CALL_EXPR (expr_links (hd ts) ([None, hd (tl ts), None] @ tl (tl ts))) s
   | Build_case_label \<Rightarrow> store_new CASE_LABEL_EXPR (expr_links None ts) s
   | Build_call_expr \<Rightarrow>
       (let (a, s) = store_new ADDR_EXPR (expr_links None [hd ts]) s;
            (t, s) = store_new CALL_EXPR (expr_links None ([None, Some a, None] @ tl ts)) s
        in (t, s\<lparr>flags := (flags s)(TREE_SIDE_EFFECTS := (flags s TREE_SIDE_EFFECTS)(t := True))\<rparr>))
   | Builtin_decl_implicit b \<Rightarrow>
       (let (t, s) = store_new FUNCTION_DECL no_links s
        in (t, s\<lparr>nums := (nums s)(DECL_FUNCTION_CODE := (nums s DECL_FUNCTION_CODE)(t := built_in_number b))\<rparr>))
   | Create_artificial_label \<Rightarrow> store_new LABEL_DECL no_links s
   | _ \<Rightarrow> store_new (Other_code 0) (expr_links None ts) s)"

definition node_number :: "gcc_node \<Rightarrow> nat" where
  "node_number n = (case n of
     error_mark_node \<Rightarrow> 0 | void_type_node \<Rightarrow> 1 | void_list_node \<Rightarrow> 2 | ptr_type_node \<Rightarrow> 3 | integer_type_node \<Rightarrow> 4
   | char_type_node \<Rightarrow> 5 | size_type_node \<Rightarrow> 6 | float_type_node \<Rightarrow> 7 | double_type_node \<Rightarrow> 8
   | long_double_type_node \<Rightarrow> 9 | integer_zero_node \<Rightarrow> 10 | integer_one_node \<Rightarrow> 11 | size_zero_node \<Rightarrow> 12)"

definition store_gcc :: "(nat, node_store) gcc" where
  "store_gcc = \<lparr>
     tree_nodes = (\<lambda>s. [0..<node_count s]), code_of = codes, link_of = links, flag_of = flags, num_of = nums,
     stmts_of = lists, spelling_of = (\<lambda>s t. []), test = (\<lambda>_ s t. False), get_alias_set = (\<lambda>s t. 0),
     target = (\<lambda>c. case c of BITS_PER_UNIT \<Rightarrow> 8 | _ \<Rightarrow> 64),
     set_link = (\<lambda>f t v s. s\<lparr>links := (links s)(f := (links s f)(t := v))\<rparr>),
     set_flag = (\<lambda>f t v s. s\<lparr>flags := (flags s)(f := (flags s f)(t := v))\<rparr>),
     set_num = (\<lambda>f t v s. s\<lparr>nums := (nums s)(f := (nums s f)(t := v))\<rparr>),
     make_node = (\<lambda>c. store_new c no_links), build = (\<lambda>c ty ops. store_new c (expr_links ty ops)),
     build_decl = (\<lambda>l c n ty. store_new c (decl_links n ty)), tree_cons = (\<lambda>p v n. store_new TREE_LIST (cons_links p v n)),
     alloc_stmt_list = store_alloc_list, append_to_statement_list = store_append,
     build_constructor = (\<lambda>ty es. store_new CONSTRUCTOR (expr_links (Some ty) [])),
     build_real = (\<lambda>ty r. store_new REAL_CST (expr_links (Some ty) [])),
     get_identifier = (\<lambda>n. store_new IDENTIFIER_NODE no_links),
     add_builtin_function = (\<lambda>n ty f. store_new FUNCTION_DECL (decl_links None (Some ty))),
     set_builtin_decl = (\<lambda>f t s. s), linemap_line_start = (\<lambda>l s. (l, s)), call = store_call, act = (\<lambda>a ts ns s. s),
     gcc_node = node_number\<rparr>"

lemma new_tree_store:
  "ini BLOCK_CHAIN = None \<Longrightarrow> new_tree store_gcc s c (store_new c ini s)"
  by (auto simp: new_tree_def store_new_def store_gcc_def alive_def same_node_def Let_def)

lemma extends_store: "extends store_gcc s (snd (store_new c ini s))" "alive store_gcc (snd (store_new c ini s)) (fst (store_new c ini s))"
  by (auto simp: extends_def store_new_def store_gcc_def alive_def same_node_def Let_def)

lemma fields_ok_store: "fields_ok store_gcc"
  by (auto simp: fields_ok_def store_gcc_def alive_def)

lemma makers_ok_store: "makers_ok store_gcc"
  unfolding makers_ok_def
proof (intro conjI allI)
  show "new_tree store_gcc s c (make_node store_gcc c s)" for c s
    using new_tree_store [of no_links s c] by (simp add: store_gcc_def no_links_def)
  show "new_tree store_gcc s c (build store_gcc c ty ops s)" for c ty ops s
    using new_tree_store [of "expr_links ty ops" s c] by (simp add: store_gcc_def expr_links_def)
  show "let (t, s') = build store_gcc c ty ops s in
      link_of store_gcc s' TREE_TYPE t = ty \<and> (\<forall>i < length ops. link_of store_gcc s' (TREE_OPERAND i) t = ops ! i)" for c ty ops s
    by (simp add: store_gcc_def store_new_def expr_links_def Let_def)
  show "new_tree store_gcc s c (build_decl store_gcc l c n ty s)" for l c n ty s
    using new_tree_store [of "decl_links n ty" s c] by (simp add: store_gcc_def decl_links_def)
  show "let (t, s') = build_decl store_gcc l c n ty s in
      link_of store_gcc s' DECL_NAME t = n \<and> link_of store_gcc s' TREE_TYPE t = ty \<and> link_of store_gcc s' TREE_CHAIN t = None" for l c n ty s
    by (simp add: store_gcc_def store_new_def decl_links_def Let_def)
  show "new_tree store_gcc s TREE_LIST (tree_cons store_gcc p v n s)" for p v n s
    using new_tree_store [of "cons_links p v n" s TREE_LIST] by (simp add: store_gcc_def cons_links_def)
  show "let (t, s') = tree_cons store_gcc p v n s in
      link_of store_gcc s' TREE_PURPOSE t = p \<and> link_of store_gcc s' TREE_VALUE t = v \<and> link_of store_gcc s' TREE_CHAIN t = n" for p v n s
    by (simp add: store_gcc_def store_new_def cons_links_def Let_def)
  show "new_tree store_gcc s STATEMENT_LIST (alloc_stmt_list store_gcc s)" for s
    using new_tree_store [of no_links s STATEMENT_LIST] by (simp add: store_gcc_def no_links_def store_alloc_list_def)
qed

lemma statements_ok_store: "statements_ok store_gcc"
  by (auto simp: statements_ok_def store_gcc_def alive_def store_append_def store_alloc_list_def store_new_def Let_def)

lemma store_call_extends: "let (t, s') = store_call f ts ns s in extends store_gcc s s' \<and> alive store_gcc s' t"
proof (cases "f = Build_call_expr \<or> (\<exists>b. f = Builtin_decl_implicit b)")
  case True
  then show ?thesis
    by (auto simp: store_call_def extends_def store_new_def store_gcc_def alive_def same_node_def Let_def
      split: if_splits)
next
  case False
  then show ?thesis using extends_store by (cases f) (simp_all add: store_call_def case_prod_unfold Let_def)
qed

lemma calls_ok_store: "calls_ok store_gcc"
  unfolding calls_ok_def
proof (intro conjI allI)
  show "let (t, s') = call store_gcc f ts ns s in extends store_gcc s s' \<and> alive store_gcc s' t" for f ts ns s
    using store_call_extends [of f ts ns s] by (simp add: store_gcc_def)
  show "let (t, s') = build_constructor store_gcc ty es s in extends store_gcc s s' \<and> alive store_gcc s' t" for ty es s
    using extends_store by (simp add: store_gcc_def case_prod_unfold Let_def)
  show "let (t, s') = build_real store_gcc ty r s in extends store_gcc s s' \<and> alive store_gcc s' t" for ty r s
    using extends_store by (simp add: store_gcc_def case_prod_unfold Let_def)
  show "let (t, s') = get_identifier store_gcc n s in extends store_gcc s s' \<and> alive store_gcc s' t" for n s
    using extends_store by (simp add: store_gcc_def case_prod_unfold Let_def)
  show "extends store_gcc s (snd (linemap_line_start store_gcc l s))" for l s
    by (simp add: store_gcc_def extends_def same_node_def)
  show "let (t, s') = call store_gcc Build_call_vec (ty # f # as) [] s in
        new_tree store_gcc s CALL_EXPR (t, s') \<and> link_of store_gcc s' TREE_TYPE t = ty \<and> link_of store_gcc s' (TREE_OPERAND 1) t = f \<and>
        (\<forall>i < length as. link_of store_gcc s' (TREE_OPERAND (3 + i)) t = as ! i)" for ty f as s
  proof -
    let ?r = "store_new CALL_EXPR (expr_links ty ([None, f, None] @ as)) s"
    have "call store_gcc Build_call_vec (ty # f # as) [] s = ?r" by (simp add: store_gcc_def store_call_def)
    moreover have "new_tree store_gcc s CALL_EXPR ?r" by (rule new_tree_store) (simp add: expr_links_def)
    moreover have "links (snd ?r) TREE_TYPE (fst ?r) = ty" "links (snd ?r) (TREE_OPERAND 1) (fst ?r) = f"
      "\<forall>i < length as. links (snd ?r) (TREE_OPERAND (3 + i)) (fst ?r) = as ! i"
      by (simp_all add: store_new_def expr_links_def Let_def)
    ultimately show ?thesis by (simp add: case_prod_unfold) (simp add: store_gcc_def)
  qed
  show "let (t, s') = call store_gcc Build_case_label [low, high, l] [] s in
        new_tree store_gcc s CASE_LABEL_EXPR (t, s') \<and> link_of store_gcc s' (TREE_OPERAND 0) t = low \<and>
        link_of store_gcc s' (TREE_OPERAND 1) t = high \<and> link_of store_gcc s' (TREE_OPERAND 2) t = l" for low high l s
  proof -
    let ?r = "store_new CASE_LABEL_EXPR (expr_links None [low, high, l]) s"
    have "call store_gcc Build_case_label [low, high, l] [] s = ?r" by (simp add: store_gcc_def store_call_def)
    moreover have "new_tree store_gcc s CASE_LABEL_EXPR ?r" by (rule new_tree_store) (simp add: expr_links_def)
    moreover have "links (snd ?r) (TREE_OPERAND 0) (fst ?r) = low" "links (snd ?r) (TREE_OPERAND 1) (fst ?r) = high"
      "links (snd ?r) (TREE_OPERAND 2) (fst ?r) = l"
      by (simp_all add: store_new_def expr_links_def Let_def)
    ultimately show ?thesis by (simp add: case_prod_unfold) (simp add: store_gcc_def)
  qed
  show "let (t, s') = call store_gcc Build_call_expr (f # as) [] s in
        \<not> alive store_gcc s t \<and> code_of store_gcc s' t = CALL_EXPR \<and> flag_of store_gcc s' TREE_SIDE_EFFECTS t \<and>
        (\<forall>i < length as. link_of store_gcc s' (TREE_OPERAND (3 + i)) t = as ! i)" for f as s
    by (simp add: store_gcc_def store_call_def store_new_def expr_links_def alive_def Let_def)
qed

lemma builtins_ok_store: "builtins_ok store_gcc"
  by (simp add: builtins_ok_def store_gcc_def store_call_def store_new_def expr_links_def alive_def Let_def)

lemma actions_ok_store: "actions_ok store_gcc"
  by (simp add: actions_ok_def store_gcc_def)

lemma gcc_ok_store: "gcc_ok store_gcc"
  by (simp add: gcc_ok_def fields_ok_store makers_ok_store statements_ok_store calls_ok_store actions_ok_store)

text \<open>The store at the start, with the nodes of GCC and some more, all of them of one code\<close>

definition start_store :: "nat \<Rightarrow> (nat \<Rightarrow> tree_code) \<Rightarrow> (tree_field \<Rightarrow> nat \<Rightarrow> nat option) \<Rightarrow> node_store" where
  "start_store n cs ls = \<lparr>node_count = n, codes = cs, links = ls, flags = (\<lambda>f t. False), nums = (\<lambda>f t. 0), lists = (\<lambda>t. [])\<rparr>"

definition start_state :: "node_store \<Rightarrow> (nat, node_store) ortho" where
  "start_state s = \<lparr>trees = s, cur_binding_level = [no_level], old_binding_levels = [], cur_stmts = None,
     stack_alloc_function_ptr = None, signed_and_unsigned_types = (\<lambda>n u. None), fp_const_m_p5 = - (1 / 2),
     current_function_decl = None, input_location = 1, errorcount = 0\<rparr>"

end
