(* ===== verification/Ortho_Programs.thy ===== *)
theory Ortho_Programs
  imports Ortho_Structured Ortho_Store
begin

text \<open>
  The bodies of subprograms: what \<open>start_subprogram_body\<close>, declarations, statements and
  \<open>finish_subprogram_body\<close> give to GCC represents the declarations and statements, and all its jumps have
  their labels.
\<close>

section \<open>Bodies\<close>

definition emit_body :: "('t, 's) gcc \<Rightarrow> 't \<Rightarrow> ('t \<times> 't) list \<Rightarrow> 't stmt list \<Rightarrow> ('t, 's) ortho \<Rightarrow> ('t, 's) ortho run" where
  "emit_body g func vs ss b =
     rbind (start_subprogram_body g func b) (\<lambda>b.
     rbind (declare_vars g vs b) (\<lambda>b.
     rbind (emit_all g [] ss b) (\<lambda>b. finish_subprogram_body g b)))"

lemma settled_act: "gcc_ok g \<Longrightarrow> settled g A s s1 \<Longrightarrow> settled g A s (act g a ts ns s1)"
  unfolding settled_def by (auto simp: act_keeps stable_field_def layout_field_def)

lemma emit_body_spec:
  assumes ok: "gcc_ok g" and func: "alive g (trees b) func"
    and cur: "current_function_decl b = link_of g (trees b) DECL_CONTEXT func"
    and fe: "\<And>st. st \<in> set ss \<Longrightarrow> feasible g (trees b) 0 st"
  obtains b' bnd blk where "emit_body g func vs ss b = Done b'"
    and "link_of g (trees b') DECL_SAVED_TREE func = Some bnd" "block_node g (trees b') func [] vs ss bnd"
    and "link_of g (trees b') DECL_INITIAL func = Some blk" "code_of g (trees b') blk = BLOCK"
    and "current_function_decl b' = current_function_decl b" "cur_binding_level b' = cur_binding_level b"
    and "cur_stmts b' = cur_stmts b"
proof -
  note gs = set_link_simps [OF ok] set_flag_simps [OF ok]
  let ?b0 = "b\<lparr>current_function_decl := Some func, trees := set_flag g DECL_EXTERNAL func False (trees b)\<rparr>"
  obtain b1 r1 bnd blk l2 where 1: "push_binding g FUNCTION_BINDING ?b0 = Done b1"
    "cur_binding_level b1 = r1 # cur_binding_level ?b0" "cur_stmts b1 = Some l2"
    "current_function_decl b1 = current_function_decl ?b0"
    "fresh_level g (trees ?b0) bnd blk l2 (cur_stmts ?b0) r1 (trees b1)"
    by (rule push_function_spec [OF ok])
  let ?s0 = "trees ?b0"
  have k1: "steady g (alive g ?s0) {} ?s0 (trees b1)" using 1(5) by (simp add: fresh_level_def)
  have func0: "alive g ?s0 func" using func by (simp add: gs)
  have feas: "feasible g (trees b1) (length ([] :: 'a o_snode list)) st" if "st \<in> set ss" for st
  proof -
    have "feasible g ?s0 0 st" by (rule feasible_mono [OF fe [OF that]]) (simp_all add: gs)
    then show ?thesis using steadyD(1,3) [OF k1] by (auto intro: feasible_mono)
  qed
  have lab: "labels_alive g (trees b1) []" by (simp add: labels_alive_def env_labels_def)
  have cf: "current_function_decl b1 = Some func" using 1(4) by simp
  have func1: "alive g (trees b1) func" by (rule steadyD(1) [OF k1 func0])
  have ss: "well_emitted_all g ss" by (intro well_emitted_all stmt_well_emitted ok)
  obtain b2 b3 b4 where 2: "declare_vars g vs b1 = Done b2" "emit_all g [] ss b2 = Done b3"
    "pop_binding g b3 = Done (bnd, b4)" "cur_stmts b4 = cur_stmts ?b0" "cur_binding_level b4 = cur_binding_level ?b0"
    "current_function_decl b4 = Some func" "steady g (alive g ?s0) (labels_used_all [] ss) ?s0 (trees b4)"
    "alive g (trees b4) bnd" "link_of g (trees b4) BIND_EXPR_BLOCK bnd = Some blk"
    "lasting g (alive g ?s0) (trees b4) (\<lambda>s. block_node g s func [] vs ss bnd)"
    "alive g (trees b4) blk" "code_of g (trees b4) blk = BLOCK"
    using block_inside [where vs = vs, OF ok ss 1(5,2,3) cf func1 feas lab] by metis
  let ?A = "alive g ?s0"
  have func4: "alive g (trees b4) func" by (rule steadyD(1) [OF 2(7) func0])
  have nA: "\<not> ?A blk" "\<not> ?A bnd" using 1(5) by (simp_all add: fresh_level_def)
  let ?s5 = "set_link g DECL_SAVED_TREE func (Some bnd) (set_link g DECL_INITIAL func (Some blk) (trees b4))"
  let ?s6 = "act g Set_function_end_locus [] [input_location b4] (act g Allocate_struct_function [Some func] [0] ?s5)"
  have st6: "settled g ?A (trees b4) ?s6"
    by (intro settled_act settled_set_link ok settled_refl disjI2 disjI1 conjI func0) simp_all
  have al: "alive g ?s5 func" using func4 by (simp add: gs)
  have keep: "link_of g (act g a ts ns s) fl func = link_of g s fl func \<and> alive g (act g a ts ns s) func"
    if "alive g s func" "\<not> layout_field fl" for a ts ns s fl
    using that act_keeps [OF ok] by metis
  have lf: "\<not> layout_field DECL_CONTEXT" "\<not> layout_field DECL_INITIAL" "\<not> layout_field DECL_SAVED_TREE"
    by (simp_all add: layout_field_def)
  have al6: "alive g ?s6 func" using keep [OF _ lf(1)] al by metis
  have l6: "link_of g ?s6 fl func = link_of g ?s5 fl func" if "\<not> layout_field fl" for fl
    using keep [OF _ that] al by metis
  have parent: "link_of g ?s6 DECL_CONTEXT func = current_function_decl b"
  proof -
    have "link_of g (trees b4) DECL_CONTEXT func = link_of g ?s0 DECL_CONTEXT func"
      using steadyD(3) [OF 2(7) func0, of DECL_CONTEXT] by simp
    then show ?thesis using l6 [OF lf(1)] cur by (simp add: gs)
  qed
  let ?s7 = "if current_function_decl b \<noteq> None then act g Cgraph_get_create [Some func] [] ?s6
    else act g Cgraph_finalize_function [Some func] [0] ?s6"
  let ?s8 = "act g Set_cfun [None] [] ?s7"
  let ?b8 = "b4\<lparr>trees := ?s8, current_function_decl := current_function_decl b\<rparr>"
  have st8: "settled g ?A (trees b4) ?s8" using settled_act [OF ok] st6 by (auto split: if_splits)
  have l8: "link_of g ?s8 fl func = link_of g ?s5 fl func" if "\<not> layout_field fl" for fl
    using keep [OF _ that] al6 l6 [OF that] by (cases "current_function_decl b") simp_all
  have "finish_subprogram_body g b3 = Done ?b8"
    using parent by (simp add: finish_subprogram_body_def 2(3,6,9) Let_def comp_def)
  moreover have "start_subprogram_body g func b = Done b1"
  proof -
    have eq: "trees_update (set_flag g DECL_EXTERNAL func False) (b\<lparr>current_function_decl := Some func\<rparr>) = ?b0" by simp
    then show ?thesis using 1(1) cur by (simp add: start_subprogram_body_def gcc_assert_def eq)
  qed
  ultimately have "emit_body g func vs ss b = Done ?b8" using 2(1,2) by (simp add: emit_body_def)
  moreover have "link_of g ?s8 DECL_SAVED_TREE func = Some bnd" "link_of g ?s8 DECL_INITIAL func = Some blk"
    using l8 lf by (simp_all add: gs)
  moreover have "code_of g ?s8 blk = BLOCK" using settledD(3) [OF st8 2(11) nA(1)] 2(12) by simp
  moreover have "block_node g ?s8 func [] vs ss bnd" by (rule lastingD [OF 2(10) st8])
  ultimately show thesis using 2(4,5) by (intro that [of ?b8 bnd blk]) simp_all
qed

section \<open>The jumps of a body\<close>

text \<open>
  The nodes inside a list of statements: those of the list, and those inside the branches of a conditional
  statement, the alternatives of a switch, and the statements of a block.
\<close>

definition nested :: "('t, 's) gcc \<Rightarrow> 's \<Rightarrow> 't \<Rightarrow> 't list \<Rightarrow> bool" where
  "nested g s u us \<longleftrightarrow> (\<exists>i. (code_of g s u, i) \<in> {(COND_EXPR, 1), (COND_EXPR, 2), (SWITCH_EXPR, 1), (BIND_EXPR, 1)} \<and> body g s i u us)"

inductive inside :: "('t, 's) gcc \<Rightarrow> 's \<Rightarrow> 't list \<Rightarrow> 't \<Rightarrow> bool" for g s where
  inside_here: "t \<in> set ts \<Longrightarrow> inside g s ts t"
| inside_nested: "u \<in> set ts \<Longrightarrow> nested g s u us \<Longrightarrow> inside g s us t \<Longrightarrow> inside g s ts t"

inductive_simps inside_iff: "inside g s ts t"

lemma inside_set: "inside g s ts t \<longleftrightarrow> (\<exists>u \<in> set ts. t = u \<or> (\<exists>us. nested g s u us \<and> inside g s us t))"
  by (auto simp: inside_iff [of g s ts t])

lemma inside_Nil [simp]: "\<not> inside g s [] t"
  by (simp add: inside_set [of g s "[]"])

lemma inside_append: "inside g s (ts @ us) t \<longleftrightarrow> inside g s ts t \<or> inside g s us t"
  by (simp add: inside_set [of g s "ts @ us"] inside_set [of g s ts] inside_set [of g s us] bex_Un)

lemma inside_Cons: "inside g s (u # us) t \<longleftrightarrow> t = u \<or> (\<exists>ts. nested g s u ts \<and> inside g s ts t) \<or> inside g s us t"
  by (simp add: inside_set [of g s "u # us"] inside_set [of g s us])

text \<open>Every jump inside has its label inside, unless the label is one of \<open>L\<close>.\<close>

definition jumps_ok :: "('t, 's) gcc \<Rightarrow> 's \<Rightarrow> 't set \<Rightarrow> 't list \<Rightarrow> bool" where
  "jumps_ok g s L ts \<longleftrightarrow> (\<forall>t. inside g s ts t \<longrightarrow> code_of g s t = GOTO_EXPR \<longrightarrow>
     (\<exists>x. link_of g s (TREE_OPERAND 0) t = Some x \<and> (x \<in> L \<or> (\<exists>u. inside g s ts u \<and> expr1 g s LABEL_EXPR u x))))"

lemma jumps_ok_append: "jumps_ok g s L ts \<Longrightarrow> jumps_ok g s L us \<Longrightarrow> jumps_ok g s L (ts @ us)"
  unfolding jumps_ok_def inside_append by blast

lemma jumps_ok_mono: "jumps_ok g s L ts \<Longrightarrow> L \<subseteq> L' \<Longrightarrow> jumps_ok g s L' ts"
  unfolding jumps_ok_def by blast

lemma jumps_ok_Nil [simp]: "jumps_ok g s L []"
  by (simp add: jumps_ok_def)

lemma jumps_ok_goto: "expr1 g s GOTO_EXPR t x \<Longrightarrow> x \<in> L \<Longrightarrow> jumps_ok g s L [t]"
  by (auto simp: jumps_ok_def inside_Cons nested_def expr1_def)

lemma jumps_ok_plain:
  "code_of g s t \<notin> {GOTO_EXPR, COND_EXPR, SWITCH_EXPR, BIND_EXPR} \<Longrightarrow> jumps_ok g s L [t]"
  by (auto simp: jumps_ok_def inside_Cons nested_def)

lemma jumps_ok_nested:
  assumes "code_of g s t \<noteq> GOTO_EXPR" "\<And>us. nested g s t us \<Longrightarrow> jumps_ok g s L us"
  shows "jumps_ok g s L [t]"
  unfolding jumps_ok_def
proof (intro allI impI)
  fix u assume "inside g s [t] u" "code_of g s u = GOTO_EXPR"
  with assms(1) obtain us where "nested g s t us" "inside g s us u" "code_of g s u = GOTO_EXPR" by (auto simp: inside_Cons)
  with assms(2) show "\<exists>x. link_of g s (TREE_OPERAND 0) u = Some x \<and> (x \<in> L \<or> (\<exists>v. inside g s [t] v \<and> expr1 g s LABEL_EXPR v x))"
    unfolding jumps_ok_def inside_Cons by blast
qed

lemma jumps_ok_label:
  assumes "jumps_ok g s L ts" "expr1 g s LABEL_EXPR u x" "inside g s ts u"
  shows "jumps_ok g s (L - {x}) ts"
  using assms unfolding jumps_ok_def by blast

lemma body_unique: "body g s i t ts \<Longrightarrow> nested g s t us \<Longrightarrow> code_of g s t \<in> {SWITCH_EXPR, BIND_EXPR} \<Longrightarrow> i = 1 \<Longrightarrow> us = ts"
  by (auto simp: nested_def body_def)

lemma labels_used_Cons: "labels_used_all env (st # ss) = labels_used env st \<union> labels_used_all env ss"
  by (simp add: labels_used_all_def)

lemma labels_used_jumps:
  "n < length env \<Longrightarrow> end_label (env ! n) \<in> labels_used env (Exit n)"
  "n < length env \<Longrightarrow> beg_label (env ! n) \<in> labels_used env (Continue n)"
  by (auto simp: labels_used_def)

lemma jumps_ok_list:
  "(\<And>t. t \<in> set ts \<Longrightarrow> code_of g s t \<notin> {GOTO_EXPR, COND_EXPR, SWITCH_EXPR, BIND_EXPR}) \<Longrightarrow> jumps_ok g s L ts"
proof (induction ts)
  case (Cons t ts)
  then show ?case using jumps_ok_append [of g s L "[t]" ts] jumps_ok_plain [of g s t L] by simp
qed simp

lemma choice_labels_ok: "list_all2 (choice_label g s) cs ls \<Longrightarrow> jumps_ok g s L ls"
  by (rule jumps_ok_list) (auto simp: list_all2_conv_all_nth in_set_conv_nth)

lemma represents_jumps:
  "represents g s f env st ts \<Longrightarrow> jumps_ok g s (labels_used env st) ts"
  "represents_all g s f env ss ts \<Longrightarrow> jumps_ok g s (labels_used_all env ss) ts"
  "represents_alts g s f env fin brk alts ts \<Longrightarrow> jumps_ok g s (insert fin (\<Union>(cs, ss) \<in> set alts. labels_used_all env ss)) ts"
proof (induction rule: represents_represents_all_represents_alts.inducts)
  case (loop t1 l env ss ts t2 ts3)
  let ?T = "t1 # ts @ t2 # ts3"
  let ?L = "labels_used_all (l # env) ss"
  have all: "jumps_ok g s (insert (beg_label l) ?L) ?T"
  proof -
    have "jumps_ok g s (insert (beg_label l) ?L) [t1]"
      using loop(1) by (intro jumps_ok_plain) (simp add: expr1_def)
    moreover have "jumps_ok g s (insert (beg_label l) ?L) ts" using loop(3) by (rule jumps_ok_mono) blast
    moreover have "jumps_ok g s (insert (beg_label l) ?L) [t2]" by (rule jumps_ok_goto [OF loop(4)]) simp
    moreover have "jumps_ok g s (insert (beg_label l) ?L) ts3"
      using loop(5) by (intro jumps_ok_list) (auto simp: expr1_def split: if_splits)
    ultimately have "jumps_ok g s (insert (beg_label l) ?L) ([t1] @ ts @ [t2] @ ts3)" by (intro jumps_ok_append)
    then show ?thesis by simp
  qed
  have 1: "jumps_ok g s (insert (beg_label l) ?L - {beg_label l}) ?T"
    by (rule jumps_ok_label [OF all loop(1)]) (simp add: inside_here)
  have "jumps_ok g s (insert (beg_label l) ?L - {beg_label l} - {end_label l}) ?T"
  proof (cases "\<exists>st \<in> set ss. exits 0 st")
    case True
    then obtain t3 where "ts3 = [t3]" "expr1 g s LABEL_EXPR t3 (end_label l)" using loop(5) by auto
    then show ?thesis using jumps_ok_label [OF 1] by (simp add: inside_here)
  next
    case False
    then have "end_label l \<notin> ?L" using end_label_used [of l env ss] loop(6,7) by simp
    then show ?thesis using 1 by (rule_tac jumps_ok_mono [OF 1]) blast
  qed
  then show ?case
    by (rule jumps_ok_mono) (use labels_used_loop [of _ l env ss] in blast)
next
  case (if_then t c ts env ss)
  show ?case
    by (rule jumps_ok_nested)
      (use if_then in \<open>auto simp: nested_def body_def expr1_def labels_used_simps numeral_2_eq_2\<close>)
next
  case (if_else t c ts1 env ss1 ts2 ss2)
  show ?case
  proof (rule jumps_ok_nested)
    fix us assume "nested g s t us"
    then have "us = ts1 \<or> us = ts2" using if_else by (auto simp: nested_def body_def expr1_def)
    then show "jumps_ok g s (labels_used env (If_Else c ss1 ss2)) us"
      using if_else by (auto simp: labels_used_simps intro: jumps_ok_mono)
  qed (use if_else in \<open>simp add: expr1_def\<close>)
next
  case (switch t v ts env fin alts t2)
  let ?L = "insert fin (labels_used env (Case v alts))"
  have "jumps_ok g s ?L [t]"
  proof (rule jumps_ok_nested)
    fix us assume "nested g s t us"
    then have "us = ts" using switch by (auto simp: nested_def body_def expr1_def)
    then show "jumps_ok g s ?L us" using switch by (simp add: labels_used_simps)
  qed (use switch in \<open>simp add: expr1_def\<close>)
  moreover have "jumps_ok g s ?L [t2]" using switch by (intro jumps_ok_plain) (simp add: expr1_def)
  ultimately have "jumps_ok g s ?L ([t] @ [t2])" by (rule jumps_ok_append)
  then have "jumps_ok g s (?L - {fin}) [t, t2]"
    using jumps_ok_label [of g s ?L "[t, t2]" t2 fin] switch by (simp add: inside_here)
  then show ?case by (rule jumps_ok_mono) blast
next
  case (bind_block t ds vs ts env ss)
  show ?case
    by (rule jumps_ok_nested) (use bind_block in \<open>auto simp: nested_def body_def labels_used_simps\<close>)
next
  case (all_Cons env st ts ss us)
  then show ?case by (auto simp: labels_used_Cons intro!: jumps_ok_append elim: jumps_ok_mono)
next
  case (alts_Cons brk gs fin cs ls env ss ts alts us)
  let ?L = "insert fin (\<Union>(cs, ss) \<in> set ((cs, ss) # alts). labels_used_all env ss)"
  have "jumps_ok g s ?L gs" using alts_Cons(1) by (auto split: if_splits intro: jumps_ok_goto)
  moreover have "jumps_ok g s ?L ts" using alts_Cons(4) by (rule jumps_ok_mono) auto
  moreover have "jumps_ok g s ?L us" using alts_Cons(6) by (rule jumps_ok_mono) auto
  ultimately show ?case using choice_labels_ok [OF alts_Cons(2)] by (intro jumps_ok_append)
qed (auto simp: expr1_def labels_used_jumps intro: jumps_ok_plain jumps_ok_goto)

section \<open>Whole subprograms\<close>

lemma block_represents: "block_node g s f env vs ss t \<Longrightarrow> represents g s f env (Declare vs ss) [t]"
  unfolding block_node_def by (blast intro: bind_block)

text \<open>
  C5: A subprogram body that a front end gives as declarations and structured statements is accepted, and
  what GCC then has as the saved tree of the subprogram represents it: a block with the variables in order,
  and each statement by its node, if statements by conditionals with the statements of both branches, loops
  by a label, the statements and a jump back, case statements by a switch with the labels of every choice
  and a jump to the end after each alternative but the last. The levels, the current statement list and the current function
  are those of before. The body leaves and continues only loops around, and calls only subprograms with a type.\<close>

theorem subprogram_body_represents:
  assumes "gcc_ok g" "alive g (trees b) func" "current_function_decl b = link_of g (trees b) DECL_CONTEXT func"
    and "\<And>st. st \<in> set ss \<Longrightarrow> feasible g (trees b) 0 st"
  shows "\<exists>b' bnd blk. emit_body g func vs ss b = Done b' \<and> link_of g (trees b') DECL_SAVED_TREE func = Some bnd \<and>
    represents g (trees b') func [] (Declare vs ss) [bnd] \<and>
    link_of g (trees b') DECL_INITIAL func = Some blk \<and> code_of g (trees b') blk = BLOCK \<and>
    cur_binding_level b' = cur_binding_level b \<and> cur_stmts b' = cur_stmts b \<and>
    current_function_decl b' = current_function_decl b"
proof (rule emit_body_spec [where vs = vs, OF assms])
  fix b' bnd blk
  assume "emit_body g func vs ss b = Done b'" "link_of g (trees b') DECL_SAVED_TREE func = Some bnd"
    "block_node g (trees b') func [] vs ss bnd" "link_of g (trees b') DECL_INITIAL func = Some blk"
    "code_of g (trees b') blk = BLOCK" "current_function_decl b' = current_function_decl b"
    "cur_binding_level b' = cur_binding_level b" "cur_stmts b' = cur_stmts b"
  then show ?thesis
    by (intro exI [of _ b'] exI [of _ bnd] exI [of _ blk] conjI block_represents)
qed

definition example_state :: "(nat, node_store) ortho" where
  "example_state = start_state (start_store 20 (\<lambda>t. VAR_DECL) (\<lambda>f t. if f = TREE_TYPE then Some 4 else None))"

definition example_body :: "nat stmt list" where
  "example_body = [Loop [If_Then 13 [Exit 0], Case 14 [([Expr_Choice 10, Range_Choice 11 12], [Assign 14 15]), ([Default_Choice], [Continue 0])]],
     If_Else 16 [Proc_Call 17 [14, 15]] [Return]]"

lemma example_facts:
  "alive store_gcc (trees example_state) 18" "current_function_decl example_state = link_of store_gcc (trees example_state) DECL_CONTEXT 18"
  "\<And>st. st \<in> set example_body \<Longrightarrow> feasible store_gcc (trees example_state) 0 st"
  by (auto simp: example_state_def start_state_def start_store_def store_gcc_def alive_def example_body_def)

theorem subprogram_body_represents_witness:
  "\<exists>b' bnd blk. emit_body store_gcc 18 [(19, 4)] example_body example_state = Done b' \<and>
    link_of store_gcc (trees b') DECL_SAVED_TREE 18 = Some bnd \<and>
    represents store_gcc (trees b') 18 [] (Declare [(19, 4)] example_body) [bnd] \<and>
    link_of store_gcc (trees b') DECL_INITIAL 18 = Some blk \<and> code_of store_gcc (trees b') blk = BLOCK \<and>
    cur_binding_level b' = cur_binding_level example_state \<and> cur_stmts b' = cur_stmts example_state \<and>
    current_function_decl b' = current_function_decl example_state"
  by (rule subprogram_body_represents [OF gcc_ok_store example_facts])

text \<open>
  C11: Every jump inside the saved tree of a subprogram, at any depth of conditionals, switches and blocks,
  goes to a label that stands in the same tree: \<open>exit\<close> and \<open>next\<close> of a loop, and the end of each
  alternative of a case statement, are resolved. In particular a loop gets its end label whenever some
  statement inside leaves it.\<close>

theorem jumps_resolved:
  assumes "gcc_ok g" "alive g (trees b) func" "current_function_decl b = link_of g (trees b) DECL_CONTEXT func"
    and "\<And>st. st \<in> set ss \<Longrightarrow> feasible g (trees b) 0 st"
  shows "\<exists>b' bnd. emit_body g func vs ss b = Done b' \<and> link_of g (trees b') DECL_SAVED_TREE func = Some bnd \<and>
    (\<forall>t. inside g (trees b') [bnd] t \<and> code_of g (trees b') t = GOTO_EXPR \<longrightarrow>
      (\<exists>x u. link_of g (trees b') (TREE_OPERAND 0) t = Some x \<and> inside g (trees b') [bnd] u \<and>
        code_of g (trees b') u = LABEL_EXPR \<and> link_of g (trees b') (TREE_OPERAND 0) u = Some x))"
proof (rule emit_body_spec [where vs = vs, OF assms])
  fix b' bnd
  assume b': "emit_body g func vs ss b = Done b'" "link_of g (trees b') DECL_SAVED_TREE func = Some bnd"
    and "block_node g (trees b') func [] vs ss bnd"
  then have "represents g (trees b') func [] (Declare vs ss) [bnd]" by (simp add: block_represents)
  from represents_jumps(1) [OF this] have "jumps_ok g (trees b') {} [bnd]" by (simp add: labels_used_def)
  with b' show ?thesis unfolding jumps_ok_def expr1_def by blast
qed

theorem jumps_resolved_witness:
  "\<exists>b' bnd. emit_body store_gcc 18 [(19, 4)] example_body example_state = Done b' \<and>
    link_of store_gcc (trees b') DECL_SAVED_TREE 18 = Some bnd \<and>
    (\<forall>t. inside store_gcc (trees b') [bnd] t \<and> code_of store_gcc (trees b') t = GOTO_EXPR \<longrightarrow>
      (\<exists>x u. link_of store_gcc (trees b') (TREE_OPERAND 0) t = Some x \<and> inside store_gcc (trees b') [bnd] u \<and>
        code_of store_gcc (trees b') u = LABEL_EXPR \<and> link_of store_gcc (trees b') (TREE_OPERAND 0) u = Some x))"
  by (rule jumps_resolved [OF gcc_ok_store example_facts])

end
