(* ===== verification/Ortho_Keeps.thy ===== *)
theory Ortho_Keeps
  imports Ortho_Chains
begin

text \<open>
  What the steps of \<open>ortho-lang-7.c\<close> leave as it was, as rules that compose, and what is new when a
  declaration is put into its level.
\<close>

section \<open>What a step keeps\<close>

text \<open>
  \<open>leaves\<close>: the nodes there were are still there, with their codes and their links, except for those links of
  \<open>X\<close> and for what a layout fills in. The rules compose steps.
\<close>

definition leaves :: "('t, 's) gcc \<Rightarrow> (tree_field \<times> 't) set \<Rightarrow> 's \<Rightarrow> 's \<Rightarrow> bool" where
  "leaves g X s s' \<longleftrightarrow> (\<forall>t. alive g s t \<longrightarrow> alive g s' t \<and> code_of g s' t = code_of g s t \<and>
     (\<forall>f. \<not> layout_field f \<longrightarrow> (f, t) \<notin> X \<longrightarrow> link_of g s' f t = link_of g s f t))"

lemma leavesD:
  assumes "leaves g X s s'" "alive g s t"
  shows "alive g s' t" "code_of g s' t = code_of g s t"
    and "\<not> layout_field f \<Longrightarrow> (f, t) \<notin> X \<Longrightarrow> link_of g s' f t = link_of g s f t"
  using assms by (auto simp: leaves_def)

lemma leaves_refl: "leaves g X s s"
  by (simp add: leaves_def)

lemma leaves_trans: "leaves g X s s' \<Longrightarrow> leaves g X s' s'' \<Longrightarrow> leaves g X s s''"
  by (simp add: leaves_def)

lemma leaves_mono: "leaves g X s s' \<Longrightarrow> X \<subseteq> Y \<Longrightarrow> leaves g Y s s'"
  by (auto simp: leaves_def)

text \<open>Links of nodes that were not there do not count.\<close>

lemma leaves_fresh: "leaves g X s s' \<Longrightarrow> (\<And>f t. (f, t) \<in> X \<Longrightarrow> \<not> alive g s t \<or> (f, t) \<in> Y) \<Longrightarrow> leaves g Y s s'"
  by (auto simp: leaves_def)

lemma leaves_set_link: "gcc_ok g \<Longrightarrow> (f, t) \<in> X \<Longrightarrow> leaves g X s (set_link g f t v s)"
  by (auto simp: leaves_def set_link_simps)

lemma leaves_set_flag: "gcc_ok g \<Longrightarrow> leaves g X s (set_flag g f t v s)"
  by (simp add: leaves_def set_flag_simps)

lemma leaves_set_num: "gcc_ok g \<Longrightarrow> leaves g X s (set_num g f t v s)"
  by (simp add: leaves_def set_num_simps)

lemma leaves_act: "gcc_ok g \<Longrightarrow> leaves g X s (act g a ts ns s)"
  by (simp add: leaves_def act_keeps)

lemma leaves_new: "new_tree g s c (t, s') \<Longrightarrow> leaves g X s s'"
  by (auto simp: leaves_def new_tree_def same_node_def)

lemma leaves_call: "gcc_ok g \<Longrightarrow> call g f ts ns s = (t, s') \<Longrightarrow> leaves g X s s'"
  using call_extends [of g f ts ns s t s'] by (auto simp: leaves_def extends_def same_node_def)

lemma leaves_built:
  assumes "built g s f e xs" "leaves g X s s'" "\<forall>x \<in> set xs. alive g s x" "\<not> layout_field f" "\<forall>x \<in> set xs. (f, x) \<notin> X"
  shows "built g s' f e xs"
  using assms(1) built_cong [of xs g s' f s e] leavesD(3) [OF assms(2)] assms(3-5) by blast

lemma not_layout: "\<not> layout_field TREE_CHAIN" "\<not> layout_field TREE_VALUE" "\<not> layout_field TREE_TYPE" "\<not> layout_field DECL_NAME"
  "\<not> layout_field DECL_CONTEXT" "\<not> layout_field DECL_ARG_TYPE" "\<not> layout_field DECL_ARGUMENTS" "\<not> layout_field DECL_RESULT"
  by (simp_all add: layout_field_def)

section \<open>Declarations in their levels\<close>

text \<open>The place of the declaration in its level, and its context\<close>

lemma pushdecl_exact:
  assumes ok: "gcc_ok g" and lev: "cur_binding_level b = r # ls"
    and es: "built g (trees b) TREE_CHAIN (first_decl r, last_decl r) es" "d \<notin> set es" "link_of g (trees b) TREE_CHAIN d = None"
    and s: "s = set_link g DECL_CONTEXT d (current_function_decl b) (trees b)"
    and s': "s' = (if es = [] then s else set_link g TREE_CHAIN (last es) (Some d) s)"
  obtains r' where "pushdecl g d b = Done (b\<lparr>trees := s', cur_binding_level := r' # ls\<rparr>)"
    and "built g s' TREE_CHAIN (first_decl r', last_decl r') (es @ [d])"
    and "r' = r\<lparr>first_decl := first_decl r', last_decl := last_decl r'\<rparr>"
proof -
  note gs = set_link_simps [OF ok]
  have "built g s TREE_CHAIN (first_decl r, last_decl r) es"
    using es(1) built_cong [of es g s TREE_CHAIN "trees b"] by (simp add: s gs)
  then obtain r' where 1: "chain_decl g d r s = Done (r', s')" "built g s' TREE_CHAIN (first_decl r', last_decl r') (es @ [d])"
    unfolding s' using decls.append_built [OF ok _ es(2), of s r thesis] es(3) by (auto simp: s gs)
  have "pushdecl g d b = Done (b\<lparr>trees := s', cur_binding_level := r' # ls\<rparr>)" using 1(1) by (simp add: pushdecl_def lev s)
  moreover have "r' = r\<lparr>first_decl := first_decl r', last_decl := last_decl r'\<rparr>"
    using 1(1) by (auto simp: chain_decl_def link_last_def split: option.splits)
  ultimately show thesis using 1(2) by (intro that)
qed

lemma pushdecl_spec:
  assumes ok: "gcc_ok g" and lev: "cur_binding_level b = r # ls"
    and es: "built g (trees b) TREE_CHAIN (first_decl r, last_decl r) es" "d \<notin> set es" "link_of g (trees b) TREE_CHAIN d = None"
  obtains r' s' where "pushdecl g d b = Done (b\<lparr>trees := s', cur_binding_level := r' # ls\<rparr>)"
    and "built g s' TREE_CHAIN (first_decl r', last_decl r') (es @ [d])"
    and "leaves g ({(DECL_CONTEXT, d)} \<union> {(TREE_CHAIN, e) |e. e \<in> set es}) (trees b) s'"
    and "link_of g s' DECL_CONTEXT d = current_function_decl b"
proof (rule pushdecl_exact [OF assms refl refl])
  fix r'
  let ?s = "set_link g DECL_CONTEXT d (current_function_decl b) (trees b)"
  let ?s' = "if es = [] then ?s else set_link g TREE_CHAIN (last es) (Some d) ?s"
  assume "pushdecl g d b = Done (b\<lparr>trees := ?s', cur_binding_level := r' # ls\<rparr>)"
    "built g ?s' TREE_CHAIN (first_decl r', last_decl r') (es @ [d])"
  then show thesis by (rule that) (auto simp: leaves_def set_link_simps [OF ok])
qed

end
