(* ===== verification/Ortho_Subprograms.thy ===== *)
theory Ortho_Subprograms
  imports Ortho_Keeps Ortho_Store
begin

text \<open>
  Declarations of subprograms in \<open>ortho-lang-7.c\<close>: the parameters, their types, the result and the place of the
  declaration in its level.
\<close>

section \<open>Parameters\<close>

fun new_params :: "('t, 's) gcc \<Rightarrow> ('t \<times> 't) list \<Rightarrow> 't o_inter_list \<Rightarrow> ('t, 's) ortho \<Rightarrow>
    ('t o_inter_list \<times> ('t, 's) ortho) run" where
  "new_params g [] l b = Done (l, b)"
| "new_params g ((ident, atype) # ps) l b =
     rbind (new_interface_decl g ident atype l b) (\<lambda>(_, l, b). new_params g ps l b)"

definition declare_subprogram ::
  "('t, 's) gcc \<Rightarrow> 't \<Rightarrow> o_storage \<Rightarrow> 't \<Rightarrow> ('t \<times> 't) list \<Rightarrow> ('t, 's) ortho \<Rightarrow> ('t \<times> ('t, 's) ortho) run" where
  "declare_subprogram g ident storage rtype ps b =
     rbind (new_params g ps (start_function_decl ident storage rtype) b) (\<lambda>(l, b). finish_subprogram_decl g l b)"

definition parameter :: "('t, 's) gcc \<Rightarrow> 's \<Rightarrow> 't \<times> 't \<Rightarrow> 't \<Rightarrow> bool" where
  "parameter g s p t \<longleftrightarrow> code_of g s t = PARM_DECL \<and> link_of g s DECL_NAME t = Some (fst p) \<and>
     link_of g s TREE_TYPE t = Some (snd p) \<and> link_of g s DECL_ARG_TYPE t = Some (snd p)"

definition type_element :: "('t, 's) gcc \<Rightarrow> 's \<Rightarrow> 't \<Rightarrow> 't \<Rightarrow> bool" where
  "type_element g s ty t \<longleftrightarrow> code_of g s t = TREE_LIST \<and> link_of g s TREE_VALUE t = Some ty"

lemma parameters_keep:
  assumes "list_all2 (parameter g s) ps ds" "leaves g X s s'" "\<forall>d \<in> set ds. alive g s d"
    and "\<forall>d \<in> set ds. \<forall>f \<in> {DECL_NAME, TREE_TYPE, DECL_ARG_TYPE}. (f, d) \<notin> X"
  shows "list_all2 (parameter g s') ps ds"
  using assms(1)
proof (rule list.rel_mono_strong)
  fix p d assume "d \<in> set ds" "parameter g s p d"
  then show "parameter g s' p d"
    using leavesD [OF assms(2), of d] assms(3,4) by (simp add: parameter_def not_layout)
qed

lemma type_elements_keep:
  assumes "list_all2 (type_element g s) tys ts" "leaves g X s s'" "\<forall>t \<in> set ts. alive g s t" "\<forall>t \<in> set ts. (TREE_VALUE, t) \<notin> X"
  shows "list_all2 (type_element g s') tys ts"
  using assms(1)
proof (rule list.rel_mono_strong)
  fix ty t assume "t \<in> set ts" "type_element g s ty t"
  then show "type_element g s' ty t"
    using leavesD [OF assms(2), of t] assms(3,4) by (simp add: type_element_def not_layout)
qed

text \<open>The list of the types of the parameters, and both lists with some parameters\<close>

definition types_so_far :: "('t, 's) gcc \<Rightarrow> 's \<Rightarrow> 't list \<Rightarrow> 't list_constr_type \<Rightarrow> 't list \<Rightarrow> bool" where
  "types_so_far g s tys l ts \<longleftrightarrow> built g s TREE_CHAIN (list_first l, list_last l) ts \<and>
     (\<forall>t \<in> set ts. alive g s t) \<and> list_all2 (type_element g s) tys ts"

definition params_so_far :: "('t, 's) gcc \<Rightarrow> 's \<Rightarrow> ('t \<times> 't) list \<Rightarrow> 't chain_constr_type \<Rightarrow> 't list \<Rightarrow> bool" where
  "params_so_far g s ps c ds \<longleftrightarrow> built g s TREE_CHAIN (chain_first c, chain_last c) ds \<and>
     (\<forall>d \<in> set ds. alive g s d) \<and> list_all2 (parameter g s) ps ds"

lemma types_keep:
  assumes "types_so_far g s tys l ts" "leaves g X s s'" "\<forall>t \<in> set ts. (TREE_CHAIN, t) \<notin> X \<and> (TREE_VALUE, t) \<notin> X"
  shows "types_so_far g s' tys l ts"
  using assms leaves_built [OF _ assms(2)] type_elements_keep [OF _ assms(2)] leavesD(1) [OF assms(2)]
  by (simp add: types_so_far_def not_layout)

lemma params_keep:
  assumes "params_so_far g s ps c ds" "leaves g X s s'"
    and "\<forall>d \<in> set ds. \<forall>f \<in> {TREE_CHAIN, DECL_NAME, TREE_TYPE, DECL_ARG_TYPE}. (f, d) \<notin> X"
  shows "params_so_far g s' ps c ds"
  using assms leaves_built [OF _ assms(2)] parameters_keep [OF _ assms(2)] leavesD(1) [OF assms(2)]
  by (simp add: params_so_far_def not_layout)

lemma ortho_list_append_spec:
  assumes ok: "gcc_ok g" and l: "types_so_far g s tys l ts"
  obtains l' s' t where "ortho_list_append g ty l s = Done (l', s')" "types_so_far g s' (tys @ [ty]) l' (ts @ [t])"
    and "leaves g {(TREE_CHAIN, x) |x. x \<in> set ts} s s'" "\<not> alive g s t"
proof -
  obtain t s1 where n: "tree_cons g None (Some ty) None s = (t, s1)" by fastforce
  note new = tree_cons_new [OF ok n]
  note t = new_treeD [OF new(1)]
  have k1: "leaves g {} s s1" by (rule leaves_new [OF new(1)])
  have l1: "types_so_far g s1 tys l ts" by (rule types_keep [OF l k1]) simp
  have nt: "t \<notin> set ts" using l t(1) by (auto simp: types_so_far_def)
  obtain l' s' where 2: "list_link g t l s1 = Done (l', s')" "built g s' TREE_CHAIN (list_first l', list_last l') (ts @ [t])"
    "s' = (if ts = [] then s1 else set_link g TREE_CHAIN (last ts) (Some t) s1)"
    by (rule param_types.append_built [OF ok _ nt new(4), of l]) (use l1 in \<open>simp add: types_so_far_def\<close>)
  have k2: "leaves g {(TREE_CHAIN, x) |x. x \<in> set ts} s1 s'"
    by (auto simp: 2(3) leaves_refl intro: leaves_set_link [OF ok])
  show thesis
  proof (rule that [of l' s' t])
    show "ortho_list_append g ty l s = Done (l', s')" by (simp add: ortho_list_append_def n 2(1))
    show "leaves g {(TREE_CHAIN, x) |x. x \<in> set ts} s s'" by (rule leaves_trans [OF leaves_mono [OF k1] k2]) simp
    have "list_all2 (type_element g s') tys ts" "\<forall>x \<in> set ts. alive g s' x"
      using type_elements_keep [OF _ k2] l1 leavesD(1) [OF k2] by (simp_all add: types_so_far_def)
    moreover have "type_element g s' ty t" "alive g s' t"
      using leavesD [OF k2, of t] t(2,3) new(3) nt by (simp_all add: type_element_def not_layout)
    ultimately show "types_so_far g s' (tys @ [ty]) l' (ts @ [t])" using 2(2) by (simp add: types_so_far_def list_all2_appendI)
  qed (rule t(1))
qed

text \<open>
  While parameters are declared, nothing changes for the nodes that there were before: the parameters and the
  elements of the list of their types are new.
\<close>

definition declaring :: "('t, 's) gcc \<Rightarrow> 's \<Rightarrow> ('t \<times> 't) list \<Rightarrow> 't o_inter_list \<Rightarrow> 's \<Rightarrow> 't list \<Rightarrow> 't list \<Rightarrow> bool" where
  "declaring g s0 ps l s ds ts \<longleftrightarrow> params_so_far g s ps (il_param_chain l) ds \<and>
     types_so_far g s (map snd ps) (il_param_list l) ts \<and> leaves g {} s0 s \<and> (\<forall>d \<in> set ds \<union> set ts. \<not> alive g s0 d)"

lemma set_arg_type_spec:
  assumes ok: "gcc_ok g"
  shows "leaves g {(DECL_ARG_TYPE, r)} s (set_arg_type g r ty s)" "code_of g (set_arg_type g r ty s) = code_of g s"
    and "alive g (set_arg_type g r ty s) = alive g s" "link_of g (set_arg_type g r ty s) DECL_ARG_TYPE r = Some ty"
    and "f \<noteq> DECL_ARG_TYPE \<Longrightarrow> link_of g (set_arg_type g r ty s) f t = link_of g s f t"
  by (auto simp: set_arg_type_def Let_def leaves_def set_link_simps [OF ok])

lemma new_parm_spec:
  assumes ok: "gcc_ok g" and n: "build_decl g l PARM_DECL (Some ident) (Some ty) s = (r, s1)"
    and s3: "s3 = act g Layout_decl [Some r] [0] (set_arg_type g r ty s1)"
  shows "leaves g {} s s3" "\<not> alive g s r" "alive g s3 r" "link_of g s3 TREE_CHAIN r = None" "parameter g s3 (ident, ty) r"
proof -
  note new = build_decl_new [OF ok n]
  note r = new_treeD [OF new(1)]
  note a = set_arg_type_spec [OF ok, where r = r and s = s1 and ty = ty]
  have k3: "leaves g {} (set_arg_type g r ty s1) s3" unfolding s3 by (rule leaves_act [OF ok])
  have "leaves g {(DECL_ARG_TYPE, r)} s s3"
    using leaves_trans [OF leaves_trans [OF leaves_new [OF new(1)] a(1)] leaves_mono [OF k3]] by simp
  then show "leaves g {} s s3" by (rule leaves_fresh) (use r(1) in auto)
  note k = leavesD [OF k3, of r, unfolded a(3), simplified, OF r(2) [THEN iffD2, OF disjI1, OF refl]]
  show "\<not> alive g s r" "alive g s3 r" "link_of g s3 TREE_CHAIN r = None" "parameter g s3 (ident, ty) r"
    using r(1,3) k new(2-4) a(2,4,5) by (simp_all add: parameter_def not_layout)
qed

lemma new_interface_decl_spec:
  assumes ok: "gcc_ok g" and D: "declaring g s0 ps l (trees b) ds ts"
  obtains r l' s' t where "new_interface_decl g ident ty l b = Done (r, l', b\<lparr>trees := s'\<rparr>)"
    and "declaring g s0 (ps @ [(ident, ty)]) l' s' (ds @ [r]) (ts @ [t])"
    and "il_ident l' = il_ident l" "il_storage l' = il_storage l" "il_rtype l' = il_rtype l"
proof -
  note 1 = D [unfolded declaring_def]
  obtain r s1 where n: "build_decl g (input_location b) PARM_DECL (Some ident) (Some ty) (trees b) = (r, s1)" by fastforce
  let ?s3 = "act g Layout_decl [Some r] [0] (set_arg_type g r ty s1)"
  note r = new_parm_spec [OF ok n refl]
  have P3: "params_so_far g ?s3 ps (il_param_chain l) ds" using params_keep [OF _ r(1)] 1 by simp
  have T3: "types_so_far g ?s3 (map snd ps) (il_param_list l) ts" using types_keep [OF _ r(1)] 1 by simp
  have nr: "r \<notin> set ds" "r \<notin> set ts" using 1 r(2) by (auto simp: params_so_far_def types_so_far_def)
  have dt: "d \<notin> set ts" if "d \<in> set (ds @ [r])" for d
  proof -
    have "code_of g ?s3 d = PARM_DECL"
      using that P3 r(5) by (auto simp: params_so_far_def parameter_def list_all2_conv_all_nth in_set_conv_nth)
    moreover have "code_of g ?s3 t = TREE_LIST" if "t \<in> set ts" for t
      using that T3 by (auto simp: types_so_far_def type_element_def list_all2_conv_all_nth in_set_conv_nth)
    ultimately show ?thesis by auto
  qed
  obtain c s4 where 4: "chain_append g r (il_param_chain l) ?s3 = Done (c, s4)"
    "built g s4 TREE_CHAIN (chain_first c, chain_last c) (ds @ [r])"
    "s4 = (if ds = [] then ?s3 else set_link g TREE_CHAIN (last ds) (Some r) ?s3)"
    by (rule fields.append_built [OF ok _ nr(1) r(4), of "il_param_chain l"]) (use P3 in \<open>simp add: params_so_far_def\<close>)
  have k4: "leaves g {(TREE_CHAIN, x) |x. x \<in> set ds} ?s3 s4"
    by (auto simp: 4(3) leaves_refl intro: leaves_set_link [OF ok])
  have T4: "types_so_far g s4 (map snd ps) (il_param_list l) ts" by (rule types_keep [OF T3 k4]) (use dt in auto)
  have "list_all2 (parameter g s4) ps ds" using parameters_keep [OF _ k4] P3 by (auto simp: params_so_far_def)
  moreover have "parameter g s4 (ident, ty) r"
    using parameters_keep [of g ?s3 "[(ident, ty)]" "[r]", OF _ k4] r(3,5) by simp
  ultimately have P4: "params_so_far g s4 (ps @ [(ident, ty)]) c (ds @ [r])"
    using 4(2) P3 r(3) leavesD(1) [OF k4] by (simp add: params_so_far_def list_all2_appendI)
  obtain tl s5 t where 5: "ortho_list_append g ty (il_param_list l) s4 = Done (tl, s5)"
    "types_so_far g s5 (map snd ps @ [ty]) tl (ts @ [t])" "leaves g {(TREE_CHAIN, x) |x. x \<in> set ts} s4 s5" "\<not> alive g s4 t"
    by (rule ortho_list_append_spec [OF ok T4])
  have "params_so_far g s5 (ps @ [(ident, ty)]) c (ds @ [r])" by (rule params_keep [OF P4 5(3)]) (use dt in auto)
  moreover have "leaves g {} s0 s5"
  proof -
    have "leaves g ({(TREE_CHAIN, x) |x. x \<in> set ds \<union> set ts}) s0 s5"
      by (rule leaves_trans [OF leaves_trans [OF leaves_trans [OF _ leaves_mono [OF r(1)]] leaves_mono [OF k4]] leaves_mono [OF 5(3)]])
        (use 1 leaves_mono [of g "{}" s0 "trees b"] in simp_all, blast+)
    then show ?thesis by (rule leaves_fresh) (use 1 in auto)
  qed
  moreover have "\<not> alive g s0 r" using r(2) 1 leavesD(1) [of g "{}" s0 "trees b" r] by auto
  moreover have "\<not> alive g s0 t"
    using 5(4) leavesD(1) [OF k4, of t] leavesD(1) [OF r(1), of t] 1 leavesD(1) [of g "{}" s0 "trees b" t] by auto
  ultimately have A: "declaring g s0 (ps @ [(ident, ty)]) (l\<lparr>il_param_chain := c, il_param_list := tl\<rparr>) s5 (ds @ [r]) (ts @ [t])"
    using 1 5(2) by (auto simp: declaring_def)
  have B: "new_interface_decl g ident ty l b = Done (r, l\<lparr>il_param_chain := c, il_param_list := tl\<rparr>, b\<lparr>trees := s5\<rparr>)"
    using 4(1) 5(1) by (simp add: new_interface_decl_def tree_op_def n comp_def)
  show thesis by (rule that [OF B A]) simp_all
qed

lemma new_params_spec:
  assumes ok: "gcc_ok g"
  shows "declaring g s0 ps l (trees b) ds ts \<Longrightarrow>
    \<exists>l' s' ds' ts'. new_params g qs l b = Done (l', b\<lparr>trees := s'\<rparr>) \<and> declaring g s0 (ps @ qs) l' s' ds' ts' \<and>
      il_ident l' = il_ident l \<and> il_storage l' = il_storage l \<and> il_rtype l' = il_rtype l"
proof (induction qs arbitrary: b ps l ds ts)
  case Nil
  then show ?case by (intro exI [of _ l] exI [of _ "trees b"] exI [of _ ds] exI [of _ ts]) simp
next
  case (Cons q qs)
  obtain ident ty where q: "q = (ident, ty)" by (cases q)
  obtain r l1 s1 t where 1: "new_interface_decl g ident ty l b = Done (r, l1, b\<lparr>trees := s1\<rparr>)"
    "declaring g s0 (ps @ [(ident, ty)]) l1 s1 (ds @ [r]) (ts @ [t])"
    "il_ident l1 = il_ident l" "il_storage l1 = il_storage l" "il_rtype l1 = il_rtype l"
    by (rule new_interface_decl_spec [OF ok Cons.prems])
  from Cons.IH [of "ps @ [(ident, ty)]" l1 "b\<lparr>trees := s1\<rparr>"] 1 show ?case by (simp add: q)
qed

section \<open>The declaration\<close>

lemma set_contexts_chain:
  assumes ok: "gcc_ok g"
  shows "chain g s TREE_CHAIN p ds \<Longrightarrow> length ds \<le> n \<Longrightarrow> \<exists>s'. set_contexts g n decl p s = Done s' \<and>
    alive g s' = alive g s \<and> code_of g s' = code_of g s \<and>
    (\<forall>f t. link_of g s' f t = (if f = DECL_CONTEXT \<and> t \<in> set ds then Some decl else link_of g s f t))"
proof (induction ds arbitrary: p n s)
  case (Cons d ds)
  then obtain k where n: "n = Suc k" "length ds \<le> k" and p: "p = Some d" by (cases n) auto
  let ?s = "set_link g DECL_CONTEXT d (Some decl) s"
  have "chain g ?s TREE_CHAIN (link_of g ?s TREE_CHAIN d) ds"
    using Cons.prems(1) chain_cong [of ds g ?s TREE_CHAIN g s TREE_CHAIN] by (simp add: set_link_simps [OF ok])
  from Cons.IH [OF this n(2)] show ?case by (auto simp: n p Let_def set_link_simps [OF ok])
qed simp

definition context_of :: "o_storage \<Rightarrow> ('t, 's) ortho \<Rightarrow> 't option" where
  "context_of storage b = (if storage = o_storage_external then None else current_function_decl b)"

text \<open>What the node of a subprogram has: its name, parameters, result and context\<close>

definition subprogram_node ::
  "('t, 's) gcc \<Rightarrow> 's \<Rightarrow> 't \<Rightarrow> 't \<Rightarrow> ('t \<times> 't) list \<Rightarrow> 't option \<Rightarrow> 't \<Rightarrow> bool" where
  "subprogram_node g s ident rtype ps ctx decl \<longleftrightarrow> code_of g s decl = FUNCTION_DECL \<and> link_of g s DECL_NAME decl = Some ident \<and>
     link_of g s DECL_CONTEXT decl = ctx \<and>
     (\<exists>ds. chain g s DECL_CHAIN (link_of g s DECL_ARGUMENTS decl) ds \<and> list_all2 (parameter g s) ps ds \<and>
        (\<forall>d \<in> set ds. link_of g s DECL_CONTEXT d = Some decl)) \<and>
     (\<exists>r. link_of g s DECL_RESULT decl = Some r \<and> code_of g s r = RESULT_DECL \<and> link_of g s TREE_TYPE r = Some rtype \<and>
        link_of g s DECL_CONTEXT r = Some decl)"

text \<open>The type is that of a function with a list of argument types.\<close>

definition function_type :: "('t, 's) gcc \<Rightarrow> 't \<Rightarrow> 't list \<Rightarrow> 't \<Rightarrow> bool" where
  "function_type g rtype tys ft \<longleftrightarrow> (\<exists>s s' p ts. call g Build_function_type [Some rtype, p] [] s = (ft, s') \<and>
     chain g s TREE_CHAIN p ts \<and> list_all2 (type_element g s) tys ts)"

lemma subprogram_flags_spec:
  assumes ok: "gcc_ok g"
  shows "alive g (subprogram_flags g d gl st s) = alive g s" "code_of g (subprogram_flags g d gl st s) = code_of g s"
    and "link_of g (subprogram_flags g d gl st s) f t =
      (if f = DECL_INITIAL \<and> t = d then Some (gcc_node g error_mark_node) else link_of g s f t)"
  by (auto simp: subprogram_flags_def set_storage_def Let_def case_prod_unfold set_link_simps [OF ok] set_flag_simps [OF ok])

text \<open>The new declaration and its result, before the contexts are set\<close>

lemma new_subprogram_spec:
  assumes ok: "gcc_ok g" and P: "params_so_far g s ps c ds"
    and n: "build_decl g l FUNCTION_DECL (Some ident) (Some ft) s = (decl, s1)"
    and n': "build_decl g l RESULT_DECL None (Some rtype)
       (subprogram_flags g decl gl st (set_num g DECL_SOURCE_LOCATION decl l s1)) = (r, s2)"
    and s3: "s3 = set_link g DECL_ARGUMENTS decl (chain_first c) (set_link g DECL_CONTEXT r (Some decl) (set_link g DECL_RESULT decl (Some r) s2))"
  shows "leaves g {} s s3" "\<not> alive g s decl" "alive g s3 decl" "alive g s3 r" "r \<noteq> decl" "\<not> alive g s r"
    and "code_of g s3 decl = FUNCTION_DECL" "link_of g s3 DECL_NAME decl = Some ident" "link_of g s3 TREE_TYPE decl = Some ft"
    and "link_of g s3 TREE_CHAIN decl = None" "link_of g s3 DECL_ARGUMENTS decl = chain_first c"
    and "link_of g s3 DECL_RESULT decl = Some r" "code_of g s3 r = RESULT_DECL" "link_of g s3 TREE_TYPE r = Some rtype"
    and "link_of g s3 DECL_CONTEXT r = Some decl" "params_so_far g s3 ps c ds"
proof -
  note gs = set_link_simps [OF ok] set_num_simps [OF ok] subprogram_flags_spec [OF ok]
  note new = build_decl_new [OF ok n]
  note d = new_treeD [OF new(1)]
  note new' = build_decl_new [OF ok n']
  note r = new_treeD [OF new'(1)]
  show nr: "r \<noteq> decl" "\<not> alive g s r" "\<not> alive g s decl" using r(1) d(1,2) by (auto simp: gs)
  have "leaves g {(f, t). t \<in> {decl, r}} s s3"
  proof -
    let ?X = "{(f, t). t \<in> {decl, r}}"
    let ?s = "subprogram_flags g decl gl st (set_num g DECL_SOURCE_LOCATION decl l s1)"
    have "leaves g ?X s1 ?s" by (simp add: leaves_def gs)
    then have "leaves g ?X s s2" using leaves_new [OF new(1)] leaves_new [OF new'(1)] leaves_trans by metis
    moreover have "leaves g ?X s2 s3" by (simp add: s3 leaves_def gs)
    ultimately show ?thesis by (rule leaves_trans)
  qed
  then show k: "leaves g {} s s3" by (rule leaves_fresh) (use nr in auto)
  show "alive g s3 decl" "alive g s3 r" "code_of g s3 decl = FUNCTION_DECL" "link_of g s3 DECL_NAME decl = Some ident"
    "link_of g s3 TREE_TYPE decl = Some ft" "link_of g s3 TREE_CHAIN decl = None" "link_of g s3 DECL_ARGUMENTS decl = chain_first c"
    "link_of g s3 DECL_RESULT decl = Some r" "code_of g s3 r = RESULT_DECL" "link_of g s3 TREE_TYPE r = Some rtype"
    "link_of g s3 DECL_CONTEXT r = Some decl"
    using nr d(2,3) r(2,3,7,8) new(2-4) new'(3) by (simp_all add: s3 gs)
  show "params_so_far g s3 ps c ds" by (rule params_keep [OF P k]) simp
qed

lemma lists_disjoint:
  assumes "params_so_far g s ps c ds" "types_so_far g s tys l ts" "d \<in> set ds"
  shows "d \<notin> set ts"
proof
  assume "d \<in> set ts"
  then have "code_of g s d = TREE_LIST"
    using assms(2) by (auto simp: types_so_far_def type_element_def list_all2_conv_all_nth in_set_conv_nth)
  moreover have "code_of g s d = PARM_DECL"
    using assms(1,3) by (auto simp: params_so_far_def parameter_def list_all2_conv_all_nth in_set_conv_nth)
  ultimately show False by simp
qed

text \<open>A declaration with all its parts, none of which was there at the start\<close>

definition subprogram_so_far ::
  "('t, 's) gcc \<Rightarrow> 's \<Rightarrow> 's \<Rightarrow> 't \<Rightarrow> 't \<Rightarrow> ('t \<times> 't) list \<Rightarrow> 't \<Rightarrow> 't list \<Rightarrow> 't \<Rightarrow> 't \<Rightarrow> bool" where
  "subprogram_so_far g s0 s ident rtype ps ft ds r decl \<longleftrightarrow>
     (\<forall>t \<in> insert decl (insert r (set ds)). \<not> alive g s0 t \<and> alive g s t) \<and>
     code_of g s decl = FUNCTION_DECL \<and> link_of g s DECL_NAME decl = Some ident \<and> link_of g s TREE_TYPE decl = Some ft \<and>
     chain g s DECL_CHAIN (link_of g s DECL_ARGUMENTS decl) ds \<and> list_all2 (parameter g s) ps ds \<and>
     (\<forall>d \<in> set ds. link_of g s DECL_CONTEXT d = Some decl) \<and>
     link_of g s DECL_RESULT decl = Some r \<and> code_of g s r = RESULT_DECL \<and> link_of g s TREE_TYPE r = Some rtype \<and>
     link_of g s DECL_CONTEXT r = Some decl"

lemma subprogram_so_far_node:
  "subprogram_so_far g s0 s ident rtype ps ft ds r decl \<Longrightarrow>
   subprogram_node g s ident rtype ps (link_of g s DECL_CONTEXT decl) decl \<and> link_of g s TREE_TYPE decl = Some ft"
  unfolding subprogram_so_far_def subprogram_node_def by blast

lemma parameters_code:
  "list_all2 (parameter g s) ps ds \<Longrightarrow> d \<in> set ds \<Longrightarrow> code_of g s d = PARM_DECL"
  by (auto simp: parameter_def list_all2_conv_all_nth in_set_conv_nth)

text \<open>Changes of the context of the declaration and of old chains do not matter.\<close>

lemma subprogram_so_far_keep:
  assumes S: "subprogram_so_far g s0 s ident rtype ps ft ds r decl" and k: "leaves g X s s'"
    and X: "\<forall>(f, t) \<in> X. f = DECL_CONTEXT \<and> t = decl \<or> f = TREE_CHAIN \<and> alive g s0 t"
  shows "subprogram_so_far g s0 s' ident rtype ps ft ds r decl"
proof -
  note 1 = S [unfolded subprogram_so_far_def]
  have ne: "decl \<notin> set ds" "r \<noteq> decl" using 1 parameters_code [of g s ps ds decl] by auto
  have X': "(f, t) \<notin> X" if "t \<in> insert decl (insert r (set ds))" "f = DECL_CONTEXT \<longrightarrow> t \<noteq> decl" for f t
    using X 1 that by auto
  have k': "link_of g s' f t = link_of g s f t"
    if "t \<in> insert decl (insert r (set ds))" "\<not> layout_field f" "f = DECL_CONTEXT \<longrightarrow> t \<noteq> decl" for f t
    using leavesD(3) [OF k _ that(2) X' [OF that(1,3)]] 1 that(1) by blast
  have c: "alive g s' t" "code_of g s' t = code_of g s t" if "t \<in> insert decl (insert r (set ds))" for t
    using leavesD(1,2) [OF k, of t] 1 that by blast+
  have "chain g s' DECL_CHAIN (link_of g s DECL_ARGUMENTS decl) ds"
    using 1 chain_cong [of ds g s' TREE_CHAIN g s TREE_CHAIN] k' by (simp add: not_layout)
  moreover have "list_all2 (parameter g s') ps ds"
    by (rule parameters_keep [OF _ k]) (use 1 X' in auto)
  moreover have "\<forall>d \<in> set ds. link_of g s' DECL_CONTEXT d = Some decl"
  proof
    fix d assume "d \<in> set ds"
    moreover from this ne have "d \<noteq> decl" by auto
    ultimately show "link_of g s' DECL_CONTEXT d = Some decl" using k' [of d DECL_CONTEXT] 1 by (simp add: not_layout)
  qed
  ultimately show ?thesis
    using 1 k' [of decl] k' [of r] c ne by (simp add: subprogram_so_far_def not_layout)
qed

lemma new_subprogram_prepared:
  assumes ok: "gcc_ok g" and P: "params_so_far g s ps c ds" and k: "leaves g {} s0 s" "\<forall>d \<in> set ds. \<not> alive g s0 d"
    and n: "build_decl g l FUNCTION_DECL (Some ident) (Some ft) s = (decl, s1)"
    and n': "build_decl g l RESULT_DECL None (Some rtype)
       (subprogram_flags g decl gl st (set_num g DECL_SOURCE_LOCATION decl l s1)) = (r, s2)"
    and s3: "s3 = set_link g DECL_ARGUMENTS decl (chain_first c) (set_link g DECL_CONTEXT r (Some decl) (set_link g DECL_RESULT decl (Some r) s2))"
  obtains s' where "set_all_contexts g decl (chain_first c) s3 = Done s'" "leaves g {} s0 s'"
    and "link_of g s' TREE_CHAIN decl = None" "subprogram_so_far g s0 s' ident rtype ps ft ds r decl"
proof -
  note N = new_subprogram_spec [OF ok P n n' s3]
  have c3: "chain g s3 TREE_CHAIN (chain_first c) ds" "length ds \<le> length (tree_nodes g s3)"
    using N(16) chain_length_nodes [of ds g s3] by (simp_all add: params_so_far_def built_def)
  obtain s' where 1: "set_all_contexts g decl (chain_first c) s3 = Done s'" "alive g s' = alive g s3" "code_of g s' = code_of g s3"
    "\<And>f t. link_of g s' f t = (if f = DECL_CONTEXT \<and> t \<in> set ds then Some decl else link_of g s3 f t)"
    using set_contexts_chain [OF ok c3, of decl] by (auto simp: set_all_contexts_def)
  have k': "leaves g {(DECL_CONTEXT, d) |d. d \<in> set ds} s3 s'" by (auto simp: leaves_def 1)
  have "leaves g {} s0 s3" by (rule leaves_trans [OF k(1) N(1)])
  then have "leaves g {(DECL_CONTEXT, d) |d. d \<in> set ds} s0 s'" by (rule leaves_trans [OF leaves_mono k']) simp
  then have k0: "leaves g {} s0 s'" by (rule leaves_fresh) (use k(2) in auto)
  have P': "params_so_far g s' ps c ds" by (rule params_keep [OF N(16) k']) auto
  have ne: "decl \<notin> set ds" "r \<notin> set ds" using N(7,13) N(16) parameters_code by (fastforce simp: params_so_far_def)+
  have "\<not> alive g s0 decl" "\<not> alive g s0 r" using N(2,6) leavesD(1) [OF k(1)] by blast+
  then have "subprogram_so_far g s0 s' ident rtype ps ft ds r decl"
    using N P' k(2) ne 1(2-4) by (simp add: subprogram_so_far_def params_so_far_def built_def)
  then show thesis using N(10) 1 k0 by (intro that [of s']) simp_all
qed

lemma finish_subprogram_spec:
  assumes ok: "gcc_ok g" and D: "declaring g s0 ps l (trees b) ds ts"
    and lev: "cur_binding_level b = r # ls" "built g s0 TREE_CHAIN (first_decl r, last_decl r) es" "\<forall>e \<in> set es. alive g s0 e"
  obtains decl b' r' ft where "finish_subprogram_decl g l b = Done (decl, b')"
    and "subprogram_node g (trees b') (il_ident l) (il_rtype l) ps (context_of (il_storage l) b) decl"
    and "link_of g (trees b') TREE_TYPE decl = Some ft"
    and "function_type g (il_rtype l) (map snd ps @ [gcc_node g void_type_node]) ft"
    and "cur_binding_level b' = r' # ls" "built g (trees b') TREE_CHAIN (first_decl r', last_decl r') (es @ [decl])"
proof -
  have P: "params_so_far g (trees b) ps (il_param_chain l) ds" and T: "types_so_far g (trees b) (map snd ps) (il_param_list l) ts"
    and k: "leaves g {} s0 (trees b)" and fresh: "\<forall>d \<in> set ds. \<not> alive g s0 d" "\<forall>t \<in> set ts. \<not> alive g s0 t"
    using D by (auto simp: declaring_def)
  let ?void = "gcc_node g void_type_node" and ?c = "il_param_chain l" and ?st = "il_storage l"
  obtain tl s2 t where 2: "ortho_list_append g ?void (il_param_list l) (trees b) = Done (tl, s2)"
    "types_so_far g s2 (map snd ps @ [?void]) tl (ts @ [t])" "leaves g {(TREE_CHAIN, x) |x. x \<in> set ts} (trees b) s2"
    by (rule ortho_list_append_spec [OF ok T])
  have P2: "params_so_far g s2 ps ?c ds" by (rule params_keep [OF P 2(3)]) (use lists_disjoint [OF P T] in auto)
  have "leaves g {(TREE_CHAIN, x) |x. x \<in> set ts} s0 s2" by (rule leaves_trans [OF leaves_mono [OF k] 2(3)]) simp
  then have k2: "leaves g {} s0 s2" by (rule leaves_fresh) (use fresh in auto)
  obtain ft s3 where 3: "call g Build_function_type [Some (il_rtype l), list_first tl] [] s2 = (ft, s3)" by fastforce
  have k3: "leaves g {} s2 s3" by (rule leaves_call [OF ok 3])
  have ft: "function_type g (il_rtype l) (map snd ps @ [?void]) ft"
    using 2(2) 3 by (auto simp: function_type_def types_so_far_def built_def)
  obtain decl s4 where 4: "build_decl g (input_location b) FUNCTION_DECL (Some (il_ident l)) (Some ft) s3 = (decl, s4)" by fastforce
  let ?gl = "current_function_decl b = None \<or> ?st = o_storage_external"
  let ?s5 = "subprogram_flags g decl ?gl ?st (set_num g DECL_SOURCE_LOCATION decl (input_location b) s4)"
  obtain res s6 where 6: "build_decl g (input_location b) RESULT_DECL None (Some (il_rtype l)) ?s5 = (res, s6)" by fastforce
  have P3: "params_so_far g s3 ps ?c ds" by (rule params_keep [OF P2 k3]) simp
  obtain s8 where 8: "set_all_contexts g decl (chain_first ?c)
      (set_link g DECL_ARGUMENTS decl (chain_first ?c) (set_link g DECL_CONTEXT res (Some decl) (set_link g DECL_RESULT decl (Some res) s6))) = Done s8"
    "leaves g {} s0 s8" "link_of g s8 TREE_CHAIN decl = None"
    "subprogram_so_far g s0 s8 (il_ident l) (il_rtype l) ps ft ds res decl"
    by (rule new_subprogram_prepared [OF ok P3 leaves_trans [OF k2 k3] fresh(1) 4 6 refl])
  let ?b8 = "b\<lparr>trees := s8\<rparr>"
  have es: "built g (trees ?b8) TREE_CHAIN (first_decl r, last_decl r) es" "decl \<notin> set es"
    using leaves_built [OF lev(2) 8(2) lev(3)] 8(4) lev(3) by (auto simp: not_layout subprogram_so_far_def)
  obtain r' s9 where 9: "pushdecl g decl ?b8 = Done (?b8\<lparr>trees := s9, cur_binding_level := r' # ls\<rparr>)"
    "built g s9 TREE_CHAIN (first_decl r', last_decl r') (es @ [decl])"
    "leaves g ({(DECL_CONTEXT, decl)} \<union> {(TREE_CHAIN, e) |e. e \<in> set es}) (trees ?b8) s9"
    "link_of g s9 DECL_CONTEXT decl = current_function_decl ?b8"
    by (rule pushdecl_spec [OF ok _ es]) (use lev(1) 8(3) in simp_all)
  have S9: "subprogram_so_far g s0 s9 (il_ident l) (il_rtype l) ps ft ds res decl"
    by (rule subprogram_so_far_keep [OF 8(4)]) (use 9(3) lev(3) in auto)
  have al9: "\<forall>e \<in> set (es @ [decl]). alive g s9 e"
    using S9 leavesD(1) [OF 9(3)] leavesD(1) [OF 8(2)] lev(3) by (simp add: subprogram_so_far_def)
  obtain s11 where 11: "s11 = (let s = (if ?st = o_storage_external then set_link g DECL_CONTEXT decl None s9 else s9) in
      if ?gl then act g Rest_of_decl_compilation [Some decl] [1, 0] s else s)" by simp
  have k11: "leaves g {(DECL_CONTEXT, decl)} s9 s11" and ctx: "link_of g s11 DECL_CONTEXT decl = context_of ?st b"
  proof -
    let ?s10 = "if ?st = o_storage_external then set_link g DECL_CONTEXT decl None s9 else s9"
    have a: "leaves g X ?s10 s11" for X by (simp add: 11 Let_def leaves_act [OF ok] leaves_refl)
    show "leaves g {(DECL_CONTEXT, decl)} s9 s11"
      by (rule leaves_trans [OF _ a]) (simp add: leaves_set_link [OF ok] leaves_refl)
    show "link_of g s11 DECL_CONTEXT decl = context_of ?st b"
      using leavesD(3) [OF a, of decl DECL_CONTEXT "{}"] al9 9(4) by (simp add: not_layout context_of_def set_link_simps [OF ok])
  qed
  note S11 = subprogram_so_far_node [OF subprogram_so_far_keep [OF S9 k11]]
  have built: "built g s11 TREE_CHAIN (first_decl r', last_decl r') (es @ [decl])"
    by (rule leaves_built [OF 9(2) k11 al9]) (simp_all add: not_layout)
  show thesis
  proof (rule that [OF _ _ _ ft])
    show "finish_subprogram_decl g l b = Done (decl, b\<lparr>trees := s11, cur_binding_level := r' # ls\<rparr>)"
      using 8(1) 9(1)
      by (simp add: finish_subprogram_decl_def 2(1) tree_op_def 3 4 6 rest_of_decl_def comp_def Let_def 11)
  qed (use S11 ctx built in simp_all)
qed

text \<open>
  C12: The declaration of a subprogram gives a \<open>FUNCTION_DECL\<close> with the name; its arguments are the parameters in
  the order of their declarations, each with its name and type and with the subprogram as its context; its type is
  that of a function of the types of the parameters, closed by \<open>void\<close>; its result has the return type. The context
  is the subprogram around, except that an external subprogram has none, and the declaration is added at
  the end of the current level. All parameters are passed as what they are: for a boolean or an enumeration the type
  \<open>int\<close> is overwritten.\<close>

theorem subprogram_declared:
  assumes "gcc_ok g" "cur_binding_level b = r # ls"
    and "built g (trees b) TREE_CHAIN (first_decl r, last_decl r) es" "\<forall>e \<in> set es. alive g (trees b) e"
  shows "\<exists>decl b' r' ft. declare_subprogram g ident storage rtype ps b = Done (decl, b') \<and>
    subprogram_node g (trees b') ident rtype ps (context_of storage b) decl \<and>
    link_of g (trees b') TREE_TYPE decl = Some ft \<and>
    function_type g rtype (map snd ps @ [gcc_node g void_type_node]) ft \<and>
    cur_binding_level b' = r' # ls \<and> built g (trees b') TREE_CHAIN (first_decl r', last_decl r') (es @ [decl])"
proof -
  have "declaring g (trees b) [] (start_function_decl ident storage rtype) (trees b) [] []"
    by (simp add: declaring_def params_so_far_def types_so_far_def start_function_decl_def chain_init_def list_init_def leaves_refl)
  from new_params_spec [OF assms(1) this, of ps] obtain l s ds ts where
    1: "new_params g ps (start_function_decl ident storage rtype) b = Done (l, b\<lparr>trees := s\<rparr>)"
    "declaring g (trees b) ps l s ds ts" "il_ident l = ident" "il_storage l = storage" "il_rtype l = rtype"
    by (auto simp: start_function_decl_def)
  obtain decl b' r' ft where 2: "finish_subprogram_decl g l (b\<lparr>trees := s\<rparr>) = Done (decl, b')"
    "subprogram_node g (trees b') ident rtype ps (context_of storage (b\<lparr>trees := s\<rparr>)) decl" "link_of g (trees b') TREE_TYPE decl = Some ft"
    "function_type g rtype (map snd ps @ [gcc_node g void_type_node]) ft" "cur_binding_level b' = r' # ls"
    "built g (trees b') TREE_CHAIN (first_decl r', last_decl r') (es @ [decl])"
    by (rule finish_subprogram_spec [OF assms(1), of "trees b" ps l "b\<lparr>trees := s\<rparr>" ds ts r ls es]) (use 1 assms in simp_all)
  show ?thesis using 1(1) 2 by (auto simp: declare_subprogram_def context_of_def)
qed

theorem subprogram_declared_witness:
  "\<exists>decl b' r' ft. declare_subprogram store_gcc 14 o_storage_public 4 [(15, 4), (16, 7)]
      (start_state (start_store 20 (\<lambda>t. VAR_DECL) (\<lambda>f t. None))) = Done (decl, b') \<and>
    subprogram_node store_gcc (trees b') 14 4 [(15, 4), (16, 7)]
      (context_of o_storage_public (start_state (start_store 20 (\<lambda>t. VAR_DECL) (\<lambda>f t. None)))) decl \<and>
    link_of store_gcc (trees b') TREE_TYPE decl = Some ft \<and>
    function_type store_gcc 4 (map snd [(15, 4), (16::nat, 7::nat)] @ [gcc_node store_gcc void_type_node]) ft \<and>
    cur_binding_level b' = r' # [] \<and> built store_gcc (trees b') TREE_CHAIN (first_decl r', last_decl r') ([] @ [decl])"
  by (rule subprogram_declared [OF gcc_ok_store, where r = no_level]) (simp_all add: start_state_def no_level_def)

end
