(* ===== verification/Ortho_Records.thy ===== *)
theory Ortho_Records
  imports Ortho_Chains Ortho_Store
begin

text \<open>
  Records of \<open>ortho-lang-7.c\<close>: the fields of a record type stand in its chain of fields in the order of
  their declarations, and an aggregate pairs each value with its field.
\<close>

section \<open>Record types\<close>

fun new_fields :: "('t, 's) gcc \<Rightarrow> ('t option \<times> 't) list \<Rightarrow> 't o_element_list \<Rightarrow> ('t, 's) ortho \<Rightarrow>
    ('t o_element_list \<times> ('t, 's) ortho) run" where
  "new_fields g [] l b = Done (l, b)"
| "new_fields g ((ident, etype) # fs) l b =
     rbind (new_record_field g ident etype l b) (\<lambda>(_, l, b). new_fields g fs l b)"

definition declare_record :: "('t, 's) gcc \<Rightarrow> ('t option \<times> 't) list \<Rightarrow> ('t, 's) ortho \<Rightarrow> ('t \<times> ('t, 's) ortho) run" where
  "declare_record g fs b =
     (let (l, b) = start_record_type g b in
      rbind (new_fields g fs l b) (\<lambda>(l, b). Done (finish_record_type g l b)))"

definition field :: "('t, 's) gcc \<Rightarrow> 's \<Rightarrow> 't \<Rightarrow> 't option \<times> 't \<Rightarrow> 't \<Rightarrow> bool" where
  "field g s r f t \<longleftrightarrow> code_of g s t = FIELD_DECL \<and> link_of g s DECL_NAME t = fst f \<and>
     link_of g s TREE_TYPE t = Some (snd f) \<and> link_of g s DECL_CONTEXT t = Some r"

text \<open>A record with some fields, of which more are to come\<close>

definition record_so_far :: "('t, 's) gcc \<Rightarrow> 's \<Rightarrow> ('t option \<times> 't) list \<Rightarrow> 't o_element_list \<Rightarrow> 't list \<Rightarrow> bool" where
  "record_so_far g s fs l ds \<longleftrightarrow> alive g s (el_res l) \<and> code_of g s (el_res l) = RECORD_TYPE \<and>
     built g s TREE_CHAIN (chain_first (el_chain l), chain_last (el_chain l)) ds \<and>
     (\<forall>d \<in> set ds. alive g s d) \<and> list_all2 (field g s (el_res l)) fs ds"

lemma fields_cong:
  assumes "list_all2 (field g s r) fs ds"
    and "\<And>d f. d \<in> set ds \<Longrightarrow> f \<in> {DECL_NAME, TREE_TYPE, DECL_CONTEXT} \<Longrightarrow>
      code_of g s' d = code_of g s d \<and> link_of g s' f d = link_of g s f d"
  shows "list_all2 (field g s' r) fs ds"
  using assms(1)
proof (rule list.rel_mono_strong)
  fix f d assume "d \<in> set ds" "field g s r f d"
  then show "field g s' r f d"
    using assms(2) [of d DECL_NAME] assms(2) [of d TREE_TYPE] assms(2) [of d DECL_CONTEXT] by (simp add: field_def)
qed

lemma new_record_field_spec:
  assumes ok: "gcc_ok g" and l: "record_so_far g (trees b) fs l ds"
  obtains d l' b' where "new_record_field g ident etype l b = Done (d, l', b')"
    and "record_so_far g (trees b') (fs @ [(ident, etype)]) l' (ds @ [d])"
proof -
  note gs = set_link_simps [OF ok]
  obtain d s1 where n: "build_decl g (input_location b) FIELD_DECL ident (Some etype) (trees b) = (d, s1)" by fastforce
  note new = build_decl_new [OF ok n]
  note d = new_treeD [OF new(1)]
  let ?s2 = "set_link g DECL_CONTEXT d (Some (el_res l)) s1"
  note 1 = l [unfolded record_so_far_def]
  have nd: "d \<notin> set ds" "d \<noteq> el_res l" using 1 d(1) by auto
  have bl: "built g ?s2 TREE_CHAIN (chain_first (el_chain l), chain_last (el_chain l)) ds"
  proof -
    have "link_of g ?s2 TREE_CHAIN x = link_of g (trees b) TREE_CHAIN x" if "x \<in> set ds" for x
      using nd(1) that d(8) by (cases "x = d") (simp_all add: gs)
    then show ?thesis using 1 built_cong by metis
  qed
  have dn: "link_of g ?s2 TREE_CHAIN d = None" using new(4) by (simp add: gs)
  obtain c s3 where 3: "chain_append g d (el_chain l) ?s2 = Done (c, s3)"
    "built g s3 TREE_CHAIN (chain_first c, chain_last c) (ds @ [d])"
    "s3 = (if ds = [] then ?s2 else set_link g TREE_CHAIN (last ds) (Some d) ?s2)"
    by (rule fields.append_built [OF ok bl nd(1) dn])
  have s3: "alive g s3 t \<longleftrightarrow> t = d \<or> alive g (trees b) t" "code_of g s3 = code_of g s1"
    "f \<noteq> TREE_CHAIN \<Longrightarrow> link_of g s3 f t = (if f = DECL_CONTEXT \<and> t = d then Some (el_res l) else link_of g s1 f t)" for f t
    using d(2) by (auto simp: 3(3) gs)
  show thesis
  proof (rule that)
    show "new_record_field g ident etype l b = Done (d, l\<lparr>el_chain := c\<rparr>, b\<lparr>trees := s3\<rparr>)"
      using 3(1) by (simp add: new_record_field_def new_record_union_field_def tree_op_def n)
    have "list_all2 (field g s3 (el_res l)) fs ds"
    proof (rule fields_cong [where s = "trees b"])
      fix x f assume "x \<in> set ds" "f \<in> {DECL_NAME, TREE_TYPE, DECL_CONTEXT}"
      moreover from this nd(1) have "x \<noteq> d" by auto
      ultimately show "code_of g s3 x = code_of g (trees b) x \<and> link_of g s3 f x = link_of g (trees b) f x"
        using d(7,8) by (auto simp: s3)
    qed (use 1 in simp)
    then show "record_so_far g (trees (b\<lparr>trees := s3\<rparr>)) (fs @ [(ident, etype)]) (l\<lparr>el_chain := c\<rparr>) (ds @ [d])"
      using 1 nd d new 3(2) by (auto simp: record_so_far_def s3 field_def list_all2_appendI)
  qed
qed

lemma new_fields_spec:
  assumes ok: "gcc_ok g"
  shows "record_so_far g (trees b) gs l ds \<Longrightarrow>
    \<exists>l' b' ds'. new_fields g fs l b = Done (l', b') \<and> record_so_far g (trees b') (gs @ fs) l' ds'"
proof (induction fs arbitrary: b gs l ds)
  case (Cons f fs)
  obtain ident etype where f: "f = (ident, etype)" by (cases f)
  obtain d l1 b1 where 1: "new_record_field g ident etype l b = Done (d, l1, b1)"
    "record_so_far g (trees b1) (gs @ [(ident, etype)]) l1 (ds @ [d])"
    by (rule new_record_field_spec [OF ok Cons.prems])
  from Cons.IH [OF 1(2)] 1(1) show ?case by (auto simp: f)
qed auto

lemma fields_length_loop_chain:
  assumes "chain g s DECL_CHAIN p ds" "\<And>d. d \<in> set ds \<Longrightarrow> code_of g s d = FIELD_DECL"
    and "length ds \<le> n" "0 \<le> count" "count + int (length ds) < 2 ^ 31"
  shows "fields_length_loop g n p count s = Done (count + int (length ds))"
  using assms
proof (induction ds arbitrary: p n count)
  case (Cons d ds)
  then obtain k where n: "n = Suc k" by (cases n) auto
  with Cons.prems Cons.IH [of "link_of g s DECL_CHAIN d" k "count + 1"] show ?case
    by (simp add: c_int_def int_fits_def)
qed simp

lemma declare_record_spec:
  assumes ok: "gcc_ok g"
  obtains res b' ds where "declare_record g fs b = Done (res, b')" "code_of g (trees b') res = RECORD_TYPE"
    and "chain g (trees b') DECL_CHAIN (link_of g (trees b') TYPE_FIELDS res) ds" "distinct ds"
    and "list_all2 (field g (trees b') res) fs ds" "\<forall>d \<in> set ds. alive g (trees b') d"
proof -
  note gs = set_link_simps [OF ok]
  obtain r s1 where n: "make_node g RECORD_TYPE (trees b) = (r, s1)" by fastforce
  note r = new_treeD [OF make_node_new [OF ok n]]
  have "record_so_far g (trees (b\<lparr>trees := s1\<rparr>)) [] \<lparr>el_res = r, el_chain = chain_init\<rparr> []"
    using r(2,3) by (simp add: record_so_far_def chain_init_def)
  from new_fields_spec [OF ok this, of fs] obtain l b2 ds where
    2: "new_fields g fs \<lparr>el_res = r, el_chain = chain_init\<rparr> (b\<lparr>trees := s1\<rparr>) = Done (l, b2)"
    "record_so_far g (trees b2) fs l ds" by auto
  let ?s3 = "set_link g TYPE_FIELDS (el_res l) (chain_first (el_chain l)) (trees b2)"
  obtain b' where b': "finish_record_type g l b2 = (el_res l, b')" by (simp add: finish_record_type_def Let_def)
  have k: "alive g ?s3 t \<Longrightarrow> alive g (trees b') t \<and> code_of g (trees b') t = code_of g ?s3 t \<and>
      (\<not> layout_field f \<longrightarrow> link_of g (trees b') f t = link_of g ?s3 f t)" for t f
    using b' act_keeps [OF ok] by (auto simp: finish_record_type_def Let_def layout_type_def split: if_splits)
  note 3 = 2(2) [unfolded record_so_far_def]
  have nl: "\<not> layout_field TYPE_FIELDS" "\<not> layout_field TREE_CHAIN" "\<not> layout_field DECL_NAME" "\<not> layout_field TREE_TYPE"
    "\<not> layout_field DECL_CONTEXT" by (simp_all add: layout_field_def)
  show thesis
  proof (rule that [of "el_res l" b' ds])
    show "declare_record g fs b = Done (el_res l, b')"
      by (simp add: declare_record_def start_record_type_def tree_op_def n 2(1) b')
    show "code_of g (trees b') (el_res l) = RECORD_TYPE" using k [of "el_res l"] 3 by (simp add: gs)
    have "chain g (trees b') TREE_CHAIN (chain_first (el_chain l)) ds"
      using 3 k nl chain_cong [of ds g "trees b'" TREE_CHAIN g "trees b2" TREE_CHAIN] by (auto simp: gs built_def)
    then show "chain g (trees b') DECL_CHAIN (link_of g (trees b') TYPE_FIELDS (el_res l)) ds"
      using k [of "el_res l" TYPE_FIELDS] 3 nl by (simp add: gs)
    show "list_all2 (field g (trees b') (el_res l)) fs ds"
    proof (rule fields_cong [where s = "trees b2"])
      fix d f assume "d \<in> set ds" "f \<in> {DECL_NAME, TREE_TYPE, DECL_CONTEXT}"
      then show "code_of g (trees b') d = code_of g (trees b2) d \<and> link_of g (trees b') f d = link_of g (trees b2) f d"
        using k [of d f] 3 nl by (auto simp: gs)
    qed (use 3 in simp)
    show "\<forall>d \<in> set ds. alive g (trees b') d" using k 3 by (simp add: gs)
  qed (use 3 in \<open>simp add: built_def\<close>)
qed

lemma declared_fields_length:
  assumes "chain g s DECL_CHAIN (link_of g s TYPE_FIELDS res) ds" "distinct ds" "list_all2 (field g s res) fs ds"
    and "\<forall>d \<in> set ds. alive g s d" "length ds < 2 ^ 31"
  shows "fields_length g res s = Done (int (length ds))"
proof -
  have "code_of g s d = FIELD_DECL" if "d \<in> set ds" for d
    using assms(3) that by (auto simp: field_def list_all2_conv_all_nth in_set_conv_nth)
  then show ?thesis
    using fields_length_loop_chain [OF assms(1), of _ 0] chain_length_nodes [OF assms(2), of g s] assms(4,5)
    by (simp add: fields_length_def)
qed

text \<open>
  C20: A record type gets its fields in the order of their declarations: they are the chain of
  \<open>TYPE_FIELDS\<close>, each a new \<open>FIELD_DECL\<close> with the name and the type that was given and the record as its
  context, and no other. \<open>fields_length\<close> is their number.\<close>

theorem record_fields_in_order:
  assumes "gcc_ok g" "length fs < 2 ^ 31"
  shows "\<exists>res b' ds. declare_record g fs b = Done (res, b') \<and> code_of g (trees b') res = RECORD_TYPE \<and>
    chain g (trees b') DECL_CHAIN (link_of g (trees b') TYPE_FIELDS res) ds \<and> distinct ds \<and>
    list_all2 (field g (trees b') res) fs ds \<and> fields_length g res (trees b') = Done (int (length fs))"
proof -
  obtain res b' ds where r: "declare_record g fs b = Done (res, b')" "code_of g (trees b') res = RECORD_TYPE"
    "chain g (trees b') DECL_CHAIN (link_of g (trees b') TYPE_FIELDS res) ds" "distinct ds"
    "list_all2 (field g (trees b') res) fs ds" "\<forall>d \<in> set ds. alive g (trees b') d"
    by (rule declare_record_spec [OF assms(1)])
  have "fields_length g res (trees b') = Done (int (length ds))"
    using declared_fields_length [OF r(3-6)] assms(2) list_all2_lengthD [OF r(5)] by simp
  then show ?thesis using r list_all2_lengthD [OF r(5)] by metis
qed

theorem record_fields_in_order_witness:
  "\<exists>res b' ds. declare_record store_gcc [(Some 14, 4), (Some 15, 7), (None, 4)] (start_state (start_store 20 (\<lambda>t. VAR_DECL) (\<lambda>f t. None))) = Done (res, b') \<and>
    code_of store_gcc (trees b') res = RECORD_TYPE \<and>
    chain store_gcc (trees b') DECL_CHAIN (link_of store_gcc (trees b') TYPE_FIELDS res) ds \<and> distinct ds \<and>
    list_all2 (field store_gcc (trees b') res) [(Some 14, 4), (Some 15, 7), (None, 4)] ds \<and>
    fields_length store_gcc res (trees b') = Done (int (length [(Some (14::nat), 4::nat), (Some 15, 7), (None, 4)]))"
  by (rule record_fields_in_order [OF gcc_ok_store]) simp

section \<open>Aggregates\<close>

fun add_elements :: "('t, 's) gcc \<Rightarrow> 't list \<Rightarrow> 't o_record_aggr_list \<Rightarrow> ('t, 's) ortho \<Rightarrow> 't o_record_aggr_list run" where
  "add_elements g [] l b = Done l"
| "add_elements g (v # vals) l b = rbind (new_record_aggr_el g v l b) (\<lambda>l. add_elements g vals l b)"

definition record_aggregate :: "('t, 's) gcc \<Rightarrow> 't \<Rightarrow> 't list \<Rightarrow> ('t, 's) ortho \<Rightarrow> ('t \<times> ('t, 's) ortho) run" where
  "record_aggregate g atype vals b =
     rbind (start_record_aggr g atype b) (\<lambda>l.
     rbind (add_elements g vals l b) (\<lambda>l. Done (finish_record_aggr g l b)))"

lemma add_elements_chain:
  "chain g (trees b) TREE_CHAIN (ra_field l) ds \<Longrightarrow>
   add_elements g vals l b = (if length vals \<le> length ds
     then Done (l\<lparr>ra_field := (if length vals < length ds then Some (ds ! length vals) else None),
                  ra_elts := ra_elts l @ zip (map Some ds) vals\<rparr>)
     else Crash Null_pointer)"
proof (induction vals arbitrary: l ds)
  case Nil
  then show ?case by (cases ds) auto
next
  case (Cons v vals)
  show ?case
  proof (cases ds)
    case (Cons d ds')
    with Cons.prems Cons.IH [of "l\<lparr>ra_elts := ra_elts l @ [(ra_field l, v)], ra_field := link_of g (trees b) TREE_CHAIN d\<rparr>" ds']
    show ?thesis by (simp add: new_record_aggr_el_def Let_def)
  qed (use Cons.prems in \<open>simp add: new_record_aggr_el_def\<close>)
qed

text \<open>
  C21: The aggregate of a record type pairs the values with the fields by position: the constructor gets the
  first value for the field that was declared first, and so on. Fewer values leave the last fields out;
  one more value than there are fields makes the compiler follow the chain behind its end.\<close>

theorem record_aggregate_by_position:
  assumes "gcc_ok g" "length fs < 2 ^ 31" "declare_record g fs b = Done (res, b1)"
  shows "\<exists>ds. chain g (trees b1) DECL_CHAIN (link_of g (trees b1) TYPE_FIELDS res) ds \<and>
    list_all2 (field g (trees b1) res) fs ds \<and>
    (\<forall>vals. record_aggregate g res vals b1 =
      (if length vals \<le> length fs then Done (tree_op (build_constructor g res (zip (map Some ds) vals)) b1)
       else Crash Null_pointer))"
proof -
  obtain res' b' ds where r: "declare_record g fs b = Done (res', b')"
    "chain g (trees b') DECL_CHAIN (link_of g (trees b') TYPE_FIELDS res') ds" "distinct ds"
    "list_all2 (field g (trees b') res') fs ds" "\<forall>d \<in> set ds. alive g (trees b') d"
    by (rule declare_record_spec [OF assms(1)])
  have eq: "res' = res" "b' = b1" using r(1) assms(3) by simp_all
  note r = r [unfolded eq]
  have "fields_length g res (trees b1) = Done (int (length ds))"
    using declared_fields_length [OF r(2-5)] assms(2) list_all2_lengthD [OF r(4)] by simp
  then have "record_aggregate g res vals b1 =
      (if length vals \<le> length fs then Done (tree_op (build_constructor g res (zip (map Some ds) vals)) b1)
       else Crash Null_pointer)" for vals
    using add_elements_chain [of g b1 "\<lparr>ra_atype = res, ra_field = link_of g (trees b1) TYPE_FIELDS res, ra_elts = []\<rparr>" ds vals]
      r(2) list_all2_lengthD [OF r(4)]
    by (simp add: record_aggregate_def start_record_aggr_def finish_record_aggr_def)
  then show ?thesis using r by blast
qed

theorem record_aggregate_by_position_witness:
  "\<exists>res b1 ds. declare_record store_gcc [(Some 14, 4), (Some 15, 7)] (start_state (start_store 20 (\<lambda>t. VAR_DECL) (\<lambda>f t. None))) = Done (res, b1) \<and>
    chain store_gcc (trees b1) DECL_CHAIN (link_of store_gcc (trees b1) TYPE_FIELDS res) ds \<and>
    list_all2 (field store_gcc (trees b1) res) [(Some 14, 4), (Some 15, 7)] ds \<and>
    record_aggregate store_gcc res [16, 17] b1 = Done (tree_op (build_constructor store_gcc res (zip (map Some ds) [16, 17])) b1) \<and>
    record_aggregate store_gcc res [16, 17, 18] b1 = Crash Null_pointer"
proof -
  let ?fs = "[(Some (14::nat), 4::nat), (Some 15, 7)]" and ?b = "start_state (start_store 20 (\<lambda>t. VAR_DECL) (\<lambda>f t. None))"
  obtain res b1 where r: "declare_record store_gcc ?fs ?b = Done (res, b1)"
    by (rule declare_record_spec [OF gcc_ok_store])
  obtain ds where ds: "chain store_gcc (trees b1) DECL_CHAIN (link_of store_gcc (trees b1) TYPE_FIELDS res) ds"
    "list_all2 (field store_gcc (trees b1) res) ?fs ds"
    "\<And>vals. record_aggregate store_gcc res vals b1 =
      (if length vals \<le> length ?fs then Done (tree_op (build_constructor store_gcc res (zip (map Some ds) vals)) b1)
       else Crash Null_pointer)"
    using record_aggregate_by_position [OF gcc_ok_store _ r] by auto
  show ?thesis using r ds(1,2) ds(3) [of "[16, 17]"] ds(3) [of "[16, 17, 18]"] by auto
qed

end
