(* ===== verification/Ortho_Objects.thy ===== *)
theory Ortho_Objects
  imports Ortho_Laws Ortho_Store
begin

text \<open>
  Literals and references of \<open>ortho-lang-7.c\<close>: an integer or real literal has the value that was asked
  for, and taking an address marks the object that a reference leads to.
\<close>

section \<open>Integer literals\<close>

lemma sint_signed_hi: "sint (signed_hi v) = sint v div 2 ^ 64"
  by (simp add: signed_hi_def sint_signed_drop_bit_eq drop_bit_eq_div zdiv_zmult2_eq [symmetric])

lemma pair_value_signed: "pair_value (signed_hi v) v = sint v"
proof -
  have "uint v = sint v mod 2 ^ 64" by (simp add: uint_sint take_bit_eq_mod)
  then show ?thesis by (simp only: pair_value_def sint_signed_hi) (simp only: div_mult_mod_eq)
qed

lemma pair_value_unsigned: "pair_value 0 v = uint v"
  by (simp add: pair_value_def)

section \<open>Real literals\<close>

lemma bit_length_0: "bit_length 0 = 0"
  by (subst bit_length.simps) (rule if_P, rule refl)

lemma bit_length_bound: "n < 2 ^ bit_length n"
proof (induction n rule: bit_length.induct)
  case (1 n)
  show ?case
  proof (cases "n = 0")
    case False
    with 1 have "n div 2 < 2 ^ bit_length (n div 2)" by simp
    then show ?thesis using False by (simp add: bit_length.simps [of n])
  qed (simp add: bit_length_0)
qed

lemma bit_length_le: "n < 2 ^ k \<Longrightarrow> bit_length n \<le> k"
proof (induction k arbitrary: n)
  case 0
  then show ?case by (simp add: bit_length_0)
next
  case (Suc k)
  then have "n div 2 < 2 ^ k" by auto
  with Suc.IH [of "n div 2"] show ?case by (simp add: bit_length.simps [of n])
qed

lemma real_2expN_powi: "real_2expN n = 2 powi n"
  by (simp add: real_2expN_def power_int_def power_inverse field_simps)

text \<open>The mantissa of a \<open>double\<close> has 53 bits.\<close>

lemma frexp60_value:
  assumes "\<bar>m\<bar> < 2 ^ 53" "frexp60 m e = (s, ex)"
  shows "of_int s * real_2expN (ex - 60) = of_int m * real_2expN e" "\<bar>s\<bar> < 2 ^ 60"
proof -
  let ?n = "bit_length (nat \<bar>m\<bar>)"
  have n: "?n \<le> 53" by (rule bit_length_le) (use assms(1) in auto)
  have s: "s = m * 2 ^ (60 - ?n)" and ex: "m \<noteq> 0 \<Longrightarrow> ex = e + int ?n"
    using assms(2) by (auto simp: frexp60_def Let_def split: if_splits)
  have "2 ^ (60 - ?n) * real_2expN (e + int ?n - 60) = real_2expN e"
  proof -
    have "(2 :: rat) ^ (60 - ?n) = 2 powi (60 - int ?n)" using n by (simp add: power_int_def nat_diff_distrib)
    then show ?thesis by (simp add: real_2expN_powi power_int_add [symmetric])
  qed
  then show "of_int s * real_2expN (ex - 60) = of_int m * real_2expN e"
    using s ex by (cases "m = 0") (simp_all add: mult.assoc)
  have "\<bar>m\<bar> < 2 ^ ?n" using bit_length_bound [of "nat \<bar>m\<bar>"] by (simp add: nat_less_iff)
  then have "\<bar>s\<bar> < 2 ^ ?n * 2 ^ (60 - ?n)" by (simp add: s abs_mult)
  also have "\<dots> = 2 ^ 60" using n by (simp flip: power_add)
  finally show "\<bar>s\<bar> < 2 ^ 60" .
qed

lemma sint_word_of_int: "- (2 ^ 63) \<le> i \<Longrightarrow> i < 2 ^ 63 \<Longrightarrow> sint (word_of_int i :: u64) = i"
  by (simp add: int_word_sint)

text \<open>
  C23: Literals are exact. A signed literal is the constant of the 64 bit value as a two's complement
  number, an unsigned literal that of the value as a natural number, although both are given to GCC as a pair
  of words; and a literal of a finite \<open>double\<close>, which is split into a fraction and a power of two and put
  together again in the arithmetic of GCC, is the constant of just this number.\<close>

theorem literals_exact:
  assumes "\<bar>m\<bar> < 2 ^ 53"
  shows "new_signed_literal g ty v b = tree_op (call g Double_int_to_tree [Some ty] [sint v]) b \<and>
    new_unsigned_literal g ty v b = tree_op (call g Double_int_to_tree [Some ty] [uint v]) b \<and>
    new_float_literal g ty (Finite m e) b = Done (tree_op (build_real g ty (of_int m * 2 powi e)) b)"
proof (intro conjI)
  obtain s ex where f: "frexp60 m e = (s, ex)" by fastforce
  note s = frexp60_value [OF assms f]
  have "pair_value (signed_hi (word_of_int s)) (word_of_int s) = s"
    using s(2) by (simp add: pair_value_signed sint_word_of_int)
  then show "new_float_literal g ty (Finite m e) b = Done (tree_op (build_real g ty (of_int m * 2 powi e)) b)"
    using s(1) by (simp add: new_float_literal_def f Let_def real_2expN_powi)
qed (simp_all add: new_signed_literal_def new_unsigned_literal_def pair_value_signed pair_value_unsigned)

theorem literals_exact_witness:
  "new_signed_literal store_gcc 4 (- 5) (start_state (start_store 20 (\<lambda>t. VAR_DECL) (\<lambda>f t. None))) =
    tree_op (call store_gcc Double_int_to_tree [Some 4] [sint (- 5 :: u64)]) (start_state (start_store 20 (\<lambda>t. VAR_DECL) (\<lambda>f t. None))) \<and>
   new_unsigned_literal store_gcc 4 (- 5) (start_state (start_store 20 (\<lambda>t. VAR_DECL) (\<lambda>f t. None))) =
    tree_op (call store_gcc Double_int_to_tree [Some 4] [uint (- 5 :: u64)]) (start_state (start_store 20 (\<lambda>t. VAR_DECL) (\<lambda>f t. None))) \<and>
   new_float_literal store_gcc 4 (Finite (- 3) (- 2)) (start_state (start_store 20 (\<lambda>t. VAR_DECL) (\<lambda>f t. None))) =
    Done (tree_op (build_real store_gcc 4 (of_int (- 3) * 2 powi (- 2))) (start_state (start_store 20 (\<lambda>t. VAR_DECL) (\<lambda>f t. None))))"
  by (rule literals_exact) simp

section \<open>Taking addresses\<close>

text \<open>
  \<open>leads_to\<close>: a reference leads to an object in a number of steps, each to the object that an element or a
  slice is taken of.
\<close>

definition is_object :: "tree_code \<Rightarrow> bool" where
  "is_object c \<longleftrightarrow> c \<in> {VAR_DECL, CONST_DECL, PARM_DECL, RESULT_DECL, FUNCTION_DECL, CONSTRUCTOR, INDIRECT_REF}"

inductive leads_to :: "('t, 's) gcc \<Rightarrow> 's \<Rightarrow> 't \<Rightarrow> nat \<Rightarrow> 't \<Rightarrow> bool" for g s where
  object: "alive g s m \<Longrightarrow> is_object (code_of g s m) \<Longrightarrow> leads_to g s m 0 m"
| element: "alive g s t \<Longrightarrow> code_of g s t \<in> {COMPONENT_REF, ARRAY_REF, ARRAY_RANGE_REF} \<Longrightarrow>
     link_of g s (TREE_OPERAND 0) t = Some u \<Longrightarrow> leads_to g s u n m \<Longrightarrow> leads_to g s t (Suc n) m"

inductive_cases leads_to_Suc: "leads_to g s t (Suc n) m"

lemma leads_to_unique: "leads_to g s t n m \<Longrightarrow> leads_to g s t n' m' \<Longrightarrow> n' = n \<and> m' = m"
proof (induction arbitrary: n' rule: leads_to.induct)
  case (object m)
  from object.prems object.hyps show ?case by cases (auto simp: is_object_def)
next
  case (element t u n m)
  from element.prems element.hyps(2,3) show ?case by cases (use element.IH in \<open>auto simp: is_object_def\<close>)
qed

text \<open>The nodes on the way are different, so that there are not more steps than nodes.\<close>

lemma leads_to_path:
  "leads_to g s t n m \<Longrightarrow> \<exists>ts. length ts = Suc n \<and> distinct ts \<and> (\<forall>u \<in> set ts. alive g s u \<and> (\<exists>k \<le> n. leads_to g s u k m))"
proof (induction rule: leads_to.induct)
  case (object m)
  then show ?case by (intro exI [of _ "[m]"]) (auto intro: leads_to.object)
next
  case (element t u n m)
  then obtain ts where ts: "length ts = Suc n" "distinct ts"
    "\<forall>u \<in> set ts. alive g s u \<and> (\<exists>k \<le> n. leads_to g s u k m)" by auto
  have t: "leads_to g s t (Suc n) m" by (rule leads_to.element) (use element in auto)
  have "t \<notin> set ts"
  proof
    assume "t \<in> set ts"
    with ts(3) obtain k where "k \<le> n" "leads_to g s t k m" by auto
    with leads_to_unique [OF t] show False by fastforce
  qed
  moreover have "\<forall>u \<in> set ts. \<exists>k \<le> Suc n. leads_to g s u k m" using ts(3) le_SucI by metis
  ultimately show ?case using ts t element.hyps(1) by (intro exI [of _ "t # ts"]) auto
qed

lemma leads_to_bound: "leads_to g s t n m \<Longrightarrow> n < length (tree_nodes g s)"
proof -
  assume "leads_to g s t n m"
  then obtain ts where ts: "length ts = Suc n" "distinct ts" "set ts \<subseteq> set (tree_nodes g s)"
    using leads_to_path [of g s t n m] by (auto simp: alive_def)
  have "Suc n = card (set ts)" using ts(1,2) by (simp add: distinct_card)
  also have "\<dots> \<le> card (set (tree_nodes g s))" by (rule card_mono) (use ts(3) in auto)
  finally show ?thesis using card_length [of "tree_nodes g s"] by simp
qed

definition mark_object :: "('t, 's) gcc \<Rightarrow> 't \<Rightarrow> ('t, 's) ortho \<Rightarrow> ('t, 's) ortho" where
  "mark_object g m b = (if code_of g (trees b) m = INDIRECT_REF then b else trees_update (set_flag g TREE_ADDRESSABLE m True) b)"

lemma mark_addressable_loop_leads:
  "leads_to g (trees b) t n m \<Longrightarrow> n < k \<Longrightarrow> mark_addressable_loop g k (Some t) b = Done (True, mark_object g m b)"
proof (induction arbitrary: k rule: leads_to.induct)
  case (object m)
  then obtain j where "k = Suc j" by (cases k) auto
  with object show ?case by (auto simp: is_object_def mark_object_def Let_def)
next
  case (element t u n m)
  then obtain j where "k = Suc j" "n < j" by (cases k) auto
  with element(2,3) element.IH [of j] show ?case by (auto simp: Let_def)
qed

text \<open>
  C22: When the address of a part of an object is taken, however many elements of records and arrays and
  slices it is inside of, \<open>ortho_mark_addressable\<close> returns, and it marks the object itself as addressable and
  nothing else; a part of what an access designates needs no mark. A reference to anything else ends the
  compiler.\<close>

theorem base_object_marked:
  assumes "leads_to g (trees b) t n m"
  shows "ortho_mark_addressable g t b = Done (True, mark_object g m b) \<and>
    (code_of g (trees b) u \<notin> {COMPONENT_REF, ARRAY_REF, ARRAY_RANGE_REF} \<and> \<not> is_object (code_of g (trees b) u) \<and>
     alive g (trees b) u \<longrightarrow> ortho_mark_addressable g u b = Crash Aborted)"
proof (intro conjI impI)
  show "ortho_mark_addressable g t b = Done (True, mark_object g m b)"
    unfolding ortho_mark_addressable_def by (rule mark_addressable_loop_leads [OF assms leads_to_bound [OF assms]])
  assume u: "code_of g (trees b) u \<notin> {COMPONENT_REF, ARRAY_REF, ARRAY_RANGE_REF} \<and> \<not> is_object (code_of g (trees b) u) \<and>
     alive g (trees b) u"
  then obtain k where "length (tree_nodes g (trees b)) = Suc k" by (cases "tree_nodes g (trees b)") (auto simp: alive_def)
  with u show "ortho_mark_addressable g u b = Crash Aborted"
    by (auto simp: ortho_mark_addressable_def is_object_def Let_def)
qed

text \<open>An element of the array 3 in the record 2, and the type 4, which is no object\<close>

definition reference_state :: "(nat, node_store) ortho" where
  "reference_state = start_state (start_store 5 (\<lambda>t. [ARRAY_REF, COMPONENT_REF, VAR_DECL, FIELD_DECL, INTEGER_TYPE] ! t)
     (\<lambda>f t. if f = TREE_OPERAND 0 \<and> t < 2 then Some (Suc t) else None))"

theorem base_object_marked_witness:
  "leads_to store_gcc (trees reference_state) 0 2 2 \<and>
   ortho_mark_addressable store_gcc 0 reference_state = Done (True, trees_update (set_flag store_gcc TREE_ADDRESSABLE 2 True) reference_state) \<and>
   ortho_mark_addressable store_gcc 4 reference_state = Crash Aborted"
proof -
  let ?s = "trees reference_state"
  have s: "?s = start_store 5 (\<lambda>t. [ARRAY_REF, COMPONENT_REF, VAR_DECL, FIELD_DECL, INTEGER_TYPE] ! t)
     (\<lambda>f t. if f = TREE_OPERAND 0 \<and> t < 2 then Some (Suc t) else None)"
    by (simp add: reference_state_def start_state_def)
  note f = s start_store_def store_gcc_def alive_def is_object_def
  have "leads_to store_gcc ?s 2 0 2" by (rule leads_to.object) (simp_all add: f)
  then have "leads_to store_gcc ?s 1 1 2"
    using leads_to.element [of store_gcc ?s 1 2 0 2] by (simp add: f numeral_2_eq_2)
  then have l: "leads_to store_gcc ?s 0 2 2"
    using leads_to.element [of store_gcc ?s 0 1 1 2] by (simp add: f numeral_2_eq_2)
  have c: "code_of store_gcc ?s 2 = VAR_DECL" "code_of store_gcc ?s 4 = INTEGER_TYPE" "alive store_gcc ?s 4"
    by (simp_all add: f)
  from base_object_marked [OF l, of 4] show ?thesis using l by (simp add: c mark_object_def is_object_def)
qed

end
