(* ===== verification/Ortho_Stack.thy ===== *)
theory Ortho_Stack
  imports Ortho_Keeps Ortho_Programs
begin

text \<open>
  Allocation on the stack in \<open>ortho-lang-7.c\<close>: \<open>new_alloca\<close> marks the level, and \<open>pop_binding\<close> makes a marked
  level save the stack pointer before its statements and restore it behind them.
\<close>

section \<open>What a step keeps of statements\<close>

text \<open>
  \<open>holds_on\<close>: as \<open>leaves\<close>, and the numbers stay, and the lists of statements and the marks of side effects
  do except for the nodes of \<open>Y\<close>.
\<close>

definition holds_on :: "('t, 's) gcc \<Rightarrow> (tree_field \<times> 't) set \<Rightarrow> 't set \<Rightarrow> 's \<Rightarrow> 's \<Rightarrow> bool" where
  "holds_on g X Y s s' \<longleftrightarrow> (\<forall>t. alive g s t \<longrightarrow> alive g s' t \<and> code_of g s' t = code_of g s t \<and>
     (\<forall>f. (f, t) \<notin> X \<longrightarrow> link_of g s' f t = link_of g s f t) \<and> (\<forall>f. num_of g s' f t = num_of g s f t) \<and>
     (t \<notin> Y \<longrightarrow> stmts_of g s' t = stmts_of g s t \<and> flag_of g s' TREE_SIDE_EFFECTS t = flag_of g s TREE_SIDE_EFFECTS t))"

lemma holds_onD:
  assumes "holds_on g X Y s s'" "alive g s t"
  shows "alive g s' t" "code_of g s' t = code_of g s t"
    and "(f, t) \<notin> X \<Longrightarrow> link_of g s' f t = link_of g s f t" "t \<notin> Y \<Longrightarrow> stmts_of g s' t = stmts_of g s t"
    and "t \<notin> Y \<Longrightarrow> flag_of g s' TREE_SIDE_EFFECTS t = flag_of g s TREE_SIDE_EFFECTS t"
    and "num_of g s' h t = num_of g s h t"
  using assms by (auto simp: holds_on_def)

lemma holds_on_refl: "holds_on g X Y s s"
  by (simp add: holds_on_def)

lemma holds_on_trans: "holds_on g X Y s s' \<Longrightarrow> holds_on g X Y s' s'' \<Longrightarrow> holds_on g X Y s s''"
  by (simp add: holds_on_def)

lemma holds_on_mono: "holds_on g X Y s s' \<Longrightarrow> X \<subseteq> X' \<Longrightarrow> Y \<subseteq> Y' \<Longrightarrow> holds_on g X' Y' s s'"
  unfolding holds_on_def by blast

lemma holds_on_fresh:
  "holds_on g X Y s s' \<Longrightarrow> (\<And>f t. alive g s t \<Longrightarrow> (f, t) \<in> X \<Longrightarrow> (f, t) \<in> X') \<Longrightarrow> (\<And>t. alive g s t \<Longrightarrow> t \<in> Y \<Longrightarrow> t \<in> Y') \<Longrightarrow>
   holds_on g X' Y' s s'"
  unfolding holds_on_def by blast

lemma holds_on_set_link: "gcc_ok g \<Longrightarrow> (f, t) \<in> X \<Longrightarrow> holds_on g X Y s (set_link g f t v s)"
  by (auto simp: holds_on_def set_link_simps)

lemma holds_on_set_flag: "gcc_ok g \<Longrightarrow> f = TREE_SIDE_EFFECTS \<longrightarrow> t \<in> Y \<Longrightarrow> holds_on g X Y s (set_flag g f t v s)"
  by (auto simp: holds_on_def set_flag_simps)

lemma holds_on_new: "new_tree g s c (t, s') \<Longrightarrow> holds_on g X Y s s'"
  by (auto simp: holds_on_def new_tree_def same_node_def)

lemma holds_on_call: "gcc_ok g \<Longrightarrow> call g f ts ns s = (t, s') \<Longrightarrow> holds_on g X Y s s'"
  using call_extends [of g f ts ns s t s'] by (auto simp: holds_on_def extends_def same_node_def)

lemma holds_on_built:
  assumes "built g s f e xs" "holds_on g X Y s s'" "\<forall>x \<in> set xs. alive g s x" "\<forall>x \<in> set xs. (f, x) \<notin> X"
  shows "built g s' f e xs"
  using assms(1) built_cong [of xs g s' f s e] holds_onD(3) [OF assms(2)] assms(3,4) by blast

section \<open>Statements in a field\<close>

text \<open>The first statement of a field makes the list, and the next ones are added to it.\<close>

lemma append_to_field_first:
  assumes ok: "gcc_ok g" and st: "alive g s st" "code_of g s st \<noteq> STATEMENT_LIST" "flag_of g s TREE_SIDE_EFFECTS st"
    and f: "link_of g s f t = None" "alive g s t"
  obtains l s' where "append_to_field g st f t s = s'" "link_of g s' f t = Some l" "\<not> alive g s l" "alive g s' l"
    and "code_of g s' l = STATEMENT_LIST" "stmts_of g s' l = [st]" "holds_on g {(f, t)} {} s s'"
proof -
  obtain l s1 where n: "alloc_stmt_list g s = (l, s1)" by fastforce
  note l = new_treeD [OF alloc_stmt_list_new [OF ok n]]
  have num: "num_of g s1 h u = num_of g s h u" if "u \<noteq> l" for h u
    using alloc_stmt_list_new [OF ok n] that by (simp add: new_tree_def same_node_def)
  have ne: "st \<noteq> l" "t \<noteq> l" using l(1) st(1) f(2) by auto
  have "append_to_statement_list g st None s = append_to_statement_list g st (Some l) s1"
    using ok st n unfolding gcc_ok_def statements_ok_def by (metis (mono_tags, lifting) case_prod_conv)
  moreover obtain s2 where 2: "append_to_statement_list g st (Some l) s1 = (Some l, s2)" "alive g s2 = alive g s1"
    "code_of g s2 = code_of g s1" "link_of g s2 = link_of g s1" "num_of g s2 = num_of g s1"
    "\<And>f t'. f \<noteq> TREE_SIDE_EFFECTS \<or> t' \<noteq> l \<Longrightarrow> flag_of g s2 f t' = flag_of g s1 f t'"
    "stmts_of g s2 = (stmts_of g s1)(l := stmts_of g s1 l @ [st])"
    by (rule append_to_statement_list_Some [OF ok, of s1 st l]) (use l ne st in auto)
  ultimately have a: "append_to_field g st f t s = set_link g f t (Some l) s2" by (simp add: append_to_field_def f(1))
  show thesis
  proof (rule that [OF a])
    show "holds_on g {(f, t)} {} s (set_link g f t (Some l) s2)"
      unfolding holds_on_def
    proof (intro allI impI)
      fix u assume u: "alive g s u"
      then have "u \<noteq> l" using l(1) by auto
      with u show "alive g (set_link g f t (Some l) s2) u \<and> code_of g (set_link g f t (Some l) s2) u = code_of g s u \<and>
        (\<forall>f'. (f', u) \<notin> {(f, t)} \<longrightarrow> link_of g (set_link g f t (Some l) s2) f' u = link_of g s f' u) \<and>
        (\<forall>h. num_of g (set_link g f t (Some l) s2) h u = num_of g s h u) \<and>
        (u \<notin> {} \<longrightarrow> stmts_of g (set_link g f t (Some l) s2) u = stmts_of g s u \<and>
          flag_of g (set_link g f t (Some l) s2) TREE_SIDE_EFFECTS u = flag_of g s TREE_SIDE_EFFECTS u)"
        using l(2,7-9,11) 2(6) num by (auto simp: set_link_simps [OF ok] 2(2-5,7))
    qed
  qed (use l ne in \<open>auto simp: set_link_simps [OF ok] 2(2-4,7)\<close>)
qed

lemma append_to_field_next:
  assumes ok: "gcc_ok g" and st: "code_of g s st \<noteq> STATEMENT_LIST" "flag_of g s TREE_SIDE_EFFECTS st"
    and f: "link_of g s f t = Some l" "code_of g s l = STATEMENT_LIST"
  obtains s' where "append_to_field g st f t s = s'" "link_of g s' f t = Some l" "code_of g s' l = STATEMENT_LIST"
    and "stmts_of g s' l = stmts_of g s l @ [st]" "holds_on g {} {l} s s'"
proof -
  obtain s2 where 2: "append_to_statement_list g st (Some l) s = (Some l, s2)" "alive g s2 = alive g s"
    "code_of g s2 = code_of g s" "link_of g s2 = link_of g s" "num_of g s2 = num_of g s"
    "\<And>f t'. f \<noteq> TREE_SIDE_EFFECTS \<or> t' \<noteq> l \<Longrightarrow> flag_of g s2 f t' = flag_of g s f t'"
    "stmts_of g s2 = (stmts_of g s)(l := stmts_of g s l @ [st])"
    by (rule append_to_statement_list_Some [OF ok, of s st l]) (use st f in auto)
  have a: "append_to_field g st f t s = set_link g f t (Some l) s2" by (simp add: append_to_field_def f(1) 2(1))
  show thesis
    by (rule that [OF a]) (use f in \<open>auto simp: set_link_simps [OF ok] 2 holds_on_def\<close>)
qed

section \<open>Saving the stack\<close>

text \<open>
  A call of a builtin function: the function that is called is the address of a declaration, which has the
  code of the builtin function. The arguments are operands from 3 on.
\<close>

definition calls_builtin :: "('t, 's) gcc \<Rightarrow> 's \<Rightarrow> built_in_function \<Rightarrow> 't list \<Rightarrow> 't \<Rightarrow> bool" where
  "calls_builtin g s f as c \<longleftrightarrow> code_of g s c = CALL_EXPR \<and>
     (\<forall>i < length as. link_of g s (TREE_OPERAND (3 + i)) c = Some (as ! i)) \<and>
     (\<exists>a d. link_of g s (TREE_OPERAND 1) c = Some a \<and> expr1 g s ADDR_EXPR a d \<and> alive g s a \<and> alive g s d \<and>
        code_of g s d = FUNCTION_DECL \<and> num_of g s DECL_FUNCTION_CODE d = built_in_number f)"

lemma calls_builtin_holds:
  assumes "calls_builtin g s f as c" "holds_on g X Y s s'" "alive g s c"
    and "\<forall>(h, x) \<in> X. h = TREE_OPERAND 1 \<and> x \<noteq> c"
  shows "calls_builtin g s' f as c"
proof -
  obtain a d where a: "link_of g s (TREE_OPERAND 1) c = Some a" "expr1 g s ADDR_EXPR a d" "alive g s a" "alive g s d"
    "code_of g s d = FUNCTION_DECL" "num_of g s DECL_FUNCTION_CODE d = built_in_number f"
    using assms(1) by (auto simp: calls_builtin_def)
  note k = holds_onD(1-3,6) [OF assms(2)]
  have "link_of g s' (TREE_OPERAND i) c = link_of g s (TREE_OPERAND i) c" for i
    by (rule k(3) [OF assms(3)]) (use assms(4) in auto)
  moreover have "link_of g s' (TREE_OPERAND 0) a = link_of g s (TREE_OPERAND 0) a"
    by (rule k(3) [OF a(3)]) (use assms(4) in auto)
  ultimately show ?thesis
    using assms(1) a k(1,2,4) [OF a(3)] k(1,2,4) [OF a(4)] k(2) [OF assms(3)]
    unfolding calls_builtin_def expr1_def by (intro conjI exI [of _ a] exI [of _ d]) simp_all
qed

lemma call_builtin_new:
  assumes ok: "gcc_ok g" and bo: "builtins_ok g" and d: "call g (Builtin_decl_implicit f) [] [] s = (d, s1)"
    and c: "call g Build_call_expr (Some d # map Some as) [] s1 = (c, s2)"
  shows "calls_builtin g s2 f as c" "\<not> alive g s1 c" "alive g s2 c" "flag_of g s2 TREE_SIDE_EFFECTS c"
    and "holds_on g X Y s s2"
proof -
  note n = call_expr_new [OF ok c] and d1 = call_extends(2) [OF ok d]
  have h: "holds_on g {} {} s1 s2" "holds_on g X Y s s2"
    using holds_on_call [OF ok c] holds_on_trans [OF holds_on_call [OF ok d] holds_on_call [OF ok c]] by blast+
  show "calls_builtin g s2 f as c"
    using n(2,4) call_expr_function [OF bo c] holds_onD(1,2,6) [OF h(1) d1] builtin_decl_function [OF bo d]
    by (auto simp: calls_builtin_def expr1_def)
  show "\<not> alive g s1 c" "alive g s2 c" "flag_of g s2 TREE_SIDE_EFFECTS c" "holds_on g X Y s s2"
    using n(1,3) call_extends(2) [OF ok c] h(2) by blast+
qed

text \<open>
  The body of a level that saves the stack: the stack pointer is saved in a variable \<open>v\<close>, then the statements of
  \<open>l\<close> are executed, and finally, however they are left, the stack is restored from \<open>v\<close>.
\<close>

definition saves_stack :: "('t, 's) gcc \<Rightarrow> 's \<Rightarrow> 't \<Rightarrow> 't \<Rightarrow> 't \<Rightarrow> bool" where
  "saves_stack g s v l bnd \<longleftrightarrow> code_of g s v = VAR_DECL \<and> link_of g s TREE_TYPE v = Some (gcc_node g ptr_type_node) \<and>
     (\<exists>save t. body g s 1 bnd [save, t] \<and> expr1 g s MODIFY_EXPR save v \<and>
        (\<exists>c. link_of g s (TREE_OPERAND 1) save = Some c \<and> calls_builtin g s BUILT_IN_STACK_SAVE [] c) \<and>
        expr1 g s TRY_FINALLY_EXPR t l \<and>
        (\<exists>restore. body g s 1 t [restore] \<and> calls_builtin g s BUILT_IN_STACK_RESTORE [v] restore))"

text \<open>The statements that save and restore, before they are put into the body\<close>

definition stack_nodes ::
  "('t, 's) gcc \<Rightarrow> 's \<Rightarrow> 's \<Rightarrow> 't \<Rightarrow> 't \<Rightarrow> 't \<Rightarrow> 't \<Rightarrow> 't \<Rightarrow> bool" where
  "stack_nodes g s0 s v l save t restore \<longleftrightarrow> distinct [v, save, t, restore] \<and>
     (\<forall>x \<in> {v, save, t, restore}. \<not> alive g s0 x \<and> alive g s x) \<and> code_of g s v = VAR_DECL \<and>
     link_of g s TREE_TYPE v = Some (gcc_node g ptr_type_node) \<and> expr1 g s MODIFY_EXPR save v \<and> flag_of g s TREE_SIDE_EFFECTS save \<and>
     (\<exists>c. link_of g s (TREE_OPERAND 1) save = Some c \<and> calls_builtin g s BUILT_IN_STACK_SAVE [] c \<and> \<not> alive g s0 c \<and> alive g s c) \<and>
     expr1 g s TRY_FINALLY_EXPR t l \<and> flag_of g s TREE_SIDE_EFFECTS t \<and> link_of g s (TREE_OPERAND 1) t = None \<and>
     calls_builtin g s BUILT_IN_STACK_RESTORE [v] restore \<and> flag_of g s TREE_SIDE_EFFECTS restore"

lemma calls_builtin_code: "calls_builtin g s f as c \<Longrightarrow> code_of g s c = CALL_EXPR"
  by (simp add: calls_builtin_def)

lemma stack_body:
  assumes ok: "gcc_ok g" and S: "stack_nodes g s0 s v l save t restore" and b: "alive g s0 bnd" "alive g s bnd"
    and e: "e = append_to_field g t BIND_EXPR_BODY bnd (append_to_field g save BIND_EXPR_BODY bnd
      (set_link g BIND_EXPR_BODY bnd None (append_to_field g restore (TREE_OPERAND 1) t s)))"
  shows "saves_stack g e v l bnd" "holds_on g {(TREE_OPERAND 1, t), (TREE_OPERAND 1, bnd)} {} s e"
proof -
  note 0 = S [unfolded stack_nodes_def expr1_def]
  have ne: "bnd \<noteq> t" "bnd \<noteq> save" "bnd \<noteq> v" "bnd \<noteq> restore" using 0 b(1) by auto
  have rest: "code_of g s restore = CALL_EXPR" by (rule calls_builtin_code) (use 0 in blast)
  obtain l1 e1 where 1: "append_to_field g restore (TREE_OPERAND 1) t s = e1" "link_of g e1 (TREE_OPERAND 1) t = Some l1"
    "\<not> alive g s l1" "alive g e1 l1" "code_of g e1 l1 = STATEMENT_LIST" "stmts_of g e1 l1 = [restore]"
    "holds_on g {(TREE_OPERAND 1, t)} {} s e1"
    by (rule append_to_field_first [OF ok, of s restore "TREE_OPERAND 1" t]) (use 0 rest in auto)
  let ?e2 = "set_link g BIND_EXPR_BODY bnd None e1"
  have h2: "holds_on g {(BIND_EXPR_BODY, bnd)} {} e1 ?e2" by (simp add: holds_on_set_link [OF ok])
  have h12: "holds_on g {(TREE_OPERAND 1, t), (TREE_OPERAND 1, bnd)} {} s ?e2"
    by (rule holds_on_trans [OF holds_on_mono [OF 1(7)] holds_on_mono [OF h2]]) auto
  have save: "alive g ?e2 save" "code_of g ?e2 save \<noteq> STATEMENT_LIST" "flag_of g ?e2 TREE_SIDE_EFFECTS save"
    using holds_onD [OF h12, of save] 0 by auto
  obtain l2 e3 where 3: "append_to_field g save BIND_EXPR_BODY bnd ?e2 = e3" "link_of g e3 BIND_EXPR_BODY bnd = Some l2"
    "\<not> alive g ?e2 l2" "alive g e3 l2" "code_of g e3 l2 = STATEMENT_LIST" "stmts_of g e3 l2 = [save]"
    "holds_on g {(BIND_EXPR_BODY, bnd)} {} ?e2 e3"
    by (rule append_to_field_first [OF ok save, of BIND_EXPR_BODY bnd])
      (use holds_onD(1) [OF h12 b(2)] in \<open>simp_all add: set_link_simps [OF ok]\<close>)
  have h13: "holds_on g {(TREE_OPERAND 1, t), (TREE_OPERAND 1, bnd)} {} s e3"
    by (rule holds_on_trans [OF h12 holds_on_mono [OF 3(7)]]) auto
  have t: "code_of g e3 t \<noteq> STATEMENT_LIST" "flag_of g e3 TREE_SIDE_EFFECTS t"
    using holds_onD [OF h13, of t] 0 by auto
  obtain e4 where 4: "append_to_field g t BIND_EXPR_BODY bnd e3 = e4" "link_of g e4 BIND_EXPR_BODY bnd = Some l2"
    "code_of g e4 l2 = STATEMENT_LIST" "stmts_of g e4 l2 = stmts_of g e3 l2 @ [t]" "holds_on g {} {l2} e3 e4"
    by (rule append_to_field_next [OF ok t 3(2,5)])
  have h: "holds_on g {(TREE_OPERAND 1, bnd)} {l2} e1 e4"
    by (rule holds_on_trans [OF holds_on_trans [OF holds_on_mono [OF h2] holds_on_mono [OF 3(7)]] holds_on_mono [OF 4(5)]]) auto
  have hs: "holds_on g {(TREE_OPERAND 1, t), (TREE_OPERAND 1, bnd)} {l2} s e4"
    by (rule holds_on_trans [OF holds_on_mono [OF 1(7)] holds_on_mono [OF h]]) auto
  have l2: "l2 \<noteq> l1" using 3(3) 1(4) by (auto simp: set_link_simps [OF ok])
  have "alive g e1 t" using holds_onD(1) [OF 1(7), of t] 0 by simp
  then have "body g e4 1 t [restore]"
    using holds_onD(3) [OF h, of t "TREE_OPERAND 1"] holds_onD(2,4) [OF h 1(4)] 1(2,5,6) ne l2 by (simp add: body_def)
  moreover have "body g e4 1 bnd [save, t]" using 4 3(6) by (simp add: body_def)
  moreover have e4: "e = e4" by (simp only: e 1(1) 3(1) 4(1))
  moreover obtain c where c: "link_of g s (TREE_OPERAND 1) save = Some c" "calls_builtin g s BUILT_IN_STACK_SAVE [] c"
    "\<not> alive g s0 c" "alive g s c" using 0 by blast
  have ct: "c \<noteq> t" "c \<noteq> bnd" "restore \<noteq> t" "restore \<noteq> bnd"
    using calls_builtin_code [OF c(2)] rest c(3) b(1) 0 by auto
  note k = holds_onD(2,3) [OF hs]
  have "code_of g e4 v = VAR_DECL" "link_of g e4 TREE_TYPE v = Some (gcc_node g ptr_type_node)"
    using k [of v] 0 by simp_all
  moreover have "expr1 g e4 MODIFY_EXPR save v" "link_of g e4 (TREE_OPERAND 1) save = Some c"
    using k [of save] 0 c ne by (simp_all add: expr1_def)
  moreover have "calls_builtin g e4 BUILT_IN_STACK_SAVE [] c"
    by (rule calls_builtin_holds [OF c(2) hs c(4)]) (use ct in auto)
  moreover have "calls_builtin g e4 BUILT_IN_STACK_RESTORE [v] restore"
    by (rule calls_builtin_holds [OF _ hs]) (use ct 0 in auto)
  moreover have "expr1 g e4 TRY_FINALLY_EXPR t l" using k [of t] 0 by (simp add: expr1_def)
  ultimately show "saves_stack g e v l bnd" unfolding saves_stack_def by blast
  have "\<not> alive g s l2" using 3(3) holds_onD(1) [OF h12] by auto
  then show "holds_on g {(TREE_OPERAND 1, t), (TREE_OPERAND 1, bnd)} {} s e"
    unfolding e4 by (intro holds_on_fresh [OF hs]) auto
qed

lemma make_stack_nodes:
  assumes ok: "gcc_ok g" and bo: "builtins_ok g" and k: "\<forall>x. alive g s0 x \<longrightarrow> alive g s4 x"
    and v: "\<not> alive g s0 v" "alive g s4 v" "code_of g s4 v = VAR_DECL" "link_of g s4 TREE_TYPE v = Some (gcc_node g ptr_type_node)"
    and n: "call g (Builtin_decl_implicit BUILT_IN_STACK_SAVE) [] [] s4 = (fn, s5)" "call g Build_call_expr [Some fn] [] s5 = (c, s6)"
      "build g MODIFY_EXPR p [Some v, Some c] s6 = (save, s7)"
      "call g (Builtin_decl_implicit BUILT_IN_STACK_RESTORE) [] [] (set_flag g TREE_SIDE_EFFECTS save True s7) = (rfn, s9)"
      "call g Build_call_expr [Some rfn, Some v] [] s9 = (restore, s10)" "build g TRY_FINALLY_EXPR q [Some l, None] s10 = (t, s11)"
    and s12: "s12 = set_flag g TREE_SIDE_EFFECTS t True s11"
  shows "stack_nodes g s0 s12 v l save t restore" "holds_on g {} {} s4 s12"
proof -
  let ?s8 = "set_flag g TREE_SIDE_EFFECTS save True s7"
  note gs = set_flag_simps [OF ok]
  note c = call_builtin_new [OF ok bo n(1), of "[]", simplified, OF n(2)]
  note sv = build_new(1,2) [OF ok n(3)] build_new(3) [OF ok n(3), of 0] build_new(3) [OF ok n(3), of 1]
  note svt = new_treeD [OF sv(1)]
  note r = call_builtin_new [OF ok bo n(4), of "[v]", simplified, OF n(5)]
  note t = build_new(1,2) [OF ok n(6)] build_new(3) [OF ok n(6), of 0] build_new(3) [OF ok n(6), of 1]
  note tt = new_treeD [OF t(1)]
  have h45: "holds_on g X Y s4 s5" and h56: "holds_on g X Y s5 s6" and h89: "holds_on g X Y ?s8 s9"
    and h910: "holds_on g X Y s9 s10" for X Y using holds_on_call [OF ok] n by blast+
  have h67: "holds_on g X Y s6 s7" and h1011: "holds_on g X Y s10 s11" for X Y
    by (rule holds_on_new [OF sv(1)], rule holds_on_new [OF t(1)])
  have h68: "holds_on g {} {save} s6 ?s8" by (rule holds_on_trans [OF h67 holds_on_set_flag [OF ok]]) simp
  have h1012: "holds_on g {} {t} s10 s12" unfolding s12 by (rule holds_on_trans [OF h1011 holds_on_set_flag [OF ok]]) simp
  have "\<not> alive g s6 save" "\<not> alive g s10 t" by (rule svt(1), rule tt(1))
  then have h68: "holds_on g {} {} s6 ?s8" and h1012: "holds_on g {} {} s10 s12"
    using h68 h1012 by (auto elim: holds_on_fresh)
  have h810: "holds_on g {} {} ?s8 s10" by (rule holds_on_trans [OF h89 h910])
  have h812: "holds_on g {} {} ?s8 s12" by (rule holds_on_trans [OF h810 h1012])
  have h612: "holds_on g {} {} s6 s12" by (rule holds_on_trans [OF h68 h812])
  have h46: "holds_on g {} {} s4 s6" by (rule holds_on_trans [OF h45 h56])
  show h412: "holds_on g {} {} s4 s12" by (rule holds_on_trans [OF h46 h612])
  note a = holds_onD(1) [OF h45] holds_onD(1) [OF h46] holds_onD(1) [OF h68] holds_onD(1) [OF h89] holds_onD(1) [OF h810]
  have al8: "alive g ?s8 save" using svt(2) by (simp add: gs)
  have ne: "\<not> alive g s0 c" "\<not> alive g s0 save" "\<not> alive g s0 restore" "\<not> alive g s0 t"
    using c(2) svt(1) r(2) tt(1) k a by blast+
  have d: "distinct [v, save, t, restore]"
    using v(2) al8 svt(1) r(2,3) tt(1) a by auto
  have "alive g s12 v" "alive g s12 save" "alive g s12 restore" "alive g s12 c" "alive g s12 t"
    using holds_onD(1) [OF h412 v(2)] holds_onD(1) [OF h812 al8] holds_onD(1) [OF h1012 r(3)] holds_onD(1) [OF h612 c(3)] tt(2)
    by (simp_all add: s12 gs)
  moreover have "code_of g s12 v = VAR_DECL" "link_of g s12 TREE_TYPE v = Some (gcc_node g ptr_type_node)"
    using holds_onD [OF h412 v(2)] v by simp_all
  moreover have "calls_builtin g s12 BUILT_IN_STACK_SAVE [] c"
    by (rule calls_builtin_holds [OF c(1) h612 c(3)]) simp
  moreover have "calls_builtin g s12 BUILT_IN_STACK_RESTORE [v] restore"
    by (rule calls_builtin_holds [OF r(1) h1012 r(3)]) simp
  moreover have "expr1 g s12 MODIFY_EXPR save v" "flag_of g s12 TREE_SIDE_EFFECTS save" "link_of g s12 (TREE_OPERAND 1) save = Some c"
    using holds_onD [OF h812 al8] svt(3) sv(3,4) by (simp_all add: expr1_def gs)
  moreover have "flag_of g s12 TREE_SIDE_EFFECTS restore"
    using holds_onD(5) [OF h1012 r(3)] r(4) by simp
  moreover have "expr1 g s12 TRY_FINALLY_EXPR t l" "flag_of g s12 TREE_SIDE_EFFECTS t" "link_of g s12 (TREE_OPERAND 1) t = None"
    using tt(3) t(3,4) by (simp_all add: s12 expr1_def gs)
  ultimately show "stack_nodes g s0 s12 v l save t restore" using d ne v(1) by (simp add: stack_nodes_def)
qed

lemma save_stack_body_spec:
  assumes ok: "gcc_ok g" and bo: "builtins_ok g" and bnd: "alive g (trees b) bnd" and l: "cur_stmts b = Some l" and lev: "cur_binding_level b = c # cs"
    and es: "built g (trees b) TREE_CHAIN (first_decl c, last_decl c) es" "\<forall>e \<in> set es. alive g (trees b) e"
  obtains v s c' where "save_stack_body g bnd b = Done (b\<lparr>trees := s, cur_binding_level := c' # cs\<rparr>)"
    and "saves_stack g s v l bnd" "built g s TREE_CHAIN (first_decl c', last_decl c') (es @ [v])"
    and "c' = c\<lparr>first_decl := first_decl c', last_decl := last_decl c'\<rparr>"
    and "holds_on g ({(TREE_OPERAND 1, bnd)} \<union> {(TREE_CHAIN, e) |e. e \<in> set es}) {} (trees b) s"
proof -
  note gs = set_link_simps [OF ok] set_flag_simps [OF ok]
  let ?p = "gcc_node g ptr_type_node" and ?q = "gcc_node g void_type_node"
  obtain v s1 where n: "build_decl g (input_location b) VAR_DECL None (Some ?p) (trees b) = (v, s1)" by fastforce
  note new = build_decl_new [OF ok n]
  note v = new_treeD [OF new(1)]
  let ?s2 = "set_flag g TREE_USED v True (set_flag g DECL_IGNORED_P v True (set_flag g DECL_ARTIFICIAL v True s1))"
  let ?b2 = "b\<lparr>trees := ?s2\<rparr>"
  have nv: "v \<notin> set es" using es(2) v(1) by auto
  have es2: "built g (trees ?b2) TREE_CHAIN (first_decl c, last_decl c) es"
    using es(1) built_cong [of es g ?s2 TREE_CHAIN "trees b"] v(8) nv by (simp add: gs) metis
  obtain s4 where s4: "s4 = (let s = set_link g DECL_CONTEXT v (current_function_decl b) ?s2 in
    if es = [] then s else set_link g TREE_CHAIN (last es) (Some v) s)" by simp
  obtain c' where 4: "pushdecl g v ?b2 = Done (?b2\<lparr>trees := s4, cur_binding_level := c' # cs\<rparr>)"
    "built g s4 TREE_CHAIN (first_decl c', last_decl c') (es @ [v])" "c' = c\<lparr>first_decl := first_decl c', last_decl := last_decl c'\<rparr>"
    by (rule pushdecl_exact [OF ok _ es2 nv _ refl, of cs s4]) (use lev new(4) in \<open>simp_all add: gs s4 Let_def\<close>)
  have a4: "alive g s4 = alive g s1" "code_of g s4 = code_of g s1" "link_of g s4 TREE_TYPE v = link_of g s1 TREE_TYPE v"
    by (simp_all add: s4 Let_def gs)
  obtain fn s5 cl s6 save s7 rfn s9 restore s10 t s11 where m:
    "call g (Builtin_decl_implicit BUILT_IN_STACK_SAVE) [] [] s4 = (fn, s5)" "call g Build_call_expr [Some fn] [] s5 = (cl, s6)"
    "build g MODIFY_EXPR (Some ?p) [Some v, Some cl] s6 = (save, s7)"
    "call g (Builtin_decl_implicit BUILT_IN_STACK_RESTORE) [] [] (set_flag g TREE_SIDE_EFFECTS save True s7) = (rfn, s9)"
    "call g Build_call_expr [Some rfn, Some v] [] s9 = (restore, s10)"
    "build g TRY_FINALLY_EXPR (Some ?q) [Some l, None] s10 = (t, s11)"
    by (metis surj_pair)
  let ?s12 = "set_flag g TREE_SIDE_EFFECTS t True s11"
  have k: "\<forall>x. alive g (trees b) x \<longrightarrow> alive g s4 x" by (simp add: a4 v(2))
  have k_bnd: "alive g s4 bnd" using k bnd by simp
  have v4: "alive g s4 v" "code_of g s4 v = VAR_DECL" "link_of g s4 TREE_TYPE v = Some ?p"
    using v(2,3) new(3) by (simp_all add: a4)
  note M = make_stack_nodes [OF ok bo k v(1) v4 m refl]
  let ?e = "append_to_field g t BIND_EXPR_BODY bnd (append_to_field g save BIND_EXPR_BODY bnd
      (set_link g BIND_EXPR_BODY bnd None (append_to_field g restore (TREE_OPERAND 1) t ?s12)))"
  note B = stack_body [OF ok M(1) bnd holds_onD(1) [OF M(2) k_bnd] refl]
  have al4: "\<forall>e \<in> set (es @ [v]). alive g s4 e" using es(2) k v4 by simp
  have "built g ?s12 TREE_CHAIN (first_decl c', last_decl c') (es @ [v])"
    by (rule holds_on_built [OF 4(2) M(2) al4]) simp
  then have "built g ?e TREE_CHAIN (first_decl c', last_decl c') (es @ [v])"
    by (rule holds_on_built [OF _ B(2)]) (use holds_onD(1) [OF M(2)] al4 in auto)
  moreover have "save_stack_body g bnd b = Done (b\<lparr>trees := ?e, cur_binding_level := c' # cs\<rparr>)"
    using 4(1) l m by (simp add: save_stack_body_def tree_op_def n comp_def Let_def)
  moreover have "holds_on g ({(TREE_OPERAND 1, bnd)} \<union> {(TREE_CHAIN, e) |e. e \<in> set es}) {} (trees b) ?e"
  proof -
    let ?X = "{(DECL_CONTEXT, v), (TREE_OPERAND 1, t), (TREE_OPERAND 1, bnd)} \<union> {(TREE_CHAIN, e) |e. e \<in> set es}"
    have "holds_on g ?X {} s1 ?s2"
      by (intro holds_on_trans [OF holds_on_trans [OF holds_on_set_flag holds_on_set_flag] holds_on_set_flag] ok) simp_all
    moreover have "holds_on g ?X {} ?s2 s4"
      by (auto simp: s4 Let_def intro!: holds_on_set_link holds_on_trans [OF holds_on_set_link [OF ok] holds_on_set_link [OF ok]] ok)
    ultimately have "holds_on g ?X {} s1 s4" by (rule holds_on_trans)
    note h4 = holds_on_trans [OF holds_on_new [OF new(1)] this]
    have "holds_on g ?X {} s4 ?s12" by (rule holds_on_mono [OF M(2)]) simp_all
    moreover have "holds_on g ?X {} ?s12 ?e" by (rule holds_on_mono [OF B(2)]) simp_all
    ultimately have h: "holds_on g ?X {} (trees b) ?e" using holds_on_trans [OF h4 holds_on_trans] by blast
    have "\<not> alive g (trees b) t" using M(1) by (simp add: stack_nodes_def)
    with v(1) show ?thesis by (intro holds_on_fresh [OF h]) auto
  qed
  ultimately show thesis using B(1) 4(3) by (intro that)
qed

lemma saves_stack_level:
  assumes ok: "gcc_ok g" and S: "saves_stack g s v l bnd" and bnd: "code_of g s bnd = BIND_EXPR"
    and s': "s' = set_link g BLOCK_VARS blk p (set_link g BLOCK_SUBBLOCKS blk q (set_link g BIND_EXPR_VARS bnd r s))"
  shows "saves_stack g s' v l bnd"
proof -
  have link: "link_of g s' f t = link_of g s f t" if "f \<in> {TREE_TYPE, TREE_OPERAND (Suc i)} \<or> f = TREE_OPERAND 0 \<and> t \<noteq> bnd" for f t i
    using that by (auto simp: s' set_link_simps [OF ok])
  have same: "code_of g s' = code_of g s" "stmts_of g s' = stmts_of g s" "alive g s' = alive g s" "num_of g s' = num_of g s"
    by (simp_all add: s' set_link_simps [OF ok] fun_eq_iff)
  have e: "expr1 g s' c t x" if "expr1 g s c t x" "c \<noteq> BIND_EXPR" for c t x
    using that bnd link [of "TREE_OPERAND 0" _ t] by (auto simp: expr1_def same)
  have b: "body g s' 1 t ts" if "body g s 1 t ts" for t ts using that link [of "TREE_OPERAND 1" 0 t] by (simp add: body_def same)
  have l1: "link_of g s' (TREE_OPERAND 1) t = link_of g s (TREE_OPERAND 1) t"
    "link_of g s' TREE_TYPE t = link_of g s TREE_TYPE t" for t using link [of _ 0] by simp_all
  have c: "calls_builtin g s' f as t" if "calls_builtin g s f as t" for f as t
  proof -
    have "link_of g s' (TREE_OPERAND (3 + i)) t = link_of g s (TREE_OPERAND (3 + i)) t" for i
      by (rule link [of _ "2 + i"]) simp
    then show ?thesis
      using that e [of ADDR_EXPR] unfolding calls_builtin_def same l1 by (metis (no_types, lifting) tree_code.simps)
  qed
  show ?thesis
    using S e b c unfolding saves_stack_def same l1 by blast
qed

lemma holds_on_settled:
  "holds_on g X {} s s' \<Longrightarrow> \<forall>(f, t) \<in> X. f \<noteq> DECL_RESULT \<and> A t \<Longrightarrow> settled g A s s'"
  unfolding settled_def holds_on_def by fastforce

section \<open>Allocation in a block\<close>

lemma new_alloca_spec:
  assumes ok: "gcc_ok g" and lev: "cur_binding_level b = c # p # ls"
  obtains ptr s where "new_alloca g rtype n b =
      Done (ptr, b\<lparr>trees := s, cur_binding_level := c\<lparr>save_stack := save_stack c \<or> ls \<noteq> []\<rparr> # p # ls\<rparr>)"
    and "holds_on g {} {} (trees b) s"
proof -
  obtain n1 s1 r1 s2 ptr s3 where m: "call g Fold_convert [Some (gcc_node g size_type_node), Some n] [] (trees b) = (n1, s1)"
    "call g Build_call_nary [Some (gcc_node g ptr_type_node), stack_alloc_function_ptr b, Some n1] [] s1 = (r1, s2)"
    "call g Fold_convert [Some rtype, Some r1] [] s2 = (ptr, s3)" by (metis surj_pair)
  show thesis
  proof (rule that)
    show "new_alloca g rtype n b =
        Done (ptr, b\<lparr>trees := s3, cur_binding_level := c\<lparr>save_stack := save_stack c \<or> ls \<noteq> []\<rparr> # p # ls\<rparr>)"
      using m by (auto simp: new_alloca_def lev tree_op_def)
    show "holds_on g {} {} (trees b) s3"
      using holds_on_call [OF ok m(1)] holds_on_call [OF ok m(2)] holds_on_call [OF ok m(3)] holds_on_trans by metis
  qed
qed

text \<open>What \<open>pop_binding\<close> makes of a level with the statements of \<open>l\<close> and the declarations \<open>es\<close>\<close>

lemma pop_binding_spec:
  assumes ok: "gcc_ok g" and bo: "builtins_ok g" and lev: "cur_binding_level b = c # cs" "bind c = Some bnd" "block c = Some blk" and l: "cur_stmts b = Some l"
    and bnd: "alive g (trees b) bnd" "code_of g (trees b) bnd = BIND_EXPR"
    and es: "built g (trees b) TREE_CHAIN (first_decl c, last_decl c) es" "\<forall>e \<in> set es. alive g (trees b) e"
  obtains s ol where "pop_binding g b =
      Done (bnd, b\<lparr>trees := s, cur_stmts := prev_stmts c, cur_binding_level := cs, old_binding_levels := ol\<rparr>)"
    and "if save_stack c then \<exists>v. saves_stack g s v l bnd \<and> chain g s DECL_CHAIN (link_of g s BIND_EXPR_VARS bnd) (es @ [v])
      else link_of g s BIND_EXPR_BODY bnd = Some l \<and> chain g s DECL_CHAIN (link_of g s BIND_EXPR_VARS bnd) es"
    and "holds_on g (UNIV \<times> {bnd, blk} - {(DECL_RESULT, bnd), (DECL_RESULT, blk)} \<union> {(TREE_CHAIN, e) |e. e \<in> set es}) {} (trees b) s"
proof -
  note gs = set_link_simps [OF ok]
  let ?X = "UNIV \<times> {bnd, blk} - {(DECL_RESULT, bnd), (DECL_RESULT, blk)} \<union> {(TREE_CHAIN, e) |e. e \<in> set es}"
  let ?e = "\<lambda>c s. set_link g BLOCK_VARS blk (first_decl c) (set_link g BLOCK_SUBBLOCKS blk (first_block c) (set_link g BIND_EXPR_VARS bnd (first_decl c) s))"
  have h: "holds_on g ?X {} s (?e c s)" for c s
    by (intro holds_on_trans [OF holds_on_trans [OF holds_on_set_link holds_on_set_link] holds_on_set_link] ok) simp_all
  show thesis
  proof (cases "save_stack c")
    case True
    obtain v s c' where v: "save_stack_body g bnd b = Done (b\<lparr>trees := s, cur_binding_level := c' # cs\<rparr>)"
      "saves_stack g s v l bnd" "built g s TREE_CHAIN (first_decl c', last_decl c') (es @ [v])"
      "c' = c\<lparr>first_decl := first_decl c', last_decl := last_decl c'\<rparr>"
      "holds_on g ({(TREE_OPERAND 1, bnd)} \<union> {(TREE_CHAIN, e) |e. e \<in> set es}) {} (trees b) s"
      by (rule save_stack_body_spec [OF ok bo bnd(1) l lev(1) es])
    have c': "block c' = Some blk" "prev_stmts c' = prev_stmts c" by (subst v(4), use lev in simp)+
    have hs: "holds_on g ?X {} (trees b) s" by (rule holds_on_mono [OF v(5)]) auto
    show thesis
    proof (rule that)
      show "pop_binding g b = Done (bnd, b\<lparr>trees := ?e c' s, cur_stmts := prev_stmts c, cur_binding_level := cs,
          old_binding_levels := c' # old_binding_levels b\<rparr>)"
        using True v(1) c' lev by (simp add: pop_binding_def comp_def)
      have "saves_stack g (?e c' s) v l bnd"
        by (rule saves_stack_level [OF ok v(2) _ refl]) (use holds_onD(2) [OF hs bnd(1)] bnd(2) in simp)
      moreover have "chain g (?e c' s) DECL_CHAIN (link_of g (?e c' s) BIND_EXPR_VARS bnd) (es @ [v])"
        using v(3) chain_cong [of "es @ [v]" g "?e c' s" TREE_CHAIN g s TREE_CHAIN "first_decl c'"] by (simp add: gs built_def)
      ultimately show "if save_stack c then \<exists>v. saves_stack g (?e c' s) v l bnd \<and>
          chain g (?e c' s) DECL_CHAIN (link_of g (?e c' s) BIND_EXPR_VARS bnd) (es @ [v])
        else link_of g (?e c' s) BIND_EXPR_BODY bnd = Some l \<and> chain g (?e c' s) DECL_CHAIN (link_of g (?e c' s) BIND_EXPR_VARS bnd) es"
        using True by auto
    qed (rule holds_on_trans [OF hs h])
  next
    case False
    let ?s = "set_link g BIND_EXPR_BODY bnd (Some l) (trees b)"
    show thesis
    proof (rule that)
      show "pop_binding g b = Done (bnd, b\<lparr>trees := ?e c ?s, cur_stmts := prev_stmts c, cur_binding_level := cs,
          old_binding_levels := c # old_binding_levels b\<rparr>)"
        using False lev l by (simp add: pop_binding_def comp_def)
      have "chain g (?e c ?s) DECL_CHAIN (link_of g (?e c ?s) BIND_EXPR_VARS bnd) es"
        using es(1) chain_cong [of es g "?e c ?s" TREE_CHAIN g "trees b" TREE_CHAIN "first_decl c"] by (simp add: gs built_def)
      then show "if save_stack c then \<exists>v. saves_stack g (?e c ?s) v l bnd \<and>
          chain g (?e c ?s) DECL_CHAIN (link_of g (?e c ?s) BIND_EXPR_VARS bnd) (es @ [v])
        else link_of g (?e c ?s) BIND_EXPR_BODY bnd = Some l \<and> chain g (?e c ?s) DECL_CHAIN (link_of g (?e c ?s) BIND_EXPR_VARS bnd) es"
        using False by (simp add: gs)
    qed (rule holds_on_trans [OF holds_on_set_link [OF ok] h], simp)
  qed
qed

text \<open>
  C13: A declaration block in which memory is allocated on the stack releases it. Whatever statements the block
  had before the allocation and whatever structured statements \<open>ss\<close> follow it, when the block ends its body
  calls \<open>BUILT_IN_STACK_SAVE\<close> and keeps the result in a new variable of the block, and calls
  \<open>BUILT_IN_STACK_RESTORE\<close> with that variable in the \<open>finally\<close> part of a statement that has the list of all
  these statements inside. At the level of a function at the top, where the return releases the stack, the
  body is that list itself.\<close>

theorem stack_released:
  assumes "gcc_ok g" "builtins_ok g" "ready g f l b" "cur_binding_level b = c # p # ls" "\<not> save_stack c"
    and "bind c = Some bnd" "alive g (trees b) bnd" "code_of g (trees b) bnd = BIND_EXPR"
    and "block c = Some blk" "alive g (trees b) blk"
    and "built g (trees b) TREE_CHAIN (first_decl c, last_decl c) es" "\<forall>e \<in> set es. alive g (trees b) e"
    and "\<forall>st \<in> set ss. feasible g (trees b) (length env) st" "labels_alive g (trees b) env"
  shows "\<exists>ptr b1 b2 b3 ts. new_alloca g rtype n b = Done (ptr, b1) \<and> emit_all g env ss b1 = Done b2 \<and>
    pop_binding g b2 = Done (bnd, b3) \<and> cur_stmts b3 = prev_stmts c \<and> cur_binding_level b3 = p # ls \<and>
    stmts_of g (trees b3) l = stmts_of g (trees b) l @ ts \<and> represents_all g (trees b3) f env ss ts \<and>
    (if ls = [] then link_of g (trees b3) BIND_EXPR_BODY bnd = Some l
     else \<exists>v. saves_stack g (trees b3) v l bnd \<and>
       chain g (trees b3) DECL_CHAIN (link_of g (trees b3) BIND_EXPR_VARS bnd) (es @ [v]))"
proof -
  note ok = assms(1) and r = assms(3) and lev = assms(4)
  let ?c = "c\<lparr>save_stack := save_stack c \<or> ls \<noteq> []\<rparr>"
  obtain ptr s1 where alloca: "new_alloca g rtype n b = Done (ptr, b\<lparr>trees := s1, cur_binding_level := ?c # p # ls\<rparr>)"
    and h: "holds_on g {} {} (trees b) s1" by (rule new_alloca_spec [OF ok lev])
  let ?b1 = "b\<lparr>trees := s1, cur_binding_level := ?c # p # ls\<rparr>"
  note h1 = holds_onD(1) [OF h] holds_onD(3) [OF h]
  have r1: "ready g f l ?b1"
    using r h1(1) holds_onD(2) [OF h] lev by (auto simp: ready_def level_ok_def)
  have fe: "\<forall>st \<in> set ss. feasible g (trees ?b1) (length env) st"
    using assms(13) h1 by (auto intro: feasible_mono)
  have la: "labels_alive g (trees ?b1) env"
    by (rule labels_alive_mono [OF assms(14)]) (simp add: h1)
  have "well_emitted_all g ss" by (intro well_emitted_all stmt_well_emitted ok)
  then have "emitted g l ?b1 (labels_used_all env ss) (\<lambda>s. represents_all g s f env ss) (emit_all g env ss ?b1)"
    using r1 fe la unfolding well_emitted_all_def by blast
  then obtain b2 ts where b2: "emit_all g env ss ?b1 = Done b2" "cur_stmts b2 = Some l"
    "grown g (labels_used_all env ss) l ts ?b1 b2"
    "lasting g (alive g s1) (trees b2) (\<lambda>s. represents_all g s f env ss ts)"
    by (auto simp: emitted_def)
  obtain c2 where c2: "cur_binding_level b2 = c2 # p # ls" "similar ?c c2"
    using b2(3) by (auto simp: grown_def similar_levels_def split: list.splits)
  have kept: "alive g (trees b2) t" "code_of g (trees b2) t = code_of g (trees b) t"
    "fl \<noteq> BLOCK_CHAIN \<Longrightarrow> link_of g (trees b2) fl t = link_of g (trees b) fl t" if "alive g (trees b) t" for t fl
    using grown_kept [OF b2(3)] holds_onD(1-3) [OF h that] by (auto simp: kept_def)
  have es: "built g (trees b2) TREE_CHAIN (first_decl c2, last_decl c2) es" "\<forall>e \<in> set es. alive g (trees b2) e"
    using assms(11,12) built_cong [of es g "trees b2" TREE_CHAIN "trees b"] kept(1,3) c2(2) by (auto simp: similar_def)
  obtain s ol where pop: "pop_binding g b2 =
      Done (bnd, b2\<lparr>trees := s, cur_stmts := prev_stmts c2, cur_binding_level := p # ls, old_binding_levels := ol\<rparr>)"
    "if save_stack c2 then \<exists>v. saves_stack g s v l bnd \<and> chain g s DECL_CHAIN (link_of g s BIND_EXPR_VARS bnd) (es @ [v])
      else link_of g s BIND_EXPR_BODY bnd = Some l \<and> chain g s DECL_CHAIN (link_of g s BIND_EXPR_VARS bnd) es"
    "holds_on g (UNIV \<times> {bnd, blk} - {(DECL_RESULT, bnd), (DECL_RESULT, blk)} \<union> {(TREE_CHAIN, e) |e. e \<in> set es}) {} (trees b2) s"
    by (rule pop_binding_spec [OF ok assms(2) c2(1) _ _ b2(2) _ _ es]) (use c2(2) assms(6-9) kept(1,2) in \<open>auto simp: similar_def\<close>)
  have "settled g (alive g s1) (trees b2) s"
    by (rule holds_on_settled [OF pop(3)]) (use assms(7,10,12) h1(1) in auto)
  then have "represents_all g s f env ss ts" by (rule lastingD [OF b2(4)])
  moreover have "stmts_of g s l = stmts_of g (trees b) l @ ts"
    using holds_onD(4) [OF pop(3), of l] holds_onD(4) [OF h, of l] kept(1) [of l] b2(3) ready_alive [OF r]
    by (simp add: grown_def)
  moreover have "save_stack c2 \<longleftrightarrow> ls \<noteq> []" "prev_stmts c2 = prev_stmts c"
    using c2(2) assms(5) by (simp_all add: similar_def)
  ultimately show ?thesis
    using alloca b2(1) pop(1,2) by (cases "ls = []") auto
qed

text \<open>
  A block in a function at the top, with a variable: the levels are the block, the function, the global level.
  Behind the allocation a loop is left.
\<close>

definition block_level :: "nat binding_level" where
  "block_level = no_level\<lparr>bind := Some 13, block := Some 14, first_decl := Some 15, last_decl := Some 15\<rparr>"

definition block_state :: "(nat, node_store) ortho" where
  "block_state = (start_state (start_store 20 (\<lambda>t. [BIND_EXPR, BLOCK, VAR_DECL, STATEMENT_LIST, FUNCTION_DECL] ! min (t - 13) 4) (\<lambda>f t. None)))
     \<lparr>cur_stmts := Some 16, current_function_decl := Some 17, cur_binding_level := [block_level, no_level, no_level]\<rparr>"

theorem stack_released_witness:
  "\<exists>ptr b1 b2 b3 ts. new_alloca store_gcc 3 10 block_state = Done (ptr, b1) \<and>
    emit_all store_gcc [] [Assign 15 10, Loop [Exit 0]] b1 = Done b2 \<and> pop_binding store_gcc b2 = Done (13, b3) \<and>
    cur_stmts b3 = None \<and> cur_binding_level b3 = [no_level, no_level] \<and> stmts_of store_gcc (trees b3) 16 = ts \<and>
    represents_all store_gcc (trees b3) 17 [] [Assign 15 10, Loop [Exit 0]] ts \<and>
    (\<exists>v. saves_stack store_gcc (trees b3) v 16 13 \<and>
      chain store_gcc (trees b3) DECL_CHAIN (link_of store_gcc (trees b3) BIND_EXPR_VARS 13) [15, v])"
proof -
  have "\<exists>ptr b1 b2 b3 ts. new_alloca store_gcc 3 10 block_state = Done (ptr, b1) \<and>
    emit_all store_gcc [] [Assign 15 10, Loop [Exit 0]] b1 = Done b2 \<and> pop_binding store_gcc b2 = Done (13, b3) \<and>
    cur_stmts b3 = prev_stmts block_level \<and> cur_binding_level b3 = no_level # [no_level] \<and>
    stmts_of store_gcc (trees b3) 16 = stmts_of store_gcc (trees block_state) 16 @ ts \<and>
    represents_all store_gcc (trees b3) 17 [] [Assign 15 10, Loop [Exit 0]] ts \<and>
    (if [no_level :: nat binding_level] = [] then link_of store_gcc (trees b3) BIND_EXPR_BODY 13 = Some 16
     else \<exists>v. saves_stack store_gcc (trees b3) v 16 13 \<and>
       chain store_gcc (trees b3) DECL_CHAIN (link_of store_gcc (trees b3) BIND_EXPR_VARS 13) ([15] @ [v]))"
    by (rule stack_released [OF gcc_ok_store builtins_ok_store, where c = block_level and blk = 14])
      (simp_all add: block_state_def start_state_def start_store_def store_gcc_def alive_def block_level_def no_level_def
        ready_def level_ok_def built_def chain_def labels_alive_def env_labels_def)
  then show ?thesis
    by (simp add: block_level_def no_level_def block_state_def start_state_def start_store_def store_gcc_def)
qed

end
