(* ===== verification/Ortho_Hooks.thy ===== *)
theory Ortho_Hooks
  imports Ortho_Decls
begin

text \<open>
  The hooks of \<open>ortho-lang-7.c\<close> that GCC calls: the start of the compiler, the options, the compilation of
  a file, conversions and types of a size; and the functions on identifiers.
\<close>

section \<open>Start\<close>

definition define_builtin :: "('t, 's) gcc \<Rightarrow> string \<Rightarrow> 't \<Rightarrow> built_in_function \<Rightarrow> int \<Rightarrow> ('t, 's) ortho \<Rightarrow> ('t, 's) ortho" where
  "define_builtin g name type code attr b =
     (let (decl, b) = tree_op (add_builtin_function g name type code) b;
          b = trees_update (act g Set_call_expr_flags [Some decl] [attr]) b
      in trees_update (set_builtin_decl g code decl) b)"

definition declare_type :: "('t, 's) gcc \<Rightarrow> string \<Rightarrow> gcc_node \<Rightarrow> ('t, 's) ortho \<Rightarrow> ('t, 's) ortho run" where
  "declare_type g name node b =
     (let (ident, b) = tree_op (get_identifier g name) b;
          (n, b) = tree_op (build_decl g (input_location b) TYPE_DECL (Some ident) (Some (gcc_node g node))) b
      in pushdecl g n b)"

text \<open>The builtins for the stack, and the trap\<close>

definition define_alloca :: "('t, 's) gcc \<Rightarrow> ('t, 's) ortho \<Rightarrow> ('t, 's) ortho" where
  "define_alloca g b =
     (let (args_type, b) = tree_op (tree_cons g None (Some (gcc_node g size_type_node)) (Some (gcc_node g void_list_node))) b;
          (func_type, b) = tree_op (call g Build_function_type [Some (gcc_node g ptr_type_node), Some args_type] []) b;
          b = define_builtin g ''__builtin_alloca'' func_type BUILT_IN_ALLOCA 0 b;
          (ptr_type, b) = tree_op (call g Build_pointer_type [Some func_type] []) b;
          (decl, b) = tree_op (call g (Builtin_decl_implicit BUILT_IN_ALLOCA) [] []) b;
          (ptr, b) = tree_op (build g ADDR_EXPR (Some ptr_type) [Some decl]) b
      in b\<lparr>stack_alloc_function_ptr := Some ptr\<rparr>)"

definition define_stack_save :: "('t, 's) gcc \<Rightarrow> ('t, 's) ortho \<Rightarrow> ('t, 's) ortho" where
  "define_stack_save g b =
     (let (ptr_ftype, b) = tree_op (call g Build_function_type [Some (gcc_node g ptr_type_node), None] []) b
      in define_builtin g ''__builtin_stack_save'' ptr_ftype BUILT_IN_STACK_SAVE 0 b)"

definition define_stack_restore :: "('t, 's) gcc \<Rightarrow> ('t, 's) ortho \<Rightarrow> ('t, 's) ortho" where
  "define_stack_restore g b =
     (let (ftype_ptr, b) = tree_op (call g Build_function_type_list
            [Some (gcc_node g void_type_node), Some (gcc_node g ptr_type_node), None] []) b
      in define_builtin g ''__builtin_stack_restore'' ftype_ptr BUILT_IN_STACK_RESTORE 0 b)"

definition define_trap :: "('t, 's) gcc \<Rightarrow> ('t, 's) ortho \<Rightarrow> ('t, 's) ortho" where
  "define_trap g b =
     (let (ftype_ptr, b) = tree_op (call g Build_function_type_list [Some (gcc_node g void_type_node), None] []) b;
          b = define_builtin g ''__builtin_trap'' ftype_ptr BUILT_IN_TRAP (target g ECF_NOTHROW OR target g ECF_LEAF) b;
          (decl, b) = tree_op (call g (Builtin_decl_explicit BUILT_IN_TRAP) [] []) b
      in trees_update (set_flag g TREE_THIS_VOLATILE decl True) b)"

text \<open>\<open>BUILTINS_LOCATION\<close> is 1, and \<open>dconsthalf\<close> is 1/2.\<close>

definition ortho_init :: "('t, 's) gcc \<Rightarrow> ('t, 's) ortho \<Rightarrow> (bool \<times> ('t, 's) ortho) run" where
  "ortho_init g b =
     rbind (push_binding g GLOBAL_BINDING (b\<lparr>input_location := 1\<rparr>)) (\<lambda>b.
     let b = trees_update (act g Build_common_tree_nodes [] [0]) b in
     rbind (declare_type g ''int'' integer_type_node b) (\<lambda>b.
     rbind (declare_type g ''char'' char_type_node b) (\<lambda>b.
     let b = define_alloca g b;
         b = define_stack_save g b;
         b = define_stack_restore g b;
         b = define_trap g b;
         b = b\<lparr>fp_const_m_p5 := - (1 / 2)\<rparr>
     in Done (True, trees_update (act g Build_common_builtin_nodes [] []) b))))"

section \<open>Options and files\<close>

text \<open>
  The options are handled by the front end, \<open>lang_handle_option\<close>, which gets an option and its argument.
  Few options have an argument of their own; the others have it joined to their text.
\<close>

datatype opt_code = OPT__elab | OPT_l | OPT_c | OPT__anaelab | Other_opt nat

definition ortho_handle_option ::
  "(string \<Rightarrow> string option \<Rightarrow> int) \<Rightarrow> (opt_code \<Rightarrow> string) \<Rightarrow> opt_code \<Rightarrow> string option \<Rightarrow> bool" where
  "ortho_handle_option lang_handle_option opt_text code arg =
     (let opt = opt_text code in
      if code \<in> {OPT__elab, OPT_l, OPT_c, OPT__anaelab} then lang_handle_option opt arg \<noteq> 0
      else lang_handle_option (case arg of None \<Rightarrow> opt | Some a \<Rightarrow> opt @ a) None \<noteq> 0)"

text \<open>The name of the file, which the default hook \<open>lhd_post_options\<close> gets; the result runs the back end.\<close>

definition ortho_post_options :: "(string option \<Rightarrow> string option) \<Rightarrow> string option \<Rightarrow> bool \<times> string option" where
  "ortho_post_options lhd_post_options filename =
     (False, lhd_post_options (if filename = None \<or> filename = Some ''-'' then Some ''*stdin*'' else filename))"

text \<open>\<open>IS_ABSOLUTE_PATH\<close> on Unix; \<open>getpwd ()\<close> is the current directory.\<close>

definition is_absolute_path :: "string \<Rightarrow> bool" where
  "is_absolute_path f \<longleftrightarrow> f \<noteq> [] \<and> hd f = CHR ''/''"

definition debug_filename :: "string \<Rightarrow> string option \<Rightarrow> string" where
  "debug_filename pwd filename = (case filename of
     None \<Rightarrow> ''*stdin*''
   | Some f \<Rightarrow> if is_absolute_path f then f else pwd @ ''/'' @ f)"

text \<open>
  The front end \<open>lang_parse_file\<close> compiles the file; \<open>linemap_add\<close> enters the file, with its name for the
  debugger, and leaves it.
\<close>

definition ortho_parse_file ::
  "('t, 's) gcc \<Rightarrow> (string option \<Rightarrow> ('t, 's) ortho \<Rightarrow> (bool \<times> ('t, 's) ortho) run) \<Rightarrow>
   (string option \<Rightarrow> 's \<Rightarrow> 's) \<Rightarrow> string \<Rightarrow> string list \<Rightarrow> ('t, 's) ortho \<Rightarrow> ('t, 's) ortho run" where
  "ortho_parse_file g lang_parse_file linemap_add pwd in_fnames b =
     (let filename = (case in_fnames of [] \<Rightarrow> None | f # _ \<Rightarrow> Some f);
          b = trees_update (linemap_add (Some (debug_filename pwd filename))) b;
          (l, b) = tree_op (linemap_line_start g 1) b;
          b = b\<lparr>input_location := l\<rparr>
      in rbind (lang_parse_file filename b) (\<lambda>(ok, b).
         rbind (if ok then Done b else rbind (c_int (errorcount b + 1)) (\<lambda>n. Done (b\<lparr>errorcount := n\<rparr>))) (\<lambda>b.
         Done (trees_update (linemap_add None) b))))"

section \<open>Conversions\<close>

text \<open>The alias set of all types is 0, which is unrelated to no other.\<close>

definition ortho_get_alias_set :: "'t \<Rightarrow> int" where
  "ortho_get_alias_set type = 0"

definition ortho_truthvalue_conversion :: "('t, 's) gcc \<Rightarrow> 't \<Rightarrow> ('t, 's) ortho \<Rightarrow> 't option run" where
  "ortho_truthvalue_conversion g expr b =
     rbind (deref (link_of g (trees b) TREE_TYPE expr)) (\<lambda>ty.
     let (f, t) = (if code_of g (trees b) ty \<noteq> BOOLEAN_TYPE
            then (Some (gcc_node g integer_zero_node), Some (gcc_node g integer_one_node))
            else (link_of g (trees b) TYPE_MIN_VALUE ty, link_of g (trees b) TYPE_MAX_VALUE ty));
         c = code_of g (trees b) expr
     in if c \<in> {EQ_EXPR, NE_EXPR, LE_EXPR, GE_EXPR, LT_EXPR, GT_EXPR, TRUTH_ANDIF_EXPR, TRUTH_ORIF_EXPR,
                TRUTH_AND_EXPR, TRUTH_OR_EXPR, ERROR_MARK} then Done (Some expr)
        else if c = INTEGER_CST then Done (if test g Integer_zerop (trees b) expr then f else t)
        else if c = REAL_CST then Done (if test g Real_zerop (trees b) expr then f else t)
        else Crash Aborted)"

text \<open>
  \<open>convert\<close>, which GCC calls. \<open>invalid_conversion\<close> is the hook of the target that forbids conversions
  with a message.
\<close>

definition convert_boolean :: "('t, 's) gcc \<Rightarrow> 't \<Rightarrow> 't \<Rightarrow> ('t, 's) ortho \<Rightarrow> ('t \<times> ('t, 's) ortho) run" where
  "convert_boolean g type expr b =
     rbind (ortho_truthvalue_conversion g expr b) (\<lambda>p.
     rbind (deref p) (\<lambda>t.
     if code_of g (trees b) t = ERROR_MARK then Done (t, b)
     else if code_of g (trees b) t = NOP_EXPR
     then Done (tree_op (call g (Fold_build1 NOP_EXPR) [Some type, link_of g (trees b) (TREE_OPERAND 0) t] []) b)
     else Done (tree_op (call g (Fold_build1 NOP_EXPR) [Some type, Some t] []) b)))"

definition fold_call :: "('t, 's) gcc \<Rightarrow> gcc_fun \<Rightarrow> 't \<Rightarrow> 't \<Rightarrow> ('t, 's) ortho \<Rightarrow> 't \<times> ('t, 's) ortho" where
  "fold_call g f type expr b =
     (let (t, b) = tree_op (call g f [Some type, Some expr] []) b in tree_op (call g Fold [Some t] []) b)"

definition convert :: "('t, 's) gcc \<Rightarrow> ('t option \<Rightarrow> 't \<Rightarrow> bool) \<Rightarrow> 't \<Rightarrow> 't \<Rightarrow> ('t, 's) ortho \<Rightarrow> ('t \<times> ('t, 's) ortho) run" where
  "convert g invalid_conversion type expr b =
     (let error_mark = gcc_node g error_mark_node;
          ty = link_of g (trees b) TREE_TYPE expr;
          c = code_of g (trees b) type
      in if type = error_mark \<or> expr = error_mark \<or> ty = Some error_mark then Done (error_mark, b)
      else if invalid_conversion ty type then rbind (c_int (errorcount b + 1)) (\<lambda>n. Done (error_mark, b\<lparr>errorcount := n\<rparr>))
      else if ty = Some type then Done (expr, b)
      else rbind (deref ty) (\<lambda>ty.
        if link_of g (trees b) TYPE_MAIN_VARIANT type = link_of g (trees b) TYPE_MAIN_VARIANT ty
        then Done (tree_op (call g (Fold_build1 NOP_EXPR) [Some type, Some expr] []) b)
        else if code_of g (trees b) ty = ERROR_MARK then Done (error_mark, b)
        else if code_of g (trees b) ty = VOID_TYPE \<or> c = VOID_TYPE then Crash Aborted
        else if c = INTEGER_TYPE \<or> c = ENUMERAL_TYPE then Done (fold_call g Convert_to_integer type expr b)
        else if c = BOOLEAN_TYPE then convert_boolean g type expr b
        else if c = POINTER_TYPE \<or> c = REFERENCE_TYPE then Done (fold_call g Convert_to_pointer type expr b)
        else if c = REAL_TYPE then Done (fold_call g Convert_to_real type expr b)
        else Crash Aborted))"

section \<open>Types of a size\<close>

text \<open>The precision is unsigned; the table has a column for signed and one for unsigned types.\<close>

definition type_for_size :: "('t, 's) gcc \<Rightarrow> u32 \<Rightarrow> bool \<Rightarrow> ('t, 's) ortho \<Rightarrow> 't \<times> ('t, 's) ortho" where
  "type_for_size g precision unsignedp b =
     (let p = uint precision;
          small = (p \<le> target g MAX_BITS_PER_WORD);
          make = (let (t, b) = tree_op (call g (if unsignedp then Make_unsigned_type else Make_signed_type) [] [p]) b
                  in (t, if small then b\<lparr>signed_and_unsigned_types :=
                            (signed_and_unsigned_types b)(p := (signed_and_unsigned_types b p)(unsignedp := Some t))\<rparr>
                         else b))
      in if small then (case signed_and_unsigned_types b p unsignedp of Some t \<Rightarrow> (t, b) | None \<Rightarrow> make) else make)"

text \<open>The types of small sizes are made once.\<close>

lemma type_for_size_again:
  assumes "type_for_size g p u b = (t, b1)" "uint p \<le> target g MAX_BITS_PER_WORD"
  shows "type_for_size g p u b1 = (t, b1)"
  using assms by (auto simp: type_for_size_def Let_def tree_op_def split: option.splits prod.splits)

text \<open>\<open>mode_bits\<close> gives the size in bits of the modes of integers.\<close>

definition type_for_mode ::
  "('t, 's) gcc \<Rightarrow> (int \<Rightarrow> u32 option) \<Rightarrow> int \<Rightarrow> bool \<Rightarrow> ('t, 's) ortho \<Rightarrow> 't option \<times> ('t, 's) ortho" where
  "type_for_mode g mode_bits mode unsignedp b = (case mode_bits mode of
     Some n \<Rightarrow> let (t, b) = type_for_size g n unsignedp b in (Some t, b)
   | None \<Rightarrow>
       let has_mode = (\<lambda>n. mode = num_of g (trees b) TYPE_MODE (gcc_node g n)) in
       if has_mode void_type_node then (Some (gcc_node g void_type_node), b)
       else if has_mode float_type_node then (Some (gcc_node g float_type_node), b)
       else if has_mode double_type_node then (Some (gcc_node g double_type_node), b)
       else if has_mode long_double_type_node then (Some (gcc_node g long_double_type_node), b)
       else (None, b))"

section \<open>Identifiers\<close>

definition compare_identifier_string :: "('t, 's) gcc \<Rightarrow> 's \<Rightarrow> 't \<Rightarrow> string \<Rightarrow> bool" where
  "compare_identifier_string g s ident str =
     (if length (spelling_of g s ident) \<noteq> length str then False
      else if spelling_of g s ident = str then True else False)"

definition get_identifier_string :: "('t, 's) gcc \<Rightarrow> 's \<Rightarrow> 't \<Rightarrow> string \<times> int" where
  "get_identifier_string g s ident = (spelling_of g s ident, int (length (spelling_of g s ident)))"

end
