(* ===== verification/Fst_Fastlz.thy ===== *)
theory Fst_Fastlz
  imports Ghw_Prelude
begin

text \<open>
  The FastLZ compressor of the FST waveform library, \<open>src/src/grt/fst/fastlz.c\<close>. The file includes
  itself twice, once for each compression level; the level is the argument \<open>lv\<close> of the definitions
  here. A pointer into the input or the output is its offset. The input is the object the caller
  passes, which may be longer than \<open>length\<close>; the output is an object of the size of the list, and an
  access outside of either is \<open>Crash Out_of_bounds\<close>.

  Offsets and the compressor's \<open>flzuint32\<close> variables \<open>copy\<close>, \<open>len\<close> and \<open>distance\<close> are naturals: each
  is bounded by the \<open>int\<close> length of the input. The decompressor's are 32-bit words, since it computes
  them from the data.
\<close>

section \<open>Constants and accesses\<close>

definition MAX_COPY :: nat where "MAX_COPY = 32"
definition MAX_LEN :: nat where "MAX_LEN = 264"
definition HASH_SIZE :: nat where "HASH_SIZE = 8192"

definition MAX_DISTANCE :: "nat \<Rightarrow> nat" where
  "MAX_DISTANCE lv = (if lv = 1 then 8192 else 8191)"

definition MAX_FARDISTANCE :: nat where
  "MAX_FARDISTANCE = 65535 + MAX_DISTANCE 2 - 1"

definition flz_get :: "byte list \<Rightarrow> nat \<Rightarrow> byte run" where
  "flz_get buf p = array_get (length buf) buf p"

definition FASTLZ_READU16 :: "byte list \<Rightarrow> nat \<Rightarrow> u32 run" where
  "FASTLZ_READU16 buf p =
     rbind (flz_get buf p) (\<lambda>a.
     rbind (flz_get buf (p + 1)) (\<lambda>b. Done (ucast a OR push_bit 8 (ucast b))))"

definition HASH_FUNCTION :: "byte list \<Rightarrow> nat \<Rightarrow> u32 run" where
  "HASH_FUNCTION buf p =
     rbind (FASTLZ_READU16 buf p) (\<lambda>v.
     rbind (FASTLZ_READU16 buf (p + 1)) (\<lambda>w.
       Done ((v XOR (w XOR drop_bit 3 v)) AND of_nat (HASH_SIZE - 1))))"

section \<open>The compressor\<close>

record flz =
  fz_ip :: nat
  fz_op :: nat
  fz_out :: "byte list"
  fz_htab :: "nat list"
  fz_copy :: nat

definition fz_put :: "byte \<Rightarrow> flz \<Rightarrow> flz run" where
  "fz_put b s =
     rbind (array_set (fz_out s) (int (fz_op s)) b) (\<lambda>o'.
       Done (s\<lparr>fz_out := o', fz_op := fz_op s + 1\<rparr>))"

fun fz_puts :: "byte list \<Rightarrow> flz \<Rightarrow> flz run" where
  "fz_puts [] s = Done s"
| "fz_puts (b # bs) s = rbind (fz_put b s) (fz_puts bs)"

text \<open>
  The count in front of the literals that were copied: it is set when there are some, and its place
  is given back when there are none.
\<close>

definition fz_close :: "flz \<Rightarrow> flz run" where
  "fz_close s =
     (if fz_copy s \<noteq> 0
      then rbind (array_set (fz_out s) (int (fz_op s) - int (fz_copy s) - 1)
                   (word_of_nat (fz_copy s - 1)))
             (\<lambda>o'. Done (s\<lparr>fz_out := o'\<rparr>))
      else Done (s\<lparr>fz_op := fz_op s - 1\<rparr>))"

text \<open>One literal byte is copied; a run of \<open>MAX_COPY\<close> of them is full, and a new one begins.\<close>

definition fz_literal :: "byte list \<Rightarrow> flz \<Rightarrow> flz run" where
  "fz_literal inp s =
     rbind (flz_get inp (fz_ip s)) (\<lambda>b.
     rbind (fz_put b s) (\<lambda>s.
     let s = s\<lparr>fz_ip := fz_ip s + 1, fz_copy := fz_copy s + 1\<rparr> in
     if fz_copy s = MAX_COPY then fz_put (word_of_nat (MAX_COPY - 1)) (s\<lparr>fz_copy := 0\<rparr>)
     else Done s))"

text \<open>\<open>n\<close> comparisons \<open>*ref++ != *ip++\<close>, up to the first that differs.\<close>

fun flz_same :: "byte list \<Rightarrow> nat \<Rightarrow> nat \<Rightarrow> nat \<Rightarrow> bool run" where
  "flz_same inp 0 ref ip = Done True"
| "flz_same inp (Suc n) ref ip =
     rbind (flz_get inp ref) (\<lambda>a.
     rbind (flz_get inp ip) (\<lambda>b.
       if a \<noteq> b then Done False else flz_same inp n (ref + 1) (ip + 1)))"

definition flz_is_run :: "byte list \<Rightarrow> nat \<Rightarrow> bool run" where
  "flz_is_run inp ip =
     rbind (flz_get inp ip) (\<lambda>a.
     rbind (flz_get inp (ip - 1)) (\<lambda>b.
     if a \<noteq> b then Done False
     else rbind (FASTLZ_READU16 inp (ip - 1)) (\<lambda>v.
          rbind (FASTLZ_READU16 inp (ip + 1)) (\<lambda>w. Done (v = w)))))"

text \<open>
  The search for a match at \<open>ip\<close>: its distance, the length that was compared and the place behind
  the bytes that were compared, or nothing.
\<close>

definition fz_candidate :: "nat \<Rightarrow> byte list \<Rightarrow> flz \<Rightarrow> ((nat \<times> nat \<times> nat) option \<times> flz) run" where
  "fz_candidate lv inp s =
     (let anchor = fz_ip s in
      rbind (if lv = 2 then flz_is_run inp anchor else Done False) (\<lambda>run.
      if run then Done (Some (1, 3, anchor - 1 + 3), s)
      else
        rbind (HASH_FUNCTION inp anchor) (\<lambda>hval.
        rbind (array_get HASH_SIZE (fz_htab s) (unat hval)) (\<lambda>ref.
        rbind (array_set (fz_htab s) (int (unat hval)) anchor) (\<lambda>tab.
        let distance = anchor - ref; s = s\<lparr>fz_htab := tab\<rparr> in
        if distance = 0 \<or> distance \<ge> (if lv = 1 then MAX_DISTANCE lv else MAX_FARDISTANCE)
        then Done (None, s)
        else
          rbind (flz_same inp 3 ref anchor) (\<lambda>m.
          if \<not> m then Done (None, s)
          else if lv = 2 \<and> distance \<ge> MAX_DISTANCE lv
          then rbind (flz_same inp 2 (ref + 3) (anchor + 3)) (\<lambda>m.
                 Done (if m then Some (distance, 5, ref + 5) else None, s))
          else Done (Some (distance, 3, ref + 3), s)))))))"

text \<open>
  How far the match goes. Both loops leave \<open>ip\<close> one behind the first byte that differs, or one
  behind the last byte that was compared when \<open>ip_bound\<close> ends them.
\<close>

function flz_run_end :: "byte list \<Rightarrow> nat \<Rightarrow> byte \<Rightarrow> nat \<Rightarrow> nat \<Rightarrow> nat run" where
  "flz_run_end inp ip_bound x ref ip =
     (if ip < ip_bound
      then rbind (flz_get inp ref) (\<lambda>a.
           if a \<noteq> x then Done ip else flz_run_end inp ip_bound x (ref + 1) (ip + 1))
      else Done ip)"
  by pat_completeness auto
termination by (relation "measure (\<lambda>(_, ip_bound, _, _, ip). ip_bound - ip)") auto

function flz_match_end :: "byte list \<Rightarrow> nat \<Rightarrow> nat \<Rightarrow> nat \<Rightarrow> nat run" where
  "flz_match_end inp ip_bound ref ip =
     (if ip < ip_bound
      then rbind (flz_get inp ref) (\<lambda>a.
           rbind (flz_get inp ip) (\<lambda>b.
           if a \<noteq> b then Done (ip + 1) else flz_match_end inp ip_bound (ref + 1) (ip + 1)))
      else Done ip)"
  by pat_completeness auto
termination by (relation "measure (\<lambda>(_, ip_bound, _, ip). ip_bound - ip)") auto

declare flz_run_end.simps [simp del] flz_match_end.simps [simp del]

text \<open>\<open>n\<close> comparisons without a look at \<open>ip_bound\<close>, and then the loop.\<close>

fun flz_unrolled :: "nat \<Rightarrow> byte list \<Rightarrow> nat \<Rightarrow> nat \<Rightarrow> nat \<Rightarrow> nat run" where
  "flz_unrolled 0 inp ip_bound ref ip = flz_match_end inp ip_bound ref ip"
| "flz_unrolled (Suc n) inp ip_bound ref ip =
     rbind (flz_get inp ref) (\<lambda>a.
     rbind (flz_get inp ip) (\<lambda>b.
       if a \<noteq> b then Done (ip + 1) else flz_unrolled n inp ip_bound (ref + 1) (ip + 1)))"

text \<open>The encoding of a match, of a biased distance and a biased length.\<close>

fun fz_put_255s :: "nat \<Rightarrow> flz \<Rightarrow> (nat \<times> flz) run" where
  "fz_put_255s len s =
     (if len \<ge> 255 then rbind (fz_put 255 s) (fz_put_255s (len - 255)) else Done (len, s))"

function fz_put_pieces :: "nat \<Rightarrow> nat \<Rightarrow> flz \<Rightarrow> (nat \<times> flz) run" where
  "fz_put_pieces distance len s =
     (if len > MAX_LEN - 2
      then rbind (fz_puts [word_of_nat (7 * 32 + distance div 256),
                           word_of_nat (MAX_LEN - 2 - 7 - 2),
                           word_of_nat (distance mod 256)] s)
             (fz_put_pieces distance (len - (MAX_LEN - 2)))
      else Done (len, s))"
  by pat_completeness auto
termination
  by (relation "measure (\<lambda>(_, len, _). len)") (auto simp: MAX_LEN_def)

declare fz_put_255s.simps [simp del] fz_put_pieces.simps [simp del]

definition fz_encode2 :: "nat \<Rightarrow> nat \<Rightarrow> flz \<Rightarrow> flz run" where
  "fz_encode2 distance len s =
     (if distance < MAX_DISTANCE 2
      then if len < 7
        then fz_puts [word_of_nat (len * 32 + distance div 256), word_of_nat (distance mod 256)] s
        else rbind (fz_put (word_of_nat (7 * 32 + distance div 256)) s) (\<lambda>s.
             rbind (fz_put_255s (len - 7) s) (\<lambda>(len, s).
               fz_puts [word_of_nat len, word_of_nat (distance mod 256)] s))
      else let distance = distance - MAX_DISTANCE 2 in
        if len < 7
        then fz_puts [word_of_nat (len * 32 + 31), 255, word_of_nat (distance div 256),
                      word_of_nat (distance mod 256)] s
        else rbind (fz_put (word_of_nat (7 * 32 + 31)) s) (\<lambda>s.
             rbind (fz_put_255s (len - 7) s) (\<lambda>(len, s).
               fz_puts [word_of_nat len, 255, word_of_nat (distance div 256),
                        word_of_nat (distance mod 256)] s)))"

definition fz_encode1 :: "nat \<Rightarrow> nat \<Rightarrow> flz \<Rightarrow> flz run" where
  "fz_encode1 distance len s =
     rbind (fz_put_pieces distance len s) (\<lambda>(len, s).
     if len < 7
     then fz_puts [word_of_nat (len * 32 + distance div 256), word_of_nat (distance mod 256)] s
     else fz_puts [word_of_nat (7 * 32 + distance div 256), word_of_nat (len - 7),
                   word_of_nat (distance mod 256)] s)"

definition fz_rehash :: "byte list \<Rightarrow> flz \<Rightarrow> flz run" where
  "fz_rehash inp s =
     rbind (HASH_FUNCTION inp (fz_ip s)) (\<lambda>hval.
     rbind (array_set (fz_htab s) (int (unat hval)) (fz_ip s)) (\<lambda>tab.
       Done (s\<lparr>fz_htab := tab, fz_ip := fz_ip s + 1\<rparr>)))"

text \<open>From the label \<open>match\<close> to the \<open>continue\<close>.\<close>

definition fz_match :: "nat \<Rightarrow> byte list \<Rightarrow> nat \<Rightarrow> nat \<times> nat \<times> nat \<Rightarrow> flz \<Rightarrow> flz run" where
  "fz_match lv inp ip_bound = (\<lambda>(distance, len, ref) s.
     let anchor = fz_ip s; ip = anchor + len; distance = distance - 1 in
     rbind (if distance = 0
            then rbind (flz_get inp (ip - 1)) (\<lambda>x. flz_run_end inp ip_bound x ref ip)
            else flz_unrolled 8 inp ip_bound ref ip) (\<lambda>ip.
     rbind (fz_close s) (\<lambda>s.
     let ip = ip - 3; len = ip - anchor; s = s\<lparr>fz_copy := 0, fz_ip := ip\<rparr> in
     rbind (if lv = 2 then fz_encode2 distance len s else fz_encode1 distance len s) (\<lambda>s.
     rbind (fz_rehash inp s) (\<lambda>s.
     rbind (fz_rehash inp s) (\<lambda>s.
       fz_put (word_of_nat (MAX_COPY - 1)) s))))))"

definition fz_step :: "nat \<Rightarrow> byte list \<Rightarrow> nat \<Rightarrow> flz \<Rightarrow> flz run" where
  "fz_step lv inp ip_bound s =
     rbind (fz_candidate lv inp s) (\<lambda>(c, s).
     case c of None \<Rightarrow> fz_literal inp s | Some m \<Rightarrow> fz_match lv inp ip_bound m s)"

text \<open>The main loop, while \<open>ip < ip_limit\<close>; a pass moves \<open>ip\<close>, so \<open>n\<close> passes are enough.\<close>

fun fz_loop :: "nat \<Rightarrow> nat \<Rightarrow> byte list \<Rightarrow> nat \<Rightarrow> flz \<Rightarrow> flz run" where
  "fz_loop 0 lv inp n s = (if fz_ip s + 12 < n then Crash No_return else Done s)"
| "fz_loop (Suc k) lv inp n s =
     (if fz_ip s + 12 < n then rbind (fz_step lv inp (n - 2) s) (fz_loop k lv inp n) else Done s)"

fun fz_rest :: "nat \<Rightarrow> byte list \<Rightarrow> nat \<Rightarrow> flz \<Rightarrow> flz run" where
  "fz_rest 0 inp ip_bound s = (if fz_ip s \<le> ip_bound then Crash No_return else Done s)"
| "fz_rest (Suc k) inp ip_bound s =
     (if fz_ip s \<le> ip_bound then rbind (fz_literal inp s) (fz_rest k inp ip_bound) else Done s)"

text \<open>An input of less than four bytes is one run of literals.\<close>

fun fz_copy_all :: "byte list \<Rightarrow> nat \<Rightarrow> nat \<Rightarrow> flz \<Rightarrow> flz run" where
  "fz_copy_all inp 0 ip s = Done s"
| "fz_copy_all inp (Suc k) ip s =
     rbind (flz_get inp ip) (\<lambda>b. rbind (fz_put b s) (fz_copy_all inp k (ip + 1)))"

definition FASTLZ_COMPRESSOR ::
    "nat \<Rightarrow> byte list \<Rightarrow> int \<Rightarrow> byte list \<Rightarrow> (int \<times> byte list) run" where
  "FASTLZ_COMPRESSOR lv inp length' out =
     (let s = \<lparr>fz_ip = 0, fz_op = 0, fz_out = out, fz_htab = replicate HASH_SIZE 0, fz_copy = 0\<rparr> in
      if length' < 4
      then if length' \<noteq> 0
        then rbind (fz_put (word_of_int (length' - 1)) s) (\<lambda>s.
             rbind (fz_copy_all inp (nat length') 0 s) (\<lambda>s. Done (length' + 1, fz_out s)))
        else Done (0, out)
      else
        let n = nat length' in
        rbind (fz_put (word_of_nat (MAX_COPY - 1)) s) (\<lambda>s.
        rbind (flz_get inp 0) (\<lambda>a. rbind (fz_put a s) (\<lambda>s.
        rbind (flz_get inp 1) (\<lambda>b. rbind (fz_put b s) (\<lambda>s.
        rbind (fz_loop n lv inp n (s\<lparr>fz_ip := 2, fz_copy := 2\<rparr>)) (\<lambda>s.
        rbind (fz_rest n inp (n - 1) s) (\<lambda>s.
        rbind (fz_close s) (\<lambda>s.
        rbind (if lv = 2
               then rbind (flz_get (fz_out s) 0) (\<lambda>b. array_set (fz_out s) 0 (b OR push_bit 5 1))
               else Done (fz_out s)) (\<lambda>o'.
          Done (int (fz_op s), o')))))))))))"

definition fastlz1_compress :: "byte list \<Rightarrow> int \<Rightarrow> byte list \<Rightarrow> (int \<times> byte list) run" where
  "fastlz1_compress = FASTLZ_COMPRESSOR 1"

definition fastlz2_compress :: "byte list \<Rightarrow> int \<Rightarrow> byte list \<Rightarrow> (int \<times> byte list) run" where
  "fastlz2_compress = FASTLZ_COMPRESSOR 2"

definition fastlz_compress :: "byte list \<Rightarrow> int \<Rightarrow> byte list \<Rightarrow> (int \<times> byte list) run" where
  "fastlz_compress inp length' out =
     (if length' < 65536 then fastlz1_compress inp length' out
      else fastlz2_compress inp length' out)"

definition fastlz_compress_level ::
    "int \<Rightarrow> byte list \<Rightarrow> int \<Rightarrow> byte list \<Rightarrow> (int \<times> byte list) run" where
  "fastlz_compress_level level inp length' out =
     (if level = 1 then fastlz1_compress inp length' out
      else if level = 2 then fastlz2_compress inp length' out
      else Done (0, out))"

section \<open>The decompressor\<close>

record unz =
  uz_ip :: nat
  uz_op :: nat
  uz_out :: "byte list"
  uz_ctrl :: u32
  uz_loop :: bool

text \<open>
  The ways to write at \<open>op\<close>: from the input, one byte again and again, and from the output itself.
  The last is done byte by byte, or, where \<open>FASTLZ_STRICT_ALIGN\<close> is not defined, by 16-bit words,
  four in a pass of its loop.
\<close>

definition uz_put :: "byte \<Rightarrow> unz \<Rightarrow> unz run" where
  "uz_put b s =
     rbind (array_set (uz_out s) (int (uz_op s)) b) (\<lambda>o'.
       Done (s\<lparr>uz_out := o', uz_op := uz_op s + 1\<rparr>))"

fun uz_copy_in :: "byte list \<Rightarrow> nat \<Rightarrow> unz \<Rightarrow> unz run" where
  "uz_copy_in inp 0 s = Done s"
| "uz_copy_in inp (Suc k) s =
     rbind (flz_get inp (uz_ip s)) (\<lambda>b.
     rbind (uz_put b s) (\<lambda>s. uz_copy_in inp k (s\<lparr>uz_ip := uz_ip s + 1\<rparr>)))"

fun uz_fill :: "nat \<Rightarrow> byte \<Rightarrow> unz \<Rightarrow> unz run" where
  "uz_fill 0 b s = Done s"
| "uz_fill (Suc k) b s = rbind (uz_put b s) (uz_fill k b)"

text \<open>
  A byte of the output at \<open>p\<close>: only what is in front of \<open>op\<close> has been written, the rest of the buffer
  is memory that is not initialised.
\<close>

definition uz_get :: "nat \<Rightarrow> unz \<Rightarrow> byte run" where
  "uz_get p s = array_get (length (uz_out s)) (take (uz_op s) (uz_out s)) p"

fun uz_copy8 :: "nat \<Rightarrow> nat \<Rightarrow> unz \<Rightarrow> unz run" where
  "uz_copy8 0 ref s = Done s"
| "uz_copy8 (Suc k) ref s =
     rbind (uz_get ref s) (\<lambda>b. rbind (uz_put b s) (uz_copy8 k (ref + 1)))"

fun uz_copy16 :: "nat \<Rightarrow> nat \<Rightarrow> unz \<Rightarrow> unz run" where
  "uz_copy16 0 p s = Done s"
| "uz_copy16 (Suc k) p s =
     rbind (uz_get p s) (\<lambda>a.
     rbind (uz_get (p + 1) s) (\<lambda>b.
     rbind (uz_put a s) (\<lambda>s. rbind (uz_put b s) (uz_copy16 k (p + 2)))))"

fun uz_copy64 :: "nat \<Rightarrow> nat \<Rightarrow> unz \<Rightarrow> unz run" where
  "uz_copy64 len p s =
     (if len > 4 then rbind (uz_copy16 4 p s) (uz_copy64 (len - 4) (p + 8)) else uz_copy16 len p s)"

declare uz_copy64.simps [simp del]

definition uz_copy_ref :: "bool \<Rightarrow> nat \<Rightarrow> nat \<Rightarrow> unz \<Rightarrow> unz run" where
  "uz_copy_ref strict len ref s =
     rbind (uz_copy8 3 ref s) (\<lambda>s.
     if strict then uz_copy8 len (ref + 3) s
     else if odd len
     then rbind (uz_copy8 1 (ref + 3) s) (uz_copy64 ((len - 1) div 2) (ref + 4))
     else uz_copy64 (len div 2) (ref + 3) s)"

text \<open>The bytes of a match, from \<open>ref - 1\<close> on: an address in front of the output is out of bounds.\<close>

definition uz_copy :: "bool \<Rightarrow> nat \<Rightarrow> int \<Rightarrow> unz \<Rightarrow> unz run" where
  "uz_copy strict len ref s =
     (if ref - 1 < 0 then Crash Out_of_bounds
      else if ref = int (uz_op s)
      then rbind (uz_get (nat (ref - 1)) s) (\<lambda>b. uz_fill (3 + len) b s)
      else uz_copy_ref strict len (nat (ref - 1)) s)"

text \<open>The operands of a match: its length, where it comes from, and where the input goes on.\<close>

function uz_len2 :: "byte list \<Rightarrow> u32 \<Rightarrow> nat \<Rightarrow> (u32 \<times> nat) run" where
  "uz_len2 inp len ip =
     rbind (flz_get inp ip) (\<lambda>code.
     if code = 255 then uz_len2 inp (len + ucast code) (ip + 1)
     else Done (len + ucast code, ip + 1))"
  by pat_completeness auto
termination
  by (relation "measure (\<lambda>(inp, _, ip). length inp - ip)") (auto simp: flz_get_def)

declare uz_len2.simps [simp del]

definition uz_operands1 :: "byte list \<Rightarrow> unz \<Rightarrow> (u32 \<times> int \<times> nat) run" where
  "uz_operands1 inp s =
     (let len = drop_bit 5 (uz_ctrl s) - 1; ofs = push_bit 8 (uz_ctrl s AND 31);
          ref = int (uz_op s) - int (unat ofs) in
      rbind (if len = 7 - 1
             then rbind (flz_get inp (uz_ip s)) (\<lambda>b. Done (len + ucast b, uz_ip s + 1))
             else Done (len, uz_ip s)) (\<lambda>(len, ip).
      rbind (flz_get inp ip) (\<lambda>b. Done (len, ref - int (unat b), ip + 1))))"

definition uz_operands2 :: "byte list \<Rightarrow> unz \<Rightarrow> (u32 \<times> int \<times> nat) run" where
  "uz_operands2 inp s =
     (let len = drop_bit 5 (uz_ctrl s) - 1; ofs = push_bit 8 (uz_ctrl s AND 31);
          ref = int (uz_op s) - int (unat ofs) in
      rbind (if len = 7 - 1 then uz_len2 inp len (uz_ip s) else Done (len, uz_ip s)) (\<lambda>(len, ip).
      rbind (flz_get inp ip) (\<lambda>code.
      if code = 255 \<and> ofs = push_bit 8 31
      then rbind (flz_get inp (ip + 1)) (\<lambda>a.
           rbind (flz_get inp (ip + 2)) (\<lambda>b.
           let ofs = push_bit 8 (ucast a) + ucast b :: u32 in
             Done (len, int (uz_op s) - int (unat ofs) - int (MAX_DISTANCE 2), ip + 3)))
      else Done (len, ref - int (unat code), ip + 1))))"

text \<open>
  One pass of the loop; \<open>Inl\<close> is the \<open>return 0\<close> of a check that fails, with what has been written
  by then.
\<close>

definition uz_match ::
    "bool \<Rightarrow> nat \<Rightarrow> byte list \<Rightarrow> int \<Rightarrow> int \<Rightarrow> unz \<Rightarrow> (byte list + unz) run" where
  "uz_match strict lv inp ip_limit op_limit s =
     rbind (if lv = 1 then uz_operands1 inp s else uz_operands2 inp s) (\<lambda>(len, ref, ip).
     if int (uz_op s) + int (unat len) + 3 > op_limit then Done (Inl (uz_out s))
     else if ref - 1 < 0 then Done (Inl (uz_out s))
     else
       rbind (if int ip < ip_limit
              then rbind (flz_get inp ip) (\<lambda>b.
                     Done (s\<lparr>uz_ctrl := ucast b, uz_ip := ip + 1\<rparr>))
              else Done (s\<lparr>uz_ip := ip, uz_loop := False\<rparr>)) (\<lambda>s.
       rbind (uz_copy strict (unat len) ref s) (\<lambda>s. Done (Inr s))))"

definition uz_literals :: "byte list \<Rightarrow> int \<Rightarrow> int \<Rightarrow> unz \<Rightarrow> (byte list + unz) run" where
  "uz_literals inp ip_limit op_limit s =
     (let ctrl = unat (uz_ctrl s + 1) in
      if int (uz_op s) + int ctrl > op_limit then Done (Inl (uz_out s))
      else if int (uz_ip s) + int ctrl > ip_limit then Done (Inl (uz_out s))
      else
        rbind (uz_copy_in inp ctrl s) (\<lambda>s.
        if int (uz_ip s) < ip_limit
        then rbind (flz_get inp (uz_ip s)) (\<lambda>b.
               Done (Inr (s\<lparr>uz_loop := True, uz_ctrl := ucast b, uz_ip := uz_ip s + 1\<rparr>)))
        else Done (Inr (s\<lparr>uz_loop := False\<rparr>))))"

definition uz_step ::
    "bool \<Rightarrow> nat \<Rightarrow> byte list \<Rightarrow> int \<Rightarrow> int \<Rightarrow> unz \<Rightarrow> (byte list + unz) run" where
  "uz_step strict lv inp ip_limit op_limit s =
     (if uz_ctrl s \<ge> 32 then uz_match strict lv inp ip_limit op_limit s
      else uz_literals inp ip_limit op_limit s)"

fun uz_loops ::
    "nat \<Rightarrow> bool \<Rightarrow> nat \<Rightarrow> byte list \<Rightarrow> int \<Rightarrow> int \<Rightarrow> unz \<Rightarrow> (int \<times> byte list) run" where
  "uz_loops 0 strict lv inp ip_limit op_limit s = Crash No_return"
| "uz_loops (Suc k) strict lv inp ip_limit op_limit s =
     rbind (uz_step strict lv inp ip_limit op_limit s) (\<lambda>r.
     case r of Inl o' \<Rightarrow> Done (0, o')
     | Inr s \<Rightarrow> if uz_loop s then uz_loops k strict lv inp ip_limit op_limit s
                else Done (int (uz_op s), uz_out s))"

definition FASTLZ_DECOMPRESSOR ::
    "bool \<Rightarrow> nat \<Rightarrow> byte list \<Rightarrow> int \<Rightarrow> byte list \<Rightarrow> int \<Rightarrow> (int \<times> byte list) run" where
  "FASTLZ_DECOMPRESSOR strict lv inp length' out maxout =
     rbind (flz_get inp 0) (\<lambda>b.
       uz_loops (Suc (nat length')) strict lv inp length' maxout
         \<lparr>uz_ip = 1, uz_op = 0, uz_out = out, uz_ctrl = ucast b AND 31, uz_loop = True\<rparr>)"

definition fastlz_decompress ::
    "bool \<Rightarrow> byte list \<Rightarrow> int \<Rightarrow> byte list \<Rightarrow> int \<Rightarrow> (int \<times> byte list) run" where
  "fastlz_decompress strict inp length' out maxout =
     rbind (flz_get inp 0) (\<lambda>b.
     let level = unat (drop_bit 5 b) + 1 in
     if level = 1 then FASTLZ_DECOMPRESSOR strict 1 inp length' out maxout
     else if level = 2 then FASTLZ_DECOMPRESSOR strict 2 inp length' out maxout
     else Done (0, out))"

end
