(* ===== verification/Fst_Fastlz_Tokens.thy ===== *)
theory Fst_Fastlz_Tokens
  imports Fst_Fastlz
begin

text \<open>
  What the compressed data of FastLZ means: a sequence of tokens, each a run of literals or a match
  in what has been produced so far. The decompressor is shown to expand the tokens that its input
  encodes, on every build of the copying loop, and to keep to its buffers on every other input.
\<close>

section \<open>Tokens\<close>

datatype lz_token = Literals "byte list" | Match nat nat

text \<open>\<open>lz_copy l d acc\<close> appends \<open>l\<close> bytes, each the one that stands \<open>d\<close> places before its own.\<close>

fun lz_copy :: "nat \<Rightarrow> nat \<Rightarrow> byte list \<Rightarrow> byte list" where
  "lz_copy 0 d acc = acc"
| "lz_copy (Suc l) d acc = lz_copy l d (acc @ [acc ! (length acc - d)])"

fun lz_apply :: "byte list \<Rightarrow> lz_token \<Rightarrow> byte list" where
  "lz_apply acc (Literals bs) = acc @ bs"
| "lz_apply acc (Match d l) = lz_copy l d acc"

definition lz_expand :: "lz_token list \<Rightarrow> byte list" where
  "lz_expand ts = foldl lz_apply [] ts"

text \<open>What the format of a level can express after \<open>acc\<close> has been produced.\<close>

fun lz_fits :: "nat \<Rightarrow> byte list \<Rightarrow> lz_token \<Rightarrow> bool" where
  "lz_fits lv acc (Literals bs) \<longleftrightarrow> bs \<noteq> [] \<and> length bs \<le> 32"
| "lz_fits lv acc (Match d l) \<longleftrightarrow>
     1 \<le> d \<and> d \<le> length acc \<and> 3 \<le> l \<and> l < 2 ^ 31 \<and>
     (if lv = 1 then d \<le> 8192 \<and> l \<le> 264 else d \<le> 8191 + 65536)"

fun lz_all_fit :: "nat \<Rightarrow> byte list \<Rightarrow> lz_token list \<Rightarrow> bool" where
  "lz_all_fit lv acc [] \<longleftrightarrow> True"
| "lz_all_fit lv acc (t # ts) \<longleftrightarrow> lz_fits lv acc t \<and> lz_all_fit lv (lz_apply acc t) ts"

text \<open>The extension of a length by bytes 255 and a last one.\<close>

fun lz_more :: "nat \<Rightarrow> byte list" where
  "lz_more n = (if n \<ge> 255 then 255 # lz_more (n - 255) else [word_of_nat n])"

declare lz_more.simps [simp del]

fun lz_encode :: "nat \<Rightarrow> lz_token \<Rightarrow> byte list" where
  "lz_encode lv (Literals bs) = word_of_nat (length bs - 1) # bs"
| "lz_encode lv (Match d l) =
     (let e = d - 1; n = l - 2 in
      if lv = 1
      then if n < 7 then [word_of_nat (n * 32 + e div 256), word_of_nat (e mod 256)]
           else [word_of_nat (7 * 32 + e div 256), word_of_nat (n - 7), word_of_nat (e mod 256)]
      else if e < 8191
      then if n < 7 then [word_of_nat (n * 32 + e div 256), word_of_nat (e mod 256)]
           else word_of_nat (7 * 32 + e div 256) # lz_more (n - 7) @ [word_of_nat (e mod 256)]
      else let e = e - 8191 in
           (if n < 7 then [word_of_nat (n * 32 + 31)]
            else word_of_nat (7 * 32 + 31) # lz_more (n - 7)) @
           [255, word_of_nat (e div 256), word_of_nat (e mod 256)])"

lemma lz_encode_nonempty [simp]: "lz_encode lv t \<noteq> []"
  by (cases t) (simp_all add: Let_def)

lemma length_lz_copy [simp]: "length (lz_copy l d acc) = length acc + l"
  by (induction l arbitrary: acc) simp_all

lemma lz_copy_add: "lz_copy (a + b) d acc = lz_copy b d (lz_copy a d acc)"
  by (induction a arbitrary: acc) simp_all

lemma take_lz_copy: "take (length acc) (lz_copy l d acc) = acc"
proof (induction l arbitrary: acc)
  case (Suc l)
  have "take (length acc) (take (length (acc @ [acc ! (length acc - d)]))
          (lz_copy l d (acc @ [acc ! (length acc - d)]))) = acc"
    by (subst Suc.IH) simp
  then show ?case by (simp add: min_def)
qed simp

lemma lz_all_fit_append:
  "lz_all_fit lv acc (ts @ us) \<longleftrightarrow> lz_all_fit lv acc ts \<and> lz_all_fit lv (foldl lz_apply acc ts) us"
  by (induction ts arbitrary: acc) simp_all

lemma lz_expand_snoc [simp]: "lz_expand (ts @ [t]) = lz_apply (lz_expand ts) t"
  by (simp add: lz_expand_def)

lemma lz_expand_Nil [simp]: "lz_expand [] = []"
  by (simp add: lz_expand_def)

section \<open>Reading and writing the buffers\<close>

lemma flz_get_nth [simp]: "p < length buf \<Longrightarrow> flz_get buf p = Done (buf ! p)"
  by (simp add: flz_get_def)

lemma flz_get_end: "\<not> p < length buf \<Longrightarrow> flz_get buf p = Crash Out_of_bounds"
  by (simp add: flz_get_def array_get_def)

text \<open>What is left of the first \<open>n\<close> bytes of the input behind \<open>p\<close>.\<close>

definition left_at :: "byte list \<Rightarrow> nat \<Rightarrow> nat \<Rightarrow> byte list" where
  "left_at inp n p = drop p (take n inp)"

lemma left_at_Cons:
  assumes "left_at inp n p = b # r"
  shows "flz_get inp p = Done b" and "left_at inp n (Suc p) = r" and "p < n" and "p < length inp"
proof -
  have p: "p < length (take n inp)"
    using assms by (metis drop_all left_at_def list.distinct(1) not_le)
  then show "p < n" and l: "p < length inp"
    by simp_all
  have "take n inp ! p # drop (Suc p) (take n inp) = b # r"
    using assms p by (metis Cons_nth_drop_Suc left_at_def)
  then have e: "take n inp ! p = b" "drop (Suc p) (take n inp) = r"
    by (simp_all only: list.inject)
  show "flz_get inp p = Done b"
    using e(1) l p by simp
  show "left_at inp n (Suc p) = r"
    using e(2) by (simp add: left_at_def)
qed

lemma left_at_append: "left_at inp n p = xs @ r \<Longrightarrow> left_at inp n (p + length xs) = r"
  unfolding left_at_def by (metis add.commute append_eq_conv_conj drop_drop)

lemma left_at_Nil: "left_at inp n p = [] \<Longrightarrow> n \<le> length inp \<Longrightarrow> n \<le> p"
  by (simp add: left_at_def)

definition uz_at :: "byte list \<Rightarrow> byte list \<Rightarrow> nat \<Rightarrow> u32 \<Rightarrow> bool \<Rightarrow> unz" where
  "uz_at out acc ip ctrl loop =
     \<lparr>uz_ip = ip, uz_op = length acc, uz_out = acc @ drop (length acc) out,
      uz_ctrl = ctrl, uz_loop = loop\<rparr>"

lemma uz_at_simps [simp]:
  "uz_ip (uz_at out acc ip ctrl loop) = ip" "uz_op (uz_at out acc ip ctrl loop) = length acc"
  "uz_out (uz_at out acc ip ctrl loop) = acc @ drop (length acc) out"
  "uz_ctrl (uz_at out acc ip ctrl loop) = ctrl" "uz_loop (uz_at out acc ip ctrl loop) = loop"
  "uz_at out acc ip ctrl loop\<lparr>uz_ip := ip'\<rparr> = uz_at out acc ip' ctrl loop"
  "uz_at out acc ip ctrl loop\<lparr>uz_ctrl := c', uz_ip := ip'\<rparr> = uz_at out acc ip' c' loop"
  "uz_at out acc ip ctrl loop\<lparr>uz_ip := ip', uz_loop := l'\<rparr> = uz_at out acc ip' ctrl l'"
  "uz_at out acc ip ctrl loop\<lparr>uz_loop := l', uz_ctrl := c', uz_ip := ip'\<rparr> = uz_at out acc ip' c' l'"
  "uz_at out acc ip ctrl loop\<lparr>uz_loop := l'\<rparr> = uz_at out acc ip ctrl l'"
  by (simp_all add: uz_at_def)

lemma uz_put_at [simp]:
  "length acc < length out \<Longrightarrow>
   uz_put b (uz_at out acc ip ctrl loop) = Done (uz_at out (acc @ [b]) ip ctrl loop)"
  by (simp add: uz_put_def uz_at_def list_update_append array_set_def)
     (metis Cons_nth_drop_Suc list_update_code(2))

lemma uz_get_at [simp]: "p < length acc \<Longrightarrow> uz_get p (uz_at out acc ip ctrl loop) = Done (acc ! p)"
  by (simp add: uz_get_def)

lemma uz_copy_in_at:
  "left_at inp n ip = bs @ r \<Longrightarrow> length acc + length bs \<le> length out \<Longrightarrow>
   uz_copy_in inp (length bs) (uz_at out acc ip ctrl loop) =
     Done (uz_at out (acc @ bs) (ip + length bs) ctrl loop)"
proof (induction bs arbitrary: acc ip)
  case (Cons b bs)
  note c = left_at_Cons [OF Cons.prems(1) [unfolded append_Cons]]
  show ?case
    using Cons.IH [of "Suc ip" "acc @ [b]"] Cons.prems(2) c(1,2) by simp
qed simp

lemma uz_fill_at:
  "0 < length acc \<Longrightarrow> b = last acc \<Longrightarrow> length acc + k \<le> length out \<Longrightarrow>
   uz_fill k b (uz_at out acc ip ctrl loop) = Done (uz_at out (lz_copy k 1 acc) ip ctrl loop)"
proof (induction k arbitrary: acc)
  case (Suc k)
  then show ?case
    using Suc.IH [of "acc @ [b]"] by (simp add: last_conv_nth)
qed simp

lemma uz_copy8_at:
  "ref < length acc \<Longrightarrow> length acc + k \<le> length out \<Longrightarrow>
   uz_copy8 k ref (uz_at out acc ip ctrl loop) =
     Done (uz_at out (lz_copy k (length acc - ref) acc) ip ctrl loop)"
proof (induction k arbitrary: acc ref)
  case (Suc k)
  then show ?case
    using Suc.IH [of "Suc ref" "acc @ [acc ! ref]"] by (simp add: nth_append)
qed simp

lemma uz_copy16_at:
  "ref + 1 < length acc \<Longrightarrow> length acc + 2 * k \<le> length out \<Longrightarrow>
   uz_copy16 k ref (uz_at out acc ip ctrl loop) =
     Done (uz_at out (lz_copy (2 * k) (length acc - ref) acc) ip ctrl loop)"
proof (induction k arbitrary: acc ref)
  case (Suc k)
  have "(acc @ [acc ! ref]) ! (length acc + 1 - (length acc - ref)) = acc ! (ref + 1)"
    using Suc.prems by (simp add: nth_append)
  then show ?case
    using Suc.IH [of "ref + 2" "acc @ [acc ! ref, acc ! (ref + 1)]"] Suc.prems
    by (simp add: nth_append)
qed simp

lemma uz_copy64_at:
  "ref + 1 < length acc \<Longrightarrow> length acc + 2 * k \<le> length out \<Longrightarrow>
   uz_copy64 k ref (uz_at out acc ip ctrl loop) =
     Done (uz_at out (lz_copy (2 * k) (length acc - ref) acc) ip ctrl loop)"
proof (induction k arbitrary: acc ref rule: less_induct)
  case (less k)
  show ?case
  proof (cases "k > 4")
    case True
    define d where "d = length acc - ref"
    have "uz_copy64 (k - 4) (ref + 8) (uz_at out (lz_copy 8 d acc) ip ctrl loop) =
          Done (uz_at out (lz_copy (2 * (k - 4)) d (lz_copy 8 d acc)) ip ctrl loop)"
      using less.IH [of "k - 4" "ref + 8" "lz_copy 8 d acc"] less.prems True by (simp add: d_def)
    moreover have "lz_copy (2 * (k - 4)) d (lz_copy 8 d acc) = lz_copy (2 * k) d acc"
      unfolding lz_copy_add [symmetric] by (rule arg_cong [where f = "\<lambda>m. lz_copy m d acc"])
        (use True in simp)
    ultimately show ?thesis
      using True less.prems by (subst uz_copy64.simps) (simp add: uz_copy16_at d_def)
  next
    case False
    then show ?thesis
      using less.prems by (subst uz_copy64.simps) (simp add: uz_copy16_at)
  qed
qed

text \<open>The builds of the copying loop agree, since a match that is no run is two bytes away or more.\<close>

lemma uz_copy_ref_at:
  assumes "ref + 1 < length acc" and "length acc + len + 3 \<le> length out"
  shows "uz_copy_ref strict len ref (uz_at out acc ip ctrl loop) =
    Done (uz_at out (lz_copy (len + 3) (length acc - ref) acc) ip ctrl loop)"
proof -
  define d where "d = length acc - ref"
  define acc3 where "acc3 = lz_copy 3 d acc"
  have d: "length acc3 - (ref + 3) = d" "ref + 3 + 1 < length acc3"
      "length acc3 + len \<le> length out"
    using assms by (simp_all add: acc3_def d_def)
  have sum: "lz_copy len d acc3 = lz_copy (len + 3) d acc"
    using lz_copy_add [of 3 len d acc] by (simp add: acc3_def add.commute)
  have three: "uz_copy8 3 ref (uz_at out acc ip ctrl loop) = Done (uz_at out acc3 ip ctrl loop)"
    using uz_copy8_at [of ref acc 3 out] assms by (simp add: acc3_def d_def)
  have eight: "uz_copy8 k (ref + 3) (uz_at out acc3 ip ctrl loop) =
      Done (uz_at out (lz_copy k d acc3) ip ctrl loop)" if "k \<le> len" for k
    using uz_copy8_at [of "ref + 3" acc3 k out] d that by simp
  have odd: "uz_copy64 ((len - 1) div 2) (ref + 4) (uz_at out (lz_copy 1 d acc3) ip ctrl loop) =
      Done (uz_at out (lz_copy len d acc3) ip ctrl loop)" if "odd len"
  proof -
    have "lz_copy (2 * ((len - 1) div 2)) d (lz_copy 1 d acc3) = lz_copy len d acc3"
      using that lz_copy_add [of 1 "2 * ((len - 1) div 2)" d acc3] by (elim oddE) simp
    then show ?thesis
      using uz_copy64_at [of "ref + 4" "lz_copy 1 d acc3" "(len - 1) div 2" out] d that
      by (elim oddE) (simp add: add.commute)
  qed
  have even: "uz_copy64 (len div 2) (ref + 3) (uz_at out acc3 ip ctrl loop) =
      Done (uz_at out (lz_copy len d acc3) ip ctrl loop)" if "even len"
    using uz_copy64_at [of "ref + 3" acc3 "len div 2" out] d that by (elim evenE) simp
  have pos: "1 \<le> len" if "odd len"
    using odd_pos [OF that] by simp
  show ?thesis
    using eight [of 1] eight [of len] odd even pos
    by (simp add: uz_copy_ref_def three sum [symmetric] d_def [symmetric]
        del: uz_copy8.simps lz_copy.simps One_nat_def)
qed

end
