(* ===== verification/Fst_Fastlz_Encode.thy ===== *)
theory Fst_Fastlz_Encode
  imports Fst_Fastlz_Tokens
begin

text \<open>
  The compressor: what it has written at the head of its loop is the encoding of tokens that expand
  to the input it has consumed, but for the literals of the open run, and never more than one byte
  for the run and 33 bytes for 32 bytes of input (\<open>fz_inv\<close>).
\<close>

section \<open>Matches in the input\<close>

text \<open>\<open>repeats inp d i j\<close>: from \<open>i\<close> up to \<open>j\<close>, each byte is the one \<open>d\<close> places before.\<close>

definition repeats :: "byte list \<Rightarrow> nat \<Rightarrow> nat \<Rightarrow> nat \<Rightarrow> bool" where
  "repeats inp d i j \<longleftrightarrow> (\<forall>k. i \<le> k \<longrightarrow> k < j \<longrightarrow> inp ! k = inp ! (k - d))"

lemma repeats_join: "repeats inp d i j \<Longrightarrow> repeats inp d j k \<Longrightarrow> repeats inp d i k"
  unfolding repeats_def by (meson not_le)

lemma repeats_empty: "j \<le> i \<Longrightarrow> repeats inp d i j"
  by (simp add: repeats_def)

lemma repeats_first: "repeats inp d (Suc i) j \<Longrightarrow> inp ! i = inp ! (i - d) \<Longrightarrow> repeats inp d i j"
  unfolding repeats_def by (metis Suc_leI le_neq_implies_less)

lemma lz_copy_repeats:
  assumes "repeats inp d a (a + m)" and "1 \<le> d" and "d \<le> a" and "a + m \<le> length inp"
  shows "lz_copy m d (take a inp) = take (a + m) inp"
  using assms
proof (induction m arbitrary: a)
  case (Suc m)
  have "take a inp ! (a - d) = inp ! a"
    using Suc.prems by (simp add: repeats_def)
  then have "take a inp @ [take a inp ! (length (take a inp) - d)] = take (Suc a) inp"
    using Suc.prems(4) by (simp add: min_def take_Suc_conv_app_nth)
  moreover have "repeats inp d (Suc a) (Suc a + m)"
    using Suc.prems(1) by (simp add: repeats_def)
  ultimately show ?case
    using Suc.IH [of "Suc a"] Suc.prems by simp
qed simp

lemma flz_same_spec:
  "ref + n \<le> length inp \<Longrightarrow> ip + n \<le> length inp \<Longrightarrow> ref < ip \<Longrightarrow>
   runs_to (flz_same inp n ref ip) (\<lambda>b. b \<longrightarrow> repeats inp (ip - ref) ip (ip + n))"
proof (induction n arbitrary: ref ip)
  case 0
  then show ?case by (simp add: repeats_empty)
next
  case (Suc n)
  show ?case
  proof (cases "inp ! ref = inp ! ip")
    case True
    with Suc.prems have "inp ! ip = inp ! (ip - (ip - ref))"
      by simp
    then have "repeats inp (ip - ref) ip (ip + Suc n)"
      if "repeats inp (ip - ref) (Suc ip) (Suc ip + n)"
      using repeats_first [of inp "ip - ref" ip "ip + Suc n"] that by simp
    then show ?thesis
      using Suc.IH [of "ref + 1" "ip + 1"] Suc.prems True by (auto elim!: runs_to_mono)
  next
    case False
    then show ?thesis
      using Suc.prems by simp
  qed
qed

text \<open>The end of a match, one behind what is known to repeat.\<close>

definition match_ends :: "byte list \<Rightarrow> nat \<Rightarrow> nat \<Rightarrow> nat \<Rightarrow> nat \<Rightarrow> bool" where
  "match_ends inp d ip stop ip' \<longleftrightarrow> ip \<le> ip' \<and> ip' \<le> stop \<and> repeats inp d ip (ip' - 1)"

lemma match_ends_step:
  assumes "match_ends inp d (Suc ip) stop ip'" and "inp ! ip = inp ! (ip - d)"
  shows "match_ends inp d ip stop ip'"
proof -
  have "repeats inp d ip (ip' - 1)"
    using assms repeats_first [of inp d ip "ip' - 1"] by (simp add: match_ends_def)
  then show ?thesis
    using assms(1) by (simp add: match_ends_def)
qed

lemma flz_match_end_spec:
  "ref < ip \<Longrightarrow> ip_bound \<le> length inp \<Longrightarrow>
   runs_to (flz_match_end inp ip_bound ref ip) (match_ends inp (ip - ref) ip (max ip_bound ip))"
proof (induction inp ip_bound ref ip rule: flz_match_end.induct)
  case (1 inp ip_bound ref ip)
  show ?case
  proof (cases "ip < ip_bound")
    case True
    show ?thesis
    proof (cases "inp ! ref = inp ! ip")
      case eq: True
      have "runs_to (flz_match_end inp ip_bound (ref + 1) (ip + 1))
              (match_ends inp (ip - ref) (Suc ip) (max ip_bound (Suc ip)))"
        using 1(1) [OF True, of "inp ! ref" "inp ! ip"] 1(2,3) True eq by simp
      then have "runs_to (flz_match_end inp ip_bound (ref + 1) (ip + 1))
              (match_ends inp (ip - ref) ip (max ip_bound ip))"
      proof (rule runs_to_mono)
        fix ip'
        assume m: "match_ends inp (ip - ref) (Suc ip) (max ip_bound (Suc ip)) ip'"
        have "max ip_bound (Suc ip) = max ip_bound ip"
          using True by simp
        then show "match_ends inp (ip - ref) ip (max ip_bound ip) ip'"
          using match_ends_step [OF m] 1(2) eq by simp
      qed
      then show ?thesis
        using True 1(2,3) eq by (subst flz_match_end.simps) simp
    next
      case False
      then show ?thesis
        using True 1(2,3)
        by (subst flz_match_end.simps) (simp add: match_ends_def repeats_empty max_def)
    qed
  next
    case False
    then show ?thesis
      by (subst flz_match_end.simps) (simp add: match_ends_def repeats_empty)
  qed
qed

lemma flz_unrolled_spec:
  "ref < ip \<Longrightarrow> ip_bound \<le> length inp \<Longrightarrow> ip + n \<le> length inp \<Longrightarrow>
   runs_to (flz_unrolled n inp ip_bound ref ip)
     (\<lambda>ip'. match_ends inp (ip - ref) ip (max ip_bound (ip + n)) ip' \<and> (0 < n \<longrightarrow> ip < ip'))"
proof (induction n arbitrary: ref ip)
  case 0
  then show ?case
    using flz_match_end_spec [of ref ip ip_bound inp] by simp
next
  case (Suc n)
  show ?case
  proof (cases "inp ! ref = inp ! ip")
    case eq: True
    have "runs_to (flz_unrolled n inp ip_bound (ref + 1) (ip + 1))
            (\<lambda>ip'. match_ends inp (ip - ref) (Suc ip) (max ip_bound (ip + Suc n)) ip')"
      using Suc.IH [of "ref + 1" "ip + 1"] Suc.prems by (auto elim!: runs_to_mono)
    then have "runs_to (flz_unrolled n inp ip_bound (ref + 1) (ip + 1))
            (\<lambda>ip'. match_ends inp (ip - ref) ip (max ip_bound (ip + Suc n)) ip' \<and> ip < ip')"
    proof (rule runs_to_mono)
      fix ip'
      assume m: "match_ends inp (ip - ref) (Suc ip) (max ip_bound (ip + Suc n)) ip'"
      show "match_ends inp (ip - ref) ip (max ip_bound (ip + Suc n)) ip' \<and> ip < ip'"
        using match_ends_step [OF m] m Suc.prems(1) eq by (simp add: match_ends_def)
    qed
    then show ?thesis
      using Suc.prems eq by simp
  next
    case False
    then show ?thesis
      using Suc.prems by (simp add: match_ends_def repeats_empty)
  qed
qed

lemma flz_run_end_reads:
  "1 \<le> ip \<Longrightarrow> ip_bound \<le> length inp \<Longrightarrow>
   runs_to (flz_run_end inp ip_bound x (ip - 1) ip)
     (\<lambda>ip'. ip \<le> ip' \<and> ip' \<le> max ip_bound ip \<and> (\<forall>k. ip - 1 \<le> k \<longrightarrow> k + 1 < ip' \<longrightarrow> inp ! k = x) \<and>
            (ip < ip_bound \<longrightarrow> inp ! (ip - 1) = x \<longrightarrow> ip < ip'))"
proof (induction "ip_bound - ip" arbitrary: ip)
  case 0
  then show ?case
    by (subst flz_run_end.simps) auto
next
  case (Suc m)
  then have lt: "ip < ip_bound" and len: "ip - 1 < length inp"
    by simp_all
  show ?case
  proof (cases "inp ! (ip - 1) = x")
    case True
    have "runs_to (flz_run_end inp ip_bound x (ip - 1 + 1) (ip + 1))
       (\<lambda>ip'. ip + 1 \<le> ip' \<and> ip' \<le> max ip_bound (ip + 1) \<and>
              (\<forall>k. ip \<le> k \<longrightarrow> k + 1 < ip' \<longrightarrow> inp ! k = x))"
    proof (rule runs_to_mono)
      show "runs_to (flz_run_end inp ip_bound x (ip - 1 + 1) (ip + 1))
        (\<lambda>ip'. ip + 1 \<le> ip' \<and> ip' \<le> max ip_bound (ip + 1) \<and>
          (\<forall>k. ip + 1 - 1 \<le> k \<longrightarrow> k + 1 < ip' \<longrightarrow> inp ! k = x) \<and>
          (ip + 1 < ip_bound \<longrightarrow> inp ! (ip + 1 - 1) = x \<longrightarrow> ip + 1 < ip'))"
        using Suc.hyps(1) [of "ip + 1"] Suc.hyps(2) Suc.prems by simp
    qed simp
    then have "runs_to (flz_run_end inp ip_bound x (ip - 1 + 1) (ip + 1))
       (\<lambda>ip'. ip \<le> ip' \<and> ip' \<le> max ip_bound ip \<and> ip < ip' \<and>
              (\<forall>k. ip - 1 \<le> k \<longrightarrow> k + 1 < ip' \<longrightarrow> inp ! k = x))"
    proof (rule runs_to_mono)
      fix ip'
      assume a: "ip + 1 \<le> ip' \<and> ip' \<le> max ip_bound (ip + 1) \<and>
                 (\<forall>k. ip \<le> k \<longrightarrow> k + 1 < ip' \<longrightarrow> inp ! k = x)"
      have "inp ! k = x" if "ip - 1 \<le> k" "k + 1 < ip'" for k
        using a True that by (cases "k = ip - 1") auto
      then show "ip \<le> ip' \<and> ip' \<le> max ip_bound ip \<and> ip < ip' \<and>
              (\<forall>k. ip - 1 \<le> k \<longrightarrow> k + 1 < ip' \<longrightarrow> inp ! k = x)"
        using a lt by auto
    qed
    then show ?thesis
      using lt len True by (subst flz_run_end.simps) (auto elim!: runs_to_mono)
  next
    case False
    then show ?thesis
      using lt len Suc.prems(1) by (subst flz_run_end.simps) auto
  qed
qed

lemma flz_run_end_spec:
  assumes "1 \<le> ip" and "ip < ip_bound" and "ip_bound \<le> length inp"
  shows "runs_to (flz_run_end inp ip_bound (inp ! (ip - 1)) (ip - 1) ip)
     (\<lambda>ip'. match_ends inp 1 ip ip_bound ip' \<and> ip < ip')"
proof (rule runs_to_mono [OF flz_run_end_reads [OF assms(1,3)]])
  fix ip'
  assume a: "ip \<le> ip' \<and> ip' \<le> max ip_bound ip \<and>
    (\<forall>k. ip - 1 \<le> k \<longrightarrow> k + 1 < ip' \<longrightarrow> inp ! k = inp ! (ip - 1)) \<and>
    (ip < ip_bound \<longrightarrow> inp ! (ip - 1) = inp ! (ip - 1) \<longrightarrow> ip < ip')"
  then have same: "inp ! k = inp ! (ip - 1)" if "ip - 1 \<le> k" "k + 1 < ip'" for k
    using that by blast
  have "inp ! k = inp ! (k - 1)" if k: "ip \<le> k" "k < ip' - 1" for k
  proof -
    have "ip - 1 \<le> k - 1" "k - 1 + 1 < ip'" "ip - 1 \<le> k" "k + 1 < ip'"
      using k assms(1) by linarith+
    then show ?thesis
      using same [of k] same [of "k - 1"] by simp
  qed
  then show "match_ends inp 1 ip ip_bound ip' \<and> ip < ip'"
    using conjunct1 [OF a] conjunct1 [OF conjunct2 [OF a]] conjunct2 [OF conjunct2 [OF conjunct2 [OF a]]]
      assms(2) by (simp add: match_ends_def repeats_def)
qed

section \<open>The state of the compressor\<close>

text \<open>
  \<open>fz_rep N acc ip tab copy s\<close>: of an output of \<open>N\<close> bytes, \<open>acc\<close> has been written.
\<close>

definition fz_rep :: "nat \<Rightarrow> byte list \<Rightarrow> nat \<Rightarrow> nat list \<Rightarrow> nat \<Rightarrow> flz \<Rightarrow> bool" where
  "fz_rep N acc ip tab copy s \<longleftrightarrow>
     fz_ip s = ip \<and> fz_op s = length acc \<and> length (fz_out s) = N \<and>
     take (length acc) (fz_out s) = acc \<and> fz_htab s = tab \<and> fz_copy s = copy"

lemma fz_repD:
  assumes "fz_rep N acc ip tab copy s"
  shows "fz_ip s = ip" "fz_op s = length acc" "length (fz_out s) = N"
    "take (length acc) (fz_out s) = acc" "fz_htab s = tab" "fz_copy s = copy" "length acc \<le> N"
proof -
  show "fz_ip s = ip" "fz_op s = length acc" "length (fz_out s) = N"
    "fz_htab s = tab" "fz_copy s = copy" and t: "take (length acc) (fz_out s) = acc"
    using assms by (simp_all add: fz_rep_def)
  show "length acc \<le> N"
    using arg_cong [OF t, of length] \<open>length (fz_out s) = N\<close> by simp
qed

lemma fz_rep_update [simp]:
  "fz_rep N acc ip tab copy s \<Longrightarrow> fz_rep N acc ip' tab copy (s\<lparr>fz_ip := ip'\<rparr>)"
  "fz_rep N acc ip tab copy s \<Longrightarrow> fz_rep N acc ip tab' copy (s\<lparr>fz_htab := tab'\<rparr>)"
  "fz_rep N acc ip tab copy s \<Longrightarrow> fz_rep N acc ip tab copy' (s\<lparr>fz_copy := copy'\<rparr>)"
  by (simp_all add: fz_rep_def)

lemma fz_put_rep:
  assumes "fz_rep N acc ip tab copy s" and "length acc < N"
  shows "runs_to (fz_put b s) (fz_rep N (acc @ [b]) ip tab copy)"
proof -
  note d = fz_repD [OF assms(1)]
  have "take (Suc (length acc)) ((fz_out s)[length acc := b]) = acc @ [b]"
    using d assms(2) by (simp add: take_Suc_conv_app_nth)
  then show ?thesis
    using d assms by (simp add: fz_put_def array_set_def fz_rep_def)
qed

lemma fz_puts_rep:
  "fz_rep N acc ip tab copy s \<Longrightarrow> length acc + length bs \<le> N \<Longrightarrow>
   runs_to (fz_puts bs s) (fz_rep N (acc @ bs) ip tab copy)"
proof (induction bs arbitrary: acc s)
  case (Cons b bs)
  have "runs_to (fz_put b s) (fz_rep N (acc @ [b]) ip tab copy)"
    using Cons.prems by (intro fz_put_rep) simp_all
  then show ?case
    unfolding fz_puts.simps runs_to_rbind
    by (rule runs_to_mono) (use Cons.IH [of "acc @ [b]"] Cons.prems(2) in simp)
qed simp

lemma fz_put_255s_rep:
  "fz_rep N acc ip tab copy s \<Longrightarrow> length acc + length (lz_more len) \<le> N \<Longrightarrow>
   runs_to (fz_put_255s len s)
     (\<lambda>(len', s'). runs_to (fz_put (word_of_nat len') s') (fz_rep N (acc @ lz_more len) ip tab copy))"
proof (induction len arbitrary: acc s rule: less_induct)
  case (less len)
  show ?case
  proof (cases "len \<ge> 255")
    case True
    then have m: "lz_more len = 255 # lz_more (len - 255)"
      by (subst lz_more.simps) simp
    have "runs_to (fz_put 255 s) (fz_rep N (acc @ [255]) ip tab copy)"
      using less.prems by (intro fz_put_rep) (simp_all add: m)
    then have "runs_to (rbind (fz_put 255 s) (fz_put_255s (len - 255)))
      (\<lambda>(len', s'). runs_to (fz_put (word_of_nat len') s') (fz_rep N (acc @ lz_more len) ip tab copy))"
      unfolding runs_to_rbind
    proof (rule runs_to_mono)
      fix s'
      assume s': "fz_rep N (acc @ [255]) ip tab copy s'"
      show "runs_to (fz_put_255s (len - 255) s')
        (\<lambda>(len', s'). runs_to (fz_put (word_of_nat len') s')
                        (fz_rep N (acc @ lz_more len) ip tab copy))"
        using less.IH [OF _ s'] True less.prems(2) by (simp add: m)
    qed
    then show ?thesis
      using True by (subst fz_put_255s.simps) simp
  next
    case False
    then have m: "lz_more len = [word_of_nat len]"
      by (subst lz_more.simps) simp
    show ?thesis
      using False less.prems fz_put_rep [of N acc ip tab copy s "word_of_nat len"]
      by (subst fz_put_255s.simps) (simp add: m)
  qed
qed

text \<open>The tokens of a match: at level 1, pieces of a length that one byte can hold.\<close>

fun lz_pieces :: "nat \<Rightarrow> nat \<Rightarrow> lz_token list" where
  "lz_pieces d l = (if l > 264 then Match d 262 # lz_pieces d (l - 262) else [Match d l])"

declare lz_pieces.simps [simp del]

definition lz_match :: "nat \<Rightarrow> nat \<Rightarrow> nat \<Rightarrow> lz_token list" where
  "lz_match lv d l = (if lv = 2 then [Match d l] else lz_pieces d l)"

lemma lz_pieces_fit:
  "1 \<le> d \<Longrightarrow> d \<le> length acc \<Longrightarrow> d \<le> 8192 \<Longrightarrow> 3 \<le> l \<Longrightarrow>
   lz_all_fit 1 acc (lz_pieces d l) \<and> foldl lz_apply acc (lz_pieces d l) = lz_copy l d acc"
proof (induction l arbitrary: acc rule: less_induct)
  case (less l)
  show ?case
  proof (cases "l > 264")
    case True
    then have "lz_copy (l - 262) d (lz_copy 262 d acc) = lz_copy l d acc"
      by (simp flip: lz_copy_add)
    then show ?thesis
      using less.IH [of "l - 262" "lz_copy 262 d acc"] less.prems True
      by (subst (1 2) lz_pieces.simps) simp
  next
    case False
    then show ?thesis
      using less.prems by (subst (1 2) lz_pieces.simps) simp
  qed
qed

lemma lz_match_fit:
  assumes "1 \<le> d" and "d \<le> length acc" and "3 \<le> l" and "l < 2 ^ 31" and "lv = 1 \<or> lv = 2"
    and "if lv = 1 then d \<le> 8192 else d \<le> 8191 + 65536"
  shows "lz_all_fit lv acc (lz_match lv d l)"
    and "foldl lz_apply acc (lz_match lv d l) = lz_copy l d acc"
  using assms lz_pieces_fit [of d acc l] by (auto simp: lz_match_def)

lemma lz_more_length: "length (lz_more k) \<le> k + 1"
proof (induction k rule: lz_more.induct)
  case (1 k)
  then show ?case
    by (subst lz_more.simps) (cases "255 \<le> k"; simp)
qed

text \<open>A match with the place for the next literals is no longer than what it stands for.\<close>

lemma lz_pieces_length: "3 \<le> l \<Longrightarrow> length (concat (map (lz_encode 1) (lz_pieces d l))) < l"
proof (induction l rule: less_induct)
  case (less l)
  show ?case
  proof (cases "l > 264")
    case True
    have "length (concat (map (lz_encode 1) (lz_pieces d (l - 262)))) < l - 262"
      using less.IH [of "l - 262"] True by simp
    then show ?thesis
      using True by (subst lz_pieces.simps) (simp add: Let_def)
  next
    case False
    then show ?thesis
      using less.prems by (subst lz_pieces.simps) (auto simp: Let_def)
  qed
qed

lemma lz_match_length:
  assumes "3 \<le> l" and "lv = 1 \<or> lv = 2" and "lv = 2 \<Longrightarrow> 8191 < d \<Longrightarrow> 5 \<le> l"
  shows "length (concat (map (lz_encode lv) (lz_match lv d l))) < l"
proof (cases "lv = 2")
  case True
  have "d - 1 < 8191 \<or> 5 \<le> l"
    using assms(3) True by (cases "8191 < d") auto
  then show ?thesis
    using True assms(1) lz_more_length [of "l - 2 - 7"] by (auto simp: lz_match_def Let_def)
next
  case False
  then show ?thesis
    using assms lz_pieces_length by (auto simp: lz_match_def)
qed

end
