(* ===== verification/Fst_Fastlz_Inv.thy ===== *)
theory Fst_Fastlz_Inv
  imports Fst_Fastlz_Encode
begin

text \<open>
  The passes of the compressor's loop keep \<open>fz_inv\<close>: the search for a match, the match and the
  literal.
\<close>

section \<open>Writing a match\<close>

lemma runs_to_puts_after:
  assumes "runs_to m (\<lambda>(len, s). runs_to (fz_put (word_of_nat len) s) (fz_rep N acc ip tab copy))"
    and "length acc + length bs \<le> N"
  shows "runs_to (rbind m (\<lambda>(len, s). fz_puts (word_of_nat len # bs) s))
           (fz_rep N (acc @ bs) ip tab copy)"
  unfolding runs_to_rbind
  by (rule runs_to_mono [OF assms(1)])
     (use assms(2) in \<open>auto simp: runs_to_rbind elim!: runs_to_mono intro: fz_puts_rep\<close>)

lemma fz_put_then:
  assumes "fz_rep N acc ip tab copy s" and "length acc < N"
    and "\<And>s. fz_rep N (acc @ [b]) ip tab copy s \<Longrightarrow> runs_to (f s) Q"
  shows "runs_to (rbind (fz_put b s) f) Q"
  unfolding runs_to_rbind by (rule runs_to_mono [OF fz_put_rep [OF assms(1,2)] assms(3)])

lemma fz_encode2_rep:
  assumes s: "fz_rep N acc ip tab copy s"
    and room: "length acc + length (lz_encode 2 (Match d l)) \<le> N"
  shows "runs_to (fz_encode2 (d - 1) (l - 2) s)
           (fz_rep N (acc @ lz_encode 2 (Match d l)) ip tab copy)"
proof -
  have long: "runs_to (rbind (fz_put b s) (\<lambda>s. rbind (fz_put_255s (l - 2 - 7) s)
                 (\<lambda>(len, s). fz_puts (word_of_nat len # bs) s)))
               (fz_rep N (acc @ b # lz_more (l - 2 - 7) @ bs) ip tab copy)"
    if "length acc + length (b # lz_more (l - 2 - 7) @ bs) \<le> N" for b bs
  proof (rule fz_put_then [OF s])
    fix s'
    assume "fz_rep N (acc @ [b]) ip tab copy s'"
    from fz_put_255s_rep [OF this, of "l - 2 - 7"] that
    have "runs_to (rbind (fz_put_255s (l - 2 - 7) s')
                 (\<lambda>(len, s). fz_puts (word_of_nat len # bs) s))
            (fz_rep N (((acc @ [b]) @ lz_more (l - 2 - 7)) @ bs) ip tab copy)"
      by (intro runs_to_puts_after) simp_all
    then show "runs_to (rbind (fz_put_255s (l - 2 - 7) s')
                 (\<lambda>(len, s). fz_puts (word_of_nat len # bs) s))
            (fz_rep N (acc @ b # lz_more (l - 2 - 7) @ bs) ip tab copy)"
      by simp
  qed (use that in simp)
  have short: "runs_to (fz_puts bs s) (fz_rep N (acc @ bs) ip tab copy)"
    if "length acc + length bs \<le> N" for bs
    using fz_puts_rep [OF s that] .
  have dist: "MAX_DISTANCE 2 = 8191"
    by (simp add: MAX_DISTANCE_def)
  show ?thesis
  proof (cases "d - 1 < 8191"; cases "l - 2 < 7")
    assume *: "d - 1 < 8191" "l - 2 < 7"
    then have e: "lz_encode 2 (Match d l) =
        [word_of_nat ((l - 2) * 32 + (d - 1) div 256), word_of_nat ((d - 1) mod 256)]"
      by (simp add: Let_def)
    show ?thesis
      using short room unfolding e fz_encode2_def dist if_P [OF *(1)] if_P [OF *(2)] by blast
  next
    assume *: "d - 1 < 8191" "\<not> l - 2 < 7"
    then have e: "lz_encode 2 (Match d l) = word_of_nat (7 * 32 + (d - 1) div 256) #
        lz_more (l - 2 - 7) @ [word_of_nat ((d - 1) mod 256)]"
      by (simp add: Let_def)
    show ?thesis
      using long room unfolding e fz_encode2_def dist if_P [OF *(1)] if_not_P [OF *(2)] by blast
  next
    assume *: "\<not> d - 1 < 8191" "l - 2 < 7"
    then have e: "lz_encode 2 (Match d l) =
        [word_of_nat ((l - 2) * 32 + 31), 255, word_of_nat ((d - 1 - 8191) div 256),
         word_of_nat ((d - 1 - 8191) mod 256)]"
      by (simp add: Let_def)
    show ?thesis
      using short room
      unfolding e fz_encode2_def dist if_not_P [OF *(1)] if_P [OF *(2)] Let_def by blast
  next
    assume *: "\<not> d - 1 < 8191" "\<not> l - 2 < 7"
    then have e: "lz_encode 2 (Match d l) = word_of_nat (7 * 32 + 31) #
        lz_more (l - 2 - 7) @ [255, word_of_nat ((d - 1 - 8191) div 256),
         word_of_nat ((d - 1 - 8191) mod 256)]"
      by (simp add: Let_def)
    show ?thesis
      using long room
      unfolding e fz_encode2_def dist if_not_P [OF *(1)] if_not_P [OF *(2)] Let_def by blast
  qed
qed

lemma fz_put_pieces_rep:
  "fz_rep N acc ip tab copy s \<Longrightarrow> 3 \<le> l \<Longrightarrow>
   length acc + length (concat (map (lz_encode 1) (lz_pieces d l))) \<le> N \<Longrightarrow>
   runs_to (fz_encode1 (d - 1) (l - 2) s)
     (fz_rep N (acc @ concat (map (lz_encode 1) (lz_pieces d l))) ip tab copy)"
proof (induction l arbitrary: acc s rule: less_induct)
  case (less l)
  show ?case
  proof (cases "l > 264")
    case True
    let ?b = "[word_of_nat (7 * 32 + (d - 1) div 256), word_of_nat (MAX_LEN - 2 - 7 - 2),
               word_of_nat ((d - 1) mod 256)] :: byte list"
    have enc: "concat (map (lz_encode 1) (lz_pieces d l)) =
        ?b @ concat (map (lz_encode 1) (lz_pieces d (l - 262)))"
      using True by (subst lz_pieces.simps) (simp add: Let_def MAX_LEN_def)
    have unfold: "fz_encode1 (d - 1) (l - 2) s =
        rbind (fz_puts ?b s) (fz_encode1 (d - 1) (l - 262 - 2))"
    proof -
      have gt: "MAX_LEN - 2 < l - 2"
        unfolding MAX_LEN_def using True by linarith
      have "fz_put_pieces (d - 1) (l - 2) s =
          rbind (fz_puts ?b s) (fz_put_pieces (d - 1) (l - 262 - 2))"
        using gt by (subst fz_put_pieces.simps) (simp add: MAX_LEN_def)
      then show ?thesis
        by (simp only: fz_encode1_def [abs_def] rbind_assoc)
    qed
    have "runs_to (fz_puts ?b s) (fz_rep N (acc @ ?b) ip tab copy)"
      using fz_puts_rep [OF less.prems(1), of ?b] less.prems(3) enc by simp
    then show ?thesis
      unfolding unfold runs_to_rbind
    proof (rule runs_to_mono)
      fix s'
      assume s': "fz_rep N (acc @ ?b) ip tab copy s'"
      show "runs_to (fz_encode1 (d - 1) (l - 262 - 2) s')
          (fz_rep N (acc @ concat (map (lz_encode 1) (lz_pieces d l))) ip tab copy)"
        using less.IH [of "l - 262", OF _ s'] True less.prems(3) unfolding enc by simp
    qed
  next
    case False
    then have one: "lz_pieces d l = [Match d l]"
      by (subst lz_pieces.simps) simp
    have "fz_put_pieces (d - 1) (l - 2) s = Done (l - 2, s)"
    proof -
      have le: "\<not> MAX_LEN - 2 < l - 2"
        unfolding MAX_LEN_def using False by linarith
      show ?thesis
        by (subst fz_put_pieces.simps) (simp add: le)
    qed
    then show ?thesis
      using less.prems fz_puts_rep [OF less.prems(1), of "lz_encode 1 (Match d l)"]
      by (auto simp: fz_encode1_def one Let_def simp del: fz_puts.simps split: if_splits)
  qed
qed

lemma fz_encode_rep:
  assumes "fz_rep N acc ip tab copy s" and "3 \<le> l" and "lv = 1 \<or> lv = 2"
    and "length acc + length (concat (map (lz_encode lv) (lz_match lv d l))) \<le> N"
  shows "runs_to (if lv = 2 then fz_encode2 (d - 1) (l - 2) s else fz_encode1 (d - 1) (l - 2) s)
           (fz_rep N (acc @ concat (map (lz_encode lv) (lz_match lv d l))) ip tab copy)"
  using assms fz_encode2_rep [OF assms(1), of d l] fz_put_pieces_rep [OF assms(1), of l d]
  by (auto simp: lz_match_def simp del: lz_encode.simps)

text \<open>The literals of the open run, as a token when there are some.\<close>

definition lz_lits :: "byte list \<Rightarrow> lz_token list" where
  "lz_lits bs = (if bs = [] then [] else [Literals bs])"

lemma foldl_lz_lits [simp]: "foldl lz_apply acc (lz_lits bs) = acc @ bs"
  by (simp add: lz_lits_def)

lemma lz_lits_fit: "length bs \<le> 32 \<Longrightarrow> lz_all_fit lv acc (lz_lits bs)"
  by (simp add: lz_lits_def)

lemma fz_close_rep:
  assumes "fz_rep N (acc @ 31 # lits) ip tab (length lits) s"
  shows "runs_to (fz_close s)
           (fz_rep N (acc @ concat (map (lz_encode lv) (lz_lits lits))) ip tab (length lits))"
proof -
  note d = fz_repD [OF assms]
  have out: "fz_out s = acc @ 31 # lits @ drop (length (acc @ 31 # lits)) (fz_out s)"
    using append_take_drop_id [of "length (acc @ 31 # lits)" "fz_out s"] d(4)
    by (metis append_Cons append_assoc)
  show ?thesis
  proof (cases "lits = []")
    case True
    then have "take (length acc) (fz_out s) = acc"
      by (subst out) simp
    then show ?thesis
      using d True by (simp add: fz_close_def fz_rep_def lz_lits_def)
  next
    case False
    have idx: "int (fz_op s) - int (fz_copy s) - 1 = int (length acc)"
      using d by simp
    have set: "(fz_out s)[length acc := b] =
               (acc @ b # lits) @ drop (length (acc @ 31 # lits)) (fz_out s)" for b
      by (subst out) simp
    show ?thesis
      using d False idx set
      by (simp add: fz_close_def fz_rep_def lz_lits_def array_set_def set)
  qed
qed

section \<open>The hash table\<close>

lemma FASTLZ_READU16_in [simp]:
  "p + 1 < length inp \<Longrightarrow>
   FASTLZ_READU16 inp p = Done (ucast (inp ! p) OR push_bit 8 (ucast (inp ! (p + 1))))"
  by (simp add: FASTLZ_READU16_def)

lemma HASH_FUNCTION_in:
  assumes "p + 2 < length inp"
  shows "runs_to (HASH_FUNCTION inp p) (\<lambda>h. unat h < HASH_SIZE)"
proof -
  have "unat (x AND of_nat (HASH_SIZE - 1) :: u32) < HASH_SIZE" for x
  proof -
    have "x AND of_nat (HASH_SIZE - 1) \<le> (of_nat (HASH_SIZE - 1) :: u32)"
      by (rule word_and_le1)
    then show ?thesis
      by (simp add: word_le_nat_alt HASH_SIZE_def)
  qed
  then show ?thesis
    using assms by (simp add: HASH_FUNCTION_def)
qed

definition htab_ok :: "nat \<Rightarrow> nat list \<Rightarrow> bool" where
  "htab_ok ip tab \<longleftrightarrow> length tab = HASH_SIZE \<and> (\<forall>r \<in> set tab. r < ip)"

lemma htab_ok_update: "htab_ok ip tab \<Longrightarrow> htab_ok (ip + 1) (tab[h := ip])"
  using set_update_subset_insert [of tab h ip] by (auto simp: htab_ok_def less_Suc_eq)

lemma htab_ok_nth: "htab_ok ip tab \<Longrightarrow> h < HASH_SIZE \<Longrightarrow> tab ! h < ip"
  by (simp add: htab_ok_def)

lemma htab_ok_set:
  assumes "htab_ok ip tab" and "unat h < HASH_SIZE"
  shows "array_set tab (int (unat h)) x = Done (tab[unat h := x])"
proof -
  have "0 \<le> int (unat h) \<and> int (unat h) < int (length tab)"
    using assms unfolding htab_ok_def by (simp only: of_nat_less_iff of_nat_0_le_iff simp_thms)
  then show ?thesis
    unfolding array_set_def by (simp only: if_True nat_int simp_thms)
qed

lemma fz_rehash_rep:
  assumes "fz_rep N acc ip tab copy s" and "htab_ok ip tab" and "ip + 2 < length inp"
  shows "runs_to (fz_rehash inp s)
           (\<lambda>s'. \<exists>tab'. fz_rep N acc (ip + 1) tab' copy s' \<and> htab_ok (ip + 1) tab')"
proof -
  note d = fz_repD [OF assms(1)]
  show ?thesis
    unfolding fz_rehash_def d(1) runs_to_rbind
  proof (rule runs_to_mono [OF HASH_FUNCTION_in [OF assms(3)]])
    fix h :: u32
    assume h: "unat h < HASH_SIZE"
    have set: "array_set (fz_htab s) (int (unat h)) ip = Done (tab[unat h := ip])"
      using htab_ok_set [OF assms(2) h] d(5) by simp
    show "runs_to (array_set (fz_htab s) (int (unat h)) ip)
        (\<lambda>t. runs_to (Done (s\<lparr>fz_htab := t, fz_ip := ip + 1\<rparr>))
        (\<lambda>s'. \<exists>tab'. fz_rep N acc (ip + 1) tab' copy s' \<and> htab_ok (ip + 1) tab'))"
      unfolding set using assms(1) htab_ok_update [OF assms(2)] by (auto simp: d(1) fz_rep_def)
  qed
qed

lemma u16_inj:
  fixes a b c d :: byte
  assumes "(ucast a OR push_bit 8 (ucast b) :: u32) = ucast c OR push_bit 8 (ucast d)"
  shows "a = c" and "b = d"
proof -
  have e: "bit (ucast a OR push_bit 8 (ucast b) :: u32) n = bit (ucast c OR push_bit 8 (ucast d) :: u32) n"
    for n
    by (simp only: assms)
  show "a = c"
  proof (rule bit_word_eqI)
    fix n
    assume "n < LENGTH(8)"
    then show "bit a n = bit c n"
      using e [of n] by (simp add: bit_simps)
  qed
  show "b = d"
  proof (rule bit_word_eqI)
    fix n
    assume "n < LENGTH(8)"
    then show "bit b n = bit d n"
      using e [of "n + 8"] by (auto simp: bit_simps dest: bit_imp_le_length)
  qed
qed

lemma flz_is_run_spec:
  assumes "1 \<le> a" and "a + 2 < length inp"
  shows "runs_to (flz_is_run inp a) (\<lambda>b. b \<longrightarrow> repeats inp 1 a (a + 3))"
proof -
  have "repeats inp 1 a (a + 3)"
    if "inp ! a = inp ! (a - 1)"
      and eq: "(ucast (inp ! (a - 1)) OR push_bit 8 (ucast (inp ! a)) :: u32) =
        ucast (inp ! (a + 1)) OR push_bit 8 (ucast (inp ! (a + 2)))"
  proof -
    have "inp ! (a + 1) = inp ! a" "inp ! (a + 2) = inp ! (a + 1)"
      using u16_inj [OF eq] that(1) by simp_all
    moreover have "k = a \<or> k = a + 1 \<or> k = a + 2" if "a \<le> k" "k < a + 3" for k
      using that by linarith
    ultimately show ?thesis
      using \<open>inp ! a = inp ! (a - 1)\<close> unfolding repeats_def
      by (metis add_diff_cancel_right' add.assoc one_add_one)
  qed
  moreover have "a - 1 + 1 = a"
    using assms(1) by simp
  ultimately show ?thesis
    using assms by (simp add: flz_is_run_def add.assoc)
qed

section \<open>The search for a match\<close>

lemma runs_to_If:
  "(b \<Longrightarrow> runs_to x Q) \<Longrightarrow> (\<not> b \<Longrightarrow> runs_to y Q) \<Longrightarrow> runs_to (if b then x else y) Q"
  by simp

definition match_found :: "nat \<Rightarrow> byte list \<Rightarrow> nat \<Rightarrow> nat \<times> nat \<times> nat \<Rightarrow> bool" where
  "match_found lv inp a = (\<lambda>(d, len, ref).
     1 \<le> d \<and> d \<le> a \<and> d < (if lv = 1 then MAX_DISTANCE 1 else MAX_FARDISTANCE) \<and>
     len = (if lv = 1 \<or> d < MAX_DISTANCE 2 then 3 else 5) \<and>
     ref + d = a + len \<and> repeats inp d a (a + len))"

lemma fz_candidate_spec:
  assumes s: "fz_rep N acc a tab copy s" and tab: "htab_ok a tab" and a: "2 \<le> a" "a + 5 \<le> length inp"
    and lv: "lv = 1 \<or> lv = 2"
  shows "runs_to (fz_candidate lv inp s)
    (\<lambda>(c, s'). (\<exists>tab'. fz_rep N acc a tab' copy s' \<and> htab_ok (a + 1) tab') \<and>
              (\<forall>m. c = Some m \<longrightarrow> match_found lv inp a m))"
proof -
  note d = fz_repD [OF s]
  have run: "runs_to (if lv = 2 then flz_is_run inp a else Done False)
      (\<lambda>b. b \<longrightarrow> lv = 2 \<and> repeats inp 1 a (a + 3))"
    using flz_is_run_spec [of a inp] a by (auto elim!: runs_to_mono)
  have tab': "htab_ok (a + 1) tab"
    using tab by (auto simp: htab_ok_def)
  have far: "MAX_DISTANCE 2 < MAX_FARDISTANCE" "1 < MAX_DISTANCE 2" "1 < MAX_FARDISTANCE"
    by (simp_all add: MAX_DISTANCE_def MAX_FARDISTANCE_def)
  show ?thesis
    unfolding fz_candidate_def Let_def d(1) runs_to_rbind
  proof (rule runs_to_mono [OF run], goal_cases)
    case (1 b)
    show ?case
    proof (cases b)
      case True
      with 1 have "match_found lv inp a (1, 3, a - 1 + 3)"
        using a far by (auto simp: match_found_def MAX_DISTANCE_def)
      then show ?thesis
        using True s tab' by auto
    next
      case False
      show ?thesis
        unfolding if_not_P [OF False] runs_to_rbind
      proof (rule runs_to_mono [OF HASH_FUNCTION_in], goal_cases)
        case 1
        show ?case using a by simp
      next
        case (2 h)
        define ref where "ref = tab ! unat h"
        have ref: "ref < a"
          using htab_ok_nth [OF tab 2] by (simp add: ref_def)
        have get: "array_get HASH_SIZE (fz_htab s) (unat h) = Done ref"
          using 2 tab d(5) by (simp add: htab_ok_def ref_def)
        have set: "array_set (fz_htab s) (int (unat h)) a = Done (tab[unat h := a])"
          using htab_ok_set [OF tab 2] d(5) by simp
        have rep: "\<exists>tab'. fz_rep N acc a tab' copy (s\<lparr>fz_htab := tab[unat h := a]\<rparr>) \<and>
                          htab_ok (a + 1) tab'"
          using s htab_ok_update [OF tab, of "unat h"] by (intro exI [of _ "tab[unat h := a]"]) simp
        have three: "runs_to (flz_same inp 3 ref a) (\<lambda>m. m \<longrightarrow> repeats inp (a - ref) a (a + 3))"
          using flz_same_spec [of ref 3 inp a] ref a by simp
        have two: "runs_to (flz_same inp 2 (ref + 3) (a + 3))
            (\<lambda>m. m \<longrightarrow> repeats inp (a - ref) (a + 3) (a + 5))"
          using flz_same_spec [of "ref + 3" 2 inp "a + 3"] ref a by (simp add: add.commute)
        show ?case
          unfolding get set rbind_Done runs_to_simps
        proof (rule runs_to_If, goal_cases)
          case 1
          then show ?case using rep by simp
        next
          case 2
          show ?case
            unfolding runs_to_rbind
          proof (rule runs_to_mono [OF three], goal_cases)
            case (1 m)
            show ?case
            proof (rule runs_to_If, goal_cases)
              case 1
              then show ?case using rep by simp
            next
              case not_m: 2
              show ?case
              proof (rule runs_to_If, goal_cases)
                case far: 1
                show ?case
                  unfolding runs_to_rbind
                proof (rule runs_to_mono [OF two], goal_cases)
                  case two: (1 m2)
                  have "match_found lv inp a (a - ref, 5, ref + 5)" if m2
                    using repeats_join [of inp "a - ref" a "a + 3" "a + 5"] 1 2 not_m far two that ref
                    by (auto simp: match_found_def)
                  then show ?case
                    using rep by simp
                qed
              next
                case near: 2
                have "match_found lv inp a (a - ref, 3, ref + 3)"
                  using 1 2 not_m near ref lv by (auto simp: match_found_def)
                then show ?case
                  using rep by simp
              qed
            qed
          qed
        qed
      qed
    qed
  qed
qed

section \<open>The invariant of the loop\<close>

text \<open>The output begins with literals, so that the first byte can carry the level.\<close>

definition lz_starts :: "lz_token list \<Rightarrow> bool" where
  "lz_starts ts \<longleftrightarrow> (\<exists>bs us. ts = Literals bs # us)"

lemma lz_starts_run: "lz_starts (ts @ lz_lits bs) \<Longrightarrow> lz_starts (ts @ Literals cs # us)"
  by (cases ts) (auto simp: lz_starts_def)

lemma lz_starts_append: "lz_starts ts \<Longrightarrow> lz_starts (ts @ us)"
  by (auto simp: lz_starts_def)

lemma lz_lits_snoc: "lz_lits (bs @ [b]) = [Literals (bs @ [b])]"
  by (simp add: lz_lits_def)

lemma lz_lits_Nil: "lz_lits [] = []"
  by (simp add: lz_lits_def)

definition fz_inv ::
    "nat \<Rightarrow> nat \<Rightarrow> byte list \<Rightarrow> nat \<Rightarrow> lz_token list \<Rightarrow> byte list \<Rightarrow> nat \<Rightarrow> nat list \<Rightarrow> flz \<Rightarrow> bool" where
  "fz_inv N lv inp n ts lits ip tab s \<longleftrightarrow>
     fz_rep N (concat (map (lz_encode lv) ts) @ 31 # lits) ip tab (length lits) s \<and>
     2 \<le> ip \<and> ip \<le> n \<and> length lits < 32 \<and> lz_all_fit lv [] ts \<and>
     lz_expand ts @ lits = take ip inp \<and> lz_starts (ts @ lz_lits lits) \<and>
     32 * length (concat (map (lz_encode lv) ts) @ 31 # lits) + length lits \<le> 33 * ip + 32"

definition fz_good :: "nat \<Rightarrow> nat \<Rightarrow> byte list \<Rightarrow> nat \<Rightarrow> flz \<Rightarrow> bool" where
  "fz_good N lv inp n s \<longleftrightarrow>
     (\<exists>ts lits tab. fz_inv N lv inp n ts lits (fz_ip s) tab s \<and> htab_ok (fz_ip s) tab)"

lemma room_bound: "32 * k \<le> 33 * n + 32 \<Longrightarrow> n + n div 32 + 1 \<le> N \<Longrightarrow> k \<le> (N :: nat)"
  by linarith

lemma fz_literal_good:
  assumes inv': "fz_inv N lv inp n ts lits (fz_ip s) tab s" and tab': "htab_ok (fz_ip s + 1) tab"
    and ip: "fz_ip s < n" and n: "n \<le> length inp"
    and N: "n + n div 32 + 1 \<le> N"
  shows "runs_to (fz_literal inp s) (\<lambda>s'. fz_good N lv inp n s' \<and> fz_ip s' = fz_ip s + 1)"
proof -
  define ip where "ip = fz_ip s"
  have inv: "fz_inv N lv inp n ts lits ip tab s" and tab': "htab_ok (ip + 1) tab"
    using inv' tab' by (simp_all add: ip_def)
  let ?e = "concat (map (lz_encode lv) ts)" and ?b = "inp ! ip"
  note rep = inv [unfolded fz_inv_def, THEN conjunct1]
  have i: "2 \<le> ip" "length lits < 32" "lz_all_fit lv [] ts" "lz_expand ts @ lits = take ip inp"
      "lz_starts (ts @ lz_lits lits)"
      "32 * length (?e @ 31 # lits) + length lits \<le> 33 * ip + 32"
    using inv by (simp_all add: fz_inv_def)
  have room: "length (?e @ 31 # lits) < N" "length lits = 31 \<Longrightarrow> length (?e @ 31 # lits) + 1 < N"
    using i(2,6) ip N unfolding ip_def [symmetric] by linarith+
  have get: "flz_get inp ip = Done ?b"
    using ip n by (simp add: ip_def)
  have take: "take (Suc ip) inp = lz_expand ts @ lits @ [?b]"
    using i(4) ip n by (simp add: take_Suc_conv_app_nth ip_def flip: append_assoc)
  have put: "runs_to (fz_put ?b s) (fz_rep N (?e @ 31 # lits @ [?b]) ip tab (length lits))"
    using fz_put_rep [OF rep room(1), of ?b] by simp
  show ?thesis
    unfolding fz_literal_def ip_def [symmetric] get rbind_Done runs_to_rbind
  proof (rule runs_to_mono [OF put], goal_cases)
    case (1 s1)
    note d = fz_repD [OF 1]
    let ?s = "s1\<lparr>fz_ip := fz_ip s1 + 1, fz_copy := fz_copy s1 + 1\<rparr>"
    have s2: "fz_rep N (?e @ 31 # lits @ [?b]) (ip + 1) tab (length lits + 1) ?s"
      using 1 d by (simp add: fz_rep_def)
    show ?case
    proof (cases "length lits = 31")
      case False
      then have "fz_inv N lv inp n ts (lits @ [?b]) (ip + 1) tab ?s"
        using s2 i take ip lz_starts_run [OF i(5)] by (simp add: fz_inv_def ip_def lz_lits_snoc)
      then have "fz_good N lv inp n ?s \<and> fz_ip ?s = ip + 1"
        using tab' d(1) by (auto simp: fz_good_def)
      then show ?thesis
        using False d by (simp add: Let_def MAX_COPY_def)
    next
      case True
      have full: "concat (map (lz_encode lv) (ts @ [Literals (lits @ [?b])])) = ?e @ 31 # lits @ [?b]"
        using True by simp
      have "runs_to (fz_put 31 (?s\<lparr>fz_copy := 0\<rparr>))
              (fz_rep N ((?e @ 31 # lits @ [?b]) @ [31]) (ip + 1) tab 0)"
      proof (rule fz_put_rep)
        show "fz_rep N (?e @ 31 # lits @ [?b]) (ip + 1) tab 0 (?s\<lparr>fz_copy := 0\<rparr>)"
          using s2 by (simp add: fz_rep_def)
      qed (use room(2) True in simp)
      then have "runs_to (fz_put 31 (?s\<lparr>fz_copy := 0\<rparr>))
              (\<lambda>s'. fz_good N lv inp n s' \<and> fz_ip s' = ip + 1)"
      proof (rule runs_to_mono)
        fix s3
        assume s3: "fz_rep N ((?e @ 31 # lits @ [?b]) @ [31]) (ip + 1) tab 0 s3"
        have "fz_inv N lv inp n (ts @ [Literals (lits @ [?b])]) [] (ip + 1) tab s3"
          unfolding fz_inv_def full
          using s3 i take ip True lz_starts_run [OF i(5)]
          by (simp add: ip_def lz_lits_Nil lz_all_fit_append)
        then show "fz_good N lv inp n s3 \<and> fz_ip s3 = ip + 1"
          using tab' fz_repD(1) [OF s3] by (auto simp: fz_good_def)
      qed
      then show ?thesis
        using True d by (simp add: Let_def MAX_COPY_def)
    qed
  qed
qed

text \<open>A match: how far it is taken, what it does to the invariant, and the steps after the scan.\<close>

lemma match_found_bounds:
  assumes "match_found lv inp a (d, len, ref)" and "lv = 1 \<or> lv = 2"
  shows "1 \<le> d" "d \<le> a" "ref + d = a + len" "repeats inp d a (a + len)"
    and "if lv = 1 then d \<le> 8192 else d \<le> 8191 + 65536" and "lv = 2 \<Longrightarrow> 8191 < d \<Longrightarrow> len = 5"
    and "3 \<le> len" "len \<le> 5" "lv = 1 \<Longrightarrow> len = 3" "d = 1 \<Longrightarrow> len = 3"
proof -
  have f: "1 \<le> d" "d \<le> a" "d < (if lv = 1 then MAX_DISTANCE 1 else MAX_FARDISTANCE)"
      "len = (if lv = 1 \<or> d < MAX_DISTANCE 2 then 3 else 5)" "ref + d = a + len"
      "repeats inp d a (a + len)"
    using assms(1) unfolding match_found_def prod.case by blast+
  show "1 \<le> d" "d \<le> a" "ref + d = a + len" "repeats inp d a (a + len)"
    by (fact f)+
  show "if lv = 1 then d \<le> 8192 else d \<le> 8191 + 65536" "lv = 2 \<Longrightarrow> 8191 < d \<Longrightarrow> len = 5"
    "3 \<le> len" "len \<le> 5" "lv = 1 \<Longrightarrow> len = 3" "d = 1 \<Longrightarrow> len = 3"
    using f(3,4) assms(2) by (auto simp: MAX_DISTANCE_def MAX_FARDISTANCE_def split: if_splits)
qed

lemma fz_scan:
  assumes found: "match_found lv inp a (d, len, ref)" and lv: "lv = 1 \<or> lv = 2"
    and a: "a + 12 < n" and n: "n \<le> length inp"
  shows "runs_to (if d - 1 = 0
      then rbind (flz_get inp (a + len - 1)) (\<lambda>x. flz_run_end inp (n - 2) x ref (a + len))
      else flz_unrolled 8 inp (n - 2) ref (a + len))
    (\<lambda>e. a + len < e \<and> e \<le> (if lv = 1 then n - 2 else n) \<and> repeats inp d a (e - 1))"
proof -
  note f = match_found_bounds [OF found lv]
  define stop where "stop = (if lv = 1 then n - 2 else n)"
  have stop: "max (n - 2) (a + len + 8) \<le> stop"
    using a f(8,9) lv by (auto simp: stop_def)
  have join: "a + len < e \<and> e \<le> stop \<and> repeats inp d a (e - 1)"
    if "match_ends inp d (a + len) k e \<and> a + len < e" "k \<le> stop" for k e
    using that repeats_join [OF f(4)] by (auto simp: match_ends_def)
  have "runs_to (if d - 1 = 0
      then rbind (flz_get inp (a + len - 1)) (\<lambda>x. flz_run_end inp (n - 2) x ref (a + len))
      else flz_unrolled 8 inp (n - 2) ref (a + len))
    (\<lambda>e. a + len < e \<and> e \<le> stop \<and> repeats inp d a (e - 1))"
  proof (cases "d = 1")
    case True
    then have ref: "ref = a + len - 1"
      using f(3) by simp
    have "runs_to (flz_run_end inp (n - 2) (inp ! (a + len - 1)) (a + len - 1) (a + len))
        (\<lambda>e. match_ends inp 1 (a + len) (n - 2) e \<and> a + len < e)"
      using f(10) [OF True] a n by (intro flz_run_end_spec) linarith+
    moreover have "flz_get inp (a + len - 1) = Done (inp ! (a + len - 1))"
      using f(10) [OF True] a n by (intro flz_get_nth) linarith
    ultimately show ?thesis
      using True ref join stop by (auto elim!: runs_to_mono)
  next
    case False
    then have d: "\<not> d - 1 = 0" "ref < a + len" "a + len - ref = d"
      using f(1,3) by simp_all
    have "runs_to (flz_unrolled 8 inp (n - 2) ref (a + len))
        (\<lambda>e. match_ends inp (a + len - ref) (a + len) (max (n - 2) (a + len + 8)) e \<and>
             (0 < (8 :: nat) \<longrightarrow> a + len < e))"
      using d(2) a f(8) n by (intro flz_unrolled_spec) linarith+
    then show ?thesis
      unfolding if_not_P [OF d(1)] d(3) by (rule runs_to_mono) (use join [OF _ stop] in simp)
  qed
  then show ?thesis
    by (simp only: stop_def)
qed

lemma fz_match_size:
  assumes inv: "fz_inv N lv inp n ts lits a tab s"
    and k: "3 \<le> k" "lv = 1 \<or> lv = 2" "lv = 2 \<Longrightarrow> 8191 < d \<Longrightarrow> 5 \<le> k"
  shows "32 * length (concat (map (lz_encode lv) (ts @ lz_lits lits @ lz_match lv d k)) @ [31])
           \<le> 33 * (a + k) + 32"
proof -
  have "length (concat (map (lz_encode lv) (lz_match lv d k))) < k"
    using k by (rule lz_match_length)
  then show ?thesis
    using inv by (cases "lits = []") (auto simp: fz_inv_def lz_lits_def)
qed

lemma fz_inv_match:
  assumes inv: "fz_inv N lv inp n ts lits a tab s"
    and rep: "fz_rep N (concat (map (lz_encode lv) (ts @ lz_lits lits @ lz_match lv d k)) @ [31])
                (a + k) tab' 0 s'"
    and lv: "lv = 1 \<or> lv = 2" and k: "3 \<le> k" "lv = 2 \<Longrightarrow> 8191 < d \<Longrightarrow> 5 \<le> k"
    and d: "1 \<le> d" "d \<le> a" "if lv = 1 then d \<le> 8192 else d \<le> 8191 + 65536"
    and same: "repeats inp d a (a + k)" and n: "a + k \<le> n" "n \<le> length inp" "n < 2 ^ 31"
  shows "fz_inv N lv inp n (ts @ lz_lits lits @ lz_match lv d k) [] (a + k) tab' s'"
proof -
  have i: "2 \<le> a" "lz_all_fit lv [] ts" "length lits < 32" "foldl lz_apply [] ts @ lits = take a inp"
      "lz_starts (ts @ lz_lits lits)"
    using inv by (simp_all add: fz_inv_def lz_expand_def)
  have len: "length (take a inp) = a" and k31: "k < 2 ^ 31"
    using n by simp_all
  note fit = lz_match_fit [of d "take a inp", unfolded len, OF d(1,2) k(1) k31 lv d(3)]
  have "lz_all_fit lv [] (ts @ lz_lits lits @ lz_match lv d k)"
    using i(2,3) fit(1) i(4) by (simp add: lz_all_fit_append lz_lits_fit)
  moreover have "lz_expand (ts @ lz_lits lits @ lz_match lv d k) = take (a + k) inp"
    using fit(2) i(4) lz_copy_repeats [OF same d(1,2)] n by (simp add: lz_expand_def)
  moreover have "lz_starts (ts @ lz_lits lits @ lz_match lv d k)"
    using lz_starts_append [OF i(5)] by simp
  ultimately show ?thesis
    unfolding fz_inv_def
    using rep i(1) n(1) fz_match_size [OF inv k(1) lv k(2)] by (simp add: lz_lits_Nil)
qed

lemma fz_match_tail:
  assumes s: "fz_rep N acc ip tab 0 s" and tab: "htab_ok ip tab"
    and k: "3 \<le> k" and lv: "lv = 1 \<or> lv = 2" and inp: "ip + 3 < length inp"
    and room: "length (acc @ concat (map (lz_encode lv) (lz_match lv d k))) < N"
  shows "runs_to (rbind (if lv = 2 then fz_encode2 (d - 1) (k - 2) s else fz_encode1 (d - 1) (k - 2) s)
            (\<lambda>s. rbind (fz_rehash inp s) (\<lambda>s. rbind (fz_rehash inp s) (\<lambda>s.
              fz_put (word_of_nat (MAX_COPY - 1)) s))))
    (\<lambda>s'. \<exists>tab'. fz_rep N ((acc @ concat (map (lz_encode lv) (lz_match lv d k))) @ [31]) (ip + 2) tab' 0 s' \<and>
          htab_ok (ip + 2) tab')"
proof -
  let ?acc = "acc @ concat (map (lz_encode lv) (lz_match lv d k))"
  have enc: "runs_to (if lv = 2 then fz_encode2 (d - 1) (k - 2) s else fz_encode1 (d - 1) (k - 2) s)
               (fz_rep N ?acc ip tab 0)"
    using fz_encode_rep [OF s k lv, of d] room by simp
  have in1: "ip + 2 < length inp" and in2: "ip + 1 + 2 < length inp"
    using inp by simp_all
  have b: "(word_of_nat (MAX_COPY - 1) :: byte) = 31"
    by (simp add: MAX_COPY_def)
  show ?thesis
    unfolding runs_to_rbind b
  proof (rule runs_to_mono [OF enc], goal_cases)
    case (1 s1)
    show ?case
    proof (rule runs_to_mono [OF fz_rehash_rep [OF 1 tab in1]], goal_cases)
      case (1 s2)
      then obtain tab2 where "fz_rep N ?acc (ip + 1) tab2 0 s2" and "htab_ok (ip + 1) tab2"
        by blast
      from fz_rehash_rep [OF this in2] show ?case
      proof (rule runs_to_mono, goal_cases)
        case (1 s3)
        then obtain tab3 where s3: "fz_rep N ?acc (ip + 2) tab3 0 s3" and t3: "htab_ok (ip + 2) tab3"
          by (auto simp: add.assoc)
        from fz_put_rep [OF s3 room, of 31] show ?case
          by (rule runs_to_mono) (use t3 in blast)
      qed
    qed
  qed
qed

lemma fz_match_good:
  assumes inv: "fz_inv N lv inp n ts lits a tab s" and tab: "htab_ok (a + 1) tab'"
    and s': "fz_rep N (concat (map (lz_encode lv) ts) @ 31 # lits) a tab' (length lits) s'"
    and m: "match_found lv inp a m" and a: "a + 12 < n" and lv: "lv = 1 \<or> lv = 2"
    and n: "n \<le> length inp" "lv = 2 \<Longrightarrow> n < length inp" "n < 2 ^ 31"
    and N: "n + n div 32 + 1 \<le> N"
  shows "runs_to (fz_match lv inp (n - 2) m s') (\<lambda>s'. fz_good N lv inp n s' \<and> a < fz_ip s')"
proof -
  obtain d len ref where md: "m = (d, len, ref)"
    by (cases m)
  note found = m [unfolded md]
  note f = match_found_bounds [OF found lv]
  let ?e = "concat (map (lz_encode lv) ts)" and ?l = "concat (map (lz_encode lv) (lz_lits lits))"
  have a_s': "fz_ip s' = a"
    using fz_repD(1) [OF s'] .
  show ?thesis
    unfolding md fz_match_def prod.case Let_def a_s' runs_to_rbind
  proof (rule runs_to_mono [OF fz_scan [OF found lv a n(1)]], goal_cases)
    case (1 e)
    define k where "k = e - 1 - a"
    have e: "e = a + k + 1" "len \<le> k" "e \<le> (if lv = 1 then n - 2 else n)" "repeats inp d a (a + k)"
      using 1 by (auto simp: k_def)
    have lim: "a + k \<le> n" "a + k + 1 < length inp"
      using e(1,3) n lv a by (auto split: if_splits)
    have k3: "3 \<le> k" and k5: "lv = 2 \<Longrightarrow> 8191 < d \<Longrightarrow> 5 \<le> k"
      using e(2) f(6,7) by auto
    have "length (concat (map (lz_encode lv) (ts @ lz_lits lits @ lz_match lv d k)) @ [31]) \<le> N"
      using room_bound [OF _ N] fz_match_size [OF inv k3 lv k5] lim(1) by (meson le_trans add_le_mono1 mult_le_mono2)
    then have room: "length ((?e @ ?l) @ concat (map (lz_encode lv) (lz_match lv d k))) < N"
      by simp
    have idx: "e - 3 = a + k - 2" "a + k - 2 - a = k - 2"
      using e(1) k3 by simp_all
    show ?case
      unfolding idx
    proof (rule runs_to_mono [OF fz_close_rep [OF s', of lv]], goal_cases)
      case (1 s1)
      let ?s = "s1\<lparr>fz_copy := 0, fz_ip := a + k - 2\<rparr>"
      have s1: "fz_rep N (?e @ ?l) (a + k - 2) tab' 0 ?s"
        using 1 by (simp add: fz_rep_def)
      have t1: "htab_ok (a + k - 2) tab'"
        using tab k3 by (auto simp: htab_ok_def)
      have k2: "a + k - 2 + 2 = a + k" and in3: "a + k - 2 + 3 < length inp"
        using lim k3 by linarith+
      from fz_match_tail [OF s1 t1 k3 lv in3 room] show ?case
        unfolding runs_to_rbind [symmetric] k2
      proof (rule runs_to_mono, goal_cases)
        case (1 s5)
        then obtain tab5 where
          "fz_rep N (concat (map (lz_encode lv) (ts @ lz_lits lits @ lz_match lv d k)) @ [31])
             (a + k) tab5 0 s5" and t5: "htab_ok (a + k) tab5"
          by auto
        from fz_inv_match [OF inv this(1) lv k3 k5 f(1,2,5) e(4) lim(1) n(1,3)] t5 fz_repD(1) [OF this(1)]
        show ?case
          using k3 by (auto simp: fz_good_def)
      qed
    qed
  qed
qed

end
