(* ===== verification/Fst_Fastlz_Decode.thy ===== *)
theory Fst_Fastlz_Decode
  imports Fst_Fastlz_Tokens
begin

text \<open>
  The decompressor on the encoding of tokens (\<open>uz_loops_tokens\<close>), and on any input at all
  (\<open>uz_loops_safe\<close>).
\<close>

section \<open>Operands\<close>

lemma unat_byte_of_nat: "n < 256 \<Longrightarrow> unat (word_of_nat n :: byte) = n"
  by (simp add: unat_of_nat)

lemma ctrl_parts:
  assumes "n < 8" and "h < 32"
  defines "ctrl \<equiv> ucast (word_of_nat (n * 32 + h) :: byte) :: u32"
  shows "unat ctrl = n * 32 + h" and "drop_bit 5 ctrl = word_of_nat n"
    and "ctrl AND 31 = word_of_nat h" and "32 \<le> ctrl \<longleftrightarrow> 0 < n"
proof -
  have small: "n * 32 + h < 256"
    using assms(1,2) by simp
  show u: "unat ctrl = n * 32 + h"
    unfolding ctrl_def unsigned_ucast_eq take_bit_eq_mod unat_byte_of_nat [OF small]
    using small by simp
  show "drop_bit 5 ctrl = word_of_nat n"
    using assms(1,2) u
    by (simp add: word_unat_eq_iff unat_drop_bit_eq unat_of_nat) (simp add: drop_bit_eq_div)
  have "ctrl AND 31 = take_bit 5 ctrl"
    by (simp add: take_bit_eq_mask mask_eq_exp_minus_1)
  then show "ctrl AND 31 = word_of_nat h"
    using assms(1,2) u
    by (simp add: word_unat_eq_iff unsigned_take_bit_eq unat_of_nat) (simp add: take_bit_eq_mod)
  show "32 \<le> ctrl \<longleftrightarrow> 0 < n"
    using assms(1,2) by (cases n) (simp_all add: word_le_nat_alt u)
qed

lemma ucast_byte_of_nat: "n < 256 \<Longrightarrow> (ucast (word_of_nat n :: byte) :: u32) = word_of_nat n"
  by (simp add: word_unat_eq_iff unsigned_ucast_eq take_bit_eq_mod unat_of_nat)

lemma unat_ofs: "h < 32 \<Longrightarrow> unat (push_bit 8 (word_of_nat h :: u32)) = h * 256"
  by (simp add: push_bit_eq_mult unat_word_ariths unat_of_nat)

lemma uint_ofs: "h < 32 \<Longrightarrow> uint (push_bit 8 (word_of_nat h :: u32)) = int (h * 256)"
  using unat_ofs [of h] by (metis uint_nat)

lemma uint_byte_of_nat: "n < 256 \<Longrightarrow> uint (word_of_nat n :: byte) = int n"
  by (metis uint_nat unat_byte_of_nat)

lemma uz_len2_at:
  "left_at inp n ip = lz_more k @ r \<Longrightarrow>
   uz_len2 inp len ip = Done (len + word_of_nat k, ip + length (lz_more k))"
proof (induction k arbitrary: len ip rule: less_induct)
  case (less k)
  show ?case
  proof (cases "k \<ge> 255")
    case True
    then have m: "lz_more k = 255 # lz_more (k - 255)"
      by (subst lz_more.simps) simp
    note c = left_at_Cons [OF less.prems [unfolded m append_Cons]]
    have "(word_of_nat k :: u32) = 255 + word_of_nat (k - 255)"
      using True by (simp add: of_nat_diff)
    then show ?thesis
      using less.IH [OF _ c(2), of "len + 255"] True c(1)
      by (subst uz_len2.simps) (simp add: m)
  next
    case False
    then have m: "lz_more k = [word_of_nat k]"
      by (subst lz_more.simps) simp
    have "(word_of_nat k :: byte) \<noteq> 255"
      using False by (simp add: word_unat_eq_iff unat_byte_of_nat)
    with False show ?thesis
      using left_at_Cons(1) [OF less.prems [unfolded m append_Cons]]
      by (subst uz_len2.simps) (simp add: m ucast_byte_of_nat)
  qed
qed

lemma len_parts:
  assumes "1 \<le> n" and "n < 7"
  shows "(word_of_nat n - 1 :: u32) = word_of_nat (n - 1)" and "(word_of_nat n - 1 :: u32) \<noteq> 6"
proof -
  show *: "(word_of_nat n - 1 :: u32) = word_of_nat (n - 1)"
    using assms by (simp add: of_nat_diff)
  show "(word_of_nat n - 1 :: u32) \<noteq> 6"
    unfolding * using assms by (cases n) (simp_all add: word_unat_eq_iff unat_of_nat)
qed

text \<open>
  \<open>operands_at\<close>: the first byte of the encoding of the match is the control word, the others stand
  at \<open>ip\<close>, and \<open>rd\<close> finds the length beyond 3, the place one behind the source, and the next token.
\<close>

lemma uz_operands1_at:
  assumes fits: "lz_fits 1 acc (Match d l)" and enc: "lz_encode 1 (Match d l) = b # r"
    and inp: "left_at inp n (uz_ip s) = r @ rest"
    and s: "uz_ctrl s = ucast b" "uz_op s = length acc"
  shows "uz_operands1 inp s =
           Done (word_of_nat (l - 3), int (length acc) - int (d - 1), uz_ip s + length r)"
    and "32 \<le> (ucast b :: u32)"
proof -
  define e m where "e = d - 1" and "m = l - 2"
  have e: "e div 256 < 32" "e mod 256 < 256" and m: "1 \<le> m" "m \<le> 262" and l: "l - 3 = m - 1"
    using fits by (auto simp: e_def m_def)
  have dist: "int (length acc) - int (e div 256 * 256) - int (e mod 256) = int (length acc) - int e"
    by (simp only: diff_diff_eq of_nat_add [symmetric] div_mult_mod_eq)
  have "uz_operands1 inp s =
           Done (word_of_nat (m - 1), int (length acc) - int e, uz_ip s + length r) \<and>
        32 \<le> (ucast b :: u32)"
  proof (cases "m < 7")
    case True
    have b: "b = word_of_nat (m * 32 + e div 256)" and r: "r = [word_of_nat (e mod 256)]"
      using enc True by (auto simp: Let_def e_def m_def)
    note p = ctrl_parts [of m "e div 256", folded b]
    show ?thesis
      using True e m s left_at_Cons(1) [OF inp [unfolded r append_Cons]] p len_parts [of m] dist
      by (simp add: uz_operands1_def r uint_ofs uint_byte_of_nat)
  next
    case False
    then obtain k where k: "m = k + 7"
      using nat_le_iff_add [of 7 m] by auto
    then have kl: "l = k + 9" "k < 256"
      using m fits by (auto simp: m_def)
    have b: "b = word_of_nat (7 * 32 + e div 256)"
      and r: "r = [word_of_nat k, word_of_nat (e mod 256)]"
      using enc by (auto simp: Let_def e_def kl(1))
    note p = ctrl_parts [of 7 "e div 256", folded b]
    note i1 = left_at_Cons [OF inp [unfolded r append_Cons]]
    note i2 = left_at_Cons [OF i1(2)]
    show ?thesis
      using e kl s i1(1) i2(1) p dist
      by (simp add: k uz_operands1_def r uint_ofs uint_byte_of_nat ucast_byte_of_nat)
  qed
  then show "uz_operands1 inp s =
           Done (word_of_nat (l - 3), int (length acc) - int (d - 1), uz_ip s + length r)"
    and "32 \<le> (ucast b :: u32)"
    by (simp_all add: l e_def)
qed

text \<open>At level 2 the bytes \<open>xs\<close> of the length come first.\<close>

definition uz_length2 :: "byte list \<Rightarrow> u32 \<Rightarrow> nat \<Rightarrow> (u32 \<times> nat) run" where
  "uz_length2 inp len ip = (if len = 7 - 1 then uz_len2 inp len ip else Done (len, ip))"

lemma len2_at:
  assumes m: "1 \<le> m" and h: "h < 32"
    and enc: "b # r = (if m < 7 then [word_of_nat (m * 32 + h)]
                      else word_of_nat (7 * 32 + h) # lz_more (m - 7)) @ r'"
    and inp: "left_at inp n ip = r @ rest"
  obtains xs where "r = xs @ r'"
    and "uz_length2 inp (drop_bit 5 (ucast b) - 1) ip = Done (word_of_nat (m - 1), ip + length xs)"
    and "(ucast b :: u32) AND 31 = word_of_nat h" and "32 \<le> (ucast b :: u32)"
proof (cases "m < 7")
  case True
  then have b: "b = word_of_nat (m * 32 + h)" and r: "r = r'"
    using enc by simp_all
  have m8: "m < 8"
    using True by simp
  note p = ctrl_parts [OF m8 h, folded b]
  show thesis
  proof (rule that)
    show "r = [] @ r'"
      using r by simp
    show "uz_length2 inp (drop_bit 5 (ucast b) - 1) ip = Done (word_of_nat (m - 1), ip + length [])"
      using len_parts [OF m True] by (simp add: uz_length2_def p(2))
  qed (use p m in simp_all)
next
  case False
  then obtain k where k: "m = k + 7"
    using nat_le_iff_add [of 7 m] by auto
  then have b: "b = word_of_nat (7 * 32 + h)" and r: "r = lz_more k @ r'"
    using enc by simp_all
  note p = ctrl_parts [of 7 h, folded b, simplified, OF h]
  have i: "left_at inp n ip = lz_more k @ r' @ rest"
    using inp r by simp
  show thesis
  proof (rule that)
    show "r = lz_more k @ r'"
      by (rule r)
    show "uz_length2 inp (drop_bit 5 (ucast b) - 1) ip =
          Done (word_of_nat (m - 1), ip + length (lz_more k))"
      using uz_len2_at [OF i] by (simp add: uz_length2_def p(2) k)
  qed (use p in simp_all)
qed

lemma uz_operands2_alt:
  "uz_operands2 inp s =
     rbind (uz_length2 inp (drop_bit 5 (uz_ctrl s) - 1) (uz_ip s)) (\<lambda>(len, ip).
     rbind (flz_get inp ip) (\<lambda>code.
     if code = 255 \<and> push_bit 8 (uz_ctrl s AND 31) = push_bit 8 31
     then rbind (flz_get inp (ip + 1)) (\<lambda>a.
          rbind (flz_get inp (ip + 2)) (\<lambda>b.
            Done (len, int (uz_op s) - int (unat (push_bit 8 (ucast a) + ucast b :: u32))
                         - int (MAX_DISTANCE 2), ip + 3)))
     else Done (len, int (uz_op s) - int (unat (push_bit 8 (uz_ctrl s AND 31))) - int (unat code),
                ip + 1)))"
  by (simp only: uz_operands2_def uz_length2_def Let_def)

lemma uz_operands2_at:
  assumes fits: "lz_fits 2 acc (Match d l)" and enc: "lz_encode 2 (Match d l) = b # r"
    and inp: "left_at inp n (uz_ip s) = r @ rest"
    and s: "uz_ctrl s = ucast b" "uz_op s = length acc"
  shows "uz_operands2 inp s =
           Done (word_of_nat (l - 3), int (length acc) - int (d - 1), uz_ip s + length r)"
    and "32 \<le> (ucast b :: u32)"
proof -
  define e m where "e = d - 1" and "m = l - 2"
  have m: "1 \<le> m" and l: "l - 3 = m - 1" and e: "e < 8191 + 65536"
    using fits by (auto simp: e_def m_def)
  have "uz_operands2 inp s =
           Done (word_of_nat (m - 1), int (length acc) - int e, uz_ip s + length r) \<and>
        32 \<le> (ucast b :: u32)"
  proof (cases "e < 8191")
    case True
    have h: "e div 256 < 32" "e mod 256 < 256"
      using True by auto
    have "b # r = (if m < 7 then [word_of_nat (m * 32 + e div 256)]
                   else word_of_nat (7 * 32 + e div 256) # lz_more (m - 7)) @ [word_of_nat (e mod 256)]"
      using enc True by (auto simp: Let_def e_def m_def)
    then obtain xs where r: "r = xs @ [word_of_nat (e mod 256)]"
      and len: "uz_length2 inp (drop_bit 5 (ucast b) - 1) (uz_ip s) =
                Done (word_of_nat (m - 1), uz_ip s + length xs)"
      and c: "(ucast b :: u32) AND 31 = word_of_nat (e div 256)" "32 \<le> (ucast b :: u32)"
      by (rule len2_at [OF m h(1) _ inp])
    have "left_at inp n (uz_ip s) = xs @ word_of_nat (e mod 256) # rest"
      using inp r by simp
    note i = left_at_Cons(1) [OF left_at_append [OF this]]
    have dist: "int (length acc) - int (e div 256 * 256) - int (e mod 256) = int (length acc) - int e"
      by (simp only: diff_diff_eq of_nat_add [symmetric] div_mult_mod_eq)
    have near: "\<not> ((word_of_nat (e mod 256) :: byte) = 255 \<and>
                   push_bit 8 (word_of_nat (e div 256)) = (push_bit 8 31 :: u32))"
    proof
      assume a: "(word_of_nat (e mod 256) :: byte) = 255 \<and>
                 push_bit 8 (word_of_nat (e div 256)) = (push_bit 8 31 :: u32)"
      then have "unat (word_of_nat (e mod 256) :: byte) = 255"
        by simp
      then have "e mod 256 = 255"
        using unat_byte_of_nat [OF h(2)] by simp
      moreover have "e div 256 * 256 = 31 * 256"
        using a unat_ofs [OF h(1)] by simp
      ultimately have "e = 31 * 256 + 255"
        using div_mult_mod_eq [of e 256] by simp
      then show False
        using True by simp
    qed
    show ?thesis
      unfolding uz_operands2_alt s c len
      using near c(2) i dist h r by (auto simp: uint_ofs uint_byte_of_nat)
  next
    case False
    define f where "f = e - 8191"
    have f_lt: "f < 2 ^ 32"
      using e by (simp add: f_def)
    have f: "f div 256 < 256" "f mod 256 < 256"
      using e by (auto simp: f_def)
    have h31: "31 < (32 :: nat)"
      by simp
    let ?t = "[255, word_of_nat (f div 256), word_of_nat (f mod 256)] :: byte list"
    have "b # r = (if m < 7 then [word_of_nat (m * 32 + 31)]
                   else word_of_nat (7 * 32 + 31) # lz_more (m - 7)) @ ?t"
      using enc False by (auto simp: Let_def e_def m_def f_def)
    then obtain xs where r: "r = xs @ ?t"
      and len: "uz_length2 inp (drop_bit 5 (ucast b) - 1) (uz_ip s) =
                Done (word_of_nat (m - 1), uz_ip s + length xs)"
      and c: "(ucast b :: u32) AND 31 = word_of_nat 31" "32 \<le> (ucast b :: u32)"
      by (rule len2_at [OF m h31 _ inp])
    have "left_at inp n (uz_ip s) = xs @ ?t @ rest"
      using inp r by simp
    note i1 = left_at_Cons [OF left_at_append [OF this, unfolded append_Cons]]
    note i2 = left_at_Cons [OF i1(2)]
    note i3 = left_at_Cons [OF i2(2)]
    have ofs: "uint (push_bit 8 (word_of_nat (f div 256)) + word_of_nat (f mod 256) :: u32) = int f"
    proof -
      have "push_bit 8 (word_of_nat (f div 256)) + word_of_nat (f mod 256) =
            (word_of_nat (f div 256 * 256 + f mod 256) :: u32)"
        by (simp only: push_bit_eq_mult of_nat_add of_nat_mult) simp
      also have "\<dots> = word_of_nat f"
        by (simp only: div_mult_mod_eq)
      finally show ?thesis
        using f_lt by (simp add: unsigned_of_nat take_bit_nat_eq_self)
    qed
    have "int (length acc) - int f - int (MAX_DISTANCE 2) = int (length acc) - int e"
      using False by (simp add: f_def MAX_DISTANCE_def)
    then show ?thesis
      unfolding uz_operands2_alt s c len
      using c(2) i1(1) i2(1) i3(1) f ofs r by (simp add: ucast_byte_of_nat)
  qed
  then show "uz_operands2 inp s =
           Done (word_of_nat (l - 3), int (length acc) - int (d - 1), uz_ip s + length r)"
    and "32 \<le> (ucast b :: u32)"
    by (simp_all add: l e_def)
qed

section \<open>Tokens\<close>

text \<open>The state before the next token of the bytes \<open>bs\<close> that are left, or after the last.\<close>

definition uz_before :: "byte list \<Rightarrow> byte list \<Rightarrow> byte list \<Rightarrow> nat \<Rightarrow> byte list \<Rightarrow> unz \<Rightarrow> bool" where
  "uz_before out acc inp n bs s \<longleftrightarrow>
     (\<exists>ip ctrl. s = uz_at out acc ip ctrl (bs \<noteq> []) \<and>
       (bs \<noteq> [] \<longrightarrow> ctrl = ucast (hd bs) \<and> left_at inp n ip = tl bs))"

lemma uz_before_next:
  assumes "left_at inp n ip = bs" and "n \<le> length inp"
  shows "int ip < int n \<longleftrightarrow> bs \<noteq> []"
    and "bs \<noteq> [] \<Longrightarrow> flz_get inp ip = Done (hd bs)"
    and "bs \<noteq> [] \<Longrightarrow> uz_before out acc inp n bs (uz_at out acc (Suc ip) (ucast (hd bs)) True)"
    and "bs = [] \<Longrightarrow> uz_before out acc inp n bs (uz_at out acc ip ctrl False)"
  using assms left_at_Cons [of inp n ip "hd bs" "tl bs"] left_at_Nil [of inp n ip]
  by (cases bs; auto simp: uz_before_def)+

lemma uz_literals_token:
  assumes fits: "lz_fits lv acc (Literals bs)"
    and s: "uz_before out acc inp n (lz_encode lv (Literals bs) @ rest) s"
    and room: "int (length acc + length bs) \<le> maxout" "maxout \<le> int (length out)"
    and n: "n \<le> length inp"
  shows "runs_to (uz_step strict lv inp (int n) maxout s)
           (\<lambda>x. \<exists>s'. x = Inr s' \<and> uz_before out (acc @ bs) inp n rest s')"
proof -
  obtain ip where s': "s = uz_at out acc ip (ucast (word_of_nat (length bs - 1) :: byte)) True"
    and i: "left_at inp n ip = bs @ rest"
    using s by (auto simp: uz_before_def)
  have len: "0 < length bs" "length bs \<le> 32"
    using fits by simp_all
  then have l8: "length bs - 1 < 8 * 32" "length bs - 1 < 32"
    by simp_all
  have c: "(ucast (word_of_nat (length bs - 1) :: byte) :: u32) = word_of_nat (length bs - 1)"
    using len by (intro ucast_byte_of_nat) simp
  have next_len: "(word_of_nat (length bs - 1) :: u32) + 1 = word_of_nat (length bs)"
    using len by (cases bs) simp_all
  have u: "unat ((word_of_nat (length bs - 1) :: u32) + 1) = length bs"
    unfolding next_len using len by (simp add: unat_of_nat)
  have lit: "\<not> 32 \<le> (word_of_nat (length bs - 1) :: u32)"
    using l8(2) by (simp add: word_le_nat_alt unat_of_nat)
  have fit: "length acc + length bs \<le> length out"
    using room by simp
  have lim: "ip + length bs \<le> n"
    using len n arg_cong [OF i, of length] by (cases "ip \<le> n") (auto simp: left_at_def)
  note nx = uz_before_next (1,2) [OF left_at_append [OF i] n]
    uz_before_next (3,4) [OF left_at_append [OF i] n, of out "acc @ bs"]
  show ?thesis
    unfolding s' uz_step_def uz_literals_def Let_def uz_at_simps c
    using lit u room(1) lim nx uz_copy_in_at [OF i fit]
    by (cases "rest = []") (simp_all add: algebra_simps)
qed

lemma lz_copy_last: "0 < length acc \<Longrightarrow> lz_copy l 1 acc = acc @ replicate l (last acc)"
  by (induction l arbitrary: acc) (simp_all add: last_conv_nth)

lemma uz_match_token:
  assumes fits: "lz_fits lv acc (Match d l)" and lv: "lv = 1 \<or> lv = 2"
    and s: "uz_before out acc inp n (lz_encode lv (Match d l) @ rest) s"
    and room: "int (length acc + l) \<le> maxout" "maxout \<le> int (length out)"
    and n: "n \<le> length inp"
  shows "runs_to (uz_step strict lv inp (int n) maxout s)
           (\<lambda>x. \<exists>s'. x = Inr s' \<and> uz_before out (lz_copy l d acc) inp n rest s')"
proof -
  obtain b r where enc: "lz_encode lv (Match d l) = b # r"
    by (metis lz_encode_nonempty neq_Nil_conv)
  obtain ip where s': "s = uz_at out acc ip (ucast b) True" and i: "left_at inp n ip = r @ rest"
    using s unfolding enc by (auto simp: uz_before_def)
  have ops: "(if lv = 1 then uz_operands1 inp s else uz_operands2 inp s) =
      Done (word_of_nat (l - 3), int (length acc) - int (d - 1), ip + length r)"
    and ge: "32 \<le> (ucast b :: u32)"
    using lv uz_operands1_at [of acc d l b r inp n s rest] uz_operands2_at [of acc d l b r inp n s rest]
      fits enc i by (auto simp: s')
  define ref and lw :: u32
    where "ref = int (length acc) - int (d - 1)" and "lw = word_of_nat (l - 3)"
  have d: "1 \<le> d" "d \<le> length acc" and l: "3 \<le> l" "l - 3 < 2 ^ 32"
    using fits by auto
  have lw: "unat lw = l - 3"
    using l(2) unfolding lw_def by (simp only: unat_of_nat) simp
  have fit: "length acc + (l - 3) + 3 \<le> length out"
    using room l by simp
  have copy: "uz_copy strict (unat lw) ref (uz_at out acc ip' ctrl' loop') =
      Done (uz_at out (lz_copy l d acc) ip' ctrl' loop')" for ip' ctrl' loop'
  proof (cases "d = 1")
    case True
    have "nat (int (length acc) - 1) = length acc - 1"
      using d by simp
    then show ?thesis
      using True d l fit uz_fill_at [of acc "last acc" l out ip' ctrl' loop']
      by (cases "acc = []") (simp_all add: uz_copy_def lw ref_def last_conv_nth)
  next
    case False
    have "nat (ref - 1) = length acc - d" and "ref \<noteq> int (length acc)" and "\<not> ref < 1"
      using d False by (simp_all add: ref_def)
    then show ?thesis
      using uz_copy_ref_at [of "length acc - d" acc "l - 3" out strict ip' ctrl' loop'] False d l fit
      by (simp add: uz_copy_def lw)
  qed
  have chk: "\<not> maxout < int (length acc) + int (unat lw) + 3" "\<not> ref - 1 < 0"
    using room l d by (simp_all only: lw) (simp_all add: ref_def)
  note nx = uz_before_next (1,2) [OF left_at_append [OF i] n]
    uz_before_next (3,4) [OF left_at_append [OF i] n, of out "lz_copy l d acc"]
  show ?thesis
  proof (cases "rest = []")
    case True
    with nx have "\<not> int (ip + length r) < int n"
      by simp
    then have "uz_step strict lv inp (int n) maxout s =
        Done (Inr (uz_at out (lz_copy l d acc) (ip + length r) (ucast b) False))"
      unfolding uz_step_def uz_match_def ops ref_def [symmetric] lw_def [symmetric]
      by (simp only: s' uz_at_simps ge chk if_True if_False rbind_Done prod.case copy)
    then show ?thesis
      using nx(4) [OF True] by simp
  next
    case False
    with nx have "int (ip + length r) < int n" and get: "flz_get inp (ip + length r) = Done (hd rest)"
      by simp_all
    then have "uz_step strict lv inp (int n) maxout s =
        Done (Inr (uz_at out (lz_copy l d acc) (ip + length r + 1) (ucast (hd rest)) True))"
      unfolding uz_step_def uz_match_def ops ref_def [symmetric] lw_def [symmetric]
      by (simp only: s' uz_at_simps ge chk if_True if_False rbind_Done prod.case copy get)
    then show ?thesis
      using nx(3) [OF False] by simp
  qed
qed

lemma uz_step_token:
  assumes "lz_fits lv acc t" and "lv = 1 \<or> lv = 2"
    and "uz_before out acc inp n (lz_encode lv t @ rest) s"
    and "int (length (lz_apply acc t)) \<le> maxout" and "maxout \<le> int (length out)"
    and "n \<le> length inp"
  shows "runs_to (uz_step strict lv inp (int n) maxout s)
           (\<lambda>x. \<exists>s'. x = Inr s' \<and> uz_before out (lz_apply acc t) inp n rest s')"
  using assms uz_literals_token uz_match_token by (cases t) simp_all

lemma length_lz_apply: "length acc \<le> length (lz_apply acc t)"
  by (cases t) simp_all

lemma length_foldl_lz_apply: "length acc \<le> length (foldl lz_apply acc ts)"
  by (induction ts arbitrary: acc) (auto intro: order_trans [OF length_lz_apply])

lemma uz_loops_tokens:
  assumes "lz_all_fit lv acc ts" and "ts \<noteq> []" and "length ts \<le> k" and lv: "lv = 1 \<or> lv = 2"
    and "uz_before out acc inp n (concat (map (lz_encode lv) ts)) s"
    and "int (length (foldl lz_apply acc ts)) \<le> maxout" and room: "maxout \<le> int (length out)"
    and n: "n \<le> length inp"
  shows "uz_loops k strict lv inp (int n) maxout s =
    Done (int (length (foldl lz_apply acc ts)),
          foldl lz_apply acc ts @ drop (length (foldl lz_apply acc ts)) out)"
  using assms(1-3,5,6)
proof (induction ts arbitrary: acc k s)
  case (Cons t ts)
  obtain k' where k: "k = Suc k'" "length ts \<le> k'"
    using Cons.prems(3) by (cases k) simp_all
  have "int (length (lz_apply acc t)) \<le> maxout"
    using Cons.prems(5) length_foldl_lz_apply [of "lz_apply acc t" ts] by simp
  then obtain s' where st: "uz_step strict lv inp (int n) maxout s = Done (Inr s')"
    and s': "uz_before out (lz_apply acc t) inp n (concat (map (lz_encode lv) ts)) s'"
    using uz_step_token [of lv acc t out inp n "concat (map (lz_encode lv) ts)" s maxout strict]
      Cons.prems lv room n
    by (auto simp: runs_to_iff)
  show ?case
  proof (cases "ts = []")
    case True
    with s' show ?thesis
      by (auto simp: k st uz_before_def)
  next
    case False
    then have "uz_loop s'"
      using s' by (cases ts) (auto simp: uz_before_def)
    with False show ?thesis
      using Cons.IH [of "lz_apply acc t" k' s'] Cons.prems s' k by (simp add: st)
  qed
qed simp

end
