(* ===== verification/Fst_Fastlz_Correct.thy ===== *)
theory Fst_Fastlz_Correct
  imports Fst_Fastlz_Inv Fst_Fastlz_Decode
begin

text \<open>
  The compressor and the decompressor together: what \<open>fastlz_compress\<close> writes fits into the buffer
  that its documentation asks for and is decompressed to its input, and \<open>fastlz_decompress\<close> never
  writes more than it is allowed to, whatever it is given.
\<close>

section \<open>The loops of the compressor\<close>

lemma fz_step_good:
  assumes good: "fz_good N lv inp n s" and ip: "fz_ip s + 12 < n" and lv: "lv = 1 \<or> lv = 2"
    and n: "n \<le> length inp" "lv = 2 \<Longrightarrow> n < length inp" "n < 2 ^ 31"
    and N: "n + n div 32 + 1 \<le> N"
  shows "runs_to (fz_step lv inp (n - 2) s) (\<lambda>s'. fz_good N lv inp n s' \<and> fz_ip s < fz_ip s')"
proof -
  define a where "a = fz_ip s"
  obtain ts lits tab where inv: "fz_inv N lv inp n ts lits a tab s" and tab: "htab_ok a tab"
    using good by (auto simp: fz_good_def a_def)
  note rep = inv [unfolded fz_inv_def, THEN conjunct1]
  have a: "2 \<le> a" "a + 5 \<le> length inp" "a + 12 < n"
    using inv ip n by (auto simp: fz_inv_def a_def)
  show ?thesis
    unfolding fz_step_def runs_to_rbind
  proof (rule runs_to_mono [OF fz_candidate_spec [OF rep tab a(1,2) lv]], clarify)
    fix c s' tab'
    assume s': "fz_rep N (concat (map (lz_encode lv) ts) @ 31 # lits) a tab' (length lits) s'"
      and tab': "htab_ok (a + 1) tab'" and c: "\<forall>m. c = Some m \<longrightarrow> match_found lv inp a m"
    have inv': "fz_inv N lv inp n ts lits a tab' s'"
      using inv s' by (simp add: fz_inv_def)
    have ip': "fz_ip s' = a"
      using fz_repD(1) [OF s'] .
    show "runs_to (case c of None \<Rightarrow> fz_literal inp s' | Some m \<Rightarrow> fz_match lv inp (n - 2) m s')
            (\<lambda>s'. fz_good N lv inp n s' \<and> fz_ip s < fz_ip s')"
    proof (cases c)
      case None
      have "runs_to (fz_literal inp s') (\<lambda>s'. fz_good N lv inp n s' \<and> fz_ip s' = a + 1)"
        using fz_literal_good [of N lv inp n ts lits s' tab'] inv' tab' ip' a(3) n(1) N by simp
      then show ?thesis
        using None by (auto simp: a_def elim!: runs_to_mono)
    next
      case (Some m)
      then show ?thesis
        using fz_match_good [OF inv tab' s' _ a(3) lv n N] c by (simp add: a_def)
    qed
  qed
qed

lemma fz_loop_good:
  assumes lv: "lv = 1 \<or> lv = 2"
    and n: "n \<le> length inp" "lv = 2 \<Longrightarrow> n < length inp" "n < 2 ^ 31"
    and N: "n + n div 32 + 1 \<le> N"
  shows "fz_good N lv inp n s \<Longrightarrow> n \<le> k + fz_ip s \<Longrightarrow>
    runs_to (fz_loop k lv inp n s) (fz_good N lv inp n)"
proof (induction k arbitrary: s)
  case (Suc k)
  show ?case
  proof (cases "fz_ip s + 12 < n")
    case True
    have "runs_to (fz_step lv inp (n - 2) s) (\<lambda>s'. fz_good N lv inp n s' \<and> fz_ip s < fz_ip s')"
      by (rule fz_step_good [OF Suc.prems(1) True lv n N])
    then have "runs_to (rbind (fz_step lv inp (n - 2) s) (fz_loop k lv inp n)) (fz_good N lv inp n)"
      unfolding runs_to_rbind by (rule runs_to_mono) (use Suc in auto)
    then show ?thesis
      using True by simp
  qed (use Suc.prems in simp)
qed simp

lemma fz_good_ip: "fz_good N lv inp n s \<Longrightarrow> fz_ip s \<le> n"
  by (auto simp: fz_good_def fz_inv_def)

lemma fz_rest_good:
  assumes n: "n \<le> length inp" "0 < n" and N: "n + n div 32 + 1 \<le> N"
  shows "fz_good N lv inp n s \<Longrightarrow> n \<le> k + fz_ip s \<Longrightarrow>
    runs_to (fz_rest k inp (n - 1) s) (\<lambda>s'. fz_good N lv inp n s' \<and> fz_ip s' = n)"
proof (induction k arbitrary: s)
  case 0
  then show ?case
    using fz_good_ip [OF 0(1)] n(2) by simp
next
  case (Suc k)
  show ?case
  proof (cases "fz_ip s < n")
    case True
    obtain ts lits tab where inv: "fz_inv N lv inp n ts lits (fz_ip s) tab s"
      and "htab_ok (fz_ip s) tab"
      using Suc.prems(1) by (auto simp: fz_good_def)
    then have "htab_ok (fz_ip s + 1) tab"
      by (auto simp: htab_ok_def)
    from fz_literal_good [OF inv this True n(1) N]
    have "runs_to (rbind (fz_literal inp s) (fz_rest k inp (n - 1)))
            (\<lambda>s'. fz_good N lv inp n s' \<and> fz_ip s' = n)"
      unfolding runs_to_rbind by (rule runs_to_mono) (use Suc True in auto)
    moreover have "fz_ip s \<le> n - 1"
      using True by simp
    ultimately show ?thesis
      by simp
  next
    case False
    then have "\<not> fz_ip s \<le> n - 1" "fz_ip s = n"
      using n(2) fz_good_ip [OF Suc.prems(1)] by linarith+
    then show ?thesis
      using Suc.prems(1) by simp
  qed
qed

section \<open>The whole compressor\<close>

text \<open>
  \<open>compressed lv inp n c out\<close>: the first \<open>c\<close> bytes of \<open>out\<close> encode the first \<open>n\<close> of the input at
  level \<open>lv\<close>, with the level marked in the first byte.
\<close>

definition compressed :: "nat \<Rightarrow> byte list \<Rightarrow> nat \<Rightarrow> nat \<Rightarrow> byte list \<Rightarrow> bool" where
  "compressed lv inp n c out \<longleftrightarrow>
     (\<exists>ts b r. lz_all_fit lv [] ts \<and> lz_expand ts = take n inp \<and> lz_starts ts \<and>
        concat (map (lz_encode lv) ts) = b # r \<and>
        take c out = (if lv = 2 then b OR push_bit 5 1 else b) # r \<and> c = Suc (length r))"

lemma lz_starts_bytes: "lz_starts ts \<Longrightarrow> concat (map (lz_encode lv) ts) \<noteq> []"
  by (auto simp: lz_starts_def)

lemma fz_close_compressed:
  assumes good: "fz_good N lv inp n s" and ip: "fz_ip s = n" and n: "n \<le> length inp"
    and lv: "lv = 1 \<or> lv = 2"
  shows "runs_to (rbind (fz_close s) (\<lambda>s.
      rbind (if lv = 2
             then rbind (flz_get (fz_out s) 0) (\<lambda>b. array_set (fz_out s) 0 (b OR push_bit 5 1))
             else Done (fz_out s)) (\<lambda>o'. Done (int (fz_op s), o'))))
    (\<lambda>(c, out'). \<exists>k. c = int k \<and> k \<le> n + n div 32 + 1 \<and> length out' = N \<and>
                     compressed lv inp n k out')"
proof -
  obtain ts lits tab where inv: "fz_inv N lv inp n ts lits n tab s"
    using good ip by (auto simp: fz_good_def)
  note rep = inv [unfolded fz_inv_def, THEN conjunct1]
  let ?us = "ts @ lz_lits lits"
  have i: "lz_all_fit lv [] ts" "length lits < 32" "foldl lz_apply [] ts @ lits = take n inp"
      "lz_starts ?us" "32 * length (concat (map (lz_encode lv) ts) @ 31 # lits) + length lits \<le> 33 * n + 32"
    using inv by (simp_all add: fz_inv_def lz_expand_def)
  obtain b r where br: "concat (map (lz_encode lv) ?us) = b # r"
    using lz_starts_bytes [OF i(4)] by (metis neq_Nil_conv)
  have fit: "lz_all_fit lv [] ?us" and exp: "lz_expand ?us = take n inp"
    using i(1-3) by (simp_all add: lz_all_fit_append lz_lits_fit lz_expand_def)
  have le: "length (concat (map (lz_encode lv) ?us)) \<le> length (concat (map (lz_encode lv) ts) @ 31 # lits)"
    by (simp add: lz_lits_def)
  have size: "Suc (length r) \<le> n + n div 32 + 1"
  proof (rule room_bound [OF _ order_refl])
    show "32 * Suc (length r) \<le> 33 * n + 32"
      using i(5) le unfolding br by simp
  qed
  show ?thesis
    unfolding runs_to_rbind
  proof (rule runs_to_mono [OF fz_close_rep [OF rep, of lv]], goal_cases)
    case (1 s')
    then have s': "fz_rep N (b # r) n tab (length lits) s'"
      using br by simp
    note d = fz_repD [OF s']
    have out: "fz_out s' = b # r @ drop (Suc (length r)) (fz_out s')"
      using append_take_drop_id [of "length (b # r)" "fz_out s'"] d(4) by (metis append_Cons length_Cons)
    have fin: "compressed lv inp n (Suc (length r)) o'"
      if "take (Suc (length r)) o' = (if lv = 2 then b OR push_bit 5 1 else b) # r" for o'
      unfolding compressed_def using fit exp i(4) br that by blast
    show ?case
    proof (cases "lv = 2")
      case True
      let ?o = "(b OR push_bit 5 1) # r @ drop (Suc (length r)) (fz_out s')"
      have get: "flz_get (fz_out s') 0 = Done b"
        by (subst (1) out) simp
      have set: "array_set (fz_out s') 0 (b OR push_bit 5 1) = Done ?o"
        by (subst (1) out) (simp add: array_set_def)
      have "length ?o = N"
        using d(3) by (subst (asm) out) simp
      moreover have "compressed lv inp n (Suc (length r)) ?o"
        using True by (intro fin) simp
      ultimately show ?thesis
        unfolding if_P [OF True] get rbind_Done set runs_to_simps using d(2) size
        by (intro exI [of _ "Suc (length r)"] case_prodI) simp
    next
      case False
      then show ?thesis
        using d size fin [of "fz_out s'"]
        by (auto intro!: exI [of _ "Suc (length r)"])
    qed
  qed
qed

lemma FASTLZ_COMPRESSOR_long:
  assumes lv: "lv = 1 \<or> lv = 2"
    and n: "4 \<le> n" "n \<le> length inp" "lv = 2 \<Longrightarrow> n < length inp" "n < 2 ^ 31"
    and N: "n + n div 32 + 1 \<le> length out"
  shows "runs_to (FASTLZ_COMPRESSOR lv inp (int n) out)
    (\<lambda>(c, out'). \<exists>k. c = int k \<and> k \<le> n + n div 32 + 1 \<and> length out' = length out \<and>
                     compressed lv inp n k out')"
proof -
  let ?N = "length out" and ?tab = "replicate HASH_SIZE 0"
  let ?s0 = "\<lparr>fz_ip = 0, fz_op = 0, fz_out = out, fz_htab = ?tab, fz_copy = 0\<rparr>"
  have s0: "fz_rep ?N [] 0 ?tab 0 ?s0"
    by (simp add: fz_rep_def)
  have in0: "flz_get inp 0 = Done (inp ! 0)" and in1: "flz_get inp 1 = Done (inp ! 1)"
  proof -
    have "0 < length inp" "1 < length inp"
      using n(1,2) by linarith+
    then show "flz_get inp 0 = Done (inp ! 0)" "flz_get inp 1 = Done (inp ! 1)"
      by (simp_all only: flz_get_nth)
  qed
  have take2: "take 2 inp = [inp ! 0, inp ! 1]"
    using n(1,2) by (cases inp; cases "tl inp") auto
  have body: "FASTLZ_COMPRESSOR lv inp (int n) out =
     rbind (fz_put 31 ?s0) (\<lambda>s. rbind (fz_put (inp ! 0) s) (\<lambda>s. rbind (fz_put (inp ! 1) s) (\<lambda>s.
     rbind (fz_loop n lv inp n (s\<lparr>fz_ip := 2, fz_copy := 2\<rparr>)) (\<lambda>s.
     rbind (fz_rest n inp (n - 1) s) (\<lambda>s.
     rbind (fz_close s) (\<lambda>s.
      rbind (if lv = 2
             then rbind (flz_get (fz_out s) 0) (\<lambda>b. array_set (fz_out s) 0 (b OR push_bit 5 1))
             else Done (fz_out s)) (\<lambda>o'. Done (int (fz_op s), o'))))))))"
    using n(1) by (simp add: FASTLZ_COMPRESSOR_def Let_def in0 in1 [simplified] MAX_COPY_def)
  show ?thesis
    unfolding body
  proof (rule fz_put_then [OF s0], goal_cases)
    case (2 s1)
    from this(1) show ?case
    proof (rule fz_put_then, goal_cases)
      case (2 s2)
      from this(1) show ?case
      proof (rule fz_put_then, goal_cases)
        case (2 s3)
        then have "fz_inv ?N lv inp n [] [inp ! 0, inp ! 1] 2 ?tab (s3\<lparr>fz_ip := 2, fz_copy := 2\<rparr>)"
          using n(1) take2 by (simp add: fz_inv_def fz_rep_def lz_starts_def lz_lits_def)
        moreover have "htab_ok 2 ?tab"
          by (simp add: htab_ok_def)
        ultimately have "fz_good ?N lv inp n (s3\<lparr>fz_ip := 2, fz_copy := 2\<rparr>)"
          unfolding fz_good_def by auto
        then have loop: "runs_to (fz_loop n lv inp n (s3\<lparr>fz_ip := 2, fz_copy := 2\<rparr>))
            (fz_good ?N lv inp n)"
          by (intro fz_loop_good [OF lv n(2-4) N]) simp_all
        show ?case
          unfolding runs_to_rbind [of "fz_loop n lv inp n (s3\<lparr>fz_ip := 2, fz_copy := 2\<rparr>)"]
        proof (rule runs_to_mono [OF loop], goal_cases)
          case (1 s4)
          have "runs_to (fz_rest n inp (n - 1) s4) (\<lambda>s'. fz_good ?N lv inp n s' \<and> fz_ip s' = n)"
            using n(1) by (intro fz_rest_good [OF n(2) _ N] 1) simp_all
          then show ?case
            unfolding runs_to_rbind [of "fz_rest n inp (n - 1) s4"]
            by (rule runs_to_mono) (use fz_close_compressed [OF _ _ n(2) lv] in blast)
        qed
      qed (use n N in auto)
    qed (use n N in auto)
  qed (use n N in auto)
qed

lemma fz_copy_all_rep:
  "fz_rep N acc ip tab copy s \<Longrightarrow> p + k \<le> length inp \<Longrightarrow> length acc + k \<le> N \<Longrightarrow>
   runs_to (fz_copy_all inp k p s) (fz_rep N (acc @ take k (drop p inp)) ip tab copy)"
proof (induction k arbitrary: acc p s)
  case (Suc k)
  have t: "take (Suc k) (drop p inp) = inp ! p # take k (drop (p + 1) inp)"
    using Suc.prems(2) by (simp add: Cons_nth_drop_Suc [symmetric] del: Cons_nth_drop_Suc)
  have "runs_to (rbind (fz_put (inp ! p) s) (fz_copy_all inp k (p + 1)))
          (fz_rep N (acc @ take (Suc k) (drop p inp)) ip tab copy)"
    unfolding t
  proof (rule fz_put_then [OF Suc.prems(1)], goal_cases)
    case (2 s')
    then show ?case
      using Suc.IH [OF 2, of "p + 1"] Suc.prems(2,3) by simp
  qed (use Suc.prems in simp)
  then show ?case
    using Suc.prems(2) by simp
qed simp

lemma FASTLZ_COMPRESSOR_short:
  assumes n: "0 < n" "n < 4" "n \<le> length inp" and N: "n + 1 \<le> length out"
  shows "runs_to (FASTLZ_COMPRESSOR lv inp (int n) out)
    (\<lambda>(c, out'). c = int n + 1 \<and> length out' = length out \<and> compressed 1 inp n (n + 1) out')"
proof -
  let ?s0 = "\<lparr>fz_ip = 0, fz_op = 0, fz_out = out, fz_htab = replicate HASH_SIZE 0, fz_copy = 0\<rparr>"
  have s0: "fz_rep (length out) [] 0 (replicate HASH_SIZE 0) 0 ?s0"
    by (simp add: fz_rep_def)
  have b: "(word_of_int (int n - 1) :: byte) = word_of_nat (n - 1)"
    using n(1) by (cases n) simp_all
  have body: "FASTLZ_COMPRESSOR lv inp (int n) out =
      rbind (fz_put (word_of_nat (n - 1)) ?s0) (\<lambda>s.
      rbind (fz_copy_all inp n 0 s) (\<lambda>s. Done (int n + 1, fz_out s)))"
    unfolding FASTLZ_COMPRESSOR_def Let_def b using n by simp
  show ?thesis
    unfolding body
  proof (rule fz_put_then [OF s0], goal_cases)
    case (2 s1)
    have "runs_to (fz_copy_all inp n 0 s1)
        (fz_rep (length out) (word_of_nat (n - 1) # take n inp) 0 (replicate HASH_SIZE 0) 0)"
      using fz_copy_all_rep [OF 2, of 0 n inp] n(3) N by simp
    then show ?case
      unfolding runs_to_rbind
    proof (rule runs_to_mono, goal_cases)
      case (1 s2)
      have t: "length (take n inp) = n" "take n inp \<noteq> []"
        using n by auto
      have "compressed 1 inp n (n + 1) (fz_out s2)"
        unfolding compressed_def lz_starts_def
        using fz_repD(4) [OF 1] t n
        by (intro exI [of _ "[Literals (take n inp)]"] exI [of _ "word_of_nat (n - 1)"]
              exI [of _ "take n inp"]) (simp add: lz_expand_def)
      then show ?case
        using fz_repD(3) [OF 1] by simp
    qed
  qed (use N in auto)
qed

text \<open>
  At level 2 the compressor needs the byte behind the block: a far match of the last 13 bytes ends at
  the end of the block, and the hash of its last two bytes takes a third.
\<close>

lemma flz_unrolled_all:
  "repeats inp d ip (ip + k) \<Longrightarrow> 1 \<le> d \<Longrightarrow> d \<le> ip \<Longrightarrow> ip + k \<le> length inp \<Longrightarrow>
   flz_unrolled k inp ip_bound (ip - d) ip = flz_match_end inp ip_bound (ip + k - d) (ip + k)"
proof (induction k arbitrary: ip)
  case (Suc k)
  have "inp ! (ip - d) = inp ! ip" and r: "repeats inp d (ip + 1) (ip + 1 + k)"
    using Suc.prems(1) by (auto simp: repeats_def)
  moreover have "ip - d < length inp" "ip < length inp" "ip - d + 1 = ip + 1 - d"
    using Suc.prems by linarith+
  ultimately show ?case
    using Suc.IH [OF r] Suc.prems by simp
qed simp

lemma fastlz2_compress_reads_behind:
  assumes inv: "fz_inv N 2 inp n ts lits a tab s" and tab: "htab_ok (a + 1) tab"
    and n: "a + 13 = n" "n = length inp" and d: "8191 < d" "d < MAX_FARDISTANCE" "d \<le> a"
    and same: "repeats inp d a n" and N: "n + n div 32 + 1 \<le> N"
  shows "fz_match 2 inp (n - 2) (d, 5, a + 5 - d) s = Crash Out_of_bounds"
proof -
  note rep = inv [unfolded fz_inv_def, THEN conjunct1]
  let ?e = "concat (map (lz_encode 2) ts)" and ?l = "concat (map (lz_encode 2) (lz_lits lits))"
  let ?m = "concat (map (lz_encode 2) (lz_match 2 d 12))"
  have "flz_unrolled 8 inp (n - 2) (a + 5 - d) (a + 5) = flz_match_end inp (n - 2) (n - d) n"
    using flz_unrolled_all [of inp d "a + 5" 8 "n - 2"] same n d
    by (simp add: repeats_def add.assoc)
  also have "flz_match_end inp (n - 2) (n - d) n = Done n"
  proof -
    have "\<not> n < n - 2"
      by simp
    then show ?thesis
      by (subst flz_match_end.simps) (simp only: if_False)
  qed
  finally have scan: "flz_unrolled 8 inp (n - 2) (a + 5 - d) (a + 5) = Done n" .
  obtain s1 where close: "fz_close s = Done s1" and "fz_rep N (?e @ ?l) a tab (length lits) s1"
    using fz_close_rep [OF rep, of 2] by (auto simp: runs_to_iff)
  then have s1: "fz_rep N (?e @ ?l) (a + 10) tab 0 (s1\<lparr>fz_copy := 0, fz_ip := a + 10\<rparr>)"
    by (simp add: fz_rep_def)
  have "32 * length (concat (map (lz_encode 2) (ts @ lz_lits lits @ lz_match 2 d 12)) @ [31])
      \<le> 33 * (a + 12) + 32"
    by (rule fz_match_size [OF inv]) simp_all
  also have "33 * (a + 12) + 32 \<le> 33 * n + 32"
    using n(1) by simp
  finally have "length (concat (map (lz_encode 2) (ts @ lz_lits lits @ lz_match 2 d 12)) @ [31]) \<le> N"
    by (rule room_bound [OF _ N])
  then have room: "length (?e @ ?l) + length ?m \<le> N"
    by simp
  obtain s2 where enc: "fz_encode2 (d - 1) 10 (s1\<lparr>fz_copy := 0, fz_ip := a + 10\<rparr>) = Done s2"
    and s2: "fz_rep N ((?e @ ?l) @ ?m) (a + 10) tab 0 s2"
    using fz_encode_rep [OF s1, of 12 2 d] room by (auto simp: runs_to_iff)
  have "htab_ok (a + 10) tab" "a + 10 + 2 < length inp"
    using tab n by (auto simp: htab_ok_def)
  from fz_rehash_rep [OF s2 this] obtain s3 tab3 where h: "fz_rehash inp s2 = Done s3"
    and s3: "fz_rep N ((?e @ ?l) @ ?m) (a + 11) tab3 0 s3"
    by (auto simp: runs_to_iff add.commute)
  have "flz_get inp (a + 11) = Done (inp ! (a + 11))" "flz_get inp (a + 12) = Done (inp ! (a + 12))"
    "flz_get inp (a + 13) = Crash Out_of_bounds"
    using n by (simp_all add: flz_get_end)
  then have crash: "fz_rehash inp s3 = Crash Out_of_bounds"
    using fz_repD(1) [OF s3] by (simp add: fz_rehash_def HASH_FUNCTION_def FASTLZ_READU16_def add.commute)
  have "d - 1 \<noteq> 0" "n - 3 = a + 10" "n - (3 + a) = 10"
    using d(1) n(1) by simp_all
  then show ?thesis
    using fz_repD(1) [OF rep] by (simp add: fz_match_def Let_def scan close enc [simplified] h crash)
qed

section \<open>Decompression\<close>

lemma level_bits:
  fixes b :: byte
  assumes "unat b < 32"
  shows "unat (drop_bit 5 b) = 0" and "unat (drop_bit 5 (b OR push_bit 5 1)) = 1"
    and "(ucast b :: u32) AND 31 = ucast b" and "(ucast (b OR push_bit 5 1) :: u32) AND 31 = ucast b"
proof -
  have "\<forall>k \<in> set [0..<32]. let b = word_of_nat k :: byte in
      unat (drop_bit 5 b) = 0 \<and> unat (drop_bit 5 (b OR push_bit 5 1)) = 1 \<and>
      (ucast b :: u32) AND 31 = ucast b \<and> (ucast (b OR push_bit 5 1) :: u32) AND 31 = ucast b"
    by code_simp
  moreover have e: "word_of_nat (unat b) = b"
    by simp
  moreover have "unat b \<in> set [0..<32]"
    using assms by simp
  ultimately have "let b = word_of_nat (unat b) :: byte in
      unat (drop_bit 5 b) = 0 \<and> unat (drop_bit 5 (b OR push_bit 5 1)) = 1 \<and>
      (ucast b :: u32) AND 31 = ucast b \<and> (ucast (b OR push_bit 5 1) :: u32) AND 31 = ucast b"
    by blast
  then show "unat (drop_bit 5 b) = 0" and "unat (drop_bit 5 (b OR push_bit 5 1)) = 1"
    and "(ucast b :: u32) AND 31 = ucast b" and "(ucast (b OR push_bit 5 1) :: u32) AND 31 = ucast b"
    unfolding Let_def e by blast+
qed

lemma tokens_le_bytes: "length ts \<le> length (concat (map (lz_encode lv) ts))"
proof (induction ts)
  case (Cons t ts)
  have "1 \<le> length (lz_encode lv t)"
    using lz_encode_nonempty [of lv t] by (cases "lz_encode lv t") simp_all
  with Cons show ?case by simp
qed simp

lemma fastlz_decompress_compressed:
  assumes c: "compressed lv inp n k out" and lv: "lv = 1 \<or> lv = 2" and n: "n \<le> length inp"
    and room: "int n \<le> maxout" "maxout \<le> int (length dst)"
  shows "fastlz_decompress strict out (int k) dst maxout = Done (int n, take n inp @ drop n dst)"
proof -
  obtain ts b r where ts: "lz_all_fit lv [] ts" "lz_expand ts = take n inp" "lz_starts ts"
    and br: "concat (map (lz_encode lv) ts) = b # r"
    and out: "take k out = (if lv = 2 then b OR push_bit 5 1 else b) # r" and k: "k = Suc (length r)"
    using c by (auto simp: compressed_def)
  obtain bs us where bs: "ts = Literals bs # us" "bs \<noteq> []" "length bs \<le> 32"
    using ts(1,3) by (auto simp: lz_starts_def)
  have "b = word_of_nat (length bs - 1)"
    using br by (simp add: bs)
  moreover have "length bs - 1 < 32" "length bs - 1 < 256"
    using bs(3) by linarith+
  ultimately have b: "unat b < 32"
    by (simp only: unat_byte_of_nat)
  note lb = level_bits [OF b]
  have k_out: "k \<le> length out"
    using arg_cong [OF out, of length] k by simp
  let ?b = "if lv = 2 then b OR push_bit 5 1 else b"
  have left0: "left_at out k 0 = ?b # r"
    using out by (simp add: left_at_def)
  have b0: "flz_get out 0 = Done ?b" and left1: "left_at out k 1 = r"
    using left_at_Cons [OF left0] by simp_all
  have len: "length (foldl lz_apply [] ts) = n"
    using ts(2) n by (simp add: lz_expand_def)
  have init: "\<lparr>uz_ip = 1, uz_op = 0, uz_out = dst, uz_ctrl = ucast ?b AND 31, uz_loop = True\<rparr> =
      uz_at dst [] 1 (ucast b) True"
    using lb by (simp add: uz_at_def)
  have ts_k: "length ts \<le> Suc (nat (int k))"
    using tokens_le_bytes [of ts lv] br k by simp
  have "FASTLZ_DECOMPRESSOR strict lv out (int k) dst maxout =
      Done (int (length (foldl lz_apply [] ts)),
            foldl lz_apply [] ts @ drop (length (foldl lz_apply [] ts)) dst)"
    unfolding FASTLZ_DECOMPRESSOR_def b0 rbind_Done init
  proof (rule uz_loops_tokens [OF ts(1) _ ts_k lv _ _ room(2) k_out])
    show "uz_before dst [] out k (concat (map (lz_encode lv) ts)) (uz_at dst [] 1 (ucast b) True)"
      using left1 by (auto simp: br uz_before_def)
  qed (use room(1) len bs(1) in simp_all)
  then have dec: "FASTLZ_DECOMPRESSOR strict lv out (int k) dst maxout = Done (int n, take n inp @ drop n dst)"
    using len ts(2) by (simp add: lz_expand_def)
  show ?thesis
    using lv
  proof
    assume "lv = 1"
    then show ?thesis
      using dec lb(1) by (simp add: fastlz_decompress_def b0 Let_def)
  next
    assume "lv = 2"
    then show ?thesis
      using dec lb(2) by (simp add: fastlz_decompress_def b0 Let_def del: One_nat_def)
  qed
qed

section \<open>Any input of the decompressor\<close>

text \<open>
  The decompressor checks the literals, but not the bytes of a match, against the end of its input:
  it reads on behind it. It reads at most four bytes there when the first is not 255.
\<close>

definition padded :: "byte list \<Rightarrow> int \<Rightarrow> bool" where
  "padded inp n \<longleftrightarrow> nat n + 4 \<le> length inp \<and> inp ! nat n \<noteq> 255"

lemma uz_len2_safe:
  assumes pad: "padded inp n"
  shows "ip \<le> nat n \<Longrightarrow> runs_to (uz_len2 inp len ip) (\<lambda>(len', ip'). ip < ip' \<and> ip' \<le> nat n + 1)"
proof (induction "nat n - ip" arbitrary: len ip)
  case 0
  then have "ip = nat n"
    by simp
  then show ?case
    using pad by (subst uz_len2.simps) (simp add: padded_def)
next
  case (Suc m)
  have in1: "ip < length inp" and le: "ip + 1 \<le> nat n" and m: "m = nat n - (ip + 1)"
    using Suc.prems Suc.hyps(2) pad by (auto simp: padded_def)
  have "runs_to (uz_len2 inp l (ip + 1)) (\<lambda>(len', ip'). ip < ip' \<and> ip' \<le> nat n + 1)" for l
    by (rule runs_to_mono [OF Suc.hyps(1) [OF m le]]) auto
  then show ?case
    using in1 le by (subst uz_len2.simps) simp
qed

lemma neg_uint_le: "- uint (a :: 'a :: len word) \<le> uint (b :: 'b :: len word)"
  by (rule order_trans [of _ 0]) simp_all

lemma neg_uint_le_int: "- uint (a :: 'a :: len word) \<le> int n"
  by (rule order_trans [of _ 0]) simp_all

lemma uz_operands_safe:
  assumes pad: "padded inp n" and ip: "uz_ip s \<le> nat n"
  shows "runs_to (if lv = 1 then uz_operands1 inp s else uz_operands2 inp s)
    (\<lambda>(len, ref, ip'). ref \<le> int (uz_op s) \<and> uz_ip s < ip')"
proof -
  have len: "nat n + 4 \<le> length inp"
    using pad by (simp add: padded_def)
  have len2: "runs_to (uz_length2 inp l (uz_ip s)) (\<lambda>(len', ip'). uz_ip s \<le> ip' \<and> ip' \<le> nat n + 1)"
    for l
    using uz_len2_safe [OF pad ip, of l] ip by (auto simp: uz_length2_def elim!: runs_to_mono)
  have "runs_to (uz_operands1 inp s) (\<lambda>(len, ref, ip'). ref \<le> int (uz_op s) \<and> uz_ip s < ip')"
    using len ip by (simp add: uz_operands1_def Let_def neg_uint_le)
  moreover have "runs_to (uz_operands2 inp s) (\<lambda>(len, ref, ip'). ref \<le> int (uz_op s) \<and> uz_ip s < ip')"
    unfolding uz_operands2_alt runs_to_rbind
    by (rule runs_to_mono [OF len2]) (use len in \<open>auto simp: runs_to_rbind neg_uint_le neg_uint_le_int\<close>)
  ultimately show ?thesis
    by simp
qed

text \<open>What a pass may do to the output: extend what has been written, up to \<open>maxout\<close>.\<close>

definition uz_kept :: "byte list \<Rightarrow> int \<Rightarrow> int \<Rightarrow> unz \<Rightarrow> bool" where
  "uz_kept dst maxout n s \<longleftrightarrow>
     (\<exists>acc ip ctrl loop. s = uz_at dst acc ip ctrl loop \<and> int (length acc) \<le> max 0 maxout \<and>
        (loop \<longrightarrow> ip \<le> nat n \<or> ctrl < 32))"

definition wrote_at_most :: "byte list \<Rightarrow> int \<Rightarrow> byte list \<Rightarrow> bool" where
  "wrote_at_most dst maxout out \<longleftrightarrow>
     length out = length dst \<and> drop (nat maxout) out = drop (nat maxout) dst"

lemma wrote_at_mostI:
  assumes "int (length acc) \<le> max 0 maxout" and "maxout \<le> int (length dst)"
  shows "wrote_at_most dst maxout (acc @ drop (length acc) dst)"
  using assms by (auto simp: wrote_at_most_def)

definition uz_step_ok :: "byte list \<Rightarrow> int \<Rightarrow> int \<Rightarrow> unz \<Rightarrow> byte list + unz \<Rightarrow> bool" where
  "uz_step_ok dst maxout n s x \<longleftrightarrow>
     (case x of Inl out \<Rightarrow> wrote_at_most dst maxout out
      | Inr s' \<Rightarrow> uz_kept dst maxout n s' \<and> (uz_loop s' \<longrightarrow> uz_ip s < uz_ip s' \<and> uz_ip s' \<le> nat n))"

lemma uz_keptI:
  "int (length acc) \<le> max 0 maxout \<Longrightarrow> (loop \<Longrightarrow> ip \<le> nat n) \<Longrightarrow>
   uz_kept dst maxout n (uz_at dst acc ip ctrl loop)"
  unfolding uz_kept_def by blast

lemma uz_literals_safe:
  assumes s: "s = uz_at dst acc ip ctrl True" and ctrl: "ctrl < 32"
    and acc: "int (length acc) \<le> max 0 maxout" and dst: "maxout \<le> int (length dst)"
    and n: "nat n \<le> length inp"
  shows "runs_to (uz_literals inp n maxout s) (uz_step_ok dst maxout n s)"
proof -
  define c where "c = unat (ctrl + 1)"
  have c: "0 < c"
  proof -
    have "unat ctrl < 32"
      using ctrl by (simp add: word_less_nat_alt)
    then show ?thesis
      by (simp add: c_def unat_word_ariths)
  qed
  consider "maxout < int (length acc) + int c" | "\<not> maxout < int (length acc) + int c" "n < int ip + int c"
    | (copy) "\<not> maxout < int (length acc) + int c" "\<not> n < int ip + int c"
    by blast
  then show ?thesis
  proof cases
    case copy
    define bs where "bs = take c (drop ip (take (nat n) inp))"
    have left: "left_at inp (nat n) ip = bs @ drop c (drop ip (take (nat n) inp))"
      unfolding bs_def left_at_def by (simp only: append_take_drop_id)
    have bs: "length bs = c"
      using copy(2) n by (simp add: bs_def)
    have room: "length acc + length bs \<le> length dst"
      using copy(1) dst bs by simp
    have fit: "int (length (acc @ bs)) \<le> max 0 maxout"
      using copy(1) bs by simp
    note cp = uz_copy_in_at [OF left room, of ctrl True, unfolded bs]
    show ?thesis
    proof (cases "int (ip + c) < n")
      case True
      then have "flz_get inp (ip + c) = Done (inp ! (ip + c))"
        using n by (intro flz_get_nth) linarith
      moreover have "uz_kept dst maxout n (uz_at dst (acc @ bs) (ip + c + 1) (ucast (inp ! (ip + c))) True)"
        using True by (intro uz_keptI [OF fit]) linarith
      ultimately show ?thesis
        using copy True c unfolding uz_literals_def s uz_at_simps Let_def c_def [symmetric] cp
        by (auto simp: uz_literals_def s uz_step_ok_def cp)
    next
      case False
      have "uz_kept dst maxout n (uz_at dst (acc @ bs) (ip + c) ctrl False)"
        by (intro uz_keptI [OF fit]) simp
      then show ?thesis
        using copy False unfolding uz_literals_def s uz_at_simps Let_def c_def [symmetric] cp
        by (auto simp: uz_step_ok_def cp)
    qed
  qed (use wrote_at_mostI [OF acc dst] in
       \<open>simp_all add: uz_literals_def s Let_def c_def [symmetric] uz_step_ok_def\<close>)
qed

lemma uz_copy_safe:
  assumes ref: "1 \<le> ref" "ref \<le> int (length acc)" and room: "length acc + l + 3 \<le> length dst"
  shows "\<exists>acc'. length acc' = length acc + l + 3 \<and>
    uz_copy strict l ref (uz_at dst acc ip ctrl loop) =
    Done (uz_at dst acc' ip ctrl loop)"
proof (cases "ref = int (length acc)")
  case True
  then have "acc \<noteq> []" and "nat (ref - 1) = length acc - 1"
    using ref by auto
  then show ?thesis
    using True room uz_fill_at [of acc "last acc" "3 + l" dst ip ctrl loop]
    by (intro exI [of _ "lz_copy (3 + l) 1 acc"]) (simp add: uz_copy_def last_conv_nth)
next
  case False
  then have "nat (ref - 1) + 1 < length acc"
    using ref by linarith
  from uz_copy_ref_at [OF this room, of strict ip ctrl loop] show ?thesis
    using False ref by (intro exI [of _ "lz_copy (l + 3) (length acc - nat (ref - 1)) acc"]) (simp add: uz_copy_def)
qed

lemma uz_match_safe:
  assumes s: "s = uz_at dst acc ip ctrl True" and pad: "padded inp n" and ip: "ip \<le> nat n"
    and acc: "int (length acc) \<le> max 0 maxout" and dst: "maxout \<le> int (length dst)"
  shows "runs_to (uz_match strict lv inp n maxout s) (uz_step_ok dst maxout n s)"
proof -
  have ops: "runs_to (if lv = 1 then uz_operands1 inp s else uz_operands2 inp s)
    (\<lambda>(len, ref, ip'). ref \<le> int (length acc) \<and> ip < ip')"
    using uz_operands_safe [OF pad, of s lv] ip by (simp add: s)
  have n: "nat n < length inp"
    using pad by (simp add: padded_def)
  show ?thesis
    unfolding uz_match_def runs_to_rbind
  proof (rule runs_to_mono [OF ops], clarify)
    fix len :: u32 and ref ip'
    assume ref: "ref \<le> int (length acc)" and ip': "ip < ip'"
    define l where "l = unat len"
    show "runs_to (if maxout < int (uz_op s) + int (unat len) + 3 then Done (Inl (uz_out s))
       else if ref - 1 < 0 then Done (Inl (uz_out s))
       else rbind (if int ip' < n then rbind (flz_get inp ip')
                     (\<lambda>b. Done (s\<lparr>uz_ctrl := ucast b, uz_ip := ip' + 1\<rparr>))
                   else Done (s\<lparr>uz_ip := ip', uz_loop := False\<rparr>))
            (\<lambda>s. rbind (uz_copy strict (unat len) ref s) (\<lambda>s. Done (Inr s)))) (uz_step_ok dst maxout n s)"
      unfolding l_def [symmetric] s uz_at_simps
    proof (intro runs_to_If)
      assume fit: "\<not> maxout < int (length acc) + int l + 3" and pos: "\<not> ref - 1 < 0"
      define ctrl' where "ctrl' = (if int ip' < n then ucast (inp ! ip') else ctrl)"
      define ip2 where "ip2 = (if int ip' < n then ip' + 1 else ip')"
      have go_on: "(if int ip' < n then rbind (flz_get inp ip') (\<lambda>b. Done (uz_at dst acc (ip' + 1) (ucast b) True))
          else Done (uz_at dst acc ip' ctrl False)) = Done (uz_at dst acc ip2 ctrl' (int ip' < n))"
        using n by (simp add: ctrl'_def ip2_def)
      obtain acc' where acc': "length acc' = length acc + l + 3"
        and copy: "uz_copy strict l ref (uz_at dst acc ip2 ctrl' (int ip' < n)) =
          Done (uz_at dst acc' ip2 ctrl' (int ip' < n))"
        using uz_copy_safe [of ref acc l dst strict ip2 ctrl' "int ip' < n"] ref pos fit dst by auto
      have "uz_kept dst maxout n (uz_at dst acc' ip2 ctrl' (int ip' < n))"
        using acc' fit by (intro uz_keptI) (auto simp: ip2_def)
      then show "runs_to (rbind (if int ip' < n then rbind (flz_get inp ip')
                     (\<lambda>b. Done (uz_at dst acc (ip' + 1) (ucast b) True))
                   else Done (uz_at dst acc ip' ctrl False))
            (\<lambda>s. rbind (uz_copy strict l ref s) (\<lambda>s. Done (Inr s)))) (uz_step_ok dst maxout n (uz_at dst acc ip ctrl True))"
        unfolding go_on rbind_Done uz_at_simps copy runs_to_simps
        using ip' by (auto simp: uz_step_ok_def ip2_def)
    qed (use wrote_at_mostI [OF acc dst] in \<open>simp_all add: uz_step_ok_def\<close>)
  qed
qed

lemma uz_loops_safe:
  assumes pad: "padded inp n" and dst: "maxout \<le> int (length dst)"
  shows "uz_kept dst maxout n s \<Longrightarrow> uz_loop s \<Longrightarrow> 0 < k \<Longrightarrow> nat n < k + uz_ip s \<Longrightarrow>
    runs_to (uz_loops k strict lv inp n maxout s)
      (\<lambda>(r, out). 0 \<le> r \<and> r \<le> max 0 maxout \<and> wrote_at_most dst maxout out)"
proof (induction k arbitrary: s)
  case (Suc k)
  obtain acc ip ctrl where s: "s = uz_at dst acc ip ctrl True" and acc: "int (length acc) \<le> max 0 maxout"
    and ip: "ip \<le> nat n \<or> ctrl < 32"
    using Suc.prems(1,2) by (auto simp: uz_kept_def)
  have n: "nat n \<le> length inp"
    using pad by (simp add: padded_def)
  have "runs_to (uz_step strict lv inp n maxout s) (uz_step_ok dst maxout n s)"
  proof (cases "32 \<le> ctrl")
    case True
    then have "ip \<le> nat n"
      using ip leD by blast
    then show ?thesis
      using uz_match_safe [OF s pad _ acc dst] True by (simp add: uz_step_def s)
  next
    case False
    then have "ctrl < 32"
      by simp
    then show ?thesis
      using uz_literals_safe [OF s _ acc dst n] False by (simp add: uz_step_def s)
  qed
  then show ?case
    unfolding uz_loops.simps runs_to_rbind
  proof (rule runs_to_mono, goal_cases)
    case (1 x)
    show ?case
    proof (cases x)
      case (Inl out)
      then show ?thesis
        using 1 by (simp add: uz_step_ok_def)
    next
      case (Inr s')
      then have k: "uz_kept dst maxout n s'" "uz_loop s' \<Longrightarrow> uz_ip s < uz_ip s' \<and> uz_ip s' \<le> nat n"
        using 1 by (simp_all add: uz_step_ok_def)
      show ?thesis
      proof (cases "uz_loop s'")
        case True
        then show ?thesis
          using Suc.IH [OF k(1)] k(2) Suc.prems(4) Inr by simp
      next
        case False
        obtain acc' ip' ctrl' where "s' = uz_at dst acc' ip' ctrl' False"
          and "int (length acc') \<le> max 0 maxout"
          using k(1) False by (auto simp: uz_kept_def)
        then show ?thesis
          using Inr wrote_at_mostI [OF _ dst, of acc'] by simp
      qed
    qed
  qed
qed simp

section \<open>The interface\<close>

lemma FASTLZ_COMPRESSOR_good:
  assumes lv: "lv = 1 \<or> lv = 2"
    and n: "0 < n" "n \<le> length inp" "lv = 2 \<Longrightarrow> n < length inp" "n < 2 ^ 31"
    and N: "n + n div 32 + 1 \<le> length buf"
  obtains c out lv' where "FASTLZ_COMPRESSOR lv inp (int n) buf = Done (int c, out)"
    and "c \<le> n + n div 32 + 1" and "length out = length buf"
    and "lv' = 1 \<or> lv' = 2" and "compressed lv' inp n c out"
proof (cases "n < 4")
  case True
  have N1: "n + 1 \<le> length buf"
    using N by linarith
  from FASTLZ_COMPRESSOR_short [OF n(1) True n(2) N1, of lv] show thesis
    using that [of "n + 1" _ 1] by (auto simp: runs_to_iff)
next
  case False
  then have n4: "4 \<le> n"
    by simp
  from FASTLZ_COMPRESSOR_long [OF lv n4 n(2,3,4) N] show thesis
    using that [OF _ _ _ lv] by (auto simp: runs_to_iff)
qed

text \<open>The buffer that \<open>fastlz.h\<close> asks for: 5% larger than the input, and 66 bytes at least.\<close>

lemma documented_room: "66 \<le> N \<Longrightarrow> 21 * n \<le> 20 * N \<Longrightarrow> n + n div 32 + 1 \<le> (N :: nat)"
  by (cases "n \<le> 63") linarith+

lemma fastlz_compress_level_roundtrip:
  assumes "level = 1 \<or> level = 2"
    and "0 < n" and "n < 2 ^ 31" and "n \<le> length inp" and "level = 2 \<Longrightarrow> n < length inp"
    and "66 \<le> length buf" and "21 * n \<le> 20 * length buf"
    and "int n \<le> maxout" and "maxout \<le> int (length dst)"
  shows "\<exists>c out. fastlz_compress_level level inp (int n) buf = Done (int c, out) \<and>
    length out = length buf \<and> c \<le> n + n div 32 + 1 \<and>
    fastlz_decompress strict out (int c) dst maxout = Done (int n, take n inp @ drop n dst)"
proof -
  define lv :: nat where "lv = nat level"
  have lv: "lv = 1 \<or> lv = 2" "lv = 2 \<Longrightarrow> n < length inp"
    using assms(1,5) by (auto simp: lv_def)
  have "fastlz_compress_level level inp (int n) buf = FASTLZ_COMPRESSOR lv inp (int n) buf"
    using assms(1) by (auto simp: lv_def fastlz_compress_level_def fastlz1_compress_def fastlz2_compress_def)
  with FASTLZ_COMPRESSOR_good [OF lv(1) assms(2,4) lv(2) assms(3) documented_room [OF assms(6,7)]]
  obtain c out lv' where c: "fastlz_compress_level level inp (int n) buf = Done (int c, out)"
    "c \<le> n + n div 32 + 1" "length out = length buf" "lv' = 1 \<or> lv' = 2" "compressed lv' inp n c out"
    by metis
  show ?thesis
    using c fastlz_decompress_compressed [OF c(5,4) assms(4,8,9)] by blast
qed

text \<open>
  \<open>fastlz_restored compress inp n buf strict dst maxout\<close>: the function \<open>compress\<close> returns, its result is
  at most one byte for the first literals and one for each 32 bytes larger than the input, and
  decompressing it into \<open>dst\<close> gives back the \<open>n\<close> bytes and leaves the rest of \<open>dst\<close> alone.
\<close>

definition fastlz_restored :: "(byte list \<Rightarrow> int \<Rightarrow> byte list \<Rightarrow> (int \<times> byte list) run) \<Rightarrow> byte list \<Rightarrow> nat \<Rightarrow>
    byte list \<Rightarrow> bool \<Rightarrow> byte list \<Rightarrow> int \<Rightarrow> bool" where
  "fastlz_restored compress inp n buf strict dst maxout \<longleftrightarrow>
     (\<exists>c out. compress inp (int n) buf = Done (int c, out) \<and>
        length out = length buf \<and> c \<le> n + n div 32 + 1 \<and>
        fastlz_decompress strict out (int c) dst maxout = Done (int n, take n inp @ drop n dst))"

text \<open>
  C3: What \<open>fastlz_compress\<close> writes, and what \<open>fastlz_compress_level\<close> writes at either of its levels,
  \<open>fastlz_decompress\<close> turns back into its input. For an input of any positive size that an \<open>int\<close> can hold,
  and an output buffer as \<open>fastlz.h\<close> asks for (5% larger than the input, and 66 bytes or more), the
  compressor returns without an access outside of its buffers and its result is at most one byte for the
  first literals and one for each 32 bytes larger than the input; decompressing it, with any output
  buffer that is large enough, gives back the input and leaves the rest of that buffer alone, on builds
  with and without \<open>FASTLZ_STRICT_ALIGN\<close>. Level 2, which \<open>fastlz_compress\<close> takes for blocks of 65536 bytes
  or more, needs an input object that is one byte longer than the block.
\<close>

theorem fastlz_roundtrip:
  assumes "0 < n" and "n < 2 ^ 31" and "n \<le> length inp"
    and "level = 1 \<or> level = 2" and "level = 1 \<and> n < 65536 \<or> n < length inp"
    and "66 \<le> length buf" and "21 * n \<le> 20 * length buf"
    and "int n \<le> maxout" and "maxout \<le> int (length dst)"
  shows "fastlz_restored fastlz_compress inp n buf strict dst maxout \<and>
    fastlz_restored (fastlz_compress_level level) inp n buf strict dst maxout"
proof -
  have by_level: "fastlz_restored (fastlz_compress_level l) inp n buf strict dst maxout"
    if "l = 1 \<or> l = 2" "l = 2 \<Longrightarrow> n < length inp" for l
    using fastlz_compress_level_roundtrip [OF that(1) assms(1-3) that(2) assms(6-9)]
    by (simp add: fastlz_restored_def)
  have "fastlz_compress inp (int n) buf = fastlz_compress_level (if n < 65536 then 1 else 2) inp (int n) buf"
    by (simp add: fastlz_compress_def fastlz_compress_level_def)
  then have "fastlz_restored fastlz_compress inp n buf strict dst maxout"
    using by_level [of "if n < 65536 then 1 else 2"] assms(5) by (auto simp: fastlz_restored_def split: if_splits)
  then show ?thesis
    using by_level [of level] assms(4,5) by auto
qed

theorem fastlz_roundtrip_witness:
  "fastlz_restored fastlz_compress (replicate 20 7 @ [1, 2, 3, 4]) 23 (replicate 66 0) False (replicate 30 0) 30 \<and>
   fastlz_restored (fastlz_compress_level 2) (replicate 20 7 @ [1, 2, 3, 4]) 23 (replicate 66 0) False (replicate 30 0) 30"
  using fastlz_roundtrip [of 23 "replicate 20 7 @ [1, 2, 3, 4]" 2 "replicate 66 0" 30 "replicate 30 0" False]
  by simp

text \<open>
  C15: Given an input object that goes on for four bytes behind \<open>length\<close>, the first of which is not 255,
  \<open>fastlz_decompress\<close> returns, whatever the bytes of the input are, and whatever level they ask for. It makes
  no access outside of its input object and of its output buffer, and it reads only bytes of the output
  that it has written before (a read in front of the output or of memory that it has not written is a crash
  of the model). Its result is between 0 and \<open>maxout\<close>, and what is behind \<open>maxout\<close> bytes is as before. The
  assumption on the input is needed: \<open>fastlz_decompress_reads_behind\<close> below.
\<close>

theorem fastlz_decompress_safe:
  assumes "nat n + 4 \<le> length inp" and "inp ! nat n \<noteq> 255" and "maxout \<le> int (length dst)"
  shows "\<exists>r out. fastlz_decompress strict inp n dst maxout = Done (r, out) \<and>
    0 \<le> r \<and> r \<le> max 0 maxout \<and> length out = length dst \<and>
    drop (nat maxout) out = drop (nat maxout) dst"
proof -
  have pad: "padded inp n"
    using assms(1,2) by (simp add: padded_def)
  have in0: "flz_get inp 0 = Done (inp ! 0)"
    using assms(1) by (intro flz_get_nth) linarith
  have ctrl: "(ucast (inp ! 0) :: u32) AND 31 < 32"
  proof -
    have "(ucast (inp ! 0) :: u32) AND 31 \<le> 31"
      by (rule word_and_le1)
    also have "(31 :: u32) < 32"
      by simp
    finally show ?thesis .
  qed
  have "runs_to (FASTLZ_DECOMPRESSOR strict lv inp n dst maxout)
      (\<lambda>(r, out). 0 \<le> r \<and> r \<le> max 0 maxout \<and> wrote_at_most dst maxout out)" for lv
    unfolding FASTLZ_DECOMPRESSOR_def in0 rbind_Done
  proof (rule uz_loops_safe [OF pad assms(3)])
    show "uz_kept dst maxout n
        \<lparr>uz_ip = 1, uz_op = 0, uz_out = dst, uz_ctrl = ucast (inp ! 0) AND 31, uz_loop = True\<rparr>"
      using ctrl unfolding uz_kept_def
      by (intro exI [of _ "[]"] exI [of _ 1] exI [of _ "ucast (inp ! 0) AND 31"] exI [of _ True])
        (simp add: uz_at_def)
  qed simp_all
  then have dec: "\<exists>r out. FASTLZ_DECOMPRESSOR strict lv inp n dst maxout = Done (r, out) \<and>
      0 \<le> r \<and> r \<le> max 0 maxout \<and> length out = length dst \<and>
      drop (nat maxout) out = drop (nat maxout) dst" for lv
    by (fastforce simp: runs_to_iff wrote_at_most_def)
  show ?thesis
    using dec [of 1] dec [of 2] by (simp add: fastlz_decompress_def in0 Let_def)
qed

theorem fastlz_decompress_safe_witness:
  "\<exists>r out. fastlz_decompress True [0x21, 9, 8, 0xe0, 0, 0, 0, 0] 4 (replicate 9 1) 6 = Done (r, out) \<and>
    0 \<le> r \<and> r \<le> 6 \<and> length out = 9 \<and> drop 6 out = replicate 3 1"
  using fastlz_decompress_safe [of 4 "[0x21, 9, 8, 0xe0, 0, 0, 0, 0]" 6 "replicate 9 1" True]
  by simp

text \<open>
  The bytes of a match are not checked against the end of the input: a block that is cut off behind
  the first byte of a match makes the decompressor read behind the object it is given.
\<close>

lemma fastlz_decompress_reads_behind:
  "fastlz_decompress strict [0, 7, 0x20] 3 (replicate 10 0) 10 = Crash Out_of_bounds"
  by code_simp

end
