(* ===== verification/Fst_Numbers.thy ===== *)
theory Fst_Numbers
  imports Ghw_Numbers
begin

text \<open>
  The number encodings of FST files, at the head of \<open>src/src/grt/fst/fstapi.c\<close>: big-endian 64-bit
  numbers, and variable-length numbers that are written into a file or into memory and read from
  either. A file that is written is the list of its bytes; a pointer into memory is an offset, and an
  access outside of the object is \<open>Crash Out_of_bounds\<close>.
\<close>

section \<open>Fixed width\<close>

definition fst_at :: "byte list \<Rightarrow> nat \<Rightarrow> byte run" where
  "fst_at mem p = array_get (length mem) mem p"

text \<open>A little-endian machine.\<close>

definition fstGetUint32 :: "byte list \<Rightarrow> u32 run" where
  "fstGetUint32 mem =
     rbind (fst_at mem 0) (\<lambda>a. rbind (fst_at mem 1) (\<lambda>b.
     rbind (fst_at mem 2) (\<lambda>c. rbind (fst_at mem 3) (\<lambda>d.
       Done (ucast a OR push_bit 8 (ucast b) OR push_bit 16 (ucast c) OR push_bit 24 (ucast d))))))"

text \<open>The buffer is filled from its last byte to its first.\<close>

primrec fst_u64_buf :: "nat \<Rightarrow> u64 \<Rightarrow> byte list" where
  "fst_u64_buf 0 v = []"
| "fst_u64_buf (Suc i) v = fst_u64_buf i (drop_bit 8 v) @ [ucast (v AND 0xff)]"

definition fstWriterUint64 :: "byte list \<Rightarrow> u64 \<Rightarrow> int \<times> byte list" where
  "fstWriterUint64 handle v = (8, handle @ fst_u64_buf 8 v)"

definition fstReaderUint64 :: "c_file \<Rightarrow> (u64 \<times> c_file) run" where
  "fstReaderUint64 f = (case fread 8 f of
       (None, f) \<Rightarrow> Crash Uninitialised
     | (Some buf, f) \<Rightarrow> Done (foldl (\<lambda>val b. push_bit 8 val OR ucast b) 0 buf, f))"

section \<open>Variable length\<close>

text \<open>\<open>while (*mem & 0x80) mem++\<close>\<close>

function fst_skip :: "byte list \<Rightarrow> nat \<Rightarrow> nat run" where
  "fst_skip mem p = rbind (fst_at mem p) (\<lambda>b. if b AND 0x80 \<noteq> 0 then fst_skip mem (p + 1) else Done p)"
  by pat_completeness auto
termination
  by (relation "measure (\<lambda>(mem, p). length mem - p)") (auto simp: fst_at_def)

declare fst_skip.simps [simp del]

text \<open>The \<open>for (;;)\<close> that goes back to the first byte.\<close>

primrec fst_collect :: "byte list \<Rightarrow> 'w::len word \<Rightarrow> nat \<Rightarrow> 'w word run" where
  "fst_collect mem rc 0 =
     rbind (fst_at mem 0) (\<lambda>b. Done (push_bit 7 rc OR ucast (b AND 0x7f)))"
| "fst_collect mem rc (Suc p) =
     rbind (fst_at mem (Suc p)) (\<lambda>b. fst_collect mem (push_bit 7 rc OR ucast (b AND 0x7f)) p)"

definition fstGetVarint32 :: "byte list \<Rightarrow> (u32 \<times> int) run" where
  "fstGetVarint32 mem =
     rbind (fst_skip mem 0) (\<lambda>p. rbind (fst_collect mem 0 p) (\<lambda>rc. Done (rc, int p + 1)))"

definition fstGetVarint32Length :: "byte list \<Rightarrow> u32 run" where
  "fstGetVarint32Length mem = rbind (fst_skip mem 0) (\<lambda>p. Done (word_of_nat (p + 1)))"

definition fstGetVarint32NoSkip :: "byte list \<Rightarrow> u32 run" where
  "fstGetVarint32NoSkip mem = rbind (fst_skip mem 0) (fst_collect mem 0)"

definition fstGetVarint64 :: "byte list \<Rightarrow> (u64 \<times> int) run" where
  "fstGetVarint64 mem =
     rbind (fst_skip mem 0) (\<lambda>p. rbind (fst_collect mem 0 p) (\<lambda>rc. Done (rc, int p + 1)))"

text \<open>
  The readers from a file collect the bytes in a buffer of a fixed size first. At the end of the
  file \<open>fgetc\<close> returns \<open>EOF\<close>, whose continuation bit is set.
\<close>

function fst_fill :: "nat \<Rightarrow> byte list \<Rightarrow> c_file \<Rightarrow> (byte list \<times> c_file) run" where
  "fst_fill siz buf f =
     (let (c, f) = fgetc f; ch = (case c of None \<Rightarrow> -1 | Some b \<Rightarrow> b) in
      if length buf < siz
      then if ch AND 0x80 \<noteq> 0 then fst_fill siz (buf @ [ch]) f else Done (buf @ [ch], f)
      else Crash Out_of_bounds)"
  by pat_completeness auto
termination
  by (relation "measure (\<lambda>(siz, buf, f). siz - length buf)") auto

declare fst_fill.simps [simp del]

definition fstReaderVarint32 :: "c_file \<Rightarrow> (u32 \<times> c_file) run" where
  "fstReaderVarint32 f =
     rbind (fst_fill 5 [] f) (\<lambda>(buf, f).
     rbind (fst_collect buf 0 (length buf - 1)) (\<lambda>rc. Done (rc, f)))"

definition fstReaderVarint32WithSkip :: "c_file \<Rightarrow> (u32 \<times> u32 \<times> c_file) run" where
  "fstReaderVarint32WithSkip f =
     rbind (fst_fill 5 [] f) (\<lambda>(buf, f).
     rbind (fst_collect buf 0 (length buf - 1)) (\<lambda>rc. Done (rc, word_of_nat (length buf), f)))"

definition fstReaderVarint64 :: "c_file \<Rightarrow> (u64 \<times> c_file) run" where
  "fstReaderVarint64 f =
     rbind (fst_fill 16 [] f) (\<lambda>(buf, f).
     rbind (fst_collect buf 0 (length buf - 1)) (\<lambda>rc. Done (rc, f)))"

lemma unat_drop7: "unat (drop_bit 7 v) = unat v div 128"
  by (simp only: unat_drop_bit_eq) (simp add: drop_bit_eq_div)

text \<open>The loop that writes the groups of seven bits, the lowest first.\<close>

function fst_spill :: "'w::len word \<Rightarrow> byte list \<Rightarrow> nat \<Rightarrow> (byte list \<times> nat) run" where
  "fst_spill v mem pnt =
     (let nxt = drop_bit 7 v in
      if nxt \<noteq> 0
      then rbind (array_set mem (int pnt) (ucast v OR 0x80)) (\<lambda>mem. fst_spill nxt mem (pnt + 1))
      else rbind (array_set mem (int pnt) (ucast v)) (\<lambda>mem. Done (mem, pnt + 1)))"
  by pat_completeness auto
termination
proof (relation "measure (\<lambda>(v, mem, pnt). unat v)", goal_cases)
  case (2 v mem pnt nxt x)
  have "v \<noteq> 0"
    using 2 by auto
  then have "unat v \<noteq> 0"
    by (simp add: unat_gt_0)
  moreover have "unat (drop_bit 7 v) = unat v div 128"
    by (rule unat_drop7)
  ultimately show ?case
    using 2(1) by simp
qed simp

declare fst_spill.simps [simp del]

definition fstCopyVarint64ToRight :: "byte list \<Rightarrow> nat \<Rightarrow> u64 \<Rightarrow> (byte list \<times> nat) run" where
  "fstCopyVarint64ToRight mem pnt v = fst_spill v mem pnt"

definition fstWriterVarint :: "byte list \<Rightarrow> u64 \<Rightarrow> (int \<times> byte list) run" where
  "fstWriterVarint handle v =
     rbind (fst_spill v (replicate 10 0) 0) (\<lambda>(buf, len). Done (int len, handle @ take len buf))"

text \<open>To the left of \<open>pnt\<close>, so the length comes first.\<close>

function fst_count :: "u32 \<Rightarrow> nat \<Rightarrow> nat" where
  "fst_count nxt cnt = (let nxt = drop_bit 7 nxt in if nxt \<noteq> 0 then fst_count nxt (cnt + 1) else cnt)"
  by pat_completeness auto
termination
proof (relation "measure (\<lambda>(v, cnt). unat v)", goal_cases)
  case (2 v cnt nxt)
  have "v \<noteq> 0"
    using 2 by auto
  then have "unat v \<noteq> 0"
    by (simp add: unat_gt_0)
  moreover have "unat (drop_bit 7 v) = unat v div 128"
    by (rule unat_drop7)
  ultimately show ?case
    using 2(1) by simp
qed simp

declare fst_count.simps [simp del]

primrec fst_left :: "nat \<Rightarrow> u32 \<Rightarrow> byte list \<Rightarrow> int \<Rightarrow> byte list run" where
  "fst_left 0 v mem spnt = array_set mem spnt (ucast v)"
| "fst_left (Suc cnt) v mem spnt =
     rbind (array_set mem spnt (ucast v OR 0x80)) (\<lambda>mem. fst_left cnt (drop_bit 7 v) mem (spnt + 1))"

definition fstCopyVarint32ToLeft :: "byte list \<Rightarrow> nat \<Rightarrow> u32 \<Rightarrow> (byte list \<times> int) run" where
  "fstCopyVarint32ToLeft mem pnt v =
     (let cnt = fst_count v 1; pnt' = int pnt - int cnt in
      rbind (fst_left (cnt - 1) v mem pnt') (\<lambda>mem. Done (mem, pnt')))"

section \<open>Signed numbers\<close>

function fst_get_signed :: "byte list \<Rightarrow> nat \<Rightarrow> u64 \<Rightarrow> nat \<Rightarrow> (u64 \<times> nat \<times> nat \<times> byte) run" where
  "fst_get_signed mem p rc shift =
     rbind (fst_at mem p) (\<lambda>byt.
     if 64 \<le> shift then Crash Bad_shift
     else let rc = rc OR push_bit shift (ucast (byt AND 0x7f)) in
       if byt AND 0x80 \<noteq> 0 then fst_get_signed mem (p + 1) rc (shift + 7)
       else Done (rc, shift + 7, p + 1, byt))"
  by pat_completeness auto
termination
  by (relation "measure (\<lambda>(mem, p, rc, shift). length mem - p)") (auto simp: fst_at_def)

declare fst_get_signed.simps [simp del]

definition fstGetSVarint64 :: "byte list \<Rightarrow> (u64 \<times> int) run" where
  "fstGetSVarint64 mem =
     rbind (fst_get_signed mem 0 0 0) (\<lambda>(rc, shift, p, byt).
       Done (if shift < 64 \<and> byt AND 0x40 \<noteq> 0 then rc OR - push_bit shift 1 else rc, int p))"

text \<open>An \<open>int64_t\<close> that is not 0 or -1 comes nearer to them with each shift.\<close>

function fst_put_signed :: "u64 \<Rightarrow> byte list \<Rightarrow> nat \<Rightarrow> (byte list \<times> nat) run" where
  "fst_put_signed v buf pnt =
     (let byt = ucast v OR 0x80 :: byte; v = signed_drop_bit 7 v in
      if v = 0 \<and> byt AND 0x40 = 0 \<or> v = -1 \<and> byt AND 0x40 \<noteq> 0
      then rbind (array_set buf (int pnt) (byt AND 0x7f)) (\<lambda>buf. Done (buf, pnt + 1))
      else if pnt < length buf
      then rbind (array_set buf (int pnt) byt) (\<lambda>buf. fst_put_signed v buf (pnt + 1))
      else Crash Out_of_bounds)"
  by pat_completeness auto
termination
  by (relation "measure (\<lambda>(v, buf, pnt). length buf - pnt)") auto

declare fst_put_signed.simps [simp del]

definition fstWriterSVarint :: "byte list \<Rightarrow> u64 \<Rightarrow> (int \<times> byte list) run" where
  "fstWriterSVarint handle v =
     rbind (fst_put_signed v (replicate 15 0) 0) (\<lambda>(buf, len). Done (int len, handle @ take len buf))"

section \<open>What the loops compute\<close>

lemma fst_at_nth [simp]: "p < length mem \<Longrightarrow> fst_at mem p = Done (mem ! p)"
  by (simp add: fst_at_def)

lemma fst_at_append [simp]: "fst_at (pre @ b # rest) (length pre) = Done b"
  by (simp add: fst_at_def)

text \<open>An encoding: the continuation bit is set in every byte but the last.\<close>

definition leb_ends :: "byte list \<Rightarrow> bool" where
  "leb_ends bs \<longleftrightarrow> bs \<noteq> [] \<and> (\<forall>b \<in> set (butlast bs). bit b 7) \<and> \<not> bit (last bs) 7"

lemma leb_ends_Cons: "leb_ends (b # bs) \<longleftrightarrow> (if bs = [] then \<not> bit b 7 else bit b 7 \<and> leb_ends bs)"
  by (auto simp: leb_ends_def)

lemma uleb_bytes_rec:
  "uleb_bytes v =
     (if v < 128 then [word_of_int (int v mod 128)]
      else (word_of_int (int v mod 128) OR 0x80) # uleb_bytes (v div 128))"
  by (subst uleb_bytes.simps) (simp add: Let_def uleb_last uleb_cont [unfolded uleb_last] div_eq_0_iff)

lemma leb_ends_uleb: "leb_ends (uleb_bytes v)"
proof (induction v rule: uleb_bytes.induct)
  case (1 v)
  show ?case
  proof (cases "v < 128")
    case True
    moreover have "\<not> bit (word_of_int (int v mod 128) :: byte) 7"
      by (simp add: bit_word_of_int_iff bit_mod_128)
    ultimately show ?thesis
      by (subst uleb_bytes_rec) (simp add: leb_ends_Cons)
  next
    case False
    then have "uleb_bytes (v div 128) \<noteq> []" "leb_ends (uleb_bytes (v div 128))"
      using 1 by (simp_all add: div_eq_0_iff leb_ends_def)
    then show ?thesis
      using False by (subst uleb_bytes_rec) (simp add: leb_ends_Cons bit_or_0x80)
  qed
qed

lemma leb_ends_sleb: "leb_ends (sleb_bytes v)"
proof (induction v rule: sleb_bytes.induct)
  case (1 v)
  let ?r = "word_of_int (v mod 128) :: byte"
  have r: "\<not> bit ?r 7"
    by (simp add: bit_word_of_int_iff bit_mod_128)
  show ?case
  proof (cases "v div 128 = 0 \<and> ?r AND 0x40 = 0 \<or> v div 128 = -1 \<and> ?r AND 0x40 \<noteq> 0")
    case True
    then have "sleb_bytes v = [?r]"
      by (subst sleb_bytes.simps) (simp only: Let_def if_True)
    then show ?thesis
      using r by (simp add: leb_ends_Cons)
  next
    case False
    then have "sleb_bytes v = (?r OR 0x80) # sleb_bytes (v div 128)"
      by (subst sleb_bytes.simps) (simp only: Let_def if_False)
    then show ?thesis
      using 1 [OF refl refl False] by (simp add: leb_ends_Cons bit_or_0x80) (simp add: leb_ends_def)
  qed
qed

lemma fst_skip_ends:
  "leb_ends bs \<Longrightarrow> fst_skip (pre @ bs @ rest) (length pre) = Done (length pre + length bs - 1)"
proof (induction bs arbitrary: pre)
  case (Cons b bs)
  show ?case
  proof (cases "bs = []")
    case True
    then show ?thesis
      using Cons.prems by (subst fst_skip.simps) (simp add: leb_ends_Cons and_0x80)
  next
    case False
    then show ?thesis
      using Cons.IH [of "pre @ [b]"] Cons.prems
      by (subst fst_skip.simps) (simp add: leb_ends_Cons and_0x80)
  qed
qed (simp add: leb_ends_def)

definition leb_value :: "byte list \<Rightarrow> 'w::len word \<Rightarrow> 'w word" where
  "leb_value bs rc = foldr (\<lambda>b rc. push_bit 7 rc OR ucast (b AND 0x7f)) bs rc"

lemma fst_collect_value:
  "p < length mem \<Longrightarrow> fst_collect mem rc p = Done (leb_value (take (Suc p) mem) rc)"
proof (induction p arbitrary: rc)
  case 0
  then show ?case
    by (cases mem) (simp_all add: leb_value_def)
next
  case (Suc p)
  then show ?case
    by (simp add: leb_value_def take_Suc_conv_app_nth [of "Suc p"])
qed

lemma leb_value_uleb: "leb_value (uleb_bytes v) 0 = (word_of_nat v :: 'w::len word)"
proof (induction v rule: uleb_bytes.induct)
  case (1 v)
  let ?b = "word_of_int (int v mod 128) :: byte"
  have step: "ucast ((?b OR 0x80) AND 0x7f) OR push_bit 7 (word_of_nat (v div 128)) = (word_of_nat v :: 'w word)"
    "ucast (?b AND 0x7f) OR push_bit 7 (word_of_nat (v div 128)) = (word_of_nat v :: 'w word)"
    using leb_step [of _ "int v" 0, where ?'w = 'w] by (simp_all add: uleb_div)
  show ?case
  proof (cases "v < 128")
    case True
    then have "v div 128 = 0"
      by simp
    then show ?thesis
      using True step(2) by (subst uleb_bytes_rec) (simp add: leb_value_def or.commute)
  next
    case False
    then show ?thesis
      using 1 [OF refl refl] step(1)
      by (subst uleb_bytes_rec) (simp add: leb_value_def or.commute div_eq_0_iff)
  qed
qed

lemma uleb_bytes_nonempty [simp]: "uleb_bytes v \<noteq> []"
  by (subst uleb_bytes_rec) simp

lemma fst_get_uleb:
  assumes "mem = uleb_bytes v @ rest"
  shows "fst_skip mem 0 = Done (length (uleb_bytes v) - 1)"
    and "fst_collect mem 0 (length (uleb_bytes v) - 1) = Done (word_of_nat v :: 'w::len word)"
proof -
  show "fst_skip mem 0 = Done (length (uleb_bytes v) - 1)"
    using fst_skip_ends [OF leb_ends_uleb, of "[]" v rest] assms by simp
  have "length (uleb_bytes v) - 1 < length mem" "take (Suc (length (uleb_bytes v) - 1)) mem = uleb_bytes v"
    using assms by (cases "uleb_bytes v"; simp)+
  then show "fst_collect mem 0 (length (uleb_bytes v) - 1) = Done (word_of_nat v :: 'w word)"
    by (simp add: fst_collect_value leb_value_uleb)
qed

lemma fst_fill_ends:
  "leb_ends bs \<Longrightarrow> st_rest f = bs @ rest \<Longrightarrow> length buf + length bs \<le> n \<Longrightarrow>
   fst_fill n buf f = Done (buf @ bs, f\<lparr>st_rest := rest\<rparr>)"
proof (induction bs arbitrary: buf f)
  case (Cons b bs)
  have get: "fgetc f = (Some b, f\<lparr>st_rest := bs @ rest\<rparr>)"
    using Cons.prems(2) by (simp add: fgetc_def)
  show ?case
  proof (cases "bs = []")
    case True
    then show ?thesis
      using Cons.prems get by (subst fst_fill.simps) (simp add: leb_ends_Cons and_0x80)
  next
    case False
    then show ?thesis
      using Cons.IH [of "f\<lparr>st_rest := bs @ rest\<rparr>" "buf @ [b]"] Cons.prems get
      by (subst fst_fill.simps) (simp add: leb_ends_Cons and_0x80)
  qed
qed (simp add: leb_ends_def)

lemma fst_fill_end_of_file:
  "st_rest f = bs \<Longrightarrow> \<forall>b \<in> set bs. bit b 7 \<Longrightarrow> fst_fill n buf f = Crash Out_of_bounds"
proof (induction "n - length buf" arbitrary: buf f bs)
  case 0
  then show ?case
    by (subst fst_fill.simps) (simp add: Let_def split: prod.splits)
next
  case (Suc k)
  have bit7: "bit (-1 :: byte) 7"
    by simp
  show ?case
  proof (cases bs)
    case Nil
    then have "fgetc f = (None, at_end f)"
      using Suc.prems by (simp add: fgetc_def)
    then show ?thesis
      using Suc.hyps(1) [of "buf @ [-1]" "at_end f" "[]"] Suc.hyps(2)
      by (subst fst_fill.simps) (simp add: and_0x80 Let_def)
  next
    case (Cons b cs)
    then have "fgetc f = (Some b, f\<lparr>st_rest := cs\<rparr>)"
      using Suc.prems by (simp add: fgetc_def)
    then show ?thesis
      using Suc.hyps(1) [of "buf @ [b]" "f\<lparr>st_rest := cs\<rparr>" cs] Suc.hyps(2) Suc.prems(2) Cons
      by (subst fst_fill.simps) (simp add: and_0x80)
  qed
qed

text \<open>The writers.\<close>

lemma uleb_first:
  "(ucast (v :: 'w::len word) OR 0x80 :: byte) = word_of_int (int (unat v) mod 128) OR 0x80"
  by (rule bit_word_eqI)
    (auto simp: bit_or_0x80 bit_ucast_iff bit_mod_128 bit_word_of_int_iff bit_uint_iff dest: bit_imp_le_length)

lemma uleb_last_byte:
  "unat v < 128 \<Longrightarrow> (ucast (v :: 'w::len word) :: byte) = word_of_int (int (unat v) mod 128)"
  by (metis ucast_eq uint_nat mod_less of_nat_mod of_nat_numeral)

lemma drop7_zero: "drop_bit 7 v = 0 \<longleftrightarrow> unat v < 128"
  using word_unat_eq_iff [of "drop_bit 7 v" 0]
  by (simp only: unat_drop7 unat_0 div_eq_0_iff) simp

text \<open>\<open>mem_put mem p bs\<close>: the bytes \<open>bs\<close> stand at \<open>p\<close>, and the others are as before.\<close>

definition mem_put :: "byte list \<Rightarrow> nat \<Rightarrow> byte list \<Rightarrow> byte list" where
  "mem_put mem p bs = take p mem @ bs @ drop (p + length bs) mem"

lemma mem_put_Cons:
  "p < length mem \<Longrightarrow> mem_put mem p (b # bs) = mem_put (mem[p := b]) (p + 1) bs"
  by (simp add: mem_put_def take_Suc_conv_app_nth [of p "mem[p := b]"])

lemma length_mem_put: "p + length bs \<le> length mem \<Longrightarrow> length (mem_put mem p bs) = length mem"
  by (simp add: mem_put_def)

lemma fst_spill_uleb:
  "p + length (uleb_bytes (unat v)) \<le> length mem \<Longrightarrow>
   fst_spill v mem p = Done (mem_put mem p (uleb_bytes (unat v)), p + length (uleb_bytes (unat v)))"
proof (induction v mem p rule: fst_spill.induct)
  case (1 v mem p)
  show ?case
  proof (cases "unat v < 128")
    case True
    have u: "uleb_bytes (unat v) = [ucast v]"
      using True by (subst uleb_bytes_rec) (simp add: uleb_last_byte)
    show ?thesis
      using "1.prems" True
      by (subst fst_spill.simps) (simp add: u drop7_zero array_set_def mem_put_def upd_conv_take_nth_drop)
  next
    case False
    have u: "uleb_bytes (unat v) = (ucast v OR 0x80) # uleb_bytes (unat (drop_bit 7 v))"
      using False by (subst uleb_bytes_rec) (simp add: uleb_first unat_drop7)
    have set: "array_set mem (int p) (ucast v OR 0x80) = Done (mem[p := ucast v OR 0x80])"
      using "1.prems" by (simp add: u array_set_def)
    have nz: "drop_bit 7 v \<noteq> 0"
      using False by (simp add: drop7_zero)
    from "1.IH" [OF refl nz set] "1.prems" show ?thesis
      using nz by (subst fst_spill.simps) (simp add: u set mem_put_Cons Let_def)
  qed
qed

lemma uleb_length_u64: "length (uleb_bytes (unat (v :: u64))) \<le> 10"
  by (rule uleb_bytes_length) (use unsigned_less [of v] in \<open>auto elim: less_trans\<close>)

lemma uleb_length_u32: "n < 2 ^ 32 \<Longrightarrow> length (uleb_bytes n) \<le> 5"
  by (rule uleb_bytes_length) simp_all

lemma fstWriterVarint_bytes:
  "fstWriterVarint handle v = Done (int (length (uleb_bytes (unat v))), handle @ uleb_bytes (unat v))"
  using fst_spill_uleb [of 0 v "replicate 10 0"] uleb_length_u64 [of v]
  by (simp add: fstWriterVarint_def mem_put_def)

lemma fstCopyVarint64ToRight_bytes:
  "p + length (uleb_bytes (unat v)) \<le> length mem \<Longrightarrow>
   fstCopyVarint64ToRight mem p v =
     Done (mem_put mem p (uleb_bytes (unat v)), p + length (uleb_bytes (unat v)))"
  by (simp add: fstCopyVarint64ToRight_def fst_spill_uleb)

lemma fst_count_uleb: "fst_count v cnt + 1 = cnt + length (uleb_bytes (unat v))"
proof (induction v cnt rule: fst_count.induct)
  case (1 v cnt)
  show ?case
  proof (cases "unat v < 128")
    case True
    then show ?thesis
      by (subst fst_count.simps, subst uleb_bytes_rec) (simp add: drop7_zero)
  next
    case False
    then have "drop_bit 7 v \<noteq> 0"
      by (simp add: drop7_zero)
    then show ?thesis
      using False "1.IH" [OF refl]
      by (subst fst_count.simps, subst uleb_bytes_rec) (simp add: Let_def unat_drop7)
  qed
qed

lemma fst_left_uleb:
  "length (uleb_bytes (unat v)) = Suc k \<Longrightarrow> p + Suc k \<le> length mem \<Longrightarrow>
   fst_left k v mem (int p) = Done (mem_put mem p (uleb_bytes (unat v)))"
proof (induction k arbitrary: v mem p)
  case 0
  have "unat v < 128"
    using 0(1) by (subst (asm) uleb_bytes_rec) (simp split: if_splits)
  then have u: "uleb_bytes (unat v) = [ucast v]"
    by (subst uleb_bytes_rec) (simp add: uleb_last_byte)
  show ?case
    using 0(2) by (simp add: u array_set_def mem_put_def upd_conv_take_nth_drop)
next
  case (Suc k)
  have ge: "\<not> unat v < 128"
    using Suc.prems(1) by (subst (asm) uleb_bytes_rec) (simp split: if_splits)
  then have u: "uleb_bytes (unat v) = (ucast v OR 0x80) # uleb_bytes (unat (drop_bit 7 v))"
    by (subst uleb_bytes_rec) (simp add: uleb_first unat_drop7)
  have "int p + 1 = int (p + 1)"
    by simp
  then show ?case
    using Suc.IH [of "drop_bit 7 v" "p + 1" "mem[p := ucast v OR 0x80]"] Suc.prems
    by (simp add: u array_set_def mem_put_Cons add.commute)
qed

lemma fstCopyVarint32ToLeft_bytes:
  assumes "length (uleb_bytes (unat v)) \<le> p" and "p \<le> length mem"
  shows "fstCopyVarint32ToLeft mem p v =
    Done (mem_put mem (p - length (uleb_bytes (unat v))) (uleb_bytes (unat v)),
          int (p - length (uleb_bytes (unat v))))"
proof -
  obtain k where k: "length (uleb_bytes (unat v)) = Suc k"
    by (cases "uleb_bytes (unat v)") auto
  then have cnt: "fst_count v 1 = Suc k"
    using fst_count_uleb [of v 1] by simp
  have pos: "int p - int (Suc k) = int (p - Suc k)"
    using assms(1) k by simp
  have "p - Suc k + Suc k \<le> length mem"
    using assms k by simp
  from fst_left_uleb [OF k this] show ?thesis
    unfolding fstCopyVarint32ToLeft_def cnt Let_def pos k by simp
qed

text \<open>Reading what has been written.\<close>

lemma fst_get_varint_uleb:
  assumes "mem = uleb_bytes v @ rest"
  shows "fstGetVarint32 mem = Done (word_of_nat v, int (length (uleb_bytes v)))"
    and "fstGetVarint64 mem = Done (word_of_nat v, int (length (uleb_bytes v)))"
    and "fstGetVarint32NoSkip mem = Done (word_of_nat v)"
    and "fstGetVarint32Length mem = Done (word_of_nat (length (uleb_bytes v)))"
proof -
  have len: "Suc (length (uleb_bytes v) - 1) = length (uleb_bytes v)"
    by (cases "uleb_bytes v") simp_all
  then have len': "int (length (uleb_bytes v) - 1) + 1 = int (length (uleb_bytes v))"
    by linarith
  show "fstGetVarint32 mem = Done (word_of_nat v, int (length (uleb_bytes v)))"
    "fstGetVarint64 mem = Done (word_of_nat v, int (length (uleb_bytes v)))"
    "fstGetVarint32NoSkip mem = Done (word_of_nat v)"
    "fstGetVarint32Length mem = Done (word_of_nat (length (uleb_bytes v)))"
    unfolding fstGetVarint32_def fstGetVarint64_def fstGetVarint32NoSkip_def
      fstGetVarint32Length_def fst_get_uleb [OF assms] rbind_Done
    using len len' by (simp_all only: Suc_eq_plus1)
qed

lemma fst_reader_varint_uleb:
  assumes "st_rest f = uleb_bytes v @ rest"
  shows "length (uleb_bytes v) \<le> 16 \<Longrightarrow>
      fstReaderVarint64 f = Done (word_of_nat v, f\<lparr>st_rest := rest\<rparr>)"
    and "length (uleb_bytes v) \<le> 5 \<Longrightarrow>
      fstReaderVarint32 f = Done (word_of_nat v, f\<lparr>st_rest := rest\<rparr>)"
    and "length (uleb_bytes v) \<le> 5 \<Longrightarrow>
      fstReaderVarint32WithSkip f =
        Done (word_of_nat v, word_of_nat (length (uleb_bytes v)), f\<lparr>st_rest := rest\<rparr>)"
proof -
  have fill: "fst_fill n [] f = Done (uleb_bytes v, f\<lparr>st_rest := rest\<rparr>)"
    if "length (uleb_bytes v) \<le> n" for n
    using fst_fill_ends [OF leb_ends_uleb assms, of "[]" n] that by simp
  have get: "fst_collect (uleb_bytes v) 0 (length (uleb_bytes v) - 1) = Done (word_of_nat v :: u32)"
    "fst_collect (uleb_bytes v) 0 (length (uleb_bytes v) - 1) = Done (word_of_nat v :: u64)"
    by (rule fst_get_uleb(2) [of _ _ "[]"], simp)+
  show "length (uleb_bytes v) \<le> 16 \<Longrightarrow>
      fstReaderVarint64 f = Done (word_of_nat v, f\<lparr>st_rest := rest\<rparr>)"
    "length (uleb_bytes v) \<le> 5 \<Longrightarrow>
      fstReaderVarint32 f = Done (word_of_nat v, f\<lparr>st_rest := rest\<rparr>)"
    "length (uleb_bytes v) \<le> 5 \<Longrightarrow>
      fstReaderVarint32WithSkip f =
        Done (word_of_nat v, word_of_nat (length (uleb_bytes v)), f\<lparr>st_rest := rest\<rparr>)"
    by (simp_all add: fstReaderVarint64_def fstReaderVarint32_def fstReaderVarint32WithSkip_def
        fill get [simplified])
qed

text \<open>Numbers of 64 bits.\<close>

lemma length_fst_u64_buf [simp]: "length (fst_u64_buf n v) = n"
  by (induction n arbitrary: v) simp_all

lemma fst_u64_buf_value:
  "foldl (\<lambda>val b. push_bit 8 val OR ucast b) 0 (fst_u64_buf n v) = take_bit (8 * n) (v :: u64)"
proof (induction n arbitrary: v)
  case (Suc n)
  have ff: "(0xff :: u64) = mask 8"
    by (simp add: mask_eq_exp_minus_1)
  show ?case
    unfolding fst_u64_buf.simps foldl_append foldl.simps Suc ff
    by (rule bit_word_eqI) (auto simp: bit_simps algebra_simps)
qed simp

lemma fst_uint64_roundtrip:
  "fstReaderUint64 (file_of (snd (fstWriterUint64 [] v) @ rest)) = Done (v, file_of rest)"
proof -
  have "fread 8 (file_of (fst_u64_buf 8 v @ rest)) = (Some (fst_u64_buf 8 v), file_of rest)"
    by (simp add: fread_append del: fst_u64_buf.simps)
  moreover have "take_bit (8 * 8) v = v"
    by (intro bit_word_eqI) (simp add: bit_simps)
  ultimately show ?thesis
    unfolding fstReaderUint64_def fstWriterUint64_def by (simp add: fst_u64_buf_value del: fst_u64_buf.simps)
qed

text \<open>Signed numbers.\<close>

lemma sint_signed_drop7: "sint (signed_drop_bit 7 (v :: u64)) = sint v div 128"
  by (simp add: sint_signed_drop_bit_eq drop_bit_eq_div)

lemma sleb_first:
  "(ucast (v :: u64) OR 0x80 :: byte) = word_of_int (sint v mod 128) OR 0x80"
  by (rule bit_word_eqI)
    (auto simp: bit_or_0x80 bit_ucast_iff bit_mod_128 bit_word_of_int_iff bit_sint_iff)

lemma sint_eq_0_m1: "v = 0 \<longleftrightarrow> sint (v :: u64) = 0" "v = -1 \<longleftrightarrow> sint (v :: u64) = -1"
  by (metis sint_0 signed_word_eqI, metis sint_n1 signed_word_eqI)

lemma fst_put_signed_sleb:
  "p + length (sleb_bytes (sint v)) \<le> length buf \<Longrightarrow>
   fst_put_signed v buf p =
     Done (mem_put buf p (sleb_bytes (sint v)), p + length (sleb_bytes (sint v)))"
proof (induction v buf p rule: fst_put_signed.induct)
  case (1 v buf p)
  let ?r = "word_of_int (sint v mod 128) :: byte"
  let ?stop = "sint v div 128 = 0 \<and> ?r AND 0x40 = 0 \<or> sint v div 128 = -1 \<and> ?r AND 0x40 \<noteq> 0"
  have six: "(?r OR 0x80) AND 0x40 = 0 \<longleftrightarrow> ?r AND 0x40 = 0"
    by (simp add: and_0x40 bit_or_0x80)
  have seven: "(?r OR 0x80) AND 0x7f = ?r"
    by (rule bit_word_eqI) (auto simp: and_0x7f bit_take_bit_iff bit_or_0x80 bit_word_of_int_iff bit_mod_128)
  have stop: "signed_drop_bit 7 v = 0 \<and> (ucast v OR 0x80 :: byte) AND 0x40 = 0 \<or>
      signed_drop_bit 7 v = -1 \<and> (ucast v OR 0x80 :: byte) AND 0x40 \<noteq> 0 \<longleftrightarrow> ?stop"
    unfolding sint_eq_0_m1 sint_signed_drop7 sleb_first six ..
  show ?case
  proof (cases ?stop)
    case True
    then have u: "sleb_bytes (sint v) = [?r]"
      by (subst sleb_bytes.simps) (simp only: Let_def if_True)
    have "fst_put_signed v buf p = rbind (array_set buf (int p) ?r) (\<lambda>buf. Done (buf, p + 1))"
      by (subst fst_put_signed.simps) (simp only: Let_def stop True if_True, simp only: sleb_first seven)
    then show ?thesis
      using "1.prems" by (simp add: u array_set_def mem_put_def upd_conv_take_nth_drop)
  next
    case False
    then have u: "sleb_bytes (sint v) = (?r OR 0x80) # sleb_bytes (sint (signed_drop_bit 7 v))"
      by (subst sleb_bytes.simps) (simp only: Let_def if_False sint_signed_drop7)
    have p: "p < length buf"
      using "1.prems" by (simp add: u)
    have set: "array_set buf (int p) (ucast v OR 0x80) = Done (buf[p := ?r OR 0x80])"
      using p by (simp add: array_set_def sleb_first)
    have "fst_put_signed v buf p = fst_put_signed (signed_drop_bit 7 v) (buf[p := ?r OR 0x80]) (p + 1)"
      by (subst fst_put_signed.simps) (simp only: Let_def stop False if_False p if_True set rbind_Done)
    then show ?thesis
      using "1.IH" [OF refl refl False [folded stop] p set] "1.prems" p by (simp add: u mem_put_Cons)
  qed
qed

lemma fst_get_signed_sleb:
  assumes "mem = pre @ sleb_bytes v @ rest" and "shift < 64"
    and "- (2 ^ (64 - shift - 1)) \<le> v" and "v < 2 ^ (64 - shift - 1)"
  shows "\<exists>rc' shift' byt. fst_get_signed mem (length pre) rc shift =
      Done (rc', shift', length pre + length (sleb_bytes v), byt) \<and>
      (if shift' < 64 \<and> byt AND 0x40 \<noteq> 0 then rc' OR - push_bit shift' 1 else rc') =
        rc OR push_bit shift (word_of_int v)"
  using assms
proof (induction v arbitrary: pre rc shift rule: sleb_bytes.induct)
  case (1 v)
  define b :: byte where "b = word_of_int (v mod 128)"
  have b6: "b AND 0x40 = 0 \<longleftrightarrow> \<not> bit v 6"
    by (simp add: b_def and_0x40 bit_word_of_int_iff bit_mod_128)
  have neg: "- push_bit k 1 = (push_bit k (-1) :: u64)" for k
    by (simp add: push_bit_eq_mult)
  show ?case
  proof (cases "v div 128 = 0 \<and> \<not> bit v 6 \<or> v div 128 = -1 \<and> bit v 6")
    case True
    then have u: "sleb_bytes v = [b]"
      using b6 by (subst sleb_bytes.simps) (auto simp flip: b_def)
    have "b AND 0x80 = 0"
      by (simp add: b_def and_0x80 bit_word_of_int_iff bit_mod_128)
    then have "fst_get_signed mem (length pre) rc shift =
        Done (rc OR push_bit shift (ucast (b AND 0x7f)), shift + 7, length pre + 1, b)"
      using "1.prems"(1,2) by (subst fst_get_signed.simps) (simp add: u Let_def)
    then show ?thesis
      using sleb_stop [OF True, of shift, where 'w = 64] b6
      by (auto simp: u neg or.assoc minus_exp_eq_not_mask simp flip: b_def split: if_splits)
  next
    case False
    then have u: "sleb_bytes v = (b OR 0x80) # sleb_bytes (v div 128)"
      using b6 by (subst sleb_bytes.simps) (auto simp: Let_def simp flip: b_def)
    have "\<not> 64 - shift - 1 \<le> 6"
    proof
      assume "64 - shift - 1 \<le> 6"
      then have "(2 :: int) ^ (64 - shift - 1) \<le> 2 ^ 6" by (rule power_increasing) simp
      with "1.prems"(3,4) seven_bits [of v] False show False by simp
    qed
    then have off: "shift + 7 < 64" and "64 - shift - 1 = 64 - (shift + 7) - 1 + 7" by simp_all
    from this(2) have "(2 :: int) ^ (64 - shift - 1) = 2 ^ (64 - (shift + 7) - 1) * 2 ^ 7"
      by (simp only: power_add)
    with "1.prems"(3,4) have range: "- (2 ^ (64 - (shift + 7) - 1)) \<le> v div 128"
      "v div 128 < 2 ^ (64 - (shift + 7) - 1)" by simp_all
    have go: "\<not> (v div 128 = 0 \<and> word_of_int (v mod 128) AND 0x40 = (0 :: byte) \<or>
        v div 128 = -1 \<and> word_of_int (v mod 128) AND 0x40 \<noteq> (0 :: byte))"
      using False b6 unfolding b_def by blast
    have mem: "mem = (pre @ [b OR 0x80]) @ sleb_bytes (v div 128) @ rest"
      using "1.prems"(1) u by simp
    have step: "fst_get_signed mem (length pre) rc shift =
        fst_get_signed mem (length (pre @ [b OR 0x80]))
          (rc OR push_bit shift (ucast ((b OR 0x80) AND 0x7f))) (shift + 7)"
      using "1.prems"(1,2) by (subst fst_get_signed.simps) (simp add: u and_0x80 bit_or_0x80)
    show ?thesis
      using "1.IH" [OF refl refl go mem off range,
          of "rc OR push_bit shift (ucast ((b OR 0x80) AND 0x7f))"]
        leb_step [of "b OR 0x80" v shift, where 'w = 64]
      unfolding step by (auto simp: b_def or.assoc u)
  qed
qed

lemma fst_svarint_roundtrip:
  "\<exists>bs. fstWriterSVarint handle v = Done (int (length bs), handle @ bs) \<and> 1 \<le> length bs \<and> length bs \<le> 10 \<and>
    fstGetSVarint64 (bs @ rest) = Done (v, int (length bs))"
proof -
  let ?bs = "sleb_bytes (sint v)"
  have v: "- (2 ^ 63) \<le> sint v" "sint v < 2 ^ 63"
    using sint_range_size [of v] by (simp_all add: word_size)
  have ten: "length ?bs \<le> Suc 9"
    by (rule sleb_bytes_length) (use v in simp_all)
  have one: "1 \<le> length ?bs"
    by (subst sleb_bytes.simps) (simp add: Let_def)
  have "fstWriterSVarint handle v = Done (int (length ?bs), handle @ ?bs)"
    using fst_put_signed_sleb [of 0 v "replicate 15 0"] ten
    by (simp add: fstWriterSVarint_def mem_put_def)
  moreover have "fstGetSVarint64 (?bs @ rest) = Done (v, int (length ?bs))"
    using fst_get_signed_sleb [of "?bs @ rest" "[]" "sint v" rest 0 0] v
    by (auto simp: fstGetSVarint64_def split: if_splits)
  ultimately show ?thesis
    using one ten by (intro exI [of _ ?bs]) simp
qed

text \<open>
  C17: A number that \<open>fstWriterVarint\<close> writes is read back by each of the readers, from a file and from
  memory, whatever follows it. It takes between one and ten bytes, never overflowing the writer's
  buffer, and at most five when it fits in 32 bits, so that \<open>fstReaderVarint32\<close> reads it within its
  own; \<open>fstCopyVarint64ToRight\<close> and \<open>fstCopyVarint32ToLeft\<close> put the same bytes into memory, behind and
  in front of the pointer.
\<close>

theorem fst_varint_roundtrip:
  "\<exists>bs. fstWriterVarint handle v = Done (int (length bs), handle @ bs) \<and>
    1 \<le> length bs \<and> length bs \<le> 10 \<and>
    fstReaderVarint64 (file_of (bs @ rest)) = Done (v, file_of rest) \<and>
    fstGetVarint64 (bs @ rest) = Done (v, int (length bs)) \<and>
    fstCopyVarint64ToRight (pre @ replicate (length bs) 0 @ post) (length pre) v =
      Done (pre @ bs @ post, length pre + length bs) \<and>
    (unat v < 2 ^ 32 \<longrightarrow> length bs \<le> 5 \<and>
      fstReaderVarint32 (file_of (bs @ rest)) = Done (ucast v, file_of rest) \<and>
      fstReaderVarint32WithSkip (file_of (bs @ rest)) = Done (ucast v, word_of_nat (length bs), file_of rest) \<and>
      fstGetVarint32 (bs @ rest) = Done (ucast v, int (length bs)) \<and>
      fstGetVarint32NoSkip (bs @ rest) = Done (ucast v) \<and>
      fstCopyVarint32ToLeft (pre @ replicate (length bs) 0 @ post) (length pre + length bs) (ucast v) =
        Done (pre @ bs @ post, int (length pre)))"
proof -
  let ?bs = "uleb_bytes (unat v)"
  have one: "1 \<le> length ?bs"
    by (cases ?bs) auto
  have put: "mem_put (pre @ replicate (length ?bs) 0 @ post) (length pre) ?bs = pre @ ?bs @ post"
    by (simp add: mem_put_def)
  have w: "(word_of_nat (unat v) :: u64) = v" "(word_of_nat (unat v) :: u32) = ucast v"
    by simp_all
  have u: "unat (ucast v :: u32) = unat v" if "unat v < 2 ^ 32"
    using that by (simp add: unsigned_ucast_eq take_bit_nat_eq_self)
  show ?thesis
    using one put w uleb_length_u64 [of v]
    by (intro exI [of _ ?bs])
       (simp add: fstWriterVarint_bytes fst_reader_varint_uleb [of _ "unat v" rest]
          fst_get_varint_uleb [of _ "unat v" rest] fstCopyVarint64ToRight_bytes uleb_length_u32
          fstCopyVarint32ToLeft_bytes u)
qed

theorem fst_varint_roundtrip_witness:
  "\<exists>bs. fstWriterVarint [] 300 = Done (int (length bs), bs) \<and> length bs \<le> 5 \<and>
    fstReaderVarint32 (file_of (bs @ [7])) = Done (300, file_of [7]) \<and>
    fstGetVarint64 (bs @ [7]) = Done (300, int (length bs))"
proof -
  have "(ucast (300 :: u64) :: u32) = 300"
    by simp
  then show ?thesis
    using fst_varint_roundtrip [where handle = "[]" and v = 300 and rest = "[7]" and pre = "[]" and post = "[]"]
    by auto
qed

text \<open>
  C36: The readers of numbers do not stop at the end of the file: \<open>EOF\<close> counts as one more byte with the
  continuation bit. A number that is cut off, or the end of the file itself, makes each of them write
  behind its buffer.
\<close>

theorem fst_reader_truncated:
  assumes "\<forall>b \<in> set bs. bit b 7"
  shows "fstReaderVarint32 (file_of bs) = Crash Out_of_bounds \<and>
    fstReaderVarint32WithSkip (file_of bs) = Crash Out_of_bounds \<and>
    fstReaderVarint64 (file_of bs) = Crash Out_of_bounds"
  using fst_fill_end_of_file [of "file_of bs" bs] assms
  by (simp add: fstReaderVarint32_def fstReaderVarint32WithSkip_def fstReaderVarint64_def)

theorem fst_reader_truncated_witness:
  "fstReaderVarint32 (file_of [0x80, 0xff]) = Crash Out_of_bounds \<and>
   fstReaderVarint64 (file_of []) = Crash Out_of_bounds"
  using fst_reader_truncated [of "[0x80, 0xff]"] fst_reader_truncated [of "[]"]
  by (simp add: bit_iff_odd)

end
