(* ===== verification/Fst_Escape.thy ===== *)
theory Fst_Escape
  imports Fst_Numbers
begin

text \<open>
  Text in FST files (\<open>src/src/grt/fst/fstapi.c\<close>): \<open>fstUtilityBinToEsc\<close> and \<open>fstUtilityEscToBin\<close>, which
  write bytes as printable text with C's escapes and read it back, and \<open>fstVcdID\<close>, which makes the short
  names of the signals in a VCD file. A destination is an array with an offset into it.
\<close>

section \<open>Escapes\<close>

primrec fst_puts :: "byte list \<Rightarrow> nat \<Rightarrow> byte list \<Rightarrow> (byte list \<times> nat) run" where
  "fst_puts d p [] = Done (d, p)"
| "fst_puts d p (b # bs) = rbind (array_set d (int p) b) (\<lambda>d. fst_puts d (p + 1) bs)"

text \<open>The letters that stand behind a backslash: \<open>\a \b \f \n \r \t \v \' \" \\ \?\<close>\<close>

definition esc_letters :: "(byte \<times> byte) list" where
  "esc_letters = [(7, 97), (8, 98), (12, 102), (10, 110), (13, 114), (9, 116), (11, 118),
     (39, 39), (34, 34), (92, 92), (63, 63)]"

text \<open>One round of the loop: the bytes that are written for a byte of the source.\<close>

definition esc_code :: "byte \<Rightarrow> byte list" where
  "esc_code c = (case map_of esc_letters c of
       Some e \<Rightarrow> [92, e]
     | None \<Rightarrow>
         if 32 < c \<and> c \<le> 126 then [c]
         else [92, c div 64 + 48, (c AND 63) div 8 + 48, (c AND 63 AND 7) + 48])"

function esc_loop :: "byte list \<Rightarrow> int \<Rightarrow> nat \<Rightarrow> byte list \<Rightarrow> nat \<Rightarrow> (byte list \<times> nat) run" where
  "esc_loop src len i d p =
     (if int i < len
      then rbind (fst_at src i) (\<lambda>c. rbind (fst_puts d p (esc_code c)) (\<lambda>(d, p). esc_loop src len (i + 1) d p))
      else Done (d, p))"
  by pat_completeness auto
termination
  by (relation "measure (\<lambda>(src, len, i, d, p). nat (len - int i))") auto

declare esc_loop.simps [simp del]

definition fstUtilityBinToEsc :: "byte list \<Rightarrow> byte list \<Rightarrow> int \<Rightarrow> (int \<times> byte list) run" where
  "fstUtilityBinToEsc d s len = rbind (esc_loop s len 0 d 0) (\<lambda>(d, p). Done (int p, d))"

text \<open>The byte that \<open>src[i]\<close> and what follows it stand for, and the place of the last byte looked at.\<close>

definition toupper :: "byte \<Rightarrow> byte" where
  "toupper c = (if 97 \<le> c \<and> c \<le> 122 then c - 32 else c)"

definition hex_val :: "byte \<Rightarrow> byte" where
  "hex_val v = (if 65 \<le> v \<and> v \<le> 70 then v - 65 + 10 else v - 48)"

definition unesc_code :: "byte list \<Rightarrow> nat \<Rightarrow> (byte \<times> nat) run" where
  "unesc_code src i =
     rbind (fst_at src i) (\<lambda>c.
     if c \<noteq> 92 then Done (c, i)
     else rbind (fst_at src (i + 1)) (\<lambda>e.
       case map_of (map prod.swap esc_letters) e of
         Some b \<Rightarrow> Done (b, i + 1)
       | None \<Rightarrow>
           if e = 120 then
             rbind (fst_at src (i + 2)) (\<lambda>v0. rbind (fst_at src (i + 3)) (\<lambda>v1.
               Done (hex_val (toupper v0) * 16 + hex_val (toupper v1), i + 3)))
           else if 48 \<le> e \<and> e \<le> 55 then
             rbind (fst_at src (i + 2)) (\<lambda>v1. rbind (fst_at src (i + 3)) (\<lambda>v2.
               Done ((e - 48) * 64 + (v1 - 48) * 8 + (v2 - 48), i + 3)))
           else Done (e, i + 1)))"

lemma unesc_code_forward: "unesc_code src i = Done (b, k) \<Longrightarrow> i \<le> k"
  by (auto simp: unesc_code_def split: if_splits option.splits)

text \<open>Without a destination (\<open>d\<close> is NULL), the text is written over the source.\<close>

definition unesc_put :: "byte list \<Rightarrow> byte list option \<Rightarrow> nat \<Rightarrow> byte \<Rightarrow> (byte list \<times> byte list option) run" where
  "unesc_put src d p b = (case d of
       None \<Rightarrow> rbind (array_set src (int p) b) (\<lambda>src. Done (src, None))
     | Some d \<Rightarrow> rbind (array_set d (int p) b) (\<lambda>d. Done (src, Some d)))"

function unesc_loop :: "byte list \<Rightarrow> byte list option \<Rightarrow> int \<Rightarrow> nat \<Rightarrow> nat \<Rightarrow> (byte list \<times> byte list option \<times> nat) run" where
  "unesc_loop src d len i p =
     (if int i < len
      then rbind (unesc_code src i) (\<lambda>(b, i).
           rbind (unesc_put src d p b) (\<lambda>(src, d). unesc_loop src d len (i + 1) (p + 1)))
      else Done (src, d, p))"
  by pat_completeness auto
termination
  by (relation "measure (\<lambda>(src, d, len, i, p). nat (len - int i))") (auto dest: unesc_code_forward)

declare unesc_loop.simps [simp del]

definition fstUtilityEscToBin :: "byte list option \<Rightarrow> byte list \<Rightarrow> int \<Rightarrow> (int \<times> byte list \<times> byte list option) run" where
  "fstUtilityEscToBin d s len = rbind (unesc_loop s d len 0 0) (\<lambda>(s, d, p). Done (int p, s, d))"

section \<open>Names of signals\<close>

text \<open>
  \<open>'!' + value % 94\<close>, the lowest digit first; the digits run from 1 to 94. The function writes
  behind the pointer, and \<open>fstVcdID\<close> writes a NUL after it.
\<close>

lemma unat_pred: "v \<noteq> 0 \<Longrightarrow> unat (v - 1) = unat v - 1" for v :: u32
  by (simp add: unat_minus_one)

function vcd_digits :: "byte list \<Rightarrow> nat \<Rightarrow> u32 \<Rightarrow> (byte list \<times> nat) run" where
  "vcd_digits buf p v =
     (if v \<noteq> 0
      then let v = v - 1 in
        rbind (array_set buf (int p) (33 + ucast (v mod 94))) (\<lambda>buf. vcd_digits buf (p + 1) (v div 94))
      else Done (buf, p))"
  by pat_completeness auto

termination
proof (relation "measure (\<lambda>(buf, p, v). unat v)", goal_cases)
  case (2 buf p v w x)
  then have "unat ((v - 1) div 94) = (unat v - 1) div 94" "0 < unat v"
    by (simp_all add: unat_div unat_pred unat_gt_0)
  moreover have "(unat v - 1) div 94 \<le> unat v - 1"
    by (rule div_le_dividend)
  ultimately show ?case
    using 2 by simp
qed simp

declare vcd_digits.simps [simp del]

definition fstVcdID :: "byte list \<Rightarrow> u32 \<Rightarrow> byte list run" where
  "fstVcdID buf v = rbind (vcd_digits buf 0 v) (\<lambda>(buf, p). array_set buf (int p) 0)"

definition fstVcdIDForFwrite :: "byte list \<Rightarrow> u32 \<Rightarrow> (int \<times> byte list) run" where
  "fstVcdIDForFwrite buf v = rbind (vcd_digits buf 0 v) (\<lambda>(buf, p). Done (int p, buf))"

section \<open>Escaped text\<close>

lemma fst_puts_mem_put:
  "p + length bs \<le> length d \<Longrightarrow> fst_puts d p bs = Done (mem_put d p bs, p + length bs)"
  by (induction bs arbitrary: d p) (simp_all add: mem_put_Cons array_set_def, simp add: mem_put_def)

lemma mem_put_append:
  "p + length bs + length cs \<le> length d \<Longrightarrow>
   mem_put (mem_put d p bs) (p + length bs) cs = mem_put d p (bs @ cs)"
  by (simp add: mem_put_def add.commute add.left_commute)

definition escaped :: "byte list \<Rightarrow> byte list" where
  "escaped bs = concat (map esc_code bs)"

lemma escaped_simps [simp]: "escaped [] = []" "escaped (b # bs) = esc_code b @ escaped bs"
  by (simp_all add: escaped_def)

lemma esc_loop_escaped:
  "int i \<le> len \<Longrightarrow> nat len \<le> length src \<Longrightarrow>
   p + length (escaped (drop i (take (nat len) src))) \<le> length d \<Longrightarrow>
   esc_loop src len i d p =
     Done (mem_put d p (escaped (drop i (take (nat len) src))),
       p + length (escaped (drop i (take (nat len) src))))"
proof (induction "nat len - i" arbitrary: i d p)
  case 0
  then have "i = nat len" by simp
  with 0 show ?case
    by (subst esc_loop.simps) (simp add: mem_put_def)
next
  case (Suc n)
  then have i: "i < nat len" "i < length src" by auto
  then have u: "drop i (take (nat len) src) = src ! i # drop (Suc i) (take (nat len) src)"
    by (simp add: Cons_nth_drop_Suc [symmetric])
  let ?rest = "escaped (drop (Suc i) (take (nat len) src))"
  have room: "p + length (esc_code (src ! i)) + length ?rest \<le> length d"
    using Suc.prems(3) by (simp add: u)
  have "esc_loop src len i d p =
      esc_loop src len (i + 1) (mem_put d p (esc_code (src ! i))) (p + length (esc_code (src ! i)))"
    using i room zless_nat_eq_int_zless [of i len] by (subst esc_loop.simps) (simp add: fst_puts_mem_put)
  also have "\<dots> = Done (mem_put (mem_put d p (esc_code (src ! i))) (p + length (esc_code (src ! i))) ?rest,
      p + length (esc_code (src ! i)) + length ?rest)"
    using Suc.hyps(1) [of "i + 1"] Suc.hyps(2) Suc.prems i room by (simp add: length_mem_put)
  finally show ?case
    using room by (simp add: u mem_put_append)
qed


lemma esc_code_bounds: "1 \<le> length (esc_code b) \<and> length (esc_code b) \<le> 4"
  by (simp add: esc_code_def split: option.split)

lemma length_escaped: "length bs \<le> length (escaped bs) \<and> length (escaped bs) \<le> 4 * length bs"
proof (induction bs)
  case (Cons b bs)
  then show ?case
    using esc_code_bounds [of b] by simp
qed simp

text \<open>The octal digits of a byte.\<close>

lemma unat_byte_digit: "unat (x :: byte) = k \<Longrightarrow> k < 8 \<Longrightarrow> unat (x + 48) = k + 48"
  by (simp add: unat_word_ariths)

lemma byte_digits:
  fixes c :: byte
  shows "c div 64 * 64 + (c AND 63) div 8 * 8 + (c AND 63 AND 7) = c" "c div 64 + 48 \<le> 55" "48 \<le> c div 64 + 48"
    "33 \<le> c div 64 + 48" "c div 64 + 48 \<le> 126" "33 \<le> (c AND 63) div 8 + 48" "(c AND 63) div 8 + 48 \<le> 126"
    "33 \<le> (c AND 63 AND 7) + 48" "(c AND 63 AND 7) + 48 \<le> 126"
proof -
  define n where "n = unat c"
  have n: "n < 256"
    using unsigned_less [of c] by (simp add: n_def)
  have 63: "unat (c AND 63) = n mod 64" and 7: "unat (c AND 63 AND 7) = n mod 8"
    using take_bit_eq_mask [of 6 c] take_bit_eq_mask [of 3 c] unsigned_take_bit_eq [of 6 c, where 'a = nat] unsigned_take_bit_eq [of 3 c, where 'a = nat]
    by (simp_all add: mask_eq_exp_minus_1 take_bit_eq_mod n_def)
  have 64: "unat (c div 64) = n div 64" and 8: "unat ((c AND 63) div 8) = n mod 64 div 8"
    by (simp_all add: unat_div 63 flip: n_def)
  have "n mod 64 div 8 * 8 + n mod 8 = n mod 64"
    using div_mult_mod_eq [of "n mod 64" 8] mod_mod_cancel [of 8 64 n] by simp
  then have "n div 64 * 64 + n mod 64 div 8 * 8 + n mod 8 = n"
    using div_mult_mod_eq [of n 64] by linarith
  then have "word_of_nat (n div 64 * 64 + n mod 64 div 8 * 8 + n mod 8) = (word_of_nat n :: byte)"
    by (rule arg_cong)
  then have split: "word_of_nat (n div 64) * 64 + word_of_nat (n mod 64 div 8) * 8 + word_of_nat (n mod 8) = (word_of_nat n :: byte)"
    by (simp only: of_nat_add of_nat_mult of_nat_numeral)
  have whole: "word_of_nat n = c"
    unfolding n_def by (simp only: of_nat_unat ucast_id)
  have w: "word_of_nat (n div 64) = c div 64" "word_of_nat (n mod 64 div 8) = (c AND 63) div 8"
    "word_of_nat (n mod 8) = c AND 63 AND 7"
    unfolding 64 [symmetric] 8 [symmetric] 7 [symmetric] by (simp_all only: of_nat_unat ucast_id)
  show "c div 64 * 64 + (c AND 63) div 8 * 8 + (c AND 63 AND 7) = c"
    using split by (simp only: w whole)
  show "c div 64 + 48 \<le> 55" "48 \<le> c div 64 + 48"
    "33 \<le> c div 64 + 48" "c div 64 + 48 \<le> 126" "33 \<le> (c AND 63) div 8 + 48" "(c AND 63) div 8 + 48 \<le> 126"
    "33 \<le> (c AND 63 AND 7) + 48" "(c AND 63 AND 7) + 48 \<le> 126"
    unfolding word_le_nat_alt using n
    by (simp_all only: unat_byte_digit [OF 64] unat_byte_digit [OF 7] unat_byte_digit [OF 8]) simp_all
qed


lemma esc_letters_back: "map_of esc_letters c = Some e \<Longrightarrow> map_of (map prod.swap esc_letters) e = Some c"
  by (auto simp: esc_letters_def split: if_splits)

lemma esc_letters_digits: "48 \<le> e \<Longrightarrow> e \<le> 55 \<Longrightarrow> map_of (map prod.swap esc_letters) e = None \<and> e \<noteq> 120"
  by (auto simp: esc_letters_def)

lemma esc_letters_printable: "map_of esc_letters c = Some e \<Longrightarrow> 33 \<le> e \<and> e \<le> 126"
  by (auto simp: esc_letters_def split: if_splits)

lemma esc_code_printable: "b \<in> set (esc_code c) \<Longrightarrow> 33 \<le> b \<and> b \<le> 126"
proof -
  have "32 < c \<Longrightarrow> 33 \<le> c"
    using inc_le [of 32 c] by simp
  moreover assume "b \<in> set (esc_code c)"
  ultimately show ?thesis
    using byte_digits(4-9) [of c] esc_letters_printable [of c]
    by (auto simp: esc_code_def split: option.splits if_splits)
qed

lemma unesc_code_esc:
  assumes "src = pre @ esc_code c @ rest"
  shows "unesc_code src (length pre) = Done (c, length pre + length (esc_code c) - 1)"
proof (cases "map_of esc_letters c")
  case (Some e)
  then have u: "src = pre @ 92 # e # rest"
    using assms by (simp add: esc_code_def)
  then show ?thesis
    using esc_letters_back [OF Some] Some by (simp add: unesc_code_def esc_code_def fst_at_def nth_append)
next
  case None
  then have "c \<noteq> 92"
    by (auto simp: esc_letters_def)
  show ?thesis
  proof (cases "32 < c \<and> c \<le> 126")
    case True
    with None \<open>c \<noteq> 92\<close> assms show ?thesis
      by (simp add: unesc_code_def esc_code_def fst_at_def)
  next
    case False
    let ?d1 = "c div 64 + 48" and ?d2 = "(c AND 63) div 8 + 48" and ?d3 = "(c AND 63 AND 7) + 48"
    have u: "src = pre @ [92, ?d1, ?d2, ?d3] @ rest"
      using assms None False by (auto simp: esc_code_def)
    then have at: "fst_at src (length pre) = Done 92" "fst_at src (length pre + 1) = Done ?d1"
      "fst_at src (length pre + 2) = Done ?d2" "fst_at src (length pre + 3) = Done ?d3"
      by (simp_all add: fst_at_def nth_append)
    have "\<not> (92 :: byte) \<noteq> 92" "map_of (map prod.swap esc_letters) ?d1 = None" "?d1 \<noteq> 120" "48 \<le> ?d1 \<and> ?d1 \<le> 55"
      using byte_digits(2,3) [of c] esc_letters_digits [of ?d1] by blast+
    then have "unesc_code src (length pre) = Done ((?d1 - 48) * 64 + (?d2 - 48) * 8 + (?d3 - 48), length pre + 3)"
      by (simp only: unesc_code_def at rbind_Done if_False if_True option.case simp_thms)
    moreover have "(?d1 - 48) * 64 + (?d2 - 48) * 8 + (?d3 - 48) = c"
      using byte_digits(1) [of c] by (simp only: add_diff_cancel_right')
    moreover have "length (esc_code c) = 4"
      using None False by (auto simp: esc_code_def)
    ultimately show ?thesis
      by simp
  qed
qed


lemma unesc_put_at:
  "p < length src \<Longrightarrow> unesc_put src None p b = Done (src[p := b], None)"
  "p < length d \<Longrightarrow> unesc_put src (Some d) p b = Done (src, Some (d[p := b]))"
  by (simp_all add: unesc_put_def array_set_def)

text \<open>Over the source, the writer never overtakes the reader.\<close>

lemma unesc_loop_in_place:
  "drop i src = escaped bs @ rest \<Longrightarrow> p \<le> i \<Longrightarrow> i \<le> length src \<Longrightarrow> len = int (i + length (escaped bs)) \<Longrightarrow>
   unesc_loop src None len i p = Done (mem_put src p bs, None, p + length bs)"
proof (induction bs arbitrary: src i p)
  case Nil
  then show ?case
    by (subst unesc_loop.simps) (simp add: mem_put_def)
next
  case (Cons b bs)
  let ?n = "length (esc_code b)"
  have one: "1 \<le> ?n" using esc_code_bounds by blast
  then have next_i: "Suc (i + ?n - Suc 0) = i + ?n" by simp
  have u: "src = take i src @ esc_code b @ escaped bs @ rest"
    using Cons.prems(1) append_take_drop_id [of i src] by simp
  have code: "unesc_code src i = Done (b, i + ?n - 1)"
    using unesc_code_esc [OF u] Cons.prems(3) by simp
  have "length src = i + ?n + length (escaped bs) + length rest"
    using arg_cong [OF u, of length] Cons.prems(3) by simp
  then have len: "p < length src" "i + ?n \<le> length src"
    using Cons.prems(2) one by linarith+
  have "drop (i + ?n) src = escaped bs @ rest"
    using arg_cong [OF Cons.prems(1), of "drop ?n"] by (simp add: add.commute)
  then have d: "drop (i + ?n) (src[p := b]) = escaped bs @ rest"
    using Cons.prems(2) one by (simp add: drop_update_cancel)
  have "unesc_loop src None len i p = unesc_loop (src[p := b]) None len (i + ?n) (p + 1)"
    using code one len(1) Cons.prems(4) by (subst unesc_loop.simps) (simp add: unesc_put_at next_i)
  also have "\<dots> = Done (mem_put (src[p := b]) (p + 1) bs, None, p + 1 + length bs)"
    using Cons.IH [OF d] len Cons.prems(2,4) one by simp
  finally show ?case
    using len by (simp add: mem_put_Cons)
qed

lemma unesc_loop_to:
  "drop i src = escaped bs @ rest \<Longrightarrow> i \<le> length src \<Longrightarrow> len = int (i + length (escaped bs)) \<Longrightarrow>
   p + length bs \<le> length d \<Longrightarrow>
   unesc_loop src (Some d) len i p = Done (src, Some (mem_put d p bs), p + length bs)"
proof (induction bs arbitrary: d i p)
  case Nil
  then show ?case
    by (subst unesc_loop.simps) (simp add: mem_put_def)
next
  case (Cons b bs)
  let ?n = "length (esc_code b)"
  have one: "1 \<le> ?n" using esc_code_bounds by blast
  then have next_i: "Suc (i + ?n - Suc 0) = i + ?n" by simp
  have u: "src = take i src @ esc_code b @ escaped bs @ rest"
    using Cons.prems(1) append_take_drop_id [of i src] by simp
  have code: "unesc_code src i = Done (b, i + ?n - 1)"
    using unesc_code_esc [OF u] Cons.prems(2) by simp
  have "length src = i + ?n + length (escaped bs) + length rest"
    using arg_cong [OF u, of length] Cons.prems(2) by simp
  then have len: "i + ?n \<le> length src"
    by linarith
  have d: "drop (i + ?n) src = escaped bs @ rest"
    using arg_cong [OF Cons.prems(1), of "drop ?n"] by (simp add: add.commute)
  have "unesc_loop src (Some d) len i p = unesc_loop src (Some (d[p := b])) len (i + ?n) (p + 1)"
    using code one Cons.prems(3,4) by (subst unesc_loop.simps) (simp add: unesc_put_at next_i)
  also have "\<dots> = Done (src, Some (mem_put (d[p := b]) (p + 1) bs), p + 1 + length bs)"
    using Cons.IH [OF d] len Cons.prems(3,4) by simp
  finally show ?case
    using Cons.prems(4) by (simp add: mem_put_Cons)
qed

text \<open>
  C32: \<open>fstUtilityBinToEsc\<close> writes every byte as printable text without white space, at most four
  characters for a byte, and nothing else; \<open>fstUtilityEscToBin\<close> makes the bytes of it again, into another
  array or over the text itself, whatever follows the text.
\<close>

theorem fst_escape_roundtrip:
  assumes "length bs \<le> length s" "take (length bs) s = bs" "4 * length bs \<le> length d" "length bs \<le> length e"
  shows "\<exists>text. fstUtilityBinToEsc d s (int (length bs)) =
      Done (int (length text), text @ drop (length text) d) \<and>
    length text \<le> 4 * length bs \<and> (\<forall>b \<in> set text. 33 \<le> b \<and> b \<le> 126) \<and>
    fstUtilityEscToBin (Some e) (text @ rest) (int (length text)) =
      Done (int (length bs), text @ rest, Some (bs @ drop (length bs) e)) \<and>
    fstUtilityEscToBin None (text @ rest) (int (length text)) =
      Done (int (length bs), bs @ drop (length bs) (text @ rest), None)"
proof -
  let ?text = "escaped bs"
  have "length ?text \<le> 4 * length bs"
    using length_escaped by blast
  moreover have "\<forall>b \<in> set ?text. 33 \<le> b \<and> b \<le> 126"
    using esc_code_printable by (auto simp: escaped_def)
  moreover have "fstUtilityBinToEsc d s (int (length bs)) = Done (int (length ?text), ?text @ drop (length ?text) d)"
    using esc_loop_escaped [of 0 "int (length bs)" s 0 d] assms length_escaped [of bs]
    by (simp add: fstUtilityBinToEsc_def mem_put_def)
  moreover have "fstUtilityEscToBin (Some e) (?text @ rest) (int (length ?text)) =
      Done (int (length bs), ?text @ rest, Some (bs @ drop (length bs) e))"
    using unesc_loop_to [of 0 "?text @ rest" bs rest _ 0 e] assms(4)
    by (simp add: fstUtilityEscToBin_def mem_put_def)
  moreover have "fstUtilityEscToBin None (?text @ rest) (int (length ?text)) =
      Done (int (length bs), bs @ drop (length bs) (?text @ rest), None)"
    using unesc_loop_in_place [of 0 "?text @ rest" bs rest 0]
    by (simp add: fstUtilityEscToBin_def mem_put_def)
  ultimately show ?thesis
    by blast
qed


theorem fst_escape_roundtrip_witness:
  "\<exists>text. fstUtilityBinToEsc (replicate 12 0) [0, 65, 10] 3 =
      Done (int (length text), text @ replicate (12 - length text) 0) \<and>
    fstUtilityEscToBin None (text @ [1]) (int (length text)) =
      Done (3, [0, 65, 10] @ drop 3 (text @ [1]), None)"
  using fst_escape_roundtrip [of "[0, 65, 10]" "[0, 65, 10]" "replicate 12 0" "replicate 3 0" "[1]"]
  by (simp add: numeral_3_eq_3) blast

section \<open>Signal names\<close>

fun vcd_name :: "nat \<Rightarrow> byte list" where
  "vcd_name n = (if n = 0 then [] else (33 + word_of_nat ((n - 1) mod 94)) # vcd_name ((n - 1) div 94))"

declare vcd_name.simps [simp del]

primrec vcd_value :: "byte list \<Rightarrow> nat" where
  "vcd_value [] = 0"
| "vcd_value (c # cs) = unat c - 32 + 94 * vcd_value cs"

lemma vcd_char:
  assumes "k < 94"
  shows "unat (33 + word_of_nat k :: byte) = 33 + k"
  using assms by (simp add: unat_word_ariths unat_of_nat)

lemma vcd_name_printable: "\<forall>c \<in> set (vcd_name n). 33 \<le> c \<and> c \<le> 126"
proof (induction n rule: vcd_name.induct)
  case (1 n)
  have "(n - 1) mod 94 < 94" by simp
  then show ?case
    using 1 vcd_char [of "(n - 1) mod 94"]
    by (subst vcd_name.simps) (auto simp: word_le_nat_alt)
qed

lemma vcd_value_name [simp]: "vcd_value (vcd_name n) = n"
proof (induction n rule: vcd_name.induct)
  case (1 n)
  have "(n - 1) mod 94 < 94" by simp
  then show ?case
    using 1 vcd_char [of "(n - 1) mod 94"] mod_mult_div_eq [of "n - 1" 94]
    by (subst vcd_name.simps) simp
qed

lemma length_vcd_name: "n < 94 ^ k \<Longrightarrow> length (vcd_name n) \<le> k"
proof (induction n arbitrary: k rule: vcd_name.induct)
  case (1 n)
  show ?case
  proof (cases "n = 0")
    case True
    then show ?thesis by (simp add: vcd_name.simps)
  next
    case False
    then obtain j where k: "k = Suc j"
      using 1(2) by (cases k) auto
    have "(n - 1) div 94 < 94 ^ j"
      using 1(2) k by (simp add: less_mult_imp_div_less mult.commute)
    then show ?thesis
      using 1(1) [OF False] False k by (subst vcd_name.simps) simp
  qed
qed

lemma vcd_digits_name:
  "p + length (vcd_name (unat v)) \<le> length buf \<Longrightarrow>
   vcd_digits buf p v = Done (mem_put buf p (vcd_name (unat v)), p + length (vcd_name (unat v)))"
proof (induction buf p v rule: vcd_digits.induct)
  case (1 buf p v)
  show ?case
  proof (cases "v = 0")
    case True
    then show ?thesis
      by (subst vcd_digits.simps) (simp add: vcd_name.simps mem_put_def)
  next
    case False
    then have n: "unat v \<noteq> 0" by (simp add: unat_gt_0)
    let ?c = "33 + ucast ((v - 1) mod 94) :: byte"
    have u: "unat ((v - 1) div 94) = (unat v - 1) div 94" "unat ((v - 1) mod 94) = (unat v - 1) mod 94"
      using False by (simp_all add: unat_div unat_mod unat_pred)
    have c: "33 + word_of_nat ((unat v - 1) mod 94) = ?c"
      unfolding u(2) [symmetric] by (simp only: of_nat_unat)
    have name: "vcd_name (unat v) = ?c # vcd_name (unat ((v - 1) div 94))"
      using n by (subst vcd_name.simps) (simp only: u(1) c if_False)
    have p: "p < length buf" and set: "array_set buf (int p) ?c = Done (buf[p := ?c])"
      using 1(2) by (simp_all add: name array_set_def)
    have "vcd_digits buf p v = vcd_digits (buf[p := ?c]) (p + 1) ((v - 1) div 94)"
      using False by (subst vcd_digits.simps) (simp add: set Let_def)
    also have "\<dots> = Done (mem_put (buf[p := ?c]) (p + 1) (vcd_name (unat ((v - 1) div 94))),
        p + 1 + length (vcd_name (unat ((v - 1) div 94))))"
      using 1(1) [OF False refl set] 1(2) by (simp add: name)
    finally show ?thesis
      using p by (simp add: name mem_put_Cons)
  qed
qed

lemma fstVcdID_name:
  fixes v :: u32
  assumes "6 \<le> length buf"
  defines "name \<equiv> vcd_name (unat v)"
  shows "length name \<le> 5" "fstVcdID buf v = Done (name @ 0 # drop (Suc (length name)) buf)"
    "fstVcdIDForFwrite buf v = Done (int (length name), name @ drop (length name) buf)"
proof -
  have "unat v < 94 ^ 5"
    by (rule less_trans [OF unsigned_less]) simp
  then show l: "length name \<le> 5"
    unfolding name_def by (rule length_vcd_name)
  then show "fstVcdID buf v = Done (name @ 0 # drop (Suc (length name)) buf)"
    "fstVcdIDForFwrite buf v = Done (int (length name), name @ drop (length name) buf)"
    using assms(1) vcd_digits_name [of 0 v buf]
    by (auto simp: fstVcdID_def fstVcdIDForFwrite_def mem_put_def list_update_append array_set_def drop_Suc
        Cons_nth_drop_Suc [symmetric] simp flip: name_def)
qed

lemma nul_ends:
  fixes xs ys :: "byte list"
  assumes "xs @ 0 # us = ys @ 0 # vs" "0 \<notin> set xs" "0 \<notin> set ys"
  shows "xs = ys"
proof -
  have "takeWhile (\<lambda>c. c \<noteq> 0) (zs @ 0 # ws) = zs" if "0 \<notin> set zs" for zs ws :: "byte list"
    using that by (induction zs) auto
  from this [OF assms(2)] this [OF assms(3)] show ?thesis
    using assms(1) by metis
qed

text \<open>
  C34: The name that \<open>fstVcdID\<close> writes for a number has at most five printable characters that are not
  white space, with a NUL behind them; \<open>fstVcdIDForFwrite\<close> writes the same characters and returns how
  many they are; and two numbers never have the same name.
\<close>

theorem fst_vcd_names:
  assumes "6 \<le> length buf"
  shows "\<exists>name. fstVcdID buf v = Done (name @ 0 # drop (Suc (length name)) buf) \<and>
      fstVcdIDForFwrite buf v = Done (int (length name), name @ drop (length name) buf) \<and>
      length name \<le> 5 \<and> (\<forall>c \<in> set name. 33 \<le> c \<and> c \<le> 126) \<and>
      (\<forall>w. fstVcdID buf w = fstVcdID buf v \<longrightarrow> w = v)"
proof (intro exI conjI allI impI)
  let ?name = "vcd_name (unat v)"
  fix w
  assume same: "fstVcdID buf w = fstVcdID buf v"
  have nul: "0 \<notin> set (vcd_name n)" for n
    using vcd_name_printable [of n] by fastforce
  have "vcd_name (unat w) @ 0 # drop (Suc (length (vcd_name (unat w)))) buf = ?name @ 0 # drop (Suc (length ?name)) buf"
    using same by (simp add: fstVcdID_name(2) [OF assms])
  then have "vcd_name (unat w) = ?name"
    using nul nul by (rule nul_ends)
  then have "vcd_value (vcd_name (unat w)) = vcd_value ?name" by simp
  then show "w = v" by (simp add: unsigned_word_eqI)
qed (use fstVcdID_name [OF assms] vcd_name_printable in simp_all)

theorem fst_vcd_names_witness:
  "fstVcdID (replicate 16 7) 95 = Done ([33, 33] @ 0 # replicate 13 7) \<and> fstVcdID (replicate 16 7) 96 \<noteq> fstVcdID (replicate 16 7) 95"
proof
  show "fstVcdID (replicate 16 7) 95 = Done ([33, 33] @ 0 # replicate 13 7)"
    by code_simp
  have "\<forall>w. fstVcdID (replicate 16 7) w = fstVcdID (replicate 16 7) 95 \<longrightarrow> w = 95"
    using fst_vcd_names [of "replicate 16 7" 95] by auto
  then show "fstVcdID (replicate 16 7) 96 \<noteq> fstVcdID (replicate 16 7) 95"
    by auto
qed

end
