(* ===== verification/Fst_Jenkins.thy ===== *)
theory Fst_Jenkins
  imports Fst_Numbers
begin

text \<open>
  The hash table of \<open>src/src/grt/fst/fstapi.c\<close> that stands in for the Judy library: the hash function
  \<open>j_hash\<close>, and \<open>JenkinsIns\<close>, which finds the entry of a key or adds one and moves it to the front of its
  chain. The entries are linked in memory: an address is a place in the list \<open>cells\<close>, where a block that
  was given back is \<open>None\<close>. Allocation does not fail.
\<close>

section \<open>The hash function\<close>

text \<open>Three lines of the macro, which has them three times, with other shifts.\<close>

definition mix_lines :: "nat \<Rightarrow> nat \<Rightarrow> nat \<Rightarrow> u32 \<times> u32 \<times> u32 \<Rightarrow> u32 \<times> u32 \<times> u32" where
  "mix_lines i j k abc = (case abc of (a, b, c) \<Rightarrow>
     let a = a - b; a = a - c; a = a XOR drop_bit i c;
         b = b - c; b = b - a; b = b XOR push_bit j a;
         c = c - a; c = c - b; c = c XOR drop_bit k b in
     (a, b, c))"

definition mix :: "u32 \<Rightarrow> u32 \<Rightarrow> u32 \<Rightarrow> u32 \<times> u32 \<times> u32" where
  "mix a b c = mix_lines 3 10 15 (mix_lines 12 16 5 (mix_lines 13 8 13 (a, b, c)))"

definition j_byte :: "byte list \<Rightarrow> nat \<Rightarrow> nat \<Rightarrow> u32 run" where
  "j_byte k p sh = rbind (fst_at k p) (\<lambda>b. Done (push_bit sh (ucast b)))"

definition j_word :: "byte list \<Rightarrow> nat \<Rightarrow> u32 run" where
  "j_word k p =
     rbind (j_byte k p 0) (\<lambda>w0. rbind (j_byte k (p + 1) 8) (\<lambda>w1.
     rbind (j_byte k (p + 2) 16) (\<lambda>w2. rbind (j_byte k (p + 3) 24) (\<lambda>w3.
       Done (w0 + w1 + w2 + w3)))))"

text \<open>\<open>while (len >= 12)\<close>; \<open>k\<close> stands at \<open>p\<close>.\<close>

function j_blocks :: "byte list \<Rightarrow> nat \<Rightarrow> nat \<Rightarrow> u32 \<Rightarrow> u32 \<Rightarrow> u32 \<Rightarrow> (nat \<times> nat \<times> u32 \<times> u32 \<times> u32) run" where
  "j_blocks k p len a b c =
     (if 12 \<le> len
      then rbind (j_word k p) (\<lambda>x. rbind (j_word k (p + 4)) (\<lambda>y. rbind (j_word k (p + 8)) (\<lambda>z.
        case mix (a + x) (b + y) (c + z) of (a, b, c) \<Rightarrow> j_blocks k (p + 12) (len - 12) a b c)))
      else Done (p, len, a, b, c))"
  by pat_completeness auto
termination
  by (relation "measure (\<lambda>(k, p, len, a, b, c). len)") auto

declare j_blocks.simps [simp del]

text \<open>A case of the \<open>switch\<close>: it is reached when the rest has at least \<open>n\<close> bytes, and adds the last of them.\<close>

definition j_case :: "byte list \<Rightarrow> nat \<Rightarrow> nat \<Rightarrow> nat \<Rightarrow> nat \<Rightarrow> u32 \<Rightarrow> u32 run" where
  "j_case k p len n sh v =
     (if n \<le> len then rbind (j_byte k (p + (n - 1)) sh) (\<lambda>w. Done (v + w)) else Done v)"

definition j_hash :: "byte list \<Rightarrow> u32 \<Rightarrow> u32 \<Rightarrow> u32 run" where
  "j_hash k keylen initval =
     rbind (j_blocks k 0 (unat keylen) 0x9e3779b9 0x9e3779b9 initval) (\<lambda>(p, len, a, b, c).
     let c = c + keylen in
     rbind (j_case k p len 11 24 c) (\<lambda>c. rbind (j_case k p len 10 16 c) (\<lambda>c. rbind (j_case k p len 9 8 c) (\<lambda>c.
     rbind (j_case k p len 8 24 b) (\<lambda>b. rbind (j_case k p len 7 16 b) (\<lambda>b.
     rbind (j_case k p len 6 8 b) (\<lambda>b. rbind (j_case k p len 5 0 b) (\<lambda>b.
     rbind (j_case k p len 4 24 a) (\<lambda>a. rbind (j_case k p len 3 16 a) (\<lambda>a.
     rbind (j_case k p len 2 8 a) (\<lambda>a. rbind (j_case k p len 1 0 a) (\<lambda>a.
       case mix a b c of (a, b, c) \<Rightarrow> Done c))))))))))))"

section \<open>The table\<close>

record collchain_t =
  chain_next :: "nat option"
  payload :: u64
  fullhash :: u32
  chain_length :: u32
  chain_mem :: "byte list"

text \<open>\<open>buckets\<close> is \<open>*base\<close>, NULL before the first insertion.\<close>

record jenkins =
  cells :: "collchain_t option list"
  buckets :: "nat option list option"

definition jenkins_empty :: jenkins where
  "jenkins_empty = \<lparr>cells = [], buckets = None\<rparr>"

definition cell_at :: "collchain_t option list \<Rightarrow> nat \<Rightarrow> collchain_t run" where
  "cell_at cs a = rbind (array_get (length cs) cs a) init"

text \<open>The loop along the chain; the result is \<open>pchain\<close> and \<open>chain\<close> at a hit.\<close>

primrec jk_find :: "nat \<Rightarrow> collchain_t option list \<Rightarrow> u32 \<Rightarrow> u32 \<Rightarrow> byte list \<Rightarrow> nat option \<Rightarrow> nat option \<Rightarrow>
    (nat option \<times> nat) option run" where
  "jk_find 0 cs hf len mem pchain chain = Crash No_return"
| "jk_find (Suc n) cs hf len mem pchain chain = (case chain of
       None \<Rightarrow> Done None
     | Some a \<Rightarrow> rbind (cell_at cs a) (\<lambda>x.
         if fullhash x = hf \<and> chain_length x = len \<and> take (unat len) (chain_mem x) = take (unat len) mem
         then Done (Some (pchain, a))
         else jk_find n cs hf len mem chain (chain_next x)))"

definition set_next :: "collchain_t option list \<Rightarrow> nat \<Rightarrow> nat option \<Rightarrow> collchain_t option list run" where
  "set_next cs a q = rbind (cell_at cs a) (\<lambda>x. Done (cs[a := Some (x\<lparr>chain_next := q\<rparr>)]))"

definition JenkinsIns :: "jenkins \<Rightarrow> byte list \<Rightarrow> u32 \<Rightarrow> u32 \<Rightarrow> (nat \<times> jenkins) run" where
  "JenkinsIns base mem len hashmask =
     (let ar = (case buckets base of None \<Rightarrow> replicate (unat (hashmask + 1)) None | Some ar \<Rightarrow> ar);
          cs = cells base in
      rbind (j_hash mem len len) (\<lambda>hf. let h = unat (hf AND hashmask) in
      rbind (array_get (length ar) ar h) (\<lambda>first.
      rbind (jk_find (length cs + 1) cs hf len mem first first) (\<lambda>hit.
      case hit of
        Some (pchain, chain) \<Rightarrow>
          if pchain \<noteq> Some chain then
            rbind (deref pchain) (\<lambda>pchain. rbind (cell_at cs chain) (\<lambda>x.
            rbind (set_next cs pchain (chain_next x)) (\<lambda>cs.
            rbind (set_next cs chain first) (\<lambda>cs.
            rbind (array_set ar (int h) (Some chain)) (\<lambda>ar.
              Done (chain, \<lparr>cells = cs, buckets = Some ar\<rparr>))))))
          else Done (chain, \<lparr>cells = cs, buckets = Some ar\<rparr>)
      | None \<Rightarrow>
          let chain = length cs;
              x = \<lparr>chain_next = first, payload = 0, fullhash = hf, chain_length = len,
                   chain_mem = take (unat len) mem\<rparr> in
          rbind (array_set ar (int h) (Some chain)) (\<lambda>ar.
            Done (chain, \<lparr>cells = cs @ [Some x], buckets = Some ar\<rparr>))))))"

text \<open>The caller reads and writes through the pointer that it got.\<close>

definition payload_of :: "jenkins \<Rightarrow> nat \<Rightarrow> u64 run" where
  "payload_of base a = rbind (cell_at (cells base) a) (\<lambda>x. Done (payload x))"

definition set_payload :: "jenkins \<Rightarrow> nat \<Rightarrow> u64 \<Rightarrow> jenkins run" where
  "set_payload base a v =
     rbind (cell_at (cells base) a) (\<lambda>x. Done (base\<lparr>cells := (cells base)[a := Some (x\<lparr>payload := v\<rparr>)]\<rparr>))"

lemma cell_at_Done [simp]: "cell_at cs a = Done x \<longleftrightarrow> a < length cs \<and> cs ! a = Some x"
  by (auto simp: cell_at_def rbind_eq_Done)

definition live_cells :: "collchain_t option list \<Rightarrow> nat" where
  "live_cells cs = length (filter (\<lambda>c. c \<noteq> None) cs)"

lemma live_cells_free: "a < length cs \<Longrightarrow> cs ! a = Some x \<Longrightarrow> live_cells (cs[a := None]) < live_cells cs"
  by (induction cs arbitrary: a) (auto simp: live_cells_def split: nat.split)

function jk_free_chain :: "collchain_t option list \<Rightarrow> nat option \<Rightarrow> collchain_t option list run" where
  "jk_free_chain cs chain = (case chain of
       None \<Rightarrow> Done cs
     | Some a \<Rightarrow> rbind (cell_at cs a) (\<lambda>x. jk_free_chain (cs[a := None]) (chain_next x)))"
  by pat_completeness auto
termination
  by (relation "measure (\<lambda>(cs, chain). live_cells cs)") (auto dest: live_cells_free)

declare jk_free_chain.simps [simp del]

text \<open>\<open>n\<close> rounds of the loop are left, and the next is for the bucket \<open>h\<close>.\<close>

primrec jk_free_buckets :: "nat \<Rightarrow> nat \<Rightarrow> nat option list \<Rightarrow> collchain_t option list \<Rightarrow> collchain_t option list run" where
  "jk_free_buckets 0 h ar cs = Done cs"
| "jk_free_buckets (Suc n) h ar cs =
     rbind (array_get (length ar) ar h) (\<lambda>chain.
     rbind (jk_free_chain cs chain) (jk_free_buckets n (h + 1) ar))"

definition JenkinsFree :: "jenkins \<Rightarrow> u32 \<Rightarrow> jenkins run" where
  "JenkinsFree base hashmask = (case buckets base of
       None \<Rightarrow> Done base
     | Some ar \<Rightarrow> rbind (jk_free_buckets (unat hashmask + 1) 0 ar (cells base)) (\<lambda>cs.
         Done \<lparr>cells = cs, buckets = None\<rparr>))"


section \<open>The hash function is reversible and reads its key only\<close>

definition unmix_lines :: "nat \<Rightarrow> nat \<Rightarrow> nat \<Rightarrow> u32 \<times> u32 \<times> u32 \<Rightarrow> u32 \<times> u32 \<times> u32" where
  "unmix_lines i j k abc = (case abc of (a, b, c) \<Rightarrow>
     let c = c XOR drop_bit k b; c = c + b; c = c + a;
         b = b XOR push_bit j a; b = b + a; b = b + c;
         a = a XOR drop_bit i c; a = a + c; a = a + b in
     (a, b, c))"

definition unmix :: "u32 \<times> u32 \<times> u32 \<Rightarrow> u32 \<times> u32 \<times> u32" where
  "unmix abc = unmix_lines 13 8 13 (unmix_lines 12 16 5 (unmix_lines 3 10 15 abc))"

lemma xor_twice [simp]: "(x XOR y) XOR y = x" for x :: u32
  by (simp add: xor.assoc)

lemma unmix_mix_lines [simp]: "unmix_lines i j k (mix_lines i j k abc) = abc"
  by (cases abc) (simp add: mix_lines_def unmix_lines_def Let_def)

lemma mix_unmix_lines [simp]: "mix_lines i j k (unmix_lines i j k abc) = abc"
  by (cases abc) (simp add: mix_lines_def unmix_lines_def Let_def)

lemma mix_reversible: "unmix (mix a b c) = (a, b, c)" "case unmix abc of (a, b, c) \<Rightarrow> mix a b c = abc"
  by (simp_all add: unmix_def mix_def split: prod.split)

lemma j_byte_reads: "p < length k \<Longrightarrow> j_byte k p sh = Done (push_bit sh (ucast (k ! p)))"
  by (simp add: j_byte_def)

lemma j_word_reads: "p + 4 \<le> length k \<Longrightarrow> \<exists>w. j_word k p = Done w"
  by (simp add: j_word_def j_byte_reads)

lemma j_byte_take: "p < n \<Longrightarrow> n \<le> length k \<Longrightarrow> j_byte (take n k) p sh = j_byte k p sh"
  by (simp add: j_byte_reads)

lemma j_word_take: "p + 4 \<le> n \<Longrightarrow> n \<le> length k \<Longrightarrow> j_word (take n k) p = j_word k p"
  by (simp add: j_word_def j_byte_take)

lemma j_blocks_reads:
  "p + len \<le> length k \<Longrightarrow>
   \<exists>p' len' abc. j_blocks k p len a b c = Done (p', len', abc) \<and> p' + len' = p + len \<and> len' < 12"
proof (induction k p len a b c rule: j_blocks.induct)
  case (1 k p len a b c)
  show ?case
  proof (cases "12 \<le> len")
    case True
    obtain x y z where r: "j_word k p = Done x" "j_word k (p + 4) = Done y" "j_word k (p + 8) = Done z"
      using j_word_reads [of p k] j_word_reads [of "p + 4" k] j_word_reads [of "p + 8" k] True 1(2) by auto
    obtain a' b' c' where m: "mix (a + x) (b + y) (c + z) = (a', b', c')"
      by (cases "mix (a + x) (b + y) (c + z)")
    show ?thesis
      using 1(1) [OF True r m [symmetric] refl] 1(2) True
      by (subst j_blocks.simps) (simp add: r m)
  qed (simp add: j_blocks.simps)
qed

lemma j_blocks_take:
  "p + len \<le> n \<Longrightarrow> n \<le> length k \<Longrightarrow> j_blocks (take n k) p len a b c = j_blocks k p len a b c"
proof (induction "take n k" p len a b c rule: j_blocks.induct)
  case (1 p len a b c)
  show ?case
  proof (cases "12 \<le> len")
    case True
    obtain x y z where r: "j_word k p = Done x" "j_word k (p + 4) = Done y" "j_word k (p + 8) = Done z"
      using j_word_reads [of p k] j_word_reads [of "p + 4" k] j_word_reads [of "p + 8" k] True 1(2,3) by auto
    then have t: "j_word (take n k) p = Done x" "j_word (take n k) (p + 4) = Done y" "j_word (take n k) (p + 8) = Done z"
      using True 1(2,3) by (simp_all add: j_word_take)
    obtain a' b' c' where m: "mix (a + x) (b + y) (c + z) = (a', b', c')"
      by (cases "mix (a + x) (b + y) (c + z)")
    show ?thesis
      using 1(1) [OF True t m [symmetric] refl] 1(2,3) True
      by (simp add: j_blocks.simps [of _ p] r t m)
  qed (simp add: j_blocks.simps)
qed

lemma j_case_reads: "p + len \<le> length k \<Longrightarrow> \<exists>v'. j_case k p len (Suc n) sh v = Done v'"
  by (simp add: j_case_def j_byte_reads)

lemma j_case_take:
  "p + len \<le> n \<Longrightarrow> n \<le> length k \<Longrightarrow> j_case (take n k) p len (Suc i) sh v = j_case k p len (Suc i) sh v"
  by (simp add: j_case_def j_byte_take)

lemmas j_cases = j_case_reads j_case_take

lemma j_case_numeral_reads:
  "p + len \<le> length k \<Longrightarrow> 0 < n \<Longrightarrow> \<exists>v'. j_case k p len n sh v = Done v'"
  using j_case_reads [of p len k "n - 1"] by simp

lemma j_case_numeral_take:
  "p + len \<le> n \<Longrightarrow> n \<le> length k \<Longrightarrow> 0 < i \<Longrightarrow> j_case (take n k) p len i sh v = j_case k p len i sh v"
  using j_case_take [of p len n k "i - 1"] by simp

lemma runs_to_j_case:
  "p + len \<le> length k \<Longrightarrow> 0 < n \<Longrightarrow> (\<And>v'. runs_to (f v') Q) \<Longrightarrow> runs_to (rbind (j_case k p len n sh v) f) Q"
  using j_case_numeral_reads [of p len k n sh v] by auto

lemma j_hash_reads:
  assumes "unat len \<le> length k"
  shows "\<exists>h. j_hash k len initval = Done h"
proof -
  obtain p l a b c where r: "j_blocks k 0 (unat len) 0x9e3779b9 0x9e3779b9 initval = Done (p, l, a, b, c)"
    and l: "p + l = unat len"
    using j_blocks_reads [of 0 "unat len" k] assms by fastforce
  have "runs_to (j_hash k len initval) (\<lambda>_. True)"
    unfolding j_hash_def r rbind_Done prod.case Let_def
    by (intro runs_to_j_case) (use l assms in \<open>simp_all split: prod.split\<close>)
  then show ?thesis
    by (auto elim: runs_toE)
qed

lemma j_hash_take:
  assumes "unat len \<le> length k"
  shows "j_hash (take (unat len) k) len initval = j_hash k len initval"
proof -
  obtain p l a b c where r: "j_blocks k 0 (unat len) 0x9e3779b9 0x9e3779b9 initval = Done (p, l, a, b, c)"
    and l: "p + l \<le> unat len"
    using j_blocks_reads [of 0 "unat len" k] assms by fastforce
  show ?thesis
    by (simp add: j_hash_def j_blocks_take assms r j_case_numeral_take [OF l assms])
qed


section \<open>Chains\<close>

primrec seg :: "collchain_t option list \<Rightarrow> nat option \<Rightarrow> nat list \<Rightarrow> nat option \<Rightarrow> bool" where
  "seg cs p [] q \<longleftrightarrow> p = q"
| "seg cs p (a # as) q \<longleftrightarrow> p = Some a \<and> (\<exists>x. cell_at cs a = Done x \<and> seg cs (chain_next x) as q)"

lemma seg_append: "seg cs p (as @ bs) q \<longleftrightarrow> (\<exists>r. seg cs p as r \<and> seg cs r bs q)"
  by (induction as arbitrary: p) auto

lemma seg_live: "seg cs p as q \<Longrightarrow> a \<in> set as \<Longrightarrow> \<exists>x. cell_at cs a = Done x"
  by (induction as arbitrary: p) auto

lemma seg_cong: "seg cs p as q \<Longrightarrow> (\<And>a. a \<in> set as \<Longrightarrow> cell_at cs' a = cell_at cs a) \<Longrightarrow> seg cs' p as q"
proof (induction as arbitrary: p)
  case (Cons a as)
  then obtain x where x: "p = Some a" "cell_at cs a = Done x" "seg cs (chain_next x) as q" by auto
  moreover have "cell_at cs' a = Done x" using Cons.prems(2) [of a] x(2) by (simp del: cell_at_Done)
  moreover have "seg cs' (chain_next x) as q" using Cons.IH [OF x(3)] Cons.prems(2) by (simp del: cell_at_Done)
  ultimately show ?case by (simp del: cell_at_Done)
qed simp

lemma seg_bound: "seg cs p as q \<Longrightarrow> distinct as \<Longrightarrow> length as \<le> length cs"
proof -
  assume s: "seg cs p as q" "distinct as"
  have "set as \<subseteq> {..<length cs}" using seg_live [OF s(1)] by auto
  then show ?thesis using card_mono [of "{..<length cs}" "set as"] s(2) by (simp add: distinct_card)
qed

definition matches :: "u32 \<Rightarrow> u32 \<Rightarrow> byte list \<Rightarrow> collchain_t \<Rightarrow> bool" where
  "matches hf len mem x \<longleftrightarrow>
     fullhash x = hf \<and> chain_length x = len \<and> take (unat len) (chain_mem x) = take (unat len) mem"

lemma jk_find_miss:
  "seg cs p as None \<Longrightarrow> length as < n \<Longrightarrow> (\<And>a x. a \<in> set as \<Longrightarrow> cell_at cs a = Done x \<Longrightarrow> \<not> matches hf len mem x) \<Longrightarrow>
   jk_find n cs hf len mem pc p = Done None"
proof (induction as arbitrary: p pc n)
  case Nil
  then show ?case by (cases n) auto
next
  case (Cons a as)
  then obtain x m where x: "p = Some a" "cell_at cs a = Done x" "seg cs (chain_next x) as None" "n = Suc m"
    by (cases n) auto
  have "jk_find m cs hf len mem p (chain_next x) = Done None"
    using Cons.IH [OF x(3), of m] Cons.prems(2,3) x(4) by auto
  then show ?case
    using Cons.prems(3) [of a x] x by (simp add: matches_def del: cell_at_Done)
qed

lemma jk_find_hit:
  "seg cs p (pre @ [a]) q \<Longrightarrow> length pre < n \<Longrightarrow> cell_at cs a = Done x \<Longrightarrow> matches hf len mem x \<Longrightarrow>
   (\<And>b y. b \<in> set pre \<Longrightarrow> cell_at cs b = Done y \<Longrightarrow> \<not> matches hf len mem y) \<Longrightarrow>
   jk_find n cs hf len mem pc p = Done (Some (if pre = [] then pc else Some (last pre), a))"
proof (induction pre arbitrary: p pc n)
  case Nil
  then show ?case by (cases n) (auto simp: matches_def simp del: cell_at_Done)
next
  case (Cons b pre)
  then obtain y m where y: "p = Some b" "cell_at cs b = Done y" "seg cs (chain_next y) (pre @ [a]) q" "n = Suc m"
    by (cases n) auto
  have no: "\<not> matches hf len mem z" if "c \<in> set pre" "cell_at cs c = Done z" for c z
    using Cons.prems(5) [of c z] that by simp
  have "jk_find m cs hf len mem p (chain_next y) = Done (Some (if pre = [] then p else Some (last pre), a))"
    by (rule Cons.IH [OF y(3) _ Cons.prems(3,4) no]) (use Cons.prems(2) y(4) in simp_all)
  then show ?case
    using Cons.prems(5) [of b y] y by (auto simp: matches_def simp del: cell_at_Done)
qed

text \<open>What is in a cell apart from the link.\<close>

definition unlinked :: "collchain_t \<Rightarrow> collchain_t" where
  "unlinked x = x\<lparr>chain_next := None\<rparr>"

lemma unlinked_next [simp]: "unlinked (x\<lparr>chain_next := q\<rparr>) = unlinked x"
  by (simp add: unlinked_def)

lemma unlinkedD:
  assumes "unlinked x = unlinked y"
  shows "payload x = payload y" "fullhash x = fullhash y" "chain_length x = chain_length y" "chain_mem x = chain_mem y"
  using assms by (cases x, cases y, simp add: unlinked_def)+

lemma set_next_Done:
  assumes "cell_at cs a = Done x"
  shows "set_next cs a q = Done (cs[a := Some (x\<lparr>chain_next := q\<rparr>)])"
  using assms by (simp add: set_next_def del: cell_at_Done)

lemma cell_at_update:
  "a < length cs \<Longrightarrow> cell_at (cs[a := Some x]) b = (if a = b then Done x else cell_at cs b)"
  by (simp add: cell_at_def array_get_def)

text \<open>The hit \<open>a\<close> moves from behind \<open>p\<close> to the front of its chain.\<close>

lemma move_to_front:
  assumes "seg cs first (pre @ p # a # post) None" "distinct (pre @ p # a # post)"
    and "cell_at cs a = Done x" "cell_at cs p = Done y"
  defines "cs' \<equiv> cs[p := Some (y\<lparr>chain_next := chain_next x\<rparr>), a := Some (x\<lparr>chain_next := first\<rparr>)]"
  shows "seg cs' (Some a) (a # pre @ p # post) None"
proof -
  have l: "a < length cs" "p < length cs" using assms(3,4) by simp_all
  have at: "cell_at cs' b = (if b = a then Done (x\<lparr>chain_next := first\<rparr>)
      else if b = p then Done (y\<lparr>chain_next := chain_next x\<rparr>) else cell_at cs b)" for b
    using l by (simp add: cs'_def cell_at_update del: cell_at_Done)
  obtain r where r: "seg cs first pre r" "r = Some p" "seg cs (chain_next x) post None"
    using assms(1,3,4) by (auto simp: seg_append simp del: cell_at_Done)
  have "seg cs' first pre r" "seg cs' (chain_next x) post None"
    by (rule seg_cong [OF r(1)], use assms(2) in \<open>auto simp: at\<close>)
      (rule seg_cong [OF r(3)], use assms(2) in \<open>auto simp: at\<close>)
  then show ?thesis
    using assms(2) r(2) by (auto simp: seg_append at simp del: cell_at_Done)
qed


section \<open>The table represents a map\<close>

definition bucket_of :: "u32 \<Rightarrow> collchain_t \<Rightarrow> nat" where
  "bucket_of hashmask x = unat (fullhash x AND hashmask)"

definition cell_ok :: "collchain_t \<Rightarrow> bool" where
  "cell_ok x \<longleftrightarrow> length (chain_mem x) = unat (chain_length x) \<and>
     j_hash (chain_mem x) (chain_length x) (chain_length x) = Done (fullhash x)"

definition ar_of :: "u32 \<Rightarrow> jenkins \<Rightarrow> nat option list" where
  "ar_of hashmask st = (case buckets st of None \<Rightarrow> replicate (unat (hashmask + 1)) None | Some ar \<Rightarrow> ar)"

text \<open>
  \<open>ls\<close> are the chains: each has the cells of its bucket and no other, no two cells have the same key,
  and every cell that was not given back is in a chain.
\<close>

definition chains_ok :: "u32 \<Rightarrow> collchain_t option list \<Rightarrow> nat option list \<Rightarrow> nat list list \<Rightarrow> bool" where
  "chains_ok hashmask cs ar ls \<longleftrightarrow>
     length ar = unat hashmask + 1 \<and> length ls = unat hashmask + 1 \<and>
     (\<forall>h < length ls. seg cs (ar ! h) (ls ! h) None \<and> distinct (ls ! h) \<and>
       (\<forall>a. a \<in> set (ls ! h) \<longleftrightarrow> (\<exists>x. cell_at cs a = Done x \<and> bucket_of hashmask x = h)))"

definition cells_ok :: "collchain_t option list \<Rightarrow> bool" where
  "cells_ok cs \<longleftrightarrow> (\<forall>a x. cell_at cs a = Done x \<longrightarrow> cell_ok x) \<and>
     (\<forall>a b x y. cell_at cs a = Done x \<longrightarrow> cell_at cs b = Done y \<longrightarrow> chain_mem x = chain_mem y \<longrightarrow> a = b)"

definition jk_ok :: "u32 \<Rightarrow> jenkins \<Rightarrow> bool" where
  "jk_ok hashmask st \<longleftrightarrow> hashmask \<noteq> -1 \<and> cells_ok (cells st) \<and> (\<exists>ls. chains_ok hashmask (cells st) (ar_of hashmask st) ls)"

definition jk_map :: "jenkins \<Rightarrow> byte list \<Rightarrow> nat option" where
  "jk_map st k = find (\<lambda>a. case cells st ! a of None \<Rightarrow> False | Some x \<Rightarrow> chain_mem x = k) [0..<length (cells st)]"

lemma jk_map_None: "jk_map st k = None \<longleftrightarrow> (\<forall>a x. cell_at (cells st) a = Done x \<longrightarrow> chain_mem x \<noteq> k)"
  by (auto simp: jk_map_def find_None_iff split: option.splits)

lemma jk_map_Some:
  assumes "cells_ok (cells st)"
  shows "jk_map st k = Some a \<longleftrightarrow> (\<exists>x. cell_at (cells st) a = Done x \<and> chain_mem x = k)"
proof
  assume "jk_map st k = Some a"
  then show "\<exists>x. cell_at (cells st) a = Done x \<and> chain_mem x = k"
    by (auto simp: jk_map_def find_Some_iff split: option.splits)
next
  assume x: "\<exists>x. cell_at (cells st) a = Done x \<and> chain_mem x = k"
  then obtain b where b: "jk_map st k = Some b"
    using jk_map_None [of st k] by (cases "jk_map st k") auto
  then have "\<exists>y. cell_at (cells st) b = Done y \<and> chain_mem y = k"
    by (auto simp: jk_map_def find_Some_iff split: option.splits)
  with x assms have "a = b" unfolding cells_ok_def by metis
  with b show "jk_map st k = Some a" by simp
qed

lemma unat_and_le: "unat (x AND hashmask) \<le> unat hashmask" for x hashmask :: u32
  using word_and_le1 by (simp only: word_le_nat_alt)


lemma chains_ok_update:
  assumes "chains_ok hashmask cs ar ls" and "h < length ls" and "seg cs' p as None" and "distinct as"
    and here: "\<And>b. b \<in> set as \<longleftrightarrow> (\<exists>x. cell_at cs' b = Done x \<and> bucket_of hashmask x = h)"
    and there: "\<And>b k. k \<noteq> h \<Longrightarrow> (\<exists>x. cell_at cs' b = Done x \<and> bucket_of hashmask x = k) \<longleftrightarrow>
      (\<exists>x. cell_at cs b = Done x \<and> bucket_of hashmask x = k)"
    and same: "\<And>b x. cell_at cs b = Done x \<Longrightarrow> bucket_of hashmask x \<noteq> h \<Longrightarrow> cell_at cs' b = cell_at cs b"
  shows "chains_ok hashmask cs' (ar[h := p]) (ls[h := as])"
proof -
  have ls: "length ar = unat hashmask + 1" "length ls = unat hashmask + 1"
    "\<And>k. k < length ls \<Longrightarrow> seg cs (ar ! k) (ls ! k) None" "\<And>k. k < length ls \<Longrightarrow> distinct (ls ! k)"
    "\<And>k b. k < length ls \<Longrightarrow> b \<in> set (ls ! k) \<longleftrightarrow> (\<exists>x. cell_at cs b = Done x \<and> bucket_of hashmask x = k)"
    using assms(1) unfolding chains_ok_def by blast+
  have "seg cs' (ar ! k) (ls ! k) None" if k: "k < length ls" "k \<noteq> h" for k
  proof (rule seg_cong [OF ls(3) [OF k(1)]])
    fix b
    assume "b \<in> set (ls ! k)"
    then obtain x where "cell_at cs b = Done x" "bucket_of hashmask x = k"
      using ls(5) [OF k(1)] by blast
    then show "cell_at cs' b = cell_at cs b"
      using same k(2) by blast
  qed
  moreover have "b \<in> set (ls ! k) \<longleftrightarrow> (\<exists>x. cell_at cs' b = Done x \<and> bucket_of hashmask x = k)"
    if "k < length ls" "k \<noteq> h" for k b
    using ls(5) [OF that(1)] there [OF that(2)] by blast
  ultimately show ?thesis
    using ls(1,2,4) assms(2-4) here by (auto simp: chains_ok_def nth_list_update simp del: cell_at_Done)
qed

lemma matches_key:
  assumes "cell_ok x" "unat len \<le> length mem" "j_hash mem len len = Done hf"
  shows "matches hf len mem x \<longleftrightarrow> chain_mem x = take (unat len) mem"
proof
  assume "matches hf len mem x"
  then show "chain_mem x = take (unat len) mem"
    using assms(1) by (simp add: matches_def cell_ok_def)
next
  assume k: "chain_mem x = take (unat len) mem"
  then have "unat (chain_length x) = unat len"
    using assms(1,2) by (simp add: cell_ok_def)
  then have l: "chain_length x = len" by (rule unsigned_word_eqI)
  then have "Done (fullhash x) = Done hf"
    using assms k j_hash_take [OF assms(2), of len] by (simp add: cell_ok_def)
  then show "matches hf len mem x"
    using k l by (simp add: matches_def)
qed

text \<open>Only links change.\<close>

lemma cells_ok_unlinked:
  assumes "cells_ok cs"
    and "\<And>a x. cell_at cs' a = Done x \<Longrightarrow> \<exists>y. cell_at cs a = Done y \<and> unlinked x = unlinked y"
  shows "cells_ok cs'"
proof -
  have "cell_ok x" if x: "cell_at cs' a = Done x" for a x
  proof -
    obtain y where y: "cell_at cs a = Done y" "unlinked x = unlinked y"
      using assms(2) [OF x] by blast
    have "cell_ok y"
      using assms(1) y(1) unfolding cells_ok_def by blast
    then show ?thesis
      using unlinkedD [OF y(2)] by (simp add: cell_ok_def)
  qed
  moreover have "a = b" if x: "cell_at cs' a = Done x" "cell_at cs' b = Done x'" "chain_mem x = chain_mem x'" for a b x x'
  proof -
    obtain y y' where y: "cell_at cs a = Done y" "unlinked x = unlinked y" "cell_at cs b = Done y'" "unlinked x' = unlinked y'"
      using assms(2) [OF x(1)] assms(2) [OF x(2)] by blast
    then have "chain_mem y = chain_mem y'"
      using x(3) unlinkedD(4) [OF y(2)] unlinkedD(4) [OF y(4)] by simp
    then show ?thesis
      using assms(1) y(1,3) unfolding cells_ok_def by blast
  qed
  ultimately show ?thesis
    unfolding cells_ok_def by blast
qed


text \<open>\<open>entries_kept base st'\<close>: no entry is lost, moved in memory, or changed.\<close>

definition entries_kept :: "jenkins \<Rightarrow> jenkins \<Rightarrow> bool" where
  "entries_kept st st' \<longleftrightarrow> (\<forall>a x. cell_at (cells st) a = Done x \<longrightarrow>
     (\<exists>y. cell_at (cells st') a = Done y \<and> unlinked y = unlinked x))"

lemma JenkinsIns_found:
  assumes ok: "jk_ok hashmask st" and len: "unat len \<le> length mem"
    and found: "jk_map st (take (unat len) mem) = Some a"
  shows "\<exists>st'. JenkinsIns st mem len hashmask = Done (a, st') \<and> jk_ok hashmask st' \<and> entries_kept st st' \<and> entries_kept st' st"
proof -
  define cs where "cs = cells st"
  define ar where "ar = ar_of hashmask st"
  obtain ls where ls: "chains_ok hashmask cs ar ls" and m1: "hashmask \<noteq> -1" and cok: "cells_ok cs"
    using ok by (auto simp: jk_ok_def cs_def ar_def)
  obtain x where x: "cell_at cs a = Done x" "chain_mem x = take (unat len) mem"
    using found jk_map_Some cok by (auto simp: cs_def simp del: cell_at_Done)
  obtain hf where hf: "j_hash mem len len = Done hf"
    using j_hash_reads [OF len] by blast
  let ?h = "unat (hf AND hashmask)"
  have xok: "cell_ok x" using cok x(1) unfolding cells_ok_def by blast
  then have "matches hf len mem x" using matches_key [OF _ len hf] x(2) by blast
  then have b: "bucket_of hashmask x = ?h" by (simp add: matches_def bucket_of_def)
  have h: "?h < length ls" "length ar = length ls"
    using ls unat_and_le [of hf hashmask] by (auto simp: chains_ok_def)
  have as: "seg cs (ar ! ?h) (ls ! ?h) None" "distinct (ls ! ?h)" "a \<in> set (ls ! ?h)"
    using ls h b x(1) unfolding chains_ok_def by blast+
  from as(3) obtain pre post where split: "ls ! ?h = pre @ a # post" by (auto simp: in_set_conv_decomp)
  have no: "\<not> matches hf len mem y" if "c \<in> set pre" "cell_at cs c = Done y" for c y
  proof
    assume "matches hf len mem y"
    moreover have "cell_ok y" using cok that(2) unfolding cells_ok_def by blast
    ultimately have "chain_mem y = chain_mem x" using matches_key [OF _ len hf] x(2) by simp
    then have "c = a" using cok that(2) x(1) unfolding cells_ok_def by blast
    then show False using that(1) as(2) split by simp
  qed
  have "seg cs (ar ! ?h) (pre @ [a]) (chain_next x)"
    using as(1) x(1) split by (auto simp: seg_append simp del: cell_at_Done)
  then have hit: "jk_find (length cs + 1) cs hf len mem (ar ! ?h) (ar ! ?h) =
      Done (Some (if pre = [] then ar ! ?h else Some (last pre), a))"
    by (rule jk_find_hit [OF _ _ x(1) \<open>matches hf len mem x\<close> no])
      (use seg_bound [OF as(1,2)] split in simp)
  have "uint (hf AND hashmask) < int (length ls)"
    using h(1) by (simp only: uint_nat of_nat_less_iff)
  note run = this JenkinsIns_def [of st] cs_def [symmetric] ar_of_def [of hashmask st, folded ar_def, symmetric]
  show ?thesis
  proof (cases "pre = []")
    case True
    then have "ar ! ?h = Some a" using as(1) split by simp
    then have "JenkinsIns st mem len hashmask = Done (a, \<lparr>cells = cs, buckets = Some ar\<rparr>)"
      using True hit h by (simp add: run Let_def hf)
    moreover have "jk_ok hashmask \<lparr>cells = cs, buckets = Some ar\<rparr>"
      using ls m1 cok by (auto simp: jk_ok_def ar_of_def)
    ultimately show ?thesis by (auto simp: entries_kept_def cs_def)
  next
    case False
    then obtain pre' p where pre: "pre = pre' @ [p]" by (cases pre rule: rev_cases) auto
    then have "p \<in> set (ls ! ?h)" "p \<noteq> a" using split as(2) by auto
    then obtain y where y: "cell_at cs p = Done y" "bucket_of hashmask y = ?h"
      using ls h unfolding chains_ok_def by blast
    define cs' where "cs' = cs[p := Some (y\<lparr>chain_next := chain_next x\<rparr>), a := Some (x\<lparr>chain_next := ar ! ?h\<rparr>)]"
    have l: "a < length cs" "p < length cs" using x(1) y(1) by simp_all
    have at: "cell_at cs' b = (if b = a then Done (x\<lparr>chain_next := ar ! ?h\<rparr>)
        else if b = p then Done (y\<lparr>chain_next := chain_next x\<rparr>) else cell_at cs b)" for b
      using l by (simp add: cs'_def cell_at_update del: cell_at_Done)
    have "cell_at (cs[p := Some (y\<lparr>chain_next := chain_next x\<rparr>)]) a = Done x"
      using l x(1) \<open>p \<noteq> a\<close> by (simp add: cell_at_update del: cell_at_Done)
    then have r: "JenkinsIns st mem len hashmask = Done (a, \<lparr>cells = cs', buckets = Some (ar[?h := Some a])\<rparr>)"
      using False hit h pre \<open>p \<noteq> a\<close> x(1) y(1)
      by (simp add: run Let_def hf set_next_Done array_set_def cs'_def del: cell_at_Done)
    have same: "\<exists>z'. cell_at cs' b = Done z' \<and> unlinked z' = unlinked z" if "cell_at cs b = Done z" for b z
      using that x(1) y(1) by (auto simp: at simp del: cell_at_Done)
    have before: "\<exists>z'. cell_at cs b = Done z' \<and> unlinked z = unlinked z'" if "cell_at cs' b = Done z" for b z
      using that x(1) y(1) by (auto simp: at simp del: cell_at_Done split: if_splits)
    have bk: "(\<exists>z. cell_at cs' b = Done z \<and> bucket_of hashmask z = k) \<longleftrightarrow>
        (\<exists>z. cell_at cs b = Done z \<and> bucket_of hashmask z = k)" for b k
      using x(1) y(1) by (simp add: at bucket_of_def del: cell_at_Done)
    have set: "c \<in> set (a # pre' @ p # post) \<longleftrightarrow> c \<in> set (ls ! ?h)" for c
      using split pre by auto
    have "chains_ok hashmask cs' (ar[?h := Some a]) (ls[?h := a # pre' @ p # post])"
    proof (rule chains_ok_update [OF ls h(1)])
      show "seg cs' (Some a) (a # pre' @ p # post) None"
        unfolding cs'_def by (rule move_to_front) (use as split pre x(1) y(1) in simp_all)
      show "c \<in> set (a # pre' @ p # post) \<longleftrightarrow> (\<exists>x. cell_at cs' c = Done x \<and> bucket_of hashmask x = ?h)" for c
        unfolding set bk using ls h unfolding chains_ok_def by blast
      show "cell_at cs' c = cell_at cs c" if "cell_at cs c = Done z" "bucket_of hashmask z \<noteq> ?h" for c z
        using that x(1) y b by (auto simp: at simp del: cell_at_Done)
    qed (use as(2) split pre bk in auto)
    moreover have "cells_ok cs'" by (rule cells_ok_unlinked [OF cok before])
    ultimately have "jk_ok hashmask \<lparr>cells = cs', buckets = Some (ar[?h := Some a])\<rparr>"
      using m1 by (auto simp: jk_ok_def ar_of_def)
    moreover have "entries_kept st \<lparr>cells = cs', buckets = Some (ar[?h := Some a])\<rparr>"
      using same by (simp add: entries_kept_def cs_def del: cell_at_Done)
    moreover have "entries_kept \<lparr>cells = cs', buckets = Some (ar[?h := Some a])\<rparr> st"
      using before by (fastforce simp: entries_kept_def simp flip: cs_def simp del: cell_at_Done)
    ultimately show ?thesis using r by auto
  qed
qed


lemma JenkinsIns_new:
  assumes ok: "jk_ok hashmask st" and len: "unat len \<le> length mem"
    and new: "jk_map st (take (unat len) mem) = None"
  shows "\<exists>st'. JenkinsIns st mem len hashmask = Done (length (cells st), st') \<and> jk_ok hashmask st' \<and> entries_kept st st' \<and>
    (\<exists>x. cells st' = cells st @ [Some x] \<and> payload x = 0 \<and> chain_mem x = take (unat len) mem)"
proof -
  define cs where "cs = cells st"
  define ar where "ar = ar_of hashmask st"
  obtain ls where ls: "chains_ok hashmask cs ar ls" and m1: "hashmask \<noteq> -1" and cok: "cells_ok cs"
    using ok by (auto simp: jk_ok_def cs_def ar_def)
  obtain hf where hf: "j_hash mem len len = Done hf"
    using j_hash_reads [OF len] by blast
  let ?h = "unat (hf AND hashmask)"
  have h: "?h < length ls" "length ar = length ls"
    using ls unat_and_le [of hf hashmask] by (auto simp: chains_ok_def)
  have ih: "uint (hf AND hashmask) < int (length ls)"
    using h(1) by (simp only: uint_nat of_nat_less_iff)
  have as: "seg cs (ar ! ?h) (ls ! ?h) None" "distinct (ls ! ?h)"
    using ls h unfolding chains_ok_def by blast+
  have no: "\<not> matches hf len mem y" if "cell_at cs c = Done y" for c y
  proof -
    have "cell_ok y" using cok that unfolding cells_ok_def by blast
    moreover have "chain_mem y \<noteq> take (unat len) mem"
      using new that unfolding jk_map_None cs_def by blast
    ultimately show ?thesis using matches_key [OF _ len hf] by blast
  qed
  have miss: "jk_find (length cs + 1) cs hf len mem (ar ! ?h) (ar ! ?h) = Done None"
    by (rule jk_find_miss [OF as(1) _ no]) (use seg_bound [OF as] in simp)
  define x where "x = \<lparr>chain_next = ar ! ?h, payload = 0, fullhash = hf, chain_length = len,
    chain_mem = take (unat len) mem\<rparr>"
  define cs' where "cs' = cs @ [Some x]"
  have at: "cell_at cs' b = (if b = length cs then Done x else cell_at cs b)" for b
    by (simp add: cs'_def cell_at_def array_get_def nth_append)
  have r: "JenkinsIns st mem len hashmask = Done (length cs, \<lparr>cells = cs', buckets = Some (ar[?h := Some (length cs)])\<rparr>)"
    unfolding JenkinsIns_def cs_def [symmetric] ar_of_def [of hashmask st, folded ar_def, symmetric]
    using miss h ih by (simp add: Let_def hf array_set_def cs'_def x_def)
  have b: "bucket_of hashmask x = ?h" by (simp add: bucket_of_def x_def)
  have notin: "\<not> cell_at cs (length cs) = Done y" for y by simp
  have "chains_ok hashmask cs' (ar[?h := Some (length cs)]) (ls[?h := length cs # ls ! ?h])"
  proof (rule chains_ok_update [OF ls h(1)])
    have "seg cs' (ar ! ?h) (ls ! ?h) None"
      by (rule seg_cong [OF as(1)]) (use seg_live [OF as(1)] in \<open>auto simp: at\<close>)
    then show "seg cs' (Some (length cs)) (length cs # ls ! ?h) None"
      by (simp add: at x_def del: cell_at_Done)
    show "distinct (length cs # ls ! ?h)"
      using as(2) seg_live [OF as(1)] by fastforce
    have "c \<in> set (ls ! ?h) \<longleftrightarrow> (\<exists>z. cell_at cs c = Done z \<and> bucket_of hashmask z = ?h)" for c
      using ls h unfolding chains_ok_def by blast
    then show "c \<in> set (length cs # ls ! ?h) \<longleftrightarrow> (\<exists>z. cell_at cs' c = Done z \<and> bucket_of hashmask z = ?h)" for c
      using b by (auto simp: at simp del: cell_at_Done)
    show "(\<exists>z. cell_at cs' c = Done z \<and> bucket_of hashmask z = k) \<longleftrightarrow> (\<exists>z. cell_at cs c = Done z \<and> bucket_of hashmask z = k)"
      if "k \<noteq> ?h" for c k
      using that b notin by (auto simp: at simp del: cell_at_Done)
    show "cell_at cs' c = cell_at cs c" if "cell_at cs c = Done z" for c z
      using that notin by (auto simp: at simp del: cell_at_Done)
  qed
  moreover have "cell_ok x"
    using hf j_hash_take [OF len, of len] len by (simp add: cell_ok_def x_def)
  then have "cells_ok cs'"
    using cok new unfolding cells_ok_def jk_map_None cs_def [symmetric] at
    by (metis (no_types, lifting) collchain_t.select_convs(5) run.inject(1) x_def)
  ultimately have "jk_ok hashmask \<lparr>cells = cs', buckets = Some (ar[?h := Some (length cs)])\<rparr>"
    using m1 by (auto simp: jk_ok_def ar_of_def)
  moreover have "entries_kept st \<lparr>cells = cs', buckets = Some (ar[?h := Some (length cs)])\<rparr>"
    using notin by (auto simp: entries_kept_def at simp flip: cs_def simp del: cell_at_Done)
  moreover have "payload x = 0" "chain_mem x = take (unat len) mem"
    by (simp_all add: x_def)
  ultimately show ?thesis
    using r by (auto simp: cs'_def cs_def)
qed

lemma entries_kept_refl [simp]: "entries_kept st st"
  by (simp add: entries_kept_def)

lemma entries_kept_trans:
  assumes "entries_kept st st'" "entries_kept st' st''"
  shows "entries_kept st st''"
  unfolding entries_kept_def
proof (intro allI impI)
  fix a x
  assume "cell_at (cells st) a = Done x"
  with assms(1) obtain y where y: "cell_at (cells st') a = Done y" "unlinked y = unlinked x" unfolding entries_kept_def by blast
  with assms(2) obtain z where "cell_at (cells st'') a = Done z" "unlinked z = unlinked y" unfolding entries_kept_def by blast
  with y show "\<exists>z. cell_at (cells st'') a = Done z \<and> unlinked z = unlinked x" by auto
qed

lemma entries_kept_payload: "entries_kept st st' \<Longrightarrow> payload_of st a = Done v \<Longrightarrow> payload_of st' a = Done v"
proof -
  assume k: "entries_kept st st'" and "payload_of st a = Done v"
  then obtain x where x: "cell_at (cells st) a = Done x" "payload x = v"
    by (auto simp: payload_of_def rbind_eq_Done simp del: cell_at_Done)
  then obtain y where "cell_at (cells st') a = Done y" "unlinked y = unlinked x"
    using k unfolding entries_kept_def by blast
  then show ?thesis
    using x(2) unlinkedD(1) [of y x] by (simp add: payload_of_def del: cell_at_Done)
qed

lemma entries_kept_map:
  assumes "entries_kept st st'" "jk_ok hashmask st" "jk_ok hashmask st'" "jk_map st k = Some a"
  shows "jk_map st' k = Some a"
proof -
  obtain x where x: "cell_at (cells st) a = Done x" "chain_mem x = k"
    using assms(2,4) jk_map_Some unfolding jk_ok_def by blast
  then obtain y where y: "cell_at (cells st') a = Done y" "unlinked y = unlinked x"
    using assms(1) unfolding entries_kept_def by blast
  then have "chain_mem y = k"
    using x(2) unlinkedD(4) [OF y(2)] by simp
  then show ?thesis
    using assms(3) y(1) jk_map_Some unfolding jk_ok_def by blast
qed


lemma jk_map_eq:
  assumes "entries_kept st st'" "entries_kept st' st" "jk_ok hashmask st" "jk_ok hashmask st'"
  shows "jk_map st' = jk_map st"
proof
  fix k
  show "jk_map st' k = jk_map st k"
    using entries_kept_map [OF assms(1,3,4), of k] entries_kept_map [OF assms(2,4,3), of k]
    by (cases "jk_map st k"; cases "jk_map st' k") auto
qed

lemma jk_map_new:
  assumes "jk_ok hashmask st" "jk_ok hashmask st'" "entries_kept st st'" "cells st' = cells st @ [Some x]" "jk_map st (chain_mem x) = None"
  shows "jk_map st' = (jk_map st)(chain_mem x \<mapsto> length (cells st))"
proof
  fix k
  have at: "cell_at (cells st') b = (if b = length (cells st) then Done x else cell_at (cells st) b)" for b
    by (simp add: assms(4) cell_at_def array_get_def nth_append)
  have "jk_map st' (chain_mem x) = Some (length (cells st))"
    using assms(2) jk_map_Some [of st'] at [of "length (cells st)"] unfolding jk_ok_def by auto
  moreover have "jk_map st' k = jk_map st k" if k: "k \<noteq> chain_mem x"
  proof (cases "jk_map st k")
    case None
    then have "jk_map st' k = None"
      unfolding jk_map_None using k by (auto simp: at simp del: cell_at_Done)
    with None show ?thesis by simp
  next
    case (Some a)
    then show ?thesis using entries_kept_map [OF assms(3,1,2)] by simp
  qed
  ultimately show "jk_map st' k = ((jk_map st)(chain_mem x \<mapsto> length (cells st))) k"
    by simp
qed

lemma jk_ok_none:
  assumes "hashmask \<noteq> -1" "cells st = replicate n None" "buckets st = None"
  shows "jk_ok hashmask st" "jk_map st = Map.empty"
proof -
  have none: "cell_at (cells st) a \<noteq> Done x" for a x
    using assms(2) by auto
  then show "jk_map st = Map.empty"
    using jk_map_None by blast
  have "unat (hashmask + 1) = unat hashmask + 1"
    using unatSuc [of hashmask] assms(1) by (simp add: eq_neg_iff_add_eq_0 add.commute)
  then have "chains_ok hashmask (cells st) (ar_of hashmask st) (replicate (unat hashmask + 1) [])"
    using none assms(3) by (simp add: chains_ok_def ar_of_def del: replicate.simps replicate_Suc cell_at_Done)
  then show "jk_ok hashmask st"
    using assms(1) none unfolding jk_ok_def cells_ok_def by blast
qed

lemma jk_ok_empty: "hashmask \<noteq> -1 \<Longrightarrow> jk_ok hashmask jenkins_empty"
  by (rule jk_ok_none [of _ _ 0]) (simp_all add: jenkins_empty_def)

lemma jk_map_empty [simp]: "jk_map jenkins_empty = Map.empty"
  by (simp add: jk_map_def jenkins_empty_def fun_eq_iff)

lemma set_payload_keeps:
  assumes "jk_ok hashmask st" "payload_of st a = Done u"
  shows "\<exists>st'. set_payload st a v = Done st' \<and> jk_ok hashmask st' \<and> jk_map st' = jk_map st \<and>
    (\<forall>b. payload_of st' b = (if b = a then Done v else payload_of st b))"
proof -
  define cs where "cs = cells st"
  obtain x where x: "cell_at cs a = Done x"
    using assms(2) by (auto simp: payload_of_def rbind_eq_Done cs_def simp del: cell_at_Done)
  define cs' where "cs' = cs[a := Some (x\<lparr>payload := v\<rparr>)]"
  define st' where "st' = st\<lparr>cells := cs'\<rparr>"
  have r: "set_payload st a v = Done st'"
    using x by (simp add: set_payload_def cs_def cs'_def st'_def del: cell_at_Done)
  have at: "cell_at cs' b = (if b = a then Done (x\<lparr>payload := v\<rparr>) else cell_at cs b)" for b
    using x cell_at_update [of a cs] by (simp add: cs'_def)
  obtain ls where ls: "chains_ok hashmask cs (ar_of hashmask st) ls"
    using assms(1) by (auto simp: jk_ok_def cs_def)
  have "seg cs p as q \<Longrightarrow> seg cs' p as q" for p as q
    using x by (induction as arbitrary: p) (auto simp: at simp del: cell_at_Done)
  moreover have "(\<exists>z. cell_at cs' b = Done z \<and> bucket_of hashmask z = k) \<longleftrightarrow>
      (\<exists>z. cell_at cs b = Done z \<and> bucket_of hashmask z = k)" for b k
    using x by (simp add: at bucket_of_def del: cell_at_Done)
  ultimately have "chains_ok hashmask cs' (ar_of hashmask st') ls"
    using ls unfolding chains_ok_def by (simp add: ar_of_def st'_def del: cell_at_Done)
  moreover have "cells_ok cs'"
  proof -
    have same: "\<exists>z. cell_at cs b = Done z \<and> chain_mem z = chain_mem y \<and> (cell_ok z \<longrightarrow> cell_ok y)"
      if "cell_at cs' b = Done y" for b y
      using that x by (auto simp: at cell_ok_def simp del: cell_at_Done split: if_splits)
    then show ?thesis
      using assms(1) unfolding jk_ok_def cells_ok_def cs_def [symmetric] by metis
  qed
  ultimately have ok: "jk_ok hashmask st'"
    using assms(1) by (auto simp: jk_ok_def st'_def)
  have "jk_map st' k = jk_map st k" for k
  proof -
    have "(\<exists>z. cell_at cs' b = Done z \<and> chain_mem z = k) \<longleftrightarrow> (\<exists>z. cell_at cs b = Done z \<and> chain_mem z = k)" for b
      using x by (simp add: at del: cell_at_Done)
    then have "jk_map st' k = Some b \<longleftrightarrow> jk_map st k = Some b" for b
      using ok assms(1) jk_map_Some unfolding jk_ok_def by (simp add: st'_def cs_def)
    then show ?thesis
      by (cases "jk_map st k"; cases "jk_map st' k") auto
  qed
  moreover have "payload_of st' b = (if b = a then Done v else payload_of st b)" for b
    by (simp add: payload_of_def st'_def at cs_def)
  ultimately show ?thesis
    using r ok by auto
qed

lemma JenkinsIns_inserts:
  assumes "jk_ok hashmask st" "unat len \<le> length mem"
  defines "key \<equiv> take (unat len) mem"
  shows "\<exists>a st'. JenkinsIns st mem len hashmask = Done (a, st') \<and> jk_ok hashmask st' \<and>
    jk_map st' = (jk_map st)(key \<mapsto> a) \<and>
    (\<forall>b v. payload_of st b = Done v \<longrightarrow> payload_of st' b = Done v) \<and>
    (case jk_map st key of Some b \<Rightarrow> a = b | None \<Rightarrow> a \<notin> ran (jk_map st) \<and> payload_of st' a = Done 0)"
proof (cases "jk_map st key")
  case None
  obtain st' x where st': "JenkinsIns st mem len hashmask = Done (length (cells st), st')" "jk_ok hashmask st'" "entries_kept st st'"
    "cells st' = cells st @ [Some x]" "payload x = 0" "chain_mem x = key"
    using JenkinsIns_new [OF assms(1,2)] None by (auto simp: key_def)
  have "jk_map st' = (jk_map st)(key \<mapsto> length (cells st))"
    using jk_map_new [OF assms(1) st'(2-4)] None st'(6) by simp
  moreover have "payload_of st' (length (cells st)) = Done 0"
    by (simp add: payload_of_def st'(4,5) cell_at_def)
  moreover have "length (cells st) \<notin> ran (jk_map st)"
    using assms(1) jk_map_Some [of st] by (auto simp: ran_def jk_ok_def)
  ultimately show ?thesis
    using st'(1-3) entries_kept_payload None by auto
next
  case (Some a)
  obtain st' where st': "JenkinsIns st mem len hashmask = Done (a, st')" "jk_ok hashmask st'" "entries_kept st st'" "entries_kept st' st"
    using JenkinsIns_found [OF assms(1,2)] Some by (auto simp: key_def)
  have "jk_map st' = (jk_map st)(key \<mapsto> a)"
    using jk_map_eq [OF st'(3,4) assms(1) st'(2)] Some by (simp add: fun_upd_idem)
  then show ?thesis
    using st'(1-3) entries_kept_payload Some by auto
qed


text \<open>
  C16: \<open>JenkinsIns\<close> is the insertion into a map. It gives the entry of the key when there is one, and a
  new entry with the payload NULL otherwise, whose address is different from all others; the moves to
  the front of the chains lose no entry and change no payload, and the table stays well formed.
\<close>

theorem jenkins_insert:
  assumes "jk_ok hashmask st" "unat len \<le> length mem"
  defines "key \<equiv> take (unat len) mem"
  shows "\<exists>a st'. JenkinsIns st mem len hashmask = Done (a, st') \<and> jk_ok hashmask st' \<and>
    jk_map st' = (jk_map st)(key \<mapsto> a) \<and>
    (\<forall>b v. payload_of st b = Done v \<longrightarrow> payload_of st' b = Done v) \<and>
    (case jk_map st key of Some b \<Rightarrow> a = b | None \<Rightarrow> a \<notin> ran (jk_map st) \<and> payload_of st' a = Done 0)"
  unfolding key_def by (rule JenkinsIns_inserts [OF assms(1,2)])

theorem jenkins_insert_witness:
  "\<exists>st a st'. jk_ok 0xffff st \<and> JenkinsIns st [98, 99] 2 0xffff = Done (a, st') \<and> jk_map st' [98, 99] = Some a \<and>
    payload_of st' a = Done 0"
  using jenkins_insert [of "0xffff" jenkins_empty 2 "[98, 99]"] jk_ok_empty [of "0xffff"] by auto

section \<open>Giving the table back\<close>

definition freed :: "collchain_t option list \<Rightarrow> nat set \<Rightarrow> collchain_t option list" where
  "freed cs A = map (\<lambda>a. if a \<in> A then None else cs ! a) [0..<length cs]"

lemma length_freed [simp]: "length (freed cs A) = length cs"
  by (simp add: freed_def)

lemma cell_at_freed: "b < length cs \<Longrightarrow> freed cs A ! b = (if b \<in> A then None else cs ! b)"
  by (simp add: freed_def)

lemma freed_insert: "a < length cs \<Longrightarrow> freed (cs[a := None]) A = freed cs (insert a A)"
  by (rule nth_equalityI) (auto simp: cell_at_freed nth_list_update)

lemma freed_freed: "freed (freed cs A) B = freed cs (A \<union> B)"
  by (rule nth_equalityI) (auto simp: cell_at_freed)

lemma freed_empty [simp]: "freed cs {} = cs"
  by (simp add: freed_def map_nth)

lemma jk_free_chain_freed:
  "seg cs p as None \<Longrightarrow> distinct as \<Longrightarrow> jk_free_chain cs p = Done (freed cs (set as))"
proof (induction as arbitrary: cs p)
  case Nil
  then show ?case by (simp add: jk_free_chain.simps)
next
  case (Cons a as)
  then obtain x where x: "p = Some a" "cell_at cs a = Done x" "seg cs (chain_next x) as None" by auto
  have "cell_at (cs[a := None]) b = cell_at cs b" if "b \<in> set as" for b
    using that Cons.prems(2) by (cases "b = a") (simp_all add: cell_at_def array_get_def)
  with x(3) have "seg (cs[a := None]) (chain_next x) as None"
    by (rule seg_cong)
  then have "jk_free_chain (cs[a := None]) (chain_next x) = Done (freed (cs[a := None]) (set as))"
    using Cons by simp
  moreover have "a < length cs" using x(2) by simp
  ultimately show ?case
    using x(1,2) by (subst jk_free_chain.simps) (simp add: freed_insert del: cell_at_Done)
qed

lemma jk_free_buckets_freed:
  "h + n = length ls \<Longrightarrow> length ar = length ls \<Longrightarrow>
   (\<And>k. h \<le> k \<Longrightarrow> k < length ls \<Longrightarrow> seg cs (ar ! k) (ls ! k) None \<and> distinct (ls ! k)) \<Longrightarrow>
   (\<And>k l. k < l \<Longrightarrow> l < length ls \<Longrightarrow> set (ls ! k) \<inter> set (ls ! l) = {}) \<Longrightarrow>
   jk_free_buckets n h ar cs = Done (freed cs (\<Union>k \<in> {h..<length ls}. set (ls ! k)))"
proof (induction n arbitrary: h cs)
  case 0
  then show ?case by simp
next
  case (Suc n)
  let ?cs = "freed cs (set (ls ! h))"
  have h: "h < length ls" using Suc.prems(1) by simp
  have chain: "jk_free_chain cs (ar ! h) = Done ?cs"
    using Suc.prems(3) [of h] h by (simp add: jk_free_chain_freed)
  have "seg ?cs (ar ! k) (ls ! k) None \<and> distinct (ls ! k)" if "h + 1 \<le> k" "k < length ls" for k
  proof
    show "seg ?cs (ar ! k) (ls ! k) None"
    proof (rule seg_cong)
      show "seg cs (ar ! k) (ls ! k) None" using Suc.prems(3) [of k] that by simp
      fix a
      assume "a \<in> set (ls ! k)"
      then have "a \<notin> set (ls ! h)" using Suc.prems(4) [of h k] that by auto
      then show "cell_at ?cs a = cell_at cs a"
        by (simp add: cell_at_def array_get_def cell_at_freed)
    qed
  qed (use Suc.prems(3) [of k] that in simp)
  then have "jk_free_buckets n (h + 1) ar ?cs = Done (freed ?cs (\<Union>k \<in> {h + 1..<length ls}. set (ls ! k)))"
    using Suc.IH [of "h + 1" ?cs] Suc.prems(1,2,4) by simp
  moreover have "{h..<length ls} = insert h {h + 1..<length ls}" using h by auto
  ultimately show ?case
    using chain h Suc.prems(2) by (simp add: freed_freed)
qed

text \<open>
  C33: \<open>JenkinsFree\<close> gives every entry back exactly once, and none is left: no cell is freed twice or read
  after it was freed, every bucket is visited, and the table is as before the first insertion.
\<close>

theorem jenkins_free:
  assumes "jk_ok hashmask st"
  shows "\<exists>st'. JenkinsFree st hashmask = Done st' \<and> jk_ok hashmask st' \<and> buckets st' = None \<and>
    cells st' = replicate (length (cells st)) None \<and> jk_map st' = Map.empty"
proof -
  obtain ls where ls: "chains_ok hashmask (cells st) (ar_of hashmask st) ls"
    using assms by (auto simp: jk_ok_def)
  have len: "length ls = unat hashmask + 1" "length (ar_of hashmask st) = length ls"
    using ls by (auto simp: chains_ok_def)
  have set: "a \<in> set (ls ! k) \<longleftrightarrow> (\<exists>x. cell_at (cells st) a = Done x \<and> bucket_of hashmask x = k)"
    if "k < length ls" for a k
    using ls that unfolding chains_ok_def by blast
  define gone where "gone = freed (cells st) (\<Union>k \<in> {0..<length ls}. set (ls ! k))"
  have all: "gone = replicate (length (cells st)) None"
  proof (rule nth_equalityI)
    fix a
    assume "a < length gone"
    then have a: "a < length (cells st)" by (simp add: gone_def)
    show "gone ! a = replicate (length (cells st)) None ! a"
    proof (cases "cells st ! a")
      case (Some x)
      then have "a \<in> set (ls ! bucket_of hashmask x)" "bucket_of hashmask x < length ls"
        using set [of "bucket_of hashmask x" a] a len unat_and_le [of "fullhash x" hashmask] by (auto simp: bucket_of_def)
      then show ?thesis using a by (auto simp: gone_def cell_at_freed)
    qed (use a in \<open>simp add: gone_def cell_at_freed\<close>)
  qed (simp add: gone_def)
  have free: "buckets st = Some ar \<Longrightarrow> jk_free_buckets (unat hashmask + 1) 0 ar (cells st) = Done gone" for ar
    unfolding gone_def
  proof (rule jk_free_buckets_freed)
    assume "buckets st = Some ar"
    then have ar: "ar = ar_of hashmask st" by (simp add: ar_of_def)
    show "0 + (unat hashmask + 1) = length ls" "length ar = length ls" using len ar by simp_all
    show "seg (cells st) (ar ! k) (ls ! k) None \<and> distinct (ls ! k)" if "k < length ls" for k
      using ls that unfolding chains_ok_def ar by blast
    show "set (ls ! k) \<inter> set (ls ! l) = {}" if "k < l" "l < length ls" for k l
      using set [of k] set [of l] that by auto
  qed
  have "hashmask \<noteq> -1" using assms by (simp add: jk_ok_def)
  note none = jk_ok_none [OF this]
  show ?thesis
  proof (cases "buckets st")
    case None
    have "ls ! k = []" if k: "k < length ls" for k
    proof -
      have "seg (cells st) (ar_of hashmask st ! k) (ls ! k) None"
        using ls k unfolding chains_ok_def by blast
      moreover have "ar_of hashmask st ! k = None"
        using None k len by (simp add: ar_of_def del: replicate.simps replicate_Suc)
      ultimately show ?thesis by (cases "ls ! k") simp_all
    qed
    then have "gone = cells st" by (simp add: gone_def)
    then have "cells st = replicate (length (cells st)) None" using all by simp
    then show ?thesis
      using None none(2) assms by (auto simp: JenkinsFree_def)
  next
    case (Some ar)
    have "JenkinsFree st hashmask = Done \<lparr>cells = gone, buckets = None\<rparr>"
      using free [OF Some] by (simp add: JenkinsFree_def Some)
    then show ?thesis
      using none [of "\<lparr>cells = gone, buckets = None\<rparr>"] all by auto
  qed
qed

theorem jenkins_free_witness:
  "\<exists>a st st'. JenkinsIns jenkins_empty [97] 1 0xffff = Done (a, st) \<and> JenkinsFree st 0xffff = Done st' \<and>
    cells st' = [None]"
proof -
  obtain a st x where "JenkinsIns jenkins_empty [97] 1 0xffff = Done (a, st)" "jk_ok 0xffff st" "cells st = [Some x]"
    using JenkinsIns_new [of "0xffff" jenkins_empty 1 "[97]"] jk_ok_empty [of "0xffff"] jk_map_empty
    by (auto simp: jenkins_empty_def)
  then show ?thesis
    using jenkins_free [of "0xffff" st] by fastforce
qed

end
