(* ===== verification/Fst_Hierarchy.thy ===== *)
theory Fst_Hierarchy
  imports Fst_Jenkins
begin

text \<open>
  The hierarchy section of FST files (\<open>src/src/grt/fst/fstapi.c\<close>, \<open>fstapi.h\<close>): the functions of the writer
  that create scopes, variables and attributes, and \<open>fstReaderIterateHier\<close>, which gives them back one by one.
  A file that is written is the list of its bytes, except for the table of positions, which is one of
  32-bit words; a C string is the list of its characters without the NUL.
\<close>

section \<open>The writer\<close>

text \<open>
  The fields of \<open>fstWriterContext\<close> that the functions below work on. \<open>valpos_mem\<close> and \<open>curval_mem\<close> are
  shared mappings of the files of the same name, so only whether they are there is recorded.
\<close>

record fst_writer =
  hier_handle :: "byte list"
  geom_handle :: "byte list"
  valpos_handle :: "u32 list"
  curval_handle :: "byte list"
  valpos_mem :: bool
  curval_mem :: bool
  hier_file_len :: int
  maxhandle :: u32
  numsigs :: u32
  maxvalpos :: u32
  numscopes :: u32
  nan_bytes :: "byte list"
  next_huge_break :: u32
  fst_break_size :: u64
  fst_break_add_size :: u64
  fst_orig_break_size :: u64
  fst_orig_break_add_size :: u64
  fst_huge_break_size :: u64
  vchg_alloc_siz :: u32
  path_array :: jenkins
  path_array_count :: u32

definition hier_put :: "byte list \<Rightarrow> fst_writer \<Rightarrow> fst_writer" where
  "hier_put bs xc = xc\<lparr>hier_handle := hier_handle xc @ bs\<rparr>"

definition hier_varint :: "u64 \<Rightarrow> fst_writer \<Rightarrow> fst_writer run" where
  "hier_varint v xc =
     rbind (fstWriterVarint (hier_handle xc) v) (\<lambda>(n, hier).
       Done (xc\<lparr>hier_handle := hier, hier_file_len := hier_file_len xc + n\<rparr>))"

definition geom_varint :: "u64 \<Rightarrow> fst_writer \<Rightarrow> fst_writer run" where
  "geom_varint v xc = rbind (fstWriterVarint (geom_handle xc) v) (\<lambda>(n, geom). Done (xc\<lparr>geom_handle := geom\<rparr>))"

text \<open>The variables: their kinds are numbers from 0 to 29.\<close>

definition FST_VT_VCD_REAL :: u32 where "FST_VT_VCD_REAL = 3"
definition FST_VT_VCD_REAL_PARAMETER :: u32 where "FST_VT_VCD_REAL_PARAMETER = 4"
definition FST_VT_VCD_PORT :: u32 where "FST_VT_VCD_PORT = 18"
definition FST_VT_VCD_REALTIME :: u32 where "FST_VT_VCD_REALTIME = 20"
definition FST_VT_GEN_STRING :: u32 where "FST_VT_GEN_STRING = 21"
definition FST_VT_SV_SHORTREAL :: u32 where "FST_VT_SV_SHORTREAL = 29"

lemmas fst_vt_defs = FST_VT_VCD_REAL_def FST_VT_VCD_REAL_PARAMETER_def FST_VT_VCD_PORT_def
  FST_VT_VCD_REALTIME_def FST_VT_GEN_STRING_def FST_VT_SV_SHORTREAL_def

definition fst_is_real :: "u32 \<Rightarrow> bool" where
  "fst_is_real vt \<longleftrightarrow> vt = FST_VT_VCD_REAL \<or> vt = FST_VT_VCD_REAL_PARAMETER \<or> vt = FST_VT_VCD_REALTIME \<or>
     vt = FST_VT_SV_SHORTREAL"

definition fst_var_len :: "u32 \<Rightarrow> u32 \<Rightarrow> u32" where
  "fst_var_len vt len = (if fst_is_real vt then 8 else if vt = FST_VT_GEN_STRING then 0 else len)"

definition fst_huge_break :: "fst_writer \<Rightarrow> fst_writer" where
  "fst_huge_break xc =
     (if numsigs xc = next_huge_break xc \<and> fst_break_size xc < fst_huge_break_size xc
      then let bs = fst_break_size xc + fst_orig_break_size xc;
               ba = fst_break_add_size xc + fst_orig_break_add_size xc in
        xc\<lparr>next_huge_break := next_huge_break xc + 1000000, fst_break_size := bs, fst_break_add_size := ba,
           vchg_alloc_siz := ucast (bs + ba)\<rparr>
      else xc)"

definition fstDestroyMmaps :: "fst_writer \<Rightarrow> fst_writer" where
  "fstDestroyMmaps xc = xc\<lparr>valpos_mem := False, curval_mem := False\<rparr>"

text \<open>The part that is skipped for an alias.\<close>

definition fst_new_handle :: "u32 \<Rightarrow> u32 \<Rightarrow> fst_writer \<Rightarrow> (u32 \<times> fst_writer) run" where
  "fst_new_handle vt len xc =
     rbind (geom_varint (if len \<noteq> 0 then (if \<not> fst_is_real vt then ucast len else 0) else 0xFFFFFFFF) xc) (\<lambda>xc.
     let xc = xc\<lparr>valpos_handle := valpos_handle xc @ [maxvalpos xc, len, 0, 0],
           curval_handle := curval_handle xc @ (if \<not> fst_is_real vt then replicate (unat len) 120 else nan_bytes xc),
           maxvalpos := maxvalpos xc + len, maxhandle := maxhandle xc + 1\<rparr> in
     Done (maxhandle xc, xc))"

definition fstWriterCreateVar :: "u32 \<Rightarrow> u32 \<Rightarrow> u32 \<Rightarrow> byte list option \<Rightarrow> u32 \<Rightarrow> fst_writer \<Rightarrow> (u32 \<times> fst_writer) run" where
  "fstWriterCreateVar vt vd len nam aliasHandle xc = (case nam of
       None \<Rightarrow> Done (0, xc)
     | Some nam \<Rightarrow>
         let xc = (if valpos_mem xc then fstDestroyMmaps xc else xc);
             xc = hier_put ([ucast vt, ucast vd] @ nam @ [0]) xc;
             xc = xc\<lparr>hier_file_len := hier_file_len xc + (int (length nam) + 3)\<rparr>;
             len = fst_var_len vt len in
         rbind (hier_varint (ucast len) xc) (\<lambda>xc.
         let aliasHandle = (if aliasHandle > maxhandle xc then 0 else aliasHandle) in
         rbind (hier_varint (ucast aliasHandle) xc) (\<lambda>xc.
         let xc = fst_huge_break (xc\<lparr>numsigs := numsigs xc + 1\<rparr>) in
         if aliasHandle = 0 then fst_new_handle vt len xc else Done (aliasHandle, xc))))"

definition FST_ST_MAX :: u32 where "FST_ST_MAX = 21"

definition or_empty :: "byte list option \<Rightarrow> byte list" where
  "or_empty s = (case s of None \<Rightarrow> [] | Some s \<Rightarrow> s)"

definition fstWriterSetScope :: "u32 \<Rightarrow> byte list option \<Rightarrow> byte list option \<Rightarrow> fst_writer \<Rightarrow> fst_writer" where
  "fstWriterSetScope scopetype scopename scopecomp xc =
     (let scopetype = (if scopetype > FST_ST_MAX then 0 else scopetype);
          xc = hier_put ([254, ucast scopetype] @ or_empty scopename @ [0] @ or_empty scopecomp @ [0]) xc in
      xc\<lparr>hier_file_len := hier_file_len xc + int (length (or_empty scopename)) + int (length (or_empty scopecomp)) + 4,
         numscopes := numscopes xc + 1\<rparr>)"

definition fstWriterSetUpscope :: "fst_writer \<Rightarrow> fst_writer" where
  "fstWriterSetUpscope xc = (hier_put [255] xc)\<lparr>hier_file_len := hier_file_len xc + 1\<rparr>"

text \<open>Attributes: an invalid subtype becomes the first of its kind.\<close>

definition fst_attr_kind :: "u32 \<Rightarrow> int \<Rightarrow> u32 \<times> int" where
  "fst_attr_kind attrtype subtype =
     (let (attrtype, subtype) = (if attrtype > 3 then (0, 7) else (attrtype, subtype));
          subtype =
            (if attrtype = 1 then (if subtype < 0 \<or> subtype > 3 then 0 else subtype)
             else if attrtype = 2 then (if subtype < 0 \<or> subtype > 13 then 0 else subtype)
             else if attrtype = 3 then (if subtype < 0 \<or> subtype > 3 then 0 else subtype)
             else subtype) in
      (attrtype, subtype))"

definition fstWriterSetAttrBegin :: "u32 \<Rightarrow> int \<Rightarrow> byte list option \<Rightarrow> u64 \<Rightarrow> fst_writer \<Rightarrow> fst_writer run" where
  "fstWriterSetAttrBegin attrtype subtype attrname arg xc =
     (let (attrtype, subtype) = fst_attr_kind attrtype subtype;
          xc = hier_put ([252, ucast attrtype, word_of_int subtype] @ or_empty attrname @ [0]) xc;
          xc = xc\<lparr>hier_file_len := hier_file_len xc + int (length (or_empty attrname)) + 4\<rparr> in
      hier_varint arg xc)"

definition fstWriterSetAttrEnd :: "fst_writer \<Rightarrow> fst_writer" where
  "fstWriterSetAttrEnd xc = (hier_put [253] xc)\<lparr>hier_file_len := hier_file_len xc + 1\<rparr>"

text \<open>A number other than 0 as a string: its bytes in an array, with a NUL behind them.\<close>

definition fstWriterSetAttrDoubleArgGeneric :: "int \<Rightarrow> u64 \<Rightarrow> u64 \<Rightarrow> fst_writer \<Rightarrow> fst_writer run" where
  "fstWriterSetAttrDoubleArgGeneric typ arg1 arg2 xc =
     rbind (fstCopyVarint64ToRight (replicate 11 0) 0 arg1) (\<lambda>(buf, pnt).
     rbind (if arg1 \<noteq> 0 then array_set buf (int pnt) 0 else Done buf) (\<lambda>buf.
       fstWriterSetAttrBegin 0 typ (Some (takeWhile (\<lambda>b. b \<noteq> 0) buf)) arg2 xc))"

definition fstWriterSetAttrGeneric :: "byte list option \<Rightarrow> int \<Rightarrow> u64 \<Rightarrow> fst_writer \<Rightarrow> fst_writer run" where
  "fstWriterSetAttrGeneric comm typ arg xc = (case comm of
       None \<Rightarrow> Done xc
     | Some s \<Rightarrow> fstWriterSetAttrBegin 0 typ (Some (map (\<lambda>c. if c = 10 \<or> c = 13 then 32 else c) s)) arg xc)"

definition FST_PATH_HASHMASK :: u32 where "FST_PATH_HASHMASK = 0xffff"

text \<open>\<open>realpath\<close> is the function of the C library: the path it finds, or NULL.\<close>

definition fst_path_index :: "(byte list \<Rightarrow> byte list option) \<Rightarrow> byte list \<Rightarrow> bool \<Rightarrow> fst_writer \<Rightarrow> (u64 \<times> fst_writer) run" where
  "fst_path_index realpath path use_realpath xc =
     rbind (JenkinsIns (path_array xc) path (word_of_nat (length path)) FST_PATH_HASHMASK) (\<lambda>(pv, tab).
     let xc = xc\<lparr>path_array := tab\<rparr> in
     rbind (payload_of tab pv) (\<lambda>v.
     if v \<noteq> 0 then Done (v, xc)
     else
       let sidx = path_array_count xc + 1; xc = xc\<lparr>path_array_count := sidx\<rparr> in
       rbind (set_payload tab pv (ucast sidx)) (\<lambda>tab.
       let xc = xc\<lparr>path_array := tab\<rparr>; rp = (if use_realpath then realpath path else None) in
       rbind (fstWriterSetAttrGeneric (Some (case rp of Some rp \<Rightarrow> rp | None \<Rightarrow> path)) 3 (ucast sidx) xc)
         (\<lambda>xc. Done (ucast sidx, xc)))))"

definition fstWriterSetSourceStem_2 :: "(byte list \<Rightarrow> byte list option) \<Rightarrow> byte list option \<Rightarrow> u32 \<Rightarrow> bool \<Rightarrow> int \<Rightarrow>
    fst_writer \<Rightarrow> fst_writer run" where
  "fstWriterSetSourceStem_2 realpath path line use_realpath typ xc = (case path of
       None \<Rightarrow> Done xc
     | Some path \<Rightarrow>
         if path = [] then Done xc
         else rbind (fst_path_index realpath path use_realpath xc) (\<lambda>(sidx, xc).
           fstWriterSetAttrDoubleArgGeneric typ sidx (ucast line) xc))"

definition fstWriterSetSourceStem :: "(byte list \<Rightarrow> byte list option) \<Rightarrow> byte list option \<Rightarrow> u32 \<Rightarrow> bool \<Rightarrow> fst_writer \<Rightarrow> fst_writer run" where
  "fstWriterSetSourceStem realpath path line use_realpath = fstWriterSetSourceStem_2 realpath path line use_realpath 4"

definition fstWriterSetSourceInstantiationStem :: "(byte list \<Rightarrow> byte list option) \<Rightarrow> byte list option \<Rightarrow> u32 \<Rightarrow> bool \<Rightarrow>
    fst_writer \<Rightarrow> fst_writer run" where
  "fstWriterSetSourceInstantiationStem realpath path line use_realpath =
     fstWriterSetSourceStem_2 realpath path line use_realpath 5"

definition fstWriterSetComment :: "byte list option \<Rightarrow> fst_writer \<Rightarrow> fst_writer run" where
  "fstWriterSetComment comm = fstWriterSetAttrGeneric comm 0 0"

definition fstWriterSetValueList :: "byte list option \<Rightarrow> fst_writer \<Rightarrow> fst_writer run" where
  "fstWriterSetValueList vl = fstWriterSetAttrGeneric vl 6 0"

definition fstWriterSetEnvVar :: "byte list option \<Rightarrow> fst_writer \<Rightarrow> fst_writer run" where
  "fstWriterSetEnvVar envvar = fstWriterSetAttrGeneric envvar 1 0"

definition fstWriterCreateVar2 :: "u32 \<Rightarrow> u32 \<Rightarrow> u32 \<Rightarrow> byte list option \<Rightarrow> u32 \<Rightarrow> byte list option \<Rightarrow> u32 \<Rightarrow> u32 \<Rightarrow>
    fst_writer \<Rightarrow> (u32 \<times> fst_writer) run" where
  "fstWriterCreateVar2 vt vd len nam aliasHandle typ svt sdt xc =
     rbind (fstWriterSetAttrGeneric (Some (or_empty typ)) 2 (ucast (push_bit 10 svt OR (sdt AND 1023))) xc)
       (fstWriterCreateVar vt vd len nam aliasHandle)"


text \<open>
  The context as \<open>fstWriterCreate\<close> makes it when the files can be opened: zeros, and the sizes that
  \<open>fstDetermineBreakSize\<close> sets, of which \<open>huge\<close> depends on the memory of the machine.
\<close>

definition fst_writer_new :: "u64 \<Rightarrow> byte list \<Rightarrow> fst_writer" where
  "fst_writer_new huge nan =
     \<lparr>hier_handle = [], geom_handle = [], valpos_handle = [], curval_handle = [],
      valpos_mem = False, curval_mem = False, hier_file_len = 0, maxhandle = 0, numsigs = 0, maxvalpos = 0,
      numscopes = 0, nan_bytes = nan, next_huge_break = 1000000,
      fst_break_size = 2 ^ 27, fst_break_add_size = 2 ^ 22, fst_orig_break_size = 2 ^ 27,
      fst_orig_break_add_size = 2 ^ 22, fst_huge_break_size = huge, vchg_alloc_siz = 2 ^ 27 + 2 ^ 22,
      path_array = jenkins_empty, path_array_count = 0\<rparr>"

section \<open>The reader\<close>

text \<open>
  \<open>struct fstHier\<close>: what \<open>fstReaderIterateHier\<close> returns a pointer to. The names are the strings in the
  buffers of the context; \<open>arg_from_name\<close> is only set for source stems.
\<close>

datatype fstHier =
    HierScope (scope_typ: byte) (scope_name: "byte list") (scope_component: "byte list")
  | HierUpscope
  | HierVar (var_typ: byte) (var_direction: byte) (var_name: "byte list") (var_length: u32)
      (var_handle: u32) (var_is_alias: bool)
  | HierAttrBegin (attr_typ: byte) (attr_subtype: byte) (attr_name: "byte list") (attr_arg: u64)
      (arg_from_name: "u64 option")
  | HierAttrEnd

text \<open>\<open>hier_file\<close> is the content of the temporary file \<open>fh\<close>, which is read from its start after a rewind.\<close>

record fst_reader =
  hier_file :: "byte list option"
  fh :: c_file
  do_rewind :: bool
  current_handle :: u32

definition FST_ID_NAM_SIZ :: nat where "FST_ID_NAM_SIZ = 512"

text \<open>\<open>fgetc\<close> as an \<open>unsigned char\<close>: the end of the file is 255.\<close>

definition fst_getc :: "c_file \<Rightarrow> byte \<times> c_file" where
  "fst_getc f = (case fgetc f of (None, f) \<Rightarrow> (-1, f) | (Some b, f) \<Rightarrow> (b, f))"

text \<open>
  \<open>while((ch = fgetc(xc->fh))) *(pnt++) = ch; *pnt = 0;\<close> into one of the buffers, which have 513 bytes.
  At the end of the file, \<open>ch\<close> is not 0 either.
\<close>

function fst_get_name :: "byte list \<Rightarrow> c_file \<Rightarrow> (byte list \<times> c_file) run" where
  "fst_get_name buf f =
     (if length buf < FST_ID_NAM_SIZ + 1
      then case fgetc f of
          (Some b, f) \<Rightarrow> if b = 0 then Done (buf, f) else fst_get_name (buf @ [b]) f
        | (None, f) \<Rightarrow> fst_get_name (buf @ [-1]) f
      else Crash Out_of_bounds)"
  by pat_completeness auto
termination
  by (relation "measure (\<lambda>(buf, f). FST_ID_NAM_SIZ + 1 - length buf)") auto

declare fst_get_name.simps [simp del]

definition fst_hier_scope :: "c_file \<Rightarrow> (fstHier \<times> c_file) run" where
  "fst_hier_scope f =
     (let (typ, f) = fst_getc f in
      rbind (fst_get_name [] f) (\<lambda>(name, f).
      rbind (fst_get_name [] f) (\<lambda>(comp, f). Done (HierScope typ name comp, f))))"

definition fst_hier_attr :: "c_file \<Rightarrow> (fstHier \<times> c_file) run" where
  "fst_hier_attr f =
     (let (typ, f) = fst_getc f; (subtype, f) = fst_getc f in
      rbind (fst_get_name [] f) (\<lambda>(name, f).
      rbind (fstReaderVarint64 f) (\<lambda>(arg, f).
      if typ = 0 \<and> (subtype = 4 \<or> subtype = 5)
      then rbind (fstGetVarint64 (name @ [0])) (\<lambda>(v, skiplen). Done (HierAttrBegin typ subtype name arg (Some v), f))
      else Done (HierAttrBegin typ subtype name arg None, f))))"

definition fst_hier_var :: "byte \<Rightarrow> u32 \<Rightarrow> c_file \<Rightarrow> (fstHier \<times> u32 \<times> c_file) run" where
  "fst_hier_var tag cur f =
     (let (dir, f) = fst_getc f in
      rbind (fst_get_name [] f) (\<lambda>(name, f).
      rbind (fstReaderVarint32 f) (\<lambda>(len, f).
      let len = (if ucast tag = FST_VT_VCD_PORT then (len - 2) div 3 else len) in
      rbind (fstReaderVarint32 f) (\<lambda>(alias, f).
      if alias = 0 then Done (HierVar tag dir name len (cur + 1) False, cur + 1, f)
      else Done (HierVar tag dir name len alias True, cur, f)))))"

definition fst_hier_item :: "fst_reader \<Rightarrow> (fstHier option \<times> fst_reader) run" where
  "fst_hier_item xc = (case fgetc (fh xc) of
       (None, f) \<Rightarrow> Done (None, xc\<lparr>fh := f\<rparr>)
     | (Some tag, f) \<Rightarrow>
         if tag = 254 then rbind (fst_hier_scope f) (\<lambda>(h, f). Done (Some h, xc\<lparr>fh := f\<rparr>))
         else if tag = 255 then Done (Some HierUpscope, xc\<lparr>fh := f\<rparr>)
         else if tag = 252 then rbind (fst_hier_attr f) (\<lambda>(h, f). Done (Some h, xc\<lparr>fh := f\<rparr>))
         else if tag = 253 then Done (Some HierAttrEnd, xc\<lparr>fh := f\<rparr>)
         else if tag \<le> 29 then
           rbind (fst_hier_var tag (current_handle xc) f) (\<lambda>(h, cur, f).
             Done (Some h, xc\<lparr>fh := f, current_handle := cur\<rparr>))
         else Done (None, xc\<lparr>fh := f\<rparr>))"

text \<open>
  \<open>recreate\<close> stands for \<open>fstReaderRecreateHierFile\<close>, which decompresses the section with zlib or LZ4 into
  the temporary file: its content and whether that was all of it, or \<open>None\<close> when there is no file. The
  position is behind what was written.
\<close>

definition fst_hier_open :: "(byte list \<times> bool) option \<Rightarrow> fst_reader \<Rightarrow> bool \<times> fst_reader" where
  "fst_hier_open recreate xc = (case hier_file xc of
       Some bs \<Rightarrow> (True, xc)
     | None \<Rightarrow> (case recreate of
           None \<Rightarrow> (False, xc)
         | Some (bs, pass_status) \<Rightarrow> (pass_status, xc\<lparr>hier_file := Some bs, fh := file_of []\<rparr>)))"

definition fstReaderIterateHierRewind :: "(byte list \<times> bool) option \<Rightarrow> fst_reader \<Rightarrow> bool \<times> fst_reader" where
  "fstReaderIterateHierRewind recreate xc =
     (let (pass_status, xc) = fst_hier_open recreate xc in (pass_status, xc\<lparr>do_rewind := True\<rparr>))"

definition fstReaderIterateHier :: "(byte list \<times> bool) option \<Rightarrow> fst_reader \<Rightarrow> (fstHier option \<times> fst_reader) run" where
  "fstReaderIterateHier recreate xc =
     (let (pass_status, xc) = fst_hier_open recreate xc in
      if \<not> pass_status then Done (None, xc)
      else
        let xc = (if do_rewind xc
              then xc\<lparr>do_rewind := False, current_handle := 0, fh := file_of (or_empty (hier_file xc))\<rparr> else xc) in
        if feof (fh xc) then Done (None, xc) else fst_hier_item xc)"

end
