(* ===== verification/Fst_Hier_Items.thy ===== *)
theory Fst_Hier_Items
  imports Fst_Hierarchy
begin

text \<open>
  What is written is read: the calls of the writer as data, the items that they stand for, and that
  \<open>fstReaderIterateHier\<close> returns these items in their order.
\<close>

section \<open>Calls and items\<close>

datatype hier_op =
    OpScope u32 "byte list option" "byte list option"
  | OpUpscope
  | OpVar u32 u32 u32 "byte list" u32
  | OpAttrBegin u32 int "byte list option" u64
  | OpAttrEnd
  | OpSource int "byte list" u32 bool

definition hier_write :: "(byte list \<Rightarrow> byte list option) \<Rightarrow> hier_op \<Rightarrow> fst_writer \<Rightarrow> (u32 list \<times> fst_writer) run" where
  "hier_write rp op xc = (case op of
       OpScope typ name cmp \<Rightarrow> Done ([], fstWriterSetScope typ name cmp xc)
     | OpUpscope \<Rightarrow> Done ([], fstWriterSetUpscope xc)
     | OpVar vt vd len nam alias \<Rightarrow>
         rbind (fstWriterCreateVar vt vd len (Some nam) alias xc) (\<lambda>(h, xc). Done ([h], xc))
     | OpAttrBegin typ sub name arg \<Rightarrow> rbind (fstWriterSetAttrBegin typ sub name arg xc) (\<lambda>xc. Done ([], xc))
     | OpAttrEnd \<Rightarrow> Done ([], fstWriterSetAttrEnd xc)
     | OpSource typ path line use \<Rightarrow>
         rbind (fstWriterSetSourceStem_2 rp (Some path) line use typ xc) (\<lambda>xc. Done ([], xc)))"

primrec hier_writes :: "(byte list \<Rightarrow> byte list option) \<Rightarrow> hier_op list \<Rightarrow> fst_writer \<Rightarrow> (u32 list \<times> fst_writer) run" where
  "hier_writes rp [] xc = Done ([], xc)"
| "hier_writes rp (op # ops) xc =
     rbind (hier_write rp op xc) (\<lambda>(hs, xc). rbind (hier_writes rp ops xc) (\<lambda>(hs', xc). Done (hs @ hs', xc)))"

text \<open>The number of a path is its place among the paths, from 1; a new one comes behind them.\<close>

definition path_pos :: "byte list list \<Rightarrow> byte list \<Rightarrow> nat" where
  "path_pos ps p = length (takeWhile (\<lambda>q. q \<noteq> p) ps) + 1"

definition name_number :: "byte list \<Rightarrow> u64" where
  "name_number name = (case fstGetVarint64 (name @ [0]) of Done (v, n) \<Rightarrow> v | Crash c \<Rightarrow> 0)"

definition attr_item :: "u32 \<Rightarrow> int \<Rightarrow> byte list \<Rightarrow> u64 \<Rightarrow> fstHier" where
  "attr_item typ sub name arg =
     (let (typ, sub) = fst_attr_kind typ sub; t = ucast typ; s = word_of_int sub in
      HierAttrBegin t s name arg (if t = 0 \<and> (s = 4 \<or> s = 5) then Some (name_number name) else None))"

definition shown_path :: "(byte list \<Rightarrow> byte list option) \<Rightarrow> bool \<Rightarrow> byte list \<Rightarrow> byte list" where
  "shown_path rp use path =
     map (\<lambda>c. if c = 10 \<or> c = 13 then 32 else c)
       (case (if use then rp path else None) of Some r \<Rightarrow> r | None \<Rightarrow> path)"

text \<open>The items of a call, after \<open>n\<close> handles and the paths \<open>ps\<close>.\<close>

definition op_items :: "(byte list \<Rightarrow> byte list option) \<Rightarrow> nat \<Rightarrow> byte list list \<Rightarrow> hier_op \<Rightarrow>
    fstHier list \<times> nat \<times> byte list list" where
  "op_items rp n ps op = (case op of
       OpScope typ name cmp \<Rightarrow>
         ([HierScope (if typ > FST_ST_MAX then 0 else ucast typ) (or_empty name) (or_empty cmp)], n, ps)
     | OpUpscope \<Rightarrow> ([HierUpscope], n, ps)
     | OpVar vt vd len nam alias \<Rightarrow>
         let len = fst_var_len vt len; shown = (if vt = FST_VT_VCD_PORT then (len - 2) div 3 else len) in
         if alias = 0 \<or> unat alias > n
         then ([HierVar (ucast vt) (ucast vd) nam shown (word_of_nat (n + 1)) False], n + 1, ps)
         else ([HierVar (ucast vt) (ucast vd) nam shown alias True], n, ps)
     | OpAttrBegin typ sub name arg \<Rightarrow> ([attr_item typ sub (or_empty name) arg], n, ps)
     | OpAttrEnd \<Rightarrow> ([HierAttrEnd], n, ps)
     | OpSource typ path line use \<Rightarrow>
         if path = [] then ([], n, ps)
         else
           let k = path_pos ps path;
               stem = HierAttrBegin 0 (word_of_int typ) (uleb_bytes k) (ucast line) (Some (word_of_nat k)) in
           if path \<in> set ps then ([stem], n, ps)
           else ([attr_item 0 3 (shown_path rp use path) (word_of_nat k), stem], n, ps @ [path]))"

primrec hier_items :: "(byte list \<Rightarrow> byte list option) \<Rightarrow> nat \<Rightarrow> byte list list \<Rightarrow> hier_op list \<Rightarrow> fstHier list" where
  "hier_items rp n ps [] = []"
| "hier_items rp n ps (op # ops) = (case op_items rp n ps op of (hs, n, ps) \<Rightarrow> hs @ hier_items rp n ps ops)"

text \<open>A client that calls \<open>fstReaderIterateHier\<close> until it returns NULL.\<close>

primrec read_hier :: "nat \<Rightarrow> (byte list \<times> bool) option \<Rightarrow> fst_reader \<Rightarrow> (fstHier list \<times> fst_reader) run" where
  "read_hier 0 recreate xc = Crash No_return"
| "read_hier (Suc k) recreate xc =
     rbind (fstReaderIterateHier recreate xc) (\<lambda>(h, xc). case h of
         None \<Rightarrow> Done ([], xc)
       | Some h \<Rightarrow> rbind (read_hier k recreate xc) (\<lambda>(hs, xc). Done (h # hs, xc)))"

text \<open>Names that fit: C strings of at most 512 characters.\<close>

definition name_ok :: "byte list \<Rightarrow> bool" where
  "name_ok s \<longleftrightarrow> 0 \<notin> set s \<and> length s \<le> FST_ID_NAM_SIZ"

definition op_ok :: "(byte list \<Rightarrow> byte list option) \<Rightarrow> hier_op \<Rightarrow> bool" where
  "op_ok rp op = (case op of
       OpScope typ name cmp \<Rightarrow> name_ok (or_empty name) \<and> name_ok (or_empty cmp)
     | OpVar vt vd len nam alias \<Rightarrow> vt \<le> 29 \<and> name_ok nam
     | OpAttrBegin typ sub name arg \<Rightarrow> name_ok (or_empty name)
     | OpSource typ path line use \<Rightarrow> (typ = 4 \<or> typ = 5) \<and> length path < 2 ^ 32 \<and> name_ok (shown_path rp use path)
     | _ \<Rightarrow> True)"

section \<open>Reading single items\<close>

lemma fst_get_name_ok:
  "length buf + length s \<le> FST_ID_NAM_SIZ \<Longrightarrow> 0 \<notin> set s \<Longrightarrow>
   fst_get_name buf (file_of (s @ 0 # rest)) = Done (buf @ s, file_of rest)"
proof (induction s arbitrary: buf)
  case Nil
  then show ?case
    by (subst fst_get_name.simps) (simp add: fgetc_def)
next
  case (Cons b s)
  then have "fst_get_name buf (file_of ((b # s) @ 0 # rest)) = fst_get_name (buf @ [b]) (file_of (s @ 0 # rest))"
    by (subst fst_get_name.simps) (simp add: fgetc_def)
  then show ?case
    using Cons by simp
qed

lemma fst_get_name [simp]: "name_ok s \<Longrightarrow> fst_get_name [] (file_of (s @ 0 # rest)) = Done (s, file_of rest)"
  using fst_get_name_ok [of "[]" s rest] by (simp add: name_ok_def)

lemma fst_getc_file [simp]: "fst_getc (file_of (b # bs)) = (b, file_of bs)"
  by (simp add: fst_getc_def fgetc_def)

lemma st_eof_file [simp]: "\<not> st_eof (file_of bs)"
  by (simp add: file_of_def)

lemma fgetc_file [simp]: "fgetc (file_of (b # bs)) = (Some b, file_of bs)"
  by (simp add: fgetc_def)

lemma reader_varint64 [simp]:
  "fstReaderVarint64 (file_of (uleb_bytes (unat (v :: u64)) @ rest)) = Done (v, file_of rest)"
  using fst_reader_varint_uleb(1) [of _ "unat v" rest] uleb_length_u64 [of v] by simp

lemma reader_varint32 [simp]:
  "fstReaderVarint32 (file_of (uleb_bytes (unat (v :: u32)) @ rest)) = Done (v, file_of rest)"
  using fst_reader_varint_uleb(2) [of _ "unat v" rest] uleb_length_u32 [of "unat v"] unsigned_less [of v, where 'a = nat]
  by simp

lemma unat_ucast_u64 [simp]: "unat (ucast (v :: u32) :: u64) = unat v"
proof -
  have "unat v < 2 ^ LENGTH(64)"
    by (rule less_trans [OF unsigned_less]) simp
  then show ?thesis
    by (simp add: unsigned_ucast_eq take_bit_nat_eq_self)
qed


text \<open>\<open>bs\<close> is the encoding of the items \<open>hs\<close>, which take the number of handles from \<open>c\<close> to \<open>c'\<close>.\<close>

definition reading :: "fst_reader \<Rightarrow> bool" where
  "reading xc \<longleftrightarrow> hier_file xc \<noteq> None \<and> \<not> do_rewind xc"

definition reads :: "byte list \<Rightarrow> fstHier list \<Rightarrow> u32 \<Rightarrow> u32 \<Rightarrow> bool" where
  "reads bs hs c c' \<longleftrightarrow> (\<forall>rest k recreate xc. reading xc \<longrightarrow> fh xc = file_of (bs @ rest) \<longrightarrow> current_handle xc = c \<longrightarrow>
     read_hier (length hs + k) recreate xc =
       rbind (read_hier k recreate (xc\<lparr>fh := file_of rest, current_handle := c'\<rparr>)) (\<lambda>(hs', xc). Done (hs @ hs', xc)))"

lemma reading_update [simp]: "reading (xc\<lparr>fh := f, current_handle := c\<rparr>) \<longleftrightarrow> reading xc"
  "reading (xc\<lparr>fh := f\<rparr>) \<longleftrightarrow> reading xc"
  by (simp_all add: reading_def)

lemma reads_Nil: "reads [] [] c c"
proof -
  have "rbind m (\<lambda>(hs', xc). Done ([] @ hs', xc)) = m" for m :: "(fstHier list \<times> fst_reader) run"
    by (cases m) auto
  moreover have "xc\<lparr>fh := fh xc, current_handle := current_handle xc\<rparr> = xc" for xc :: fst_reader
    by simp
  ultimately show ?thesis
    unfolding reads_def by (metis append_Nil add_0 list.size(3))
qed

lemma reads_append:
  assumes "reads bs hs c c'" "reads bs' hs' c' c''"
  shows "reads (bs @ bs') (hs @ hs') c c''"
  unfolding reads_def
proof (intro allI impI)
  fix rest k recreate xc
  assume xc: "reading xc" "fh xc = file_of ((bs @ bs') @ rest)" "current_handle xc = c"
  let ?xc = "xc\<lparr>fh := file_of (bs' @ rest), current_handle := c'\<rparr>"
  have "read_hier (length hs + (length hs' + k)) recreate xc =
      rbind (read_hier (length hs' + k) recreate ?xc) (\<lambda>(hs', xc). Done (hs @ hs', xc))"
    using assms(1) xc unfolding reads_def by simp
  also have "read_hier (length hs' + k) recreate ?xc =
      rbind (read_hier k recreate (?xc\<lparr>fh := file_of rest, current_handle := c''\<rparr>)) (\<lambda>(hs, xc). Done (hs' @ hs, xc))"
    using assms(2) xc unfolding reads_def by simp
  finally show "read_hier (length (hs @ hs') + k) recreate xc =
      rbind (read_hier k recreate (xc\<lparr>fh := file_of rest, current_handle := c''\<rparr>)) (\<lambda>(hs'', xc). Done ((hs @ hs') @ hs'', xc))"
    by (simp add: add.assoc rbind_assoc split_def)
qed

lemma reads_one:
  assumes "\<And>rest xc. reading xc \<Longrightarrow> fh xc = file_of (bs @ rest) \<Longrightarrow> current_handle xc = c \<Longrightarrow>
    fst_hier_item xc = Done (Some h, xc\<lparr>fh := file_of rest, current_handle := c'\<rparr>)"
  shows "reads bs [h] c c'"
  unfolding reads_def
proof (intro allI impI)
  fix rest k recreate xc
  assume xc: "reading xc" "fh xc = file_of (bs @ rest)" "current_handle xc = c"
  then have "fstReaderIterateHier recreate xc = fst_hier_item xc"
    by (auto simp: fstReaderIterateHier_def fst_hier_open_def reading_def feof_def file_of_def)
  then show "read_hier (length [h] + k) recreate xc =
      rbind (read_hier k recreate (xc\<lparr>fh := file_of rest, current_handle := c'\<rparr>)) (\<lambda>(hs', xc). Done ([h] @ hs', xc))"
    using assms [OF xc] by simp
qed

lemma reads_scope:
  assumes "name_ok name" "name_ok cmp"
  shows "reads ([254, t] @ name @ [0] @ cmp @ [0]) [HierScope t name cmp] c c"
  using assms by (intro reads_one) (simp add: fst_hier_item_def fst_hier_scope_def Let_def)

lemma reads_upscope: "reads [255] [HierUpscope] c c"
  by (intro reads_one) (simp add: fst_hier_item_def)

lemma reads_attr_end: "reads [253] [HierAttrEnd] c c"
  by (intro reads_one) (simp add: fst_hier_item_def)

lemma fst_skip_nul: "p \<le> length s \<Longrightarrow> \<exists>q. fst_skip (s @ [0]) p = Done q \<and> q \<le> length s"
proof (induction "length s - p" arbitrary: p)
  case 0
  then show ?case by (subst fst_skip.simps) (simp add: nth_append)
next
  case (Suc n)
  then have "p < length s" by simp
  moreover have "n = length s - (p + 1)"
    using Suc.hyps(2) by linarith
  then obtain q where "fst_skip (s @ [0]) (p + 1) = Done q" "q \<le> length s"
    using Suc.hyps(1) [of "p + 1"] \<open>p < length s\<close> by auto
  ultimately show ?case by (subst fst_skip.simps) auto
qed

lemma fst_collect_within: "p < length mem \<Longrightarrow> \<exists>v. fst_collect mem rc p = Done v"
  by (induction p arbitrary: rc) simp_all

lemma fst_skip_ends_nul: "\<exists>v n. fstGetVarint64 (s @ [0]) = Done (v, n)"
proof -
  obtain q where "fst_skip (s @ [0]) 0 = Done q" "q \<le> length s"
    using fst_skip_nul [of 0 s] by auto
  moreover then obtain v where "fst_collect (s @ [0]) (0 :: u64) q = Done v"
    using fst_collect_within [of q "s @ [0]" 0] by auto
  ultimately show ?thesis by (auto simp: fstGetVarint64_def)
qed

lemma reads_attr:
  assumes "name_ok name"
  shows "reads ([252, t, s] @ name @ [0] @ uleb_bytes (unat arg))
    [HierAttrBegin t s name arg (if t = 0 \<and> (s = 4 \<or> s = 5) then Some (name_number name) else None)] c c"
proof -
  obtain v n where "fstGetVarint64 (name @ [0]) = Done (v, n)"
    using fst_skip_ends_nul by blast
  then show ?thesis
    using assms by (intro reads_one) (auto simp: fst_hier_item_def fst_hier_attr_def Let_def name_number_def)
qed

lemma reads_var:
  assumes "name_ok name" "t \<le> 29"
  shows "reads ([t, d] @ name @ [0] @ uleb_bytes (unat len) @ uleb_bytes (unat alias))
    [HierVar t d name (if ucast t = FST_VT_VCD_PORT then (len - 2) div 3 else len)
       (if alias = 0 then c + 1 else alias) (alias \<noteq> 0)] c (if alias = 0 then c + 1 else c)"
proof -
  have "t \<noteq> 254" "t \<noteq> 255" "t \<noteq> 252" "t \<noteq> 253"
    using assms(2) by auto
  then show ?thesis
    using assms by (intro reads_one) (simp add: fst_hier_item_def fst_hier_var_def Let_def)
qed


section \<open>Writing\<close>

lemma hier_varint_bytes:
  "hier_varint v xc = Done (xc\<lparr>hier_handle := hier_handle xc @ uleb_bytes (unat v),
     hier_file_len := hier_file_len xc + int (length (uleb_bytes (unat v)))\<rparr>)"
  by (simp add: hier_varint_def fstWriterVarint_bytes)

lemma geom_varint_bytes:
  "geom_varint v xc = Done (xc\<lparr>geom_handle := geom_handle xc @ uleb_bytes (unat v)\<rparr>)"
  by (simp add: geom_varint_def fstWriterVarint_bytes)

text \<open>What a call does to the hierarchy file; it counts the bytes that it writes.\<close>

definition wrote :: "byte list \<Rightarrow> fst_writer \<Rightarrow> fst_writer \<Rightarrow> bool" where
  "wrote bs xc xc' \<longleftrightarrow> hier_handle xc' = hier_handle xc @ bs \<and>
     hier_file_len xc' = hier_file_len xc + int (length bs)"

definition same_paths :: "fst_writer \<Rightarrow> fst_writer \<Rightarrow> bool" where
  "same_paths xc xc' \<longleftrightarrow> path_array xc' = path_array xc \<and> path_array_count xc' = path_array_count xc"

lemma wrote_append: "wrote bs xc xc' \<Longrightarrow> wrote bs' xc' xc'' \<Longrightarrow> wrote (bs @ bs') xc xc''"
  by (simp add: wrote_def)

lemma scope_wrote:
  "wrote ([254, if typ > FST_ST_MAX then 0 else ucast typ] @ or_empty name @ [0] @ or_empty cmp @ [0])
     xc (fstWriterSetScope typ name cmp xc)"
  "same_paths xc (fstWriterSetScope typ name cmp xc)" "maxhandle (fstWriterSetScope typ name cmp xc) = maxhandle xc"
  by (simp_all add: fstWriterSetScope_def wrote_def same_paths_def hier_put_def Let_def)

lemma upscope_wrote:
  "wrote [255] xc (fstWriterSetUpscope xc)" "same_paths xc (fstWriterSetUpscope xc)"
  "maxhandle (fstWriterSetUpscope xc) = maxhandle xc"
  by (simp_all add: fstWriterSetUpscope_def wrote_def same_paths_def hier_put_def)

lemma attr_end_wrote:
  "wrote [253] xc (fstWriterSetAttrEnd xc)" "same_paths xc (fstWriterSetAttrEnd xc)"
  "maxhandle (fstWriterSetAttrEnd xc) = maxhandle xc"
  by (simp_all add: fstWriterSetAttrEnd_def wrote_def same_paths_def hier_put_def)

lemma attr_wrote:
  assumes "fst_attr_kind typ sub = (typ', sub')"
  shows "\<exists>xc'. fstWriterSetAttrBegin typ sub name arg xc = Done xc' \<and>
    wrote ([252, ucast typ', word_of_int sub'] @ or_empty name @ [0] @ uleb_bytes (unat arg)) xc xc' \<and>
    same_paths xc xc' \<and> maxhandle xc' = maxhandle xc"
  by (simp add: fstWriterSetAttrBegin_def assms hier_varint_bytes wrote_def same_paths_def hier_put_def Let_def)

lemma fst_huge_break_keeps [simp]:
  "hier_handle (fst_huge_break xc) = hier_handle xc" "hier_file_len (fst_huge_break xc) = hier_file_len xc"
  "path_array (fst_huge_break xc) = path_array xc" "path_array_count (fst_huge_break xc) = path_array_count xc"
  "maxhandle (fst_huge_break xc) = maxhandle xc" "geom_handle (fst_huge_break xc) = geom_handle xc"
  "valpos_handle (fst_huge_break xc) = valpos_handle xc" "curval_handle (fst_huge_break xc) = curval_handle xc"
  "maxvalpos (fst_huge_break xc) = maxvalpos xc" "nan_bytes (fst_huge_break xc) = nan_bytes xc"
  by (simp_all add: fst_huge_break_def Let_def)

lemma fstDestroyMmaps_keeps [simp]:
  "hier_handle (fstDestroyMmaps xc) = hier_handle xc" "hier_file_len (fstDestroyMmaps xc) = hier_file_len xc"
  "path_array (fstDestroyMmaps xc) = path_array xc" "path_array_count (fstDestroyMmaps xc) = path_array_count xc"
  "maxhandle (fstDestroyMmaps xc) = maxhandle xc" "geom_handle (fstDestroyMmaps xc) = geom_handle xc"
  "valpos_handle (fstDestroyMmaps xc) = valpos_handle xc" "curval_handle (fstDestroyMmaps xc) = curval_handle xc"
  "maxvalpos (fstDestroyMmaps xc) = maxvalpos xc" "nan_bytes (fstDestroyMmaps xc) = nan_bytes xc"
  by (simp_all add: fstDestroyMmaps_def)

definition used_alias :: "u32 \<Rightarrow> fst_writer \<Rightarrow> u32" where
  "used_alias alias xc = (if alias > maxhandle xc then 0 else alias)"

text \<open>The files of the signals, which only a new handle changes.\<close>

definition same_signals :: "fst_writer \<Rightarrow> fst_writer \<Rightarrow> bool" where
  "same_signals xc xc' \<longleftrightarrow> maxhandle xc' = maxhandle xc \<and> geom_handle xc' = geom_handle xc \<and>
     valpos_handle xc' = valpos_handle xc \<and> curval_handle xc' = curval_handle xc \<and>
     maxvalpos xc' = maxvalpos xc \<and> nan_bytes xc' = nan_bytes xc"

lemma create_var_parts:
  "\<exists>xc'. fstWriterCreateVar vt vd len (Some nam) alias xc =
      (if used_alias alias xc = 0 then fst_new_handle vt (fst_var_len vt len) xc' else Done (used_alias alias xc, xc')) \<and>
    wrote ([ucast vt, ucast vd] @ nam @ [0] @ uleb_bytes (unat (fst_var_len vt len)) @
      uleb_bytes (unat (used_alias alias xc))) xc xc' \<and> same_paths xc xc' \<and> same_signals xc xc'"
proof -
  define xc1 where "xc1 = (if valpos_mem xc then fstDestroyMmaps xc else xc)"
  have xc1: "hier_handle xc1 = hier_handle xc" "hier_file_len xc1 = hier_file_len xc" "same_paths xc xc1" "same_signals xc xc1"
    by (simp_all add: xc1_def same_paths_def same_signals_def)
  define ls where "ls = uleb_bytes (unat (fst_var_len vt len))"
  define as where "as = uleb_bytes (unat (used_alias alias xc))"
  define xc3 where "xc3 = fst_huge_break (xc1\<lparr>
    hier_handle := ((hier_handle xc1 @ [ucast vt, ucast vd] @ nam @ [0]) @ ls) @ as,
    hier_file_len := hier_file_len xc1 + (int (length nam) + 3) + int (length ls) + int (length as),
    numsigs := numsigs xc1 + 1\<rparr>)"
  have used: "(if alias > maxhandle xc1 then 0 else alias) = used_alias alias xc"
    using xc1(4) by (simp add: used_alias_def same_signals_def)
  have "fstWriterCreateVar vt vd len (Some nam) alias xc =
      (if used_alias alias xc = 0 then fst_new_handle vt (fst_var_len vt len) xc3 else Done (used_alias alias xc, xc3))"
    unfolding fstWriterCreateVar_def option.case xc1_def [symmetric] Let_def hier_varint_bytes rbind_Done
    by (simp add: used hier_put_def ls_def as_def xc3_def)
  moreover have "wrote ([ucast vt, ucast vd] @ nam @ [0] @ ls @ as) xc xc3"
    using xc1 by (simp add: wrote_def xc3_def)
  moreover have "same_paths xc xc3" "same_signals xc xc3"
    using xc1 by (simp_all add: same_paths_def same_signals_def xc3_def)
  ultimately show ?thesis
    unfolding ls_def as_def by blast
qed

lemma new_handle_parts:
  "\<exists>xc'. fst_new_handle vt len xc = Done (maxhandle xc + 1, xc') \<and> maxhandle xc' = maxhandle xc + 1 \<and>
    wrote [] xc xc' \<and> same_paths xc xc' \<and> nan_bytes xc' = nan_bytes xc \<and>
    geom_handle xc' = geom_handle xc @ uleb_bytes (unat (if len \<noteq> 0 then (if \<not> fst_is_real vt then ucast len else 0) else 0xFFFFFFFF :: u64)) \<and>
    valpos_handle xc' = valpos_handle xc @ [maxvalpos xc, len, 0, 0] \<and>
    curval_handle xc' = curval_handle xc @ (if \<not> fst_is_real vt then replicate (unat len) 120 else nan_bytes xc) \<and>
    maxvalpos xc' = maxvalpos xc + len"
  unfolding fst_new_handle_def geom_varint_bytes rbind_Done Let_def
  by (simp add: wrote_def same_paths_def)

lemma var_wrote:
  "\<exists>xc'. fstWriterCreateVar vt vd len (Some nam) alias xc =
      Done (if used_alias alias xc = 0 then maxhandle xc + 1 else used_alias alias xc, xc') \<and>
    wrote ([ucast vt, ucast vd] @ nam @ [0] @ uleb_bytes (unat (fst_var_len vt len)) @
      uleb_bytes (unat (used_alias alias xc))) xc xc' \<and>
    same_paths xc xc' \<and> maxhandle xc' = (if used_alias alias xc = 0 then maxhandle xc + 1 else maxhandle xc)"
proof -
  obtain xc' where xc': "fstWriterCreateVar vt vd len (Some nam) alias xc =
      (if used_alias alias xc = 0 then fst_new_handle vt (fst_var_len vt len) xc' else Done (used_alias alias xc, xc'))"
    "wrote ([ucast vt, ucast vd] @ nam @ [0] @ uleb_bytes (unat (fst_var_len vt len)) @
      uleb_bytes (unat (used_alias alias xc))) xc xc'" "same_paths xc xc'" "same_signals xc xc'"
    using create_var_parts by blast
  obtain xc'' where xc'': "fst_new_handle vt (fst_var_len vt len) xc' = Done (maxhandle xc' + 1, xc'')"
    "maxhandle xc'' = maxhandle xc' + 1" "wrote [] xc' xc''" "same_paths xc' xc''"
    using new_handle_parts by blast
  show ?thesis
    using xc' xc'' wrote_append [OF xc'(2) xc''(3)] by (auto simp: same_paths_def same_signals_def)
qed

section \<open>The numbers of paths\<close>

definition paths_ok :: "byte list list \<Rightarrow> fst_writer \<Rightarrow> bool" where
  "paths_ok ps xc \<longleftrightarrow> jk_ok FST_PATH_HASHMASK (path_array xc) \<and> path_array_count xc = word_of_nat (length ps) \<and>
     length ps < 2 ^ 32 \<and>
     (\<forall>p. if p \<in> set ps
       then \<exists>a. jk_map (path_array xc) p = Some a \<and> payload_of (path_array xc) a = Done (word_of_nat (path_pos ps p))
       else jk_map (path_array xc) p = None)"

lemma path_pos_old: "p \<in> set ps \<Longrightarrow> path_pos (ps @ [q]) p = path_pos ps p"
  by (simp add: path_pos_def takeWhile_append1)

lemma path_pos_new: "p \<notin> set ps \<Longrightarrow> path_pos ps p = length ps + 1" "p \<notin> set ps \<Longrightarrow> path_pos (ps @ [p]) p = length ps + 1"
proof -
  assume "p \<notin> set ps"
  then have "takeWhile (\<lambda>q. q \<noteq> p) ps = ps \<and> takeWhile (\<lambda>q. q \<noteq> p) (ps @ [p]) = ps"
    by (induction ps) auto
  then show "path_pos ps p = length ps + 1" "path_pos (ps @ [p]) p = length ps + 1"
    unfolding path_pos_def by presburger+
qed

lemma path_pos_bounds: "p \<in> set ps \<Longrightarrow> 1 \<le> path_pos ps p \<and> path_pos ps p \<le> length ps"
  by (induction ps) (auto simp: path_pos_def)

lemma word_of_nat_u64_eq_0:
  assumes "k < 2 ^ 33"
  shows "(word_of_nat k :: u64) = 0 \<longleftrightarrow> k = 0"
proof -
  have "k < 2 ^ LENGTH(64)"
    by (rule less_trans [OF assms]) simp
  then have "unat (word_of_nat k :: u64) = k"
    by (simp add: unat_of_nat take_bit_nat_eq_self)
  then show ?thesis
    by (simp add: word_unat_eq_iff)
qed

lemma ucast_count: "k < 2 ^ 32 \<Longrightarrow> (ucast (word_of_nat k :: u32) :: u64) = word_of_nat k"
proof -
  assume k: "k < 2 ^ 32"
  then have "k < 2 ^ LENGTH(64)"
    by (rule less_trans) simp
  then have "unat (ucast (word_of_nat k :: u32) :: u64) = unat (word_of_nat k :: u64)"
    using k by (simp add: unat_of_nat take_bit_nat_eq_self)
  then show ?thesis
    by (rule unsigned_word_eqI)
qed

lemma path_index_ok:
  assumes ok: "paths_ok ps xc" and path: "length path < 2 ^ 32" and more: "length ps + 1 < 2 ^ 32"
  shows "\<exists>xc'. fst_path_index rp path use xc = Done (word_of_nat (path_pos ps path), xc') \<and>
    paths_ok (if path \<in> set ps then ps else ps @ [path]) xc' \<and> maxhandle xc' = maxhandle xc \<and>
    wrote (if path \<in> set ps then []
      else [252, 0, 3] @ shown_path rp use path @ [0] @ uleb_bytes (unat (word_of_nat (path_pos ps path) :: u64))) xc xc'"
proof -
  have len: "unat (word_of_nat (length path) :: u32) = length path"
    using path by (simp add: unat_of_nat take_bit_nat_eq_self)
  have tok: "jk_ok FST_PATH_HASHMASK (path_array xc)" and n: "length ps < 2 ^ 32"
    and cnt: "path_array_count xc = word_of_nat (length ps)" using ok by (auto simp: paths_ok_def)
  obtain a tab where ins: "JenkinsIns (path_array xc) path (word_of_nat (length path)) FST_PATH_HASHMASK = Done (a, tab)"
    and tab: "jk_ok FST_PATH_HASHMASK tab" "jk_map tab = (jk_map (path_array xc))(path \<mapsto> a)"
    and keep: "\<And>b v. payload_of (path_array xc) b = Done v \<Longrightarrow> payload_of tab b = Done v"
    and which: "case jk_map (path_array xc) path of Some b \<Rightarrow> a = b
      | None \<Rightarrow> a \<notin> ran (jk_map (path_array xc)) \<and> payload_of tab a = Done 0"
    using JenkinsIns_inserts [OF tok, of "word_of_nat (length path)" path] len by auto
  show ?thesis
  proof (cases "path \<in> set ps")
    case True
    then obtain b where b: "jk_map (path_array xc) path = Some b"
      "payload_of (path_array xc) b = Done (word_of_nat (path_pos ps path))"
      using ok unfolding paths_ok_def by (auto split: if_splits)
    then have "a = b" using which by simp
    have "jk_map tab = jk_map (path_array xc)"
      using tab(2) b(1) \<open>a = b\<close> by (simp add: fun_upd_idem)
    then have "paths_ok ps (xc\<lparr>path_array := tab\<rparr>)"
      using ok tab(1) keep unfolding paths_ok_def by (simp split: if_splits) metis
    moreover have "(word_of_nat (path_pos ps path) :: u64) \<noteq> 0"
      using path_pos_bounds [OF True] n by (subst word_of_nat_u64_eq_0) auto
    ultimately show ?thesis
      using True ins keep [OF b(2)] \<open>a = b\<close> by (auto simp: fst_path_index_def Let_def wrote_def)
  next
    case False
    let ?k = "length ps + 1"
    define sidx where "sidx = path_array_count xc + 1"
    have sidx: "(ucast sidx :: u64) = word_of_nat ?k" "sidx = word_of_nat ?k"
      using ucast_count [OF more] by (simp_all add: sidx_def cnt add.commute)
    have new: "jk_map (path_array xc) path = None"
      using ok False unfolding paths_ok_def by presburger
    then have fresh: "a \<notin> ran (jk_map (path_array xc))" and zero: "payload_of tab a = Done 0"
      using which by simp_all
    obtain tab' where tab': "set_payload tab a (ucast sidx) = Done tab'" "jk_ok FST_PATH_HASHMASK tab'"
      "jk_map tab' = jk_map tab" "\<And>b. payload_of tab' b = (if b = a then Done (ucast sidx) else payload_of tab b)"
      using set_payload_keeps [OF tab(1) zero] by blast
    define xc1 where "xc1 = xc\<lparr>path_array := tab, path_array_count := sidx, path_array := tab'\<rparr>"
    let ?name = "shown_path rp use path"
    obtain xc' where xc': "fstWriterSetAttrBegin 0 3 (Some ?name) (ucast sidx) xc1 = Done xc'"
      "wrote ([252, 0, 3] @ ?name @ [0] @ uleb_bytes (unat (ucast sidx :: u64))) xc1 xc'"
      "same_paths xc1 xc'" "maxhandle xc' = maxhandle xc1"
      using attr_wrote [of 0 3 0 3 "Some ?name" "ucast sidx" xc1] by (auto simp: fst_attr_kind_def or_empty_def)
    have "fst_path_index rp path use xc = Done (ucast sidx, xc')"
      using ins zero tab'(1) xc'(1)
      by (simp add: fst_path_index_def fstWriterSetAttrGeneric_def shown_path_def Let_def sidx_def xc1_def)
    moreover have "paths_ok (ps @ [path]) xc'"
    proof -
      have "if p \<in> set (ps @ [path])
        then \<exists>a. jk_map tab' p = Some a \<and> payload_of tab' a = Done (word_of_nat (path_pos (ps @ [path]) p))
        else jk_map tab' p = None" for p
      proof (cases "p = path")
        case True
        then show ?thesis
          using tab(2) tab'(3,4) sidx(1) path_pos_new(2) [OF False] by simp
      next
        case other: False
        then have same: "jk_map tab' p = jk_map (path_array xc) p"
          using tab(2) tab'(3) by simp
        show ?thesis
        proof (cases "p \<in> set ps")
          case True
          then obtain b where b: "jk_map (path_array xc) p = Some b"
            "payload_of (path_array xc) b = Done (word_of_nat (path_pos ps p))"
            using ok unfolding paths_ok_def by (auto split: if_splits)
          then have "b \<noteq> a" using fresh by (auto simp: ran_def)
          then show ?thesis
            using True same b keep tab'(4) path_pos_old [OF True] by simp
        next
          case False
          then show ?thesis
            using other same ok unfolding paths_ok_def by (auto split: if_splits)
        qed
      qed
      then show ?thesis
        using xc'(3) tab'(2) more sidx(2) unfolding paths_ok_def same_paths_def by (simp add: xc1_def)
    qed
    ultimately show ?thesis
      using False xc'(2,4) path_pos_new(1) [OF False] sidx(1) by (simp add: xc1_def wrote_def)
  qed
qed


text \<open>A number as a name.\<close>

lemma uleb_no_nul: "k \<noteq> 0 \<Longrightarrow> 0 \<notin> set (uleb_bytes k)"
proof (induction k rule: uleb_bytes.induct)
  case (1 k)
  have or: "x OR 0x80 \<noteq> 0" for x :: byte
  proof
    assume "x OR 0x80 = 0"
    then have "bit (x OR 0x80) 7 = bit (0 :: byte) 7" by simp
    then show False by (simp add: bit_or_iff)
  qed
  show ?case
  proof (cases "k < 128")
    case True
    then have "\<not> 256 dvd k"
      using 1(2) by (auto dest: dvd_imp_le)
    then have "(word_of_nat k :: byte) \<noteq> 0"
      by (simp add: word_of_nat_eq_0_iff)
    then have "(word_of_int (int k mod 128) :: byte) \<noteq> 0"
      using True by simp
    then show ?thesis
      using True by (subst uleb_bytes.simps) (simp add: Let_def)
  next
    case False
    then have "0 \<notin> set (uleb_bytes (k div 128))"
      using 1(1) by auto
    then show ?thesis
      using False not_sym [OF or [of "word_of_int (int k mod 128)"]]
      by (subst uleb_bytes_rec) (simp only: if_False set_simps insert_iff empty_iff simp_thms)
  qed
qed

lemma number_name:
  assumes "v \<noteq> 0"
  shows "name_ok (uleb_bytes (unat (v :: u64)))" "name_number (uleb_bytes (unat v)) = v"
proof -
  have "unat v \<noteq> 0" using assms by (simp add: unat_gt_0)
  then show "name_ok (uleb_bytes (unat v))"
    using uleb_no_nul uleb_length_u64 [of v] by (simp add: name_ok_def FST_ID_NAM_SIZ_def)
  show "name_number (uleb_bytes (unat v)) = v"
    using fst_get_varint_uleb(2) [of _ "unat v" "[0]"] by (simp add: name_number_def)
qed

lemma double_arg_wrote:
  assumes "v \<noteq> 0" "typ = 4 \<or> typ = 5"
  shows "\<exists>xc'. fstWriterSetAttrDoubleArgGeneric typ v arg xc = Done xc' \<and>
    wrote ([252, 0, word_of_int typ] @ uleb_bytes (unat v) @ [0] @ uleb_bytes (unat arg)) xc xc' \<and>
    same_paths xc xc' \<and> maxhandle xc' = maxhandle xc"
proof -
  let ?bs = "uleb_bytes (unat v)"
  have l: "length ?bs \<le> 10" by (rule uleb_length_u64)
  have "unat v \<noteq> 0" using assms(1) by (simp add: unat_gt_0)
  then have "\<forall>b \<in> set ?bs. b \<noteq> 0"
    using uleb_no_nul by blast
  moreover obtain m where m: "11 - length ?bs = Suc m"
    using l by (cases "11 - length ?bs") simp_all
  then have "(mem_put (replicate 11 0) 0 ?bs)[length ?bs := 0] = ?bs @ 0 # replicate m 0"
    by (simp add: mem_put_def list_update_append)
  ultimately have "takeWhile (\<lambda>b. b \<noteq> 0) ((mem_put (replicate 11 0) 0 ?bs)[length ?bs := 0]) = ?bs"
    by (simp add: takeWhile_append2)
  moreover have "fstCopyVarint64ToRight (replicate 11 0) 0 v = Done (mem_put (replicate 11 0) 0 ?bs, length ?bs)"
    using fstCopyVarint64ToRight_bytes [of 0 v "replicate 11 0"] l by simp
  moreover have set: "array_set (mem_put (replicate 11 0) 0 ?bs) (int (length ?bs)) 0 =
      Done ((mem_put (replicate 11 0) 0 ?bs)[length ?bs := 0])"
    using l by (simp add: array_set_def mem_put_def)
  ultimately have "fstWriterSetAttrDoubleArgGeneric typ v arg xc = fstWriterSetAttrBegin 0 typ (Some ?bs) arg xc"
    using assms(1) by (simp add: fstWriterSetAttrDoubleArgGeneric_def set)
  moreover have "fst_attr_kind 0 typ = (0, typ)"
    by (simp add: fst_attr_kind_def)
  ultimately show ?thesis
    using attr_wrote [of 0 "typ" 0 "typ" "Some ?bs" arg xc] by (simp add: or_empty_def)
qed

section \<open>A call and its items\<close>

definition handles :: "fstHier list \<Rightarrow> u32 list" where
  "handles hs = map var_handle (filter is_HierVar hs)"

lemma handles_simps [simp]:
  "handles [] = []" "handles (hs @ hs') = handles hs @ handles hs'"
  "handles (HierScope a b c # hs) = handles hs" "handles (HierUpscope # hs) = handles hs"
  "handles (HierAttrBegin t s nam v w # hs) = handles hs" "handles (HierAttrEnd # hs) = handles hs"
  "handles (HierVar t d nam l h al # hs) = h # handles hs"
  by (simp_all add: handles_def)

text \<open>\<open>agrees n ps xc\<close>: the writer has made \<open>n\<close> handles and has seen the paths \<open>ps\<close>.\<close>

definition agrees :: "nat \<Rightarrow> byte list list \<Rightarrow> fst_writer \<Rightarrow> bool" where
  "agrees n ps xc \<longleftrightarrow> maxhandle xc = word_of_nat n \<and> paths_ok ps xc"

lemma agrees_same: "agrees n ps xc \<Longrightarrow> same_paths xc xc' \<Longrightarrow> maxhandle xc' = word_of_nat n' \<Longrightarrow> agrees n' ps xc'"
  by (simp add: agrees_def paths_ok_def same_paths_def)

definition emits :: "(byte list \<Rightarrow> byte list option) \<Rightarrow> hier_op \<Rightarrow> fst_writer \<Rightarrow> fstHier list \<Rightarrow> nat \<Rightarrow> nat \<Rightarrow> byte list list \<Rightarrow> bool" where
  "emits rp op xc items n n' ps' \<longleftrightarrow> (\<exists>xc' bs. hier_write rp op xc = Done (handles items, xc') \<and> wrote bs xc xc' \<and>
     reads bs items (word_of_nat n) (word_of_nat n') \<and> length items \<le> length bs \<and> agrees n' ps' xc')"

lemma emits_scope:
  assumes "agrees n ps xc" "op_ok rp (OpScope typ name cmp)"
  shows "emits rp (OpScope typ name cmp) xc
    [HierScope (if typ > FST_ST_MAX then 0 else ucast typ) (or_empty name) (or_empty cmp)] n n ps"
proof -
  have "agrees n ps (fstWriterSetScope typ name cmp xc)"
    using assms(1) by (rule agrees_same [OF _ scope_wrote(2)]) (use assms(1) in \<open>simp add: scope_wrote(3) agrees_def\<close>)
  then show ?thesis
    unfolding emits_def using scope_wrote(1) [of _ _ _ xc] assms(2)
    by (intro exI conjI) (auto simp: hier_write_def op_ok_def intro: reads_scope [simplified])
qed


lemma emits_upscope: "agrees n ps xc \<Longrightarrow> emits rp OpUpscope xc [HierUpscope] n n ps"
proof -
  assume a: "agrees n ps xc"
  have "agrees n ps (fstWriterSetUpscope xc)"
    by (rule agrees_same [OF a upscope_wrote(2)]) (use a in \<open>simp add: upscope_wrote(3) agrees_def\<close>)
  then show ?thesis
    unfolding emits_def using upscope_wrote(1) [of xc] reads_upscope
    by (intro exI conjI) (auto simp: hier_write_def)
qed

lemma emits_attr_end: "agrees n ps xc \<Longrightarrow> emits rp OpAttrEnd xc [HierAttrEnd] n n ps"
proof -
  assume a: "agrees n ps xc"
  have "agrees n ps (fstWriterSetAttrEnd xc)"
    by (rule agrees_same [OF a attr_end_wrote(2)]) (use a in \<open>simp add: attr_end_wrote(3) agrees_def\<close>)
  then show ?thesis
    unfolding emits_def using attr_end_wrote(1) [of xc] reads_attr_end
    by (intro exI conjI) (auto simp: hier_write_def)
qed

lemma emits_attr:
  assumes "agrees n ps xc" "op_ok rp (OpAttrBegin t s name arg)"
  shows "emits rp (OpAttrBegin t s name arg) xc [attr_item t s (or_empty name) arg] n n ps"
proof -
  obtain t' s' where k: "fst_attr_kind t s = (t', s')" by (cases "fst_attr_kind t s")
  obtain xc' where xc': "fstWriterSetAttrBegin t s name arg xc = Done xc'"
    "wrote ([252, ucast t', word_of_int s'] @ or_empty name @ [0] @ uleb_bytes (unat arg)) xc xc'"
    "same_paths xc xc'" "maxhandle xc' = maxhandle xc"
    using attr_wrote [OF k] by blast
  have "agrees n ps xc'"
    by (rule agrees_same [OF assms(1) xc'(3)]) (use assms(1) xc'(4) in \<open>simp add: agrees_def\<close>)
  moreover have "handles [attr_item t s (or_empty name) arg] = []"
    by (simp add: attr_item_def k Let_def)
  moreover have "reads ([252, ucast t', word_of_int s'] @ or_empty name @ [0] @ uleb_bytes (unat arg))
      [attr_item t s (or_empty name) arg] (word_of_nat n) (word_of_nat n)"
    using reads_attr [of "or_empty name" "ucast t'" "word_of_int s'" arg] assms(2)
    by (simp add: attr_item_def k Let_def op_ok_def)
  ultimately show ?thesis
    unfolding emits_def using xc'(1,2)
    by (intro exI [of _ xc'] exI [of _ "[252, ucast t', word_of_int s'] @ or_empty name @ [0] @ uleb_bytes (unat arg)"])
      (simp add: hier_write_def)
qed

lemma emits_var:
  assumes "agrees n ps xc" "op_ok rp (OpVar vt vd len nam alias)" "n + 1 < 2 ^ 32"
  shows "case op_items rp n ps (OpVar vt vd len nam alias) of (items, n', ps') \<Rightarrow>
    emits rp (OpVar vt vd len nam alias) xc items n n' ps'"
proof -
  define a where "a = used_alias alias xc"
  obtain xc' where xc': "fstWriterCreateVar vt vd len (Some nam) alias xc = Done (if a = 0 then maxhandle xc + 1 else a, xc')"
    "wrote ([ucast vt, ucast vd] @ nam @ [0] @ uleb_bytes (unat (fst_var_len vt len)) @ uleb_bytes (unat a)) xc xc'"
    "same_paths xc xc'" "maxhandle xc' = (if a = 0 then maxhandle xc + 1 else maxhandle xc)"
    using var_wrote unfolding a_def by blast
  have max: "maxhandle xc = word_of_nat n" "unat (maxhandle xc) = n"
    using assms(1,3) by (simp_all add: agrees_def unat_of_nat take_bit_nat_eq_self)
  have a: "a = (if alias = 0 \<or> unat alias > n then 0 else alias)"
    using max by (simp add: a_def used_alias_def word_less_nat_alt)
  have "unat vt \<le> 29" using assms(2) by (simp add: op_ok_def word_le_nat_alt)
  then have "unat vt < 2 ^ 8" by simp
  then have "take_bit LENGTH(8) (unat vt) = unat vt"
    by (intro take_bit_nat_eq_self) simp
  then have vt: "unat (ucast vt :: byte) = unat vt"
    by (simp only: unsigned_ucast_eq)
  have "unat (ucast (ucast vt :: byte) :: u32) = take_bit LENGTH(32) (unat (ucast vt :: byte))"
    by (rule unsigned_ucast_eq)
  also have "\<dots> = unat (ucast vt :: byte)"
    using vt \<open>unat vt < 2 ^ 8\<close> by (intro take_bit_nat_eq_self) simp
  finally have t: "(ucast vt :: byte) \<le> 29" "ucast (ucast vt :: byte) = vt"
    using vt \<open>unat vt \<le> 29\<close> by (simp add: word_le_nat_alt, simp only: word_unat_eq_iff)
  let ?n = "if a = 0 then n + 1 else n"
  let ?item = "HierVar (ucast vt) (ucast vd) nam
      (if vt = FST_VT_VCD_PORT then (fst_var_len vt len - 2) div 3 else fst_var_len vt len)
      (if a = 0 then word_of_nat n + 1 else a) (a \<noteq> 0)"
  have items: "op_items rp n ps (OpVar vt vd len nam alias) = ([?item], ?n, ps)"
    using a by (auto simp: op_items_def Let_def add.commute)
  have num: "(word_of_nat ?n :: u32) = (if a = 0 then word_of_nat n + 1 else word_of_nat n)"
    by (simp add: add.commute)
  have nam: "name_ok nam" using assms(2) by (simp add: op_ok_def)
  have "agrees ?n ps xc'"
    by (rule agrees_same [OF assms(1) xc'(3)]) (simp add: xc'(4) max add.commute)
  moreover have "reads ([ucast vt, ucast vd] @ nam @ [0] @ uleb_bytes (unat (fst_var_len vt len)) @ uleb_bytes (unat a))
      [?item] (word_of_nat n) (word_of_nat ?n)"
    using reads_var [OF nam t(1), of "ucast vd" "fst_var_len vt len" a "word_of_nat n"] unfolding num t(2) .
  ultimately have "emits rp (OpVar vt vd len nam alias) xc [?item] n ?n ps"
    unfolding emits_def using xc'(1,2)
    by (intro exI [of _ xc'] exI [of _ "[ucast vt, ucast vd] @ nam @ [0] @ uleb_bytes (unat (fst_var_len vt len)) @ uleb_bytes (unat a)"])
      (simp add: hier_write_def max)
  then show ?thesis by (simp add: items)
qed

lemma emits_source:
  assumes "agrees n ps xc" "op_ok rp (OpSource t path line use)" "length ps + 1 < 2 ^ 32"
  shows "case op_items rp n ps (OpSource t path line use) of (items, n', ps') \<Rightarrow>
    emits rp (OpSource t path line use) xc items n n' ps'"
proof (cases "path = []")
  case True
  then have "emits rp (OpSource t path line use) xc [] n n ps"
    unfolding emits_def using assms(1) reads_Nil
    by (intro exI [of _ xc] exI [of _ "[]"]) (simp add: hier_write_def fstWriterSetSourceStem_2_def wrote_def)
  then show ?thesis using True by (simp add: op_items_def)
next
  case False
  let ?k = "path_pos ps path" and ?v = "word_of_nat (path_pos ps path) :: u64"
  let ?ps = "if path \<in> set ps then ps else ps @ [path]"
  let ?one = "[252, 0, 3] @ shown_path rp use path @ [0] @ uleb_bytes (unat ?v)"
  let ?two = "[252, 0, word_of_int t] @ uleb_bytes (unat ?v) @ [0] @ uleb_bytes (unat (ucast line :: u64))"
  let ?stem = "HierAttrBegin 0 (word_of_int t) (uleb_bytes ?k) (ucast line) (Some ?v)"
  have t: "t = 4 \<or> t = 5" and path: "length path < 2 ^ 32" "name_ok (shown_path rp use path)"
    using assms(2) by (simp_all add: op_ok_def)
  have "?k < 2 ^ 33" "?k \<noteq> 0"
    using path_pos_bounds [of path ps] path_pos_new(1) [of path ps] assms(3)
    by (cases "path \<in> set ps"; simp)+
  then have k: "?v \<noteq> 0" "unat ?v = ?k"
    using word_of_nat_u64_eq_0 [of ?k] less_trans [of ?k "2 ^ 33" "2 ^ 64"]
    by (simp_all add: unat_of_nat take_bit_nat_eq_self)
  obtain xc1 where xc1: "fst_path_index rp path use xc = Done (?v, xc1)" "paths_ok ?ps xc1" "maxhandle xc1 = maxhandle xc"
    "wrote (if path \<in> set ps then [] else ?one) xc xc1"
    using path_index_ok [OF _ path(1) assms(3), of xc rp use] assms(1) by (auto simp: agrees_def)
  obtain xc' where xc': "fstWriterSetAttrDoubleArgGeneric t ?v (ucast line) xc1 = Done xc'" "wrote ?two xc1 xc'"
    "same_paths xc1 xc'" "maxhandle xc' = maxhandle xc1"
    using double_arg_wrote [OF k(1) t] by blast
  have run: "hier_write rp (OpSource t path line use) xc = Done ([], xc')"
    using False xc1(1) xc'(1) by (simp add: hier_write_def fstWriterSetSourceStem_2_def)
  have agrees: "agrees n ?ps xc'"
    by (rule agrees_same [OF _ xc'(3)]) (use assms(1) xc1(2,3) xc'(4) in \<open>auto simp: agrees_def\<close>)
  have two: "reads ?two [?stem] c c" for c
    using reads_attr [OF number_name(1) [OF k(1)], of 0 "word_of_int t" "ucast line" c] number_name(2) [OF k(1)] t
    by (auto simp: k(2))
  have one: "reads ?one [attr_item 0 3 (shown_path rp use path) ?v] c c" for c
    using reads_attr [OF path(2), of 0 3 ?v c] by (simp add: attr_item_def fst_attr_kind_def)
  show ?thesis
  proof (cases "path \<in> set ps")
    case True
    then have "emits rp (OpSource t path line use) xc [?stem] n n ps"
      unfolding emits_def using run agrees two wrote_append [OF xc1(4) xc'(2)]
      by (intro exI [of _ xc'] exI [of _ ?two]) simp
    then show ?thesis using True False by (simp add: op_items_def Let_def)
  next
    case new: False
    have "wrote (?one @ ?two) xc xc'"
      using wrote_append [OF xc1(4) xc'(2)] new by simp
    moreover have "reads (?one @ ?two) ([attr_item 0 3 (shown_path rp use path) ?v] @ [?stem]) (word_of_nat n) (word_of_nat n)"
      by (rule reads_append [OF one two])
    moreover have "handles [attr_item 0 3 (shown_path rp use path) ?v, ?stem] = []"
      by (simp add: attr_item_def fst_attr_kind_def)
    ultimately have "emits rp (OpSource t path line use) xc [attr_item 0 3 (shown_path rp use path) ?v, ?stem] n n (ps @ [path])"
      unfolding emits_def using run agrees new
      by (intro exI [of _ xc'] exI [of _ "?one @ ?two"]) simp
    then show ?thesis using new False by (simp add: op_items_def Let_def)
  qed
qed


lemma emits_op:
  assumes "agrees n ps xc" "op_ok rp op" "n + 1 < 2 ^ 32" "length ps + 1 < 2 ^ 32"
  shows "case op_items rp n ps op of (items, n', ps') \<Rightarrow>
    emits rp op xc items n n' ps' \<and> n' \<le> n + 1 \<and> length ps' \<le> length ps + 1"
proof -
  have "case op_items rp n ps op of (items, n', ps') \<Rightarrow> n' \<le> n + 1 \<and> length ps' \<le> length ps + 1"
    by (cases op) (auto simp: op_items_def Let_def)
  moreover have "case op_items rp n ps op of (items, n', ps') \<Rightarrow> emits rp op xc items n n' ps'"
  proof (cases op)
    case (OpScope t nam cmp)
    then show ?thesis using emits_scope assms(1,2) by (auto simp: op_items_def)
  next
    case OpUpscope
    then show ?thesis using emits_upscope assms(1) by (auto simp: op_items_def)
  next
    case (OpVar vt vd len nam al)
    then show ?thesis using emits_var assms(1-3) by metis
  next
    case (OpAttrBegin t s nam arg)
    then show ?thesis using emits_attr assms(1,2) by (auto simp: op_items_def)
  next
    case OpAttrEnd
    then show ?thesis using emits_attr_end assms(1) by (auto simp: op_items_def)
  next
    case (OpSource t path line use)
    then show ?thesis using emits_source assms(1,2,4) by metis
  qed
  ultimately show ?thesis by auto
qed

lemma hier_writes_items:
  "agrees n ps xc \<Longrightarrow> \<forall>op \<in> set ops. op_ok rp op \<Longrightarrow> n + length ops < 2 ^ 32 \<Longrightarrow> length ps + length ops < 2 ^ 32 \<Longrightarrow>
   \<exists>xc' bs n'. hier_writes rp ops xc = Done (handles (hier_items rp n ps ops), xc') \<and> wrote bs xc xc' \<and>
     reads bs (hier_items rp n ps ops) (word_of_nat n) (word_of_nat n') \<and> length (hier_items rp n ps ops) \<le> length bs"
proof (induction ops arbitrary: n ps xc)
  case Nil
  have "wrote [] xc xc" by (simp add: wrote_def)
  then show ?case using reads_Nil by (auto intro!: exI [of _ "[]"])
next
  case (Cons op ops)
  obtain items n1 ps1 where items: "op_items rp n ps op = (items, n1, ps1)" by (cases "op_items rp n ps op")
  have op: "emits rp op xc items n n1 ps1" "n1 \<le> n + 1" "length ps1 \<le> length ps + 1"
    using emits_op [OF Cons.prems(1), of rp op] Cons.prems(2-4) by (auto simp: items)
  obtain xc1 bs where xc1: "hier_write rp op xc = Done (handles items, xc1)" "wrote bs xc xc1"
    "reads bs items (word_of_nat n) (word_of_nat n1)" "length items \<le> length bs" "agrees n1 ps1 xc1"
    using op(1) unfolding emits_def by blast
  obtain xc2 bs' n2 where xc2: "hier_writes rp ops xc1 = Done (handles (hier_items rp n1 ps1 ops), xc2)" "wrote bs' xc1 xc2"
    "reads bs' (hier_items rp n1 ps1 ops) (word_of_nat n1) (word_of_nat n2)" "length (hier_items rp n1 ps1 ops) \<le> length bs'"
    using Cons.IH [OF xc1(5)] Cons.prems(2-4) op(2,3) by auto
  show ?case
    using xc1(1,4) xc2(1,4) wrote_append [OF xc1(2) xc2(2)] reads_append [OF xc1(3) xc2(3)]
    by (auto simp: items intro!: exI [of _ "bs @ bs'"])
qed

text \<open>A context of the writer in which nothing was created, and one of the reader that was not read from.\<close>

definition writer_fresh :: "fst_writer \<Rightarrow> bool" where
  "writer_fresh xc \<longleftrightarrow> hier_handle xc = [] \<and> hier_file_len xc = 0 \<and> maxhandle xc = 0 \<and>
     path_array xc = jenkins_empty \<and> path_array_count xc = 0"

lemma agrees_fresh: "writer_fresh xc \<Longrightarrow> agrees 0 [] xc"
  using jk_ok_empty [of FST_PATH_HASHMASK] by (simp add: writer_fresh_def agrees_def paths_ok_def FST_PATH_HASHMASK_def)

lemma read_hier_at_end:
  assumes "reading xc" "fh xc = file_of []"
  shows "\<exists>xc'. read_hier (Suc k) recreate xc = Done ([], xc')"
  using assms by (auto simp: fstReaderIterateHier_def fst_hier_open_def reading_def feof_def file_of_def fst_hier_item_def fgetc_def)

lemma read_hier_all:
  assumes "reads bs hs 0 c" "length hs \<le> length bs" "hier_file rd = None"
    and "fstReaderIterateHierRewind (Some (bs, True)) rd = (ok, rd')"
  shows "ok \<and> (\<exists>rd''. read_hier (length bs + 1) (Some (bs, True)) rd' = Done (hs, rd''))"
proof -
  have rd': "ok" "rd' = rd\<lparr>hier_file := Some bs, fh := file_of [], do_rewind := True\<rparr>"
    using assms(3,4) by (simp_all add: fstReaderIterateHierRewind_def fst_hier_open_def)
  define rd1 where "rd1 = rd'\<lparr>do_rewind := False, current_handle := 0, fh := file_of bs\<rparr>"
  have r1: "reading rd1" "fh rd1 = file_of (bs @ [])" "current_handle rd1 = 0"
    by (simp_all add: rd1_def reading_def rd')
  have "fstReaderIterateHier (Some (bs, True)) rd' = fstReaderIterateHier (Some (bs, True)) rd1"
    by (simp add: fstReaderIterateHier_def fst_hier_open_def rd1_def rd' Let_def or_empty_def)
  then have start: "read_hier (Suc k) (Some (bs, True)) rd' = read_hier (Suc k) (Some (bs, True)) rd1" for k
    by simp
  obtain j where j: "length bs + 1 = length hs + Suc j"
    using assms(2) by (metis Suc_eq_plus1 add_Suc_right le_iff_add)
  have "read_hier (length hs + Suc j) (Some (bs, True)) rd1 =
      rbind (read_hier (Suc j) (Some (bs, True)) (rd1\<lparr>fh := file_of [], current_handle := c\<rparr>)) (\<lambda>(hs', xc). Done (hs @ hs', xc))"
    using assms(1) r1 unfolding reads_def by blast
  moreover obtain rd'' where "read_hier (Suc j) (Some (bs, True)) (rd1\<lparr>fh := file_of [], current_handle := c\<rparr>) = Done ([], rd'')"
    using read_hier_at_end [of "rd1\<lparr>fh := file_of [], current_handle := c\<rparr>"] r1(1) by fastforce
  ultimately show ?thesis
    using rd'(1) start [of "length bs"] j by (simp del: read_hier.simps)
qed

text \<open>
  C4: The hierarchy that a client builds through the functions of the writer is the hierarchy that
  \<open>fstReaderIterateHier\<close> returns: scopes, variables and attributes come back in their order, with their
  names, kinds, lengths and arguments; the handles that the reader counts are those that \<open>fstWriterCreateVar\<close>
  returned, also for aliases; and the number of every source path is announced, once, before it is used.
  The length that the writer keeps for the header of the section is that of the section.
\<close>

theorem fst_hierarchy_roundtrip:
  assumes "writer_fresh xc" "\<forall>op \<in> set ops. op_ok rp op" "length ops < 2 ^ 32" "hier_file rd = None"
  shows "\<exists>xc' rd' rd''. hier_writes rp ops xc = Done (handles (hier_items rp 0 [] ops), xc') \<and>
    hier_file_len xc' = int (length (hier_handle xc')) \<and>
    fstReaderIterateHierRewind (Some (hier_handle xc', True)) rd = (True, rd') \<and>
    read_hier (length (hier_handle xc') + 1) (Some (hier_handle xc', True)) rd' = Done (hier_items rp 0 [] ops, rd'')"
proof -
  let ?items = "hier_items rp 0 [] ops"
  obtain xc' bs n where w: "hier_writes rp ops xc = Done (handles ?items, xc')" "wrote bs xc xc'"
    "reads bs ?items 0 (word_of_nat n)" "length ?items \<le> length bs"
    using hier_writes_items [OF agrees_fresh [OF assms(1)] assms(2)] assms(3) by auto
  then have bs: "hier_handle xc' = bs" "hier_file_len xc' = int (length bs)"
    using assms(1) by (simp_all add: wrote_def writer_fresh_def)
  obtain ok rd' where r: "fstReaderIterateHierRewind (Some (bs, True)) rd = (ok, rd')"
    by (cases "fstReaderIterateHierRewind (Some (bs, True)) rd")
  show ?thesis
    using read_hier_all [OF w(3,4) assms(4) r] r w(1) bs by auto
qed


text \<open>A scope with a source line, a variable and an alias of it\<close>

definition hier_demo :: "hier_op list" where
  "hier_demo = [OpSource 4 [97, 46, 118] 7 False, OpScope 0 (Some [116]) None, OpVar 16 0 1 [97] 0,
     OpSource 4 [97, 46, 118] 9 False, OpVar 16 1 1 [98] 1, OpUpscope]"

theorem fst_hierarchy_roundtrip_witness:
  "\<exists>xc' rd' rd''. hier_writes (\<lambda>_. None) hier_demo (fst_writer_new 0 (replicate 8 0)) = Done ([1, 1], xc') \<and>
    fstReaderIterateHierRewind (Some (hier_handle xc', True))
      \<lparr>hier_file = None, fh = file_of [], do_rewind = False, current_handle = 0\<rparr> = (True, rd') \<and>
    read_hier (length (hier_handle xc') + 1) (Some (hier_handle xc', True)) rd' =
      Done ([HierAttrBegin 0 3 [97, 46, 118] 1 None, HierAttrBegin 0 4 [1] 7 (Some 1),
         HierScope 0 [116] [], HierVar 16 0 [97] 1 1 False,
         HierAttrBegin 0 4 [1] 9 (Some 1), HierVar 16 1 [98] 1 1 True, HierUpscope], rd'')"
proof -
  have items: "hier_items (\<lambda>_. None) 0 [] hier_demo =
      [HierAttrBegin 0 3 [97, 46, 118] 1 None, HierAttrBegin 0 4 [1] 7 (Some 1),
       HierScope 0 [116] [], HierVar 16 0 [97] 1 1 False,
       HierAttrBegin 0 4 [1] 9 (Some 1), HierVar 16 1 [98] 1 1 True, HierUpscope]"
    by code_simp
  have "\<forall>op \<in> set hier_demo. op_ok (\<lambda>_. None) op"
    by (simp add: hier_demo_def op_ok_def name_ok_def shown_path_def or_empty_def FST_ID_NAM_SIZ_def)
  moreover have "writer_fresh (fst_writer_new 0 (replicate 8 0))"
    by (simp add: writer_fresh_def fst_writer_new_def)
  moreover have "length hier_demo < 2 ^ 32"
    by (simp add: hier_demo_def)
  ultimately show ?thesis
    using fst_hierarchy_roundtrip [of "fst_writer_new 0 (replicate 8 0)" hier_demo "\<lambda>_. None"
        "\<lparr>hier_file = None, fh = file_of [], do_rewind = False, current_handle = 0\<rparr>"]
    by (auto simp: items)
qed

section \<open>Names that do not fit\<close>

lemma fst_get_name_overflow:
  "length buf \<le> FST_ID_NAM_SIZ + 1 \<Longrightarrow> 0 \<notin> set (take (FST_ID_NAM_SIZ + 1 - length buf) (st_rest f)) \<Longrightarrow>
   fst_get_name buf f = Crash Out_of_bounds"
proof (induction "FST_ID_NAM_SIZ + 1 - length buf" arbitrary: buf f)
  case 0
  then show ?case by (subst fst_get_name.simps) simp
next
  case (Suc n)
  then have l: "length buf < FST_ID_NAM_SIZ + 1" by simp
  show ?case
  proof (cases "st_rest f")
    case Nil
    have "fst_get_name (buf @ [-1]) (at_end f) = Crash Out_of_bounds"
      using Suc.hyps(1) [of "buf @ [-1]" "at_end f"] Suc.hyps(2) l by simp
    then show ?thesis
      using l Nil by (subst fst_get_name.simps) (simp add: fgetc_simps)
  next
    case (Cons b s)
    have "FST_ID_NAM_SIZ + 1 - length buf = Suc (FST_ID_NAM_SIZ + 1 - length (buf @ [b]))"
      using l by simp
    then have "b \<noteq> 0" "0 \<notin> set (take (FST_ID_NAM_SIZ + 1 - length (buf @ [b])) s)"
      using Suc.prems(2) unfolding Cons by (auto simp del: diff_Suc_Suc)
    then have "fst_get_name (buf @ [b]) (f\<lparr>st_rest := s\<rparr>) = Crash Out_of_bounds"
      using Suc.hyps(1) [of "buf @ [b]" "f\<lparr>st_rest := s\<rparr>"] Suc.hyps(2) l by simp
    then show ?thesis
      using l Cons \<open>b \<noteq> 0\<close> by (subst fst_get_name.simps) (simp add: fgetc_simps)
  qed
qed

text \<open>
  C35: The readers of names have a buffer of 513 bytes and do not look how full it is, nor for the end of the
  file, where \<open>fgetc\<close> gives EOF for ever. A comment of more than 512 characters, which the writer accepts, is
  written behind the end of the buffer; and so is a name of any length that the end of the file cuts off, in a
  scope, an attribute or a variable.
\<close>

theorem fst_long_comment:
  assumes "0 \<notin> set name" "writer_fresh xc" "hier_file rd = None"
    and "start \<in> {[254, typ], [252, typ, sub]} \<or> start = [tag, dir] \<and> tag \<le> 29"
  shows "(512 < length name \<longrightarrow> (\<exists>xc' rd'. fstWriterSetComment (Some name) xc = Done xc' \<and>
      fstReaderIterateHierRewind (Some (hier_handle xc', True)) rd = (True, rd') \<and>
      fstReaderIterateHier (Some (hier_handle xc', True)) rd' = Crash Out_of_bounds)) \<and>
    (\<exists>rd'. fstReaderIterateHierRewind (Some (start @ name, True)) rd = (True, rd') \<and>
      fstReaderIterateHier (Some (start @ name, True)) rd' = Crash Out_of_bounds)"
proof (intro conjI impI)
  assume long: "512 < length name"
  let ?name = "map (\<lambda>c. if c = 10 \<or> c = 13 then 32 else c) name"
  have "0 \<notin> set (take 513 (?name @ rest))" for rest
    using assms(1) long set_take_subset [of 513 ?name] by auto
  then have over: "fst_get_name [] (file_of (?name @ rest)) = Crash Out_of_bounds" for rest
    by (intro fst_get_name_overflow) (simp_all add: FST_ID_NAM_SIZ_def)
  obtain xc' where w: "fstWriterSetComment (Some name) xc = Done xc'"
    and bs: "hier_handle xc' = [252, 0, 0] @ ?name @ [0] @ uleb_bytes 0"
    using attr_wrote [of 0 0 0 0 "Some ?name" 0 xc] assms(2)
    by (auto simp: fst_attr_kind_def fstWriterSetComment_def fstWriterSetAttrGeneric_def wrote_def writer_fresh_def or_empty_def)
  show "\<exists>xc' rd'. fstWriterSetComment (Some name) xc = Done xc' \<and>
      fstReaderIterateHierRewind (Some (hier_handle xc', True)) rd = (True, rd') \<and>
      fstReaderIterateHier (Some (hier_handle xc', True)) rd' = Crash Out_of_bounds"
    using w over [of "[0] @ uleb_bytes 0"]
    by (auto simp: bs fstReaderIterateHierRewind_def fstReaderIterateHier_def fst_hier_open_def assms(3) Let_def
        or_empty_def feof_def fst_hier_item_def fst_hier_attr_def)
next
  have "0 \<notin> set (take 513 name)"
    using assms(1) set_take_subset [of 513 name] by auto
  then have over: "fst_get_name [] (file_of name) = Crash Out_of_bounds"
    by (intro fst_get_name_overflow) (simp_all add: FST_ID_NAM_SIZ_def)
  have tags: "tag \<noteq> 254 \<and> tag \<noteq> 255 \<and> tag \<noteq> 252 \<and> tag \<noteq> 253" if "tag \<le> 29"
    using that by auto
  show "\<exists>rd'. fstReaderIterateHierRewind (Some (start @ name, True)) rd = (True, rd') \<and>
      fstReaderIterateHier (Some (start @ name, True)) rd' = Crash Out_of_bounds"
    using over assms(4) tags
    by (auto simp: fstReaderIterateHierRewind_def fstReaderIterateHier_def fst_hier_open_def assms(3) Let_def
        or_empty_def feof_def fst_hier_item_def fst_hier_scope_def fst_hier_attr_def fst_hier_var_def)
qed

text \<open>A long comment, and the scope \<open>ab\<close> that is cut off behind its name\<close>

theorem fst_long_comment_witness:
  "(\<exists>xc' rd'. fstWriterSetComment (Some (replicate 600 97)) (fst_writer_new 0 (replicate 8 0)) = Done xc' \<and>
     fstReaderIterateHierRewind (Some (hier_handle xc', True))
       \<lparr>hier_file = None, fh = file_of [], do_rewind = False, current_handle = 0\<rparr> = (True, rd') \<and>
     fstReaderIterateHier (Some (hier_handle xc', True)) rd' = Crash Out_of_bounds) \<and>
   (\<exists>rd'. fstReaderIterateHierRewind (Some ([254, 0, 97, 98], True))
       \<lparr>hier_file = None, fh = file_of [], do_rewind = False, current_handle = 0\<rparr> = (True, rd') \<and>
     fstReaderIterateHier (Some ([254, 0, 97, 98], True)) rd' = Crash Out_of_bounds)"
proof -
  let ?xc = "fst_writer_new 0 (replicate 8 0)"
  let ?rd = "\<lparr>hier_file = None, fh = file_of [], do_rewind = False, current_handle = 0\<rparr>"
  have fresh: "writer_fresh ?xc"
    by (simp add: writer_fresh_def fst_writer_new_def)
  have "0 \<notin> set (replicate 600 (97 :: byte))" "512 < length (replicate 600 (97 :: byte))"
    by (simp_all add: set_replicate_conv_if del: replicate.simps replicate_Suc)
  then show ?thesis
    using fst_long_comment [OF _ fresh, of "replicate 600 97" ?rd "[254, 0]" 0]
      fst_long_comment [OF _ fresh, of "[97, 98]" ?rd "[254, 0]" 0] by simp
qed

end
