(* ===== verification/Spec2Isabelle.thy ===== *)
theory Spec2Isabelle
  imports Ghwdump_Total Grt_Win32 Grt_Vpi Grt_Support Ortho_Programs Ortho_Subprograms Ortho_Records Ortho_Objects
    Ortho_Stack Ortho_Hooks Fst_Fastlz_Correct Fst_Escape Fst_Hier_Items
begin

text \<open>
  A verification of the C code of GHDL. One part of it belongs to the run time: the library that reads
  waveform files (\<open>src/grt/ghwlib.c\<close>, \<open>ghwlib.h\<close>), the program \<open>ghwdump\<close> (\<open>ghwdump.c\<close>), and the C parts
  of the simulator's run time (\<open>config/jumps.c\<close>, \<open>config/win32.c\<close>, \<open>grt-cvpi.c\<close>, \<open>vpi_thunk.c\<close>,
  \<open>grt-cbinding.c\<close>, \<open>config/times.c\<close>, \<open>config/clock.c\<close>). The other part belongs to the code generation: the
  back end that makes trees of GCC (\<open>ortho/gcc/ortho-lang-7.c\<close>) and the memory of the mcode back end
  (\<open>ortho/mcode/memsegs_c.c\<close>). A third part writes and reads the compact waveform format FST
  (\<open>grt/fst/fstapi.c\<close>, \<open>fastlz.c\<close>): modelled are its numbers, texts, hash table and hierarchy, and the
  compressor FastLZ. Of the simulator, which is written in Ada, the encoders of the waveform
  writer (\<open>grt-waves.adb\<close>) are modelled too, since they say what the reader has to read.

  The parts and how they interact. The compiler, also written in Ada, calls the functions of
  \<open>ortho-lang-7.c\<close> for every type, declaration, expression and statement; they keep a stack of binding levels and
  a current list of statements, and give trees to GCC. A simulation writes a waveform file: a header, the
  sections STR (strings), TYP (types), WKT (well-known types), HIE (hierarchy) and EOH, then a snapshot SNP of
  all signals and cycles CYC with the changes, and a directory DIR and a tailer TAI. \<open>ghw_open\<close> checks the
  header; \<open>ghw_read_base\<close> reads the sections up to EOH into the tables of the handler; \<open>ghw_read_sm\<close>
  goes from snapshot to cycle and keeps the table of the signals at the values of the current time;
  \<open>ghw_disp_\<dots>\<close> print what was read. \<open>ghwdump\<close> calls these for each of its files. The mechanism of
  \<open>jumps.c\<close> and \<open>win32.c\<close> brings the control from an error in a simulation back to the main program;
  the VPI bridge connects foreign modules with the run time.

  How C is modelled (\<open>Ghw_Prelude\<close>, \<open>C_Stdio\<close>). A function is a HOL function that passes on the state
  it works on. Its outcome is of the type \<open>run\<close>: \<open>Done\<close> with the value that is returned and the new
  state, or \<open>Crash\<close> with the reason why C code does not return: a call of \<open>abort\<close>, an access through
  NULL, outside of an array, to memory that was never written or to the wrong member of a union, an
  overflow of a signed operation, a shift that is too wide, a bad jump or release of memory, or the end
  of the fuel of a loop (\<open>No_return\<close>). Unsigned values are words; an \<open>int\<close> is an integer with a check
  for overflow, or the 32 bits of a word where the code shifts it. An input stream is the list of the
  bytes that are left. Pointers to types are values, with the address in the value where addresses are
  compared; the nodes of the hierarchy, which are linked while they are built, are kept in a list and
  are referred to by their index. Error results are the numbers or options that the code returns. The trees of
  GCC are addresses in a store that only GCC knows: the record \<open>gcc\<close> of \<open>Ortho_Gcc\<close> has the functions and
  macros of GCC on it, and \<open>gcc_ok\<close> what is documented of them.

  The theories:

  \<^item> \<open>Ghw_Prelude\<close>: outcomes, sequencing, \<open>runs_to\<close>, \<open>may_run\<close> and \<open>stops\<close>, C's \<open>int\<close>, arrays.
    \<open>C_Stdio\<close>: \<open>fgetc\<close>, \<open>fread\<close>, \<open>feof\<close> and decimal conversions. \<open>Ghw_Data\<close>: the types of \<open>ghwlib.h\<close>.
  \<^item> \<open>Ghw_Stream\<close>: the contracts of the readers as locales: \<open>reader\<close> (the stream moves forward, nothing
    else changes), \<open>wire_codec\<close> (and the reader inverts an encoder), \<open>section_reader\<close>. \<open>Ghw_Writer\<close>: the
    encoders of the writer. \<open>Ghw_Numbers\<close>: bytes, words, LEB128 and floating point numbers, as
    interpretations of \<open>wire_codec\<close>. \<open>Ghw_Open\<close>: \<open>ghw_open\<close> and \<open>ghw_close\<close>.
  \<^item> \<open>Ghw_Strings\<close>: \<open>ghw_read_str\<close> and the compression of strings that it undoes. \<open>Ghw_Types\<close>: ranges,
    types, well-known types. \<open>Ghw_Type_Inv\<close>: the well-formedness of types and the count of their scalars.
  \<^item> \<open>Ghw_Values\<close>: values, snapshots and cycles. \<open>Ghw_Hierarchy\<close>: \<open>ghw_read_signal\<close> and \<open>ghw_read_hie\<close>.
    \<open>Ghw_Signal_Inv\<close>: the accesses of \<open>ghw_read_signal\<close>. \<open>Ghw_Hie_Tree\<close>: the tree that \<open>ghw_read_hie\<close>
    builds. \<open>Ghw_Sections\<close>: \<open>ghw_read_base\<close>, the state machine \<open>ghw_read_sm\<close>, whole dumps.
  \<^item> \<open>Ghw_Display\<close> and \<open>Ghw_Disp_Hie\<close>: the functions that print; their output is their value.
    \<open>Ghw_Disp_Order\<close>: printing stops and follows the order of the file. \<open>Ghwdump\<close>: the program.
    \<open>Ghwdump_Total\<close>: the locale \<open>total_section\<close>, interpreted for the readers of all nine sections, and
    the loops of the program.
  \<^item> \<open>Grt_Jumps\<close> and \<open>Grt_Win32\<close>: \<open>__ghdl_run_through_longjump\<close> on Linux and on Windows, with an
    interpreter for the calls, errors and faults of the function that is run. \<open>Grt_Vpi\<close>: the table of
    VPI functions, its stubs, and the loader of modules. On Windows \<open>win_exec\<close> has the processor as a parameter:
    only on i386 does the code install a handler of exceptions. \<open>Grt_Support\<close>: conversions, clocks and memory
    segments.
  \<^item> \<open>Fst_Fastlz\<close>: both levels of the compressor of \<open>fastlz.c\<close> and its decompressor. \<open>Fst_Fastlz_Tokens\<close>: the
    tokens of a compressed block and what they expand to; \<open>Fst_Fastlz_Encode\<close>, \<open>Fst_Fastlz_Inv\<close>: what the
    compressor has written are tokens of the input so far; \<open>Fst_Fastlz_Decode\<close>: the decompressor expands tokens;
    \<open>Fst_Fastlz_Correct\<close>: both together, and the decompressor on arbitrary input.
  \<^item> The model of \<open>fstapi.c\<close>, with the names of the source: \<open>Fst_Numbers\<close> (variable-length numbers), \<open>Fst_Escape\<close>
    (escaped text, names of signals), \<open>Fst_Jenkins\<close> (the hash table, with its links in memory, represents a map),
    \<open>Fst_Hierarchy\<close> (the writer's scopes, variables, attributes and source paths, and \<open>fstReaderIterateHier\<close>),
    \<open>Fst_Hier_Items\<close> (what is written is what is read).
  \<^item> \<open>Ortho_Gcc\<close>: GCC as a parameter. The model of \<open>ortho-lang-7.c\<close>, function by function with the names of the
    source: \<open>Ortho_Bindings\<close> (the static variables and the binding levels), \<open>Ortho_Types\<close>, \<open>Ortho_Exprs\<close>,
    \<open>Ortho_Decls\<close>, \<open>Ortho_Stmts\<close>, \<open>Ortho_Hooks\<close> (what GCC calls).
  \<^item> \<open>Ortho_Laws\<close>: the documented behaviour as rules. \<open>Ortho_Chains\<close>: the locale \<open>chain_builder\<close> of the
    functions that append to a chain of nodes, interpreted for fields, types of parameters, declarations and
    blocks. \<open>Ortho_Keeps\<close>: what steps leave as it was. \<open>Ortho_Store\<close>: a store with the documented behaviour.
  \<^item> \<open>Ortho_Emit\<close>: structured programs, how a front end drives the statement functions for them, and the
    relation \<open>represents\<close> between a program and the nodes that stand for it. \<open>Ortho_Refine\<close>,
    \<open>Ortho_Structured\<close>: every statement is well emitted. \<open>Ortho_Programs\<close>: the bodies of subprograms.
    \<open>Ortho_Subprograms\<close>, \<open>Ortho_Records\<close>, \<open>Ortho_Objects\<close>, \<open>Ortho_Stack\<close>: declarations of subprograms,
    records and their aggregates, literals and addresses, allocation on the stack.

  What the lemmas show. Readers invert writers: numbers, the header of the file, the string table, compressed
  blocks, escaped text, the hierarchy of FST files, and
  whole dumps, whose calls of \<open>ghw_read_sm\<close> report the values of every time. The writer of values has the byte
  order of its machine as a parameter, the reader's machine is little-endian, and \<open>ghw_read_f64\<close> does not turn
  bytes round: so floating point values of big-endian writers are left out of the dumps that are read back, and
  \<open>f64_of_other_order\<close> shows what becomes of them. The tables keep their
  shape: types are well formed and their numbers of scalars are those of their components, signals
  keep their types and hold values of the right member of the union, the hierarchy is a tree in the
  order of the file, and printing along its links is printing in that order. Bounds: reading a signal
  stays within its array for types without null ranges. Termination: \<open>stops\<close> is shown for every
  reader, for the state machine, for printing, and in this theory for \<open>ghwdump\<close> as a whole; it says that no
  loop is endless, and not that nothing crashes, for malformed files can make the readers abort or go through
  NULL (\<open>end_of_scope_at_root\<close>). Errors:
  truncated and overlong numbers, strings that are longer than announced, versions that are not known,
  null ranges, faults and exceptions, modules that cannot be loaded, memory that cannot be had. The trees that
  the back end makes represent the program that was asked for: the statements of a body, with every jump
  at a label that is there, the parameters, fields and values in their order, exact literals; levels are
  restored, and memory on the stack is released.

  Fuel. Loops over the input are recursive functions whose termination is proved by the number of bytes
  that are left, or have that number plus one as fuel (\<open>read_base_loop\<close>, \<open>read_sm_loop\<close>,
  \<open>read_cycle_loop\<close>, \<open>read_dump_loop\<close>, \<open>list_sections\<close>, \<open>dump_loop\<close>): each round reads something, and
  the lemmas on \<open>stops\<close> show that the fuel does not run out. Loops along the links of the hierarchy
  have the number of nodes as fuel, which suffices because children and brothers come behind a node
  and parents before it. The loop over the elements of an array signal has the length of the array as
  fuel, or \<open>2 ^ 31 + 1\<close> rounds when the step is negative, after which \<open>int\<close> overflows; a step of 0 only
  occurs when the length is 0. Loops along chains and references of trees have the number of the nodes as
  fuel: a chain has no node twice (\<open>chain_length_nodes\<close>), and neither has the way of a reference to its
  object (\<open>leads_to_bound\<close>).

  Parameters: \<open>fopen\<close> and \<open>popen\<close> (a function from names to streams), the conversion \<open>%g\<close> of
  \<open>printf\<close>, the dynamic linker and the modules of VPI, \<open>StackWalk64\<close>, the hook of the simulator's error
  handler (\<open>error_hook\<close>, counted when it is called), the system calls for memory (\<open>vm_system\<close>, with \<open>vm_ok\<close> for
  what is documented of them); and GCC (\<open>gcc_ok\<close>, and \<open>builtins_ok\<close> for the built-in functions), with the front end's \<open>lang_parse_file\<close> and \<open>lang_handle_option\<close>.

  Not modelled: the traces on the standard output for \<open>flag_verbose\<close> above 1 and the messages on the
  standard error; \<open>acosh\<close> and the like on doubles (\<open>config/math.c\<close> and the end of \<open>config/win32.c\<close>);
  functions of \<open>grt-cbinding.c\<close> and \<open>ortho-lang-7.c\<close> that do nothing or only pass on to the C library or to GCC;
  of \<open>src/grt/fst/\<close> the compressor LZ4, and of \<open>fstapi.c\<close> the header, the blocks of value changes, their traversal and the
  printing of the hierarchy, which rest on zlib, on memory mappings and on files that are sought in; \<open>vpi_user.h\<close>, the
  constants of a standard; and \<open>ortho-lang-6.c\<close>, \<open>-5.c\<close> and \<open>-49.c\<close>, copies of \<open>ortho-lang-7.c\<close> in which some functions
  of GCC have the names of other versions: what is shown of \<open>ortho-lang-7.c\<close> rests on \<open>gcc_ok\<close> only.
\<close>

section \<open>Properties of the whole program\<close>

text \<open>
  C1: \<open>ghwdump\<close> never runs into a loop without end: whatever its options are and whatever its files hold,
  the program comes to an end. On a malformed file this end may be a call of \<open>abort\<close> or a crash, which is not
  excluded; when the program returns, its exit status is 0, 1 or 2. The only assumption is that
  the handler does not start with a table of types that is not well formed, which holds for a table
  that was never set.
\<close>

theorem ghwdump_returns:
  assumes "types_ok h"
  shows "stops (ghwdump_main fopen popen fmt_g h args files) \<and>
    may_run (ghwdump_main fopen popen fmt_g h args files) (\<lambda>(text, status). status \<in> {0, 1, 2})"
  using ghwdump_main_stops [OF assms] by (auto intro!: may_runI dest!: ghwdump_main_status)

text \<open>The options \<open>-l\<close>, on a file that ends behind its header, and a file that does not exist\<close>

definition demo_files :: "string \<Rightarrow> c_file option" where
  "demo_files name = (if name = ''a.ghw'' then Some (file_of (write_file_header False)) else None)"

theorem ghwdump_returns_witness:
  "stops (ghwdump_main demo_files (\<lambda>_. None) (\<lambda>_. '''') zero_handler [(CHR ''l'', '''')] [''a.ghw'', ''b.ghw'']) \<and>
   ghwdump_main demo_files (\<lambda>_. None) (\<lambda>_. '''') zero_handler [(CHR ''l'', '''')] [''a.ghw'', ''b.ghw''] =
     Done (''eof of file'' @ nl, 1)"
proof (rule conjI)
  have "types_ok zero_handler" by (simp add: tab_ok_def fst_tabs zero_handler_def)
  then show "stops (ghwdump_main demo_files (\<lambda>_. None) (\<lambda>_. '''') zero_handler [(CHR ''l'', '''')] [''a.ghw'', ''b.ghw''])"
    using ghwdump_returns by blast
  show "ghwdump_main demo_files (\<lambda>_. None) (\<lambda>_. '''') zero_handler [(CHR ''l'', '''')] [''a.ghw'', ''b.ghw''] =
     Done (''eof of file'' @ nl, 1)"
    by code_simp
qed

end
